(* ===== verification/Prelude.thy ===== *)
theory Prelude
  imports Main "HOL-Library.Word"
begin

text \<open>
  Shared vocabulary of the development: machine integers and byte strings, the outcome of a
  fallible Rust function, big-endian integer coding, the string operations of the Rust standard
  library that the DNS code uses (\<open>split\<close>, \<open>join\<close>, \<open>trim_end_matches\<close>, ASCII case folding,
  UTF-8 checking), and the generic lemmas the components share.  The collection
  \<open>rust_simps\<close> holds the unfolding facts of the outcome combinators.
\<close>

unbundle bit_operations_syntax

named_theorems rust_simps \<open>unfolding facts for the outcome combinators\<close>

subsection \<open>Machine integers and byte strings\<close>

type_synonym u8 = "8 word"
type_synonym u16 = "16 word"
type_synonym u32 = "32 word"
type_synonym u64 = "64 word"
type_synonym u128 = "128 word"
type_synonym bytes = "u8 list"

text \<open>A Rust \<open>&str\<close> or \<open>String\<close> is its UTF-8 byte sequence; an ASCII literal is written with \<open>ascii\<close>.\<close>

definition ascii :: "string \<Rightarrow> bytes" where
  "ascii s = map of_char s"

abbreviation dot :: u8 where "dot \<equiv> 0x2E"
abbreviation hyphen :: u8 where "hyphen \<equiv> 0x2D"

subsection \<open>Outcomes of fallible functions\<close>

text \<open>\<open>Ok\<close> and \<open>Err\<close> are Rust's \<open>Result\<close>; \<open>Panic\<close> is a panicking slice or index operation.\<close>

datatype ('a, 'e) outcome = Ok 'a | Err 'e | Panic

fun rbind :: "('a, 'e) outcome \<Rightarrow> ('a \<Rightarrow> ('b, 'e) outcome) \<Rightarrow> ('b, 'e) outcome" where
  "rbind (Ok x) f = f x"
| "rbind (Err e) f = Err e"
| "rbind Panic f = Panic"

fun map_err :: "('e \<Rightarrow> 'f) \<Rightarrow> ('a, 'e) outcome \<Rightarrow> ('a, 'f) outcome" where
  "map_err g (Ok x) = Ok x"
| "map_err g (Err e) = Err (g e)"
| "map_err g Panic = Panic"

fun ok_or :: "'e \<Rightarrow> 'a option \<Rightarrow> ('a, 'e) outcome" where
  "ok_or e None = Err e"
| "ok_or e (Some x) = Ok x"

lemma rbind_cong [fundef_cong]:
  "\<lbrakk>m = m'; \<And>x. m' = Ok x \<Longrightarrow> f x = g x\<rbrakk> \<Longrightarrow> rbind m f = rbind m' g"
  by (cases m') auto

lemma rbind_Ok_iff [rust_simps]: "rbind m f = Ok y \<longleftrightarrow> (\<exists>x. m = Ok x \<and> f x = Ok y)"
  by (cases m) auto

lemma rbind_Panic_iff [rust_simps]:
  "rbind m f = Panic \<longleftrightarrow> m = Panic \<or> (\<exists>x. m = Ok x \<and> f x = Panic)"
  by (cases m) auto

lemma map_err_Ok_iff [rust_simps]: "map_err g m = Ok y \<longleftrightarrow> m = Ok y"
  by (cases m) auto

lemma map_err_Panic_iff [rust_simps]: "map_err g m = Panic \<longleftrightarrow> m = Panic"
  by (cases m) auto

lemma ok_or_Ok_iff [rust_simps]: "ok_or e m = Ok y \<longleftrightarrow> m = Some y"
  by (cases m) auto

lemma ok_or_not_Panic [simp]: "ok_or e m \<noteq> Panic"
  by (cases m) auto

fun traverse :: "('a \<Rightarrow> ('b, 'e) outcome) \<Rightarrow> 'a list \<Rightarrow> ('b list, 'e) outcome" where
  "traverse f [] = Ok []"
| "traverse f (x # xs) = rbind (f x) (\<lambda>y. rbind (traverse f xs) (\<lambda>ys. Ok (y # ys)))"

subsection \<open>Slices\<close>

text \<open>\<open>&xs[a..b]\<close>, which panics when \<open>a > b\<close> or \<open>b > xs.len()\<close>.\<close>

definition slice :: "nat \<Rightarrow> nat \<Rightarrow> 'a list \<Rightarrow> 'a list" where
  "slice a b xs = take (b - a) (drop a xs)"

lemma length_slice [simp]: "b \<le> length xs \<Longrightarrow> length (slice a b xs) = b - a"
  by (simp add: slice_def)

lemma slice_eq_Nil [simp]: "b \<le> length xs \<Longrightarrow> slice a b xs = [] \<longleftrightarrow> b \<le> a"
  by (auto simp: slice_def)

lemma slice_append_left: "b \<le> length xs \<Longrightarrow> slice a b (xs @ ys) = slice a b xs"
  by (auto simp: slice_def)

lemma slice_shift:
  "slice s (s + length nm) xs = nm \<Longrightarrow> slice (s + pos) (s + length nm) xs = drop pos nm"
  by (metis add.commute add_diff_cancel_left drop_drop drop_take slice_def diff_diff_left add_diff_cancel_left')

lemma slice_to_end: "slice a (length xs) xs = drop a xs"
  by (simp add: slice_def)

lemma slice_append_mid:
  "a = length pre \<Longrightarrow> b = a + length mid \<Longrightarrow> slice a b (pre @ mid @ post) = mid"
  by (simp add: slice_def)

lemma nth_append_right: "i = length pre \<Longrightarrow> (pre @ x # post) ! i = x"
  by simp

text \<open>\<open>bs\<close> are the bytes of \<open>msg\<close> from position \<open>pos\<close> on.\<close>

definition occurs_at :: "'a list \<Rightarrow> nat \<Rightarrow> 'a list \<Rightarrow> bool" where
  "occurs_at msg pos bs \<longleftrightarrow> (\<exists>pre post. msg = pre @ bs @ post \<and> length pre = pos)"

lemma occurs_at_append [simp]:
  "occurs_at msg pos (a @ b) \<longleftrightarrow> occurs_at msg pos a \<and> occurs_at msg (pos + length a) b"
  (is "?l \<longleftrightarrow> ?r")
proof
  assume ?l
  then obtain pre post where "msg = pre @ a @ b @ post" "length pre = pos" by (auto simp: occurs_at_def)
  then have "msg = pre @ a @ (b @ post)" "msg = (pre @ a) @ b @ post" "length (pre @ a) = pos + length a"
    by simp_all
  with \<open>length pre = pos\<close> show ?r unfolding occurs_at_def by blast
next
  assume ?r
  then obtain pre post where pre: "msg = pre @ a @ post" "length pre = pos"
    unfolding occurs_at_def by blast
  from \<open>?r\<close> obtain pre2 post2 where pre2: "msg = pre2 @ b @ post2" "length pre2 = pos + length a"
    unfolding occurs_at_def by blast
  from pre pre2 have "pre2 = pre @ a" by (metis append_assoc append_eq_append_conv length_append)
  with pre2(1) pre(2) show ?l by (auto simp: occurs_at_def)
qed

lemma occurs_at_Cons [simp]:
  "NO_MATCH [] xs \<Longrightarrow> occurs_at msg pos (x # xs) \<longleftrightarrow> occurs_at msg pos [x] \<and> occurs_at msg (Suc pos) xs"
  using occurs_at_append[of msg pos "[x]" xs] by simp

lemma occurs_at_extend: "occurs_at msg pos bs \<Longrightarrow> occurs_at (msg @ xs) pos bs"
  unfolding occurs_at_def by (metis append_assoc)

lemma occurs_at_middle [simp]: "occurs_at (pre @ bs @ post) (length pre) bs"
  by (auto simp: occurs_at_def)

lemma occurs_at_end [simp]: "occurs_at (pre @ bs) (length pre) bs"
  using occurs_at_middle[of pre bs "[]"] by simp

lemma occurs_at_bound: "occurs_at msg pos bs \<Longrightarrow> pos + length bs \<le> length msg"
  by (auto simp: occurs_at_def)

subsection \<open>Big-endian integers\<close>

definition be16 :: "u8 \<Rightarrow> u8 \<Rightarrow> u16" where
  "be16 a b = push_bit 8 (ucast a) OR ucast b"

definition put_u16 :: "u16 \<Rightarrow> bytes" where
  "put_u16 w = [ucast (drop_bit 8 w), ucast w]"

definition be32 :: "u8 \<Rightarrow> u8 \<Rightarrow> u8 \<Rightarrow> u8 \<Rightarrow> u32" where
  "be32 a b c d = push_bit 24 (ucast a) OR push_bit 16 (ucast b) OR push_bit 8 (ucast c) OR ucast d"

definition put_u32 :: "u32 \<Rightarrow> bytes" where
  "put_u32 w = [ucast (drop_bit 24 w), ucast (drop_bit 16 w), ucast (drop_bit 8 w), ucast w]"

lemma be16_put: "be16 (ucast (drop_bit 8 w)) (ucast w) = w"
  unfolding be16_def by (rule bit_word_eqI) (auto simp: bit_simps)

lemma put_be16: "put_u16 (be16 a b) = [a, b]"
proof -
  have "\<not> bit b (8 + n)" for n
    using bit_imp_le_length[of b "8 + n"] by auto
  then have "ucast (drop_bit 8 (be16 a b)) = a" "ucast (be16 a b) = b"
    unfolding be16_def by (auto intro!: bit_word_eqI simp: bit_simps)
  then show ?thesis by (simp add: put_u16_def)
qed

lemma be32_put:
  "be32 (ucast (drop_bit 24 w)) (ucast (drop_bit 16 w)) (ucast (drop_bit 8 w)) (ucast w) = w"
proof (rule bit_word_eqI)
  fix n
  assume "n < LENGTH(32)"
  then consider "n < 8" | "8 \<le> n" "n < 16" | "16 \<le> n" "n < 24" | "24 \<le> n" "n < 32"
    by fastforce
  then show "bit (be32 (ucast (drop_bit 24 w)) (ucast (drop_bit 16 w)) (ucast (drop_bit 8 w)) (ucast w)) n
      = bit w n"
    by cases (auto simp: be32_def bit_simps)
qed

lemma length_put_u16 [simp]: "length (put_u16 w) = 2"
  by (simp add: put_u16_def)

lemma length_put_u32 [simp]: "length (put_u32 w) = 4"
  by (simp add: put_u32_def)

text \<open>Readers of the form input to rest and value, failing with \<open>None\<close> at the end of input.\<close>

fun be_u8 :: "bytes \<Rightarrow> (bytes \<times> u8) option" where
  "be_u8 (a # r) = Some (r, a)"
| "be_u8 _ = None"

fun be_u16 :: "bytes \<Rightarrow> (bytes \<times> u16) option" where
  "be_u16 (a # b # r) = Some (r, be16 a b)"
| "be_u16 _ = None"

fun be_u32 :: "bytes \<Rightarrow> (bytes \<times> u32) option" where
  "be_u32 (a # b # c # d # r) = Some (r, be32 a b c d)"
| "be_u32 _ = None"

definition take_bytes :: "nat \<Rightarrow> bytes \<Rightarrow> (bytes \<times> bytes) option" where
  "take_bytes n i = (if length i < n then None else Some (drop n i, take n i))"

fun length_data :: "bytes \<Rightarrow> (bytes \<times> bytes) option" where
  "length_data [] = None"
| "length_data (n # r) = take_bytes (unat n) r"

lemma be_u16_put [simp]: "be_u16 (put_u16 w @ r) = Some (r, w)"
  by (simp add: put_u16_def be16_put)

lemma be_u32_put [simp]: "be_u32 (put_u32 w @ r) = Some (r, w)"
  by (simp add: put_u32_def be32_put)

lemma take_bytes_append [simp]: "n = length xs \<Longrightarrow> take_bytes n (xs @ r) = Some (r, xs)"
  by (simp add: take_bytes_def)

lemma be16_at:
  "be16 ((pre @ put_u16 w @ r) ! length pre) ((pre @ put_u16 w @ r) ! Suc (length pre)) = w"
  by (simp add: put_u16_def nth_append be16_put)

lemma be_u16_Some_length: "be_u16 i = Some (r, w) \<Longrightarrow> length i = length r + 2"
  by (cases i rule: be_u16.cases) auto

lemma be_u32_Some_length: "be_u32 i = Some (r, w) \<Longrightarrow> length i = length r + 4"
  by (cases i rule: be_u32.cases) auto

lemma be_u8_Some_length: "be_u8 i = Some (r, w) \<Longrightarrow> length i = length r + 1"
  by (cases i) auto

lemma take_bytes_Some_length:
  "take_bytes n i = Some (r, x) \<Longrightarrow> length i = length r + n \<and> length x = n"
  by (auto simp: take_bytes_def split: if_splits)

lemma length_data_Some_length:
  "length_data i = Some (r, x) \<Longrightarrow> length i = length r + length x + 1"
  by (cases i) (auto dest!: take_bytes_Some_length)

lemma unat_u8_less [simp]: "unat (b :: u8) < 256"
  using unsigned_less[of b, where ?'a = nat] by simp

lemma unat_u16_less [simp]: "unat (w :: u16) < 65536"
  using unsigned_less[of w, where ?'a = nat] by simp

lemma unat_of_nat_u8: "n < 256 \<Longrightarrow> unat (of_nat n :: u8) = n"
  by (simp add: unat_of_nat)

lemma unat_of_nat_u16: "n < 65536 \<Longrightarrow> unat (of_nat n :: u16) = n"
  by (simp add: unat_of_nat)

lemma length_data_put:
  "length xs < 256 \<Longrightarrow> length_data (of_nat (length xs) # xs @ r) = Some (r, xs)"
  by (simp add: unat_of_nat_u8)

subsection \<open>Splitting and joining\<close>

text \<open>Rust's \<open>str::split\<close> on one character yields at least one piece.\<close>

fun split_on :: "'a \<Rightarrow> 'a list \<Rightarrow> 'a list list" where
  "split_on c [] = [[]]"
| "split_on c (x # xs) =
     (if x = c then [] # split_on c xs
      else (case split_on c xs of [] \<Rightarrow> [[x]] | y # ys \<Rightarrow> (x # y) # ys))"

fun join :: "'a \<Rightarrow> 'a list list \<Rightarrow> 'a list" where
  "join c [] = []"
| "join c [l] = l"
| "join c (l # m # ls) = l @ c # join c (m # ls)"

lemma split_on_not_Nil [simp]: "split_on c xs \<noteq> []"
  by (cases xs) (auto split: list.splits)

lemma join_Cons: "ls \<noteq> [] \<Longrightarrow> join c (l # ls) = l @ c # join c ls"
  by (cases ls) auto

lemma join_split_on [simp]: "join c (split_on c xs) = xs"
proof (induction xs)
  case (Cons x xs)
  show ?case
  proof (cases "split_on c xs")
    case (Cons y ys)
    then show ?thesis using Cons.IH by (cases ys) (auto simp: join_Cons)
  qed simp
qed simp

lemma split_on_free: "c \<notin> set l \<Longrightarrow> split_on c l = [l]"
  by (induction l) auto

lemma split_on_append: "c \<notin> set l \<Longrightarrow> split_on c (l @ c # r) = l # split_on c r"
  by (induction l) auto

lemma split_on_join:
  "ls \<noteq> [] \<Longrightarrow> \<forall>l\<in>set ls. c \<notin> set l \<Longrightarrow> split_on c (join c ls) = ls"
  by (induction c ls rule: join.induct) (auto simp: split_on_free split_on_append)

lemma split_on_pieces: "l \<in> set (split_on c xs) \<Longrightarrow> c \<notin> set l"
proof (induction xs arbitrary: l)
  case (Cons x xs)
  then show ?case by (cases "split_on c xs") (auto split: if_splits)
qed simp

lemma length_join: "ls \<noteq> [] \<Longrightarrow> length (join c ls) + 1 = (\<Sum>l\<leftarrow>ls. length l + 1)"
  by (induction c ls rule: join.induct) auto

lemma filter_join: "\<not> P c \<Longrightarrow> filter P (join c ls) = concat (map (filter P) ls)"
  by (induction c ls rule: join.induct) auto

lemma join_append_singleton: "ls \<noteq> [] \<Longrightarrow> join c (ls @ [l]) = join c ls @ c # l"
  by (induction c ls rule: join.induct) auto

text \<open>Rust's \<open>trim_end_matches\<close> on one character.\<close>

definition trim_end :: "'a \<Rightarrow> 'a list \<Rightarrow> 'a list" where
  "trim_end c xs = rev (dropWhile (\<lambda>x. x = c) (rev xs))"

lemma trim_end_id: "xs = [] \<or> last xs \<noteq> c \<Longrightarrow> trim_end c xs = xs"
  by (cases xs rule: rev_cases) (auto simp: trim_end_def)

lemma trim_end_last: "trim_end c xs = [] \<or> last (trim_end c xs) \<noteq> c"
  unfolding trim_end_def
  by (induction xs rule: rev_induct) (auto simp: last_rev)

lemma trim_end_idem [simp]: "trim_end c (trim_end c xs) = trim_end c xs"
  using trim_end_last[of c xs] by (simp add: trim_end_id)

subsection \<open>ASCII\<close>

definition is_ascii :: "bytes \<Rightarrow> bool" where
  "is_ascii s = list_all (\<lambda>b. b < 0x80) s"

definition is_ascii_alphanumeric :: "u8 \<Rightarrow> bool" where
  "is_ascii_alphanumeric b \<longleftrightarrow>
     0x30 \<le> b \<and> b \<le> 0x39 \<or> 0x41 \<le> b \<and> b \<le> 0x5A \<or> 0x61 \<le> b \<and> b \<le> 0x7A"

definition is_ascii_graphic :: "u8 \<Rightarrow> bool" where
  "is_ascii_graphic b \<longleftrightarrow> 0x21 \<le> b \<and> b \<le> 0x7E"

definition to_lower :: "u8 \<Rightarrow> u8" where
  "to_lower b = (if 0x41 \<le> b \<and> b \<le> 0x5A then b + 0x20 else b)"

abbreviation to_ascii_lowercase :: "bytes \<Rightarrow> bytes" where
  "to_ascii_lowercase \<equiv> map to_lower"

definition eq_ignore_ascii_case :: "bytes \<Rightarrow> bytes \<Rightarrow> bool" where
  "eq_ignore_ascii_case a b \<longleftrightarrow> to_ascii_lowercase a = to_ascii_lowercase b"

lemma to_lower_dot_iff: "to_lower b = dot \<longleftrightarrow> b = dot"
proof -
  have "b + 0x20 \<noteq> dot" if "0x41 \<le> b" "b \<le> 0x5A"
    using that by unat_arith
  then show ?thesis by (auto simp: to_lower_def)
qed

lemma split_on_map_to_lower:
  "split_on dot (to_ascii_lowercase s) = map to_ascii_lowercase (split_on dot s)"
  by (induction s) (auto simp: to_lower_dot_iff split: list.splits)

lemma map_join: "map f (join c ls) = join (f c) (map (map f) ls)"
  by (induction c ls rule: join.induct) auto

lemma eq_ignore_ascii_case_equiv:
  "eq_ignore_ascii_case a a"
  "eq_ignore_ascii_case a b \<Longrightarrow> eq_ignore_ascii_case b a"
  "eq_ignore_ascii_case a b \<Longrightarrow> eq_ignore_ascii_case b c \<Longrightarrow> eq_ignore_ascii_case a c"
  by (simp_all add: eq_ignore_ascii_case_def)

subsection \<open>UTF-8\<close>

definition is_cont :: "u8 \<Rightarrow> bool" where
  "is_cont b \<longleftrightarrow> 0x80 \<le> b \<and> b \<le> 0xBF"

text \<open>
  The well-formed sequences of the Unicode standard (table 3-7): the admissible range of the second
  byte depends on the first.  \<open>utf8_head s\<close> is \<open>Inr n\<close> when \<open>s\<close> starts with a well-formed character
  of \<open>n\<close> bytes, and \<open>Inl n\<close> when its first \<open>n\<close> bytes are a maximal ill-formed prefix.
\<close>

definition second_ok :: "u8 \<Rightarrow> u8 \<Rightarrow> bool" where
  "second_ok a b \<longleftrightarrow>
     (if a = 0xE0 then 0xA0 \<le> b \<and> b \<le> 0xBF
      else if a = 0xED then 0x80 \<le> b \<and> b \<le> 0x9F
      else if a = 0xF0 then 0x90 \<le> b \<and> b \<le> 0xBF
      else if a = 0xF4 then 0x80 \<le> b \<and> b \<le> 0x8F
      else is_cont b)"

definition utf8_len :: "u8 \<Rightarrow> nat" where
  "utf8_len a = (if a < 0x80 then 1
     else if 0xC2 \<le> a \<and> a \<le> 0xDF then 2
     else if 0xE0 \<le> a \<and> a \<le> 0xEF then 3
     else if 0xF0 \<le> a \<and> a \<le> 0xF4 then 4 else 0)"

fun utf8_head :: "bytes \<Rightarrow> nat + nat" where
  "utf8_head [] = Inl 0"
| "utf8_head (a # r) =
     (let n = utf8_len a in
      if n = 0 then Inl 1
      else if n = 1 then Inr 1
      else (case r of
          [] \<Rightarrow> Inl 1
        | b # r2 \<Rightarrow>
            if \<not> second_ok a b then Inl 1
            else if n = 2 then Inr 2
            else (case r2 of
                [] \<Rightarrow> Inl 2
              | c # r3 \<Rightarrow>
                  if \<not> is_cont c then Inl 2
                  else if n = 3 then Inr 3
                  else (case r3 of
                      [] \<Rightarrow> Inl 3
                    | d # _ \<Rightarrow> if \<not> is_cont d then Inl 3 else Inr 4))))"

lemma utf8_head_pos: "s \<noteq> [] \<Longrightarrow> utf8_head s = Inr n \<Longrightarrow> 0 < n"
  by (cases s) (auto simp: Let_def split: if_splits list.splits)

lemma utf8_head_bad_pos: "s \<noteq> [] \<Longrightarrow> utf8_head s = Inl n \<Longrightarrow> 0 < n"
  by (cases s) (auto simp: Let_def split: if_splits list.splits)

function valid_utf8 :: "bytes \<Rightarrow> bool" where
  "valid_utf8 s = (if s = [] then True
     else (case utf8_head s of Inl _ \<Rightarrow> False | Inr n \<Rightarrow> valid_utf8 (drop n s)))"
  by pat_completeness auto
termination
  by (relation "measure length") (auto dest: utf8_head_pos intro: diff_less)

text \<open>\<open>String::from_utf8_lossy\<close>: each maximal ill-formed prefix becomes U+FFFD.\<close>

function from_utf8_lossy :: "bytes \<Rightarrow> bytes" where
  "from_utf8_lossy s = (if s = [] then []
     else (case utf8_head s of
         Inl n \<Rightarrow> [0xEF, 0xBF, 0xBD] @ from_utf8_lossy (drop n s)
       | Inr n \<Rightarrow> take n s @ from_utf8_lossy (drop n s)))"
  by pat_completeness auto
termination
  by (relation "measure length") (auto dest: utf8_head_pos utf8_head_bad_pos intro: diff_less)

declare valid_utf8.simps [simp del] from_utf8_lossy.simps [simp del]

lemma from_utf8_lossy_valid: "valid_utf8 s \<Longrightarrow> from_utf8_lossy s = s"
proof (induction s rule: valid_utf8.induct)
  case (1 s)
  show ?case
  proof (cases "s = []")
    case False
    with "1.prems" obtain n where n: "utf8_head s = Inr n" "valid_utf8 (drop n s)"
      by (subst (asm) valid_utf8.simps) (auto split: sum.splits)
    with "1.IH" False have "from_utf8_lossy (drop n s) = drop n s" by simp
    with False n show ?thesis by (simp add: from_utf8_lossy.simps[of s])
  qed (simp add: from_utf8_lossy.simps)
qed

lemma valid_utf8_ascii: "is_ascii s \<Longrightarrow> valid_utf8 s"
proof (induction s)
  case (Cons a s)
  then show ?case
    by (simp add: valid_utf8.simps[of "a # s"] is_ascii_def utf8_len_def)
qed (simp add: valid_utf8.simps)

subsection \<open>White space\<close>

text \<open>
  The number of bytes of the Unicode white space character that a UTF-8 text starts with, 0 if there is
  none, and \<open>str::split_whitespace\<close>.
\<close>

fun ws_len :: "bytes \<Rightarrow> nat" where
  "ws_len (a # b # c # _) =
     (if 9 \<le> a \<and> a \<le> 13 \<or> a = 32 then 1
      else if a = 0xC2 \<and> (b = 0x85 \<or> b = 0xA0) then 2
      else if a = 0xE1 \<and> b = 0x9A \<and> c = 0x80
         \<or> a = 0xE2 \<and> b = 0x80 \<and> (0x80 \<le> c \<and> c \<le> 0x8A \<or> c = 0xA8 \<or> c = 0xA9 \<or> c = 0xAF)
         \<or> a = 0xE2 \<and> b = 0x81 \<and> c = 0x9F \<or> a = 0xE3 \<and> b = 0x80 \<and> c = 0x80 then 3
      else 0)"
| "ws_len [a, b] = (if 9 \<le> a \<and> a \<le> 13 \<or> a = 32 then 1
      else if a = 0xC2 \<and> (b = 0x85 \<or> b = 0xA0) then 2 else 0)"
| "ws_len [a] = (if 9 \<le> a \<and> a \<le> 13 \<or> a = 32 then 1 else 0)"
| "ws_len [] = 0"

function split_ws_loop :: "bytes \<Rightarrow> bytes \<Rightarrow> bytes list" where
  "split_ws_loop word s =
     (case s of
        [] \<Rightarrow> if word = [] then [] else [word]
      | b # r \<Rightarrow>
          if ws_len s = 0 then split_ws_loop (word @ [b]) r
          else if word = [] then split_ws_loop [] (drop (ws_len s) s)
          else word # split_ws_loop [] (drop (ws_len s) s))"
  by pat_completeness auto
termination
  by (relation "measure (\<lambda>(_, s). length s)") auto

declare split_ws_loop.simps [simp del]

definition split_whitespace :: "bytes \<Rightarrow> bytes list" where
  "split_whitespace s = split_ws_loop [] s"

text \<open>Words of printable ASCII characters separated by one space are the pieces.\<close>

definition graphic_word :: "bytes \<Rightarrow> bool" where
  "graphic_word w \<longleftrightarrow> w \<noteq> [] \<and> (\<forall>b\<in>set w. is_ascii_graphic b)"

lemma ws_len_graphic:
  assumes "is_ascii_graphic b"
  shows "ws_len (b # r) = 0"
proof -
  have "\<not> b \<le> 13" "b \<noteq> 32" "b \<noteq> 0xC2" "b \<noteq> 0xE1" "b \<noteq> 0xE2" "b \<noteq> 0xE3"
    using assms by (auto simp: is_ascii_graphic_def word_le_nat_alt)
  then show ?thesis by (cases "b # r" rule: ws_len.cases) simp_all
qed

lemma ws_len_space: "ws_len (32 # r) = 1"
  by (cases "(32 :: u8) # r" rule: ws_len.cases) auto

lemma split_ws_word:
  "\<forall>b\<in>set w. is_ascii_graphic b \<Longrightarrow> split_ws_loop acc (w @ r) = split_ws_loop (acc @ w) r"
proof (induction w arbitrary: acc)
  case (Cons b w)
  then show ?case by (subst split_ws_loop.simps) (simp add: ws_len_graphic)
qed simp

lemma split_whitespace_word: "graphic_word w \<Longrightarrow> split_whitespace w = [w]"
  using split_ws_word[of w "[]" "[]"] by (simp add: graphic_word_def split_whitespace_def split_ws_loop.simps)

lemma split_whitespace_cons:
  "graphic_word w \<Longrightarrow> split_whitespace (w @ 32 # r) = w # split_whitespace r"
  using split_ws_word[of w "[]" "32 # r"]
  by (simp add: graphic_word_def split_whitespace_def split_ws_loop.simps[of w "32 # r"] ws_len_space)

subsection \<open>Decimal numbers\<close>

text \<open>Display of an unsigned integer, and \<open>from_str\<close> of an unsigned type with the given largest value.\<close>

fun show_dec :: "nat \<Rightarrow> bytes" where
  "show_dec n = (if n < 10 then [0x30 + of_nat n] else show_dec (n div 10) @ [0x30 + of_nat (n mod 10)])"

declare show_dec.simps [simp del]

definition is_digit :: "u8 \<Rightarrow> bool" where
  "is_digit b \<longleftrightarrow> 0x30 \<le> b \<and> b \<le> 0x39"

definition dec_value :: "bytes \<Rightarrow> nat" where
  "dec_value ds = foldl (\<lambda>n d. 10 * n + unat (d - 0x30)) 0 ds"

definition parse_dec :: "nat \<Rightarrow> bytes \<Rightarrow> nat option" where
  "parse_dec largest s =
     (let ds = (case s of b # r \<Rightarrow> if b = 0x2B then r else s | [] \<Rightarrow> []) in
      if ds = [] \<or> \<not> list_all is_digit ds \<or> largest < dec_value ds then None else Some (dec_value ds))"

lemma digit_facts:
  assumes "n < 10"
  shows "is_digit (0x30 + of_nat n)" "unat (of_nat n :: u8) = n" "(0x30 + of_nat n :: u8) \<noteq> 0x2B"
proof -
  have u: "unat (of_nat n :: u8) = n" using assms by (intro unat_of_nat_u8) simp
  have "unat (0x30 + of_nat n :: u8) = 0x30 + n" using assms by (simp add: unat_word_ariths u)
  then show "is_digit (0x30 + of_nat n)" "(0x30 + of_nat n :: u8) \<noteq> 0x2B"
    using assms by (auto simp: is_digit_def word_le_nat_alt word_unat_eq_iff)
  show "unat (of_nat n :: u8) = n" by (rule u)
qed

lemma show_dec_digits: "list_all is_digit (show_dec n) \<and> show_dec n \<noteq> [] \<and> dec_value (show_dec n) = n"
proof (induction n rule: show_dec.induct)
  case (1 n)
  show ?case
  proof (cases "n < 10")
    case True
    then show ?thesis by (simp add: show_dec.simps[of n] digit_facts dec_value_def)
  next
    case False
    with 1 show ?thesis
      by (simp add: show_dec.simps[of n] digit_facts dec_value_def)
  qed
qed

lemma digit_graphic: "is_digit b \<Longrightarrow> is_ascii_graphic b \<and> b \<noteq> 0x2B \<and> b \<noteq> 0x23"
  by (auto simp: is_digit_def is_ascii_graphic_def word_le_nat_alt)

lemma parse_show_dec: "n \<le> largest \<Longrightarrow> parse_dec largest (show_dec n) = Some n"
  using show_dec_digits[of n] by (cases "show_dec n") (auto simp: parse_dec_def Let_def dest: digit_graphic)

lemma show_dec_word: "graphic_word (show_dec n)"
  using show_dec_digits[of n] digit_graphic by (auto simp: graphic_word_def list_all_iff)

lemma find_SomeD: "find P xs = Some x \<Longrightarrow> x \<in> set xs \<and> P x"
  by (induction xs) (auto split: if_splits)

lemma in_trim_end: "x \<in> set s \<Longrightarrow> x \<noteq> c \<Longrightarrow> x \<in> set (trim_end c s)"
  using set_append[of "takeWhile (\<lambda>y. y = c) (rev s)" "dropWhile (\<lambda>y. y = c) (rev s)"]
  by (auto simp: trim_end_def simp del: set_append dest: set_takeWhileD)

lemma in_split_on: "x \<in> set s \<Longrightarrow> x \<noteq> c \<Longrightarrow> \<exists>l\<in>set (split_on c s). x \<in> set l"
proof (induction s)
  case (Cons y ys)
  then show ?case by (cases "split_on c ys") auto
qed simp

lemma length_join_append: "pre \<noteq> [] \<Longrightarrow> ys \<noteq> [] \<Longrightarrow> length (join c ys) < length (join c (pre @ ys))"
proof (induction pre)
  case (Cons a pre)
  then obtain b bs where "pre @ ys = b # bs" by (cases "pre @ ys") auto
  with Cons show ?case by (cases "pre = []") auto
qed simp

end
