(* ===== verification/Core_Types.thy ===== *)
theory Core_Types
  imports Prelude
begin

text \<open>
  The types shared by every subsystem (\<open>src/types.rs\<close>) and the DNS error enumeration
  (\<open>src/error.rs\<close>).  An error keeps its constructor, the name or the origin the code puts in it,
  and as \<open>reason\<close> the fixed part of the code's message (the numbers it interpolates are left out).
  Fixed-size arrays (\<open>[u8; 4]\<close>, \<open>[u8; 6]\<close>, \<open>[u8; 16]\<close>) are byte lists whose length is part of
  the well-formedness predicates.
\<close>

subsection \<open>Errors\<close>

type_synonym reason = string

datatype dns_error =
    InvalidName bytes reason
  | ParseFailed string reason
  | Edns0Failed reason
  | ForwardFailed bytes reason
  | CacheFailed string reason
  | NoUpstreamServers
  | Timeout bytes nat
  | ServerFailure bytes bytes
  | FormatError bytes bytes
  | NxDomain bytes
  | AuthFailed bytes reason
  | LoopDetected bytes
  | NetworkError reason
  | ParseError reason
  | QueryNotFound u16
  | SerializationError reason
  | UpstreamUnreachable
  | ValidationFailed reason
  | ConfigurationError reason
  | OtherError reason

subsection \<open>Record types\<close>

datatype record_type =
    RT_A | RT_NS | RT_CNAME | RT_SOA | RT_PTR | RT_MX | RT_TXT | RT_AAAA | RT_SRV | RT_NAPTR
  | RT_DS | RT_RRSIG | RT_NSEC | RT_DNSKEY | RT_NSEC3 | RT_NSEC3PARAM | RT_CERT | RT_DNAME
  | RT_OPT | RT_APL | RT_HINFO | RT_WKS | RT_ANY | RT_CAA | RT_AXFR | RT_Unknown u16

definition record_type_of_u16 :: "u16 \<Rightarrow> record_type" where
  "record_type_of_u16 v =
     (if v = 1 then RT_A else if v = 2 then RT_NS else if v = 5 then RT_CNAME
      else if v = 6 then RT_SOA else if v = 11 then RT_WKS else if v = 12 then RT_PTR
      else if v = 13 then RT_HINFO else if v = 15 then RT_MX else if v = 16 then RT_TXT
      else if v = 28 then RT_AAAA else if v = 33 then RT_SRV else if v = 35 then RT_NAPTR
      else if v = 37 then RT_CERT else if v = 39 then RT_DNAME else if v = 41 then RT_OPT
      else if v = 42 then RT_APL else if v = 43 then RT_DS else if v = 46 then RT_RRSIG
      else if v = 47 then RT_NSEC else if v = 48 then RT_DNSKEY else if v = 50 then RT_NSEC3
      else if v = 51 then RT_NSEC3PARAM else if v = 255 then RT_ANY else if v = 257 then RT_CAA
      else RT_Unknown v)"

fun u16_of_record_type :: "record_type \<Rightarrow> u16" where
  "u16_of_record_type RT_A = 1"
| "u16_of_record_type RT_NS = 2"
| "u16_of_record_type RT_CNAME = 5"
| "u16_of_record_type RT_SOA = 6"
| "u16_of_record_type RT_WKS = 11"
| "u16_of_record_type RT_PTR = 12"
| "u16_of_record_type RT_HINFO = 13"
| "u16_of_record_type RT_MX = 15"
| "u16_of_record_type RT_TXT = 16"
| "u16_of_record_type RT_AAAA = 28"
| "u16_of_record_type RT_SRV = 33"
| "u16_of_record_type RT_NAPTR = 35"
| "u16_of_record_type RT_CERT = 37"
| "u16_of_record_type RT_DNAME = 39"
| "u16_of_record_type RT_OPT = 41"
| "u16_of_record_type RT_APL = 42"
| "u16_of_record_type RT_DS = 43"
| "u16_of_record_type RT_RRSIG = 46"
| "u16_of_record_type RT_NSEC = 47"
| "u16_of_record_type RT_DNSKEY = 48"
| "u16_of_record_type RT_NSEC3 = 50"
| "u16_of_record_type RT_NSEC3PARAM = 51"
| "u16_of_record_type RT_ANY = 255"
| "u16_of_record_type RT_AXFR = 252"
| "u16_of_record_type RT_CAA = 257"
| "u16_of_record_type (RT_Unknown c) = c"

text \<open>The record types that survive a trip over the wire: not \<open>AXFR\<close>, no shadowed \<open>Unknown\<close>.\<close>

definition canonical_rtype :: "record_type \<Rightarrow> bool" where
  "canonical_rtype t \<longleftrightarrow> record_type_of_u16 (u16_of_record_type t) = t"

lemma u16_of_record_type_of_u16 [simp]: "u16_of_record_type (record_type_of_u16 v) = v"
  by (simp add: record_type_of_u16_def)

lemma canonical_record_type_of_u16 [simp]: "canonical_rtype (record_type_of_u16 v)"
  by (simp add: canonical_rtype_def)

lemma canonical_rtype_iff:
  "canonical_rtype t \<longleftrightarrow> t \<noteq> RT_AXFR \<and> (\<forall>c. t = RT_Unknown c \<longrightarrow> record_type_of_u16 c = RT_Unknown c)"
  by (cases t) (simp_all add: canonical_rtype_def record_type_of_u16_def)

lemma record_type_of_u16_not_AXFR: "record_type_of_u16 v \<noteq> RT_AXFR"
  by (simp add: record_type_of_u16_def)

subsection \<open>Cache flags\<close>

type_synonym cache_flags = u32

definition CF_IMMORTAL :: cache_flags where "CF_IMMORTAL = push_bit 0 1"
definition CF_REVERSE :: cache_flags where "CF_REVERSE = push_bit 2 1"
definition CF_FORWARD :: cache_flags where "CF_FORWARD = push_bit 3 1"
definition CF_DHCP :: cache_flags where "CF_DHCP = push_bit 4 1"
definition CF_NEG :: cache_flags where "CF_NEG = push_bit 5 1"
definition CF_HOSTS :: cache_flags where "CF_HOSTS = push_bit 6 1"
definition CF_IPV4 :: cache_flags where "CF_IPV4 = push_bit 7 1"
definition CF_IPV6 :: cache_flags where "CF_IPV6 = push_bit 8 1"
definition CF_NXDOMAIN :: cache_flags where "CF_NXDOMAIN = push_bit 10 1"

definition flags_contain :: "cache_flags \<Rightarrow> cache_flags \<Rightarrow> bool" where
  "flags_contain fs f \<longleftrightarrow> fs AND f = f"

lemmas cache_flag_defs =
  CF_IMMORTAL_def CF_REVERSE_def CF_FORWARD_def CF_DHCP_def CF_NEG_def CF_HOSTS_def CF_IPV4_def CF_IPV6_def CF_NXDOMAIN_def flags_contain_def

subsection \<open>Addresses\<close>

datatype ip_addr = V4 bytes | V6 bytes

type_synonym sock_addr = "ip_addr \<times> u16"

text \<open>\<open>DhcpError\<close>; the address of a missing lease is kept as the address instead of its text.\<close>

datatype dhcp_error =
    NoAddressAvailable string
  | DhcpParseFailed reason
  | InvalidOption u8 reason
  | LeaseDatabaseFailed string reason
  | RelayFailed string reason
  | AddressConflict bytes bytes
  | PrefixDelegationFailed reason
  | InvalidClientId reason
  | ScriptFailed bytes reason
  | RenewalRejected bytes reason
  | V4ProtocolError reason
  | V6ProtocolError reason
  | LeaseNotFound ip_addr
  | SocketError reason
  | MissingOption u16

fun wf_ip :: "ip_addr \<Rightarrow> bool" where
  "wf_ip (V4 o4) = (length o4 = 4)"
| "wf_ip (V6 o6) = (length o6 = 16)"

record mac_address = mac_octets :: bytes

definition wf_mac :: "mac_address \<Rightarrow> bool" where
  "wf_mac m \<longleftrightarrow> length (mac_octets m) = 6"

definition is_ascii_hexdigit :: "u8 \<Rightarrow> bool" where
  "is_ascii_hexdigit b \<longleftrightarrow>
     0x30 \<le> b \<and> b \<le> 0x39 \<or> 0x41 \<le> b \<and> b \<le> 0x46 \<or> 0x61 \<le> b \<and> b \<le> 0x66"

definition hex_value :: "u8 \<Rightarrow> u8" where
  "hex_value b = (if b \<le> 0x39 then b - 0x30 else if b \<le> 0x46 then b - 0x37 else b - 0x57)"

fun hex_pairs :: "bytes \<Rightarrow> bytes" where
  "hex_pairs (a # b # r) = (hex_value a * 16 + hex_value b) # hex_pairs r"
| "hex_pairs _ = []"

definition mac_parse :: "bytes \<Rightarrow> (mac_address, dns_error) outcome" where
  "mac_parse s =
     (let hex_str = filter is_ascii_hexdigit s
      in if length hex_str \<noteq> 12 then Err (OtherError ''Invalid MAC address: expected 12 hex digits'')
         else Ok \<lparr>mac_octets = hex_pairs hex_str\<rparr>)"

definition hex_lower :: "u8 \<Rightarrow> u8" where
  "hex_lower n = (if n < 10 then 0x30 + n else 0x57 + n)"

definition mac_display :: "mac_address \<Rightarrow> bytes" where
  "mac_display m = join 0x3A (map (\<lambda>o1. [hex_lower (o1 div 16), hex_lower (o1 mod 16)]) (mac_octets m))"

lemma hex_lower_digit: "n < 16 \<Longrightarrow> is_ascii_hexdigit (hex_lower n)"
  unfolding hex_lower_def is_ascii_hexdigit_def by (auto simp: word_le_nat_alt word_less_nat_alt unat_word_ariths)

lemma hex_value_lower: "n < 16 \<Longrightarrow> hex_value (hex_lower n) = n"
  unfolding hex_lower_def hex_value_def
  by (auto simp: word_le_nat_alt word_less_nat_alt unat_word_ariths)

lemma byte_nibbles:
  fixes b :: u8
  shows "b div 16 < 16" "b mod 16 < 16" "b div 16 * 16 + b mod 16 = b"
proof -
  have "unat b < 256" by simp
  then have "unat b div 16 < 16" by arith
  then show "b div 16 < 16" "b mod 16 < 16" by (auto simp: word_less_nat_alt unat_div unat_mod)
  show "b div 16 * 16 + b mod 16 = b" by (rule div_mult_mod_eq)
qed

lemma filter_hex_join:
  "filter is_ascii_hexdigit (join 0x3A (map (\<lambda>o1. [hex_lower (o1 div 16), hex_lower (o1 mod 16)]) os))
     = concat (map (\<lambda>o1. [hex_lower (o1 div 16), hex_lower (o1 mod 16)]) os)"
proof -
  have "\<not> is_ascii_hexdigit 0x3A" by (simp add: is_ascii_hexdigit_def)
  then show ?thesis by (simp add: filter_join comp_def hex_lower_digit byte_nibbles)
qed

lemma hex_pairs_concat:
  "hex_pairs (concat (map (\<lambda>o1. [hex_lower (o1 div 16), hex_lower (o1 mod 16)]) os)) = os"
  by (induction os) (simp_all add: hex_value_lower byte_nibbles)

lemma mac_parse_display_lemma: "wf_mac m \<Longrightarrow> mac_parse (mac_display m) = Ok m"
  by (simp add: mac_parse_def mac_display_def Let_def filter_hex_join hex_pairs_concat wf_mac_def
      length_concat comp_def sum_list_triv)

subsection \<open>Timestamps\<close>

text \<open>
  \<open>Timestamp\<close> wraps a monotonic \<open>Instant\<close>; instants and durations are counted in nanoseconds.
  Reading the clock is an argument \<open>now\<close> of every operation that does it.
\<close>

type_synonym timestamp = nat

definition secs :: "nat \<Rightarrow> nat" where
  "secs n = n * 1000000000"

definition timestamp_add :: "timestamp \<Rightarrow> nat \<Rightarrow> timestamp" where
  "timestamp_add t d = t + d"

definition duration_since :: "timestamp \<Rightarrow> timestamp \<Rightarrow> nat option" where
  "duration_since t u = (if u \<le> t then Some (t - u) else None)"

subsection \<open>Properties\<close>

text \<open>
  Converting a type code to \<open>RecordType\<close> and back is the identity, and \<open>AXFR\<close> is the only
  named type that no code converts to: 252 becomes \<open>Unknown(252)\<close>.
\<close>

theorem record_type_codes:
  "u16_of_record_type (record_type_of_u16 v) = v \<and>
   ((\<exists>w. record_type_of_u16 w = t) \<longleftrightarrow> t \<noteq> RT_AXFR \<and> (\<forall>c. t = RT_Unknown c \<longrightarrow> record_type_of_u16 c = RT_Unknown c)) \<and>
   record_type_of_u16 (u16_of_record_type RT_AXFR) = RT_Unknown 252"
proof -
  have "(\<exists>w. record_type_of_u16 w = t) \<longleftrightarrow> canonical_rtype t"
    by (metis canonical_record_type_of_u16 canonical_rtype_def)
  then show ?thesis by (simp add: canonical_rtype_iff record_type_of_u16_def)
qed

theorem record_type_codes_witness: "\<exists>w. record_type_of_u16 w = RT_Unknown 252"
  using record_type_codes[of 252 "RT_Unknown 252"] by (auto simp: record_type_of_u16_def)

text \<open>Parsing the text form of a hardware address of six bytes gives the address back.\<close>

theorem mac_parse_display:
  assumes "wf_mac m"
  shows "mac_parse (mac_display m) = Ok m"
  using assms by (rule mac_parse_display_lemma)

theorem mac_parse_display_witness:
  "mac_parse (mac_display \<lparr>mac_octets = [0, 0x1B, 0x2C, 0xFF, 5, 0xA0]\<rparr>) = Ok \<lparr>mac_octets = [0, 0x1B, 0x2C, 0xFF, 5, 0xA0]\<rparr>"
  by (rule mac_parse_display) (simp add: wf_mac_def)

end
