(* ===== verification/Dhcp4_Options.thy ===== *)
theory Dhcp4_Options
  imports Core_Types
begin

text \<open>
  DHCPv4 options, \<open>src/dhcp/v4/options.rs\<close> with the codes of \<open>constants.rs\<close>: the typed options, the
  parser and encoder of one option and of an option field.  An \<open>Ipv4Addr\<close> is its four octets and a
  \<open>String\<close> its UTF-8 bytes.  The main results are the round trip and that only options that can be
  encoded again are ever parsed.
\<close>

subsection \<open>Message types\<close>

datatype message_type = Discover | Offer | Request | Ack | Nak | Decline | Release | Inform

definition message_type_from_u8 :: "u8 \<Rightarrow> (message_type, dhcp_error) outcome" where
  "message_type_from_u8 v =
     (if v = 1 then Ok Discover else if v = 2 then Ok Offer else if v = 3 then Ok Request
      else if v = 5 then Ok Ack else if v = 6 then Ok Nak else if v = 4 then Ok Decline
      else if v = 7 then Ok Release else if v = 8 then Ok Inform
      else Err (InvalidOption 53 ''Invalid message type value''))"

fun message_type_to_u8 :: "message_type \<Rightarrow> u8" where
  "message_type_to_u8 Discover = 1"
| "message_type_to_u8 Offer = 2"
| "message_type_to_u8 Request = 3"
| "message_type_to_u8 Ack = 5"
| "message_type_to_u8 Nak = 6"
| "message_type_to_u8 Decline = 4"
| "message_type_to_u8 Release = 7"
| "message_type_to_u8 Inform = 8"

subsection \<open>Options\<close>

datatype dhcp_option =
    Opt_Pad
  | Opt_End
  | Opt_Netmask bytes
  | Opt_Router "bytes list"
  | Opt_DnsServer "bytes list"
  | Opt_Hostname bytes
  | Opt_DomainName bytes
  | Opt_RequestedIpAddress bytes
  | Opt_LeaseTime u32
  | Opt_Overload u8
  | Opt_MessageType message_type
  | Opt_ServerId bytes
  | Opt_ParameterRequestList bytes
  | Opt_Message bytes
  | Opt_RenewalTime u32
  | Opt_RebindingTime u32
  | Opt_VendorClassId bytes
  | Opt_ClientId bytes
  | Opt_TftpServerName bytes
  | Opt_BootFileName bytes
  | Opt_RelayAgentInfo bytes
  | Opt_RapidCommit
  | Opt_Unknown u8 bytes

fun dhcp_option_code :: "dhcp_option \<Rightarrow> u8" where
  "dhcp_option_code Opt_Pad = 0"
| "dhcp_option_code Opt_End = 255"
| "dhcp_option_code (Opt_Netmask _) = 1"
| "dhcp_option_code (Opt_Router _) = 3"
| "dhcp_option_code (Opt_DnsServer _) = 6"
| "dhcp_option_code (Opt_Hostname _) = 12"
| "dhcp_option_code (Opt_DomainName _) = 15"
| "dhcp_option_code (Opt_RequestedIpAddress _) = 50"
| "dhcp_option_code (Opt_LeaseTime _) = 51"
| "dhcp_option_code (Opt_Overload _) = 52"
| "dhcp_option_code (Opt_MessageType _) = 53"
| "dhcp_option_code (Opt_ServerId _) = 54"
| "dhcp_option_code (Opt_ParameterRequestList _) = 55"
| "dhcp_option_code (Opt_Message _) = 56"
| "dhcp_option_code (Opt_RenewalTime _) = 58"
| "dhcp_option_code (Opt_RebindingTime _) = 59"
| "dhcp_option_code (Opt_VendorClassId _) = 60"
| "dhcp_option_code (Opt_ClientId _) = 61"
| "dhcp_option_code (Opt_TftpServerName _) = 66"
| "dhcp_option_code (Opt_BootFileName _) = 67"
| "dhcp_option_code (Opt_RelayAgentInfo _) = 82"
| "dhcp_option_code Opt_RapidCommit = 80"
| "dhcp_option_code (Opt_Unknown code _) = code"

fun dhcp_data_len :: "dhcp_option \<Rightarrow> nat" where
  "dhcp_data_len Opt_Pad = 0"
| "dhcp_data_len Opt_End = 0"
| "dhcp_data_len (Opt_Netmask _) = 4"
| "dhcp_data_len (Opt_Router addrs) = length addrs * 4"
| "dhcp_data_len (Opt_DnsServer addrs) = length addrs * 4"
| "dhcp_data_len (Opt_Hostname s) = length s"
| "dhcp_data_len (Opt_DomainName s) = length s"
| "dhcp_data_len (Opt_RequestedIpAddress _) = 4"
| "dhcp_data_len (Opt_LeaseTime _) = 4"
| "dhcp_data_len (Opt_Overload _) = 1"
| "dhcp_data_len (Opt_MessageType _) = 1"
| "dhcp_data_len (Opt_ServerId _) = 4"
| "dhcp_data_len (Opt_ParameterRequestList l) = length l"
| "dhcp_data_len (Opt_Message s) = length s"
| "dhcp_data_len (Opt_RenewalTime _) = 4"
| "dhcp_data_len (Opt_RebindingTime _) = 4"
| "dhcp_data_len (Opt_VendorClassId d) = length d"
| "dhcp_data_len (Opt_ClientId d) = length d"
| "dhcp_data_len (Opt_TftpServerName s) = length s"
| "dhcp_data_len (Opt_BootFileName s) = length s"
| "dhcp_data_len (Opt_RelayAgentInfo d) = length d"
| "dhcp_data_len Opt_RapidCommit = 0"
| "dhcp_data_len (Opt_Unknown _ d) = length d"

subsection \<open>Parsing\<close>

definition ipv4_u32 :: "bytes \<Rightarrow> u32" where
  "ipv4_u32 a = be32 (a ! 0) (a ! 1) (a ! 2) (a ! 3)"

definition validate_subnet_mask :: "bytes \<Rightarrow> (unit, dhcp_error) outcome" where
  "validate_subnet_mask addr =
     (let inverted = NOT (ipv4_u32 addr) in
      if inverted = 0 \<or> (inverted + 1) AND inverted = 0 then Ok ()
      else Err (InvalidOption 1 ''Invalid subnet mask''))"

definition parse_string :: "bytes \<Rightarrow> u8 \<Rightarrow> (bytes, dhcp_error) outcome" where
  "parse_string data code = (if valid_utf8 data then Ok data else Err (InvalidOption code ''Invalid UTF-8 in string option''))"

fun chunks4 :: "bytes \<Rightarrow> bytes list" where
  "chunks4 (a # b # c # d # r) = [a, b, c, d] # chunks4 r"
| "chunks4 _ = []"

definition parse_ipv4_list :: "bytes \<Rightarrow> u8 \<Rightarrow> (bytes list, dhcp_error) outcome" where
  "parse_ipv4_list data code =
     (if length data mod 4 \<noteq> 0 then Err (InvalidOption code ''IPv4 address list length must be multiple of 4'')
      else Ok (chunks4 data))"

text \<open>An option whose data must have the given length.\<close>

definition sized :: "u8 \<Rightarrow> nat \<Rightarrow> reason \<Rightarrow> bytes \<Rightarrow> (bytes, dhcp_error) outcome" where
  "sized code n why data = (if length data \<noteq> n then Err (InvalidOption code why) else Ok data)"

definition parse_option :: "u8 \<Rightarrow> bytes \<Rightarrow> (dhcp_option, dhcp_error) outcome" where
  "parse_option code data =
     (if code = 0 then Ok Opt_Pad
      else if code = 255 then Ok Opt_End
      else if code = 1 then
        rbind (sized code 4 ''Netmask option must be 4 bytes'' data) (\<lambda>addr.
        rbind (validate_subnet_mask addr) (\<lambda>_. Ok (Opt_Netmask addr)))
      else if code = 3 then
        if length data mod 4 \<noteq> 0 then Err (InvalidOption 3 ''Router option length must be multiple of 4'')
        else rbind (parse_ipv4_list data 3) (\<lambda>addrs. Ok (Opt_Router addrs))
      else if code = 6 then
        if length data mod 4 \<noteq> 0 then Err (InvalidOption 6 ''DNS Server option length must be multiple of 4'')
        else rbind (parse_ipv4_list data 6) (\<lambda>addrs. Ok (Opt_DnsServer addrs))
      else if code = 12 then rbind (parse_string data 12) (\<lambda>s. Ok (Opt_Hostname s))
      else if code = 15 then rbind (parse_string data 15) (\<lambda>s. Ok (Opt_DomainName s))
      else if code = 50 then rbind (sized code 4 ''Requested IP option must be 4 bytes'' data) (\<lambda>a. Ok (Opt_RequestedIpAddress a))
      else if code = 51 then rbind (sized code 4 ''Lease Time option must be 4 bytes'' data) (\<lambda>a. Ok (Opt_LeaseTime (ipv4_u32 a)))
      else if code = 52 then
        rbind (sized code 1 ''Overload option must be 1 byte'' data) (\<lambda>d.
          if 1 \<le> d ! 0 \<and> d ! 0 \<le> 3 then Ok (Opt_Overload (d ! 0)) else Err (InvalidOption code ''Overload flag must be 1-3''))
      else if code = 53 then
        rbind (sized code 1 ''Message Type option must be 1 byte'' data) (\<lambda>d.
        rbind (message_type_from_u8 (d ! 0)) (\<lambda>t. Ok (Opt_MessageType t)))
      else if code = 54 then rbind (sized code 4 ''Server Identifier option must be 4 bytes'' data) (\<lambda>a. Ok (Opt_ServerId a))
      else if code = 55 then Ok (Opt_ParameterRequestList data)
      else if code = 56 then rbind (parse_string data 56) (\<lambda>s. Ok (Opt_Message s))
      else if code = 58 then rbind (sized code 4 ''Renewal Time option must be 4 bytes'' data) (\<lambda>a. Ok (Opt_RenewalTime (ipv4_u32 a)))
      else if code = 59 then rbind (sized code 4 ''Rebinding Time option must be 4 bytes'' data) (\<lambda>a. Ok (Opt_RebindingTime (ipv4_u32 a)))
      else if code = 60 then Ok (Opt_VendorClassId data)
      else if code = 61 then
        if data = [] then Err (InvalidOption code ''Client Identifier option cannot be empty'') else Ok (Opt_ClientId data)
      else if code = 66 then rbind (parse_string data 66) (\<lambda>s. Ok (Opt_TftpServerName s))
      else if code = 67 then rbind (parse_string data 67) (\<lambda>s. Ok (Opt_BootFileName s))
      else if code = 82 then Ok (Opt_RelayAgentInfo data)
      else if code = 80 then
        if data \<noteq> [] then Err (InvalidOption code ''Rapid Commit option must have zero length'') else Ok Opt_RapidCommit
      else Ok (Opt_Unknown code data))"

function parse_options_loop :: "bytes \<Rightarrow> dhcp_option list \<Rightarrow> (dhcp_option list, dhcp_error) outcome" where
  "parse_options_loop remaining options =
     (case remaining of
        [] \<Rightarrow> Ok options
      | code # r \<Rightarrow>
          if code = 0 then parse_options_loop r (options @ [Opt_Pad])
          else if code = 255 then Ok (options @ [Opt_End])
          else case r of
              [] \<Rightarrow> Err (DhcpParseFailed ''Truncated option: missing length field'')
            | len # r \<Rightarrow>
                if length r < unat len then Err (DhcpParseFailed ''Truncated option'')
                else (case parse_option code (take (unat len) r) of
                        Ok opt \<Rightarrow> parse_options_loop (drop (unat len) r) (options @ [opt])
                      | Err e \<Rightarrow> Err e
                      | Panic \<Rightarrow> Panic))"
  by pat_completeness auto
termination
  by (relation "measure (\<lambda>(r, _). length r)") auto

declare parse_options_loop.simps [simp del]

definition parse_options :: "bytes \<Rightarrow> (dhcp_option list, dhcp_error) outcome" where
  "parse_options input = parse_options_loop input []"

subsection \<open>Encoding\<close>

fun option_data :: "dhcp_option \<Rightarrow> bytes" where
  "option_data Opt_Pad = []"
| "option_data Opt_End = []"
| "option_data (Opt_Netmask a) = a"
| "option_data (Opt_Router addrs) = concat addrs"
| "option_data (Opt_DnsServer addrs) = concat addrs"
| "option_data (Opt_Hostname s) = s"
| "option_data (Opt_DomainName s) = s"
| "option_data (Opt_RequestedIpAddress a) = a"
| "option_data (Opt_LeaseTime t) = put_u32 t"
| "option_data (Opt_Overload f) = [f]"
| "option_data (Opt_MessageType t) = [message_type_to_u8 t]"
| "option_data (Opt_ServerId a) = a"
| "option_data (Opt_ParameterRequestList l) = l"
| "option_data (Opt_Message s) = s"
| "option_data (Opt_RenewalTime t) = put_u32 t"
| "option_data (Opt_RebindingTime t) = put_u32 t"
| "option_data (Opt_VendorClassId d) = d"
| "option_data (Opt_ClientId d) = d"
| "option_data (Opt_TftpServerName s) = s"
| "option_data (Opt_BootFileName s) = s"
| "option_data (Opt_RelayAgentInfo d) = d"
| "option_data Opt_RapidCommit = []"
| "option_data (Opt_Unknown _ d) = d"

text \<open>Every option but padding and the end marker is code, one length byte (cast from \<open>usize\<close>) and data.\<close>

definition encode_option :: "dhcp_option \<Rightarrow> bytes" where
  "encode_option opt =
     (if opt = Opt_Pad \<or> opt = Opt_End then [dhcp_option_code opt]
      else dhcp_option_code opt # of_nat (dhcp_data_len opt) # option_data opt)"

definition encode_options :: "dhcp_option list \<Rightarrow> bytes" where
  "encode_options opts =
     concat (map encode_option opts) @ (if opts \<noteq> [] \<and> last opts \<noteq> Opt_End then [255] else [])"

subsection \<open>Well-formed options\<close>

text \<open>The codes that have a constructor of their own.\<close>

definition dhcp_known_codes :: "u8 list" where
  "dhcp_known_codes = [0, 255, 1, 3, 6, 12, 15, 50, 51, 52, 53, 54, 55, 56, 58, 59, 60, 61, 66, 67, 82, 80]"

fun wf_dhcp_option :: "dhcp_option \<Rightarrow> bool" where
  "wf_dhcp_option (Opt_Netmask a) \<longleftrightarrow> length a = 4 \<and> validate_subnet_mask a = Ok ()"
| "wf_dhcp_option (Opt_Router as) \<longleftrightarrow> (\<forall>a\<in>set as. length a = 4) \<and> length as * 4 < 256"
| "wf_dhcp_option (Opt_DnsServer as) \<longleftrightarrow> (\<forall>a\<in>set as. length a = 4) \<and> length as * 4 < 256"
| "wf_dhcp_option (Opt_Hostname s) \<longleftrightarrow> valid_utf8 s \<and> length s < 256"
| "wf_dhcp_option (Opt_DomainName s) \<longleftrightarrow> valid_utf8 s \<and> length s < 256"
| "wf_dhcp_option (Opt_RequestedIpAddress a) \<longleftrightarrow> length a = 4"
| "wf_dhcp_option (Opt_Overload f) \<longleftrightarrow> 1 \<le> f \<and> f \<le> 3"
| "wf_dhcp_option (Opt_ServerId a) \<longleftrightarrow> length a = 4"
| "wf_dhcp_option (Opt_ParameterRequestList l) \<longleftrightarrow> length l < 256"
| "wf_dhcp_option (Opt_Message s) \<longleftrightarrow> valid_utf8 s \<and> length s < 256"
| "wf_dhcp_option (Opt_VendorClassId d) \<longleftrightarrow> length d < 256"
| "wf_dhcp_option (Opt_ClientId d) \<longleftrightarrow> d \<noteq> [] \<and> length d < 256"
| "wf_dhcp_option (Opt_TftpServerName s) \<longleftrightarrow> valid_utf8 s \<and> length s < 256"
| "wf_dhcp_option (Opt_BootFileName s) \<longleftrightarrow> valid_utf8 s \<and> length s < 256"
| "wf_dhcp_option (Opt_RelayAgentInfo d) \<longleftrightarrow> length d < 256"
| "wf_dhcp_option (Opt_Unknown c d) \<longleftrightarrow> c \<notin> set dhcp_known_codes \<and> length d < 256"
| "wf_dhcp_option _ \<longleftrightarrow> True"

lemma message_type_round_trip [simp]: "message_type_from_u8 (message_type_to_u8 t) = Ok t"
  by (cases t) (simp_all add: message_type_from_u8_def)

lemma message_type_parsed: "message_type_from_u8 v = Ok t \<Longrightarrow> message_type_to_u8 t = v"
  by (auto simp: message_type_from_u8_def split: if_splits)

lemma length_four: "length a = 4 \<longleftrightarrow> (\<exists>b c d e. a = [b, c, d, e])"
  by (auto simp: length_Suc_conv numeral_eq_Suc)

lemma ipv4_put [simp]: "ipv4_u32 (put_u32 t) = t"
  by (simp add: ipv4_u32_def put_u32_def be32_put)

lemma chunks4_concat: "\<forall>a\<in>set as. length a = 4 \<Longrightarrow> chunks4 (concat as) = as"
  by (induction as) (auto simp: length_four)

lemma length_concat4: "\<forall>a\<in>set as. length a = 4 \<Longrightarrow> length (concat as) = length as * 4"
  by (induction as) auto

lemma chunks4_length: "a \<in> set (chunks4 d) \<Longrightarrow> length a = 4"
  by (induction d rule: chunks4.induct) auto

lemma length_chunks4: "length (chunks4 d) * 4 \<le> length d"
  by (induction d rule: chunks4.induct) auto

lemma wf_option_parse:
  assumes "wf_dhcp_option opt" "opt \<noteq> Opt_Pad" "opt \<noteq> Opt_End"
  shows "parse_option (dhcp_option_code opt) (option_data opt) = Ok opt"
  using assms
  by (cases opt) (simp_all add: parse_option_def sized_def parse_string_def parse_ipv4_list_def length_concat4
      chunks4_concat dhcp_known_codes_def message_type_round_trip)

lemma wf_option_length:
  assumes "wf_dhcp_option opt" "opt \<noteq> Opt_Pad" "opt \<noteq> Opt_End"
  shows "length (option_data opt) = dhcp_data_len opt \<and> dhcp_data_len opt < 256 \<and> dhcp_option_code opt \<noteq> 0 \<and> dhcp_option_code opt \<noteq> 255"
  using assms by (cases opt) (auto simp: length_concat4 dhcp_known_codes_def)

lemma parse_option_wf:
  assumes "parse_option c d = Ok opt" "length d < 256"
  shows "wf_dhcp_option opt \<and> (c \<noteq> 0 \<and> c \<noteq> 255 \<longrightarrow> opt \<noteq> Opt_Pad \<and> opt \<noteq> Opt_End)"
  using assms length_chunks4[of d]
  by (auto simp: parse_option_def rust_simps sized_def parse_string_def parse_ipv4_list_def dhcp_known_codes_def
      dest: chunks4_length split: if_splits)

lemma option_parts_not_Panic [simp]:
  "sized c n w d \<noteq> Panic" "parse_string d c \<noteq> Panic" "parse_ipv4_list d c \<noteq> Panic"
  "validate_subnet_mask a \<noteq> Panic" "message_type_from_u8 v \<noteq> Panic"
  by (simp_all add: sized_def parse_string_def parse_ipv4_list_def validate_subnet_mask_def message_type_from_u8_def Let_def)

lemma parse_option_not_Panic [simp]: "parse_option c d \<noteq> Panic"
  unfolding parse_option_def by (simp add: rust_simps)

subsection \<open>Option fields\<close>

lemma parse_loop_Nil [simp]: "parse_options_loop [] acc = Ok acc"
  by (simp add: parse_options_loop.simps)

lemma parse_loop_Pad [simp]: "parse_options_loop (0 # r) acc = parse_options_loop r (acc @ [Opt_Pad])"
  by (simp add: parse_options_loop.simps[of "0 # r"])

lemma parse_loop_End [simp]: "parse_options_loop (255 # r) acc = Ok (acc @ [Opt_End])"
  by (simp add: parse_options_loop.simps[of "255 # r"])

lemma parse_loop_option:
  assumes "code \<noteq> 0" "code \<noteq> 255"
  shows "parse_options_loop (code # len # r) acc =
    (if length r < unat len then Err (DhcpParseFailed ''Truncated option'')
     else case parse_option code (take (unat len) r) of
         Ok opt \<Rightarrow> parse_options_loop (drop (unat len) r) (acc @ [opt]) | Err e \<Rightarrow> Err e | Panic \<Rightarrow> Panic)"
  using assms by (subst parse_options_loop.simps) simp

lemma parse_loop_encoded:
  assumes "wf_dhcp_option opt" "opt \<noteq> Opt_End"
  shows "parse_options_loop (encode_option opt @ r) acc = parse_options_loop r (acc @ [opt])"
proof (cases "opt = Opt_Pad")
  case False
  with assms wf_option_length[of opt] wf_option_parse[of opt] show ?thesis
    by (simp add: encode_option_def parse_loop_option unat_of_nat_u8)
qed (simp add: encode_option_def)

lemma parse_loop_encoded_list:
  assumes "\<forall>opt\<in>set opts. wf_dhcp_option opt \<and> opt \<noteq> Opt_End"
  shows "parse_options_loop (concat (map encode_option opts) @ r) acc = parse_options_loop r (acc @ opts)"
  using assms by (induction opts arbitrary: acc) (simp_all add: parse_loop_encoded)

text \<open>An option list as \<open>parse_options\<close> returns it: the end marker, if any, is the last option.\<close>

definition wf_options :: "dhcp_option list \<Rightarrow> bool" where
  "wf_options opts \<longleftrightarrow> (\<forall>opt\<in>set opts. wf_dhcp_option opt) \<and> Opt_End \<notin> set (butlast opts)"

definition with_end :: "dhcp_option list \<Rightarrow> dhcp_option list" where
  "with_end opts = (if opts \<noteq> [] \<and> last opts \<noteq> Opt_End then opts @ [Opt_End] else opts)"

lemma options_round_trip:
  assumes "wf_options opts" "opts \<noteq> []"
  shows "parse_options (encode_options opts @ r) = Ok (with_end opts)"
proof (cases "last opts = Opt_End")
  case True
  with assms(2) obtain init where o: "opts = init @ [Opt_End]" by (metis append_butlast_last_id)
  then have "\<forall>opt\<in>set init. wf_dhcp_option opt \<and> opt \<noteq> Opt_End" using assms(1) by (auto simp: wf_options_def butlast_append)
  from parse_loop_encoded_list[OF this, of "255 # r" "[]"] show ?thesis
    by (simp add: o parse_options_def encode_options_def with_end_def encode_option_def)
next
  case False
  have "set opts = insert (last opts) (set (butlast opts))"
    using assms(2) by (metis append_butlast_last_id list.simps(15) rotate1.simps(2) set_rotate1)
  with False have "\<forall>opt\<in>set opts. wf_dhcp_option opt \<and> opt \<noteq> Opt_End" using assms(1) by (auto simp: wf_options_def)
  from parse_loop_encoded_list[OF this, of "255 # r" "[]"] False assms(2) show ?thesis
    by (simp add: parse_options_def encode_options_def with_end_def)
qed

lemma parse_loop_wf:
  "parse_options_loop r acc = Ok opts \<Longrightarrow> \<forall>opt\<in>set acc. wf_dhcp_option opt \<and> opt \<noteq> Opt_End \<Longrightarrow> wf_options opts"
proof (induction r acc rule: parse_options_loop.induct)
  case (1 r acc)
  show ?case
  proof (cases r)
    case Nil
    with 1 show ?thesis by (auto simp: wf_options_def dest: in_set_butlastD)
  next
    case (Cons code r')
    consider "code = 0" | "code = 255" | "code \<noteq> 0" "code \<noteq> 255" "r' = []"
      | (opt) len r'' where "code \<noteq> 0" "code \<noteq> 255" "r' = len # r''"
      by (cases r') auto
    then show ?thesis
    proof cases
      case (opt len r'')
      with 1(3) Cons obtain x where x: "\<not> length r'' < unat len" "parse_option code (take (unat len) r'') = Ok x"
        "parse_options_loop (drop (unat len) r'') (acc @ [x]) = Ok opts"
        by (auto simp: parse_loop_option split: if_splits outcome.splits)
      have "wf_dhcp_option x \<and> x \<noteq> Opt_End"
        using parse_option_wf[OF x(2) le_less_trans[OF _ unat_u8_less[of len]]] opt(1,2) by simp
      with 1(4) have "\<forall>y\<in>set (acc @ [x]). wf_dhcp_option y \<and> y \<noteq> Opt_End" by auto
      from 1(2)[OF Cons opt(1,2,3) x(1,2) x(3) this] show ?thesis .
    qed (use 1 Cons in \<open>auto simp: wf_options_def butlast_append parse_options_loop.simps[of "[code]"]\<close>)
  qed
qed

lemma parse_options_wf: "parse_options r = Ok opts \<Longrightarrow> wf_options opts"
  using parse_loop_wf[of r "[]"] by (simp add: parse_options_def)

subsection \<open>Subnet masks\<close>

text \<open>A number and its successor have no common bit exactly when the number is a block of ones.\<close>

lemma and_Suc_iff:
  fixes x :: nat
  shows "Suc x AND x = 0 \<longleftrightarrow> (\<exists>n. Suc x = 2 ^ n)"
proof (induction x rule: less_induct)
  case (less x)
  show ?case
  proof (cases "even x")
    case True
    then obtain k where x: "x = 2 * k" by blast
    have "Suc x AND x = 2 * k" by (subst and_nat_rec) (simp add: x)
    moreover have "k = 0" if "Suc (2 * k) = 2 ^ n" for n using that by (cases n) (simp_all, presburger)
    moreover have "Suc 0 = 2 ^ 0" by simp
    ultimately show ?thesis using x by (metis mult_0_right mult_eq_0_iff zero_neq_numeral)
  next
    case False
    then obtain k where x: "x = 2 * k + 1" by (blast elim: oddE)
    have "Suc x AND x = 2 * (Suc k AND k)" by (subst and_nat_rec) (simp add: x)
    moreover have "(\<exists>n. Suc x = 2 ^ n) \<longleftrightarrow> (\<exists>n. Suc k = 2 ^ n)"
    proof
      assume "\<exists>n. Suc x = 2 ^ n"
      then obtain n where "2 * Suc k = 2 ^ n" using x by auto
      then obtain j where "2 * Suc k = 2 * 2 ^ j" by (cases n) simp_all
      then have "Suc k = 2 ^ j" by (metis nat_mult_eq_cancel_disj zero_neq_numeral)
      then show "\<exists>n. Suc k = 2 ^ n" ..
    next
      assume "\<exists>n. Suc k = 2 ^ n"
      then obtain n where "Suc k = 2 ^ n" by blast
      then have "Suc x = 2 ^ Suc n" using x by simp
      then show "\<exists>n. Suc x = 2 ^ n" by blast
    qed
    ultimately show ?thesis using less[of k] x by simp
  qed
qed

lemma mask_word_iff:
  fixes m :: u32
  shows "NOT m = 0 \<or> (NOT m + 1) AND NOT m = 0 \<longleftrightarrow> (\<exists>n\<le>32. unat m + 2 ^ n = 2 ^ 32)"
proof (cases "m = 0")
  case True
  then show ?thesis by (simp add: exI[of _ 32])
next
  case False
  let ?x = "unat (NOT m)"
  have one: "unat (-1 :: u32) = 2 ^ 32 - 1" by (simp add: unsigned_minus_1_eq_mask mask_eq_exp_minus_1)
  have "NOT m = -1 - m" by (simp add: not_eq_complement)
  moreover have "unat m < 2 ^ 32" using unsigned_less[of m] by simp
  ultimately have x: "?x + unat m + 1 = 2 ^ 32" using unat_sub[of m "-1"] by (simp add: one)
  have "0 < unat m" using False by (simp add: unat_gt_0)
  then have "Suc ?x mod 2 ^ 32 = Suc ?x" using x by (intro mod_less) linarith
  then have "unat (NOT m + 1) = Suc ?x" by (simp add: unat_word_ariths)
  then have "unat ((NOT m + 1) AND NOT m) = (Suc ?x AND ?x)" by (simp add: unsigned_and_eq)
  then have "(NOT m + 1) AND NOT m = 0 \<longleftrightarrow> (Suc ?x AND ?x) = 0" by (metis unat_0 unat_eq_zero)
  then have "NOT m = 0 \<or> (NOT m + 1) AND NOT m = 0 \<longleftrightarrow> (\<exists>n. Suc ?x = 2 ^ n)" using and_Suc_iff[of ?x] by auto
  also have "\<dots> \<longleftrightarrow> (\<exists>n\<le>32. unat m + 2 ^ n = 2 ^ 32)"
  proof
    assume "\<exists>n. Suc ?x = 2 ^ n"
    then obtain n where n: "Suc ?x = 2 ^ n" by blast
    then have "unat m + 2 ^ n = 2 ^ 32" using x by linarith
    moreover from this have "(2 :: nat) ^ n \<le> 2 ^ 32" by linarith
    then have "n \<le> 32" by (rule power_le_imp_le_exp[rotated]) simp
    ultimately show "\<exists>n\<le>32. unat m + 2 ^ n = 2 ^ 32" by blast
  next
    assume "\<exists>n\<le>32. unat m + 2 ^ n = 2 ^ 32"
    then obtain n where "unat m + 2 ^ n = 2 ^ 32" by blast
    then have "Suc ?x = 2 ^ n" using x by linarith
    then show "\<exists>n. Suc ?x = 2 ^ n" ..
  qed
  finally show ?thesis .
qed

subsection \<open>Properties\<close>

text \<open>
  An option field round-trips: whatever \<open>parse_options\<close> accepts is a list of well-formed options with
  the end marker, if any, last, and every such list that is not empty, encoded and followed by any
  bytes, parses back to itself with the end marker added when it is missing.
\<close>

theorem dhcp_options_round_trip:
  "(parse_options input = Ok opts \<longrightarrow> wf_options opts) \<and>
   (wf_options opts \<and> opts \<noteq> [] \<longrightarrow> parse_options (encode_options opts @ rest) = Ok (with_end opts))"
  using parse_options_wf options_round_trip by blast

theorem dhcp_options_round_trip_witness:
  "parse_options (encode_options [Opt_MessageType Request, Opt_LeaseTime 3600] @ [7]) =
     Ok [Opt_MessageType Request, Opt_LeaseTime 3600, Opt_End]"
  using dhcp_options_round_trip[of "[]" "[Opt_MessageType Request, Opt_LeaseTime 3600]" "[7]"]
  by (simp add: wf_options_def with_end_def)

text \<open>The netmask check accepts exactly the masks of prefix form, \<open>2^32 - 2^n\<close>, from \<open>0.0.0.0\<close> to all ones.\<close>

theorem subnet_mask_prefix:
  "validate_subnet_mask addr = Ok () \<longleftrightarrow> (\<exists>n\<le>32. unat (ipv4_u32 addr) + 2 ^ n = 2 ^ 32)"
  unfolding mask_word_iff[symmetric] by (simp add: validate_subnet_mask_def Let_def)

end
