(* ===== verification/Dhcp4_Message.thy ===== *)
theory Dhcp4_Message
  imports Dhcp4_Options
begin

text \<open>
  DHCPv4 messages, \<open>src/dhcp/v4/message.rs\<close>: the fixed header of RFC 2131, the parser with option
  overload, the serializer with its padding, and the accessors the protocol uses.  The main result is
  that a serialized message parses back.
\<close>

abbreviation MAGIC_COOKIE :: u32 where "MAGIC_COOKIE \<equiv> 0x63825363"
abbreviation MIN_PACKETSZ :: nat where "MIN_PACKETSZ \<equiv> 300"
abbreviation DHCP_CHADDR_MAX :: nat where "DHCP_CHADDR_MAX \<equiv> 16"
abbreviation UNSPECIFIED :: bytes where "UNSPECIFIED \<equiv> [0, 0, 0, 0]"

record dhcp_message =
  dm_op :: u8
  dm_htype :: u8
  dm_hlen :: u8
  dm_hops :: u8
  dm_xid :: u32
  dm_secs :: u16
  dm_flags :: u16
  dm_ciaddr :: bytes
  dm_yiaddr :: bytes
  dm_siaddr :: bytes
  dm_giaddr :: bytes
  dm_chaddr :: bytes
  dm_sname :: bytes
  dm_file :: bytes
  dm_options :: "dhcp_option list"

definition dhcp_new :: dhcp_message where
  "dhcp_new = \<lparr>dm_op = 0, dm_htype = 1, dm_hlen = 6, dm_hops = 0, dm_xid = 0, dm_secs = 0, dm_flags = 0,
     dm_ciaddr = UNSPECIFIED, dm_yiaddr = UNSPECIFIED, dm_siaddr = UNSPECIFIED, dm_giaddr = UNSPECIFIED,
     dm_chaddr = replicate DHCP_CHADDR_MAX 0, dm_sname = replicate 64 0, dm_file = replicate 128 0, dm_options = []\<rparr>"

definition new_reply :: "dhcp_message \<Rightarrow> dhcp_message" where
  "new_reply request = dhcp_new\<lparr>dm_op := 2, dm_htype := dm_htype request, dm_hlen := dm_hlen request,
     dm_xid := dm_xid request, dm_flags := dm_flags request, dm_giaddr := dm_giaddr request, dm_chaddr := dm_chaddr request\<rparr>"

subsection \<open>Parsing\<close>

definition parse_fixed_header_part1 :: "bytes \<Rightarrow> (bytes \<times> u8 \<times> u8 \<times> u8 \<times> u8 \<times> u32 \<times> u16 \<times> u16) option" where
  "parse_fixed_header_part1 input =
     Option.bind (be_u8 input) (\<lambda>(i, op).
     Option.bind (be_u8 i) (\<lambda>(i, htype).
     Option.bind (be_u8 i) (\<lambda>(i, hlen).
     Option.bind (be_u8 i) (\<lambda>(i, hops).
     Option.bind (be_u32 i) (\<lambda>(i, xid).
     Option.bind (be_u16 i) (\<lambda>(i, sec).
     Option.bind (be_u16 i) (\<lambda>(i, flags). Some (i, op, htype, hlen, hops, xid, sec, flags))))))))"

definition parse_ipv4_addresses :: "bytes \<Rightarrow> (bytes \<times> bytes \<times> bytes \<times> bytes \<times> bytes) option" where
  "parse_ipv4_addresses input =
     Option.bind (take_bytes 4 input) (\<lambda>(i, ciaddr).
     Option.bind (take_bytes 4 i) (\<lambda>(i, yiaddr).
     Option.bind (take_bytes 4 i) (\<lambda>(i, siaddr).
     Option.bind (take_bytes 4 i) (\<lambda>(i, giaddr). Some (i, ciaddr, yiaddr, siaddr, giaddr)))))"

definition parse_variable_fields :: "bytes \<Rightarrow> (bytes \<times> bytes \<times> bytes \<times> bytes) option" where
  "parse_variable_fields input =
     Option.bind (take_bytes DHCP_CHADDR_MAX input) (\<lambda>(i, chaddr).
     Option.bind (take_bytes 64 i) (\<lambda>(i, sname).
     Option.bind (take_bytes 128 i) (\<lambda>(i, file). Some (i, chaddr, sname, file))))"

fun find_overload_value :: "dhcp_option list \<Rightarrow> u8 option" where
  "find_overload_value [] = None"
| "find_overload_value (Opt_Overload v # _) = Some v"
| "find_overload_value (_ # opts) = find_overload_value opts"

fun is_overload :: "dhcp_option \<Rightarrow> bool" where
  "is_overload (Opt_Overload _) = True"
| "is_overload _ = False"

definition overloaded_options :: "bytes \<Rightarrow> bytes \<Rightarrow> dhcp_option list \<Rightarrow> (dhcp_option list, dhcp_error) outcome" where
  "overloaded_options sname file options =
     (case find_overload_value options of
        None \<Rightarrow> Ok options
      | Some v \<Rightarrow>
          let options = filter (\<lambda>opt. \<not> is_overload opt) options in
          rbind (if v = 2 \<or> v = 3 then rbind (parse_options sname) (\<lambda>os. Ok (options @ os)) else Ok options) (\<lambda>options.
            if v = 1 \<or> v = 3 then rbind (parse_options file) (\<lambda>os. Ok (options @ os)) else Ok options))"

definition parse_dhcp_message :: "bytes \<Rightarrow> (dhcp_message, dhcp_error) outcome" where
  "parse_dhcp_message input =
     (if length input < 240 then Err (DhcpParseFailed ''Packet too short'')
      else
        rbind (ok_or (DhcpParseFailed ''Failed to parse header part 1'') (parse_fixed_header_part1 input))
          (\<lambda>(i, op, htype, hlen, hops, xid, sec, flags).
        rbind (ok_or (DhcpParseFailed ''Failed to parse IP addresses'') (parse_ipv4_addresses i))
          (\<lambda>(i, ciaddr, yiaddr, siaddr, giaddr).
        rbind (ok_or (DhcpParseFailed ''Failed to parse variable fields'') (parse_variable_fields i))
          (\<lambda>(i, chaddr, sname, file).
        rbind (ok_or (DhcpParseFailed ''Invalid magic cookie'')
            (Option.bind (be_u32 i) (\<lambda>(i, cookie). if cookie = MAGIC_COOKIE then Some i else None)))
          (\<lambda>i.
        rbind (parse_options i) (\<lambda>options.
        rbind (overloaded_options sname file options) (\<lambda>options.
          Ok \<lparr>dm_op = op, dm_htype = htype, dm_hlen = hlen, dm_hops = hops, dm_xid = xid, dm_secs = sec, dm_flags = flags,
              dm_ciaddr = ciaddr, dm_yiaddr = yiaddr, dm_siaddr = siaddr, dm_giaddr = giaddr, dm_chaddr = chaddr,
              dm_sname = sname, dm_file = file, dm_options = options\<rparr>)))))))"

subsection \<open>Serializing\<close>

definition dhcp_header_bytes :: "dhcp_message \<Rightarrow> bytes" where
  "dhcp_header_bytes m =
     [dm_op m, dm_htype m, dm_hlen m, dm_hops m] @ put_u32 (dm_xid m) @ put_u16 (dm_secs m) @ put_u16 (dm_flags m) @
     dm_ciaddr m @ dm_yiaddr m @ dm_siaddr m @ dm_giaddr m @ dm_chaddr m @ dm_sname m @ dm_file m @ put_u32 MAGIC_COOKIE"

definition serialize_dhcp_message :: "dhcp_message \<Rightarrow> bytes" where
  "serialize_dhcp_message m =
     (let buf = dhcp_header_bytes m @ encode_options (dm_options m) in
      if length buf < MIN_PACKETSZ then buf @ replicate (MIN_PACKETSZ - length buf) 0 else buf)"

subsection \<open>Accessors\<close>

definition chaddr_slice :: "dhcp_message \<Rightarrow> bytes" where
  "chaddr_slice m = take (unat (min (dm_hlen m) (of_nat DHCP_CHADDR_MAX))) (dm_chaddr m)"

definition client_hardware_addr :: "dhcp_message \<Rightarrow> (mac_address, dhcp_error) outcome" where
  "client_hardware_addr m =
     (if dm_hlen m \<noteq> 6 then Err (DhcpParseFailed ''Invalid hardware address length'')
      else Ok \<lparr>mac_octets = take 6 (dm_chaddr m)\<rparr>)"

definition get_option :: "(dhcp_option \<Rightarrow> bool) \<Rightarrow> dhcp_message \<Rightarrow> dhcp_option option" where
  "get_option predicate m = find predicate (dm_options m)"

fun requested_ip_opt :: "dhcp_option \<Rightarrow> bytes option" where
  "requested_ip_opt (Opt_RequestedIpAddress a) = Some a"
| "requested_ip_opt _ = None"

fun server_id_opt :: "dhcp_option \<Rightarrow> bytes option" where
  "server_id_opt (Opt_ServerId a) = Some a"
| "server_id_opt _ = None"

fun find_map :: "('a \<Rightarrow> 'b option) \<Rightarrow> 'a list \<Rightarrow> 'b option" where
  "find_map f [] = None"
| "find_map f (x # xs) = (case f x of Some y \<Rightarrow> Some y | None \<Rightarrow> find_map f xs)"

definition requested_ip_address :: "dhcp_message \<Rightarrow> bytes option" where
  "requested_ip_address m = find_map requested_ip_opt (dm_options m)"

definition server_identifier :: "dhcp_message \<Rightarrow> bytes option" where
  "server_identifier m = find_map server_id_opt (dm_options m)"

definition dhcp_add_option :: "dhcp_option \<Rightarrow> dhcp_message \<Rightarrow> dhcp_message" where
  "dhcp_add_option opt m = m\<lparr>dm_options := dm_options m @ [opt]\<rparr>"

definition set_chaddr :: "mac_address \<Rightarrow> dhcp_message \<Rightarrow> dhcp_message" where
  "set_chaddr mac m =
     (let len = min (length (mac_octets mac)) DHCP_CHADDR_MAX in
      m\<lparr>dm_chaddr := take len (mac_octets mac) @ drop len (dm_chaddr m), dm_hlen := of_nat len\<rparr>)"

subsection \<open>Round trip\<close>

text \<open>The sizes of the arrays of the struct.\<close>

definition wf_dhcp_message :: "dhcp_message \<Rightarrow> bool" where
  "wf_dhcp_message m \<longleftrightarrow> length (dm_ciaddr m) = 4 \<and> length (dm_yiaddr m) = 4 \<and> length (dm_siaddr m) = 4 \<and>
     length (dm_giaddr m) = 4 \<and> length (dm_chaddr m) = DHCP_CHADDR_MAX \<and> length (dm_sname m) = 64 \<and> length (dm_file m) = 128"

lemma header_length: "wf_dhcp_message m \<Longrightarrow> length (dhcp_header_bytes m) = 240"
  by (simp add: dhcp_header_bytes_def wf_dhcp_message_def)

lemma serialize_split:
  "\<exists>pad. serialize_dhcp_message m = dhcp_header_bytes m @ encode_options (dm_options m) @ pad"
  by (simp add: serialize_dhcp_message_def Let_def)

lemma parse_header_part1:
  "parse_fixed_header_part1 ([a, b, c, d] @ put_u32 x @ put_u16 s @ put_u16 f @ r) = Some (r, a, b, c, d, x, s, f)"
  by (simp add: parse_fixed_header_part1_def)

lemma parse_addresses:
  "length a = 4 \<Longrightarrow> length b = 4 \<Longrightarrow> length c = 4 \<Longrightarrow> length d = 4 \<Longrightarrow>
   parse_ipv4_addresses (a @ b @ c @ d @ r) = Some (r, a, b, c, d)"
  by (simp add: parse_ipv4_addresses_def)

lemma parse_fields:
  "length a = 16 \<Longrightarrow> length b = 64 \<Longrightarrow> length c = 128 \<Longrightarrow> parse_variable_fields (a @ b @ c @ r) = Some (r, a, b, c)"
  by (simp add: parse_variable_fields_def)

lemma no_overload: "\<forall>opt\<in>set opts. \<not> is_overload opt \<Longrightarrow> find_overload_value opts = None"
  by (induction opts rule: find_overload_value.induct) auto

lemma parse_header:
  assumes "wf_dhcp_message m"
  shows "parse_dhcp_message (dhcp_header_bytes m @ r) =
    rbind (parse_options r) (\<lambda>options. rbind (overloaded_options (dm_sname m) (dm_file m) options) (\<lambda>options. Ok (m\<lparr>dm_options := options\<rparr>)))"
proof -
  have l: "\<not> length (dhcp_header_bytes m @ r) < 240" using header_length[OF assms] by simp
  have "parse_fixed_header_part1 (dhcp_header_bytes m @ r) =
      Some (dm_ciaddr m @ dm_yiaddr m @ dm_siaddr m @ dm_giaddr m @ dm_chaddr m @ dm_sname m @ dm_file m @ put_u32 MAGIC_COOKIE @ r,
        dm_op m, dm_htype m, dm_hlen m, dm_hops m, dm_xid m, dm_secs m, dm_flags m)"
    unfolding dhcp_header_bytes_def append_assoc by (rule parse_header_part1)
  moreover have e: "\<lparr>dm_op = dm_op m, dm_htype = dm_htype m, dm_hlen = dm_hlen m, dm_hops = dm_hops m, dm_xid = dm_xid m,
      dm_secs = dm_secs m, dm_flags = dm_flags m, dm_ciaddr = dm_ciaddr m, dm_yiaddr = dm_yiaddr m, dm_siaddr = dm_siaddr m,
      dm_giaddr = dm_giaddr m, dm_chaddr = dm_chaddr m, dm_sname = dm_sname m, dm_file = dm_file m, dm_options = os\<rparr> =
      m\<lparr>dm_options := os\<rparr>" for os by simp
  ultimately show ?thesis using assms l
    by (simp add: parse_dhcp_message_def parse_addresses parse_fields wf_dhcp_message_def) (simp only: e)
qed

lemma take_bytes_length: "take_bytes n i = Some (r, x) \<Longrightarrow> length x = n"
  by (auto simp: take_bytes_def split: if_splits)

lemma overloaded_wf:
  assumes "overloaded_options sname file opts = Ok os" "wf_options opts"
  shows "\<forall>opt\<in>set os. wf_dhcp_option opt"
  using assms parse_options_wf
  by (fastforce simp: overloaded_options_def wf_options_def rust_simps Let_def split: option.splits if_splits)

lemma parse_dhcp_message_wf:
  assumes "parse_dhcp_message input = Ok m"
  shows "wf_dhcp_message m \<and> (\<forall>opt\<in>set (dm_options m). wf_dhcp_option opt)"
proof -
  obtain i os opts where "parse_options i = Ok opts" "overloaded_options (dm_sname m) (dm_file m) opts = Ok os" "dm_options m = os"
    "wf_dhcp_message m"
    using assms
    by (auto simp: parse_dhcp_message_def rust_simps parse_ipv4_addresses_def parse_variable_fields_def wf_dhcp_message_def
        bind_eq_Some_conv take_bytes_length split: if_splits)
  then show ?thesis using overloaded_wf parse_options_wf by blast
qed

lemma dhcp_message_parse_back:
  assumes "wf_dhcp_message m" "wf_options (dm_options m)" "dm_options m \<noteq> []" "\<forall>opt\<in>set (dm_options m). \<not> is_overload opt"
  shows "parse_dhcp_message (serialize_dhcp_message m) = Ok (m\<lparr>dm_options := with_end (dm_options m)\<rparr>)"
proof -
  obtain pad where p: "serialize_dhcp_message m = dhcp_header_bytes m @ encode_options (dm_options m) @ pad"
    using serialize_split by blast
  have "\<forall>opt\<in>set (with_end (dm_options m)). \<not> is_overload opt" using assms(4) by (simp add: with_end_def)
  from no_overload[OF this] show ?thesis
    unfolding p parse_header[OF assms(1)] options_round_trip[OF assms(2,3)] by (simp add: overloaded_options_def)
qed

subsection \<open>Properties\<close>

text \<open>
  A DHCPv4 message with well-formed options, serialized with its padding to at least 300 bytes, parses
  back to itself, with the end marker in its options; and whatever bytes are parsed as a message give
  fields of the right sizes and well-formed options.
\<close>

theorem dhcp_message_round_trip:
  "(wf_dhcp_message m \<and> wf_options (dm_options m) \<and> dm_options m \<noteq> [] \<and> (\<forall>opt\<in>set (dm_options m). \<not> is_overload opt) \<longrightarrow>
     parse_dhcp_message (serialize_dhcp_message m) = Ok (m\<lparr>dm_options := with_end (dm_options m)\<rparr>)) \<and>
   MIN_PACKETSZ \<le> length (serialize_dhcp_message m) \<and>
   (parse_dhcp_message input = Ok m' \<longrightarrow> wf_dhcp_message m' \<and> (\<forall>opt\<in>set (dm_options m'). wf_dhcp_option opt))"
proof -
  have "MIN_PACKETSZ \<le> length (serialize_dhcp_message m)" by (simp add: serialize_dhcp_message_def Let_def)
  with dhcp_message_parse_back parse_dhcp_message_wf show ?thesis by blast
qed

theorem dhcp_message_round_trip_witness:
  "parse_dhcp_message (serialize_dhcp_message (dhcp_new\<lparr>dm_xid := 7, dm_options := [Opt_MessageType Discover]\<rparr>)) =
     Ok (dhcp_new\<lparr>dm_xid := 7, dm_options := [Opt_MessageType Discover, Opt_End]\<rparr>)"
  using dhcp_message_round_trip[of "dhcp_new\<lparr>dm_xid := 7, dm_options := [Opt_MessageType Discover]\<rparr>"]
  by (simp add: wf_dhcp_message_def dhcp_new_def wf_options_def with_end_def)

end
