(* ===== verification/Name_Wire.thy ===== *)
theory Name_Wire
  imports Prelude
begin

text \<open>
  The wire format of domain names (RFC 1035, section 4.1.4) as a specification, independent of the
  four loops of the code that walk it.  \<open>wire_name p off ls h e\<close> says: in packet \<open>p\<close> a name with labels
  \<open>ls\<close> starts at \<open>off\<close>, reading it follows \<open>h\<close> compression pointers, and the first byte after its
  encoding at \<open>off\<close> is \<open>e\<close>.  \<open>wire_of ls\<close> is the uncompressed encoding.  The theory also holds the
  bit-level facts about length bytes and pointers.
\<close>

subsection \<open>Length bytes and pointers\<close>

definition pointer_target :: "u8 \<Rightarrow> u8 \<Rightarrow> nat" where
  "pointer_target a b = unat (push_bit 8 (ucast (a AND 0x3F) :: u64) OR ucast b)"

lemma unat_and_3F: "unat ((b::u8) AND 0x3F) = unat b mod 64"
proof -
  have "(0x3F :: u8) = mask 6" by (simp add: mask_eq_exp_minus_1)
  then have "b AND 0x3F = take_bit 6 b" by (simp only: take_bit_eq_mask)
  then show ?thesis by (simp add: unat_mod take_bit_eq_mod)
qed

lemma unat_and_C0: "unat ((b::u8) AND 0xC0) = unat b div 64 * 64"
proof -
  have "(0xC0 :: u8) = NOT (mask 6)" by (simp add: mask_eq_exp_minus_1 not_eq_complement)
  then have "b AND 0xC0 = push_bit 6 (drop_bit 6 b)"
    by (simp add: bit_eq_iff bit_simps) (metis le_add_diff_inverse not_less)
  then have "unat (b AND 0xC0) = (unat b div 64 * 64) mod 256"
    by (simp add: push_bit_eq_mult drop_bit_eq_div unat_word_ariths(2) unat_div)
  moreover have "unat b div 64 * 64 < 256"
    by (rule le_less_trans [OF div_times_less_eq_dividend unat_u8_less])
  ultimately show ?thesis by (simp only: mod_less)
qed

lemma div64_cases:
  fixes n :: nat
  shows "n < 256 \<Longrightarrow> n div 64 * 64 = 192 \<longleftrightarrow> 192 \<le> n" "n div 64 * 64 = 0 \<longleftrightarrow> n < 64"
  using less_eq_div_iff_mult_less_eq[of 64 3 n] div_less_iff_less_mult[of 64 n 4]
    div_less_iff_less_mult[of 64 n 1] by auto

lemma and_C0_eq_C0: "(b::u8) AND 0xC0 = 0xC0 \<longleftrightarrow> 192 \<le> unat b"
proof -
  have "(b AND 0xC0 = 0xC0) = (unat (b AND 0xC0) = unat (0xC0 :: u8))" by (rule word_unat_eq_iff)
  then show ?thesis using div64_cases(1)[OF unat_u8_less[of b]] by (simp add: unat_and_C0)
qed

lemma and_C0_eq_0: "(b::u8) AND 0xC0 = 0 \<longleftrightarrow> unat b < 64"
proof -
  have "(b AND 0xC0 = 0) = (unat (b AND 0xC0) = unat (0 :: u8))" by (rule word_unat_eq_iff)
  then show ?thesis using div64_cases(2)[of "unat b"] by (simp add: unat_and_C0)
qed

lemma push_or: "push_bit 8 (x :: 'a::len word) OR ucast (b :: u8) = push_bit 8 x + ucast b"
proof (rule disjunctive_add [symmetric])
  fix n show "\<not> bit (push_bit 8 x) n \<or> \<not> bit (ucast b :: 'a word) n"
    using bit_imp_le_length[of b n] by (auto simp: bit_simps)
qed

lemma pointer_target_eq: "pointer_target a b = (unat a mod 64) * 256 + unat b"
proof -
  have "unat (push_bit 8 (ucast (a AND 0x3F) :: u64)) = (unat a mod 64) * 256"
    by (simp add: push_bit_eq_mult unat_word_ariths(2) unat_and_3F unsigned_ucast_eq take_bit_eq_mod)
  moreover have "unat (ucast b :: u64) = unat b" using unat_u8_less[of b]
    by (simp add: unsigned_ucast_eq take_bit_eq_mod del: unat_u8_less)
  moreover have "unat a mod 64 * 256 + unat b < 2 ^ 64"
    using unat_u8_less[of b] mod_less_divisor[of 64 "unat a"] by (simp del: unat_u8_less)
  ultimately show ?thesis unfolding pointer_target_def push_or
    by (simp add: unat_word_ariths)
qed

lemma unat_be16: "unat (be16 a b) = unat a * 256 + unat b"
proof -
  have "unat (push_bit 8 (ucast a :: u16)) = unat a * 256"
    using unat_u8_less[of a]
    by (simp add: push_bit_eq_mult unat_word_ariths(2) unsigned_ucast_eq take_bit_eq_mod del: unat_u8_less)
  moreover have "unat (ucast b :: u16) = unat b" using unat_u8_less[of b]
    by (simp add: unsigned_ucast_eq take_bit_eq_mod del: unat_u8_less)
  moreover have "unat a * 256 + unat b < 2 ^ 16"
    using unat_u8_less[of b] unat_u8_less[of a] by (simp del: unat_u8_less)
  ultimately show ?thesis unfolding be16_def push_or
    by (simp add: unat_word_ariths)
qed

lemma C000_or: "n \<le> 0x3FFF \<Longrightarrow> unat (0xC000 OR of_nat n :: u16) = 0xC000 + n"
proof -
  assume n: "n \<le> 0x3FFF"
  then have n2: "unat (of_nat n :: u16) = n" by (simp add: unat_of_nat_u16)
  have "(of_nat n :: u16) = take_bit 14 (of_nat n)"
    using n by (simp add: take_bit_eq_mod word_unat_eq_iff unat_mod n2)
  then have "bit (of_nat n :: u16) k \<Longrightarrow> k < 14" for k
    by (metis bit_take_bit_iff)
  moreover have "(0xC000 :: u16) = push_bit 14 3" by (simp add: push_bit_eq_mult)
  then have "bit (0xC000 :: u16) k \<Longrightarrow> 14 \<le> k" for k by (metis bit_push_bit_iff)
  ultimately have "(0xC000 :: u16) OR of_nat n = 0xC000 + of_nat n"
    by (intro disjunctive_add [symmetric]) (meson not_less)
  then show ?thesis using n n2 by (simp add: unat_word_ariths)
qed

lemma put_pointer:
  assumes n: "n \<le> 0x3FFF" and p: "put_u16 (0xC000 OR of_nat n) = [a, b]"
  shows "192 \<le> unat a" and "pointer_target a b = n"
proof -
  have "put_u16 (be16 a b) = put_u16 (0xC000 OR of_nat n)" using p by (simp add: put_be16)
  then have "be16 a b = 0xC000 OR of_nat n"
    using be_u16_put[of _ "[]"] by (metis option.inject prod.inject)
  then have eq: "unat a * 256 + unat b = 0xC000 + n"
    using C000_or[OF n] unat_be16[of a b] by simp
  moreover have ab: "unat a < 256" "unat b < 256" by simp_all
  ultimately show a: "192 \<le> unat a" using n by linarith
  have "unat a mod 64 = unat a - 192"
    using a ab(1) mod_mult_self1[of "unat a - 192" 3 64] by (simp del: unat_u8_less)
  then show "pointer_target a b = n" using eq a by (simp add: pointer_target_eq)
qed

subsection \<open>The encoding relation\<close>

inductive wire_name :: "bytes \<Rightarrow> nat \<Rightarrow> bytes list \<Rightarrow> nat \<Rightarrow> nat \<Rightarrow> bool" for p :: bytes where
  root: "off < length p \<Longrightarrow> p ! off = 0 \<Longrightarrow> wire_name p off [] 0 (Suc off)"
| label: "off < length p \<Longrightarrow> n = unat (p ! off) \<Longrightarrow> 0 < n \<Longrightarrow> n \<le> 63 \<Longrightarrow> Suc (off + n) \<le> length p \<Longrightarrow>
     l = slice (Suc off) (Suc (off + n)) p \<Longrightarrow> wire_name p (Suc (off + n)) ls h e \<Longrightarrow>
     wire_name p off (l # ls) h e"
| pointer: "Suc off < length p \<Longrightarrow> p ! off AND 0xC0 = 0xC0 \<Longrightarrow>
     wire_name p (pointer_target (p ! off) (p ! Suc off)) ls h e \<Longrightarrow>
     wire_name p off ls (Suc h) (Suc (Suc off))"

inductive_simps wire_name_unfold: "wire_name p off ls h e"

lemma wire_name_bounds: "wire_name p off ls h e \<Longrightarrow> off < e \<and> e \<le> length p"
  by (induction rule: wire_name.induct) auto

lemma wire_name_label_size:
  "wire_name p off ls h e \<Longrightarrow> l \<in> set ls \<Longrightarrow> 0 < length l \<and> length l \<le> 63"
  by (induction rule: wire_name.induct) auto

lemma wire_name_zero_iff:
  "p ! off = 0 \<Longrightarrow> wire_name p off ls h e \<longleftrightarrow> off < length p \<and> ls = [] \<and> h = 0 \<and> e = Suc off"
  by (subst wire_name_unfold) auto

lemma wire_name_pointer_iff:
  assumes "p ! off AND 0xC0 = 0xC0"
  shows "wire_name p off ls h e \<longleftrightarrow> Suc off < length p \<and> e = Suc (Suc off) \<and>
     (\<exists>h' e'. h = Suc h' \<and> wire_name p (pointer_target (p ! off) (p ! Suc off)) ls h' e')"
proof -
  have "192 \<le> unat (p ! off)" using assms by (simp add: and_C0_eq_C0)
  then show ?thesis using assms by (subst wire_name_unfold) auto
qed

lemma wire_name_label_iff:
  assumes "p ! off \<noteq> 0" and "p ! off AND 0xC0 \<noteq> 0xC0"
  shows "wire_name p off ls h e \<longleftrightarrow> unat (p ! off) \<le> 63 \<and> Suc (off + unat (p ! off)) \<le> length p \<and>
     (\<exists>ls'. ls = slice (Suc off) (Suc (off + unat (p ! off))) p # ls' \<and>
        wire_name p (Suc (off + unat (p ! off))) ls' h e)"
  using assms by (subst wire_name_unfold) (auto simp: unat_gt_0)

lemma wire_name_deterministic:
  "wire_name p off ls h e \<Longrightarrow> wire_name p off ls' h' e' \<Longrightarrow> ls' = ls \<and> h' = h \<and> e' = e"
proof (induction arbitrary: ls' h' e' rule: wire_name.induct)
  case (root off)
  then show ?case by (simp add: wire_name_zero_iff)
next
  case (label off n l ls h e)
  then have "p ! off \<noteq> 0" "p ! off AND 0xC0 \<noteq> 0xC0" by (auto simp: and_C0_eq_C0)
  with label.prems obtain ls2 where "ls' = l # ls2" "wire_name p (Suc (off + n)) ls2 h' e'"
    using label.hyps by (auto simp: wire_name_label_iff)
  with label.IH show ?case by blast
next
  case (pointer off ls h e)
  from pointer.prems obtain h2 e2 where "h' = Suc h2" "e' = Suc (Suc off)"
    "wire_name p (pointer_target (p ! off) (p ! Suc off)) ls' h2 e2"
    unfolding wire_name_pointer_iff[OF pointer.hyps(2)] by blast
  with pointer.IH show ?case by blast
qed

text \<open>Names stay where they are when bytes are appended to the packet.\<close>

lemma wire_name_append: "wire_name p off ls h e \<Longrightarrow> wire_name (p @ q) off ls h e"
proof (induction rule: wire_name.induct)
  case (root off)
  then show ?case by (simp add: wire_name_zero_iff nth_append)
next
  case (label off n l ls h e)
  then show ?case by (intro wire_name.label[where n = n]) (simp_all add: nth_append slice_def)
next
  case (pointer off ls h e)
  then show ?case by (intro wire_name.pointer[where e = e]) (simp_all add: nth_append)
qed

subsection \<open>The uncompressed encoding\<close>

definition wire_label :: "bytes \<Rightarrow> bytes" where
  "wire_label l = of_nat (length l) # l"

definition wire_of :: "bytes list \<Rightarrow> bytes" where
  "wire_of ls = concat (map wire_label ls) @ [0]"

definition label_size :: "bytes \<Rightarrow> bool" where
  "label_size l \<longleftrightarrow> 0 < length l \<and> length l \<le> 63"

lemma length_wire_label [simp]: "length (wire_label l) = length l + 1"
  by (simp add: wire_label_def)

lemma wire_of_Nil [simp]: "wire_of [] = [0]"
  by (simp add: wire_of_def)

lemma wire_of_Cons: "wire_of (l # ls) = wire_label l @ wire_of ls"
  by (simp add: wire_of_def)

lemma length_wire_of: "length (wire_of ls) = (\<Sum>l\<leftarrow>ls. length l + 1) + 1"
  by (induction ls) (auto simp: wire_of_Cons)

text \<open>
  Labels written at the end of a prefix, followed by anything that is a name, form a name: the
  step used both for the terminating zero and for a trailing compression pointer.
\<close>

lemma wire_name_labels_then:
  assumes "\<forall>l\<in>set ls. label_size l"
    and "wire_name (pre @ concat (map wire_label ls) @ post) (length pre + length (concat (map wire_label ls))) ms h e"
  shows "wire_name (pre @ concat (map wire_label ls) @ post) (length pre) (ls @ ms) h e"
  using assms
proof (induction ls arbitrary: pre)
  case (Cons l ls)
  let ?p = "pre @ concat (map wire_label (l # ls)) @ post"
  have "wire_name ?p (length (pre @ wire_label l)) (ls @ ms) h e"
    using Cons.IH[of "pre @ wire_label l"] Cons.prems by (simp add: add.assoc)
  moreover have "unat (?p ! length pre) = length l"
    using Cons.prems(1) by (simp add: nth_append wire_label_def label_size_def unat_of_nat_u8)
  moreover have "wire_name ?p (length pre) (l # (ls @ ms)) h e"
    if "wire_name ?p (Suc (length pre + length l)) (ls @ ms) h e" "unat (?p ! length pre) = length l"
    using Cons.prems(1) that
    by (intro wire_name.label[where n = "length l"]) (auto simp: label_size_def wire_label_def slice_def)
  ultimately show ?case by simp
qed simp

lemma wire_name_wire_of:
  assumes "\<forall>l\<in>set ls. label_size l"
  shows "wire_name (pre @ wire_of ls @ post) (length pre) ls 0 (length pre + length (wire_of ls))"
proof -
  have "wire_name (pre @ concat (map wire_label ls) @ (0 # post))
      (length pre + length (concat (map wire_label ls))) [] 0
      (Suc (length pre + length (concat (map wire_label ls))))"
    by (rule wire_name.root) (auto simp: nth_append)
  from wire_name_labels_then[OF assms this] show ?thesis
    by (simp add: wire_of_def)
qed

lemma wire_name_at:
  assumes "\<forall>l\<in>set ls. label_size l"
    and "off + length (wire_of ls) \<le> length p" and "slice off (off + length (wire_of ls)) p = wire_of ls"
  shows "wire_name p off ls 0 (off + length (wire_of ls))"
proof -
  have "p = take off p @ wire_of ls @ drop (off + length (wire_of ls)) p"
    using assms(3) append_take_drop_id[of off p]
      append_take_drop_id[of "length (wire_of ls)" "drop off p"]
    by (simp add: slice_def add.commute)
  moreover have "length (take off p) = off" using assms(2) by simp
  ultimately show ?thesis using wire_name_wire_of[OF assms(1), of "take off p"] by metis
qed


subsection \<open>Walking a name\<close>

text \<open>
  The code reads names in four loops: \<open>DomainName::from_wire\<close>, \<open>decompress_name\<close>,
  \<open>validate_name_at_offset\<close> and \<open>check_name_compression\<close>.  They share one control structure and
  differ in what they do at a label and at a pointer.  \<open>wire_walk p off es e\<close> is that control
  structure: the events \<open>es\<close> met from \<open>off\<close> to the terminating zero, which is just before \<open>e\<close>.
\<close>

datatype wire_event = Label bytes | Hop nat nat

inductive wire_walk :: "bytes \<Rightarrow> nat \<Rightarrow> wire_event list \<Rightarrow> nat \<Rightarrow> bool" for p :: bytes where
  stop: "off < length p \<Longrightarrow> p ! off = 0 \<Longrightarrow> wire_walk p off [] (Suc off)"
| step_label: "off < length p \<Longrightarrow> n = unat (p ! off) \<Longrightarrow> 0 < n \<Longrightarrow> n \<le> 63 \<Longrightarrow> Suc (off + n) \<le> length p \<Longrightarrow>
     wire_walk p (Suc (off + n)) es e \<Longrightarrow>
     wire_walk p off (Label (slice (Suc off) (Suc (off + n)) p) # es) e"
| step_hop: "Suc off < length p \<Longrightarrow> p ! off AND 0xC0 = 0xC0 \<Longrightarrow> t = pointer_target (p ! off) (p ! Suc off) \<Longrightarrow>
     wire_walk p t es e \<Longrightarrow> wire_walk p off (Hop off t # es) e"

fun ev_labels :: "wire_event list \<Rightarrow> bytes list" where
  "ev_labels [] = []"
| "ev_labels (Label l # es) = l # ev_labels es"
| "ev_labels (Hop _ _ # es) = ev_labels es"

fun ev_hops :: "wire_event list \<Rightarrow> nat" where
  "ev_hops [] = 0"
| "ev_hops (Label _ # es) = ev_hops es"
| "ev_hops (Hop _ _ # es) = Suc (ev_hops es)"

fun ev_return :: "wire_event list \<Rightarrow> nat option" where
  "ev_return [] = None"
| "ev_return (Label _ # es) = ev_return es"
| "ev_return (Hop off _ # es) = Some (Suc (Suc off))"

lemma wire_walk_bounds: "wire_walk p off es e \<Longrightarrow> off < length p"
  by (induction rule: wire_walk.induct) auto

lemma wire_walk_targets: "wire_walk p off es e \<Longrightarrow> Hop a t \<in> set es \<Longrightarrow> t < length p"
  by (induction rule: wire_walk.induct) (auto dest: wire_walk_bounds)

lemma wire_walk_name:
  "wire_walk p off es e \<Longrightarrow>
   wire_name p off (ev_labels es) (ev_hops es) (case ev_return es of None \<Rightarrow> e | Some r \<Rightarrow> r)"
  by (induction rule: wire_walk.induct) (auto intro: wire_name.intros)

lemma wire_name_walk:
  "wire_name p off ls h e \<Longrightarrow> \<exists>es e0. wire_walk p off es e0 \<and> ls = ev_labels es \<and> h = ev_hops es \<and>
     e = (case ev_return es of None \<Rightarrow> e0 | Some r \<Rightarrow> r)"
proof (induction rule: wire_name.induct)
  case (root off)
  then have "wire_walk p off [] (Suc off)" by (rule wire_walk.stop)
  then show ?case by (intro exI[of _ "[]"] exI[of _ "Suc off"]) simp
next
  case (label off n l ls h e)
  then obtain es e0 where "wire_walk p (Suc (off + n)) es e0" "ls = ev_labels es" "h = ev_hops es"
    "e = (case ev_return es of None \<Rightarrow> e0 | Some r \<Rightarrow> r)" by blast
  with label.hyps show ?case
    by (intro exI[of _ "Label l # es"] exI[of _ e0]) (auto intro: wire_walk.step_label)
next
  case (pointer off ls h e)
  then obtain es e0 where "wire_walk p (pointer_target (p ! off) (p ! Suc off)) es e0"
    "ls = ev_labels es" "h = ev_hops es" by blast
  with pointer.hyps show ?case
    by (intro exI[of _ "Hop off (pointer_target (p ! off) (p ! Suc off)) # es"] exI[of _ e0])
      (auto intro: wire_walk.step_hop)
qed

text \<open>What a loop does with the events: a fold that may fail.\<close>

fun run_events :: "('st \<Rightarrow> wire_event \<Rightarrow> ('st, 'e) outcome) \<Rightarrow> 'st \<Rightarrow> wire_event list \<Rightarrow> ('st, 'e) outcome" where
  "run_events f st [] = Ok st"
| "run_events f st (ev # es) = rbind (f st ev) (\<lambda>st'. run_events f st' es)"

text \<open>
  The contract of a name-reading loop \<open>walk\<close> with loop state \<open>'st\<close>: at a zero byte it finishes, at a
  pointer and at a label it lets \<open>on_event\<close> update the state and goes on, and everything malformed is
  an error.  \<open>budget\<close> bounds the number of pointers it follows.
\<close>

locale name_walker =
  fixes walk :: "bytes \<Rightarrow> nat \<Rightarrow> 'st \<Rightarrow> ('r, 'e) outcome"
    and on_event :: "bytes \<Rightarrow> 'st \<Rightarrow> wire_event \<Rightarrow> ('st, 'e) outcome"
    and finish :: "'st \<Rightarrow> nat \<Rightarrow> 'r"
    and budget :: "'st \<Rightarrow> nat"
  assumes walk_zero:
      "off < length p \<Longrightarrow> p ! off = 0 \<Longrightarrow> walk p off st = Ok (finish st (Suc off))"
    and walk_hop: "Suc off < length p \<Longrightarrow> p ! off AND 0xC0 = 0xC0 \<Longrightarrow>
      t = pointer_target (p ! off) (p ! Suc off) \<Longrightarrow>
      walk p off st = rbind (on_event p st (Hop off t)) (walk p t)"
    and walk_label: "off < length p \<Longrightarrow> p ! off \<noteq> 0 \<Longrightarrow> n = unat (p ! off) \<Longrightarrow> n \<le> 63 \<Longrightarrow>
      Suc (off + n) \<le> length p \<Longrightarrow>
      walk p off st = rbind (on_event p st (Label (slice (Suc off) (Suc (off + n)) p))) (walk p (Suc (off + n)))"
    and walk_beyond: "length p \<le> off \<Longrightarrow> \<exists>e. walk p off st = Err e"
    and walk_half_pointer: "off < length p \<Longrightarrow> p ! off AND 0xC0 = 0xC0 \<Longrightarrow> length p \<le> Suc off \<Longrightarrow>
      \<exists>e. walk p off st = Err e"
    and walk_bad_label: "off < length p \<Longrightarrow> p ! off \<noteq> 0 \<Longrightarrow> p ! off AND 0xC0 \<noteq> 0xC0 \<Longrightarrow>
      \<not> (unat (p ! off) \<le> 63 \<and> Suc (off + unat (p ! off)) \<le> length p) \<Longrightarrow> \<exists>e. walk p off st = Err e"
    and budget_hop: "on_event p st (Hop a t) = Ok st' \<Longrightarrow> budget st' < budget st"
    and budget_label: "on_event p st (Label l) = Ok st' \<Longrightarrow> budget st' \<le> budget st"
    and on_event_not_Panic: "on_event p st ev \<noteq> Panic"
begin

lemma walk_complete:
  "wire_walk p off es e \<Longrightarrow> run_events (on_event p) st es = Ok st' \<Longrightarrow> walk p off st = Ok (finish st' e)"
proof (induction arbitrary: st rule: wire_walk.induct)
  case (stop off)
  then show ?case by (simp add: walk_zero)
next
  case (step_label off n es e)
  then have "p ! off \<noteq> 0" by auto
  with step_label show ?case by (auto simp: walk_label rust_simps)
next
  case (step_hop off t es e)
  then show ?case by (auto simp: walk_hop[of off p t] rust_simps)
qed

lemma walk_total:
  "(\<exists>es e st'. wire_walk p off es e \<and> run_events (on_event p) st es = Ok st' \<and>
      walk p off st = Ok (finish st' e))
   \<or> (\<exists>err. walk p off st = Err err)"
proof (induction "(st, off)" arbitrary: st off
    rule: wf_induct_rule[OF wf_measures[where fs = "[\<lambda>(st, off). budget st, \<lambda>(st, off). length p - off]"]])
  case 1
  consider (beyond) "length p \<le> off" | (zero) "off < length p" "p ! off = 0"
    | (half) "off < length p" "p ! off AND 0xC0 = 0xC0" "length p \<le> Suc off"
    | (hop) "Suc off < length p" "p ! off AND 0xC0 = 0xC0"
    | (bad) "off < length p" "p ! off \<noteq> 0" "p ! off AND 0xC0 \<noteq> 0xC0"
        "\<not> (unat (p ! off) \<le> 63 \<and> Suc (off + unat (p ! off)) \<le> length p)"
    | (lab) "off < length p" "p ! off \<noteq> 0" "unat (p ! off) \<le> 63" "Suc (off + unat (p ! off)) \<le> length p"
    by (meson not_less)
  then show ?case
  proof cases
    case zero
    then show ?thesis using walk_zero wire_walk.stop by (metis run_events.simps(1))
  next
    case hop
    define t where "t = pointer_target (p ! off) (p ! Suc off)"
    note eq = walk_hop[OF hop t_def, of st]
    show ?thesis
    proof (cases "on_event p st (Hop off t)")
      case (Ok st1)
      have "((st1, t), (st, off)) \<in> measures [\<lambda>(st, off). budget st, \<lambda>(st, off). length p - off]"
        using budget_hop[OF Ok] by simp
      from 1[OF this] show ?thesis
        using Ok eq wire_walk.step_hop[OF hop t_def] by (fastforce simp: rust_simps)
    qed (use eq on_event_not_Panic in auto)
  next
    case lab
    define n where "n = unat (p ! off)"
    note eq = walk_label[OF lab(1,2) n_def lab(3,4)[folded n_def], of st]
    let ?l = "Label (slice (Suc off) (Suc (off + n)) p)"
    have n0: "0 < n" using lab by (simp add: n_def unat_gt_0)
    show ?thesis
    proof (cases "on_event p st ?l")
      case (Ok st1)
      have "((st1, Suc (off + n)), (st, off)) \<in> measures [\<lambda>(st, off). budget st, \<lambda>(st, off). length p - off]"
        using budget_label[OF Ok] lab by auto
      from 1[OF this] show ?thesis
        using Ok eq wire_walk.step_label[OF lab(1) n_def n0 lab(3,4)[folded n_def]]
        by (fastforce simp: rust_simps)
    qed (use eq on_event_not_Panic in auto)
  qed (use walk_beyond walk_half_pointer walk_bad_label in auto)
qed

lemma walk_Ok_iff:
  "walk p off st = Ok r \<longleftrightarrow>
    (\<exists>es e st'. wire_walk p off es e \<and> run_events (on_event p) st es = Ok st' \<and> r = finish st' e)"
  using walk_total[of p off st] walk_complete[of p off] by (metis outcome.distinct(1) outcome.inject(1))

lemma walk_not_Panic: "walk p off st \<noteq> Panic"
  using walk_total[of p off st] by auto

end

end
