(* ===== verification/Compression.thy ===== *)
theory Compression
  imports Core_Types Name_Wire
begin

text \<open>
  DNS name compression, \<open>src/dns/protocol/compression.rs\<close>: the map from encoded suffixes to offsets,
  the decoder \<open>decompress_name\<close> and the encoder \<open>compress_name\<close> with their label escaping, and the
  packet walker \<open>validate_compression\<close>.  The decoder and the walker are related to the specification
  \<open>wire_name\<close>; the encoder keeps the map sound for the buffer and writes a name the specification
  reads back.  A \<open>usize\<close> is a \<open>nat\<close>: every offset here stays within two bytes of a slice length.
\<close>

abbreviation MAXLABEL :: nat where "MAXLABEL \<equiv> 63"
abbreviation MAXDNAME :: nat where "MAXDNAME \<equiv> 1025"
abbreviation MAX_COMPRESSION_HOPS :: nat where "MAX_COMPRESSION_HOPS \<equiv> 255"
abbreviation NAME_ESCAPE :: u8 where "NAME_ESCAPE \<equiv> 1"

subsection \<open>The compression map\<close>

record compression_map = offsets :: "bytes \<rightharpoonup> nat"

definition cm_new :: compression_map where
  "cm_new = \<lparr>offsets = Map.empty\<rparr>"

function add_name_loop :: "bytes \<Rightarrow> nat \<Rightarrow> nat \<Rightarrow> (bytes \<rightharpoonup> nat) \<Rightarrow> (bytes \<rightharpoonup> nat)" where
  "add_name_loop name pos current_offset m =
     (if pos < length name then
        let m' = m(drop pos name \<mapsto> current_offset); label_len = name ! pos in
        if label_len = 0 then m'
        else if label_len AND 0xC0 \<noteq> 0 then m'
        else add_name_loop name (pos + 1 + unat label_len) (current_offset + 1 + unat label_len) m'
      else m)"
  by pat_completeness auto
termination
  by (relation "measure (\<lambda>(name, pos, _, _). length name - pos)") auto

definition add_name :: "compression_map \<Rightarrow> bytes \<Rightarrow> nat \<Rightarrow> compression_map" where
  "add_name c name offset = c\<lparr>offsets := add_name_loop name 0 offset (offsets c)\<rparr>"

definition find_exact :: "compression_map \<Rightarrow> bytes \<Rightarrow> nat option" where
  "find_exact c name = offsets c name"

function find_suffix_loop :: "compression_map \<Rightarrow> bytes \<Rightarrow> nat \<Rightarrow> nat option" where
  "find_suffix_loop c name pos =
     (if pos < length name then
        let label_len = name ! pos in
        if label_len = 0 then None
        else if label_len AND 0xC0 \<noteq> 0 then None
        else let pos' = pos + 1 + unat label_len in
          if pos' < length name then
            (case offsets c (drop pos' name) of
               Some offset \<Rightarrow> Some offset
             | None \<Rightarrow> find_suffix_loop c name pos')
          else find_suffix_loop c name pos'
      else None)"
  by pat_completeness auto
termination
  by (relation "measure (\<lambda>(c, name, pos). length name - pos)") auto

definition find_suffix :: "compression_map \<Rightarrow> bytes \<Rightarrow> nat option" where
  "find_suffix c name =
     (case offsets c name of Some offset \<Rightarrow> Some offset | None \<Rightarrow> find_suffix_loop c name 0)"

definition cm_clear :: "compression_map \<Rightarrow> compression_map" where
  "cm_clear c = c\<lparr>offsets := Map.empty\<rparr>"

definition cm_len :: "compression_map \<Rightarrow> nat" where
  "cm_len c = card (dom (offsets c))"

subsection \<open>Label escaping\<close>

fun escape_label :: "bytes \<Rightarrow> bytes" where
  "escape_label [] = []"
| "escape_label (b # r) =
     (if b = 0 \<or> b = dot \<or> b = NAME_ESCAPE then NAME_ESCAPE # (b + 1) # escape_label r
      else b # escape_label r)"

fun unescape_bytes :: "bytes \<Rightarrow> (bytes, dns_error) outcome" where
  "unescape_bytes [] = Ok []"
| "unescape_bytes (b # r) =
     (if b = NAME_ESCAPE then
        (case r of
           [] \<Rightarrow> Err (ParseFailed ''local'' ''incomplete escape sequence in label'')
         | c # r' \<Rightarrow> rbind (unescape_bytes r') (\<lambda>x. Ok ((c - 1) # x)))
      else rbind (unescape_bytes r) (\<lambda>x. Ok (b # x)))"

definition hex_upper :: "u8 \<Rightarrow> u8" where
  "hex_upper n = (if n < 10 then 0x30 + n else 0x37 + n)"

definition escape_text :: "bytes \<Rightarrow> bytes" where
  "escape_text bs = concat (map (\<lambda>b.
     if is_ascii_graphic b \<and> b \<noteq> 0x5C then [b]
     else [0x5C, 0x78, hex_upper (b div 16), hex_upper (b mod 16)]) bs)"

definition unescape_label :: "bytes \<Rightarrow> (bytes, dns_error) outcome" where
  "unescape_label label =
     rbind (unescape_bytes label) (\<lambda>result. Ok (if valid_utf8 result then result else escape_text result))"

subsection \<open>Decoding\<close>

definition pop_dot :: "bytes \<Rightarrow> bytes" where
  "pop_dot result = (if result \<noteq> [] \<and> last result = dot then butlast result else result)"

function decompress_loop ::
  "bytes \<Rightarrow> nat \<Rightarrow> bytes \<Rightarrow> nat \<Rightarrow> nat option \<Rightarrow> (nat \<times> bytes, dns_error) outcome" where
  "decompress_loop packet current_offset result hops return_offset =
     (if length packet \<le> current_offset then
        Err (ParseFailed ''local'' ''compression pointer beyond packet bounds'')
      else let label_len = packet ! current_offset in
      if label_len = 0 then
        Ok (case return_offset of None \<Rightarrow> current_offset + 1 | Some r \<Rightarrow> r, pop_dot result)
      else if label_len AND 0xC0 = 0xC0 then
        if length packet \<le> current_offset + 1 then
          Err (ParseFailed ''local'' ''incomplete compression pointer'')
        else let pointer_offset = pointer_target label_len (packet ! (current_offset + 1));
                 return_offset' = (case return_offset of None \<Rightarrow> Some (current_offset + 2) | Some r \<Rightarrow> Some r);
                 hops' = hops + 1 in
          if MAX_COMPRESSION_HOPS < hops' then
            Err (ParseFailed ''local'' ''compression hop limit exceeded'')
          else if length packet \<le> pointer_offset then
            Err (ParseFailed ''local'' ''compression pointer offset exceeds packet size'')
          else decompress_loop packet pointer_offset result hops' return_offset'
      else if label_len AND 0xC0 \<noteq> 0 then
        Err (ParseFailed ''local'' ''unsupported label type'')
      else let len = unat label_len in
      if MAXLABEL < len then Err (InvalidName result ''label length exceeds maximum'')
      else if length packet < current_offset + 1 + len then
        Err (ParseFailed ''local'' ''label extends beyond packet bounds'')
      else rbind (unescape_label (slice (current_offset + 1) (current_offset + 1 + len) packet))
        (\<lambda>label. let result' = result @ label @ [dot] in
          if MAXDNAME < length result' then Err (InvalidName result' ''name length exceeds maximum'')
          else decompress_loop packet (current_offset + 1 + len) result' hops return_offset))"
  by pat_completeness auto
termination
  by (relation "measure (\<lambda>(packet, off, result, hops, ret). (256 - hops) + (1026 - length result))") auto

definition decompress_name :: "bytes \<Rightarrow> nat \<Rightarrow> (nat \<times> bytes, dns_error) outcome" where
  "decompress_name packet offset = decompress_loop packet offset [] 0 None"

subsection \<open>Encoding\<close>

fun encode_labels_loop :: "bytes \<Rightarrow> bytes list \<Rightarrow> (bytes, dns_error) outcome" where
  "encode_labels_loop joined [] = Ok [0]"
| "encode_labels_loop joined (label # labels) =
     (if MAXLABEL < length label then Err (InvalidName joined ''label exceeds maximum length'')
      else let escaped = escape_label label in
        rbind (encode_labels_loop joined labels) (\<lambda>rest. Ok (of_nat (length escaped) # escaped @ rest)))"

definition encode_labels_to_wire :: "bytes list \<Rightarrow> (bytes, dns_error) outcome" where
  "encode_labels_to_wire labels = encode_labels_loop (join dot labels) labels"

text \<open>
  The loop over the labels, with the number \<open>i\<close> of labels already written; \<open>None\<close> is compression
  without a map.  A failing call leaves a partial buffer behind in the code; callers give it up.
\<close>

fun compress_loop :: "bytes \<Rightarrow> nat \<Rightarrow> nat \<Rightarrow> bytes list \<Rightarrow> bytes \<Rightarrow> compression_map option
    \<Rightarrow> (bytes \<times> compression_map option, dns_error) outcome" where
  "compress_loop name start i [] buffer cmap =
     (let buffer' = buffer @ [0] in
      Ok (buffer', map_option (\<lambda>m. add_name m (drop start buffer') start) cmap))"
| "compress_loop name start i (label # labels) buffer cmap =
     (let write_label =
        (if MAXLABEL < length label then Err (InvalidName name ''label exceeds maximum length'')
         else let escaped = escape_label label in
           compress_loop name start (i + 1) labels (buffer @ of_nat (length escaped) # escaped) cmap)
      in case cmap of
           None \<Rightarrow> write_label
         | Some m \<Rightarrow>
             rbind (encode_labels_to_wire (label # labels)) (\<lambda>remaining_wire.
               case find_exact m remaining_wire of
                 Some offset \<Rightarrow>
                   if offset \<le> 0x3FFF then
                     let buffer' = buffer @ put_u16 (0xC000 OR of_nat offset) in
                     Ok (buffer', Some (if 0 < i then add_name m (drop start buffer') start else m))
                   else write_label
               | None \<Rightarrow> write_label))"

definition compress_name :: "bytes \<Rightarrow> bytes \<Rightarrow> compression_map option
    \<Rightarrow> (nat \<times> bytes \<times> compression_map option, dns_error) outcome" where
  "compress_name name buffer cmap =
     (if name = [] \<or> name = [dot] then Ok (1, buffer @ [0], cmap)
      else let labels = split_on dot (trim_end dot name) in
        rbind (compress_loop name (length buffer) 0 labels buffer cmap) (\<lambda>(buffer', cmap').
          Ok (length buffer' - length buffer, buffer', cmap')))"

subsection \<open>Walking a whole packet\<close>

function validate_name_loop :: "bytes \<Rightarrow> nat \<Rightarrow> nat \<Rightarrow> nat option \<Rightarrow> (nat, dns_error) outcome" where
  "validate_name_loop packet offset hops return_offset =
     (if length packet \<le> offset then
        Err (ParseFailed ''local'' ''name offset beyond packet bounds'')
      else let label_len = packet ! offset in
      if label_len = 0 then Ok (case return_offset of None \<Rightarrow> offset + 1 | Some r \<Rightarrow> r)
      else if label_len AND 0xC0 = 0xC0 then
        if length packet \<le> offset + 1 then
          Err (ParseFailed ''local'' ''incomplete compression pointer'')
        else let pointer_offset = pointer_target label_len (packet ! (offset + 1));
                 return_offset' = (case return_offset of None \<Rightarrow> Some (offset + 2) | Some r \<Rightarrow> Some r);
                 hops' = hops + 1 in
          if MAX_COMPRESSION_HOPS < hops' then
            Err (ParseFailed ''local'' ''compression hop limit exceeded during validation'')
          else if length packet \<le> pointer_offset then
            Err (ParseFailed ''local'' ''compression pointer exceeds packet size'')
          else if offset \<le> pointer_offset then
            Err (ParseFailed ''local'' ''compression pointer references forward offset (potential loop)'')
          else validate_name_loop packet pointer_offset hops' return_offset'
      else if label_len AND 0xC0 \<noteq> 0 then
        Err (ParseFailed ''local'' ''unsupported label type'')
      else let len = unat label_len in
      if MAXLABEL < len then Err (ParseFailed ''local'' ''label length exceeds maximum'')
      else if length packet < offset + 1 + len then
        Err (ParseFailed ''local'' ''label data extends beyond packet'')
      else validate_name_loop packet (offset + 1 + len) hops return_offset)"
  by pat_completeness auto
termination
  by (relation "measures [\<lambda>(packet, off, hops, ret). 256 - hops, \<lambda>(packet, off, hops, ret). length packet - off]")
    auto

definition validate_name_at_offset :: "bytes \<Rightarrow> nat \<Rightarrow> (nat, dns_error) outcome" where
  "validate_name_at_offset packet start_offset = validate_name_loop packet start_offset 0 None"

fun validate_questions :: "bytes \<Rightarrow> nat \<Rightarrow> nat \<Rightarrow> (nat, dns_error) outcome" where
  "validate_questions packet 0 offset = Ok offset"
| "validate_questions packet (Suc n) offset =
     rbind (validate_name_at_offset packet offset) (\<lambda>offset.
       if length packet < offset + 4 then
         Err (ParseFailed ''local'' ''question section extends beyond packet'')
       else validate_questions packet n (offset + 4))"

fun validate_rrs :: "bytes \<Rightarrow> nat \<Rightarrow> nat \<Rightarrow> (nat, dns_error) outcome" where
  "validate_rrs packet 0 offset = Ok offset"
| "validate_rrs packet (Suc n) offset =
     rbind (validate_name_at_offset packet offset) (\<lambda>offset.
       if length packet < offset + 10 then
         Err (ParseFailed ''local'' ''RR header extends beyond packet'')
       else let rdlength = unat (be16 (packet ! (offset + 8)) (packet ! (offset + 9)));
                offset' = offset + 10 + rdlength in
         if length packet < offset' then Err (ParseFailed ''local'' ''RR RDATA extends beyond packet'')
         else validate_rrs packet n offset')"

definition validate_compression :: "bytes \<Rightarrow> (unit, dns_error) outcome" where
  "validate_compression packet =
     (if length packet < 12 then Err (ParseFailed ''local'' ''packet too short'')
      else let qdcount = unat (be16 (packet ! 4) (packet ! 5));
               ancount = unat (be16 (packet ! 6) (packet ! 7));
               nscount = unat (be16 (packet ! 8) (packet ! 9));
               arcount = unat (be16 (packet ! 10) (packet ! 11)) in
        rbind (validate_questions packet qdcount 12) (\<lambda>offset.
        rbind (validate_rrs packet (ancount + nscount + arcount) offset) (\<lambda>_. Ok ())))"

declare add_name_loop.simps [simp del] find_suffix_loop.simps [simp del]
  decompress_loop.simps [simp del] validate_name_loop.simps [simp del]


subsection \<open>Escaping round trips\<close>

lemma unescape_escape_bytes: "unescape_bytes (escape_label l) = Ok l"
  by (induction l) auto

lemma unescape_escape_label: "valid_utf8 l \<Longrightarrow> unescape_label (escape_label l) = Ok l"
  by (simp add: unescape_label_def unescape_escape_bytes)

lemma escape_label_id: "\<forall>b\<in>set l. b \<noteq> 0 \<and> b \<noteq> dot \<and> b \<noteq> NAME_ESCAPE \<Longrightarrow> escape_label l = l"
  by (induction l) auto

lemma unescape_label_id:
  "\<forall>b\<in>set l. b \<noteq> 0 \<and> b \<noteq> dot \<and> b \<noteq> NAME_ESCAPE \<Longrightarrow> valid_utf8 l \<Longrightarrow> unescape_label l = Ok l"
  using unescape_escape_label[of l] by (simp add: escape_label_id)

lemma unescape_bytes_not_Panic [simp]: "unescape_bytes l \<noteq> Panic"
  by (induction l rule: unescape_bytes.induct) (auto simp: rust_simps split: list.splits)

lemma unescape_label_not_Panic [simp]: "unescape_label l \<noteq> Panic"
  by (simp add: unescape_label_def rust_simps)

subsection \<open>The decoder reads exactly the names of the specification\<close>

definition dotted :: "bytes list \<Rightarrow> bytes" where
  "dotted ts = concat (map (\<lambda>t. t @ [dot]) ts)"

lemma dotted_simps [simp]: "dotted [] = []" "dotted (t # ts) = t @ dot # dotted ts"
  by (simp_all add: dotted_def)

lemma length_dotted: "length (dotted ts) = (\<Sum>t\<leftarrow>ts. length t + 1)"
  by (induction ts) auto

lemma dotted_join: "ts \<noteq> [] \<Longrightarrow> dotted ts = join dot ts @ [dot]"
  by (induction dot ts rule: join.induct) auto

lemma pop_dot_dotted [simp]: "pop_dot (dotted ts) = join dot ts"
  by (cases "ts = []") (auto simp: pop_dot_def dotted_join)

text \<open>The loop state of the decoder and what one event does to it.\<close>

fun decompress_event :: "bytes \<Rightarrow> bytes \<times> nat \<times> nat option \<Rightarrow> wire_event \<Rightarrow>
    (bytes \<times> nat \<times> nat option, dns_error) outcome" where
  "decompress_event p (result, hops, ret) (Label l) =
     rbind (unescape_label l) (\<lambda>t.
       if MAXDNAME < length (result @ t @ [dot]) then
         Err (InvalidName (result @ t @ [dot]) ''name length exceeds maximum'')
       else Ok (result @ t @ [dot], hops, ret))"
| "decompress_event p (result, hops, ret) (Hop a t) =
     (if MAX_COMPRESSION_HOPS < hops + 1 then Err (ParseFailed ''local'' ''compression hop limit exceeded'')
      else if length p \<le> t then Err (ParseFailed ''local'' ''compression pointer offset exceeds packet size'')
      else Ok (result, hops + 1, case ret of None \<Rightarrow> Some (a + 2) | Some r \<Rightarrow> Some r))"

fun decompress_finish :: "bytes \<times> nat \<times> nat option \<Rightarrow> nat \<Rightarrow> nat \<times> bytes" where
  "decompress_finish (result, hops, ret) e = (case ret of None \<Rightarrow> e | Some r \<Rightarrow> r, pop_dot result)"

interpretation dc: name_walker
  "\<lambda>p off (result, hops, ret). decompress_loop p off result hops ret"
  decompress_event decompress_finish "\<lambda>(result, hops, ret). 256 - hops"
proof (unfold_locales, goal_cases)
  case (1 off p st)
  then show ?case by (cases st) (simp add: decompress_loop.simps[of p off] split: option.split)
next
  case (2 off p t st)
  then have "p ! off \<noteq> 0" by auto
  with 2 show ?case
    by (cases st) (simp add: decompress_loop.simps[of p off] Let_def split: prod.split)
next
  case (3 off p n st)
  then have "p ! off AND 0xC0 = 0" by (simp add: and_C0_eq_0)
  with 3 show ?case
    by (cases st; cases "unescape_label (slice (Suc off) (Suc (off + n)) p)")
      (simp_all add: decompress_loop.simps[of p off] Let_def)
next
  case (4 p off st)
  then show ?case by (cases st) (simp add: decompress_loop.simps[of p off])
next
  case (5 off p st)
  then have "p ! off \<noteq> 0" by auto
  with 5 show ?case by (cases st) (simp add: decompress_loop.simps[of p off])
next
  case (6 off p st)
  then show ?case
    by (cases st) (auto simp: decompress_loop.simps[of p off] Let_def and_C0_eq_0 not_le)
next
  case (7 p st a t st')
  then show ?case by (cases st) (auto split: if_splits)
next
  case (8 p st l st')
  then show ?case by (cases st) (auto simp: rust_simps split: if_splits)
next
  case (9 p st ev)
  then show ?case by (cases st; cases ev) (auto simp: rust_simps)
qed

lemma run_decompress:
  "run_events (decompress_event p) (result, hops, ret) es = Ok (result', hops', ret') \<longleftrightarrow>
   (\<exists>ts. traverse unescape_label (ev_labels es) = Ok ts \<and> result' = result @ dotted ts \<and>
      (ts = [] \<or> length result' \<le> MAXDNAME) \<and>
      hops' = hops + ev_hops es \<and> (ev_hops es = 0 \<or> hops' \<le> MAX_COMPRESSION_HOPS) \<and>
      (\<forall>a t. Hop a t \<in> set es \<longrightarrow> t < length p) \<and>
      ret' = (case ret of None \<Rightarrow> ev_return es | Some r \<Rightarrow> Some r))"
proof (induction es arbitrary: result hops ret)
  case Nil
  show ?case by (cases ret) auto
next
  case (Cons ev es)
  show ?case
  proof (cases ev)
    case (Label l)
    show ?thesis unfolding Label
      by (cases "unescape_label l"; cases ret) (auto simp: Cons.IH rust_simps not_less)
  next
    case (Hop a t)
    show ?thesis unfolding Hop
      by (cases ret) (auto simp: Cons.IH rust_simps not_less)
  qed
qed

lemma decompress_name_iff:
  "decompress_name p off = Ok (e, s) \<longleftrightarrow>
   (\<exists>ls h ts. wire_name p off ls h e \<and> h \<le> MAX_COMPRESSION_HOPS \<and> traverse unescape_label ls = Ok ts \<and>
      length (dotted ts) \<le> MAXDNAME \<and> s = join dot ts)"  (is "?l \<longleftrightarrow> ?r")
proof
  assume ?l
  then have "(case ([], 0, None) of (result, hops, ret) \<Rightarrow> decompress_loop p off result hops ret) = Ok (e, s)"
    by (simp add: decompress_name_def)
  then obtain es e0 st where w: "wire_walk p off es e0"
    "run_events (decompress_event p) ([], 0, None) es = Ok st" "(e, s) = decompress_finish st e0"
    unfolding dc.walk_Ok_iff by blast
  obtain result hops ret where st: "st = (result, hops, ret)" by (cases st)
  with w(2) obtain ts where ts: "traverse unescape_label (ev_labels es) = Ok ts" "result = dotted ts"
    "ts = [] \<or> length (dotted ts) \<le> MAXDNAME" "ev_hops es \<le> MAX_COMPRESSION_HOPS" "ret = ev_return es"
    by (auto simp: run_decompress)
  moreover have "e = (case ev_return es of None \<Rightarrow> e0 | Some r \<Rightarrow> r)" "s = join dot ts"
    using w(3) st ts by simp_all
  ultimately show ?r using wire_walk_name[OF w(1)] by (metis dotted_simps(1) le0 list.size(3))
next
  assume ?r
  then obtain ls h ts where r: "wire_name p off ls h e" "h \<le> MAX_COMPRESSION_HOPS"
    "traverse unescape_label ls = Ok ts" "length (dotted ts) \<le> MAXDNAME" "s = join dot ts" by blast
  then obtain es e0 where w: "wire_walk p off es e0" "ls = ev_labels es" "h = ev_hops es"
    "e = (case ev_return es of None \<Rightarrow> e0 | Some r \<Rightarrow> r)" using wire_name_walk by blast
  have "run_events (decompress_event p) ([], 0, None) es = Ok (dotted ts, h, ev_return es)"
    using r w wire_walk_targets[OF w(1)] by (auto simp: run_decompress)
  from dc.walk_complete[OF w(1) this] show ?l
    using r w by (simp add: decompress_name_def)
qed

lemma decompress_name_not_Panic: "decompress_name p off \<noteq> Panic"
  unfolding decompress_name_def using dc.walk_not_Panic[of p off "([], 0, None)"] by simp


subsection \<open>The packet walker\<close>

fun validate_event :: "bytes \<Rightarrow> nat \<times> nat option \<Rightarrow> wire_event \<Rightarrow> (nat \<times> nat option, dns_error) outcome" where
  "validate_event p (hops, ret) (Label l) = Ok (hops, ret)"
| "validate_event p (hops, ret) (Hop a t) =
     (if MAX_COMPRESSION_HOPS < hops + 1 then
        Err (ParseFailed ''local'' ''compression hop limit exceeded during validation'')
      else if length p \<le> t then Err (ParseFailed ''local'' ''compression pointer exceeds packet size'')
      else if a \<le> t then
        Err (ParseFailed ''local'' ''compression pointer references forward offset (potential loop)'')
      else Ok (hops + 1, case ret of None \<Rightarrow> Some (a + 2) | Some r \<Rightarrow> Some r))"

fun validate_finish :: "nat \<times> nat option \<Rightarrow> nat \<Rightarrow> nat" where
  "validate_finish (hops, ret) e = (case ret of None \<Rightarrow> e | Some r \<Rightarrow> r)"

interpretation vn: name_walker
  "\<lambda>p off (hops, ret). validate_name_loop p off hops ret"
  validate_event validate_finish "\<lambda>(hops, ret). 256 - hops"
proof (unfold_locales, goal_cases)
  case (1 off p st)
  then show ?case by (cases st) (simp add: validate_name_loop.simps[of p off] split: option.split)
next
  case (2 off p t st)
  then have "p ! off \<noteq> 0" by auto
  with 2 show ?case
    by (cases st) (simp add: validate_name_loop.simps[of p off] Let_def split: prod.split)
next
  case (3 off p n st)
  then have "p ! off AND 0xC0 = 0" by (simp add: and_C0_eq_0)
  with 3 show ?case
    by (cases st) (simp_all add: validate_name_loop.simps[of p off] Let_def)
next
  case (4 p off st)
  then show ?case by (cases st) (simp add: validate_name_loop.simps[of p off])
next
  case (5 off p st)
  then have "p ! off \<noteq> 0" by auto
  with 5 show ?case by (cases st) (simp add: validate_name_loop.simps[of p off])
next
  case (6 off p st)
  then show ?case
    by (cases st) (auto simp: validate_name_loop.simps[of p off] Let_def and_C0_eq_0 not_le)
next
  case (7 p st a t st')
  then show ?case by (cases st) (auto split: if_splits)
next
  case (8 p st l st')
  then show ?case by (cases st) auto
next
  case (9 p st ev)
  then show ?case by (cases st; cases ev) auto
qed

text \<open>Every pointer of the name goes strictly backwards.\<close>

definition backward_hops :: "wire_event list \<Rightarrow> bool" where
  "backward_hops es \<longleftrightarrow> (\<forall>a t. Hop a t \<in> set es \<longrightarrow> t < a)"

lemma run_validate:
  "run_events (validate_event p) (hops, ret) es = Ok (hops', ret') \<longleftrightarrow>
     hops' = hops + ev_hops es \<and> (ev_hops es = 0 \<or> hops' \<le> MAX_COMPRESSION_HOPS) \<and>
     (\<forall>a t. Hop a t \<in> set es \<longrightarrow> t < length p) \<and> backward_hops es \<and>
     ret' = (case ret of None \<Rightarrow> ev_return es | Some r \<Rightarrow> Some r)"
proof (induction es arbitrary: hops ret)
  case Nil
  show ?case by (cases ret) (auto simp: backward_hops_def)
next
  case (Cons ev es)
  show ?case
  proof (cases ev)
    case (Label l)
    show ?thesis unfolding Label by (cases ret) (auto simp: Cons.IH backward_hops_def)
  next
    case (Hop a t)
    show ?thesis unfolding Hop
      by (cases ret) (auto simp: Cons.IH rust_simps not_less not_le backward_hops_def)
  qed
qed

lemma validate_name_at_offset_iff:
  "validate_name_at_offset p off = Ok e \<longleftrightarrow>
   (\<exists>es e0. wire_walk p off es e0 \<and> ev_hops es \<le> MAX_COMPRESSION_HOPS \<and> backward_hops es \<and>
      e = (case ev_return es of None \<Rightarrow> e0 | Some r \<Rightarrow> r))"  (is "?l \<longleftrightarrow> ?r")
proof
  assume ?l
  then have "(case (0, None) of (hops, ret) \<Rightarrow> validate_name_loop p off hops ret) = Ok e"
    by (simp add: validate_name_at_offset_def)
  then obtain es e0 st where w: "wire_walk p off es e0"
    "run_events (validate_event p) (0, None) es = Ok st" "e = validate_finish st e0"
    unfolding vn.walk_Ok_iff by blast
  moreover obtain hops ret where "st = (hops, ret)" by (cases st)
  ultimately show ?r by (intro exI[of _ es] exI[of _ e0]) (auto simp: run_validate)
next
  assume ?r
  then obtain es e0 where w: "wire_walk p off es e0" "ev_hops es \<le> MAX_COMPRESSION_HOPS"
    "backward_hops es" "e = (case ev_return es of None \<Rightarrow> e0 | Some r \<Rightarrow> r)" by blast
  have "run_events (validate_event p) (0, None) es = Ok (ev_hops es, ev_return es)"
    using w wire_walk_targets[OF w(1)] by (auto simp: run_validate)
  from vn.walk_complete[OF w(1) this] show ?l
    using w by (simp add: validate_name_at_offset_def)
qed

lemma validate_name_bounds:
  assumes "validate_name_at_offset p off = Ok e"
  shows "off < e \<and> e \<le> length p"
proof -
  from assms obtain es e0 where w: "wire_walk p off es e0"
    "e = (case ev_return es of None \<Rightarrow> e0 | Some r \<Rightarrow> r)"
    unfolding validate_name_at_offset_iff by blast
  show ?thesis using wire_name_bounds[OF wire_walk_name[OF w(1)]] w(2) by simp
qed

subsection \<open>The encoder\<close>

text \<open>
  The map is sound for a buffer when every key is literally the bytes of the buffer at its offset.
\<close>

definition cm_sound :: "compression_map \<Rightarrow> bytes \<Rightarrow> bool" where
  "cm_sound c buf \<longleftrightarrow> (\<forall>k off. offsets c k = Some off \<longrightarrow>
     off + length k \<le> length buf \<and> slice off (off + length k) buf = k)"

lemma cm_sound_new: "cm_sound cm_new buf"
  by (simp add: cm_sound_def cm_new_def)

lemma cm_sound_append: "cm_sound c buf \<Longrightarrow> cm_sound c (buf @ out)"
  by (auto simp: cm_sound_def slice_append_left intro: trans_le_add1)

lemma cm_sound_update:
  "cm_sound c buf \<Longrightarrow> off + length k \<le> length buf \<Longrightarrow> slice off (off + length k) buf = k \<Longrightarrow>
   cm_sound (c\<lparr>offsets := (offsets c)(k \<mapsto> off)\<rparr>) buf"
  by (simp add: cm_sound_def)

lemma add_name_loop_sound:
  assumes "cm_sound \<lparr>offsets = m\<rparr> buf" and "start + length nm \<le> length buf"
    and "slice start (start + length nm) buf = nm" and "cur = start + pos"
  shows "cm_sound \<lparr>offsets = add_name_loop nm pos cur m\<rparr> buf"
  using assms
proof (induction nm pos cur m rule: add_name_loop.induct)
  case (1 nm pos cur m)
  let ?m = "m(drop pos nm \<mapsto> cur)"
  show ?case
  proof (cases "pos < length nm")
    case True
    then have m: "cm_sound \<lparr>offsets = ?m\<rparr> buf"
      using cm_sound_update[of "\<lparr>offsets = m\<rparr>" buf "start + pos" "drop pos nm"] "1.prems"
        slice_shift[OF "1.prems"(3), of pos] by simp
    have "cm_sound \<lparr>offsets = add_name_loop nm (pos + 1 + unat (nm ! pos)) (cur + 1 + unat (nm ! pos)) ?m\<rparr> buf"
      if "nm ! pos \<noteq> 0" "nm ! pos AND 0xC0 = 0"
      using "1.prems" m that by (intro "1.IH"[OF True refl refl]) (simp_all del: fun_upd_apply)
    with True m show ?thesis
      by (subst add_name_loop.simps) (simp add: Let_def)
  qed (use "1.prems" in \<open>simp add: add_name_loop.simps\<close>)
qed

lemma add_name_sound:
  "cm_sound c buf \<Longrightarrow> start \<le> length buf \<Longrightarrow> cm_sound (add_name c (drop start buf) start) buf"
  using add_name_loop_sound[of "offsets c" buf start "drop start buf" start 0]
  by (simp add: add_name_def cm_sound_def slice_to_end)

definition plain_label :: "bytes \<Rightarrow> bool" where
  "plain_label l \<longleftrightarrow> label_size l \<and> (\<forall>b\<in>set l. b \<noteq> 0 \<and> b \<noteq> dot \<and> b \<noteq> NAME_ESCAPE)"

lemma plain_escape: "plain_label l \<Longrightarrow> escape_label l = l"
  by (simp add: plain_label_def escape_label_id)

lemma plain_size: "plain_label l \<Longrightarrow> 0 < length l \<and> length l \<le> MAXLABEL"
  by (simp add: plain_label_def label_size_def)

lemma encode_plain_loop: "\<forall>l\<in>set ls. plain_label l \<Longrightarrow> encode_labels_loop j ls = Ok (wire_of ls)"
  by (induction ls) (auto simp: plain_escape wire_of_Cons wire_label_def Let_def dest: plain_size)

lemma encode_plain: "\<forall>l\<in>set ls. plain_label l \<Longrightarrow> encode_labels_to_wire ls = Ok (wire_of ls)"
  by (simp add: encode_labels_to_wire_def encode_plain_loop)

text \<open>A pointer to literal bytes of the buffer names what those bytes encode.\<close>

lemma pointer_to_literal:
  assumes "\<forall>l\<in>set ls. label_size l" and "off \<le> 0x3FFF" and "off + length (wire_of ls) \<le> length buf"
    and "slice off (off + length (wire_of ls)) buf = wire_of ls"
  shows "wire_name (buf @ put_u16 (0xC000 OR of_nat off)) (length buf) ls 1 (length buf + 2)"
proof -
  obtain a b where ab: "put_u16 (0xC000 OR of_nat off) = [a, b]" by (simp add: put_u16_def)
  note pt = put_pointer[OF assms(2) ab]
  have "wire_name (buf @ [a, b]) off ls 0 (off + length (wire_of ls))"
    by (rule wire_name_append[OF wire_name_at[OF assms(1,3,4)]])
  with pt have "wire_name (buf @ [a, b]) (length buf) ls (Suc 0) (Suc (Suc (length buf)))"
    by (intro wire_name.pointer) (auto simp: nth_append and_C0_eq_C0)
  with ab show ?thesis by simp
qed

abbreviation cmap_sound :: "compression_map option \<Rightarrow> bytes \<Rightarrow> bool" where
  "cmap_sound cmap buf \<equiv> (\<forall>m. cmap = Some m \<longrightarrow> cm_sound m buf)"

lemma compress_loop_correct:
  assumes "\<forall>l\<in>set ls. plain_label l" and "start \<le> length buf" and "cmap_sound cmap buf"
  shows "\<exists>out cmap' h. compress_loop name start i ls buf cmap = Ok (buf @ out, cmap') \<and> h \<le> 1 \<and>
     wire_name (buf @ out) (length buf) ls h (length (buf @ out)) \<and> cmap_sound cmap' (buf @ out) \<and>
     (cmap' = None \<longleftrightarrow> cmap = None)"
  using assms
proof (induction ls arbitrary: i buf)
  case Nil
  have "wire_name (buf @ [0]) (length buf) [] 0 (length (buf @ [0]))"
    by (simp add: wire_name_zero_iff)
  moreover have "cmap_sound (map_option (\<lambda>m. add_name m (drop start (buf @ [0])) start) cmap) (buf @ [0])"
    using Nil.prems add_name_sound[OF cm_sound_append, of _ buf start "[0]"] by auto
  ultimately show ?case
    by (intro exI[of _ "[0]"] exI[of _ "map_option (\<lambda>m. add_name m (drop start (buf @ [0])) start) cmap"]
        exI[of _ 0]) simp
next
  case (Cons l ls)
  have l: "length l \<le> MAXLABEL" "escape_label l = l" "label_size l"
    using Cons.prems plain_escape plain_size by (auto simp: plain_label_def)
  define wr where "wr = compress_loop name start (i + 1) ls (buf @ wire_label l) cmap"
  have "cmap_sound cmap (buf @ wire_label l)" using Cons.prems cm_sound_append by blast
  then obtain out cmap' h where w: "wr = Ok ((buf @ wire_label l) @ out, cmap')" "h \<le> 1"
    "wire_name ((buf @ wire_label l) @ out) (length (buf @ wire_label l)) ls h (length ((buf @ wire_label l) @ out))"
    "cmap_sound cmap' ((buf @ wire_label l) @ out)" "cmap' = None \<longleftrightarrow> cmap = None"
    using Cons.IH[of "buf @ wire_label l" "i + 1"] Cons.prems unfolding wr_def by auto
  have name: "wire_name (buf @ wire_label l @ out) (length buf) (l # ls) h (length (buf @ wire_label l @ out))"
    using wire_name_labels_then[of "[l]" buf out ls h] l w(3) by simp
  have direct: ?case if "compress_loop name start i (l # ls) buf cmap = wr"
    using that w name by (intro exI[of _ "wire_label l @ out"] exI[of _ cmap'] exI[of _ h]) simp
  show ?case
  proof (cases "\<exists>m off. cmap = Some m \<and> find_exact m (wire_of (l # ls)) = Some off \<and> off \<le> 0x3FFF")
    case False
    then have "compress_loop name start i (l # ls) buf cmap = wr"
      using l encode_plain[OF Cons.prems(1)]
      by (auto simp: wr_def Let_def wire_label_def split: option.splits)
    then show ?thesis by (rule direct)
  next
    case True
    then obtain m off where m: "cmap = Some m" "find_exact m (wire_of (l # ls)) = Some off" "off \<le> 0x3FFF"
      by blast
    let ?out = "put_u16 (0xC000 OR of_nat off)"
    let ?cmap = "Some (if 0 < i then add_name m (drop start (buf @ ?out)) start else m)"
    have eq: "compress_loop name start i (l # ls) buf cmap = Ok (buf @ ?out, ?cmap)"
      using m encode_plain[OF Cons.prems(1)] by (simp add: Let_def)
    have "wire_name (buf @ ?out) (length buf) (l # ls) 1 (length buf + 2)"
      using m Cons.prems by (intro pointer_to_literal) (auto simp: cm_sound_def find_exact_def plain_label_def)
    moreover have "cmap_sound ?cmap (buf @ ?out)"
      using m Cons.prems add_name_sound[OF cm_sound_append, of m buf start ?out] cm_sound_append[of m buf ?out]
      by simp
    ultimately show ?thesis using eq m
      by (intro exI[of _ ?out] exI[of _ ?cmap] exI[of _ 1]) simp
  qed
qed


text \<open>A dotted name without empty labels, over-long labels or bytes that need escaping.\<close>

definition plain_name :: "bytes \<Rightarrow> bool" where
  "plain_name s \<longleftrightarrow> (\<forall>l\<in>set (split_on dot s). plain_label l)"

lemma split_on_snoc: "split_on c (xs @ [c]) = split_on c xs @ [[]]"
  by (induction xs) (auto split: list.splits)

lemma last_split_on: "s \<noteq> [] \<Longrightarrow> last s = c \<Longrightarrow> [] \<in> set (split_on c s)"
  by (metis append_butlast_last_id in_set_conv_decomp split_on_snoc)

lemma plain_name_shape:
  assumes "plain_name s"
  shows "s \<noteq> []" "s \<noteq> [dot]" "trim_end dot s = s"
proof -
  have ne: "[] \<notin> set (split_on dot s)"
    using assms plain_size[of "[]"] unfolding plain_name_def by fastforce
  then show s: "s \<noteq> []" by auto
  with ne have "last s \<noteq> dot" using last_split_on[OF s, of dot] by auto
  then show "s \<noteq> [dot]" by auto
  show "trim_end dot s = s" using \<open>last s \<noteq> dot\<close> by (simp add: trim_end_id)
qed

lemma compress_name_correct:
  assumes "plain_name s" and "cmap_sound cmap buf"
  shows "\<exists>out cmap' h. compress_name s buf cmap = Ok (length out, buf @ out, cmap') \<and> h \<le> 1 \<and>
     wire_name (buf @ out) (length buf) (split_on dot s) h (length (buf @ out)) \<and>
     cmap_sound cmap' (buf @ out) \<and> (cmap' = None \<longleftrightarrow> cmap = None)"
proof -
  from compress_loop_correct[of "split_on dot s" "length buf" buf cmap s 0] assms
  obtain out cmap' h where "compress_loop s (length buf) 0 (split_on dot s) buf cmap = Ok (buf @ out, cmap')"
    "h \<le> 1" "wire_name (buf @ out) (length buf) (split_on dot s) h (length (buf @ out))"
    "cmap_sound cmap' (buf @ out)" "cmap' = None \<longleftrightarrow> cmap = None"
    by (auto simp: plain_name_def)
  then show ?thesis
    using plain_name_shape[OF assms(1)]
    by (intro exI[of _ out] exI[of _ cmap'] exI[of _ h]) (simp add: compress_name_def Let_def)
qed

lemma traverse_id: "\<forall>x\<in>set xs. f x = Ok x \<Longrightarrow> traverse f xs = Ok xs"
  by (induction xs) auto

lemma decompress_plain:
  assumes "wire_name p off (split_on dot s) h e" and "h \<le> MAX_COMPRESSION_HOPS" and "plain_name s"
    and "\<forall>l\<in>set (split_on dot s). valid_utf8 l" and "length s < MAXDNAME"
  shows "decompress_name p off = Ok (e, s)"
proof -
  have "traverse unescape_label (split_on dot s) = Ok (split_on dot s)"
    using assms by (intro traverse_id) (auto simp: plain_name_def plain_label_def intro!: unescape_label_id)
  moreover have "length (dotted (split_on dot s)) = length s + 1"
    using length_join[of "split_on dot s" dot] by (simp add: length_dotted)
  ultimately show ?thesis
    using assms unfolding decompress_name_iff
    by (intro exI[of _ "split_on dot s"] exI[of _ h]) simp
qed

lemma compress_decompress:
  assumes "plain_name s" and "\<forall>l\<in>set (split_on dot s). valid_utf8 l" and "length s < MAXDNAME"
    and "cmap_sound cmap buf"
  shows "\<exists>out cmap'. compress_name s buf cmap = Ok (length out, buf @ out, cmap') \<and>
     cmap_sound cmap' (buf @ out) \<and> (cmap' = None \<longleftrightarrow> cmap = None) \<and>
     (\<forall>post. decompress_name (buf @ out @ post) (length buf) = Ok (length (buf @ out), s))"
proof -
  from compress_name_correct[OF assms(1,4)] obtain out cmap' h where
    c: "compress_name s buf cmap = Ok (length out, buf @ out, cmap')" "h \<le> 1"
    "wire_name (buf @ out) (length buf) (split_on dot s) h (length (buf @ out))"
    "cmap_sound cmap' (buf @ out)" "cmap' = None \<longleftrightarrow> cmap = None" by blast
  have "decompress_name ((buf @ out) @ post) (length buf) = Ok (length (buf @ out), s)" for post
    using c(2) assms by (intro decompress_plain[OF wire_name_append[OF c(3)]]) auto
  with c show ?thesis by (intro exI[of _ out] exI[of _ cmap']) simp
qed

subsection \<open>Properties\<close>

text \<open>
  \<open>decompress_name\<close> succeeds exactly on the encodings of RFC 1035 section 4.1.4 that use at most 255
  pointers, carry decodable labels and stay within 1025 bytes of text; it returns the offset after the
  name (after the first pointer if there is one) and the labels joined by dots.
\<close>

theorem decompress_name_spec:
  "decompress_name p off = Ok (e, s) \<longleftrightarrow>
   (\<exists>ls h ts. wire_name p off ls h e \<and> h \<le> MAX_COMPRESSION_HOPS \<and> traverse unescape_label ls = Ok ts \<and>
      length (dotted ts) \<le> MAXDNAME \<and> s = join dot ts)"
  by (rule decompress_name_iff)

text \<open>
  C3: a name whose labels need no escaping, compressed with a map that is sound for the buffer, is
  appended to the buffer, keeps the map sound, and decompresses to itself whatever is appended later.
\<close>

theorem compress_name_decodes:
  assumes "plain_name s" and "\<forall>l\<in>set (split_on dot s). valid_utf8 l" and "length s < MAXDNAME"
    and "cmap_sound cmap buf"
  shows "\<exists>out cmap'. compress_name s buf cmap = Ok (length out, buf @ out, cmap') \<and>
     cmap_sound cmap' (buf @ out) \<and> (cmap' = None \<longleftrightarrow> cmap = None) \<and>
     (\<forall>post. decompress_name (buf @ out @ post) (length buf) = Ok (length (buf @ out), s))"
  using assms by (rule compress_decompress)

theorem compress_name_decodes_witness:
  "\<exists>out cmap'. compress_name [0x61, 0x2E, 0x62] [1, 2] (Some cm_new) = Ok (length out, [1, 2] @ out, cmap') \<and>
     cmap_sound cmap' ([1, 2] @ out) \<and> (cmap' = None \<longleftrightarrow> Some cm_new = None) \<and>
     (\<forall>post. decompress_name ([1, 2] @ out @ post) (length [1, 2 :: u8]) = Ok (length ([1, 2] @ out), [0x61, 0x2E, 0x62]))"
proof -
  have "plain_name [0x61, 0x2E, 0x62]" "\<forall>l\<in>set (split_on dot [0x61, 0x2E, 0x62 :: u8]). valid_utf8 l"
    "length [0x61, 0x2E, 0x62 :: u8] < MAXDNAME" "cmap_sound (Some cm_new) [1, 2]"
    by (simp_all add: plain_name_def plain_label_def label_size_def cm_sound_new valid_utf8_ascii is_ascii_def)
  then show ?thesis by (rule compress_name_decodes)
qed

text \<open>
  \<open>validate_name_at_offset\<close> accepts exactly the names whose walk makes at most 255 hops, each to an
  earlier offset, and returns the offset after the name, which lies inside the packet.
\<close>

theorem validate_name_spec:
  "validate_name_at_offset p off = Ok e \<longleftrightarrow>
   (\<exists>es e0. wire_walk p off es e0 \<and> ev_hops es \<le> MAX_COMPRESSION_HOPS \<and> backward_hops es \<and>
      e = (case ev_return es of None \<Rightarrow> e0 | Some r \<Rightarrow> r) \<and> off < e \<and> e \<le> length p)"
  using validate_name_at_offset_iff[of p off e] validate_name_bounds[of p off e] by blast

text \<open>Escaping a label and unescaping it gives the label back, for every UTF-8 label.\<close>

theorem unescape_escape:
  assumes "valid_utf8 l"
  shows "unescape_label (escape_label l) = Ok l"
  using assms by (rule unescape_escape_label)

theorem unescape_escape_witness:
  "valid_utf8 [0x61, 0x2E, 0, 1] \<and> unescape_label (escape_label [0x61, 0x2E, 0, 1]) = Ok [0x61, 0x2E, 0, 1]"
proof -
  have "valid_utf8 [0x61, 0x2E, 0, 1]" by (simp add: valid_utf8_ascii is_ascii_def)
  with unescape_escape[OF this] show ?thesis by blast
qed

end
