(* ===== verification/Domain_Name.thy ===== *)
theory Domain_Name
  imports Compression
begin

text \<open>
  Domain names, \<open>src/dns/protocol/name.rs\<close>: validation and construction, the wire encoder and
  decoder, subdomain tests and the case-insensitive comparisons.  \<open>idna\<close> stands for
  \<open>idna::domain_to_ascii\<close> of the \<open>idna\<close> crate, which \<open>from_str\<close> calls on names that are not ASCII.
\<close>

abbreviation MAX_LABEL_LEN :: nat where "MAX_LABEL_LEN \<equiv> MAXLABEL"
abbreviation MAX_NAME_LEN :: nat where "MAX_NAME_LEN \<equiv> 255"

record domain_name = dn_name :: bytes

definition labels :: "domain_name \<Rightarrow> bytes list" where
  "labels d = split_on dot (trim_end dot (dn_name d))"

subsection \<open>Validation and construction\<close>

definition pattern_label_error :: "bytes \<Rightarrow> reason option" where
  "pattern_label_error label =
     (if label = ascii ''*'' then None
      else if label = [] then Some ''Empty label found''
      else if MAX_LABEL_LEN < length label then Some ''Label exceeds maximum length''
      else if hd label = hyphen \<or> last label = hyphen then Some ''Label has leading or trailing hyphen''
      else if list_ex (\<lambda>ch. \<not> is_ascii_alphanumeric ch \<and> ch \<noteq> hyphen) label
        then Some ''Label contains invalid character''
      else None)"

fun first_error :: "('a \<Rightarrow> reason option) \<Rightarrow> 'a list \<Rightarrow> reason option" where
  "first_error f [] = None"
| "first_error f (x # xs) = (case f x of Some r \<Rightarrow> Some r | None \<Rightarrow> first_error f xs)"

definition new_pattern :: "bytes \<Rightarrow> (domain_name, dns_error) outcome" where
  "new_pattern pattern =
     (if pattern = [] then Err (InvalidName pattern ''Domain pattern cannot be empty'')
      else if MAX_NAME_LEN < length pattern then
        Err (InvalidName pattern ''Domain pattern exceeds maximum length'')
      else let name = \<lparr>dn_name = trim_end dot pattern\<rparr> in
        (case first_error pattern_label_error (labels name) of
           Some r \<Rightarrow> Err (InvalidName pattern r)
         | None \<Rightarrow> Ok name))"

definition label_error :: "bytes \<Rightarrow> reason option" where
  "label_error label =
     (if label = [] then Some ''Empty label found''
      else if MAX_LABEL_LEN < length label then Some ''Label exceeds maximum length''
      else if hd label = hyphen \<or> last label = hyphen then Some ''Label has leading or trailing hyphen''
      else if list_ex (\<lambda>ch. \<not> is_ascii_alphanumeric ch \<and> ch \<noteq> hyphen \<and> ch \<noteq> 0x5F) label
        then Some ''Invalid character in label''
      else None)"

definition validate :: "domain_name \<Rightarrow> (unit, dns_error) outcome" where
  "validate d =
     (if dn_name d = [] \<or> dn_name d = [dot] then Ok ()
      else let ls = labels d; wire_len = sum_list (map (\<lambda>l. 1 + length l) ls) + 1 in
        if MAX_NAME_LEN < wire_len then
          Err (InvalidName (dn_name d) ''Total wire format length exceeds maximum'')
        else (case first_error label_error ls of
            Some r \<Rightarrow> Err (InvalidName (dn_name d) r)
          | None \<Rightarrow> Ok ()))"

fun error_reason :: "dns_error \<Rightarrow> reason" where
  "error_reason (InvalidName _ r) = r"
| "error_reason _ = ''Validation failed''"

definition from_str :: "(bytes \<Rightarrow> bytes option) \<Rightarrow> bytes \<Rightarrow> (domain_name, reason) outcome" where
  "from_str idna s =
     rbind (if is_ascii s then Ok s
            else (case idna s of Some a \<Rightarrow> Ok a | None \<Rightarrow> Err ''IDNA encoding failed''))
       (\<lambda>s. let name = \<lparr>dn_name = trim_end dot s\<rparr> in
          rbind (map_err error_reason (validate name)) (\<lambda>_. Ok name))"

definition dn_new :: "(bytes \<Rightarrow> bytes option) \<Rightarrow> bytes \<Rightarrow> (domain_name, dns_error) outcome" where
  "dn_new idna s = map_err (InvalidName s) (from_str idna s)"

subsection \<open>Relations between names\<close>

definition is_subdomain_of :: "domain_name \<Rightarrow> domain_name \<Rightarrow> bool" where
  "is_subdomain_of d parent =
     (let self_labels = labels d; parent_labels = labels parent in
      if length self_labels \<le> length parent_labels then False
      else list_all (\<lambda>(a, b). eq_ignore_ascii_case a b)
        (zip (drop (length self_labels - length parent_labels) self_labels) parent_labels))"

definition dn_is_empty :: "domain_name \<Rightarrow> bool" where
  "dn_is_empty d \<longleftrightarrow> dn_name d = [] \<or> dn_name d = [dot]"

definition dn_eq :: "domain_name \<Rightarrow> domain_name \<Rightarrow> bool" where
  "dn_eq a b = eq_ignore_ascii_case (dn_name a) (dn_name b)"

datatype ordering = Less | Equal | Greater

fun bytes_cmp :: "bytes \<Rightarrow> bytes \<Rightarrow> ordering" where
  "bytes_cmp [] [] = Equal"
| "bytes_cmp [] (_ # _) = Less"
| "bytes_cmp (_ # _) [] = Greater"
| "bytes_cmp (a # as) (b # bs) = (if a < b then Less else if b < a then Greater else bytes_cmp as bs)"

definition dn_cmp :: "domain_name \<Rightarrow> domain_name \<Rightarrow> ordering" where
  "dn_cmp a b = bytes_cmp (to_ascii_lowercase (dn_name a)) (to_ascii_lowercase (dn_name b))"

text \<open>The byte string that the \<open>Hash\<close> implementation feeds to the hasher.\<close>

definition dn_hash_input :: "domain_name \<Rightarrow> bytes" where
  "dn_hash_input d = to_ascii_lowercase (dn_name d)"

subsection \<open>Wire format\<close>

fun wire_labels :: "bytes \<Rightarrow> bytes list \<Rightarrow> (bytes, dns_error) outcome" where
  "wire_labels name [] = Ok [0]"
| "wire_labels name (label # ls) =
     (if MAX_LABEL_LEN < length label then Err (InvalidName name ''Label exceeds maximum length'')
      else rbind (wire_labels name ls) (\<lambda>rest. Ok (of_nat (length label) # label @ rest)))"

definition to_wire_format :: "domain_name \<Rightarrow> (bytes, dns_error) outcome" where
  "to_wire_format d =
     (if dn_name d = [] \<or> dn_name d = [dot] then Ok [0] else wire_labels (dn_name d) (labels d))"

definition to_wire :: "domain_name \<Rightarrow> bytes \<Rightarrow> compression_map option \<Rightarrow> (bytes, dns_error) outcome" where
  "to_wire d buffer compression =
     rbind (to_wire_format d) (\<lambda>wire_name.
       case (case compression of None \<Rightarrow> None | Some m \<Rightarrow> find_suffix m wire_name) of
         Some offset \<Rightarrow>
           if offset < 0x3FFF then Ok (buffer @ put_u16 (push_bit 8 (ucast (0xC0 :: u8)) OR of_nat offset))
           else Ok (buffer @ wire_name)
       | None \<Rightarrow> Ok (buffer @ wire_name))"

definition name_of_labels :: "bytes list \<Rightarrow> domain_name" where
  "name_of_labels ls = \<lparr>dn_name = (if ls = [] then [dot] else join dot ls)\<rparr>"

function from_wire_loop :: "bytes \<Rightarrow> nat \<Rightarrow> bytes list \<Rightarrow> nat \<Rightarrow> nat option \<Rightarrow> nat
    \<Rightarrow> (domain_name \<times> nat, dns_error) outcome" where
  "from_wire_loop packet offset ls hops first_pointer total_len =
     (if length packet \<le> offset then Err (ParseFailed ''packet'' ''Offset out of bounds'')
      else let b = packet ! offset; len = unat b in
      if len = 0 then
        Ok (name_of_labels ls, case first_pointer of None \<Rightarrow> offset + 1 | Some q \<Rightarrow> q)
      else if b AND 0xC0 = 0xC0 then
        if length packet \<le> offset + 1 then Err (ParseFailed ''packet'' ''Incomplete compression pointer'')
        else let pointer_offset = pointer_target b (packet ! (offset + 1));
                 first_pointer' = (case first_pointer of None \<Rightarrow> Some (offset + 2) | Some q \<Rightarrow> Some q);
                 hops' = hops + 1 in
          if 255 < hops' then Err (ParseFailed ''packet'' ''Too many compression pointer hops'')
          else from_wire_loop packet pointer_offset ls hops' first_pointer' total_len
      else if MAX_LABEL_LEN < len then Err (InvalidName (ascii ''parsed'') ''Label length exceeds maximum'')
      else if length packet < offset + 1 + len then
        Err (ParseFailed ''packet'' ''Label data out of bounds'')
      else let label_bytes = slice (offset + 1) (offset + 1 + len) packet in
        if \<not> valid_utf8 label_bytes then Err (InvalidName (ascii ''parsed'') ''Invalid UTF-8 in label'')
        else let ls' = ls @ [label_bytes]; total_len' = total_len + (len + 1) in
          if MAX_NAME_LEN < total_len' then
            Err (InvalidName (join dot ls') ''Total name length exceeds maximum'')
          else from_wire_loop packet (offset + 1 + len) ls' hops first_pointer total_len')"
  by pat_completeness auto
termination
  by (relation "measure (\<lambda>(packet, off, ls, hops, fp, total). (256 - hops) + (256 - total))") auto

definition from_wire :: "bytes \<Rightarrow> nat \<Rightarrow> (domain_name \<times> nat, dns_error) outcome" where
  "from_wire packet offset = from_wire_loop packet offset [] 0 None 0"

declare from_wire_loop.simps [simp del]


subsection \<open>Valid labels\<close>

definition valid_label :: "bytes \<Rightarrow> bool" where
  "valid_label l \<longleftrightarrow> label_error l = None"

text \<open>A non-root name in the form \<open>from_str\<close> produces.\<close>

definition valid_name :: "domain_name \<Rightarrow> bool" where
  "valid_name d \<longleftrightarrow> (\<forall>l\<in>set (split_on dot (dn_name d)). valid_label l) \<and> length (dn_name d) + 2 \<le> MAX_NAME_LEN"

lemma first_error_None: "first_error f xs = None \<longleftrightarrow> (\<forall>x\<in>set xs. f x = None)"
  by (induction xs) (auto split: option.splits)

lemma first_error_Some: "first_error f xs = Some r \<Longrightarrow> \<exists>x\<in>set xs. f x = Some r"
  by (induction xs) (auto split: option.splits)

lemma dn_name_eta [simp]: "\<lparr>dn_name = dn_name d\<rparr> = d"
  by (cases d) simp

lemma name_char_facts:
  assumes "is_ascii_alphanumeric b \<or> b = hyphen \<or> b = 0x5F"
  shows "b < 0x80" "b \<noteq> 0" "b \<noteq> dot" "b \<noteq> NAME_ESCAPE"
  using assms by (auto simp: is_ascii_alphanumeric_def word_le_nat_alt word_less_nat_alt)

lemma valid_label_chars:
  "valid_label l \<Longrightarrow> b \<in> set l \<Longrightarrow> is_ascii_alphanumeric b \<or> b = hyphen \<or> b = 0x5F"
  by (auto simp: valid_label_def label_error_def list_ex_iff split: if_splits)

lemma valid_label_size: "valid_label l \<Longrightarrow> label_size l"
  by (auto simp: valid_label_def label_error_def label_size_def split: if_splits)

lemma valid_label_plain: "valid_label l \<Longrightarrow> plain_label l"
  using name_char_facts[OF valid_label_chars] valid_label_size by (auto simp: plain_label_def)

lemma valid_label_utf8: "valid_label l \<Longrightarrow> valid_utf8 l"
  using name_char_facts(1)[OF valid_label_chars]
  by (auto simp: is_ascii_def list_all_iff intro!: valid_utf8_ascii)

lemma valid_name_plain: "valid_name d \<Longrightarrow> plain_name (dn_name d)"
  by (simp add: valid_name_def plain_name_def valid_label_plain)

lemmas valid_name_shape = plain_name_shape[OF valid_name_plain]

lemma valid_name_labels: "valid_name d \<Longrightarrow> labels d = split_on dot (dn_name d)"
  by (simp add: labels_def valid_name_shape)

lemma sum_labels: "sum_list (map (\<lambda>l. Suc (length l)) (split_on dot s)) = length s + 1"
  using length_join[of "split_on dot s" dot] by simp

lemma validate_Ok_iff:
  assumes "trim_end dot (dn_name d) = dn_name d"
  shows "validate d = Ok () \<longleftrightarrow> dn_name d = [] \<or> valid_name d"
proof (cases "dn_name d = [] \<or> dn_name d = [dot]")
  case True
  have "trim_end dot [dot] = []" by (simp add: trim_end_def)
  with True assms show ?thesis by (auto simp: validate_def)
next
  case False
  then show ?thesis using assms
    by (auto simp: validate_def Let_def labels_def valid_name_def valid_label_def sum_labels first_error_None
        split: option.splits dest!: first_error_Some)
qed

lemma dn_new_Ok:
  assumes "dn_new idna s = Ok d"
  shows "dn_name d = [] \<or> valid_name d"
proof -
  from assms obtain a where "d = \<lparr>dn_name = trim_end dot a\<rparr>" "validate d = Ok ()"
    by (auto simp: dn_new_def from_str_def rust_simps Let_def)
  then show ?thesis by (simp add: validate_Ok_iff)
qed

lemma valid_name_ascii: "valid_name d \<Longrightarrow> is_ascii (dn_name d)"
proof -
  assume v: "valid_name d"
  have "b < 0x80" if "b \<in> set (join dot ls)" "\<forall>l\<in>set ls. valid_label l" for b ls
    using that name_char_facts(1)[OF valid_label_chars]
    by (induction dot ls rule: join.induct) (auto simp: word_less_nat_alt)
  from this[of _ "split_on dot (dn_name d)"] v show ?thesis
    by (auto simp: is_ascii_def list_all_iff valid_name_def)
qed

lemma dn_new_valid:
  assumes "valid_name d"
  shows "dn_new idna (dn_name d) = Ok d"
proof -
  have "validate d = Ok ()" using assms validate_Ok_iff valid_name_shape(3) by blast
  then show ?thesis
    using assms valid_name_ascii valid_name_shape(3)
    by (simp add: dn_new_def from_str_def Let_def)
qed

lemma dn_new_root: "dn_name d = [] \<Longrightarrow> dn_new idna [] = Ok d"
  by (cases d) (simp add: dn_new_def from_str_def Let_def is_ascii_def trim_end_def validate_def)

lemma dn_new_not_Panic [simp]: "dn_new idna s \<noteq> Panic"
  by (auto simp: dn_new_def from_str_def rust_simps Let_def validate_def split: option.splits if_splits)

subsection \<open>Encoding\<close>

lemma wire_labels_eq: "\<forall>l\<in>set ls. label_size l \<Longrightarrow> wire_labels n ls = Ok (wire_of ls)"
  by (induction ls) (auto simp: wire_of_Cons wire_label_def label_size_def)

lemma to_wire_format_valid: "valid_name d \<Longrightarrow> to_wire_format d = Ok (wire_of (split_on dot (dn_name d)))"
  by (simp add: to_wire_format_def valid_name_shape valid_name_labels wire_labels_eq valid_name_def
      valid_label_size)

lemma length_wire_valid: "length (wire_of (split_on dot s)) = length s + 2"
  by (simp add: length_wire_of sum_labels)

lemma wire_labels_not_Panic [simp]: "wire_labels n ls \<noteq> Panic"
  by (induction ls) (auto simp: rust_simps)

lemma to_wire_format_not_Panic [simp]: "to_wire_format d \<noteq> Panic"
  by (simp add: to_wire_format_def)

subsection \<open>Decoding\<close>

fun from_wire_event :: "bytes \<Rightarrow> bytes list \<times> nat \<times> nat option \<times> nat \<Rightarrow> wire_event \<Rightarrow>
    (bytes list \<times> nat \<times> nat option \<times> nat, dns_error) outcome" where
  "from_wire_event p (ls, hops, fp, tlen) (Label l) =
     (if \<not> valid_utf8 l then Err (InvalidName (ascii ''parsed'') ''Invalid UTF-8 in label'')
      else if MAX_NAME_LEN < tlen + (length l + 1) then
        Err (InvalidName (join dot (ls @ [l])) ''Total name length exceeds maximum'')
      else Ok (ls @ [l], hops, fp, tlen + (length l + 1)))"
| "from_wire_event p (ls, hops, fp, tlen) (Hop a t) =
     (if 255 < hops + 1 then Err (ParseFailed ''packet'' ''Too many compression pointer hops'')
      else Ok (ls, hops + 1, case fp of None \<Rightarrow> Some (a + 2) | Some q \<Rightarrow> Some q, tlen))"

fun from_wire_finish :: "bytes list \<times> nat \<times> nat option \<times> nat \<Rightarrow> nat \<Rightarrow> domain_name \<times> nat" where
  "from_wire_finish (ls, hops, fp, tlen) e = (name_of_labels ls, case fp of None \<Rightarrow> e | Some q \<Rightarrow> q)"

interpretation fw: name_walker
  "\<lambda>p off (ls, hops, fp, tlen). from_wire_loop p off ls hops fp tlen"
  from_wire_event from_wire_finish "\<lambda>(ls, hops, fp, tlen). 256 - hops"
proof (unfold_locales, goal_cases)
  case (1 off p st)
  then show ?case by (cases st) (simp add: from_wire_loop.simps[of p off] split: option.split)
next
  case (2 off p t st)
  then have "unat (p ! off) \<noteq> 0" by (auto simp: unat_eq_0)
  with 2 show ?case
    by (cases st) (simp add: from_wire_loop.simps[of p off] Let_def split: prod.split)
next
  case (3 off p n st)
  then have "p ! off AND 0xC0 \<noteq> 0xC0" "n \<noteq> 0" by (auto simp: and_C0_eq_C0 unat_eq_0)
  with 3 show ?case
    by (cases st) (simp add: from_wire_loop.simps[of p off] Let_def)
next
  case (4 p off st)
  then show ?case by (cases st) (simp add: from_wire_loop.simps[of p off])
next
  case (5 off p st)
  then have "unat (p ! off) \<noteq> 0" by (auto simp: unat_eq_0)
  with 5 show ?case by (cases st) (simp add: from_wire_loop.simps[of p off])
next
  case (6 off p st)
  then show ?case
    by (cases st) (auto simp: from_wire_loop.simps[of p off] Let_def unat_eq_0 not_le)
next
  case (7 p st a t st')
  then show ?case by (cases st) (auto split: if_splits)
next
  case (8 p st l st')
  then show ?case by (cases st) (auto split: if_splits)
next
  case (9 p st ev)
  then show ?case by (cases st; cases ev) auto
qed

lemma run_from_wire:
  "run_events (from_wire_event p) (ls, hops, fp, tlen) es = Ok (ls', hops', fp', tlen') \<longleftrightarrow>
     ls' = ls @ ev_labels es \<and> (\<forall>l\<in>set (ev_labels es). valid_utf8 l) \<and>
     tlen' = tlen + (\<Sum>l\<leftarrow>ev_labels es. length l + 1) \<and> (ev_labels es = [] \<or> tlen' \<le> MAX_NAME_LEN) \<and>
     hops' = hops + ev_hops es \<and> (ev_hops es = 0 \<or> hops' \<le> 255) \<and>
     fp' = (case fp of None \<Rightarrow> ev_return es | Some q \<Rightarrow> Some q)"
proof (induction es arbitrary: ls hops fp tlen)
  case Nil
  show ?case by (cases fp) auto
next
  case (Cons ev es)
  show ?case
  proof (cases ev)
    case (Label l)
    show ?thesis unfolding Label by (cases fp) (auto simp: Cons.IH rust_simps not_less)
  next
    case (Hop a t)
    show ?thesis unfolding Hop by (cases fp) (auto simp: Cons.IH rust_simps not_less)
  qed
qed

lemma from_wire_iff:
  "from_wire p off = Ok (d, e) \<longleftrightarrow>
   (\<exists>ls h. wire_name p off ls h e \<and> h \<le> 255 \<and> (\<forall>l\<in>set ls. valid_utf8 l) \<and>
      (\<Sum>l\<leftarrow>ls. length l + 1) \<le> MAX_NAME_LEN \<and> d = name_of_labels ls)"  (is "?l \<longleftrightarrow> ?r")
proof
  assume ?l
  then have "(case ([], 0, None, 0) of (ls, hops, fp, tlen) \<Rightarrow> from_wire_loop p off ls hops fp tlen) = Ok (d, e)"
    by (simp add: from_wire_def)
  then obtain es e0 st where w: "wire_walk p off es e0"
    "run_events (from_wire_event p) ([], 0, None, 0) es = Ok st" "(d, e) = from_wire_finish st e0"
    unfolding fw.walk_Ok_iff by blast
  obtain ls hops fp tlen where st: "st = (ls, hops, fp, tlen)" by (cases st)
  with w(2,3) wire_walk_name[OF w(1)] show ?r
    by (intro exI[of _ "ev_labels es"] exI[of _ "ev_hops es"]) (auto simp: run_from_wire)
next
  assume ?r
  then obtain ls h where r: "wire_name p off ls h e" "h \<le> 255" "\<forall>l\<in>set ls. valid_utf8 l"
    "(\<Sum>l\<leftarrow>ls. length l + 1) \<le> MAX_NAME_LEN" "d = name_of_labels ls" by blast
  then obtain es e0 where w: "wire_walk p off es e0" "ls = ev_labels es" "h = ev_hops es"
    "e = (case ev_return es of None \<Rightarrow> e0 | Some r \<Rightarrow> r)" using wire_name_walk by blast
  have "run_events (from_wire_event p) ([], 0, None, 0) es =
      Ok (ls, h, ev_return es, \<Sum>l\<leftarrow>ls. length l + 1)"
    using r w by (simp add: run_from_wire)
  from fw.walk_complete[OF w(1) this] show ?l
    using r w by (simp add: from_wire_def)
qed

lemma from_wire_not_Panic [simp]: "from_wire p off \<noteq> Panic"
  unfolding from_wire_def using fw.walk_not_Panic[of p off "([], 0, None, 0)"] by simp

lemma from_wire_bounds: "from_wire p off = Ok (d, e) \<Longrightarrow> off < e \<and> e \<le> length p"
  unfolding from_wire_iff using wire_name_bounds by blast

lemma from_wire_valid:
  assumes "valid_name d" and "wire_name p off (split_on dot (dn_name d)) h e" and "h \<le> 255"
  shows "from_wire p off = Ok (d, e)"
  using assms unfolding from_wire_iff
  by (intro exI[of _ "split_on dot (dn_name d)"] exI[of _ h])
    (auto simp: valid_name_def valid_label_utf8 sum_labels name_of_labels_def)

lemma from_wire_to_wire:
  assumes "valid_name d"
  shows "from_wire (pre @ wire_of (split_on dot (dn_name d)) @ post) (length pre) =
    Ok (d, length pre + (length (dn_name d) + 2))"
  using assms wire_name_wire_of[of "split_on dot (dn_name d)" pre post]
  by (intro from_wire_valid[where h = 0]) (simp_all add: valid_name_def valid_label_size length_wire_valid)

text \<open>The names the decoder can return for encodings of this module: valid ones and the root.\<close>

definition root_name :: domain_name where
  "root_name = \<lparr>dn_name = [dot]\<rparr>"

definition wire_domain :: "domain_name \<Rightarrow> bool" where
  "wire_domain d \<longleftrightarrow> valid_name d \<or> d = root_name"

definition dn_labels :: "domain_name \<Rightarrow> bytes list" where
  "dn_labels d = (if d = root_name then [] else split_on dot (dn_name d))"

definition dn_wire :: "domain_name \<Rightarrow> bytes" where
  "dn_wire d = wire_of (dn_labels d)"

lemma root_not_valid [simp]: "\<not> valid_name root_name"
  by (simp add: root_name_def valid_name_def valid_label_def label_error_def)

lemma dn_labels_valid: "valid_name d \<Longrightarrow> dn_labels d = split_on dot (dn_name d)"
  by (auto simp: dn_labels_def)

lemma dn_labels_root [simp]: "dn_labels root_name = []"
  by (simp add: dn_labels_def)

lemma dn_labels_size: "wire_domain d \<Longrightarrow> \<forall>l\<in>set (dn_labels d). label_size l"
  by (auto simp: wire_domain_def dn_labels_valid valid_name_def valid_label_size)

lemma from_wire_labels:
  assumes "wire_domain d" and "wire_name p off (dn_labels d) h e" and "h \<le> 255"
  shows "from_wire p off = Ok (d, e)"
proof (cases "d = root_name")
  case True
  with assms show ?thesis unfolding from_wire_iff
    by (intro exI[of _ "[]"] exI[of _ h]) (simp add: name_of_labels_def root_name_def[symmetric])
qed (use assms in \<open>auto simp: wire_domain_def dn_labels_valid intro: from_wire_valid\<close>)

lemma from_wire_at:
  assumes "wire_domain d" and "occurs_at p off (dn_wire d)"
  shows "from_wire p off = Ok (d, off + length (dn_wire d))"
proof -
  from assms(2) obtain pre post where "p = pre @ wire_of (dn_labels d) @ post" "length pre = off"
    by (auto simp: occurs_at_def dn_wire_def)
  with wire_name_wire_of[OF dn_labels_size[OF assms(1)]] have "wire_name p off (dn_labels d) 0 (off + length (dn_wire d))"
    by (auto simp: dn_wire_def)
  then show ?thesis by (rule from_wire_labels[OF assms(1)]) simp
qed

lemma to_wire_uncompressed: "wire_domain d \<Longrightarrow> to_wire d buf None = Ok (buf @ dn_wire d)"
  by (auto simp: to_wire_def to_wire_format_valid wire_domain_def dn_wire_def dn_labels_valid
      to_wire_format_def[of root_name] root_name_def[symmetric] wire_of_def)
    (simp add: root_name_def)

lemma to_wire_not_Panic [simp]: "to_wire d buf c \<noteq> Panic"
  by (auto simp: to_wire_def rust_simps split: option.splits)

subsection \<open>Compressed names in a growing buffer\<close>

lemma compress_wire_domain:
  assumes "wire_domain d" and "cm_sound c buf"
  shows "\<exists>out c'. compress_name (dn_name d) buf (Some c) = Ok (length out, buf @ out, Some c') \<and> out \<noteq> [] \<and>
     cm_sound c' (buf @ out) \<and>
     (\<forall>post. from_wire (buf @ out @ post) (length buf) = Ok (d, length (buf @ out)))"
proof (cases "d = root_name")
  case True
  have "wire_name (buf @ [0] @ post) (length buf) [] 0 (length (buf @ [0]))" for post
    by (simp add: wire_name_zero_iff)
  then have "from_wire (buf @ [0] @ post) (length buf) = Ok (d, length (buf @ [0]))" for post
    using True assms(1) by (intro from_wire_labels[where h = 0]) auto
  with True assms(2) cm_sound_append show ?thesis
    by (intro exI[of _ "[0]"] exI[of _ c]) (simp add: compress_name_def root_name_def)
next
  case False
  with assms have v: "valid_name d" by (simp add: wire_domain_def)
  from compress_name_correct[OF valid_name_plain[OF v], of "Some c" buf] assms obtain out c' h where
    c: "compress_name (dn_name d) buf (Some c) = Ok (length out, buf @ out, Some c')" "h \<le> 1"
    "wire_name (buf @ out) (length buf) (split_on dot (dn_name d)) h (length (buf @ out))"
    "cm_sound c' (buf @ out)" by auto
  have "from_wire ((buf @ out) @ post) (length buf) = Ok (d, length (buf @ out))" for post
    using c(2) by (intro from_wire_valid[OF v wire_name_append[OF c(3)]]) simp
  moreover have "out \<noteq> []" using wire_name_bounds[OF c(3)] by auto
  ultimately show ?thesis using c by (intro exI[of _ out] exI[of _ c']) simp
qed

subsection \<open>Comparisons\<close>

lemma eq_ignore_ascii_case_iff: "eq_ignore_ascii_case a b \<longleftrightarrow> to_ascii_lowercase a = to_ascii_lowercase b"
  by (simp add: eq_ignore_ascii_case_def)

lemma bytes_cmp_Equal: "bytes_cmp a b = Equal \<longleftrightarrow> a = b"
  by (induction a b rule: bytes_cmp.induct) auto

lemma bytes_cmp_swap: "bytes_cmp a b = Less \<longleftrightarrow> bytes_cmp b a = Greater"
  by (induction a b rule: bytes_cmp.induct) auto

lemma bytes_cmp_trans: "bytes_cmp a b = Less \<Longrightarrow> bytes_cmp b c = Less \<Longrightarrow> bytes_cmp a c = Less"
proof (induction a b arbitrary: c rule: bytes_cmp.induct)
  case (4 a as b bs)
  then show ?case by (cases c) (auto split: if_splits)
next
  case (2 b bs)
  then show ?case by (cases c) auto
qed auto

text \<open>A subdomain has more labels, and its trailing labels are those of the parent up to ASCII case.\<close>

lemma is_subdomain_of_iff:
  "is_subdomain_of d p \<longleftrightarrow>
   (\<exists>pre. pre \<noteq> [] \<and> map to_ascii_lowercase (labels d) = pre @ map to_ascii_lowercase (labels p))"  (is "?l \<longleftrightarrow> ?r")
proof -
  let ?a = "labels d" and ?b = "labels p" and ?low = "map to_ascii_lowercase"
  let ?k = "length ?a - length ?b"
  have tail: "list_all (\<lambda>(a, b). eq_ignore_ascii_case a b) (zip xs ys) \<longleftrightarrow> ?low xs = ?low ys"
    if "length xs = length ys" for xs ys
    using that by (induction xs ys rule: list_induct2) (auto simp: eq_ignore_ascii_case_iff)
  have l: "?l \<longleftrightarrow> length ?b < length ?a \<and> ?low (drop ?k ?a) = ?low ?b"
    using tail[of "drop ?k ?a" ?b] by (auto simp: is_subdomain_of_def Let_def)
  show ?thesis
  proof
    assume ?l
    with l have "length ?b < length ?a" "?low (drop ?k ?a) = ?low ?b" by auto
    then show ?r
      using map_append[of to_ascii_lowercase "take ?k ?a" "drop ?k ?a"]
      by (intro exI[of _ "?low (take ?k ?a)"]) auto
  next
    assume ?r
    then obtain pre where pre: "pre \<noteq> []" "?low ?a = pre @ ?low ?b" by blast
    then have "length ?a = length pre + length ?b" by (metis length_append length_map)
    moreover from this pre have "?low (drop ?k ?a) = ?low ?b" by (simp add: drop_map[symmetric])
    ultimately show ?l using l pre by simp
  qed
qed

lemma is_subdomain_of_trans:
  "is_subdomain_of a b \<Longrightarrow> is_subdomain_of b c \<Longrightarrow> is_subdomain_of a c"
  unfolding is_subdomain_of_iff by (metis Nil_is_append_conv append_assoc)

lemma is_subdomain_of_irrefl: "\<not> is_subdomain_of a a"
  by (simp add: is_subdomain_of_def)

lemma trim_end_lower: "trim_end dot (to_ascii_lowercase s) = to_ascii_lowercase (trim_end dot s)"
  by (simp add: trim_end_def rev_map dropWhile_map comp_def to_lower_dot_iff)

lemma lower_labels: "map to_ascii_lowercase (labels d) = split_on dot (trim_end dot (to_ascii_lowercase (dn_name d)))"
  by (simp add: labels_def split_on_map_to_lower[symmetric] trim_end_lower)

lemma is_subdomain_of_cong:
  "dn_eq a a' \<Longrightarrow> dn_eq b b' \<Longrightarrow> is_subdomain_of a b = is_subdomain_of a' b'"
  by (simp add: is_subdomain_of_iff lower_labels dn_eq_def eq_ignore_ascii_case_iff)

subsection \<open>Properties\<close>

definition example_name :: domain_name where
  "example_name = \<lparr>dn_name = [0x61, 0x2E, 0x62]\<rparr>"

definition example_sub :: domain_name where
  "example_sub = \<lparr>dn_name = [0x63, 0x2E, 0x61, 0x2E, 0x62]\<rparr>"

lemma valid_examples: "valid_name example_name" "valid_name example_sub"
  by (simp_all add: example_name_def example_sub_def valid_name_def valid_label_def label_error_def
      is_ascii_alphanumeric_def)

text \<open>
  C4: \<open>from_wire\<close> succeeds exactly on the encodings of RFC 1035 section 4.1.4 with at most 255 pointers,
  UTF-8 labels and at most 255 bytes of labels, and returns the joined labels and the offset after the name.
\<close>

theorem from_wire_spec:
  "from_wire p off = Ok (d, e) \<longleftrightarrow>
   (\<exists>ls h. wire_name p off ls h e \<and> h \<le> 255 \<and> (\<forall>l\<in>set ls. valid_utf8 l) \<and>
      (\<Sum>l\<leftarrow>ls. length l + 1) \<le> MAX_NAME_LEN \<and> d = name_of_labels ls)"
  by (rule from_wire_iff)

theorem from_wire_spec_witness:
  "\<exists>ls h. wire_name [1, 0x61, 0] 0 ls h 3 \<and> name_of_labels ls = \<lparr>dn_name = [0x61]\<rparr>"
proof -
  have "from_wire [1, 0x61, 0] 0 = Ok (\<lparr>dn_name = [0x61]\<rparr>, 3)"
    by (simp add: from_wire_def from_wire_loop.simps slice_def Let_def name_of_labels_def valid_utf8_ascii is_ascii_def)
  then show ?thesis unfolding from_wire_spec by metis
qed

text \<open>
  \<open>DomainName::new\<close> accepts only the root or names whose labels are valid and whose wire form fits in
  255 bytes, and \<open>to_wire\<close> followed by \<open>from_wire\<close> gives every accepted non-root name back, wherever
  the encoding stands in a packet.
\<close>

theorem new_name_round_trip:
  assumes "dn_new idna s = Ok d" and "dn_name d \<noteq> []"
  shows "valid_name d \<and> (\<exists>w. to_wire d buf None = Ok (buf @ w) \<and> length w \<le> 255 \<and>
     (\<forall>post. from_wire (buf @ w @ post) (length buf) = Ok (d, length buf + length w)))"
proof -
  have v: "valid_name d" using dn_new_Ok[OF assms(1)] assms(2) by blast
  let ?w = "dn_wire d"
  have "length ?w \<le> 255"
    using v by (simp add: dn_wire_def dn_labels_valid length_wire_valid) (simp add: valid_name_def)
  moreover have "from_wire (buf @ ?w @ post) (length buf) = Ok (d, length buf + length ?w)" for post
    using v by (intro from_wire_at) (simp_all add: wire_domain_def)
  ultimately show ?thesis
    using v to_wire_uncompressed[of d buf] by (auto simp: wire_domain_def)
qed

theorem new_name_round_trip_witness:
  "\<exists>w. to_wire example_name [] None = Ok ([] @ w) \<and>
     (\<forall>post. from_wire ([] @ w @ post) 0 = Ok (example_name, length w))"
  using new_name_round_trip[of "\<lambda>_. None" "dn_name example_name" example_name "[]"]
    dn_new_valid[OF valid_examples(1), of "\<lambda>_. None"] by (auto simp: example_name_def)

text \<open>
  \<open>is_subdomain_of\<close> holds exactly when the labels are the parent's labels, up to ASCII case, behind at
  least one more label; it is irreflexive, transitive and does not distinguish equal names.
\<close>

theorem subdomain_spec:
  "(is_subdomain_of d p \<longleftrightarrow>
     (\<exists>pre. pre \<noteq> [] \<and> map to_ascii_lowercase (labels d) = pre @ map to_ascii_lowercase (labels p))) \<and>
   \<not> is_subdomain_of d d \<and>
   (is_subdomain_of d p \<longrightarrow> is_subdomain_of p q \<longrightarrow> is_subdomain_of d q) \<and>
   (dn_eq d d' \<longrightarrow> dn_eq p p' \<longrightarrow> is_subdomain_of d p = is_subdomain_of d' p')"
  using is_subdomain_of_iff[of d p] is_subdomain_of_irrefl[of d] is_subdomain_of_trans[of d p q]
    is_subdomain_of_cong[of d d' p p'] by blast

theorem subdomain_spec_witness:
  "is_subdomain_of example_sub example_name \<and> \<not> is_subdomain_of example_name example_name"
  using subdomain_spec[of example_sub example_name]
    subdomain_spec[of example_name]
  by (auto simp: example_sub_def example_name_def labels_def trim_end_def)

text \<open>
  Equality, ordering and hashing of names agree: names are equal exactly when they compare
  \<open>Equal\<close> and exactly when they feed the same bytes to the hasher, and the ordering is a strict order
  on the case-folded names.
\<close>

theorem name_comparisons_agree:
  "(dn_eq a b \<longleftrightarrow> dn_cmp a b = Equal) \<and> (dn_eq a b \<longleftrightarrow> dn_hash_input a = dn_hash_input b) \<and>
   (dn_cmp a b = Less \<longleftrightarrow> dn_cmp b a = Greater) \<and>
   (dn_cmp a b = Less \<longrightarrow> dn_cmp b c = Less \<longrightarrow> dn_cmp a c = Less)"
  by (simp add: dn_eq_def dn_cmp_def dn_hash_input_def eq_ignore_ascii_case_iff bytes_cmp_Equal)
    (metis bytes_cmp_swap bytes_cmp_trans)

theorem name_comparisons_agree_witness:
  "dn_cmp \<lparr>dn_name = [0x61]\<rparr> \<lparr>dn_name = [0x64]\<rparr> = Less"
  using name_comparisons_agree[of "\<lparr>dn_name = [0x61]\<rparr>" "\<lparr>dn_name = [0x62]\<rparr>" "\<lparr>dn_name = [0x64]\<rparr>"]
  by (simp add: dn_cmp_def to_lower_def)

text \<open>
  With a compression map \<open>to_wire\<close> encodes a name by a pointer to any recorded suffix of it, and every
  recorded name ends in the root: after \<open>a.b\<close> the names \<open>c.a.b\<close> and \<open>c\<close> are both written as
  one pointer, and read back as \<open>a.b\<close> and as the root.
\<close>

definition ab_map :: compression_map where
  "ab_map = add_name cm_new (wire_of [[0x61], [0x62]]) 0"

lemma ab_map_offsets:
  "offsets ab_map = [[1, 0x61, 1, 0x62, 0] \<mapsto> 0, [1, 0x62, 0] \<mapsto> 2, [0] \<mapsto> 4]"
  by (simp add: ab_map_def add_name_def cm_new_def wire_of_def wire_label_def add_name_loop.simps Let_def
      numeral_eq_Suc)

theorem to_wire_drops_labels:
  "to_wire example_sub (wire_of [[0x61], [0x62]]) (Some ab_map) = Ok (wire_of [[0x61], [0x62]] @ [0xC0, 0]) \<and>
   from_wire (wire_of [[0x61], [0x62]] @ [0xC0, 0]) 5 = Ok (example_name, 7) \<and>
   to_wire \<lparr>dn_name = [0x63]\<rparr> (wire_of [[0x61], [0x62]]) (Some ab_map) = Ok (wire_of [[0x61], [0x62]] @ [0xC0, 4]) \<and>
   from_wire (wire_of [[0x61], [0x62]] @ [0xC0, 4]) 5 = Ok (root_name, 7)"
  by (intro conjI)
    (simp_all add: to_wire_def to_wire_format_def find_suffix_def ab_map_offsets find_suffix_loop.simps
      labels_def trim_end_def wire_of_def wire_label_def Let_def put_u16_def from_wire_def from_wire_loop.simps
      pointer_target_def slice_def name_of_labels_def example_name_def example_sub_def root_name_def
      valid_utf8_ascii is_ascii_def)

end
