(* ===== verification/Dhcp_Lease.thy ===== *)
theory Dhcp_Lease
  imports Domain_Name "HOL-Library.AList" "HOL-Library.Multiset"
begin

text \<open>
  DHCP leases and their repository, \<open>src/dhcp/lease/mod.rs\<close>, with \<open>strip_hostname\<close> of
  \<open>src/dhcp/common.rs\<close>.  \<open>SystemTime\<close> is counted in nanoseconds since the epoch; every reading of the
  clock is an argument \<open>now\<close>.  A \<open>HashMap\<close> is an association list whose iteration order is an
  argument \<open>iter\<close>.  The trait \<open>LeaseRepository\<close> is the locale \<open>lease_repository\<close>, interpreted on
  the model of \<open>MemoryLeaseRepository\<close>.
\<close>

subsection \<open>Leases\<close>

type_synonym lease_flags = u32

definition LF_STATIC :: lease_flags where "LF_STATIC = push_bit 0 1"
definition LF_DECLINED :: lease_flags where "LF_DECLINED = push_bit 1 1"
definition LF_TA :: lease_flags where "LF_TA = push_bit 8 1"
definition LF_NA :: lease_flags where "LF_NA = push_bit 9 1"

lemmas lease_flag_defs = LF_STATIC_def LF_DECLINED_def LF_TA_def LF_NA_def

datatype lease_action = Add | Old | Del | OldHostname

record lease =
  ls_ip :: ip_addr
  ls_mac :: "mac_address option"
  ls_hostname :: "bytes option"
  ls_client_id :: "bytes option"
  ls_expires :: nat
  ls_iaid :: "u32 option"
  ls_flags :: lease_flags
  ls_interface :: bytes
  ls_fqdn :: "bytes option"
  ls_vendorclass :: "bytes option"
  ls_agent_id :: "bytes option"
  ls_slaac_addresses :: "bytes list option"

definition hostname_char :: "u8 \<Rightarrow> bool" where
  "hostname_char b \<longleftrightarrow> is_ascii_alphanumeric b \<or> b = hyphen \<or> b = dot"

fun strip_loop :: "nat \<Rightarrow> bytes \<Rightarrow> bytes \<Rightarrow> bytes" where
  "strip_loop max_len [] result = result"
| "strip_loop max_len (b # bs) result =
     (let result' = (if hostname_char b then result @ [b] else result) in
      if max_len \<le> length result' then result' else strip_loop max_len bs result')"

definition trim_matches :: "(u8 \<Rightarrow> bool) \<Rightarrow> bytes \<Rightarrow> bytes" where
  "trim_matches f s = rev (dropWhile f (rev (dropWhile f s)))"

definition strip_hostname :: "bytes \<Rightarrow> nat \<Rightarrow> bytes" where
  "strip_hostname hostname max_len = trim_matches (\<lambda>c. c = hyphen \<or> c = dot) (strip_loop max_len hostname [])"

definition lease_new :: "nat \<Rightarrow> ip_addr \<Rightarrow> mac_address option \<Rightarrow> bytes option \<Rightarrow> bytes option \<Rightarrow> bytes \<Rightarrow> nat \<Rightarrow> lease" where
  "lease_new now ip mac hostname client_id interface duration =
     \<lparr>ls_ip = ip, ls_mac = mac, ls_hostname = map_option (\<lambda>h. strip_hostname h 63) hostname,
      ls_client_id = client_id, ls_expires = now + duration, ls_iaid = None, ls_flags = 0,
      ls_interface = interface, ls_fqdn = None, ls_vendorclass = None, ls_agent_id = None,
      ls_slaac_addresses = None\<rparr>"

definition lease_is_expired :: "nat \<Rightarrow> lease \<Rightarrow> bool" where
  "lease_is_expired now l \<longleftrightarrow> ls_expires l < now"

definition remaining_duration :: "nat \<Rightarrow> lease \<Rightarrow> nat option" where
  "remaining_duration now l = duration_since (ls_expires l) now"

definition set_fqdn :: "bytes \<Rightarrow> lease \<Rightarrow> lease" where
  "set_fqdn domain l = (case ls_hostname l of Some h \<Rightarrow> l\<lparr>ls_fqdn := Some (h @ [dot] @ domain)\<rparr> | None \<Rightarrow> l)"

definition is_static :: "lease \<Rightarrow> bool" where
  "is_static l \<longleftrightarrow> flags_contain (ls_flags l) LF_STATIC"

subsection \<open>The memory repository\<close>

record lease_repo =
  leases :: "(ip_addr \<times> lease) list"
  mac_index :: "(mac_address \<times> ip_addr) list"

type_synonym lease_iter = "(ip_addr \<times> lease) list \<Rightarrow> (ip_addr \<times> lease) list"

definition repo_new :: lease_repo where
  "repo_new = \<lparr>leases = [], mac_index = []\<rparr>"

definition repo_find_by_ip :: "ip_addr \<Rightarrow> lease_repo \<Rightarrow> lease option" where
  "repo_find_by_ip ip r = map_of (leases r) ip"

definition repo_find_by_mac :: "mac_address \<Rightarrow> lease_repo \<Rightarrow> lease option" where
  "repo_find_by_mac mac r = (case map_of (mac_index r) mac of Some ip \<Rightarrow> map_of (leases r) ip | None \<Rightarrow> None)"

definition repo_insert :: "lease \<Rightarrow> lease_repo \<Rightarrow> lease_repo" where
  "repo_insert l r =
     (let r = (case ls_mac l of Some mac \<Rightarrow> r\<lparr>mac_index := AList.update mac (ls_ip l) (mac_index r)\<rparr> | None \<Rightarrow> r) in
      r\<lparr>leases := AList.update (ls_ip l) l (leases r)\<rparr>)"

definition repo_remove :: "ip_addr \<Rightarrow> lease_repo \<Rightarrow> (lease, dhcp_error) outcome \<times> lease_repo" where
  "repo_remove ip r =
     (case map_of (leases r) ip of
        None \<Rightarrow> (Err (LeaseNotFound ip), r)
      | Some l \<Rightarrow>
          let r = r\<lparr>leases := AList.delete ip (leases r)\<rparr> in
          (Ok l, case ls_mac l of Some mac \<Rightarrow> r\<lparr>mac_index := AList.delete mac (mac_index r)\<rparr> | None \<Rightarrow> r))"

definition repo_list_all :: "lease_iter \<Rightarrow> lease_repo \<Rightarrow> lease list" where
  "repo_list_all iter r = map snd (iter (leases r))"

definition repo_prune_expired :: "lease_iter \<Rightarrow> nat \<Rightarrow> lease_repo \<Rightarrow> nat \<times> lease_repo" where
  "repo_prune_expired iter now r =
     (let expired_ips = map fst (filter (\<lambda>(ip, l). ls_expires l \<le> now \<and> \<not> is_static l) (iter (leases r))) in
      (length expired_ips, fold (\<lambda>ip r. snd (repo_remove ip r)) expired_ips r))"

subsection \<open>The repository interface\<close>

text \<open>
  What the lease manager relies on: a lease is found under its address after an insertion, no longer
  after a removal, removals of unknown addresses fail, and the list of all leases has each once.
\<close>

locale lease_repository =
  fixes inv :: "'r \<Rightarrow> bool"
    and find_by_ip :: "ip_addr \<Rightarrow> 'r \<Rightarrow> lease option"
    and insert :: "lease \<Rightarrow> 'r \<Rightarrow> 'r"
    and remove :: "ip_addr \<Rightarrow> 'r \<Rightarrow> (lease, dhcp_error) outcome \<times> 'r"
    and list_all :: "'r \<Rightarrow> lease list"
  assumes inv_insert: "inv r \<Longrightarrow> inv (insert l r)"
    and inv_remove: "inv r \<Longrightarrow> inv (snd (remove ip r))"
    and find_insert: "inv r \<Longrightarrow> find_by_ip ip (insert l r) = (if ip = ls_ip l then Some l else find_by_ip ip r)"
    and remove_result: "inv r \<Longrightarrow> fst (remove ip r) = (case find_by_ip ip r of Some l \<Rightarrow> Ok l | None \<Rightarrow> Err (LeaseNotFound ip))"
    and find_remove: "inv r \<Longrightarrow> find_by_ip ip (snd (remove ip' r)) = (if ip = ip' then None else find_by_ip ip r)"
    and find_keyed: "inv r \<Longrightarrow> find_by_ip ip r = Some l \<Longrightarrow> ls_ip l = ip"
    and list_all_find: "inv r \<Longrightarrow> l \<in> set (list_all r) \<longleftrightarrow> find_by_ip (ls_ip l) r = Some l"
    and list_all_distinct: "inv r \<Longrightarrow> distinct (map ls_ip (list_all r))"
begin

lemma inv_remove_list: "inv r \<Longrightarrow> inv (fold (\<lambda>ip r. snd (remove ip r)) ips r)"
  by (induction ips arbitrary: r) (auto simp: inv_remove)

lemma find_remove_list:
  "inv r \<Longrightarrow> find_by_ip ip (fold (\<lambda>ip r. snd (remove ip r)) ips r) = (if ip \<in> set ips then None else find_by_ip ip r)"
  by (induction ips arbitrary: r) (auto simp: inv_remove find_remove)

lemma find_remove_filtered:
  assumes "inv r"
  shows "find_by_ip ip (fold (\<lambda>ip r. snd (remove ip r)) (map ls_ip (filter P (list_all r))) r) =
    (case find_by_ip ip r of Some l \<Rightarrow> if P l then None else Some l | None \<Rightarrow> None)"
proof -
  have "ip \<in> set (map ls_ip (filter P (list_all r))) \<longleftrightarrow> (\<exists>l. find_by_ip ip r = Some l \<and> P l)"
  proof
    assume "ip \<in> set (map ls_ip (filter P (list_all r)))"
    then obtain l where "l \<in> set (list_all r)" "P l" "ls_ip l = ip" by auto
    then show "\<exists>l. find_by_ip ip r = Some l \<and> P l" using list_all_find[OF assms] by auto
  next
    assume "\<exists>l. find_by_ip ip r = Some l \<and> P l"
    then obtain l where l: "find_by_ip ip r = Some l" "P l" by blast
    then have "ls_ip l = ip" using find_keyed[OF assms] by blast
    with l have "l \<in> set (filter P (list_all r))" using list_all_find[OF assms, of l] by simp
    with \<open>ls_ip l = ip\<close> show "ip \<in> set (map ls_ip (filter P (list_all r)))" by auto
  qed
  then show ?thesis unfolding find_remove_list[OF assms] by (auto split: option.splits)
qed

lemma inv_insert_list: "inv r \<Longrightarrow> inv (fold insert ls r)"
  by (induction ls arbitrary: r) (auto simp: inv_insert)

lemma find_insert_list:
  "inv r \<Longrightarrow> find_by_ip ip (fold insert ls r) =
     (case find (\<lambda>l. ls_ip l = ip) (rev ls) of Some l \<Rightarrow> Some l | None \<Rightarrow> find_by_ip ip r)"
proof (induction ls arbitrary: r)
  case (Cons l ls)
  have "find P (xs @ [x]) = (case find P xs of Some y \<Rightarrow> Some y | None \<Rightarrow> if P x then Some x else None)"
    for P :: "lease \<Rightarrow> bool" and xs x
    by (induction xs) auto
  with Cons show ?case by (auto simp: inv_insert find_insert split: option.splits)
qed simp

end

definition repo_inv :: "lease_repo \<Rightarrow> bool" where
  "repo_inv r \<longleftrightarrow> distinct (map fst (leases r)) \<and> (\<forall>(ip, l)\<in>set (leases r). ls_ip l = ip)"

lemma repo_inv_new [simp]: "repo_inv repo_new"
  by (simp add: repo_inv_def repo_new_def)

lemma leases_insert: "leases (repo_insert l r) = AList.update (ls_ip l) l (leases r)"
  by (simp add: repo_insert_def Let_def split: option.split)

lemma leases_remove: "leases (snd (repo_remove ip r)) = AList.delete ip (leases r)"
  by (auto simp: repo_remove_def Let_def delete_id map_of_eq_None_iff split: option.split)

lemma set_update_keyed:
  "\<forall>(k, v)\<in>set xs. P k v \<Longrightarrow> P k' v' \<Longrightarrow> \<forall>(k, v)\<in>set (AList.update k' v' xs). P k v"
  by (induction xs) auto

lemma set_delete_keyed: "\<forall>(k, v)\<in>set xs. P k v \<Longrightarrow> \<forall>(k, v)\<in>set (AList.delete k' xs). P k v"
  by (induction xs) auto

lemma repo_keyed: "repo_inv r \<Longrightarrow> map_of (leases r) ip = Some l \<Longrightarrow> ls_ip l = ip"
  by (auto simp: repo_inv_def dest!: map_of_SomeD)

lemma list_all_iter:
  assumes "repo_inv r" and "mset (iter (leases r)) = mset (leases r)"
  shows "l \<in> set (repo_list_all iter r) \<longleftrightarrow> map_of (leases r) (ls_ip l) = Some l"
    "distinct (map ls_ip (repo_list_all iter r))"
proof -
  have s: "set (iter (leases r)) = set (leases r)" using assms(2) by (metis set_mset_mset)
  have "map ls_ip (repo_list_all iter r) = map fst (iter (leases r))"
    using assms(1) s by (auto simp: repo_list_all_def repo_inv_def)
  then show "distinct (map ls_ip (repo_list_all iter r))"
    using assms by (metis mset_eq_imp_distinct_iff mset_map repo_inv_def)
  show "l \<in> set (repo_list_all iter r) \<longleftrightarrow> map_of (leases r) (ls_ip l) = Some l"
    using assms(1) s by (force simp: repo_list_all_def repo_inv_def map_of_eq_Some_iff)
qed

text \<open>The memory repository implements the interface, for every iteration order.\<close>

lemma repo_lease_repository:
  assumes iter: "\<And>xs. mset (iter xs) = mset xs"
  shows "lease_repository repo_inv repo_find_by_ip repo_insert repo_remove (repo_list_all iter)"
proof
  fix r :: lease_repo and l ip ip'
  assume inv: "repo_inv r"
  show "repo_inv (repo_insert l r)"
    using inv set_update_keyed[of "leases r" "\<lambda>ip l. ls_ip l = ip" "ls_ip l" l]
    by (simp add: repo_inv_def leases_insert distinct_update)
  show "repo_inv (snd (repo_remove ip r))"
    using inv set_delete_keyed[of "leases r" "\<lambda>ip l. ls_ip l = ip" ip]
    by (simp add: repo_inv_def leases_remove distinct_delete)
  show "repo_find_by_ip ip (repo_insert l r) = (if ip = ls_ip l then Some l else repo_find_by_ip ip r)"
    by (simp add: repo_find_by_ip_def leases_insert update_conv')
  show "fst (repo_remove ip r) = (case repo_find_by_ip ip r of Some l \<Rightarrow> Ok l | None \<Rightarrow> Err (LeaseNotFound ip))"
    by (auto simp: repo_remove_def repo_find_by_ip_def Let_def split: option.split)
  show "repo_find_by_ip ip (snd (repo_remove ip' r)) = (if ip = ip' then None else repo_find_by_ip ip r)"
    by (simp add: repo_find_by_ip_def leases_remove delete_conv')
  show "repo_find_by_ip ip r = Some l \<Longrightarrow> ls_ip l = ip"
    using inv by (simp add: repo_find_by_ip_def repo_keyed)
  show "l \<in> set (repo_list_all iter r) \<longleftrightarrow> repo_find_by_ip (ls_ip l) r = Some l"
    using list_all_iter(1)[where iter = iter, OF inv iter] by (simp add: repo_find_by_ip_def)
  show "distinct (map ls_ip (repo_list_all iter r))"
    using list_all_iter(2)[where iter = iter, OF inv iter] by simp
qed

interpretation mem: lease_repository repo_inv repo_find_by_ip repo_insert repo_remove "repo_list_all (\<lambda>xs. xs)"
  by (rule repo_lease_repository) simp

subsection \<open>Pruning\<close>

lemma repo_prune_spec:
  assumes "repo_inv r" and iter: "\<And>xs. mset (iter xs) = mset xs"
  shows "repo_find_by_ip ip (snd (repo_prune_expired iter now r)) =
      (case repo_find_by_ip ip r of Some l \<Rightarrow> if ls_expires l \<le> now \<and> \<not> is_static l then None else Some l | None \<Rightarrow> None)"
    "fst (repo_prune_expired iter now r) = length (filter (\<lambda>(_, l). ls_expires l \<le> now \<and> \<not> is_static l) (leases r))"
    "repo_inv (snd (repo_prune_expired iter now r))"
proof -
  let ?P = "\<lambda>l. ls_expires l \<le> now \<and> \<not> is_static l"
  note lr = repo_lease_repository[of iter, OF iter]
  have s: "set (iter (leases r)) = set (leases r)" using iter by (metis set_mset_mset)
  have "map fst (filter (\<lambda>(ip, l). ?P l) xs) = map ls_ip (filter ?P (map snd xs))"
    if "set xs \<subseteq> set (leases r)" for xs
    using that assms(1) by (induction xs) (auto simp: repo_inv_def)
  from this[of "iter (leases r)"] s have ips: "map fst (filter (\<lambda>(ip, l). ?P l) (iter (leases r))) =
      map ls_ip (filter ?P (repo_list_all iter r))" by (simp add: repo_list_all_def)
  have p: "snd (repo_prune_expired iter now r) =
      fold (\<lambda>ip r. snd (repo_remove ip r)) (map ls_ip (filter ?P (repo_list_all iter r))) r"
    unfolding repo_prune_expired_def Let_def snd_conv ips ..
  show "repo_find_by_ip ip (snd (repo_prune_expired iter now r)) =
      (case repo_find_by_ip ip r of Some l \<Rightarrow> if ?P l then None else Some l | None \<Rightarrow> None)"
    unfolding p by (rule lease_repository.find_remove_filtered[OF lr assms(1)])
  show "repo_inv (snd (repo_prune_expired iter now r))"
    unfolding p by (rule lease_repository.inv_remove_list[OF lr assms(1)])
  show "fst (repo_prune_expired iter now r) = length (filter (\<lambda>(_, l). ?P l) (leases r))"
    unfolding repo_prune_expired_def Let_def fst_conv length_map
    using arg_cong[OF iter[of "leases r"], of "\<lambda>m. size (filter_mset (\<lambda>(ip, l). ?P l) m)"]
    by (simp flip: mset_filter)
qed

subsection \<open>The hardware address index\<close>

definition mac_inv :: "lease_repo \<Rightarrow> bool" where
  "mac_inv r \<longleftrightarrow> (\<forall>mac ip. map_of (mac_index r) mac = Some ip \<longleftrightarrow>
     (\<exists>l. map_of (leases r) ip = Some l \<and> ls_mac l = Some mac))"

text \<open>
  The insertions that keep the index right: the address is new or keeps its hardware address, and no
  other address has the hardware address.
\<close>

definition mac_fresh :: "lease \<Rightarrow> lease_repo \<Rightarrow> bool" where
  "mac_fresh l r \<longleftrightarrow> (\<forall>l'. map_of (leases r) (ls_ip l) = Some l' \<longrightarrow> ls_mac l' = None \<or> ls_mac l' = ls_mac l) \<and>
     (\<forall>ip l'. map_of (leases r) ip = Some l' \<longrightarrow> ls_mac l' \<noteq> None \<longrightarrow> ls_mac l' = ls_mac l \<longrightarrow> ip = ls_ip l)"

lemma mac_inv_insert:
  assumes "mac_inv r" and "mac_fresh l r"
  shows "mac_inv (repo_insert l r)"
proof -
  have lv: "map_of (leases (repo_insert l r)) = (map_of (leases r))(ls_ip l \<mapsto> l)"
    by (simp add: leases_insert update_conv')
  have ix: "map_of (mac_index (repo_insert l r)) =
      (case ls_mac l of Some m \<Rightarrow> (map_of (mac_index r))(m \<mapsto> ls_ip l) | None \<Rightarrow> map_of (mac_index r))"
    by (auto simp: repo_insert_def Let_def update_conv' split: option.split)
  show ?thesis
    using assms unfolding mac_inv_def mac_fresh_def lv ix by (auto split: option.split)
qed

lemma mac_inv_remove:
  assumes "mac_inv r"
  shows "mac_inv (snd (repo_remove ip r))"
proof (cases "map_of (leases r) ip")
  case None
  then show ?thesis using assms by (simp add: repo_remove_def)
next
  case (Some l)
  have lv: "map_of (leases (snd (repo_remove ip r))) = (map_of (leases r))(ip := None)"
    by (simp add: leases_remove delete_conv')
  have ix: "map_of (mac_index (snd (repo_remove ip r))) =
      (case ls_mac l of Some m \<Rightarrow> (map_of (mac_index r))(m := None) | None \<Rightarrow> map_of (mac_index r))"
    using Some by (auto simp: repo_remove_def Let_def delete_conv' split: option.split)
  have at_ip: "map_of (mac_index r) mac = Some ip \<longleftrightarrow> ls_mac l = Some mac" for mac
    using assms Some unfolding mac_inv_def by auto
  show ?thesis
  proof (cases "ls_mac l")
    case None
    with at_ip assms show ?thesis unfolding mac_inv_def lv ix by auto
  next
    case m: (Some m)
    then have "map_of (mac_index r) m = Some ip" using at_ip by simp
    then have unique: "ip' = ip" if "map_of (leases r) ip' = Some l'" "ls_mac l' = Some m" for ip' l'
      using that assms unfolding mac_inv_def by (metis option.inject)
    show ?thesis using m at_ip assms unique unfolding mac_inv_def lv ix by auto
  qed
qed

lemma find_by_mac_iff:
  assumes "mac_inv r" and "repo_inv r"
  shows "repo_find_by_mac mac r = Some l \<longleftrightarrow> repo_find_by_ip (ls_ip l) r = Some l \<and> ls_mac l = Some mac"
proof
  assume "repo_find_by_mac mac r = Some l"
  then obtain ip where ip: "map_of (mac_index r) mac = Some ip" "map_of (leases r) ip = Some l"
    by (auto simp: repo_find_by_mac_def split: option.splits)
  moreover have "ls_mac l = Some mac" using ip assms(1) by (auto simp: mac_inv_def)
  ultimately show "repo_find_by_ip (ls_ip l) r = Some l \<and> ls_mac l = Some mac"
    using repo_keyed[OF assms(2) ip(2)] by (simp add: repo_find_by_ip_def)
next
  assume l: "repo_find_by_ip (ls_ip l) r = Some l \<and> ls_mac l = Some mac"
  then have "map_of (mac_index r) mac = Some (ls_ip l)"
    using assms(1) by (auto simp: mac_inv_def repo_find_by_ip_def)
  with l show "repo_find_by_mac mac r = Some l" by (simp add: repo_find_by_mac_def repo_find_by_ip_def)
qed

subsection \<open>Host names\<close>

lemma strip_loop_take:
  "length result < max_len \<Longrightarrow> strip_loop max_len bs result = take max_len (result @ filter hostname_char bs)"
proof (induction bs arbitrary: result)
  case (Cons b bs)
  show ?case
  proof (cases "max_len \<le> length (if hostname_char b then result @ [b] else result)")
    case True
    with Cons.prems have "hostname_char b" "max_len = length (result @ [b])" by (auto split: if_splits)
    then show ?thesis by (simp add: Let_def)
  next
    case False
    with Cons.IH[of "if hostname_char b then result @ [b] else result"] show ?thesis
      by (auto simp: Let_def take_Cons' split: if_splits)
  qed
qed simp

lemma trim_matches_props:
  "set (trim_matches f s) \<subseteq> set s" "length (trim_matches f s) \<le> length s"
  "trim_matches f s \<noteq> [] \<Longrightarrow> \<not> f (hd (trim_matches f s)) \<and> \<not> f (last (trim_matches f s))"
proof -
  show "set (trim_matches f s) \<subseteq> set s" unfolding trim_matches_def by (auto dest!: set_dropWhileD)
  show "length (trim_matches f s) \<le> length s"
    unfolding trim_matches_def by (simp add: le_trans[OF length_dropWhile_le])
  assume ne: "trim_matches f s \<noteq> []"
  let ?t = "dropWhile f s"
  obtain u where u: "?t = trim_matches f s @ u"
    unfolding trim_matches_def by (metis rev_append rev_rev_ident takeWhile_dropWhile_id)
  with ne have "hd (trim_matches f s) = hd ?t" "?t \<noteq> []" by auto
  moreover from this have "\<not> f (hd ?t)" using hd_dropWhile by blast
  moreover have "\<not> f (last (trim_matches f s))"
    using ne hd_dropWhile[of f "rev ?t"] unfolding trim_matches_def by (simp add: last_rev)
  ultimately show "\<not> f (hd (trim_matches f s)) \<and> \<not> f (last (trim_matches f s))" by simp
qed


subsection \<open>Properties\<close>

text \<open>
  C8: the memory repository keeps one lease per address: a lease is found after it was inserted and no longer
  after it was removed, removing an unknown address is an error that changes nothing, the listing has exactly
  the leases that lookups find, each address once, and pruning removes exactly the leases that have
  expired and are not static and returns their number.
\<close>

theorem repository_spec:
  assumes "repo_inv r" and "\<forall>xs. mset (iter xs) = mset xs"
  shows "repo_find_by_ip ip (repo_insert l r) = (if ip = ls_ip l then Some l else repo_find_by_ip ip r) \<and>
    repo_find_by_ip ip (snd (repo_remove ip' r)) = (if ip = ip' then None else repo_find_by_ip ip r) \<and>
    (repo_find_by_ip ip r = None \<longrightarrow> repo_remove ip r = (Err (LeaseNotFound ip), r)) \<and>
    (x \<in> set (repo_list_all iter r) \<longleftrightarrow> repo_find_by_ip (ls_ip x) r = Some x) \<and> distinct (map ls_ip (repo_list_all iter r)) \<and>
    repo_find_by_ip ip (snd (repo_prune_expired iter now r)) =
      (case repo_find_by_ip ip r of
         Some x \<Rightarrow> if ls_expires x \<le> now \<and> \<not> is_static x then None else Some x | None \<Rightarrow> None) \<and>
    fst (repo_prune_expired iter now r) = length (filter (\<lambda>(_, x). ls_expires x \<le> now \<and> \<not> is_static x) (leases r)) \<and>
    repo_inv (repo_insert l r) \<and> repo_inv (snd (repo_remove ip r)) \<and> repo_inv (snd (repo_prune_expired iter now r))"
proof -
  have "repo_find_by_ip ip r = None \<longrightarrow> repo_remove ip r = (Err (LeaseNotFound ip), r)"
    by (simp add: repo_remove_def repo_find_by_ip_def)
  with mem.find_insert[OF assms(1)] mem.find_remove[OF assms(1)] mem.inv_insert[OF assms(1)] mem.inv_remove[OF assms(1)]
    repo_prune_spec[where iter = iter, OF assms(1) spec[OF assms(2)]] list_all_iter[where iter = iter, OF assms(1) spec[OF assms(2)]]
  show ?thesis unfolding repo_find_by_ip_def by blast
qed

definition example_lease :: "u8 \<Rightarrow> u8 \<Rightarrow> nat \<Rightarrow> lease" where
  "example_lease ip mac expires =
     (lease_new expires (V4 [10, 0, 0, ip]) (Some \<lparr>mac_octets = [2, 0, 0, 0, 0, mac]\<rparr>) None None [] 0)"

theorem repository_spec_witness:
  "repo_find_by_ip (V4 [10, 0, 0, 1]) (snd (repo_prune_expired rev 7 (repo_insert (example_lease 1 1 5) repo_new))) = None"
proof -
  have inv: "repo_inv (repo_insert (example_lease 1 1 5) repo_new)" by (rule mem.inv_insert) simp
  have "\<not> is_static (example_lease 1 1 5)"
    by (simp add: is_static_def example_lease_def lease_new_def LF_STATIC_def flags_contain_def)
  with repository_spec[OF inv, of rev "V4 [10, 0, 0, 1]" _ _ _ 7] show ?thesis
    by (simp add: repo_find_by_ip_def leases_insert repo_new_def example_lease_def lease_new_def)
qed

text \<open>
  As long as no address changes its hardware address and no hardware address has two leases, the index
  agrees with the leases: \<open>find_by_mac\<close> finds exactly the stored lease with that hardware address; such
  insertions and all removals keep the index right.
\<close>

theorem mac_lookup_correct:
  assumes "repo_inv r" and "mac_inv r"
  shows "(repo_find_by_mac mac r = Some l \<longleftrightarrow> repo_find_by_ip (ls_ip l) r = Some l \<and> ls_mac l = Some mac) \<and>
    (mac_fresh l r \<longrightarrow> mac_inv (repo_insert l r)) \<and> mac_inv (snd (repo_remove ip r))"
  using find_by_mac_iff[OF assms(2,1)] mac_inv_insert[OF assms(2)] mac_inv_remove[OF assms(2)] by blast

theorem mac_lookup_correct_witness:
  "mac_inv (repo_insert (example_lease 1 1 5) repo_new)"
proof -
  have "mac_inv repo_new" "mac_fresh (example_lease 1 1 5) repo_new"
    by (simp_all add: mac_inv_def mac_fresh_def repo_new_def)
  with mac_lookup_correct[OF repo_inv_new] show ?thesis by blast
qed

text \<open>
  Without that discipline the index goes wrong: when an address passes from one hardware address to
  another, the first one still finds the lease of the second; and when a client moved to a new address
  and its old lease is removed, the client is not found although its new lease is stored.
\<close>

theorem mac_index_stale:
  "repo_find_by_mac \<lparr>mac_octets = [2, 0, 0, 0, 0, 1]\<rparr>
     (repo_insert (example_lease 1 2 5) (repo_insert (example_lease 1 1 5) repo_new)) = Some (example_lease 1 2 5) \<and>
   repo_find_by_mac \<lparr>mac_octets = [2, 0, 0, 0, 0, 1]\<rparr>
     (snd (repo_remove (V4 [10, 0, 0, 1]) (repo_insert (example_lease 2 1 5) (repo_insert (example_lease 1 1 5) repo_new)))) = None \<and>
   repo_find_by_ip (V4 [10, 0, 0, 2])
     (snd (repo_remove (V4 [10, 0, 0, 1]) (repo_insert (example_lease 2 1 5) (repo_insert (example_lease 1 1 5) repo_new)))) =
     Some (example_lease 2 1 5)"
  by (simp add: repo_find_by_mac_def repo_find_by_ip_def repo_insert_def repo_remove_def repo_new_def
      example_lease_def lease_new_def Let_def)

text \<open>
  \<open>strip_hostname\<close> returns at most the given number of characters, only letters, digits, hyphens and
  dots, and neither starts nor ends with a hyphen or a dot.
\<close>

theorem strip_hostname_safe:
  assumes "0 < max_len"
  shows "length (strip_hostname h max_len) \<le> max_len \<and> (\<forall>b\<in>set (strip_hostname h max_len). hostname_char b) \<and>
    (strip_hostname h max_len \<noteq> [] \<longrightarrow>
       hd (strip_hostname h max_len) \<notin> {hyphen, dot} \<and> last (strip_hostname h max_len) \<notin> {hyphen, dot})"
proof -
  let ?f = "\<lambda>c. c = hyphen \<or> c = dot" and ?s = "take max_len (filter hostname_char h)"
  have s: "strip_hostname h max_len = trim_matches ?f ?s"
    using strip_loop_take[of "[]" max_len h] assms by (simp add: strip_hostname_def)
  have "set ?s \<subseteq> {b. hostname_char b}" using set_take_subset[of max_len "filter hostname_char h"] by auto
  with trim_matches_props[of ?f ?s] show ?thesis unfolding s by auto
qed

theorem strip_hostname_safe_witness:
  "length (strip_hostname [0x2D, 0x61, 0x21, 0x62, 0x2E] 3) \<le> 3"
  using strip_hostname_safe[of 3] by simp

end
