(* ===== verification/Lease_Database.thy ===== *)
theory Lease_Database
  imports Dhcp_Lease
begin

text \<open>
  The lease file, \<open>src/dhcp/lease/database.rs\<close>: the text that \<open>write_leases\<close> produces and the parser of
  \<open>read_leases\<close>, line by line.  \<open>parse_ip\<close> and \<open>show_ip\<close> are \<open>IpAddr::from_str\<close> and its
  \<open>Display\<close>.  The main result is that leases written to the file are read back.
\<close>

abbreviation words :: "bytes list \<Rightarrow> bytes" where
  "words \<equiv> join 32"

definition star :: bytes where "star = [0x2A]"

subsection \<open>Hex strings\<close>

definition is_continuation :: "u8 \<Rightarrow> bool" where
  "is_continuation b \<longleftrightarrow> 0x80 \<le> b \<and> b \<le> 0xBF"

text \<open>\<open>u8::from_str_radix\<close> with radix 16 on two bytes, which may start with a plus sign.\<close>

definition hex_byte :: "u8 \<Rightarrow> u8 \<Rightarrow> u8 option" where
  "hex_byte a b =
     (if a = 0x2B \<and> is_ascii_hexdigit b then Some (hex_value b)
      else if is_ascii_hexdigit a \<and> is_ascii_hexdigit b then Some (hex_value a * 16 + hex_value b)
      else None)"

text \<open>The loop over pairs of bytes; slicing inside a multi-byte character panics.\<close>

fun hex_loop :: "bytes \<Rightarrow> bytes \<Rightarrow> (bytes, reason) outcome" where
  "hex_loop (a # b # r) acc =
     (if r \<noteq> [] \<and> is_continuation (hd r) then Panic
      else case hex_byte a b of Some v \<Rightarrow> hex_loop r (acc @ [v]) | None \<Rightarrow> Err ''Invalid hex byte'')"
| "hex_loop _ acc = Ok acc"

definition parse_hex_string :: "bytes \<Rightarrow> (bytes, reason) outcome" where
  "parse_hex_string hex_str =
     (let cleaned = filter (\<lambda>b. b \<noteq> 0x3A) hex_str in
      if length cleaned mod 2 \<noteq> 0 then Err ''Hex string must have even number of characters''
      else hex_loop cleaned [])"

definition hex_colon :: "bytes \<Rightarrow> bytes" where
  "hex_colon bs = join 0x3A (map (\<lambda>o1. [hex_lower (o1 div 16), hex_lower (o1 mod 16)]) bs)"

subsection \<open>Reading\<close>

record lease_reader =
  rd_leases :: "lease list"
  rd_duid :: "bytes option"

fun update_first :: "('a \<Rightarrow> bool) \<Rightarrow> ('a \<Rightarrow> 'a) \<Rightarrow> 'a list \<Rightarrow> 'a list" where
  "update_first p f [] = []"
| "update_first p f (x # xs) = (if p x then f x # xs else x # update_first p f xs)"

abbreviation U64_MAX :: nat where "U64_MAX \<equiv> 18446744073709551615"
abbreviation U32_MAX :: nat where "U32_MAX \<equiv> 4294967295"

text \<open>The fields before and after the address: hardware address, IAID and flags.\<close>

definition lease_identity :: "ip_addr \<Rightarrow> bytes \<Rightarrow> (mac_address option \<times> u32 option \<times> lease_flags, reason) outcome" where
  "lease_identity ip s =
     (case ip of
        V6 _ \<Rightarrow>
          if s \<noteq> [] \<and> hd s = 0x54 then
            (case parse_dec U32_MAX (tl s) of
               Some n \<Rightarrow> Ok (None, Some (of_nat n), LF_TA)
             | None \<Rightarrow> Err ''Invalid IAID in TA lease'')
          else (case parse_dec U32_MAX s of
               Some n \<Rightarrow> Ok (None, Some (of_nat n), LF_NA)
             | None \<Rightarrow> Err ''Invalid IAID in NA lease'')
      | V4 _ \<Rightarrow>
          if s = star then Ok (None, None, 0)
          else rbind (map_err (\<lambda>_. ''Invalid MAC address'') (mac_parse s)) (\<lambda>mac. Ok (Some mac, None, 0)))"

text \<open>\<open>UNIX_EPOCH + Duration\<close> panics when the seconds leave the range of a signed 64-bit integer.\<close>

definition parse_standard_lease :: "(bytes \<Rightarrow> ip_addr option) \<Rightarrow> nat \<Rightarrow> bytes list \<Rightarrow> lease_reader
    \<Rightarrow> (lease_reader, reason) outcome" where
  "parse_standard_lease parse_ip now parts rd =
     (case parse_dec U64_MAX (parts ! 0) of
        None \<Rightarrow> Err ''Invalid expiration time''
      | Some ts \<Rightarrow>
          if 2 ^ 63 \<le> ts then Panic
          else let expires = secs ts in
          if expires < now then Ok rd
          else (case parse_ip (parts ! 2) of
                  None \<Rightarrow> Err ''Invalid IP address''
                | Some ip \<Rightarrow>
                    rbind (lease_identity ip (parts ! 1)) (\<lambda>(mac, iaid, fs).
                    rbind (if 4 < length parts \<and> parts ! 4 \<noteq> star
                           then rbind (parse_hex_string (parts ! 4)) (\<lambda>c. Ok (Some c)) else Ok None) (\<lambda>client_id.
                      Ok (rd\<lparr>rd_leases := rd_leases rd @ [
                        \<lparr>ls_ip = ip, ls_mac = mac,
                         ls_hostname = (if 3 < length parts \<and> parts ! 3 \<noteq> star then Some (parts ! 3) else None),
                         ls_client_id = client_id, ls_expires = expires, ls_iaid = iaid, ls_flags = fs,
                         ls_interface = [], ls_fqdn = None, ls_vendorclass = None, ls_agent_id = None,
                         ls_slaac_addresses = None\<rparr>]\<rparr>)))))"

definition parse_lease_line :: "(bytes \<Rightarrow> ip_addr option) \<Rightarrow> nat \<Rightarrow> bytes \<Rightarrow> lease_reader
    \<Rightarrow> (lease_reader, reason) outcome" where
  "parse_lease_line parse_ip now line rd =
     (let parts = split_whitespace line in
      if parts = [] then Ok rd
      else if parts ! 0 = ascii ''duid'' then
        if length parts < 2 then Err ''duid line missing DUID value''
        else rbind (parse_hex_string (parts ! 1)) (\<lambda>d. Ok (rd\<lparr>rd_duid := Some d\<rparr>))
      else if parts ! 0 = ascii ''agent-info'' then
        if length parts < 3 then Err ''agent-info line requires IP and agent ID''
        else rbind (case parse_ip (parts ! 1) of Some ip \<Rightarrow> Ok ip | None \<Rightarrow> Err ''Invalid IP in agent-info'') (\<lambda>ip.
          rbind (parse_hex_string (parts ! 2)) (\<lambda>agent_id.
            Ok (rd\<lparr>rd_leases := update_first (\<lambda>l. ls_ip l = ip) (\<lambda>l. l\<lparr>ls_agent_id := Some agent_id\<rparr>) (rd_leases rd)\<rparr>)))
      else if parts ! 0 = ascii ''vendorclass'' then
        if length parts < 3 then Err ''vendorclass line requires IP and class ID''
        else rbind (case parse_ip (parts ! 1) of Some ip \<Rightarrow> Ok ip | None \<Rightarrow> Err ''Invalid IP in vendorclass'') (\<lambda>ip.
          rbind (parse_hex_string (parts ! 2)) (\<lambda>vendor_class.
            Ok (rd\<lparr>rd_leases := update_first (\<lambda>l. ls_ip l = ip) (\<lambda>l. l\<lparr>ls_vendorclass := Some vendor_class\<rparr>) (rd_leases rd)\<rparr>)))
      else if length parts < 4 then Err ''Lease line requires at least 4 fields''
      else parse_standard_lease parse_ip now parts rd)"

text \<open>
  The loop over the lines.  A line that is not UTF-8 is a read error and is skipped like a line that
  does not parse; blank lines and comments are those without a word and those whose first word starts
  with a hash sign.
\<close>

fun read_loop :: "(bytes \<Rightarrow> ip_addr option) \<Rightarrow> nat \<Rightarrow> bytes list \<Rightarrow> lease_reader \<Rightarrow> (lease list, dhcp_error) outcome" where
  "read_loop parse_ip now [] rd = Ok (rd_leases rd)"
| "read_loop parse_ip now (line # lines) rd =
     (if \<not> valid_utf8 line then read_loop parse_ip now lines rd
      else if (case split_whitespace line of [] \<Rightarrow> True | w # _ \<Rightarrow> hd w = 0x23) then read_loop parse_ip now lines rd
      else case parse_lease_line parse_ip now line rd of
          Ok rd' \<Rightarrow> read_loop parse_ip now lines rd'
        | Err _ \<Rightarrow> read_loop parse_ip now lines rd
        | Panic \<Rightarrow> Panic)"

text \<open>The lines of a text: each ends with a line feed, before which one carriage return is dropped.\<close>

definition strip_cr :: "bytes \<Rightarrow> bytes" where
  "strip_cr l = (if l \<noteq> [] \<and> last l = 13 then butlast l else l)"

definition text_lines :: "bytes \<Rightarrow> bytes list" where
  "text_lines s = (let ls = split_on 10 s in
     map strip_cr (butlast ls) @ (if last ls = [] then [] else [last ls]))"

text \<open>\<open>None\<close> is a file that does not exist.\<close>

definition read_leases :: "(bytes \<Rightarrow> ip_addr option) \<Rightarrow> nat \<Rightarrow> bytes option \<Rightarrow> (lease list, dhcp_error) outcome" where
  "read_leases parse_ip now file =
     (case file of
        None \<Rightarrow> Ok []
      | Some s \<Rightarrow> read_loop parse_ip now (text_lines s) \<lparr>rd_leases = [], rd_duid = None\<rparr>)"

subsection \<open>Writing\<close>

definition is_ipv4 :: "lease \<Rightarrow> bool" where
  "is_ipv4 l = (case ls_ip l of V4 _ \<Rightarrow> True | V6 _ \<Rightarrow> False)"

definition lease_line :: "(ip_addr \<Rightarrow> bytes) \<Rightarrow> lease \<Rightarrow> bytes" where
  "lease_line show_ip l =
     (let expires_secs = show_dec (ls_expires l div secs 1);
          hostname = (case ls_hostname l of Some h \<Rightarrow> h | None \<Rightarrow> star);
          client_id_str = (case ls_client_id l of Some c \<Rightarrow> hex_colon c | None \<Rightarrow> star);
          ident = (if is_ipv4 l then (case ls_mac l of Some m \<Rightarrow> mac_display m | None \<Rightarrow> star)
                   else (case ls_iaid l of
                           Some i \<Rightarrow> (if flags_contain (ls_flags l) LF_TA then [0x54] else []) @ show_dec (unat i)
                         | None \<Rightarrow> show_dec 0)) in
      words [expires_secs, ident, show_ip (ls_ip l), hostname, client_id_str])"

definition duid_line :: "bytes \<Rightarrow> bytes" where
  "duid_line duid = words [ascii ''duid'', hex_colon duid]"

definition agent_info_line :: "(ip_addr \<Rightarrow> bytes) \<Rightarrow> ip_addr \<Rightarrow> bytes \<Rightarrow> bytes" where
  "agent_info_line show_ip ip agent_id = words [ascii ''agent-info'', show_ip ip, hex_colon agent_id]"

definition vendorclass_line :: "(ip_addr \<Rightarrow> bytes) \<Rightarrow> ip_addr \<Rightarrow> bytes \<Rightarrow> bytes" where
  "vendorclass_line show_ip ip vendor_class = words [ascii ''vendorclass'', show_ip ip, hex_colon vendor_class]"

definition extra_lines :: "(ip_addr \<Rightarrow> bytes) \<Rightarrow> lease \<Rightarrow> bytes list" where
  "extra_lines show_ip l =
     (case ls_agent_id l of Some a \<Rightarrow> [agent_info_line show_ip (ls_ip l) a] | None \<Rightarrow> []) @
     (case ls_vendorclass l of Some v \<Rightarrow> [vendorclass_line show_ip (ls_ip l) v] | None \<Rightarrow> [])"

definition lease_file_lines :: "(ip_addr \<Rightarrow> bytes) \<Rightarrow> lease list \<Rightarrow> bytes option \<Rightarrow> bytes list" where
  "lease_file_lines show_ip ls server_duid =
     map (lease_line show_ip) (filter is_ipv4 ls) @
     (if list_ex (\<lambda>l. \<not> is_ipv4 l) ls then
        (case server_duid of Some d \<Rightarrow> [duid_line d] | None \<Rightarrow> []) @
        map (lease_line show_ip) (filter (\<lambda>l. \<not> is_ipv4 l) ls)
      else []) @
     concat (map (extra_lines show_ip) ls)"

text \<open>The contents of the temporary file that is renamed to the lease file.\<close>

definition write_leases :: "(ip_addr \<Rightarrow> bytes) \<Rightarrow> lease list \<Rightarrow> bytes option \<Rightarrow> bytes" where
  "write_leases show_ip ls server_duid = concat (map (\<lambda>l. l @ [10]) (lease_file_lines show_ip ls server_duid))"

subsection \<open>Lines of words\<close>

lemma split_words: "ws \<noteq> [] \<Longrightarrow> list_all graphic_word ws \<Longrightarrow> split_whitespace (words ws) = ws"
proof (induction ws rule: list_nonempty_induct)
  case (cons w ws)
  then show ?case by (simp add: join_Cons split_whitespace_cons)
qed (simp add: split_whitespace_word)

definition text_line :: "bytes \<Rightarrow> bool" where
  "text_line l \<longleftrightarrow> l \<noteq> [] \<and> (\<forall>b\<in>set l. 32 \<le> b \<and> b \<le> 0x7E)"

lemma graphic_text: "is_ascii_graphic b \<Longrightarrow> 32 \<le> b \<and> b \<le> 0x7E"
  by (auto simp: is_ascii_graphic_def word_le_nat_alt)

lemma words_text_line: "ws \<noteq> [] \<Longrightarrow> list_all graphic_word ws \<Longrightarrow> text_line (words ws)"
proof (induction ws rule: list_nonempty_induct)
  case (cons w ws)
  then show ?case using graphic_text by (auto simp: join_Cons text_line_def graphic_word_def)
next
  case (single w)
  then show ?case using graphic_text by (auto simp: text_line_def graphic_word_def)
qed

lemma text_line_plain:
  assumes "text_line l"
  shows "10 \<notin> set l" "strip_cr l = l" "valid_utf8 l"
proof -
  have b: "32 \<le> b \<and> b \<le> 0x7E" if "b \<in> set l" for b using assms that by (simp add: text_line_def)
  show "10 \<notin> set l" using b[of 10] by auto
  show "strip_cr l = l" using b[of 13] last_in_set[of l] by (fastforce simp: strip_cr_def)
  have "is_ascii l" unfolding is_ascii_def list_all_iff
  proof
    fix x assume "x \<in> set l"
    from b[OF this] show "x < 0x80" by (simp add: word_le_nat_alt word_less_nat_alt)
  qed
  then show "valid_utf8 l" by (rule valid_utf8_ascii)
qed

lemma split_lines:
  "\<forall>l\<in>set ls. 10 \<notin> set l \<Longrightarrow> split_on 10 (concat (map (\<lambda>l. l @ [10]) ls)) = ls @ [[]]"
  by (induction ls) (simp_all add: split_on_append)

lemma text_lines_concat:
  assumes "\<forall>l\<in>set ls. text_line l"
  shows "text_lines (concat (map (\<lambda>l. l @ [10]) ls)) = ls"
proof -
  have "split_on 10 (concat (map (\<lambda>l. l @ [10]) ls)) = ls @ [[]]"
    using assms by (intro split_lines) (auto dest: text_line_plain)
  moreover have "map strip_cr ls = ls" using assms by (simp add: text_line_plain map_idI)
  ultimately show ?thesis by (simp add: text_lines_def Let_def)
qed

lemma text_lines_single: "text_line l \<Longrightarrow> text_lines l = [l]"
  using text_line_plain(1)[of l] by (simp add: text_lines_def split_on_free text_line_def)

declare read_loop.simps(2) [simp del]

lemma read_words:
  assumes "ws \<noteq> []" "list_all graphic_word ws" "hd (hd ws) \<noteq> 0x23"
    and "parse_lease_line parse_ip now (words ws) rd = Ok rd'"
  shows "read_loop parse_ip now (words ws # lines) rd = read_loop parse_ip now lines rd'"
  using assms text_line_plain(3)[OF words_text_line[OF assms(1,2)]] split_words[OF assms(1,2)]
  by (cases ws) (simp_all add: read_loop.simps(2))

subsection \<open>Hex strings are read back\<close>

lemma hexdigit_facts:
  "is_ascii_hexdigit b \<Longrightarrow> is_ascii_graphic b \<and> b \<noteq> 0x2B \<and> b \<noteq> 0x3A \<and> b \<noteq> 0x2A \<and> \<not> is_continuation b"
  by (auto simp: is_ascii_hexdigit_def is_ascii_graphic_def is_continuation_def word_le_nat_alt)

lemmas nibble_digit = hex_lower_digit[OF byte_nibbles(1)] hex_lower_digit[OF byte_nibbles(2)]

lemma hex_loop_pairs:
  "hex_loop (concat (map (\<lambda>o1. [hex_lower (o1 div 16), hex_lower (o1 mod 16)]) bs)) acc = Ok (acc @ bs)"
proof (induction bs arbitrary: acc)
  case (Cons b bs)
  let ?r = "concat (map (\<lambda>o1. [hex_lower (o1 div 16), hex_lower (o1 mod 16)]) bs)"
  have "\<not> (?r \<noteq> [] \<and> is_continuation (hd ?r))"
    using hexdigit_facts[OF nibble_digit(1)] by (cases bs) simp_all
  moreover have "hex_byte (hex_lower (b div 16)) (hex_lower (b mod 16)) = Some b"
    using nibble_digit[of b] hexdigit_facts[OF nibble_digit(1)] by (simp add: hex_byte_def hex_value_lower byte_nibbles)
  ultimately show ?case using Cons by simp
qed simp

lemma parse_hex_colon: "parse_hex_string (hex_colon bs) = Ok bs"
proof -
  let ?c = "concat (map (\<lambda>o1. [hex_lower (o1 div 16), hex_lower (o1 mod 16)]) bs)"
  have "hex_lower (b div 16) \<noteq> 0x3A" "hex_lower (b mod 16) \<noteq> 0x3A" for b :: u8
    using nibble_digit[of b] hexdigit_facts by blast+
  then have "filter (\<lambda>b. b \<noteq> 0x3A) (hex_colon bs) = ?c" by (simp add: hex_colon_def filter_join comp_def)
  moreover have "length ?c = 2 * length bs" by (induction bs) simp_all
  ultimately show ?thesis using hex_loop_pairs[of bs "[]"] by (simp add: parse_hex_string_def Let_def)
qed

lemma join_graphic: "is_ascii_graphic c \<Longrightarrow> list_all graphic_word ls \<Longrightarrow> ls \<noteq> [] \<Longrightarrow> graphic_word (join c ls)"
  by (induction ls rule: join.induct) (auto simp: graphic_word_def)

lemma hex_colon_word: "bs \<noteq> [] \<Longrightarrow> graphic_word (hex_colon bs) \<and> hex_colon bs \<noteq> star"
proof -
  assume "bs \<noteq> []"
  have "list_all graphic_word (map (\<lambda>o1 :: u8. [hex_lower (o1 div 16), hex_lower (o1 mod 16)]) bs)"
    using hexdigit_facts nibble_digit by (simp add: list_all_iff graphic_word_def)
  moreover have "is_ascii_graphic 0x3A" by (simp add: is_ascii_graphic_def)
  moreover have "hd (hex_colon bs) \<noteq> 0x2A"
    using \<open>bs \<noteq> []\<close> hexdigit_facts[OF nibble_digit(1)] by (cases bs; cases "tl bs") (simp_all add: hex_colon_def)
  ultimately show ?thesis using \<open>bs \<noteq> []\<close> by (auto simp: hex_colon_def star_def intro: join_graphic)
qed

subsection \<open>Leases are read back\<close>

text \<open>
  What the file keeps of a lease: the expiry to the second, the hardware address of an IPv4 lease, the
  IAID (0 if there is none) and the kind of an IPv6 lease.  Interface, fully qualified name and the
  other flags are lost.
\<close>

definition bare :: "lease \<Rightarrow> lease" where
  "bare l = \<lparr>ls_ip = ls_ip l, ls_mac = (if is_ipv4 l then ls_mac l else None), ls_hostname = ls_hostname l,
     ls_client_id = ls_client_id l, ls_expires = secs (ls_expires l div secs 1),
     ls_iaid = (if is_ipv4 l then None else Some (case ls_iaid l of Some i \<Rightarrow> i | None \<Rightarrow> 0)),
     ls_flags = (if is_ipv4 l then 0 else if ls_iaid l \<noteq> None \<and> flags_contain (ls_flags l) LF_TA then LF_TA else LF_NA),
     ls_interface = [], ls_fqdn = None, ls_vendorclass = None, ls_agent_id = None, ls_slaac_addresses = None\<rparr>"

definition reloaded :: "lease \<Rightarrow> lease" where
  "reloaded l = (bare l)\<lparr>ls_vendorclass := ls_vendorclass l, ls_agent_id := ls_agent_id l\<rparr>"

text \<open>Which leases survive: not expired, representable, no empty field, a hostname that is one word.\<close>

definition storable :: "nat \<Rightarrow> lease \<Rightarrow> bool" where
  "storable now l \<longleftrightarrow>
     now \<le> secs (ls_expires l div secs 1) \<and> ls_expires l div secs 1 < 2 ^ 63 \<and> wf_ip (ls_ip l) \<and>
     (\<forall>m. ls_mac l = Some m \<longrightarrow> wf_mac m) \<and>
     (\<forall>h. ls_hostname l = Some h \<longrightarrow> graphic_word h \<and> h \<noteq> star) \<and>
     ls_client_id l \<noteq> Some [] \<and> ls_agent_id l \<noteq> Some [] \<and> ls_vendorclass l \<noteq> Some []"

text \<open>The text form of addresses: printable, without spaces, and parsed back.\<close>

definition ip_text :: "(bytes \<Rightarrow> ip_addr option) \<Rightarrow> (ip_addr \<Rightarrow> bytes) \<Rightarrow> bool" where
  "ip_text parse_ip show_ip \<longleftrightarrow> (\<forall>ip. wf_ip ip \<longrightarrow> graphic_word (show_ip ip) \<and> parse_ip (show_ip ip) = Some ip)"

definition lease_words :: "(ip_addr \<Rightarrow> bytes) \<Rightarrow> lease \<Rightarrow> bytes list" where
  "lease_words show_ip l =
     [show_dec (ls_expires l div secs 1),
      if is_ipv4 l then (case ls_mac l of Some m \<Rightarrow> mac_display m | None \<Rightarrow> star)
      else (case ls_iaid l of
              Some i \<Rightarrow> (if flags_contain (ls_flags l) LF_TA then [0x54] else []) @ show_dec (unat i)
            | None \<Rightarrow> show_dec 0),
      show_ip (ls_ip l), case ls_hostname l of Some h \<Rightarrow> h | None \<Rightarrow> star,
      case ls_client_id l of Some c \<Rightarrow> hex_colon c | None \<Rightarrow> star]"

lemma lease_line_words: "lease_line show_ip l = words (lease_words show_ip l)"
  by (simp add: lease_line_def lease_words_def Let_def)

lemma star_word: "graphic_word star"
  by (simp add: graphic_word_def star_def is_ascii_graphic_def)

lemma mac_display_word: "wf_mac m \<Longrightarrow> graphic_word (mac_display m) \<and> mac_display m \<noteq> star"
  using hex_colon_word[of "mac_octets m"] unfolding mac_display_def hex_colon_def wf_mac_def by force

lemma ta_word: "graphic_word (0x54 # show_dec n)"
  using show_dec_word[of n] by (simp add: graphic_word_def is_ascii_graphic_def)

lemma lease_words_graphic:
  assumes "ip_text parse_ip show_ip" "storable now l"
  shows "list_all graphic_word (lease_words show_ip l)"
  using assms mac_display_word hex_colon_word
  by (auto simp: lease_words_def ip_text_def storable_def star_word show_dec_word ta_word split: option.splits)

lemma show_dec_head: "hd (show_dec n) \<noteq> 0x23"
  using show_dec_digits[of n] digit_graphic by (cases "show_dec n"; auto)

lemma show_dec_keyword: "show_dec n \<noteq> ascii ''duid''" "show_dec n \<noteq> ascii ''agent-info''" "show_dec n \<noteq> ascii ''vendorclass''"
  using show_dec_digits[of n] by (auto simp: ascii_def is_digit_def)

lemma identity_v4: "is_ipv4 l \<Longrightarrow> storable now l \<Longrightarrow> lease_identity (ls_ip l) (lease_words show_ip l ! 1) = Ok (ls_mac l, None, 0)"
  using mac_display_word mac_parse_display_lemma
  by (cases "ls_ip l"; cases "ls_mac l")
    (auto simp: is_ipv4_def lease_identity_def lease_words_def storable_def)

lemma unat_u32_less: "unat (i :: u32) < 4294967296"
  using unsigned_less[of i] by simp

lemma identity_v6:
  assumes "\<not> is_ipv4 l"
  shows "lease_identity (ls_ip l) (lease_words show_ip l ! 1) = Ok (None, ls_iaid (bare l), ls_flags (bare l))"
proof -
  have p: "parse_dec U32_MAX (show_dec (unat i)) = Some (unat i)" for i :: u32
    using unat_u32_less[of i] by (intro parse_show_dec) simp
  have h: "hd (show_dec n) \<noteq> 0x54" "show_dec n \<noteq> []" for n
    using show_dec_digits[of n] by (cases "show_dec n"; auto simp: is_digit_def)+
  show ?thesis using assms p[of 0]
    by (cases "ls_ip l"; cases "ls_iaid l") (auto simp: is_ipv4_def lease_identity_def lease_words_def bare_def p h)
qed

lemma parse_lease_words:
  assumes ip: "ip_text parse_ip show_ip" and st: "storable now l"
  shows "parse_lease_line parse_ip now (lease_line show_ip l) rd = Ok (rd\<lparr>rd_leases := rd_leases rd @ [bare l]\<rparr>)"
proof -
  have ws: "split_whitespace (lease_line show_ip l) = lease_words show_ip l"
    unfolding lease_line_words by (rule split_words[OF _ lease_words_graphic[OF ip st]]) (simp add: lease_words_def)
  have e: "parse_dec U64_MAX (show_dec (ls_expires l div secs 1)) = Some (ls_expires l div secs 1)"
    using st by (intro parse_show_dec) (simp add: storable_def)
  have i: "lease_identity (ls_ip l) (lease_words show_ip l ! 1) = Ok (ls_mac (bare l), ls_iaid (bare l), ls_flags (bare l))"
    using identity_v4[OF _ st] identity_v6[of l show_ip] by (cases "is_ipv4 l") (simp_all add: bare_def)
  have c: "(if lease_words show_ip l ! 4 \<noteq> star then rbind (parse_hex_string (lease_words show_ip l ! 4)) (\<lambda>c. Ok (Some c)) else Ok None)
      = Ok (ls_client_id l)"
    using st hex_colon_word by (cases "ls_client_id l") (auto simp: storable_def lease_words_def parse_hex_colon)
  have h: "(if lease_words show_ip l ! 3 \<noteq> star then Some (lease_words show_ip l ! 3) else None) = ls_hostname l"
    using st by (cases "ls_hostname l") (auto simp: storable_def lease_words_def)
  have n: "length (lease_words show_ip l) = 5" "lease_words show_ip l \<noteq> []"
    "lease_words show_ip l ! 0 = show_dec (ls_expires l div secs 1)" "lease_words show_ip l ! 2 = show_ip (ls_ip l)"
    by (simp_all add: lease_words_def)
  show ?thesis
    unfolding parse_lease_line_def Let_def ws parse_standard_lease_def n e
    using ip st
    by (simp add: n show_dec_keyword i[unfolded One_nat_def] c h ip_text_def storable_def) (simp add: bare_def)
qed

lemma read_lease_lines:
  assumes "ip_text parse_ip show_ip" "\<forall>l\<in>set ls. storable now l"
  shows "read_loop parse_ip now (map (lease_line show_ip) ls @ lines) rd =
    read_loop parse_ip now lines (rd\<lparr>rd_leases := rd_leases rd @ map bare ls\<rparr>)"
  using assms(2)
proof (induction ls arbitrary: rd)
  case (Cons l ls)
  let ?rd = "rd\<lparr>rd_leases := rd_leases rd @ [bare l]\<rparr>"
  have "read_loop parse_ip now (lease_line show_ip l # map (lease_line show_ip) ls @ lines) rd =
      read_loop parse_ip now (map (lease_line show_ip) ls @ lines) ?rd"
    unfolding lease_line_words
    using parse_lease_words[OF assms(1), of now l rd] lease_words_graphic[OF assms(1), of now l] Cons.prems
    by (intro read_words) (simp_all add: lease_words_def show_dec_head lease_line_words)
  then show ?case using Cons by simp
qed simp

lemma keyword_words: "graphic_word (ascii ''duid'')" "graphic_word (ascii ''agent-info'')" "graphic_word (ascii ''vendorclass'')"
  by (simp_all add: graphic_word_def ascii_def is_ascii_graphic_def)

lemma read_duid_line:
  assumes "d \<noteq> []"
  shows "read_loop parse_ip now (duid_line d # lines) rd = read_loop parse_ip now lines (rd\<lparr>rd_duid := Some d\<rparr>)"
proof -
  have ws: "list_all graphic_word [ascii ''duid'', hex_colon d]"
    using hex_colon_word[OF assms] by (simp add: keyword_words)
  have "parse_lease_line parse_ip now (duid_line d) rd = Ok (rd\<lparr>rd_duid := Some d\<rparr>)"
    using split_words[OF _ ws] by (simp add: parse_lease_line_def duid_line_def parse_hex_colon)
  then show ?thesis unfolding duid_line_def using ws by (intro read_words) (simp_all add: ascii_def)
qed

lemma update_first_map:
  "distinct (map ls_ip ls) \<Longrightarrow> update_first (\<lambda>l. ls_ip l = ip) f ls = map (\<lambda>l. if ls_ip l = ip then f l else l) ls"
proof (induction ls)
  case (Cons l ls)
  then show ?case by (auto intro!: map_idI[symmetric] simp: image_iff)
qed simp

definition with_agent :: "ip_addr \<Rightarrow> bytes option \<Rightarrow> lease \<Rightarrow> lease" where
  "with_agent ip a x = (if ls_ip x = ip \<and> a \<noteq> None then x\<lparr>ls_agent_id := a\<rparr> else x)"

definition with_vendor :: "ip_addr \<Rightarrow> bytes option \<Rightarrow> lease \<Rightarrow> lease" where
  "with_vendor ip v x = (if ls_ip x = ip \<and> v \<noteq> None then x\<lparr>ls_vendorclass := v\<rparr> else x)"

definition annotate :: "lease \<Rightarrow> lease \<Rightarrow> lease" where
  "annotate l x = with_vendor (ls_ip l) (ls_vendorclass l) (with_agent (ls_ip l) (ls_agent_id l) x)"

lemma with_none: "with_agent ip None = (\<lambda>x. x)" "with_vendor ip None = (\<lambda>x. x)"
  by (simp_all add: with_agent_def with_vendor_def fun_eq_iff)

lemma annotate_ip [simp]: "ls_ip (with_agent ip a x) = ls_ip x" "ls_ip (annotate l x) = ls_ip x"
  by (simp_all add: annotate_def with_agent_def with_vendor_def)

lemma read_agent_line:
  assumes "ip_text parse_ip show_ip" "wf_ip ip" "a \<noteq> []" "distinct (map ls_ip (rd_leases rd))"
  shows "read_loop parse_ip now (agent_info_line show_ip ip a # lines) rd =
    read_loop parse_ip now lines (rd\<lparr>rd_leases := map (with_agent ip (Some a)) (rd_leases rd)\<rparr>)"
proof -
  let ?ws = "[ascii ''agent-info'', show_ip ip, hex_colon a]"
  have ws: "list_all graphic_word ?ws" using hex_colon_word[OF assms(3)] assms(1,2) by (simp add: keyword_words ip_text_def)
  have "ascii ''agent-info'' \<noteq> ascii ''duid''" by (simp add: ascii_def)
  then have "parse_lease_line parse_ip now (words ?ws) rd = Ok (rd\<lparr>rd_leases := map (with_agent ip (Some a)) (rd_leases rd)\<rparr>)"
    using split_words[OF _ ws] assms(1,2) update_first_map[OF assms(4)]
    by (simp add: parse_lease_line_def parse_hex_colon ip_text_def with_agent_def)
  then show ?thesis unfolding agent_info_line_def using ws by (intro read_words) (simp_all add: ascii_def)
qed

lemma read_vendor_line:
  assumes "ip_text parse_ip show_ip" "wf_ip ip" "v \<noteq> []" "distinct (map ls_ip (rd_leases rd))"
  shows "read_loop parse_ip now (vendorclass_line show_ip ip v # lines) rd =
    read_loop parse_ip now lines (rd\<lparr>rd_leases := map (with_vendor ip (Some v)) (rd_leases rd)\<rparr>)"
proof -
  let ?ws = "[ascii ''vendorclass'', show_ip ip, hex_colon v]"
  have ws: "list_all graphic_word ?ws" using hex_colon_word[OF assms(3)] assms(1,2) by (simp add: keyword_words ip_text_def)
  have "ascii ''vendorclass'' \<noteq> ascii ''duid''" "ascii ''vendorclass'' \<noteq> ascii ''agent-info''" by (simp_all add: ascii_def)
  then have "parse_lease_line parse_ip now (words ?ws) rd = Ok (rd\<lparr>rd_leases := map (with_vendor ip (Some v)) (rd_leases rd)\<rparr>)"
    using split_words[OF _ ws] assms(1,2) update_first_map[OF assms(4)]
    by (simp add: parse_lease_line_def parse_hex_colon ip_text_def with_vendor_def)
  then show ?thesis unfolding vendorclass_line_def using ws by (intro read_words) (simp_all add: ascii_def)
qed

lemma read_extra_lines:
  assumes "ip_text parse_ip show_ip" "storable now l" "distinct (map ls_ip (rd_leases rd))"
  shows "read_loop parse_ip now (extra_lines show_ip l @ lines) rd =
    read_loop parse_ip now lines (rd\<lparr>rd_leases := map (annotate l) (rd_leases rd)\<rparr>)"
proof -
  have a: "ls_agent_id l = Some a \<Longrightarrow> a \<noteq> []" and v: "ls_vendorclass l = Some w \<Longrightarrow> w \<noteq> []" for a w
    using assms(2) by (auto simp: storable_def)
  have w: "wf_ip (ls_ip l)" using assms(2) by (simp add: storable_def)
  have d: "distinct (map ls_ip (map (with_agent ip x) (rd_leases rd)))" for ip x
    using assms(3) by (simp add: comp_def)
  show ?thesis
  proof (cases "ls_agent_id l"; cases "ls_vendorclass l")
    fix x y assume "ls_agent_id l = Some x" "ls_vendorclass l = Some y"
    with a v read_agent_line[OF assms(1) w _ assms(3)]
      read_vendor_line[OF assms(1) w, of y "rd\<lparr>rd_leases := map (with_agent (ls_ip l) (Some x)) (rd_leases rd)\<rparr>"] d[of "ls_ip l" "Some x"]
    show ?thesis by (simp add: extra_lines_def annotate_def[abs_def] comp_def)
  qed (use a v read_agent_line[OF assms(1) w _ assms(3)] read_vendor_line[OF assms(1) w _ assms(3)]
      in \<open>simp_all add: extra_lines_def annotate_def[abs_def] with_none\<close>)
qed

lemma read_all_extra_lines:
  assumes "ip_text parse_ip show_ip" "\<forall>l\<in>set ls. storable now l" "distinct (map ls_ip (rd_leases rd))"
  shows "read_loop parse_ip now (concat (map (extra_lines show_ip) ls)) rd = Ok (map (fold annotate ls) (rd_leases rd))"
  using assms(2,3)
proof (induction ls arbitrary: rd)
  case (Cons l ls)
  have "distinct (map ls_ip (map (annotate l) (rd_leases rd)))" using Cons.prems by (simp add: comp_def)
  with Cons read_extra_lines[OF assms(1), of now l rd] show ?case by (simp add: comp_def)
qed simp

lemma annotate_other: "\<forall>l\<in>set ls. ls_ip l \<noteq> ls_ip x \<Longrightarrow> fold annotate ls x = x"
  by (induction ls) (auto simp: annotate_def with_agent_def with_vendor_def)

lemma annotate_bare: "annotate l (bare l) = reloaded l"
  by (cases "ls_agent_id l"; cases "ls_vendorclass l")
    (simp_all add: annotate_def with_agent_def with_vendor_def reloaded_def bare_def)

lemma fold_annotate:
  "l \<in> set ls \<Longrightarrow> distinct (map ls_ip ls) \<Longrightarrow> fold annotate ls (bare l) = reloaded l"
proof (induction ls)
  case (Cons x ls)
  show ?case
  proof (cases "x = l")
    case True
    with Cons.prems have "\<forall>y\<in>set ls. ls_ip y \<noteq> ls_ip (reloaded l)" by (auto simp: reloaded_def bare_def image_iff)
    with True show ?thesis by (simp add: annotate_bare annotate_other)
  next
    case False
    with Cons.prems have "l \<in> set ls" "ls_ip x \<noteq> ls_ip l" by auto
    then have "annotate x (bare l) = bare l" by (simp add: annotate_def with_agent_def with_vendor_def bare_def)
    with Cons \<open>l \<in> set ls\<close> show ?thesis by simp
  qed
qed simp

lemma extra_text_lines:
  assumes "ip_text parse_ip show_ip" "storable now l" "x \<in> set (extra_lines show_ip l)"
  shows "text_line x"
  using assms hex_colon_word
  by (cases "ls_agent_id l"; cases "ls_vendorclass l")
    (auto simp: extra_lines_def agent_info_line_def vendorclass_line_def ip_text_def storable_def keyword_words
      simp del: join.simps intro!: words_text_line)

lemma file_text_lines:
  assumes "ip_text parse_ip show_ip" "\<forall>l\<in>set ls. storable now l" "duid \<noteq> Some []" "x \<in> set (lease_file_lines show_ip ls duid)"
  shows "text_line x"
proof -
  have "text_line (lease_line show_ip l)" if "l \<in> set ls" for l
    unfolding lease_line_words using that assms(2)
    by (intro words_text_line lease_words_graphic[OF assms(1)]) (auto simp: lease_words_def)
  moreover have "d \<noteq> [] \<Longrightarrow> text_line (duid_line d)" for d
    unfolding duid_line_def by (rule words_text_line) (simp_all add: keyword_words hex_colon_word)
  ultimately show ?thesis using assms extra_text_lines[OF assms(1)]
    by (auto simp: lease_file_lines_def split: if_splits option.splits)
qed

lemma leases_read_back:
  assumes "ip_text parse_ip show_ip" and "\<forall>l\<in>set ls. storable now l" and "distinct (map ls_ip ls)" and "duid \<noteq> Some []"
  shows "read_leases parse_ip now (Some (write_leases show_ip ls duid)) =
    Ok (map reloaded (filter is_ipv4 ls @ filter (\<lambda>l. \<not> is_ipv4 l) ls))"
proof -
  let ?L = "filter is_ipv4 ls @ filter (\<lambda>l. \<not> is_ipv4 l) ls" and ?x = "concat (map (extra_lines show_ip) ls)"
  have m: "mset ?L = mset ls" using multiset_partition[of "mset ls" is_ipv4] by simp
  have "mset (map ls_ip ?L) = mset (map ls_ip ls)" unfolding mset_map m ..
  then have d: "distinct (map ls_ip (map bare ?L))"
    using assms(3) mset_eq_imp_distinct_iff by (fastforce simp: comp_def bare_def)
  have st: "\<forall>l\<in>set (filter p ls). storable now l" for p using assms(2) by simp
  have none: "\<not> list_ex (\<lambda>l. \<not> is_ipv4 l) ls \<Longrightarrow> filter (\<lambda>l. \<not> is_ipv4 l) ls = []" by (simp add: list_ex_iff)
  let ?q = "if list_ex (\<lambda>l. \<not> is_ipv4 l) ls then duid else None"
  have "read_loop parse_ip now (lease_file_lines show_ip ls duid) \<lparr>rd_leases = [], rd_duid = None\<rparr> =
      read_loop parse_ip now ?x \<lparr>rd_leases = map bare ?L, rd_duid = ?q\<rparr>"
    using assms(4) none
    by (cases duid) (simp_all add: lease_file_lines_def read_lease_lines[OF assms(1) st] read_duid_line)
  then have "read_loop parse_ip now (lease_file_lines show_ip ls duid) \<lparr>rd_leases = [], rd_duid = None\<rparr> =
      Ok (map (fold annotate ls) (map bare ?L))"
    using read_all_extra_lines[OF assms(1,2), of "\<lparr>rd_leases = map bare ?L, rd_duid = ?q\<rparr>"] d by simp
  also have "map (fold annotate ls) (map bare ?L) = map reloaded ?L" using fold_annotate[OF _ assms(3)] by auto
  finally show ?thesis
    using file_text_lines[OF assms(1,2,4)] by (simp add: read_leases_def write_leases_def text_lines_concat)
qed

subsection \<open>Properties\<close>

text \<open>
  C9: leases with distinct addresses that the format can hold, written to the lease file with any server
  DUID that is not empty or with none, are read back: IPv4 leases first, then IPv6 leases, each in their
  order, with everything the format keeps of them.  The format can hold a lease that has not expired,
  whose expiry is in range, and whose hostname and identifiers are absent or not empty, the hostname a
  single printable word other than the placeholder.
\<close>

theorem write_read_leases:
  assumes "ip_text parse_ip show_ip" and "\<forall>l\<in>set ls. storable now l" and "distinct (map ls_ip ls)" and "duid \<noteq> Some []"
  shows "read_leases parse_ip now (Some (write_leases show_ip ls duid)) =
    Ok (map reloaded (filter is_ipv4 ls @ filter (\<lambda>l. \<not> is_ipv4 l) ls))"
  using assms by (rule leases_read_back)

text \<open>A text form of addresses for examples: a digit for the family and the bytes in hexadecimal.\<close>

fun hex_show_ip :: "ip_addr \<Rightarrow> bytes" where
  "hex_show_ip (V4 o4) = 0x34 # hex_colon o4"
| "hex_show_ip (V6 o6) = 0x36 # hex_colon o6"

fun hex_parse_ip :: "bytes \<Rightarrow> ip_addr option" where
  "hex_parse_ip [] = None"
| "hex_parse_ip (f # s) =
     (case parse_hex_string s of Ok bs \<Rightarrow> Some (if f = 0x34 then V4 bs else V6 bs) | _ \<Rightarrow> None)"

lemma hex_ip_text: "ip_text hex_parse_ip hex_show_ip"
proof -
  have g: "bs \<noteq> [] \<Longrightarrow> is_ascii_graphic b \<Longrightarrow> graphic_word (b # hex_colon bs)" for b bs
    using hex_colon_word[of bs] by (simp add: graphic_word_def)
  have "wf_ip ip \<Longrightarrow> graphic_word (hex_show_ip ip)" for ip
    by (cases ip) (auto intro!: g simp: is_ascii_graphic_def)
  moreover have "hex_parse_ip (hex_show_ip ip) = Some ip" for ip by (cases ip) (simp_all add: parse_hex_colon)
  ultimately show ?thesis by (simp add: ip_text_def)
qed

theorem write_read_leases_witness:
  "read_leases hex_parse_ip (secs 3) (Some (write_leases hex_show_ip [example_lease 1 7 (secs 5), example_lease 2 8 (secs 6 + 1)] None)) =
     Ok [reloaded (example_lease 1 7 (secs 5)), reloaded (example_lease 2 8 (secs 6 + 1))]"
proof -
  let ?ls = "[example_lease 1 7 (secs 5), example_lease 2 8 (secs 6 + 1)]"
  have "\<forall>l\<in>set ?ls. storable (secs 3) l"
    by (simp add: storable_def example_lease_def lease_new_def secs_def wf_mac_def)
  moreover have "distinct (map ls_ip ?ls)" "filter is_ipv4 ?ls = ?ls" "filter (\<lambda>l. \<not> is_ipv4 l) ?ls = []"
    by (simp_all add: example_lease_def lease_new_def is_ipv4_def)
  ultimately show ?thesis using write_read_leases[OF hex_ip_text, of ?ls "secs 3" None] by simp
qed

lemma read_loop_not_Err: "read_loop parse_ip now lines rd \<noteq> Err e"
  by (induction lines arbitrary: rd) (auto simp: read_loop.simps split: outcome.splits)

lemma read_loop_skip:
  assumes "\<forall>rd. \<exists>e. parse_lease_line parse_ip now bad rd = Err e"
  shows "read_loop parse_ip now (xs @ bad # ys) rd = read_loop parse_ip now (xs @ ys) rd"
proof (induction xs arbitrary: rd)
  case Nil
  from assms obtain e where "parse_lease_line parse_ip now bad rd = Err e" by blast
  then show ?case by (simp add: read_loop.simps)
next
  case (Cons x xs)
  then show ?case by (simp add: read_loop.simps split: outcome.splits)
qed

text \<open>
  A line that does not parse costs only itself: the file is read as if the line were absent, and
  reading an existing file never returns an error.
\<close>

theorem bad_line_skipped:
  assumes "\<forall>rd. \<exists>e. parse_lease_line parse_ip now bad rd = Err e"
  shows "read_loop parse_ip now (xs @ bad # ys) rd = read_loop parse_ip now (xs @ ys) rd \<and>
    read_leases parse_ip now file \<noteq> Err e"
  using read_loop_skip[OF assms] read_loop_not_Err by (simp add: read_leases_def split: option.splits)

theorem bad_line_skipped_witness:
  "read_loop hex_parse_ip 0 ([] @ ascii ''duid'' # []) \<lparr>rd_leases = [], rd_duid = None\<rparr> = Ok []"
  using bad_line_skipped[of hex_parse_ip 0 "ascii ''duid''" "[]" "[]"]
  by (simp add: parse_lease_line_def split_whitespace_word keyword_words)

lemma hex_loop_Panic: "hex_loop s acc = Panic \<Longrightarrow> \<exists>b\<in>set s. is_continuation b"
  by (induction s acc rule: hex_loop.induct) (auto split: if_splits option.splits intro: hd_in_set)

lemma parse_hex_Panic: "parse_hex_string s = Panic \<Longrightarrow> \<exists>b\<in>set s. is_continuation b"
  using hex_loop_Panic[of "filter (\<lambda>b. b \<noteq> 0x3A) s" "[]"] by (auto simp: parse_hex_string_def Let_def split: if_splits)

lemma identity_not_Panic: "lease_identity ip s \<noteq> Panic"
  by (auto simp: lease_identity_def mac_parse_def Let_def rust_simps split: ip_addr.splits option.splits)

text \<open>The two ways a line can make the reader panic: a byte of a multi-byte character in a field, a huge expiry.\<close>

definition panic_line :: "bytes \<Rightarrow> bool" where
  "panic_line line \<longleftrightarrow> (\<exists>w\<in>set (split_whitespace line). \<exists>b\<in>set w. is_continuation b) \<or>
     (\<exists>w ts. split_whitespace line = w # ts \<and> (\<exists>n. parse_dec U64_MAX w = Some n \<and> 2 ^ 63 \<le> n))"

lemma parse_line_Panic: "parse_lease_line parse_ip now line rd = Panic \<Longrightarrow> panic_line line"
proof -
  let ?p = "split_whitespace line"
  have hex: "parse_hex_string (?p ! i) = Panic \<Longrightarrow> i < length ?p \<Longrightarrow> panic_line line" for i
    using parse_hex_Panic[of "?p ! i"] nth_mem[of i ?p] by (auto simp: panic_line_def)
  assume "parse_lease_line parse_ip now line rd = Panic"
  then consider "parse_hex_string (?p ! 1) = Panic" "1 < length ?p" | "parse_hex_string (?p ! 2) = Panic" "2 < length ?p"
    | "parse_hex_string (?p ! 4) = Panic" "4 < length ?p"
    | "?p \<noteq> []" "\<exists>n. parse_dec U64_MAX (?p ! 0) = Some n \<and> 2 ^ 63 \<le> n"
    by (auto simp: parse_lease_line_def parse_standard_lease_def Let_def rust_simps identity_not_Panic
        split: if_splits option.splits)
  then show ?thesis
  proof cases
    case 4
    then show ?thesis by (cases ?p) (auto simp: panic_line_def)
  qed (use hex in blast)+
qed

lemma read_loop_Panic: "read_loop parse_ip now lines rd = Panic \<Longrightarrow> \<exists>l\<in>set lines. panic_line l"
  by (induction lines arbitrary: rd) (auto simp: read_loop.simps split: if_splits outcome.splits dest: parse_line_Panic)

text \<open>
  The reader panics only on a line with a multi-byte character or with an expiry time of at least
  \<open>2^63\<close> seconds, and both do make it panic: \<open>read_leases\<close> is documented to skip a malformed line.
\<close>

theorem read_panics_only:
  "(read_leases parse_ip now (Some s) = Panic \<longrightarrow> (\<exists>l\<in>set (text_lines s). panic_line l)) \<and>
   read_leases parse_ip now (Some (ascii ''9223372036854775808 * x y'')) = Panic \<and>
   read_leases parse_ip now (Some (ascii ''duid a'' @ [0xC3, 0xA9] @ ascii ''b'')) = Panic"
proof -
  have a: "ascii ''9223372036854775808 * x y'' = words [ascii ''9223372036854775808'', star, ascii ''x'', ascii ''y'']"
    by (simp add: ascii_def star_def)
  have p: "parse_dec U64_MAX (ascii ''9223372036854775808'') = Some 9223372036854775808"
    by (simp add: parse_dec_def ascii_def Let_def is_digit_def dec_value_def)
  have g: "list_all graphic_word [ascii ''9223372036854775808'', star, ascii ''x'', ascii ''y'']"
    by (simp add: graphic_word_def ascii_def star_def is_ascii_graphic_def)
  have t: "text_lines (words [ascii ''9223372036854775808'', star, ascii ''x'', ascii ''y'']) =
      [words [ascii ''9223372036854775808'', star, ascii ''x'', ascii ''y'']]"
    by (rule text_lines_single[OF words_text_line[OF _ g]]) simp
  have k: "ascii ''9223372036854775808'' \<noteq> ascii ''duid''" "ascii ''9223372036854775808'' \<noteq> ascii ''agent-info''"
    "ascii ''9223372036854775808'' \<noteq> ascii ''vendorclass''" "hd (ascii ''9223372036854775808'') \<noteq> 0x23"
    by (simp_all add: ascii_def)
  have "parse_lease_line parse_ip now (words [ascii ''9223372036854775808'', star, ascii ''x'', ascii ''y'']) rd = Panic" for rd
    unfolding parse_lease_line_def split_words[OF list.discI[OF refl] g] Let_def parse_standard_lease_def
    by (simp add: k p)
  then have one: "read_leases parse_ip now (Some (ascii ''9223372036854775808 * x y'')) = Panic"
    using text_line_plain(3)[OF words_text_line[OF _ g]] split_words[OF _ g] k(4)
    by (simp add: a t read_leases_def read_loop.simps del: join.simps)
  have "read_leases parse_ip now (Some (ascii ''duid a'' @ [0xC3, 0xA9] @ ascii ''b'')) = Panic"
    by (simp add: read_leases_def text_lines_def ascii_def read_loop.simps split_whitespace_def split_ws_loop.simps
        parse_lease_line_def parse_hex_string_def is_continuation_def valid_utf8.simps second_ok_def is_cont_def utf8_len_def Let_def)
  then show ?thesis using one read_loop_Panic by (auto simp: read_leases_def)
qed

theorem read_panics_only_witness:
  "\<exists>l\<in>set (text_lines (ascii ''9223372036854775808 * x y'')). panic_line l"
  using read_panics_only[of "\<lambda>_. None" 0 "ascii ''9223372036854775808 * x y''"] by blast

lemma split_space: "split_whitespace (32 # r) = split_whitespace r"
  by (simp add: split_whitespace_def split_ws_loop.simps[of "[]" "32 # r"] ws_len_space)

text \<open>
  An empty hostname, which \<open>Lease::new\<close> makes of a name without hostname characters, is written as nothing
  between two spaces: the client identifier is then read as the hostname and lost.
\<close>

theorem empty_hostname_shifts:
  assumes "ip_text parse_ip show_ip" and "storable now (l\<lparr>ls_hostname := None\<rparr>)" and "is_ipv4 l" and "ls_client_id l = Some c"
  shows "parse_lease_line parse_ip now (lease_line show_ip (l\<lparr>ls_hostname := Some (strip_hostname [0x21, 0x2D] 63)\<rparr>)) rd =
    Ok (rd\<lparr>rd_leases := rd_leases rd @ [(bare l)\<lparr>ls_hostname := Some (hex_colon c), ls_client_id := None\<rparr>]\<rparr>)"
proof -
  let ?l = "l\<lparr>ls_hostname := None\<rparr>" and ?w = "lease_words show_ip l"
  have h: "strip_hostname [0x21, 0x2D] 63 = []"
    by (simp add: strip_hostname_def hostname_char_def is_ascii_alphanumeric_def trim_matches_def)
  have same: "lease_words show_ip ?l ! i = ?w ! i" if "i < 3" for i
    using that by (simp add: lease_words_def is_ipv4_def less_Suc_eq numeral_3_eq_3) auto
  have g: "list_all graphic_word (lease_words show_ip ?l)" by (rule lease_words_graphic[OF assms(1,2)])
  then have g: "graphic_word (?w ! 0)" "graphic_word (?w ! 1)" "graphic_word (?w ! 2)" "graphic_word (hex_colon c)"
    using assms(4) same[of 0] same[of 1] same[of 2] by (simp_all add: lease_words_def)
  have c: "hex_colon c \<noteq> star" using assms(2,4) hex_colon_word[of c] by (auto simp: storable_def)
  have "lease_line show_ip (l\<lparr>ls_hostname := Some []\<rparr>) = ?w ! 0 @ 32 # ?w ! 1 @ 32 # ?w ! 2 @ 32 # 32 # hex_colon c"
    using assms(4) by (simp add: lease_line_words lease_words_def is_ipv4_def)
  then have ws: "split_whitespace (lease_line show_ip (l\<lparr>ls_hostname := Some []\<rparr>)) = [?w ! 0, ?w ! 1, ?w ! 2, hex_colon c]"
    using g by (simp add: split_whitespace_cons split_space split_whitespace_word)
  have e: "parse_dec U64_MAX (?w ! 0) = Some (ls_expires l div secs 1)"
    using assms(2) unfolding lease_words_def by (simp add: storable_def parse_show_dec)
  have i: "lease_identity (ls_ip l) (?w ! 1) = Ok (ls_mac l, None, 0)"
    using identity_v4[of ?l now show_ip] same[of 1] assms(2,3) by (simp add: is_ipv4_def)
  have k: "?w ! 0 = show_dec (ls_expires l div secs 1)" "?w ! 2 = show_ip (ls_ip l)" by (simp_all add: lease_words_def)
  show ?thesis
    unfolding h parse_lease_line_def Let_def ws parse_standard_lease_def
    using assms e i[unfolded One_nat_def]
    by (simp add: k(2) c ip_text_def storable_def) (simp add: k(1) show_dec_keyword bare_def)
qed

end
