(* ===== verification/Edns0.thy ===== *)
theory Edns0
  imports Core_Types
begin

text \<open>
  EDNS0 options and the OPT pseudo-record, \<open>src/dns/edns0.rs\<close>: option codes, data lengths, the
  option and record codecs, the handler operations and the builder.  The round-trip lemmas say for
  which options and records the parser inverts the serializer.
\<close>

abbreviation EDNS0_OPTION_CLIENT_SUBNET :: u16 where "EDNS0_OPTION_CLIENT_SUBNET \<equiv> 8"
abbreviation EDNS0_OPTION_MAC :: u16 where "EDNS0_OPTION_MAC \<equiv> 65001"
abbreviation EDNS0_OPTION_NOMDEVICEID :: u16 where "EDNS0_OPTION_NOMDEVICEID \<equiv> 65073"
abbreviation EDNS0_OPTION_NOMCPEID :: u16 where "EDNS0_OPTION_NOMCPEID \<equiv> 65074"
abbreviation EDNS0_OPTION_UMBRELLA :: u16 where "EDNS0_OPTION_UMBRELLA \<equiv> 20292"
abbreviation T_OPT :: u16 where "T_OPT \<equiv> 41"
abbreviation T_TKEY :: u16 where "T_TKEY \<equiv> 249"
abbreviation T_TSIG :: u16 where "T_TSIG \<equiv> 250"
abbreviation EDNS_DO_BIT :: u16 where "EDNS_DO_BIT \<equiv> 0x8000"
abbreviation DEFAULT_UDP_PAYLOAD :: u16 where "DEFAULT_UDP_PAYLOAD \<equiv> 1232"
abbreviation MAX_UDP_PAYLOAD :: u16 where "MAX_UDP_PAYLOAD \<equiv> 4096"

subsection \<open>Options\<close>

datatype edns0_option =
    ClientSubnet u16 u8 u8 ip_addr
  | DnssecOk
  | Cookie bytes "bytes option"
  | ExtendedError u16 bytes
  | Padding nat
  | MacOption mac_address
  | NomDeviceId bytes
  | NomCpeId bytes
  | Umbrella bytes
  | UnknownOption u16 bytes

fun option_code :: "edns0_option \<Rightarrow> u16" where
  "option_code (ClientSubnet _ _ _ _) = EDNS0_OPTION_CLIENT_SUBNET"
| "option_code DnssecOk = 0"
| "option_code (Cookie _ _) = 10"
| "option_code (ExtendedError _ _) = 15"
| "option_code (Padding _) = 12"
| "option_code (MacOption _) = EDNS0_OPTION_MAC"
| "option_code (NomDeviceId _) = EDNS0_OPTION_NOMDEVICEID"
| "option_code (NomCpeId _) = EDNS0_OPTION_NOMCPEID"
| "option_code (Umbrella _) = EDNS0_OPTION_UMBRELLA"
| "option_code (UnknownOption c _) = c"

fun data_len :: "edns0_option \<Rightarrow> nat" where
  "data_len (ClientSubnet family _ _ _) = 4 + (if family = 1 then 4 else 16)"
| "data_len DnssecOk = 0"
| "data_len (Cookie client server) = length client + (case server of None \<Rightarrow> 0 | Some s \<Rightarrow> length s)"
| "data_len (ExtendedError _ extra_text) = 2 + length extra_text"
| "data_len (Padding n) = n"
| "data_len (MacOption _) = 6"
| "data_len (NomDeviceId device_id) = length device_id"
| "data_len (Umbrella device_id) = length device_id"
| "data_len (NomCpeId cpe_id) = length cpe_id"
| "data_len (UnknownOption _ d) = length d"

fun ip_octets :: "ip_addr \<Rightarrow> bytes" where
  "ip_octets (V4 o4) = o4"
| "ip_octets (V6 o6) = o6"

fun option_to_wire :: "edns0_option \<Rightarrow> bytes" where
  "option_to_wire (ClientSubnet family source_netmask scope_netmask address) =
     put_u16 family @ [source_netmask, scope_netmask] @
     (let addr_bytes = ip_octets address; byte_count = (unat source_netmask + 7) div 8
      in take (min byte_count (length addr_bytes)) addr_bytes)"
| "option_to_wire DnssecOk = []"
| "option_to_wire (Cookie client server) = client @ (case server of None \<Rightarrow> [] | Some s \<Rightarrow> s)"
| "option_to_wire (ExtendedError info_code extra_text) = put_u16 info_code @ extra_text"
| "option_to_wire (Padding n) = replicate n 0"
| "option_to_wire (MacOption address) = mac_octets address"
| "option_to_wire (NomDeviceId device_id) = device_id"
| "option_to_wire (Umbrella device_id) = device_id"
| "option_to_wire (NomCpeId cpe_id) = cpe_id"
| "option_to_wire (UnknownOption _ d) = d"

definition option_serialize :: "edns0_option \<Rightarrow> u16 \<times> bytes" where
  "option_serialize opt = (option_code opt, option_to_wire opt)"

definition pad_to :: "nat \<Rightarrow> bytes \<Rightarrow> bytes" where
  "pad_to n bs = bs @ replicate (n - length bs) 0"

definition parse_client_subnet :: "bytes \<Rightarrow> (edns0_option, dns_error) outcome" where
  "parse_client_subnet dat =
     (if length dat < 4 then Err (Edns0Failed ''Client subnet option too short'')
      else let family = be16 (dat ! 0) (dat ! 1); source_netmask = dat ! 2; scope_netmask = dat ! 3;
               addr_data = drop 4 dat in
        if family = 1 then
          if 4 < length addr_data then Err (Edns0Failed ''IPv4 client subnet address too long'')
          else Ok (ClientSubnet family source_netmask scope_netmask (V4 (pad_to 4 addr_data)))
        else if family = 2 then
          if 16 < length addr_data then Err (Edns0Failed ''IPv6 client subnet address too long'')
          else Ok (ClientSubnet family source_netmask scope_netmask (V6 (pad_to 16 addr_data)))
        else Err (Edns0Failed ''Unsupported address family in client subnet''))"

definition parse_cookie :: "bytes \<Rightarrow> (edns0_option, dns_error) outcome" where
  "parse_cookie dat =
     (if length dat < 8 then Err (Edns0Failed ''Cookie option too short'')
      else if 8 < length dat then
        if length dat < 16 \<or> 40 < length dat then Err (Edns0Failed ''Invalid server cookie length'')
        else Ok (Cookie (take 8 dat) (Some (drop 8 dat)))
      else Ok (Cookie (take 8 dat) None))"

definition parse_extended_error :: "bytes \<Rightarrow> (edns0_option, dns_error) outcome" where
  "parse_extended_error dat =
     (if length dat < 2 then Err (Edns0Failed ''Extended error option too short'')
      else Ok (ExtendedError (be16 (dat ! 0) (dat ! 1))
        (if 2 < length dat then from_utf8_lossy (drop 2 dat) else [])))"

definition parse_mac :: "bytes \<Rightarrow> (edns0_option, dns_error) outcome" where
  "parse_mac dat =
     (if length dat \<noteq> 6 then Err (Edns0Failed ''Invalid MAC address length'')
      else Ok (MacOption \<lparr>mac_octets = dat\<rparr>))"

definition option_from_wire :: "u16 \<Rightarrow> bytes \<Rightarrow> (edns0_option, dns_error) outcome" where
  "option_from_wire code dat =
     (if code = EDNS0_OPTION_CLIENT_SUBNET then parse_client_subnet dat
      else if code = 10 then parse_cookie dat
      else if code = 15 then parse_extended_error dat
      else if code = 12 then Ok (Padding (length dat))
      else if code = EDNS0_OPTION_MAC then parse_mac dat
      else if code = EDNS0_OPTION_NOMDEVICEID then Ok (NomDeviceId dat)
      else if code = EDNS0_OPTION_NOMCPEID then Ok (NomCpeId dat)
      else if code = EDNS0_OPTION_UMBRELLA then Ok (Umbrella dat)
      else Ok (UnknownOption code dat))"

subsection \<open>The OPT record\<close>

record opt_record =
  udp_payload_size :: u16
  extended_rcode :: u8
  version :: u8
  opt_flags :: u16
  options :: "edns0_option list"

definition opt_new :: opt_record where
  "opt_new = \<lparr>udp_payload_size = DEFAULT_UDP_PAYLOAD, extended_rcode = 0, version = 0, opt_flags = 0, options = []\<rparr>"

definition has_do_bit :: "opt_record \<Rightarrow> bool" where
  "has_do_bit r \<longleftrightarrow> opt_flags r AND EDNS_DO_BIT \<noteq> 0"

definition set_do_bit :: "bool \<Rightarrow> opt_record \<Rightarrow> opt_record" where
  "set_do_bit value r =
     r\<lparr>opt_flags := (if value then opt_flags r OR EDNS_DO_BIT else opt_flags r AND NOT EDNS_DO_BIT)\<rparr>"

definition add_option :: "edns0_option \<Rightarrow> opt_record \<Rightarrow> opt_record" where
  "add_option opt r = r\<lparr>options := options r @ [opt]\<rparr>"

definition wire_size :: "opt_record \<Rightarrow> nat" where
  "wire_size r = 1 + 2 + 2 + 4 + 2 + sum_list (map (\<lambda>opt. 4 + data_len opt) (options r))"

definition opt_rdata :: "edns0_option list \<Rightarrow> bytes" where
  "opt_rdata opts = concat (map (\<lambda>opt. if opt = DnssecOk then []
     else put_u16 (option_code opt) @ put_u16 (of_nat (length (option_to_wire opt))) @ option_to_wire opt) opts)"

definition opt_ttl :: "opt_record \<Rightarrow> u32" where
  "opt_ttl r = push_bit 24 (ucast (extended_rcode r)) OR push_bit 16 (ucast (version r)) OR ucast (opt_flags r)"

definition opt_to_wire :: "opt_record \<Rightarrow> bytes" where
  "opt_to_wire r =
     [0] @ put_u16 T_OPT @ put_u16 (udp_payload_size r) @ put_u32 (opt_ttl r) @
     put_u16 (of_nat (length (opt_rdata (options r)))) @ opt_rdata (options r)"

function opt_options_loop :: "bytes \<Rightarrow> nat \<Rightarrow> nat \<Rightarrow> edns0_option list \<Rightarrow>
    (edns0_option list \<times> nat, dns_error) outcome" where
  "opt_options_loop dat offset rdata_end opts =
     (if offset < rdata_end then
        if rdata_end < offset + 4 then Err (Edns0Failed ''Truncated EDNS0 option header'')
        else let opt_code = be16 (dat ! offset) (dat ! (offset + 1));
                 opt_len = unat (be16 (dat ! (offset + 2)) (dat ! (offset + 3)));
                 offset' = offset + 4 in
          if rdata_end < offset' + opt_len then Err (Edns0Failed ''EDNS0 option data truncated'')
          else let opt_data = slice offset' (offset' + opt_len) dat;
                   opt = (case option_from_wire opt_code opt_data of
                            Ok opt \<Rightarrow> opt | _ \<Rightarrow> UnknownOption opt_code opt_data) in
            opt_options_loop dat (offset' + opt_len) rdata_end (opts @ [opt])
      else Ok (opts, offset))"
  by pat_completeness auto
termination
  by (relation "measure (\<lambda>(dat, offset, rdata_end, opts). rdata_end - offset)") auto

declare opt_options_loop.simps [simp del]

definition opt_from_wire :: "bytes \<Rightarrow> (opt_record \<times> nat, dns_error) outcome" where
  "opt_from_wire dat =
     (if dat = [] \<or> dat ! 0 \<noteq> 0 then Err (Edns0Failed ''OPT record must have empty (root) name'')
      else if length dat < 11 then Err (Edns0Failed ''OPT record too short'')
      else let rr_type = be16 (dat ! 1) (dat ! 2) in
        if rr_type \<noteq> T_OPT then Err (Edns0Failed ''Expected OPT type'')
        else let payload = be16 (dat ! 3) (dat ! 4);
                 ttl = be32 (dat ! 5) (dat ! 6) (dat ! 7) (dat ! 8);
                 rdlength = unat (be16 (dat ! 9) (dat ! 10)) in
          if length dat < 11 + rdlength then Err (Edns0Failed ''OPT RDATA truncated'')
          else rbind (opt_options_loop dat 11 (11 + rdlength) []) (\<lambda>(opts, offset).
            Ok (\<lparr>udp_payload_size = payload,
                 extended_rcode = ucast (drop_bit 24 ttl AND 0xFF),
                 version = ucast (drop_bit 16 ttl AND 0xFF),
                 opt_flags = ucast (ttl AND 0xFFFF), options = opts\<rparr>, offset)))"

subsection \<open>Handler and builder\<close>

record edns0_handler = check_source_flag :: bool

fun find_opt_record_from :: "nat \<Rightarrow> bytes list \<Rightarrow> nat option" where
  "find_opt_record_from idx [] = None"
| "find_opt_record_from idx (rr_data # rest) =
     (if length rr_data < 3 then find_opt_record_from (idx + 1) rest
      else let rr_type = be16 (rr_data ! 1) (rr_data ! 2) in
        if rr_type = T_TSIG \<or> rr_type = T_TKEY then find_opt_record_from (idx + 1) rest
        else if rr_type = T_OPT then Some idx
        else find_opt_record_from (idx + 1) rest)"

definition find_opt_record :: "bytes list \<Rightarrow> nat option" where
  "find_opt_record additional = find_opt_record_from 0 additional"

definition add_opt_record :: "bytes list \<Rightarrow> opt_record \<Rightarrow> nat \<times> bytes list" where
  "add_opt_record additional r =
     (let additional' = additional @ [opt_to_wire r] in (length additional' - 1, additional'))"

definition add_client_subnet :: "opt_record \<Rightarrow> ip_addr \<Rightarrow> u8 \<Rightarrow> (opt_record, dns_error) outcome" where
  "add_client_subnet r address source_netmask =
     (case address of
        V4 _ \<Rightarrow> if 32 < source_netmask then Err (Edns0Failed ''Invalid IPv4 netmask'')
          else Ok (add_option (ClientSubnet 1 source_netmask 0 address) r)
      | V6 _ \<Rightarrow> if 128 < source_netmask then Err (Edns0Failed ''Invalid IPv6 netmask'')
          else Ok (add_option (ClientSubnet 2 source_netmask 0 address) r))"

definition add_extended_error :: "opt_record \<Rightarrow> u16 \<Rightarrow> bytes \<Rightarrow> opt_record" where
  "add_extended_error r info_code extra_text = add_option (ExtendedError info_code extra_text) r"

definition add_mac_option :: "opt_record \<Rightarrow> mac_address \<Rightarrow> opt_record" where
  "add_mac_option r mac = add_option (MacOption mac) r"

text \<open>The address classes of \<open>std::net\<close> that the source check consults.\<close>

fun is_local :: "ip_addr \<Rightarrow> bool" where
  "is_local (V4 o4) \<longleftrightarrow>
     o4 ! 0 = 10 \<or> o4 ! 0 = 172 \<and> 16 \<le> o4 ! 1 \<and> o4 ! 1 \<le> 31 \<or> o4 ! 0 = 192 \<and> o4 ! 1 = 168 \<or>
     o4 ! 0 = 127 \<or> o4 ! 0 = 169 \<and> o4 ! 1 = 254"
| "is_local (V6 o6) \<longleftrightarrow>
     o6 = replicate 15 0 @ [1] \<or> be16 (o6 ! 0) (o6 ! 1) AND 0xFFC0 = 0xFE80 \<or>
     be16 (o6 ! 0) (o6 ! 1) AND 0xFE00 = 0xFC00"

fun check_source :: "edns0_handler \<Rightarrow> edns0_option \<Rightarrow> ip_addr \<Rightarrow> bool" where
  "check_source h opt source =
     (if \<not> check_source_flag h then True
      else case opt of
          MacOption _ \<Rightarrow> is_local source
        | NomDeviceId _ \<Rightarrow> is_local source
        | NomCpeId _ \<Rightarrow> is_local source
        | Umbrella _ \<Rightarrow> is_local source
        | _ \<Rightarrow> True)"

definition create_opt_record :: "u16 \<Rightarrow> bool \<Rightarrow> opt_record" where
  "create_opt_record udp_size enable_dnssec =
     (let opt = opt_new\<lparr>udp_payload_size := udp_size\<rparr> in if enable_dnssec then set_do_bit True opt else opt)"

record edns0_builder =
  b_udp_payload_size :: u16
  b_do_bit :: bool
  b_options :: "edns0_option list"

definition edns0_builder_new :: edns0_builder where
  "edns0_builder_new = \<lparr>b_udp_payload_size = DEFAULT_UDP_PAYLOAD, b_do_bit = False, b_options = []\<rparr>"

definition edns0_builder_udp_size :: "u16 \<Rightarrow> edns0_builder \<Rightarrow> edns0_builder" where
  "edns0_builder_udp_size sz b = b\<lparr>b_udp_payload_size := min sz MAX_UDP_PAYLOAD\<rparr>"

definition edns0_builder_do_bit :: "bool \<Rightarrow> edns0_builder \<Rightarrow> edns0_builder" where
  "edns0_builder_do_bit value b = b\<lparr>b_do_bit := value\<rparr>"

definition edns0_builder_client_subnet :: "ip_addr \<Rightarrow> u8 \<Rightarrow> edns0_builder \<Rightarrow> edns0_builder" where
  "edns0_builder_client_subnet address source_netmask b =
     (let family = (case address of V4 _ \<Rightarrow> 1 | V6 _ \<Rightarrow> 2)
      in b\<lparr>b_options := b_options b @ [ClientSubnet family source_netmask 0 address]\<rparr>)"

definition edns0_builder_extended_error :: "u16 \<Rightarrow> bytes \<Rightarrow> edns0_builder \<Rightarrow> edns0_builder" where
  "edns0_builder_extended_error info_code extra_text b =
     b\<lparr>b_options := b_options b @ [ExtendedError info_code extra_text]\<rparr>"

definition edns0_builder_mac :: "mac_address \<Rightarrow> edns0_builder \<Rightarrow> edns0_builder" where
  "edns0_builder_mac mac b = b\<lparr>b_options := b_options b @ [MacOption mac]\<rparr>"

definition edns0_builder_build :: "edns0_builder \<Rightarrow> opt_record" where
  "edns0_builder_build b =
     (let opt = \<lparr>udp_payload_size = b_udp_payload_size b, extended_rcode = 0, version = 0,
                 opt_flags = (if b_do_bit b then EDNS_DO_BIT else 0), options = b_options b\<rparr>
      in if udp_payload_size opt < 512 then opt\<lparr>udp_payload_size := DEFAULT_UDP_PAYLOAD\<rparr> else opt)"

subsection \<open>Option round trip\<close>

definition known_codes :: "u16 list" where
  "known_codes = [8, 10, 15, 12, 65001, 65073, 65074, 20292]"

text \<open>The options the parser can produce, with the data the code's invariants give.\<close>

fun wf_option :: "edns0_option \<Rightarrow> bool" where
  "wf_option (ClientSubnet family source_netmask _ address) \<longleftrightarrow> wf_ip address \<and>
     family = (case address of V4 _ \<Rightarrow> 1 | V6 _ \<Rightarrow> 2) \<and>
     (\<forall>b\<in>set (drop ((unat source_netmask + 7) div 8) (ip_octets address)). b = 0)"
| "wf_option DnssecOk \<longleftrightarrow> False"
| "wf_option (Cookie client server) \<longleftrightarrow> length client = 8 \<and>
     (\<forall>s. server = Some s \<longrightarrow> 8 \<le> length s \<and> length s \<le> 32)"
| "wf_option (ExtendedError _ extra_text) \<longleftrightarrow> valid_utf8 extra_text"
| "wf_option (MacOption address) \<longleftrightarrow> wf_mac address"
| "wf_option (UnknownOption code _) \<longleftrightarrow> code \<notin> set known_codes"
| "wf_option _ \<longleftrightarrow> True"

lemma pad_to_take:
  assumes "length xs = n" and "\<forall>b\<in>set (drop k xs). b = 0"
  shows "pad_to n (take (min k n) xs) = xs"
proof -
  have "drop k xs = replicate (length (drop k xs)) 0"
    using assms(2) by (metis replicate_eqI)
  with assms(1) have "take k xs @ replicate (n - k) 0 = xs"
    using append_take_drop_id[of k xs] by simp
  then show ?thesis using assms(1) by (cases "k \<le> n") (simp_all add: pad_to_def min_def)
qed

lemma be16_put_u16 [simp]: "be16 (put_u16 w ! 0) (put_u16 w ! Suc 0) = w"
  by (simp add: put_u16_def be16_put)

lemma parse_client_subnet_put:
  "parse_client_subnet (put_u16 f @ [s, c] @ a) =
     (if f = 1 then if 4 < length a then Err (Edns0Failed ''IPv4 client subnet address too long'')
        else Ok (ClientSubnet f s c (V4 (pad_to 4 a)))
      else if f = 2 then if 16 < length a then Err (Edns0Failed ''IPv6 client subnet address too long'')
        else Ok (ClientSubnet f s c (V6 (pad_to 16 a)))
      else Err (Edns0Failed ''Unsupported address family in client subnet''))"
  by (simp add: parse_client_subnet_def put_u16_def be16_put Let_def numeral_2_eq_2 numeral_3_eq_3)

lemma option_round_trip:
  assumes "wf_option opt"
  shows "option_from_wire (option_code opt) (option_to_wire opt) = Ok opt"
proof (cases opt)
  case (ClientSubnet f s c a)
  show ?thesis
  proof (cases a)
    case (V4 o4)
    with ClientSubnet assms show ?thesis
      using pad_to_take[of o4 4 "(unat s + 7) div 8"]
      by (simp add: option_from_wire_def parse_client_subnet_put[simplified] Let_def)
  next
    case (V6 o6)
    with ClientSubnet assms show ?thesis
      using pad_to_take[of o6 16 "(unat s + 7) div 8"]
      by (simp add: option_from_wire_def parse_client_subnet_put[simplified] Let_def)
  qed
next
  case (Cookie c s)
  then show ?thesis using assms
    by (cases s) (auto simp: option_from_wire_def parse_cookie_def)
next
  case (ExtendedError i t)
  then show ?thesis using assms
    by (cases t) (auto simp: option_from_wire_def parse_extended_error_def nth_append from_utf8_lossy_valid)
qed (use assms in \<open>auto simp: option_from_wire_def parse_mac_def wf_mac_def known_codes_def\<close>)


subsection \<open>OPT record round trip\<close>

lemma opt_rdata_Cons:
  "opt \<noteq> DnssecOk \<Longrightarrow> opt_rdata (opt # opts) =
     put_u16 (option_code opt) @ put_u16 (of_nat (length (option_to_wire opt))) @ option_to_wire opt @ opt_rdata opts"
  by (simp add: opt_rdata_def)

lemma opt_rdata_Nil [simp]: "opt_rdata [] = []"
  by (simp add: opt_rdata_def)

lemma opt_options_loop_rdata:
  assumes "\<forall>opt\<in>set opts. wf_option opt \<and> length (option_to_wire opt) < 65536"
    and "off = length pre" and "fin = off + length (opt_rdata opts)"
  shows "opt_options_loop (pre @ opt_rdata opts @ post) off fin acc = Ok (acc @ opts, fin)"
  using assms
proof (induction opts arbitrary: pre acc off)
  case Nil
  then show ?case by (simp add: opt_options_loop.simps)
next
  case (Cons opt opts)
  let ?d = "option_to_wire opt" and ?n = "of_nat (length (option_to_wire opt)) :: u16"
  let ?pre = "pre @ put_u16 (option_code opt) @ put_u16 ?n @ ?d"
  have o: "opt \<noteq> DnssecOk" "length ?d < 65536" using Cons.prems by auto
  have n: "unat ?n = length ?d" using o by (simp add: unat_of_nat_u16)
  have dat: "pre @ opt_rdata (opt # opts) @ post = ?pre @ opt_rdata opts @ post"
    using o by (simp add: opt_rdata_Cons)
  have fin: "fin = off + 4 + length ?d + length (opt_rdata opts)"
    using Cons.prems o by (simp add: opt_rdata_Cons)
  have "opt_options_loop (?pre @ opt_rdata opts @ post) (off + 4 + length ?d) fin (acc @ [opt]) =
      Ok ((acc @ [opt]) @ opts, fin)"
    using Cons.prems fin by (intro Cons.IH) auto
  moreover have "option_from_wire (option_code opt) ?d = Ok opt"
    using Cons.prems by (simp add: option_round_trip)
  moreover have "slice (off + 4) (off + 4 + length ?d) (?pre @ opt_rdata opts @ post) = ?d"
    using Cons.prems(2) by (simp add: slice_def)
  ultimately show ?case
    unfolding dat using Cons.prems(2) fin n
      be16_at[of pre "option_code opt" "put_u16 ?n @ ?d @ opt_rdata opts @ post"]
      be16_at[of "pre @ put_u16 (option_code opt)" ?n "?d @ opt_rdata opts @ post"]
    by (subst opt_options_loop.simps) (simp add: Let_def numeral_3_eq_3)
qed

lemma opt_ttl_fields:
  "ucast (drop_bit 24 (opt_ttl r) AND 0xFF) = extended_rcode r"
  "ucast (drop_bit 16 (opt_ttl r) AND 0xFF) = version r"
  "ucast (opt_ttl r AND 0xFFFF) = opt_flags r"
proof -
  have b8: "\<not> bit (x :: u8) (8 + n)" for x n using bit_imp_le_length[of x "8 + n"] by auto
  have b16: "\<not> bit (x :: u16) (16 + n)" for x n using bit_imp_le_length[of x "16 + n"] by auto
  have m: "(0xFF :: u32) = mask 8" "(0xFFFF :: u32) = mask 16" by (simp_all add: mask_eq_exp_minus_1)
  show "ucast (drop_bit 24 (opt_ttl r) AND 0xFF) = extended_rcode r"
    "ucast (drop_bit 16 (opt_ttl r) AND 0xFF) = version r"
    "ucast (opt_ttl r AND 0xFFFF) = opt_flags r"
    unfolding m opt_ttl_def
    using b8[of "version r"] b16[of "opt_flags r"] b16[of "opt_flags r" "8 + _"]
    by (auto intro!: bit_word_eqI simp: bit_simps)
qed

lemma opt_rdata_option_length: "opt \<in> set opts \<Longrightarrow> opt \<noteq> DnssecOk \<Longrightarrow> length (option_to_wire opt) \<le> length (opt_rdata opts)"
  by (induction opts) (auto simp: opt_rdata_def)

lemma opt_round_trip:
  assumes "\<forall>opt\<in>set (options r). wf_option opt" and "length (opt_rdata (options r)) < 65536"
  shows "opt_from_wire (opt_to_wire r @ post) = Ok (r, length (opt_to_wire r))"
proof -
  let ?rd = "opt_rdata (options r)"
  define pre where "pre = [0] @ put_u16 T_OPT @ put_u16 (udp_payload_size r) @ put_u32 (opt_ttl r) @
    put_u16 (of_nat (length ?rd))"
  have dat: "opt_to_wire r @ post = pre @ ?rd @ post" by (simp add: opt_to_wire_def pre_def)
  have len: "length pre = 11" "pre \<noteq> []" by (simp_all add: pre_def)
  have n: "unat (of_nat (length ?rd) :: u16) = length ?rd" using assms(2) by (simp add: unat_of_nat_u16)
  have hdr: "be16 (pre ! 1) (pre ! 2) = T_OPT" "be16 (pre ! 3) (pre ! 4) = udp_payload_size r"
    "be32 (pre ! 5) (pre ! 6) (pre ! 7) (pre ! 8) = opt_ttl r"
    "be16 (pre ! 9) (pre ! 10) = of_nat (length ?rd)" "pre ! 0 = 0"
    by (simp_all only: pre_def put_u16_def put_u32_def append.simps nth_Cons_numeral nth_Cons_0
        nth_Cons_Suc One_nat_def numeral_2_eq_2 numeral_3_eq_3) (simp_all add: be16_put be32_put be16_def[of 0 41])
  have nth: "(pre @ ?rd @ post) ! i = pre ! i" if "i < 11" for i using that len by (simp add: nth_append)
  have "\<forall>opt\<in>set (options r). wf_option opt \<and> length (option_to_wire opt) < 65536"
    using assms opt_rdata_option_length[of _ "options r"] by fastforce
  from opt_options_loop_rdata[OF this len(1)[symmetric] refl]
  have "opt_options_loop (pre @ ?rd @ post) 11 (11 + length ?rd) [] = Ok (options r, 11 + length ?rd)"
    by simp
  moreover have "length (opt_to_wire r) = 11 + length ?rd" by (simp add: opt_to_wire_def)
  ultimately show ?thesis
    unfolding dat opt_from_wire_def using len hdr n
    by (simp add: nth Let_def opt_ttl_fields)
qed

subsection \<open>Properties\<close>

text \<open>
  An OPT record whose options are representable and whose data fits in a 16-bit length is parsed
  back from its wire form, with the extended response code, the version and the flag word packed into
  the TTL field, whatever bytes follow it.
\<close>

theorem opt_record_round_trip:
  assumes "\<forall>opt\<in>set (options r). wf_option opt" and "length (opt_rdata (options r)) < 65536"
  shows "opt_from_wire (opt_to_wire r @ post) = Ok (r, length (opt_to_wire r))"
  using assms by (rule opt_round_trip)

definition example_opt :: opt_record where
  "example_opt = \<lparr>udp_payload_size = 4096, extended_rcode = 1, version = 0, opt_flags = EDNS_DO_BIT,
     options = [ClientSubnet 1 24 0 (V4 [10, 0, 1, 0]), Cookie [1, 2, 3, 4, 5, 6, 7, 8] None]\<rparr>"

theorem opt_record_round_trip_witness:
  "opt_from_wire (opt_to_wire example_opt @ [1]) = Ok (example_opt, length (opt_to_wire example_opt))"
  by (rule opt_record_round_trip) (simp_all add: example_opt_def opt_rdata_def)

end
