(* ===== verification/Resource_Record.thy ===== *)
theory Resource_Record
  imports Domain_Name Edns0
begin

text \<open>
  Resource records, \<open>src/dns/protocol/record.rs\<close>: the record and its typed data, the parser with one
  definition per record type of the code's \<open>match\<close>, and the serializer.  An input slice of the nom
  parsers is a pair of its position in the message and its bytes, since \<open>parse_domain_name\<close> computes the
  position from the pointers.  The main result is that parsing a serialized record data gives it back.
\<close>

type_synonym slice_t = "nat \<times> bytes"

datatype nom_error = NomFail | NomEof

definition on_slice :: "(bytes \<Rightarrow> (bytes \<times> 'a) option) \<Rightarrow> slice_t \<Rightarrow> (slice_t \<times> 'a) option" where
  "on_slice f sl = (case f (snd sl) of None \<Rightarrow> None
     | Some (r, x) \<Rightarrow> Some ((fst sl + (length (snd sl) - length r), r), x))"

text \<open>A nom parser whose error the code turns into \<open>ParseFailed\<close>.\<close>

definition nom :: "reason \<Rightarrow> (bytes \<Rightarrow> (bytes \<times> 'a) option) \<Rightarrow> slice_t \<Rightarrow> (slice_t \<times> 'a, dns_error) outcome" where
  "nom r f sl = ok_or (ParseFailed ''local'' r) (on_slice f sl)"

definition parse_domain_name :: "slice_t \<Rightarrow> bytes \<Rightarrow> (slice_t \<times> domain_name, nom_error) outcome" where
  "parse_domain_name sl message =
     (if length message < fst sl then Err NomFail
      else case from_wire message (fst sl) of
          Ok (domain_name, next_offset) \<Rightarrow>
            let bytes_consumed = next_offset - fst sl in
            if length (snd sl) < bytes_consumed then Err NomEof
            else Ok ((fst sl + bytes_consumed, drop bytes_consumed (snd sl)), domain_name)
        | Err _ \<Rightarrow> Err NomFail
        | Panic \<Rightarrow> Panic)"

definition parse_domain_name_rdata :: "slice_t \<Rightarrow> bytes \<Rightarrow> (slice_t \<times> domain_name, dns_error) outcome" where
  "parse_domain_name_rdata sl message =
     (if length message < fst sl then Err (ParseFailed ''local'' ''Input not within message bounds'')
      else case from_wire message (fst sl) of
          Ok (domain_name, next_offset) \<Rightarrow>
            let bytes_consumed = next_offset - fst sl in
            if length (snd sl) < bytes_consumed then
              Err (ParseFailed ''local'' ''Domain name parsing consumed more bytes than available'')
            else Ok ((fst sl + bytes_consumed, drop bytes_consumed (snd sl)), domain_name)
        | Err e \<Rightarrow> Err e
        | Panic \<Rightarrow> Panic)"

subsection \<open>Data\<close>

datatype rdata =
    RD_A bytes
  | RD_AAAA bytes
  | RD_Cname domain_name
  | RD_Ptr domain_name
  | RD_Mx u16 domain_name
  | RD_Txt "bytes list"
  | RD_Soa domain_name domain_name u32 u32 u32 u32 u32
  | RD_Ns domain_name
  | RD_Srv u16 u16 u16 domain_name
  | RD_Naptr u16 u16 bytes bytes bytes domain_name
  | RD_Dnskey u16 u8 u8 bytes
  | RD_Ds u16 u8 u8 bytes
  | RD_Rrsig u16 u8 u8 u32 u32 u32 u16 domain_name bytes
  | RD_Nsec domain_name bytes
  | RD_Nsec3 u8 u8 u16 bytes bytes bytes
  | RD_Opt "edns0_option list"
  | RD_Caa u8 bytes bytes
  | RD_Unknown u16 bytes

record resource_record =
  rr_name :: domain_name
  rr_type :: record_type
  rr_class :: u16
  rr_ttl :: u32
  rr_data :: rdata

definition rr_new :: "domain_name \<Rightarrow> record_type \<Rightarrow> u16 \<Rightarrow> u32 \<Rightarrow> rdata \<Rightarrow> resource_record" where
  "rr_new name rtype class ttl rd =
     \<lparr>rr_name = name, rr_type = rtype, rr_class = class, rr_ttl = ttl, rr_data = rd\<rparr>"

definition with_ttl :: "u32 \<Rightarrow> resource_record \<Rightarrow> resource_record" where
  "with_ttl ttl rr = rr\<lparr>rr_ttl := ttl\<rparr>"

definition with_class :: "u16 \<Rightarrow> resource_record \<Rightarrow> resource_record" where
  "with_class class rr = rr\<lparr>rr_class := class\<rparr>"

subsection \<open>Parsing record data\<close>

definition parse_a :: "slice_t \<Rightarrow> u16 \<Rightarrow> (rdata, dns_error) outcome" where
  "parse_a sl rdlength =
     (if rdlength \<noteq> 4 then Err (ParseFailed ''local'' ''A record RDATA must be 4 bytes'')
      else if length (snd sl) < 4 then Panic
      else Ok (RD_A (take 4 (snd sl))))"

definition parse_aaaa :: "slice_t \<Rightarrow> u16 \<Rightarrow> (rdata, dns_error) outcome" where
  "parse_aaaa sl rdlength =
     (if rdlength \<noteq> 16 then Err (ParseFailed ''local'' ''AAAA record RDATA must be 16 bytes'')
      else if length (snd sl) < 16 then Panic
      else Ok (RD_AAAA (take 16 (snd sl))))"

definition parse_cname :: "slice_t \<Rightarrow> bytes \<Rightarrow> (rdata, dns_error) outcome" where
  "parse_cname sl message = rbind (parse_domain_name_rdata sl message) (\<lambda>(_, cname). Ok (RD_Cname cname))"

definition parse_ptr :: "slice_t \<Rightarrow> bytes \<Rightarrow> (rdata, dns_error) outcome" where
  "parse_ptr sl message = rbind (parse_domain_name_rdata sl message) (\<lambda>(_, ptrdname). Ok (RD_Ptr ptrdname))"

definition parse_mx :: "slice_t \<Rightarrow> bytes \<Rightarrow> u16 \<Rightarrow> (rdata, dns_error) outcome" where
  "parse_mx sl message rdlength =
     (if rdlength < 2 then Err (ParseFailed ''local'' ''MX record RDATA too short for preference field'')
      else rbind (nom ''Failed to parse MX preference'' be_u16 sl) (\<lambda>(input, preference).
        rbind (parse_domain_name_rdata input message) (\<lambda>(_, exchange). Ok (RD_Mx preference exchange))))"

function parse_txt_loop :: "bytes \<Rightarrow> bytes list \<Rightarrow> (rdata, dns_error) outcome" where
  "parse_txt_loop input txt_data =
     (if input = [] then Ok (RD_Txt txt_data)
      else case length_data input of
          None \<Rightarrow> Err (ParseFailed ''local'' ''Failed to parse TXT string'')
        | Some (remaining, txt_string) \<Rightarrow> parse_txt_loop remaining (txt_data @ [txt_string]))"
  by pat_completeness auto
termination
  by (relation "measure (\<lambda>(input, _). length input)") (auto dest: length_data_Some_length)

definition parse_soa :: "slice_t \<Rightarrow> bytes \<Rightarrow> (rdata, dns_error) outcome" where
  "parse_soa sl message =
     rbind (parse_domain_name_rdata sl message) (\<lambda>(input, mname).
     rbind (parse_domain_name_rdata input message) (\<lambda>(input, rname).
     rbind (nom ''Failed to parse SOA integers'' be_u32 input) (\<lambda>(input, serial).
     rbind (nom ''Failed to parse SOA integers'' be_u32 input) (\<lambda>(input, refresh).
     rbind (nom ''Failed to parse SOA integers'' be_u32 input) (\<lambda>(input, retry).
     rbind (nom ''Failed to parse SOA integers'' be_u32 input) (\<lambda>(input, expire).
     rbind (nom ''Failed to parse SOA integers'' be_u32 input) (\<lambda>(_, minimum).
       Ok (RD_Soa mname rname serial refresh retry expire minimum))))))))"

definition parse_ns :: "slice_t \<Rightarrow> bytes \<Rightarrow> (rdata, dns_error) outcome" where
  "parse_ns sl message = rbind (parse_domain_name_rdata sl message) (\<lambda>(_, nsdname). Ok (RD_Ns nsdname))"

definition parse_srv :: "slice_t \<Rightarrow> bytes \<Rightarrow> u16 \<Rightarrow> (rdata, dns_error) outcome" where
  "parse_srv sl message rdlength =
     (if rdlength < 6 then Err (ParseFailed ''local'' ''SRV record RDATA too short'')
      else rbind (nom ''Failed to parse SRV fields'' be_u16 sl) (\<lambda>(input, priority).
      rbind (nom ''Failed to parse SRV fields'' be_u16 input) (\<lambda>(input, weight).
      rbind (nom ''Failed to parse SRV fields'' be_u16 input) (\<lambda>(input, port).
      rbind (map_err (\<lambda>_. ParseFailed ''local'' ''Failed to parse SRV target'')
          (parse_domain_name_rdata input message)) (\<lambda>(_, target).
        Ok (RD_Srv priority weight port target))))))"

definition parse_naptr :: "slice_t \<Rightarrow> bytes \<Rightarrow> u16 \<Rightarrow> (rdata, dns_error) outcome" where
  "parse_naptr sl message rdlength =
     (if rdlength < 7 then Err (ParseFailed ''local'' ''NAPTR record RDATA too short'')
      else rbind (nom ''Failed to parse NAPTR order/preference'' be_u16 sl) (\<lambda>(input, order).
      rbind (nom ''Failed to parse NAPTR order/preference'' be_u16 input) (\<lambda>(input, preference).
      rbind (nom ''Failed to parse NAPTR flags'' length_data input) (\<lambda>(input, flags_bytes).
      rbind (nom ''Failed to parse NAPTR service'' length_data input) (\<lambda>(input, service_bytes).
      rbind (nom ''Failed to parse NAPTR regexp'' length_data input) (\<lambda>(input, regexp_bytes).
      rbind (map_err (\<lambda>_. ParseFailed ''local'' ''Failed to parse NAPTR replacement'')
          (parse_domain_name_rdata input message)) (\<lambda>(_, replacement).
        Ok (RD_Naptr order preference (from_utf8_lossy flags_bytes) (from_utf8_lossy service_bytes)
              (from_utf8_lossy regexp_bytes) replacement))))))))"

definition parse_dnskey :: "slice_t \<Rightarrow> u16 \<Rightarrow> (rdata, dns_error) outcome" where
  "parse_dnskey sl rdlength =
     (if rdlength < 4 then Err (ParseFailed ''local'' ''DNSKEY record RDATA too short'')
      else rbind (nom ''Failed to parse DNSKEY header'' be_u16 sl) (\<lambda>(input, flags).
      rbind (nom ''Failed to parse DNSKEY header'' be_u8 input) (\<lambda>(input, protocol).
      rbind (nom ''Failed to parse DNSKEY header'' be_u8 input) (\<lambda>(input, algorithm).
        Ok (RD_Dnskey flags protocol algorithm (snd input))))))"

definition parse_ds :: "slice_t \<Rightarrow> u16 \<Rightarrow> (rdata, dns_error) outcome" where
  "parse_ds sl rdlength =
     (if rdlength < 4 then Err (ParseFailed ''local'' ''DS record RDATA too short'')
      else rbind (nom ''Failed to parse DS header'' be_u16 sl) (\<lambda>(input, key_tag).
      rbind (nom ''Failed to parse DS header'' be_u8 input) (\<lambda>(input, algorithm).
      rbind (nom ''Failed to parse DS header'' be_u8 input) (\<lambda>(input, digest_type).
        Ok (RD_Ds key_tag algorithm digest_type (snd input))))))"

definition parse_rrsig :: "slice_t \<Rightarrow> bytes \<Rightarrow> u16 \<Rightarrow> (rdata, dns_error) outcome" where
  "parse_rrsig sl message rdlength =
     (if rdlength < 18 then Err (ParseFailed ''local'' ''RRSIG record RDATA too short'')
      else rbind (nom ''Failed to parse RRSIG header'' be_u16 sl) (\<lambda>(input, type_covered).
      rbind (nom ''Failed to parse RRSIG header'' be_u8 input) (\<lambda>(input, algorithm).
      rbind (nom ''Failed to parse RRSIG header'' be_u8 input) (\<lambda>(input, label_count).
      rbind (nom ''Failed to parse RRSIG header'' be_u32 input) (\<lambda>(input, original_ttl).
      rbind (nom ''Failed to parse RRSIG header'' be_u32 input) (\<lambda>(input, expiration).
      rbind (nom ''Failed to parse RRSIG header'' be_u32 input) (\<lambda>(input, inception).
      rbind (nom ''Failed to parse RRSIG header'' be_u16 input) (\<lambda>(input, key_tag).
      rbind (map_err (\<lambda>_. ParseFailed ''local'' ''Failed to parse RRSIG signer'')
          (parse_domain_name_rdata input message)) (\<lambda>(input, signer).
        Ok (RD_Rrsig type_covered algorithm label_count original_ttl expiration inception key_tag signer
              (snd input)))))))))))"

definition parse_nsec :: "slice_t \<Rightarrow> bytes \<Rightarrow> (rdata, dns_error) outcome" where
  "parse_nsec sl message =
     rbind (map_err (\<lambda>_. ParseFailed ''local'' ''Failed to parse NSEC next domain'')
        (parse_domain_name_rdata sl message)) (\<lambda>(input, next_domain).
       Ok (RD_Nsec next_domain (snd input)))"

definition parse_nsec3 :: "slice_t \<Rightarrow> u16 \<Rightarrow> (rdata, dns_error) outcome" where
  "parse_nsec3 sl rdlength =
     (if rdlength < 6 then Err (ParseFailed ''local'' ''NSEC3 record RDATA too short'')
      else rbind (nom ''Failed to parse NSEC3 header'' be_u8 sl) (\<lambda>(input, hash_algorithm).
      rbind (nom ''Failed to parse NSEC3 header'' be_u8 input) (\<lambda>(input, flags).
      rbind (nom ''Failed to parse NSEC3 header'' be_u16 input) (\<lambda>(input, iterations).
      rbind (nom ''Failed to parse NSEC3 salt'' length_data input) (\<lambda>(input, salt).
      rbind (nom ''Failed to parse NSEC3 next hash'' length_data input) (\<lambda>(input, next_hashed).
        Ok (RD_Nsec3 hash_algorithm flags iterations salt next_hashed (snd input))))))))"

function parse_opt_loop :: "bytes \<Rightarrow> edns0_option list \<Rightarrow> (rdata, dns_error) outcome" where
  "parse_opt_loop input opts =
     (if length input < 4 then Ok (RD_Opt opts)
      else case be_u16 input of
          None \<Rightarrow> Err (ParseFailed ''local'' ''Failed to parse OPT option header'')
        | Some (remaining, opt_code) \<Rightarrow>
      (case be_u16 remaining of
          None \<Rightarrow> Err (ParseFailed ''local'' ''Failed to parse OPT option header'')
        | Some (remaining, option_length) \<Rightarrow>
      (case take_bytes (unat option_length) remaining of
          None \<Rightarrow> Err (ParseFailed ''local'' ''Failed to parse OPT option data'')
        | Some (remaining, option_data) \<Rightarrow>
            rbind (map_err (\<lambda>_. ParseFailed ''local'' ''Failed to parse EDNS0 option'')
               (option_from_wire opt_code option_data)) (\<lambda>opt.
              parse_opt_loop remaining (opts @ [opt])))))"
  by pat_completeness auto
termination
  by (relation "measure (\<lambda>(input, _). length input)")
    (auto dest!: be_u16_Some_length take_bytes_Some_length)

definition parse_caa :: "slice_t \<Rightarrow> u16 \<Rightarrow> (rdata, dns_error) outcome" where
  "parse_caa sl rdlength =
     (if rdlength < 2 then Err (ParseFailed ''local'' ''CAA record RDATA too short'')
      else rbind (nom ''Failed to parse CAA flags'' be_u8 sl) (\<lambda>(input, flags).
      rbind (nom ''Failed to parse CAA tag'' length_data input) (\<lambda>(input, tag_bytes).
        Ok (RD_Caa flags (from_utf8_lossy tag_bytes) (from_utf8_lossy (snd input))))))"

declare parse_txt_loop.simps [simp del] parse_opt_loop.simps [simp del]

fun parse_rdata :: "slice_t \<Rightarrow> bytes \<Rightarrow> record_type \<Rightarrow> u16 \<Rightarrow> (rdata, dns_error) outcome" where
  "parse_rdata sl message RT_A rdlength = parse_a sl rdlength"
| "parse_rdata sl message RT_AAAA rdlength = parse_aaaa sl rdlength"
| "parse_rdata sl message RT_CNAME rdlength = parse_cname sl message"
| "parse_rdata sl message RT_PTR rdlength = parse_ptr sl message"
| "parse_rdata sl message RT_MX rdlength = parse_mx sl message rdlength"
| "parse_rdata sl message RT_TXT rdlength = parse_txt_loop (snd sl) []"
| "parse_rdata sl message RT_SOA rdlength = parse_soa sl message"
| "parse_rdata sl message RT_NS rdlength = parse_ns sl message"
| "parse_rdata sl message RT_SRV rdlength = parse_srv sl message rdlength"
| "parse_rdata sl message RT_NAPTR rdlength = parse_naptr sl message rdlength"
| "parse_rdata sl message RT_DNSKEY rdlength = parse_dnskey sl rdlength"
| "parse_rdata sl message RT_DS rdlength = parse_ds sl rdlength"
| "parse_rdata sl message RT_RRSIG rdlength = parse_rrsig sl message rdlength"
| "parse_rdata sl message RT_NSEC rdlength = parse_nsec sl message"
| "parse_rdata sl message RT_NSEC3 rdlength = parse_nsec3 sl rdlength"
| "parse_rdata sl message RT_OPT rdlength = parse_opt_loop (snd sl) []"
| "parse_rdata sl message RT_CAA rdlength = parse_caa sl rdlength"
| "parse_rdata sl message rtype rdlength = Ok (RD_Unknown (u16_of_record_type rtype) (snd sl))"

definition rr_parse :: "slice_t \<Rightarrow> bytes \<Rightarrow> (slice_t \<times> resource_record, nom_error) outcome" where
  "rr_parse sl message =
     rbind (parse_domain_name sl message) (\<lambda>(input, name).
     rbind (ok_or NomEof (on_slice be_u16 input)) (\<lambda>(input, type_code).
     rbind (ok_or NomEof (on_slice be_u16 input)) (\<lambda>(input, class).
     rbind (ok_or NomEof (on_slice be_u32 input)) (\<lambda>(input, ttl).
     rbind (ok_or NomEof (on_slice be_u16 input)) (\<lambda>(input, rdlength).
     rbind (ok_or NomEof (on_slice (take_bytes (unat rdlength)) input)) (\<lambda>(input', rdata_bytes).
       let rtype = record_type_of_u16 type_code in
       rbind (map_err (\<lambda>_. NomFail) (parse_rdata (fst input, rdata_bytes) message rtype rdlength)) (\<lambda>rd.
         Ok (input', rr_new name rtype class ttl rd))))))))"

subsection \<open>Serializing\<close>

definition put_len8 :: "bytes \<Rightarrow> bytes" where
  "put_len8 bs = of_nat (length bs) # bs"

definition put_opt :: "edns0_option \<Rightarrow> bytes" where
  "put_opt opt = (let (code, dat) = option_serialize opt in put_u16 code @ put_u16 (of_nat (length dat)) @ dat)"

fun serialize_rdata :: "rdata \<Rightarrow> (bytes, dns_error) outcome" where
  "serialize_rdata (RD_A addr) = Ok addr"
| "serialize_rdata (RD_AAAA addr) = Ok addr"
| "serialize_rdata (RD_Cname cname) = to_wire cname [] None"
| "serialize_rdata (RD_Ptr ptrdname) = to_wire ptrdname [] None"
| "serialize_rdata (RD_Mx preference exchange) = to_wire exchange (put_u16 preference) None"
| "serialize_rdata (RD_Txt txt_data) = Ok (concat (map put_len8 txt_data))"
| "serialize_rdata (RD_Soa mname rname serial refresh retry expire minimum) =
     rbind (to_wire mname [] None) (\<lambda>buf. rbind (to_wire rname buf None) (\<lambda>buf.
       Ok (buf @ put_u32 serial @ put_u32 refresh @ put_u32 retry @ put_u32 expire @ put_u32 minimum)))"
| "serialize_rdata (RD_Ns nsdname) = to_wire nsdname [] None"
| "serialize_rdata (RD_Srv priority weight port target) =
     to_wire target (put_u16 priority @ put_u16 weight @ put_u16 port) None"
| "serialize_rdata (RD_Naptr order preference flags service regexp replacement) =
     to_wire replacement (put_u16 order @ put_u16 preference @ put_len8 flags @ put_len8 service @
       put_len8 regexp) None"
| "serialize_rdata (RD_Dnskey flags protocol algorithm public_key) =
     Ok (put_u16 flags @ [protocol, algorithm] @ public_key)"
| "serialize_rdata (RD_Ds key_tag algorithm digest_type digest) =
     Ok (put_u16 key_tag @ [algorithm, digest_type] @ digest)"
| "serialize_rdata (RD_Rrsig type_covered algorithm label_count original_ttl expiration inception key_tag
      signer signature) =
     rbind (to_wire signer (put_u16 type_covered @ [algorithm, label_count] @ put_u32 original_ttl @
         put_u32 expiration @ put_u32 inception @ put_u16 key_tag) None) (\<lambda>buf. Ok (buf @ signature))"
| "serialize_rdata (RD_Nsec next_domain type_bitmap) =
     rbind (to_wire next_domain [] None) (\<lambda>buf. Ok (buf @ type_bitmap))"
| "serialize_rdata (RD_Nsec3 hash_algorithm flags iterations salt next_hashed type_bitmap) =
     Ok ([hash_algorithm, flags] @ put_u16 iterations @ put_len8 salt @ put_len8 next_hashed @ type_bitmap)"
| "serialize_rdata (RD_Opt opts) = Ok (concat (map put_opt opts))"
| "serialize_rdata (RD_Caa flags tag value) = Ok ([flags] @ put_len8 tag @ value)"
| "serialize_rdata (RD_Unknown _ rd) = Ok rd"

definition rr_serialize :: "resource_record \<Rightarrow> (bytes, dns_error) outcome" where
  "rr_serialize rr =
     rbind (to_wire (rr_name rr) [] None) (\<lambda>buf.
     rbind (serialize_rdata (rr_data rr)) (\<lambda>rdata_bytes.
       Ok (buf @ put_u16 (u16_of_record_type (rr_type rr)) @ put_u16 (rr_class rr) @ put_u32 (rr_ttl rr) @
         put_u16 (of_nat (length rdata_bytes)) @ rdata_bytes)))"

subsection \<open>Readers on positioned slices\<close>

lemma on_slice_readers [simp]:
  "on_slice be_u8 (pos, b # r) = Some ((pos + 1, r), b)"
  "on_slice be_u16 (pos, put_u16 w @ r) = Some ((pos + 2, r), w)"
  "on_slice be_u32 (pos, put_u32 v @ r) = Some ((pos + 4, r), v)"
  "on_slice be_u32 (pos, put_u32 v) = Some ((pos + 4, []), v)"
  "length xs < 256 \<Longrightarrow> on_slice length_data (pos, put_len8 xs @ r) = Some ((pos + length (put_len8 xs), r), xs)"
  using be_u32_put[of v "[]"]
  by (simp_all add: on_slice_def put_len8_def length_data_put del: length_data.simps)

lemma on_slice_take [simp]:
  "n = length xs \<Longrightarrow> on_slice (take_bytes n) (pos, xs @ r) = Some ((pos + length xs, r), xs)"
  by (simp add: on_slice_def)

lemma length_put_len8 [simp]: "length (put_len8 xs) = length xs + 1"
  by (simp add: put_len8_def)

lemma parse_domain_name_rdata_at [simp]:
  "wire_domain d \<Longrightarrow> occurs_at msg pos (dn_wire d) \<Longrightarrow>
   parse_domain_name_rdata (pos, dn_wire d @ r) msg = Ok ((pos + length (dn_wire d), r), d)"
  by (frule occurs_at_bound) (simp add: parse_domain_name_rdata_def from_wire_at Let_def)

lemma parse_domain_name_rdata_at_end [simp]:
  "wire_domain d \<Longrightarrow> occurs_at msg pos (dn_wire d) \<Longrightarrow>
   parse_domain_name_rdata (pos, dn_wire d) msg = Ok ((pos + length (dn_wire d), []), d)"
  using parse_domain_name_rdata_at[of d msg pos "[]"] by simp

lemma parse_domain_name_at:
  "wire_domain d \<Longrightarrow> occurs_at msg pos (dn_wire d) \<Longrightarrow>
   parse_domain_name (pos, dn_wire d @ r) msg = Ok ((pos + length (dn_wire d), r), d)"
  by (frule occurs_at_bound) (simp add: parse_domain_name_def from_wire_at Let_def)

subsection \<open>Record data round trip\<close>

definition dispatched_types :: "record_type list" where
  "dispatched_types = [RT_A, RT_AAAA, RT_CNAME, RT_PTR, RT_MX, RT_TXT, RT_SOA, RT_NS, RT_SRV, RT_NAPTR,
     RT_DNSKEY, RT_DS, RT_RRSIG, RT_NSEC, RT_NSEC3, RT_OPT, RT_CAA]"

text \<open>The record data a record of the type can carry and the serializer represents.\<close>

fun wf_rdata :: "record_type \<Rightarrow> rdata \<Rightarrow> bool" where
  "wf_rdata t (RD_A addr) \<longleftrightarrow> t = RT_A \<and> length addr = 4"
| "wf_rdata t (RD_AAAA addr) \<longleftrightarrow> t = RT_AAAA \<and> length addr = 16"
| "wf_rdata t (RD_Cname d) \<longleftrightarrow> t = RT_CNAME \<and> wire_domain d"
| "wf_rdata t (RD_Ptr d) \<longleftrightarrow> t = RT_PTR \<and> wire_domain d"
| "wf_rdata t (RD_Mx _ d) \<longleftrightarrow> t = RT_MX \<and> wire_domain d"
| "wf_rdata t (RD_Txt xs) \<longleftrightarrow> t = RT_TXT \<and> (\<forall>x\<in>set xs. length x < 256)"
| "wf_rdata t (RD_Soa m r _ _ _ _ _) \<longleftrightarrow> t = RT_SOA \<and> wire_domain m \<and> wire_domain r"
| "wf_rdata t (RD_Ns d) \<longleftrightarrow> t = RT_NS \<and> wire_domain d"
| "wf_rdata t (RD_Srv _ _ _ d) \<longleftrightarrow> t = RT_SRV \<and> wire_domain d"
| "wf_rdata t (RD_Naptr _ _ f s r d) \<longleftrightarrow> t = RT_NAPTR \<and> wire_domain d \<and>
     (\<forall>x\<in>{f, s, r}. length x < 256 \<and> valid_utf8 x)"
| "wf_rdata t (RD_Dnskey _ _ _ _) \<longleftrightarrow> t = RT_DNSKEY"
| "wf_rdata t (RD_Ds _ _ _ _) \<longleftrightarrow> t = RT_DS"
| "wf_rdata t (RD_Rrsig _ _ _ _ _ _ _ d _) \<longleftrightarrow> t = RT_RRSIG \<and> wire_domain d"
| "wf_rdata t (RD_Nsec d _) \<longleftrightarrow> t = RT_NSEC \<and> wire_domain d"
| "wf_rdata t (RD_Nsec3 _ _ _ s n _) \<longleftrightarrow> t = RT_NSEC3 \<and> length s < 256 \<and> length n < 256"
| "wf_rdata t (RD_Opt opts) \<longleftrightarrow> t = RT_OPT \<and> (\<forall>opt\<in>set opts. wf_option opt)"
| "wf_rdata t (RD_Caa _ g v) \<longleftrightarrow> t = RT_CAA \<and> length g < 256 \<and> valid_utf8 g \<and> valid_utf8 v"
| "wf_rdata t (RD_Unknown code _) \<longleftrightarrow> t \<notin> set dispatched_types \<and> code = u16_of_record_type t"

lemma parse_txt_loop_put:
  "\<forall>x\<in>set xs. length x < 256 \<Longrightarrow> parse_txt_loop (concat (map put_len8 xs)) acc = Ok (RD_Txt (acc @ xs))"
proof (induction xs arbitrary: acc)
  case (Cons x xs)
  then show ?case
    by (subst parse_txt_loop.simps) (simp add: put_len8_def[of x] length_data_put del: length_data.simps)
qed (simp add: parse_txt_loop.simps)

lemma parse_opt_loop_put:
  assumes "\<forall>opt\<in>set opts. wf_option opt" and "length (concat (map put_opt opts)) < 65536"
  shows "parse_opt_loop (concat (map put_opt opts)) acc = Ok (RD_Opt (acc @ opts))"
  using assms
proof (induction opts arbitrary: acc)
  case (Cons opt opts)
  have "length (option_to_wire opt) < 65536" "length (concat (map put_opt opts)) < 65536"
    using Cons.prems by (simp_all add: put_opt_def[of opt] option_serialize_def)
  with Cons show ?case
    by (subst parse_opt_loop.simps)
      (simp add: put_opt_def[of opt] option_serialize_def unat_of_nat_u16 option_round_trip)
qed (simp add: parse_opt_loop.simps)

lemma parse_rdata_unknown:
  "t \<notin> set dispatched_types \<Longrightarrow>
   parse_rdata sl msg t n = Ok (RD_Unknown (u16_of_record_type t) (snd sl))"
  by (cases t) (simp_all add: dispatched_types_def)

lemmas rdata_parsers = parse_a_def parse_aaaa_def parse_cname_def parse_ptr_def parse_mx_def parse_soa_def
  parse_ns_def parse_srv_def parse_naptr_def parse_dnskey_def parse_ds_def parse_rrsig_def parse_nsec_def
  parse_nsec3_def parse_caa_def

lemma rdata_round_trip:
  assumes "wf_rdata t rd" and "serialize_rdata rd = Ok bs" and "unat rdlength = length bs"
    and "occurs_at msg pos bs"
  shows "parse_rdata (pos, bs) msg t rdlength = Ok rd"
proof -
  have "length bs < 65536" by (metis assms(3) unat_u16_less)
  note [simp] = rdata_parsers nom_def to_wire_uncompressed rust_simps word_less_nat_alt from_utf8_lossy_valid
  show ?thesis
  proof (cases rd)
    case (RD_Opt opts)
    then show ?thesis using assms \<open>length bs < 65536\<close> by (auto simp: parse_opt_loop_put)
  qed (use assms in \<open>auto simp: parse_txt_loop_put parse_rdata_unknown word_unat_eq_iff[of rdlength]\<close>)
qed

subsection \<open>Record round trip\<close>

definition wf_rr :: "resource_record \<Rightarrow> bool" where
  "wf_rr rr \<longleftrightarrow> wire_domain (rr_name rr) \<and> canonical_rtype (rr_type rr) \<and> wf_rdata (rr_type rr) (rr_data rr) \<and>
     (case serialize_rdata (rr_data rr) of Ok bs \<Rightarrow> length bs < 65536 | _ \<Rightarrow> False)"

lemma serialize_rdata_total: "wf_rdata t rd \<Longrightarrow> \<exists>bs. serialize_rdata rd = Ok bs"
  by (cases rd) (auto simp: to_wire_uncompressed rust_simps)

lemma rr_serialize_wf:
  "wf_rr rr \<Longrightarrow> serialize_rdata (rr_data rr) = Ok bs \<Longrightarrow> rr_serialize rr = Ok (dn_wire (rr_name rr) @
     put_u16 (u16_of_record_type (rr_type rr)) @ put_u16 (rr_class rr) @ put_u32 (rr_ttl rr) @
     put_u16 (of_nat (length bs)) @ bs)"
  by (simp add: rr_serialize_def wf_rr_def to_wire_uncompressed rust_simps)

lemma rr_round_trip:
  assumes "wf_rr rr" and "rr_serialize rr = Ok bs" and "occurs_at msg pos bs"
  shows "rr_parse (pos, bs @ rest) msg = Ok ((pos + length bs, rest), rr)"
proof -
  from assms(1) obtain rd where rd: "serialize_rdata (rr_data rr) = Ok rd" "length rd < 65536"
    by (auto simp: wf_rr_def split: outcome.splits)
  note bs = rr_serialize_wf[OF assms(1) rd(1)] assms(2)
  from assms bs rd show ?thesis
    using rdata_round_trip[of "rr_type rr" "rr_data rr" rd "of_nat (length rd)" msg]
    by (auto simp: rr_parse_def parse_domain_name_at rust_simps wf_rr_def unat_of_nat_u16 canonical_rtype_def
        rr_new_def Let_def add.assoc)
qed

subsection \<open>Parsing never panics and stays inside its input\<close>

lemma parse_domain_name_rdata_not_Panic [simp]: "parse_domain_name_rdata sl msg \<noteq> Panic"
  by (auto simp: parse_domain_name_rdata_def Let_def split: outcome.splits)

lemma parse_domain_name_not_Panic [simp]: "parse_domain_name sl msg \<noteq> Panic"
  by (auto simp: parse_domain_name_def Let_def split: outcome.splits)

lemma parse_txt_loop_not_Panic [simp]: "parse_txt_loop i acc \<noteq> Panic"
  by (induction i acc rule: parse_txt_loop.induct) (subst parse_txt_loop.simps, auto split: option.splits)

lemma option_from_wire_not_Panic [simp]: "option_from_wire c dat \<noteq> Panic"
  by (auto simp: option_from_wire_def parse_client_subnet_def parse_cookie_def parse_extended_error_def
      parse_mac_def Let_def)

lemma parse_opt_loop_not_Panic [simp]: "parse_opt_loop i acc \<noteq> Panic"
  by (induction i acc rule: parse_opt_loop.induct)
    (subst parse_opt_loop.simps, auto simp: rust_simps split: option.splits)

lemma nom_not_Panic [simp]: "nom r f sl \<noteq> Panic"
  by (simp add: nom_def)

lemma parse_rdata_not_Panic:
  "unat rdlength \<le> length (snd sl) \<Longrightarrow> parse_rdata sl msg t rdlength \<noteq> Panic"
  by (cases "(sl, msg, t, rdlength)" rule: parse_rdata.cases) (auto simp: rdata_parsers rust_simps)

lemma rr_parse_not_Panic: "rr_parse sl msg \<noteq> Panic"
  by (auto simp: rr_parse_def rust_simps Let_def on_slice_def parse_rdata_not_Panic
      dest!: take_bytes_Some_length split: option.splits)

lemma on_slice_consumes:
  "on_slice be_u16 sl = Some (sl', w) \<Longrightarrow> length (snd sl) = length (snd sl') + 2"
  "on_slice be_u32 sl = Some (sl', v) \<Longrightarrow> length (snd sl) = length (snd sl') + 4"
  "on_slice (take_bytes n) sl = Some (sl', x) \<Longrightarrow> length (snd sl) = length (snd sl') + n"
  by (auto simp: on_slice_def split: option.splits
      dest: be_u16_Some_length be_u32_Some_length take_bytes_Some_length)

lemma parse_domain_name_consumes:
  "parse_domain_name sl msg = Ok (sl', d) \<Longrightarrow> length (snd sl') < length (snd sl)"
  by (auto simp: parse_domain_name_def Let_def split: if_splits outcome.splits dest!: from_wire_bounds)

lemma rr_parse_consumes:
  "rr_parse sl msg = Ok (sl', rr) \<Longrightarrow> length (snd sl') + 10 < length (snd sl)"
  by (auto simp: rr_parse_def rust_simps Let_def dest!: on_slice_consumes parse_domain_name_consumes)

subsection \<open>Properties\<close>

text \<open>
  Every well-formed record, of any of the typed kinds or of an unknown type, is parsed back from its
  serialization: if the serialized bytes stand at some position of a message, parsing there returns the
  record and the slice right after it.
\<close>

theorem record_round_trip:
  assumes "wf_rr rr"
  shows "\<exists>bs. rr_serialize rr = Ok bs \<and>
     (\<forall>pre post. rr_parse (length pre, bs @ post) (pre @ bs @ post) = Ok ((length pre + length bs, post), rr))"
proof -
  from assms obtain rd where rd: "serialize_rdata (rr_data rr) = Ok rd"
    by (auto simp: wf_rr_def split: outcome.splits)
  from rr_serialize_wf[OF assms this] obtain bs where "rr_serialize rr = Ok bs" by blast
  with rr_round_trip[OF assms this] show ?thesis by auto
qed

definition example_mx :: resource_record where
  "example_mx = rr_new example_name RT_MX 1 3600 (RD_Mx 10 example_sub)"

lemma wf_example_mx: "wf_rr example_mx"
proof -
  have "length (dn_wire example_sub) = 7"
    by (simp add: dn_wire_def dn_labels_valid[OF valid_examples(2)] length_wire_valid) (simp add: example_sub_def)
  then show ?thesis
    by (simp add: wf_rr_def example_mx_def rr_new_def wire_domain_def valid_examples canonical_rtype_def
        record_type_of_u16_def to_wire_uncompressed)
qed

theorem record_round_trip_witness:
  "\<exists>bs. rr_serialize example_mx = Ok bs \<and> rr_parse (2, bs @ [9]) ([7, 8] @ bs @ [9]) = Ok ((2 + length bs, [9]), example_mx)"
proof -
  from record_round_trip[OF wf_example_mx] obtain bs where "rr_serialize example_mx = Ok bs"
    "\<And>pre post. rr_parse (length pre, bs @ post) (pre @ bs @ post) = Ok ((length pre + length bs, post), example_mx)"
    by blast
  with this(2)[of "[7, 8]" "[9]"] show ?thesis by (simp add: numeral_2_eq_2)
qed

end
