(* ===== verification/Dns_Cache.thy ===== *)
theory Dns_Cache
  imports Resource_Record "HOL-Library.AList" "HOL-Library.Multiset"
begin

text \<open>
  The DNS cache, \<open>src/dns/cache.rs\<close>: entries, statistics and every operation of \<open>DnsCache\<close>.

  A \<open>CacheKey\<close> enters its hash map and its LRU list only through \<open>Eq\<close> and \<open>Hash\<close>, which fold
  the ASCII case of the name, so keys are represented by the folded name and the type (\<open>cache_id\<close>).
  \<open>entries\<close>, an \<open>AHashMap\<close>, is an association list; its iteration order is an argument \<open>iter\<close>.
  The \<open>lru\<close> crate is the argument \<open>L\<close>, a record of the operations the cache calls; what it
  documents about them is the locale \<open>lru_cache\<close>.  Every reading of the clock is an argument \<open>now\<close>.
\<close>

type_synonym cache_id = "bytes \<times> record_type"

subsection \<open>Entries\<close>

record cache_entry =
  ce_domain_name :: domain_name
  ce_record_type :: record_type
  ce_ip_addr :: "ip_addr option"
  ce_record :: resource_record
  ce_expiry :: timestamp
  ce_flags :: cache_flags
  ce_insert_time :: timestamp

definition cache_key :: "domain_name \<Rightarrow> record_type \<Rightarrow> cache_id" where
  "cache_key domain rtype = (dn_hash_input domain, rtype)"

definition entry_rdata :: "record_type \<Rightarrow> ip_addr option \<Rightarrow> rdata" where
  "entry_rdata rtype addr =
     (case (rtype, addr) of
        (RT_A, Some (V4 a)) \<Rightarrow> RD_A a
      | (RT_AAAA, Some (V6 a)) \<Rightarrow> RD_AAAA a
      | _ \<Rightarrow> RD_Unknown (u16_of_record_type rtype) [])"

definition entry_new :: "timestamp \<Rightarrow> domain_name \<Rightarrow> record_type \<Rightarrow> ip_addr option \<Rightarrow> u32 \<Rightarrow> cache_flags \<Rightarrow> cache_entry" where
  "entry_new now domain rtype addr ttl fs =
     \<lparr>ce_domain_name = domain, ce_record_type = rtype, ce_ip_addr = addr,
      ce_record = rr_new domain rtype 1 ttl (entry_rdata rtype addr),
      ce_expiry = timestamp_add now (secs (unat ttl)), ce_flags = fs, ce_insert_time = now\<rparr>"

definition entry_ttl :: "timestamp \<Rightarrow> cache_entry \<Rightarrow> u32" where
  "entry_ttl now e =
     of_nat (min (case duration_since (ce_expiry e) now of None \<Rightarrow> 0 | Some d \<Rightarrow> d div secs 1) (2 ^ 32 - 1))"

definition is_expired :: "timestamp \<Rightarrow> cache_entry \<Rightarrow> bool" where
  "is_expired now e \<longleftrightarrow> ce_expiry e \<le> now"

definition is_dhcp :: "cache_entry \<Rightarrow> bool" where
  "is_dhcp e \<longleftrightarrow> flags_contain (ce_flags e) CF_DHCP"

definition is_hosts :: "cache_entry \<Rightarrow> bool" where
  "is_hosts e \<longleftrightarrow> flags_contain (ce_flags e) CF_HOSTS"

definition is_forward :: "cache_entry \<Rightarrow> bool" where
  "is_forward e \<longleftrightarrow> flags_contain (ce_flags e) CF_FORWARD"

definition is_reverse :: "cache_entry \<Rightarrow> bool" where
  "is_reverse e \<longleftrightarrow> flags_contain (ce_flags e) CF_REVERSE"

abbreviation entry_key :: "cache_entry \<Rightarrow> cache_id" where
  "entry_key e \<equiv> cache_key (ce_domain_name e) (ce_record_type e)"

subsection \<open>The cache\<close>

record cache_stats =
  lookups :: u64
  hits :: u64
  misses :: u64
  current_size :: nat
  st_capacity :: nat
  evictions :: u64
  expirations :: u64
  insertions :: u64

text \<open>The operations of the \<open>lru\<close> crate the cache uses; results the cache ignores are left out.\<close>

record 'l lru_ops =
  lru_new :: "nat \<Rightarrow> 'l"
  lru_get :: "cache_id \<Rightarrow> 'l \<Rightarrow> cache_entry option \<times> 'l"
  lru_put :: "cache_id \<Rightarrow> cache_entry \<Rightarrow> 'l \<Rightarrow> 'l"
  lru_pop :: "cache_id \<Rightarrow> 'l \<Rightarrow> 'l"
  lru_pop_lru :: "'l \<Rightarrow> (cache_id \<times> cache_entry) option \<times> 'l"
  lru_clear :: "'l \<Rightarrow> 'l"

record 'l dns_cache =
  entries :: "(cache_id \<times> cache_entry) list"
  lru :: 'l
  capacity :: nat
  stats :: cache_stats

abbreviation CACHESIZ :: nat where "CACHESIZ \<equiv> 150"

definition stats_new :: "nat \<Rightarrow> cache_stats" where
  "stats_new n = \<lparr>lookups = 0, hits = 0, misses = 0, current_size = 0, st_capacity = n, evictions = 0,
     expirations = 0, insertions = 0\<rparr>"

definition lru_capacity :: "nat \<Rightarrow> nat" where
  "lru_capacity n = (if n = 0 then 150 else n)"

definition with_capacity :: "'l lru_ops \<Rightarrow> nat \<Rightarrow> 'l dns_cache" where
  "with_capacity L n = \<lparr>entries = [], lru = lru_new L (lru_capacity n), capacity = n, stats = stats_new n\<rparr>"

definition cache_new :: "'l lru_ops \<Rightarrow> nat \<Rightarrow> 'l dns_cache" where
  "cache_new L cache_size = with_capacity L (if cache_size = 0 then CACHESIZ else cache_size)"

definition on_stats :: "(cache_stats \<Rightarrow> cache_stats) \<Rightarrow> 'l dns_cache \<Rightarrow> 'l dns_cache" where
  "on_stats f c = c\<lparr>stats := f (stats c)\<rparr>"

definition find_by_name :: "'l lru_ops \<Rightarrow> timestamp \<Rightarrow> domain_name \<Rightarrow> record_type \<Rightarrow> 'l dns_cache
    \<Rightarrow> cache_entry option \<times> 'l dns_cache" where
  "find_by_name L now domain rtype c =
     (let c = on_stats (\<lambda>s. s\<lparr>lookups := lookups s + 1\<rparr>) c;
          key = cache_key domain rtype;
          (found, l) = lru_get L key (lru c);
          c = c\<lparr>lru := l\<rparr> in
      case found of
        Some e \<Rightarrow>
          if is_expired now e then
            (None, on_stats (\<lambda>s. s\<lparr>expirations := expirations s + 1, misses := misses s + 1\<rparr>)
                     (c\<lparr>lru := lru_pop L key (lru c), entries := AList.delete key (entries c)\<rparr>))
          else (Some e, on_stats (\<lambda>s. s\<lparr>hits := hits s + 1\<rparr>) c)
      | None \<Rightarrow> (None, on_stats (\<lambda>s. s\<lparr>misses := misses s + 1\<rparr>) c))"

fun find_addr_loop :: "'l lru_ops \<Rightarrow> timestamp \<Rightarrow> ip_addr \<Rightarrow> (cache_id \<times> cache_entry) list \<Rightarrow> 'l dns_cache
    \<Rightarrow> cache_entry option \<times> 'l dns_cache" where
  "find_addr_loop L now addr [] c = (None, on_stats (\<lambda>s. s\<lparr>misses := misses s + 1\<rparr>) c)"
| "find_addr_loop L now addr ((key, e) # es) c =
     (if ce_ip_addr e = Some addr then
        if is_expired now e then
          (None, on_stats (\<lambda>s. s\<lparr>expirations := expirations s + 1, misses := misses s + 1\<rparr>) c)
        else (Some e, on_stats (\<lambda>s. s\<lparr>hits := hits s + 1\<rparr>) (c\<lparr>lru := snd (lru_get L key (lru c))\<rparr>))
      else find_addr_loop L now addr es c)"

definition find_by_addr :: "'l lru_ops \<Rightarrow> ((cache_id \<times> cache_entry) list \<Rightarrow> (cache_id \<times> cache_entry) list)
    \<Rightarrow> timestamp \<Rightarrow> ip_addr \<Rightarrow> 'l dns_cache \<Rightarrow> cache_entry option \<times> 'l dns_cache" where
  "find_by_addr L iter now addr c =
     find_addr_loop L now addr (iter (entries c)) (on_stats (\<lambda>s. s\<lparr>lookups := lookups s + 1\<rparr>) c)"

definition evict_lru :: "'l lru_ops \<Rightarrow> 'l dns_cache \<Rightarrow> cache_entry option \<times> 'l dns_cache" where
  "evict_lru L c =
     (case lru_pop_lru L (lru c) of
        (Some (key, e), l) \<Rightarrow>
          let es = AList.delete key (entries c) in
          (Some e, on_stats (\<lambda>s. s\<lparr>evictions := evictions s + 1, current_size := length es\<rparr>)
             (c\<lparr>lru := l, entries := es\<rparr>))
      | (None, l) \<Rightarrow> (None, c\<lparr>lru := l\<rparr>))"

definition cache_insert :: "'l lru_ops \<Rightarrow> cache_entry \<Rightarrow> 'l dns_cache \<Rightarrow> 'l dns_cache" where
  "cache_insert L e c =
     (let key = entry_key e;
          c = (if capacity c \<le> length (entries c) \<and> map_of (entries c) key = None
               then snd (evict_lru L c) else c);
          es = AList.update key e (entries c) in
      on_stats (\<lambda>s. s\<lparr>insertions := insertions s + 1, current_size := length es\<rparr>)
        (c\<lparr>entries := es, lru := lru_put L key e (lru c)\<rparr>))"

definition evict_expired :: "'l lru_ops \<Rightarrow> ((cache_id \<times> cache_entry) list \<Rightarrow> (cache_id \<times> cache_entry) list)
    \<Rightarrow> timestamp \<Rightarrow> 'l dns_cache \<Rightarrow> cache_entry option \<times> 'l dns_cache" where
  "evict_expired L iter now c =
     (case find (\<lambda>(_, e). ce_expiry e \<le> now) (iter (entries c)) of
        Some (key, _) \<Rightarrow>
          (case map_of (entries c) key of
             Some e \<Rightarrow>
               let es = AList.delete key (entries c) in
               (Some e, on_stats (\<lambda>s. s\<lparr>expirations := expirations s + 1, current_size := length es\<rparr>)
                  (c\<lparr>entries := es, lru := lru_pop L key (lru c)\<rparr>))
           | None \<Rightarrow> (None, c))
      | None \<Rightarrow> (None, c))"

fun prune_loop :: "'l lru_ops \<Rightarrow> cache_id list \<Rightarrow> nat \<Rightarrow> 'l dns_cache \<Rightarrow> nat \<times> 'l dns_cache" where
  "prune_loop L [] removed c = (removed, c)"
| "prune_loop L (key # keys) removed c =
     (if map_of (entries c) key \<noteq> None then
        prune_loop L keys (removed + 1) (on_stats (\<lambda>s. s\<lparr>expirations := expirations s + 1\<rparr>)
          (c\<lparr>entries := AList.delete key (entries c), lru := lru_pop L key (lru c)\<rparr>))
      else prune_loop L keys removed c)"

definition prune_expired :: "'l lru_ops \<Rightarrow> ((cache_id \<times> cache_entry) list \<Rightarrow> (cache_id \<times> cache_entry) list)
    \<Rightarrow> timestamp \<Rightarrow> 'l dns_cache \<Rightarrow> nat \<times> 'l dns_cache" where
  "prune_expired L iter now c =
     (let expired_keys = map fst (filter (\<lambda>(_, e). ce_expiry e \<le> now) (iter (entries c)));
          (removed, c) = prune_loop L expired_keys 0 c in
      (removed, if 0 < removed then on_stats (\<lambda>s. s\<lparr>current_size := length (entries c)\<rparr>) c else c))"

definition address_type :: "ip_addr \<Rightarrow> record_type" where
  "address_type addr = (case addr of V4 _ \<Rightarrow> RT_A | V6 _ \<Rightarrow> RT_AAAA)"

definition add_dhcp_entry :: "'l lru_ops \<Rightarrow> timestamp \<Rightarrow> domain_name \<Rightarrow> ip_addr \<Rightarrow> u32 \<Rightarrow> 'l dns_cache \<Rightarrow> 'l dns_cache" where
  "add_dhcp_entry L now hostname addr ttl c =
     cache_insert L (entry_new now hostname (address_type addr) (Some addr) ttl (CF_DHCP OR CF_FORWARD)) c"

definition remove_dhcp_entry :: "'l lru_ops \<Rightarrow> domain_name \<Rightarrow> record_type \<Rightarrow> 'l dns_cache \<Rightarrow> bool \<times> 'l dns_cache" where
  "remove_dhcp_entry L hostname rtype c =
     (let key = cache_key hostname rtype in
      case map_of (entries c) key of
        Some e \<Rightarrow>
          if is_dhcp e then
            let es = AList.delete key (entries c) in
            (True, on_stats (\<lambda>s. s\<lparr>current_size := length es\<rparr>)
               (c\<lparr>entries := es, lru := lru_pop L key (lru c)\<rparr>))
          else (False, c)
      | None \<Rightarrow> (False, c))"

definition cache_clear :: "'l lru_ops \<Rightarrow> 'l dns_cache \<Rightarrow> 'l dns_cache" where
  "cache_clear L c = on_stats (\<lambda>s. s\<lparr>current_size := 0\<rparr>) (c\<lparr>entries := [], lru := lru_clear L (lru c)\<rparr>)"

definition cache_len :: "'l dns_cache \<Rightarrow> nat" where
  "cache_len c = length (entries c)"

definition cache_is_empty :: "'l dns_cache \<Rightarrow> bool" where
  "cache_is_empty c \<longleftrightarrow> entries c = []"

subsection \<open>Hosts files\<close>

text \<open>
  The hostnames of one line, in order.  \<open>parse_ip\<close> is \<open>IpAddr::from_str\<close>.  The line is blank or a
  comment exactly when it has no word or its first word starts with a hash sign.
\<close>

fun insert_hosts :: "'l lru_ops \<Rightarrow> (bytes \<Rightarrow> bytes option) \<Rightarrow> timestamp \<Rightarrow> ip_addr \<Rightarrow> bytes list \<Rightarrow> nat
    \<Rightarrow> 'l dns_cache \<Rightarrow> nat \<times> 'l dns_cache" where
  "insert_hosts L idna now addr [] cnt c = (cnt, c)"
| "insert_hosts L idna now addr (hostname # hostnames) cnt c =
     (case dn_new idna hostname of
        Ok domain \<Rightarrow>
          insert_hosts L idna now addr hostnames (cnt + 1)
            (cache_insert L (entry_new now domain (address_type addr) (Some addr) 0xFFFFFFFF
               (CF_HOSTS OR CF_FORWARD)) c)
      | _ \<Rightarrow> insert_hosts L idna now addr hostnames cnt c)"

definition hosts_line :: "'l lru_ops \<Rightarrow> (bytes \<Rightarrow> bytes option) \<Rightarrow> (bytes \<Rightarrow> ip_addr option) \<Rightarrow> timestamp
    \<Rightarrow> bytes \<Rightarrow> nat \<Rightarrow> 'l dns_cache \<Rightarrow> nat \<times> 'l dns_cache" where
  "hosts_line L idna parse_ip now line cnt c =
     (case split_whitespace line of
        addr_str # hostnames \<Rightarrow>
          if hd addr_str = 0x23 then (cnt, c)
          else if hostnames = [] then (cnt, c)
          else (case parse_ip addr_str of
                  Some addr \<Rightarrow> insert_hosts L idna now addr hostnames cnt c
                | None \<Rightarrow> (cnt, c))
      | [] \<Rightarrow> (cnt, c))"

text \<open>The lines of the file as they are read; \<open>None\<close> is a read error, which ends the function.\<close>

fun hosts_loop :: "'l lru_ops \<Rightarrow> (bytes \<Rightarrow> bytes option) \<Rightarrow> (bytes \<Rightarrow> ip_addr option) \<Rightarrow> timestamp
    \<Rightarrow> bytes option list \<Rightarrow> nat \<Rightarrow> 'l dns_cache \<Rightarrow> (nat, dns_error) outcome \<times> 'l dns_cache" where
  "hosts_loop L idna parse_ip now [] cnt c = (Ok cnt, c)"
| "hosts_loop L idna parse_ip now (None # lines) cnt c = (Err (OtherError ''I/O error''), c)"
| "hosts_loop L idna parse_ip now (Some line # lines) cnt c =
     (let (cnt, c) = hosts_line L idna parse_ip now line cnt c in
      hosts_loop L idna parse_ip now lines cnt c)"

definition refresh_from_hosts :: "'l lru_ops \<Rightarrow> (bytes \<Rightarrow> bytes option) \<Rightarrow> (bytes \<Rightarrow> ip_addr option) \<Rightarrow> timestamp
    \<Rightarrow> bytes option list option \<Rightarrow> 'l dns_cache \<Rightarrow> (nat, dns_error) outcome \<times> 'l dns_cache" where
  "refresh_from_hosts L idna parse_ip now file c =
     (case file of None \<Rightarrow> (Ok 0, c) | Some lines \<Rightarrow> hosts_loop L idna parse_ip now lines 0 c)"

subsection \<open>Two association lists with the same contents\<close>

definition same_items :: "('k \<times> 'v) list \<Rightarrow> ('k \<times> 'v) list \<Rightarrow> bool" where
  "same_items es is \<longleftrightarrow> distinct (map fst es) \<and> distinct (map fst is) \<and> map_of es = map_of is"

lemma same_items_length: "same_items es is \<Longrightarrow> length es = length is"
  unfolding same_items_def by (metis distinct_card dom_map_of_conv_image_fst length_map set_map)

lemma same_items_Nil [simp]: "same_items [] []"
  by (simp add: same_items_def)

lemma same_items_delete: "same_items es is \<Longrightarrow> same_items (AList.delete k es) (AList.delete k is)"
  by (simp add: same_items_def distinct_delete delete_conv')

lemma delete_absent: "map_of is k = None \<Longrightarrow> AList.delete k is = is"
  by (simp add: delete_id map_of_eq_None_iff)

lemma same_items_touch:
  "same_items es is \<Longrightarrow> map_of is k = Some v \<Longrightarrow> same_items es ((k, v) # AList.delete k is)"
  by (auto simp: same_items_def delete_conv' delete_keys distinct_removeAll)

lemma same_items_put:
  "same_items es is \<Longrightarrow> same_items (AList.update k v es) ((k, v) # AList.delete k is)"
  by (auto simp: same_items_def delete_conv' delete_keys distinct_removeAll distinct_update update_conv')

lemma delete_last: "distinct (map fst (xs @ [(k, v)])) \<Longrightarrow> AList.delete k (xs @ [(k, v)]) = xs"
  by (induction xs) auto

lemma same_items_pop: "same_items es (xs @ [(k, v)]) \<Longrightarrow> same_items (AList.delete k es) xs"
  using same_items_delete[of es "xs @ [(k, v)]" k] delete_last[of xs k v] by (simp add: same_items_def)

lemma delete_split:
  "k \<noteq> k' \<Longrightarrow> AList.delete k' (xs @ (k, v) # ys) = AList.delete k' xs @ (k, v) # AList.delete k' ys"
  by (induction xs) auto

lemma set_delete_subset: "set (AList.delete k xs) \<subseteq> set xs"
  by (induction xs) auto

lemma length_alist_update: "length (AList.update k v xs) = (if map_of xs k = None then Suc (length xs) else length xs)"
  by (induction xs) auto

lemma set_update_cases: "(k', v') \<in> set (AList.update k v xs) \<Longrightarrow> (k', v') = (k, v) \<or> (k', v') \<in> set xs"
  by (induction xs) (auto split: if_splits)

subsection \<open>What the lru crate promises\<close>

text \<open>
  \<open>items\<close> are the entries of an LRU list, the most recently used first, and \<open>cap\<close> its bound.
\<close>

locale lru_cache =
  fixes L :: "'l lru_ops" and items :: "'l \<Rightarrow> (cache_id \<times> cache_entry) list" and cap :: "'l \<Rightarrow> nat"
  assumes items_new: "items (lru_new L n) = []"
    and get_hit: "map_of (items l) k = Some v \<Longrightarrow>
      fst (lru_get L k l) = Some v \<and> items (snd (lru_get L k l)) = (k, v) # AList.delete k (items l)"
    and get_miss: "map_of (items l) k = None \<Longrightarrow>
      fst (lru_get L k l) = None \<and> items (snd (lru_get L k l)) = items l"
    and items_put: "items (lru_put L k v l) = (k, v) #
      (if map_of (items l) k \<noteq> None then AList.delete k (items l)
       else if length (items l) < cap l then items l else butlast (items l))"
    and items_pop: "items (lru_pop L k l) = AList.delete k (items l)"
    and pop_lru_Nil: "items l = [] \<Longrightarrow> fst (lru_pop_lru L l) = None \<and> items (snd (lru_pop_lru L l)) = []"
    and pop_lru_snoc: "items l = xs @ [x] \<Longrightarrow> fst (lru_pop_lru L l) = Some x \<and> items (snd (lru_pop_lru L l)) = xs"
    and items_clear: "items (lru_clear L l) = []"
    and cap_simps [simp]: "cap (lru_new L n) = n" "cap (snd (lru_get L k l)) = cap l" "cap (lru_put L k v l) = cap l"
      "cap (lru_pop L k l) = cap l" "cap (snd (lru_pop_lru L l)) = cap l" "cap (lru_clear L l) = cap l"

subsection \<open>Invariant\<close>

text \<open>
  Hash map and LRU list hold the same entries, each under its own key; their number never exceeds the
  capacity (one for capacity zero); every lookup was counted as a hit or as a miss.
\<close>

definition cache_inv :: "('l \<Rightarrow> (cache_id \<times> cache_entry) list) \<Rightarrow> ('l \<Rightarrow> nat) \<Rightarrow> 'l dns_cache \<Rightarrow> bool" where
  "cache_inv items cap c \<longleftrightarrow> same_items (entries c) (items (lru c)) \<and>
     length (entries c) \<le> max 1 (capacity c) \<and> cap (lru c) = lru_capacity (capacity c) \<and>
     (\<forall>(k, e)\<in>set (entries c). k = entry_key e) \<and>
     lookups (stats c) = hits (stats c) + misses (stats c)"

abbreviation cache_map :: "'l dns_cache \<Rightarrow> cache_id \<Rightarrow> cache_entry option" where
  "cache_map c \<equiv> map_of (entries c)"

lemma cache_inv_stats:
  "lookups (f (stats c)) - hits (f (stats c)) - misses (f (stats c)) =
     lookups (stats c) - hits (stats c) - misses (stats c) \<Longrightarrow>
   cache_inv items cap (on_stats f c) = cache_inv items cap c"
  by (auto simp: cache_inv_def on_stats_def algebra_simps)

lemma cache_inv_shrink:
  assumes "cache_inv items cap c" and "items l = AList.delete k (items (lru c))" and "cap l = cap (lru c)"
  shows "cache_inv items cap (c\<lparr>entries := AList.delete k (entries c), lru := l\<rparr>)"
  using assms set_delete_subset[of k "entries c"] length_delete_le[of k "entries c"]
  by (auto simp: cache_inv_def same_items_delete)

lemma cache_inv_touch:
  assumes "cache_inv items cap c" and "map_of (items (lru c)) k = Some v"
    and "items l = (k, v) # AList.delete k (items (lru c))" and "cap l = cap (lru c)"
  shows "cache_inv items cap (c\<lparr>lru := l\<rparr>)"
  using assms by (auto simp: cache_inv_def same_items_touch)

lemma cache_inv_maps: "cache_inv items cap c \<Longrightarrow> map_of (items (lru c)) = cache_map c"
  by (simp add: cache_inv_def same_items_def)

lemma cache_inv_key: "cache_inv items cap c \<Longrightarrow> cache_map c k = Some e \<Longrightarrow> k = entry_key e"
  by (auto simp: cache_inv_def dest!: map_of_SomeD)

lemma on_stats_simps [simp]:
  "entries (on_stats f c) = entries c" "lru (on_stats f c) = lru c" "capacity (on_stats f c) = capacity c"
  "stats (on_stats f c) = f (stats c)"
  by (simp_all add: on_stats_def)

context lru_cache
begin

lemma inv_with_capacity: "cache_inv items cap (with_capacity L n)"
  by (simp add: cache_inv_def with_capacity_def items_new stats_new_def)

lemma evict_lru_cases:
  assumes "cache_inv items cap c"
  obtains (empty) "entries c = []" "entries (snd (evict_lru L c)) = []" "items (lru (snd (evict_lru L c))) = []"
      "fst (evict_lru L c) = None"
    | (evict) xs k e where "items (lru c) = xs @ [(k, e)]" "entries (snd (evict_lru L c)) = AList.delete k (entries c)"
        "items (lru (snd (evict_lru L c))) = xs" "fst (evict_lru L c) = Some e"
proof (cases "items (lru c)" rule: rev_cases)
  case Nil
  with assms have "entries c = []" using same_items_length by (fastforce simp: cache_inv_def)
  with Nil pop_lru_Nil[OF Nil] show ?thesis
    by (cases "lru_pop_lru L (lru c)") (intro empty, auto simp: evict_lru_def)
next
  case (snoc xs x)
  obtain k e where x: "x = (k, e)" by (cases x)
  with snoc pop_lru_snoc[OF snoc] show ?thesis
    by (cases "lru_pop_lru L (lru c)") (intro evict[of xs k e], auto simp: evict_lru_def Let_def)
qed

lemma evict_lru_rest:
  "capacity (snd (evict_lru L c)) = capacity c" "cap (lru (snd (evict_lru L c))) = cap (lru c)"
  "lookups (stats (snd (evict_lru L c))) = lookups (stats c)" "hits (stats (snd (evict_lru L c))) = hits (stats c)"
  "misses (stats (snd (evict_lru L c))) = misses (stats c)"
  by (cases "lru_pop_lru L (lru c)"; use cap_simps(5)[of "lru c"] in
      \<open>auto simp: evict_lru_def Let_def split: option.splits\<close>)+

lemma inv_evict_lru:
  assumes "cache_inv items cap c"
  shows "cache_inv items cap (snd (evict_lru L c))"
  using assms
proof (cases rule: evict_lru_cases)
  case empty
  then show ?thesis using assms by (auto simp: cache_inv_def evict_lru_rest)
next
  case (evict xs k e)
  then show ?thesis using assms set_delete_subset[of k "entries c"] length_delete_le[of k "entries c"]
    by (auto simp: cache_inv_def evict_lru_rest intro: same_items_pop)
qed

text \<open>The state from which \<open>cache_insert\<close> puts the new entry: after eviction, if there was one.\<close>

definition room :: "cache_entry \<Rightarrow> 'l dns_cache \<Rightarrow> 'l dns_cache" where
  "room e c = (if capacity c \<le> length (entries c) \<and> cache_map c (entry_key e) = None
     then snd (evict_lru L c) else c)"

lemma room_inv:
  assumes "cache_inv items cap c"
  shows "cache_inv items cap (room e c)"
    "cache_map (room e c) (entry_key e) = None \<Longrightarrow> length (entries (room e c)) < max 1 (capacity c)"
    "capacity (room e c) = capacity c"
proof -
  show inv: "cache_inv items cap (room e c)" using assms inv_evict_lru by (simp add: room_def)
  show "capacity (room e c) = capacity c" by (simp add: room_def evict_lru_rest)
  assume new: "cache_map (room e c) (entry_key e) = None"
  show "length (entries (room e c)) < max 1 (capacity c)"
  proof (cases "capacity c \<le> length (entries c) \<and> cache_map c (entry_key e) = None")
    case True
    from assms show ?thesis
    proof (cases rule: evict_lru_cases)
      case (evict xs k e')
      have s: "same_items (entries c) (xs @ [(k, e')])" using assms evict(1) by (simp add: cache_inv_def)
      have "length (entries c) = Suc (length xs)" "length (AList.delete k (entries c)) = length xs"
        using same_items_length[OF s] same_items_length[OF same_items_pop[OF s]] by simp_all
      with True evict show ?thesis using assms by (simp add: room_def cache_inv_def)
    qed (use True in \<open>simp add: room_def\<close>)
  qed (use new in \<open>auto simp: room_def\<close>)
qed

lemma insert_unfold:
  assumes "cache_inv items cap c"
  shows "entries (cache_insert L e c) = AList.update (entry_key e) e (entries (room e c))"
    "items (lru (cache_insert L e c)) = (entry_key e, e) # AList.delete (entry_key e) (items (lru (room e c)))"
    "capacity (cache_insert L e c) = capacity c"
proof -
  let ?r = "room e c"
  have "length (items (lru ?r)) < cap (lru ?r)" if new: "map_of (items (lru ?r)) (entry_key e) = None"
  proof -
    have "cache_map ?r (entry_key e) = None" using new cache_inv_maps[OF room_inv(1)[OF assms, of e]] by simp
    from room_inv(2)[OF assms this] show ?thesis
      using room_inv(1)[OF assms, of e] same_items_length[of "entries ?r"]
      by (auto simp: cache_inv_def lru_capacity_def room_inv(3)[OF assms])
  qed
  then show "items (lru (cache_insert L e c)) = (entry_key e, e) # AList.delete (entry_key e) (items (lru ?r))"
    by (auto simp: cache_insert_def Let_def room_def[symmetric] items_put delete_absent)
qed (simp_all add: cache_insert_def Let_def room_def[symmetric] room_inv(3)[OF assms])

lemma inv_insert:
  assumes "cache_inv items cap c"
  shows "cache_inv items cap (cache_insert L e c)"
proof -
  let ?r = "room e c" and ?es = "AList.update (entry_key e) e (entries (room e c))"
  note r = room_inv[OF assms, of e]
  have "length ?es \<le> max 1 (capacity c)"
    using r(1,2) by (cases "cache_map ?r (entry_key e)")
      (auto simp: length_alist_update cache_inv_def r(3))
  moreover have "\<forall>(k, e')\<in>set ?es. k = entry_key e'"
    using r(1) set_update_cases by (fastforce simp: cache_inv_def)
  moreover have "cap (lru (cache_insert L e c)) = cap (lru ?r)"
    "lookups (stats (cache_insert L e c)) = lookups (stats ?r)" "hits (stats (cache_insert L e c)) = hits (stats ?r)"
    "misses (stats (cache_insert L e c)) = misses (stats ?r)"
    by (simp_all add: cache_insert_def Let_def room_def[symmetric])
  ultimately show ?thesis
    using r(1,3) unfolding cache_inv_def insert_unfold[OF assms] by (auto intro: same_items_put)
qed

end

subsection \<open>Lookups\<close>

lemma find_addr_loop_find:
  "find_addr_loop L now addr es c =
   (case find (\<lambda>(_, e). ce_ip_addr e = Some addr) es of
      None \<Rightarrow> (None, on_stats (\<lambda>s. s\<lparr>misses := misses s + 1\<rparr>) c)
    | Some (k, e) \<Rightarrow>
        if is_expired now e then
          (None, on_stats (\<lambda>s. s\<lparr>expirations := expirations s + 1, misses := misses s + 1\<rparr>) c)
        else (Some e, on_stats (\<lambda>s. s\<lparr>hits := hits s + 1\<rparr>) (c\<lparr>lru := snd (lru_get L k (lru c))\<rparr>)))"
  by (induction es) auto

lemma find_by_addr_unfold:
  "find_by_addr L iter now addr c =
   (case find (\<lambda>(_, e). ce_ip_addr e = Some addr) (iter (entries c)) of
      None \<Rightarrow> (None, on_stats (\<lambda>s. s\<lparr>lookups := lookups s + 1, misses := misses s + 1\<rparr>) c)
    | Some (k, e) \<Rightarrow>
        if is_expired now e then
          (None, on_stats (\<lambda>s. s\<lparr>lookups := lookups s + 1, expirations := expirations s + 1, misses := misses s + 1\<rparr>) c)
        else (Some e, on_stats (\<lambda>s. s\<lparr>lookups := lookups s + 1, hits := hits s + 1\<rparr>)
                (c\<lparr>lru := snd (lru_get L k (lru c))\<rparr>)))"
  by (auto simp: find_by_addr_def find_addr_loop_find on_stats_def split: option.splits)

context lru_cache
begin

lemma find_by_name_unfold:
  assumes "cache_inv items cap c"
  shows "find_by_name L now d t c =
    (let k = cache_key d t; l = snd (lru_get L k (lru c)) in
     case cache_map c k of
       Some e \<Rightarrow>
         if is_expired now e then
           (None, on_stats (\<lambda>s. s\<lparr>lookups := lookups s + 1, expirations := expirations s + 1, misses := misses s + 1\<rparr>)
              (c\<lparr>entries := AList.delete k (entries c), lru := lru_pop L k l\<rparr>))
         else (Some e, on_stats (\<lambda>s. s\<lparr>lookups := lookups s + 1, hits := hits s + 1\<rparr>) (c\<lparr>lru := l\<rparr>))
     | None \<Rightarrow> (None, on_stats (\<lambda>s. s\<lparr>lookups := lookups s + 1, misses := misses s + 1\<rparr>) (c\<lparr>lru := l\<rparr>)))"
proof -
  let ?k = "cache_key d t"
  obtain r l where g: "lru_get L ?k (lru c) = (r, l)" by (cases "lru_get L ?k (lru c)")
  then have "r = cache_map c ?k"
    using get_hit[of "lru c" ?k] get_miss[of "lru c" ?k] cache_inv_maps[OF assms] by (cases "cache_map c ?k") auto
  with g show ?thesis
    by (auto simp: find_by_name_def Let_def on_stats_def split: option.splits)
qed

lemma find_by_name_result:
  "cache_inv items cap c \<Longrightarrow>
   fst (find_by_name L now d t c) = Some e \<longleftrightarrow> cache_map c (cache_key d t) = Some e \<and> now < ce_expiry e"
  by (auto simp: find_by_name_unfold Let_def is_expired_def split: option.splits)

lemma find_by_name_map:
  "cache_inv items cap c \<Longrightarrow> cache_map (snd (find_by_name L now d t c)) =
   (if \<exists>e. cache_map c (cache_key d t) = Some e \<and> ce_expiry e \<le> now
    then (cache_map c)(cache_key d t := None) else cache_map c)"
  by (auto simp: find_by_name_unfold Let_def is_expired_def delete_conv' split: option.splits)

lemma inv_get:
  assumes "cache_inv items cap c"
  shows "cache_inv items cap (c\<lparr>lru := snd (lru_get L k (lru c))\<rparr>)"
proof (cases "map_of (items (lru c)) k")
  case None
  with get_miss[OF None] assms show ?thesis by (simp add: cache_inv_def)
next
  case (Some e)
  with get_hit[OF Some] assms show ?thesis by (intro cache_inv_touch) auto
qed

lemma inv_pop:
  assumes "cache_inv items cap c"
  shows "cache_inv items cap (c\<lparr>entries := AList.delete k (entries c), lru := lru_pop L k (lru c)\<rparr>)"
  by (rule cache_inv_shrink[OF assms]) (simp_all add: items_pop)

lemma inv_find_by_name:
  assumes "cache_inv items cap c"
  shows "cache_inv items cap (snd (find_by_name L now d t c))"
  using inv_get[OF assms] inv_pop[OF inv_get[OF assms]]
  by (auto simp: find_by_name_unfold[OF assms] Let_def cache_inv_stats split: option.splits)

lemma inv_find_by_addr:
  assumes "cache_inv items cap c"
  shows "cache_inv items cap (snd (find_by_addr L iter now addr c))"
  using assms inv_get[OF assms]
  by (auto simp: find_by_addr_unfold cache_inv_stats split: option.splits)

lemma inv_evict_expired:
  assumes "cache_inv items cap c"
  shows "cache_inv items cap (snd (evict_expired L iter now c))"
  using inv_pop[OF assms] assms
  by (auto simp: evict_expired_def Let_def cache_inv_stats split: option.splits)

lemma inv_prune_loop:
  "cache_inv items cap c \<Longrightarrow> cache_inv items cap (snd (prune_loop L keys n c))"
proof (induction keys arbitrary: n c)
  case (Cons k keys)
  then show ?case by (auto simp: cache_inv_stats intro!: Cons.IH inv_pop)
qed simp

lemma inv_prune_expired:
  "cache_inv items cap c \<Longrightarrow> cache_inv items cap (snd (prune_expired L iter now c))"
  using inv_prune_loop by (auto simp: prune_expired_def Let_def cache_inv_stats split: prod.splits) (metis snd_conv)+

lemma inv_remove_dhcp:
  assumes "cache_inv items cap c"
  shows "cache_inv items cap (snd (remove_dhcp_entry L d t c))"
  using inv_pop[OF assms] assms
  by (auto simp: remove_dhcp_entry_def Let_def cache_inv_stats split: option.splits)

lemma inv_clear: "cache_inv items cap c \<Longrightarrow> cache_inv items cap (cache_clear L c)"
  by (auto simp: cache_clear_def cache_inv_def items_clear)

lemma inv_insert_hosts:
  "cache_inv items cap c \<Longrightarrow> cache_inv items cap (snd (insert_hosts L idna now addr hs n c))"
  by (induction hs arbitrary: n c) (auto simp: inv_insert split: outcome.splits)

lemma inv_hosts_loop:
  "cache_inv items cap c \<Longrightarrow> cache_inv items cap (snd (hosts_loop L idna pip now ls n c))"
proof (induction ls arbitrary: n c)
  case (Cons l ls)
  have "cache_inv items cap (snd (hosts_line L idna pip now line n c))" for line
    using Cons.prems inv_insert_hosts by (auto simp: hosts_line_def split: list.splits option.splits)
  with Cons show ?case by (cases l) (auto simp: Let_def split: prod.splits, metis snd_conv)
qed simp

lemma inv_refresh: "cache_inv items cap c \<Longrightarrow> cache_inv items cap (snd (refresh_from_hosts L idna pip now f c))"
  by (auto simp: refresh_from_hosts_def inv_hosts_loop split: option.splits)

end

subsection \<open>Insertion, eviction order and pruning\<close>

lemma map_of_fold_delete:
  "map_of (fold AList.delete ks es) k = (if k \<in> set ks then None else map_of es k)"
  by (induction ks arbitrary: es) (auto simp: delete_conv')

lemma prune_loop_entries: "entries (snd (prune_loop L ks n c)) = fold AList.delete ks (entries c)"
  by (induction ks arbitrary: n c) (auto simp: delete_absent)

lemma prune_loop_removed:
  "distinct ks \<Longrightarrow> set ks \<subseteq> dom (cache_map c) \<Longrightarrow> fst (prune_loop L ks n c) = n + length ks"
proof (induction ks arbitrary: n c)
  case (Cons k ks)
  then have "set ks \<subseteq> dom ((cache_map c)(k := None))" by auto
  with Cons show ?case by (auto simp: delete_conv')
qed simp

lemma expired_keys:
  assumes "distinct (map fst es)" and "mset es' = mset es"
  shows "distinct (map fst (filter P es'))" "length (map fst (filter P es')) = length (filter P es)"
    "k \<in> set (map fst (filter P es')) \<longleftrightarrow> (\<exists>e. map_of es k = Some e \<and> P (k, e))"
proof -
  have "distinct (map fst es')" using assms by (metis mset_map mset_eq_imp_distinct_iff)
  then show "distinct (map fst (filter P es'))" by (simp add: distinct_map_filter)
  show "length (map fst (filter P es')) = length (filter P es)"
    using assms(2) by (metis length_map mset_filter size_mset)
  have "set es' = set es" using assms(2) by (metis set_mset_mset)
  then show "k \<in> set (map fst (filter P es')) \<longleftrightarrow> (\<exists>e. map_of es k = Some e \<and> P (k, e))"
    using assms(1) by (force simp: map_of_eq_Some_iff)
qed

lemma prune_expired_spec:
  assumes "distinct (map fst (entries c))" and "mset (iter (entries c)) = mset (entries c)"
  shows "cache_map (snd (prune_expired L iter now c)) k = Some e \<longleftrightarrow> cache_map c k = Some e \<and> now < ce_expiry e"
    "fst (prune_expired L iter now c) = length (filter (\<lambda>(_, e). ce_expiry e \<le> now) (entries c))"
proof -
  let ?P = "\<lambda>(_ :: cache_id, e). ce_expiry e \<le> now"
  let ?ks = "map fst (filter ?P (iter (entries c)))"
  note ks = expired_keys[OF assms, where P = ?P]
  have p: "fst (prune_expired L iter now c) = fst (prune_loop L ?ks 0 c)"
    "entries (snd (prune_expired L iter now c)) = entries (snd (prune_loop L ?ks 0 c))"
    by (simp_all add: prune_expired_def Let_def split: prod.splits)
  show "cache_map (snd (prune_expired L iter now c)) k = Some e \<longleftrightarrow> cache_map c k = Some e \<and> now < ce_expiry e"
    unfolding p prune_loop_entries map_of_fold_delete ks(3) by auto
  have "set ?ks \<subseteq> dom (cache_map c)" using ks(3) by blast
  from prune_loop_removed[OF ks(1) this] ks(2)
  show "fst (prune_expired L iter now c) = length (filter ?P (entries c))" unfolding p by simp
qed

context lru_cache
begin

lemma insert_map:
  assumes "cache_inv items cap c"
  shows "cache_map (cache_insert L e c) =
    (if capacity c \<le> length (entries c) \<and> cache_map c (entry_key e) = None \<and> entries c \<noteq> []
     then (cache_map c)(fst (last (items (lru c))) := None, entry_key e \<mapsto> e)
     else (cache_map c)(entry_key e \<mapsto> e))"
proof -
  have "cache_map (snd (evict_lru L c)) =
      (if entries c \<noteq> [] then (cache_map c)(fst (last (items (lru c))) := None) else cache_map c)"
    using assms
  proof (cases rule: evict_lru_cases)
    case (evict xs k x)
    with assms same_items_length have "entries c \<noteq> []" by (fastforce simp: cache_inv_def)
    with evict show ?thesis by (simp add: delete_conv')
  qed auto
  then show ?thesis by (auto simp: insert_unfold(1)[OF assms] update_conv' room_def)
qed

text \<open>An entry at position \<open>i\<close> of the LRU list moves back by at most one and is not evicted.\<close>

lemma insert_position:
  assumes "cache_inv items cap c" and "items (lru c) = xs @ (k, v) # ys" and "entry_key e \<noteq> k"
    and "length xs + 1 < capacity c"
  shows "\<exists>xs' ys'. items (lru (cache_insert L e c)) = xs' @ (k, v) # ys' \<and> length xs' \<le> length xs + 1"
proof -
  have "\<exists>ys'. items (lru (room e c)) = xs @ (k, v) # ys'"
  proof (cases "capacity c \<le> length (entries c) \<and> cache_map c (entry_key e) = None")
    case True
    from assms(1) show ?thesis
    proof (cases rule: evict_lru_cases)
      case (evict us k' v')
      have "length (entries c) = length (items (lru c))"
        using assms(1) same_items_length by (auto simp: cache_inv_def)
      with True assms(2,4) obtain zs z where "ys = zs @ [z]" by (cases ys rule: rev_cases) auto
      with evict(1) assms(2) have "us = xs @ (k, v) # zs" by simp
      with evict(3) True show ?thesis by (auto simp: room_def)
    next
      case empty
      then have "items (lru c) = []" using assms(1) same_items_length by (fastforce simp: cache_inv_def)
      with assms(2) show ?thesis by simp
    qed
  qed (use assms(2) in \<open>auto simp: room_def\<close>)
  then obtain ys' where "items (lru (room e c)) = xs @ (k, v) # ys'" by blast
  then have "items (lru (cache_insert L e c)) =
      ((entry_key e, e) # AList.delete (entry_key e) xs) @ (k, v) # AList.delete (entry_key e) ys'"
    using assms(3) by (simp add: insert_unfold(2)[OF assms(1)] delete_split)
  moreover have "length ((entry_key e, e) # AList.delete (entry_key e) xs) \<le> length xs + 1"
    using length_delete_le[of "entry_key e" xs] by simp
  ultimately show ?thesis by blast
qed

lemma inserts_keep:
  assumes "cache_inv items cap c" and "items (lru c) = xs @ (k, v) # ys"
    and "\<forall>e\<in>set es. entry_key e \<noteq> k" and "length xs + length es < capacity c"
  shows "cache_map (fold (cache_insert L) es c) k = Some v \<and> cache_inv items cap (fold (cache_insert L) es c)"
  using assms
proof (induction es arbitrary: c xs ys)
  case Nil
  then have "k \<notin> fst ` set xs" by (simp add: cache_inv_def same_items_def)
  then have "map_of xs k = None" by (simp add: map_of_eq_None_iff)
  with Nil have "map_of (items (lru c)) k = Some v" by (simp add: map_add_def)
  with Nil cache_inv_maps[OF Nil.prems(1)] show ?case by simp
next
  case (Cons e es)
  then obtain xs' ys' where "items (lru (cache_insert L e c)) = xs' @ (k, v) # ys'" "length xs' \<le> length xs + 1"
    using insert_position[OF Cons.prems(1,2), of e] by auto
  with Cons.prems show ?case
    by (simp, intro Cons.IH[OF inv_insert[OF Cons.prems(1)]])
      (auto simp: insert_unfold(3)[OF Cons.prems(1)])
qed

lemma found_front:
  assumes "cache_inv items cap c" and "fst (find_by_name L now d t c) = Some e"
  shows "items (lru (snd (find_by_name L now d t c))) = [] @ (cache_key d t, e) # AList.delete (cache_key d t) (items (lru c))"
    "capacity (snd (find_by_name L now d t c)) = capacity c"
proof -
  from assms have e: "cache_map c (cache_key d t) = Some e" "\<not> is_expired now e"
    using find_by_name_result[OF assms(1)] by (auto simp: is_expired_def)
  with get_hit[of "lru c" "cache_key d t" e] cache_inv_maps[OF assms(1)]
  show "items (lru (snd (find_by_name L now d t c))) = [] @ (cache_key d t, e) # AList.delete (cache_key d t) (items (lru c))"
    "capacity (snd (find_by_name L now d t c)) = capacity c"
    by (simp_all add: find_by_name_unfold[OF assms(1)] Let_def)
qed

end

subsection \<open>A list as LRU cache\<close>

text \<open>The operations on a list with the most recent entry first and its bound.\<close>

definition list_lru :: "((cache_id \<times> cache_entry) list \<times> nat) lru_ops" where
  "list_lru = \<lparr>lru_new = (\<lambda>n. ([], n)),
     lru_get = (\<lambda>k (xs, n). case map_of xs k of Some v \<Rightarrow> (Some v, ((k, v) # AList.delete k xs, n)) | None \<Rightarrow> (None, (xs, n))),
     lru_put = (\<lambda>k v (xs, n). ((k, v) # (if map_of xs k \<noteq> None then AList.delete k xs
                                       else if length xs < n then xs else butlast xs), n)),
     lru_pop = (\<lambda>k (xs, n). (AList.delete k xs, n)),
     lru_pop_lru = (\<lambda>(xs, n). if xs = [] then (None, (xs, n)) else (Some (last xs), (butlast xs, n))),
     lru_clear = (\<lambda>(xs, n). ([], n))\<rparr>"

interpretation ll: lru_cache list_lru fst snd
  by unfold_locales (auto simp: list_lru_def split: option.splits)

subsection \<open>Reachable caches\<close>

inductive cache_reach :: "'l lru_ops \<Rightarrow> 'l dns_cache \<Rightarrow> bool" for L where
  start: "cache_reach L (with_capacity L n)"
| by_name: "cache_reach L c \<Longrightarrow> cache_reach L (snd (find_by_name L now d t c))"
| by_addr: "cache_reach L c \<Longrightarrow> cache_reach L (snd (find_by_addr L iter now addr c))"
| insert: "cache_reach L c \<Longrightarrow> cache_reach L (cache_insert L e c)"
| evict: "cache_reach L c \<Longrightarrow> cache_reach L (snd (evict_lru L c))"
| evict_exp: "cache_reach L c \<Longrightarrow> cache_reach L (snd (evict_expired L iter now c))"
| prune: "cache_reach L c \<Longrightarrow> cache_reach L (snd (prune_expired L iter now c))"
| hosts: "cache_reach L c \<Longrightarrow> cache_reach L (snd (refresh_from_hosts L idna parse_ip now file c))"
| add_dhcp: "cache_reach L c \<Longrightarrow> cache_reach L (add_dhcp_entry L now d addr ttl c)"
| remove_dhcp: "cache_reach L c \<Longrightarrow> cache_reach L (snd (remove_dhcp_entry L d t c))"
| clear: "cache_reach L c \<Longrightarrow> cache_reach L (cache_clear L c)"

context lru_cache
begin

lemma reach_inv: "cache_reach L c \<Longrightarrow> cache_inv items cap c"
  by (induction rule: cache_reach.induct)
    (auto simp: inv_with_capacity inv_find_by_name inv_find_by_addr inv_insert inv_evict_lru inv_evict_expired
      inv_prune_expired inv_refresh add_dhcp_entry_def inv_remove_dhcp inv_clear)

end

lemma cache_key_eq_iff: "cache_key d t = cache_key d' t' \<longleftrightarrow> dn_eq d d' \<and> t = t'"
  by (auto simp: cache_key_def dn_hash_input_def dn_eq_def eq_ignore_ascii_case_iff)

text \<open>Loading a hosts file inserts the entries of its valid lines one after the other.\<close>

definition line_entries :: "(bytes \<Rightarrow> bytes option) \<Rightarrow> (bytes \<Rightarrow> ip_addr option) \<Rightarrow> timestamp \<Rightarrow> bytes \<Rightarrow> cache_entry list" where
  "line_entries idna parse_ip now line =
     (case split_whitespace line of
        w # ws \<Rightarrow>
          if hd w = 0x23 then []
          else (case parse_ip w of
              Some addr \<Rightarrow>
                [entry_new now d (address_type addr) (Some addr) 0xFFFFFFFF (CF_HOSTS OR CF_FORWARD).
                   Ok d \<leftarrow> map (dn_new idna) ws]
            | None \<Rightarrow> [])
      | [] \<Rightarrow> [])"

lemma insert_hosts_fold:
  "insert_hosts L idna now addr hs n c =
   (let es = [entry_new now d (address_type addr) (Some addr) 0xFFFFFFFF (CF_HOSTS OR CF_FORWARD).
                Ok d \<leftarrow> map (dn_new idna) hs]
    in (n + length es, fold (cache_insert L) es c))"
  by (induction hs arbitrary: n c) (auto simp: Let_def split: outcome.splits)

lemma hosts_line_fold:
  "hosts_line L idna pip now line n c =
   (n + length (line_entries idna pip now line), fold (cache_insert L) (line_entries idna pip now line) c)"
  by (auto simp: hosts_line_def line_entries_def insert_hosts_fold Let_def split: list.splits option.splits)

lemma hosts_loop_fold:
  "hosts_loop L idna pip now (map Some ls) n c =
   (let es = concat (map (line_entries idna pip now) ls) in (Ok (n + length es), fold (cache_insert L) es c))"
  by (induction ls arbitrary: n c) (auto simp: hosts_line_fold Let_def)

subsection \<open>Properties\<close>

definition sample_entry :: "u8 \<Rightarrow> cache_entry" where
  "sample_entry b = entry_new 0 \<lparr>dn_name = [b]\<rparr> RT_A (Some (V4 [10, 0, 0, b])) 60 CF_FORWARD"

definition sample_cache :: "((cache_id \<times> cache_entry) list \<times> nat) dns_cache" where
  "sample_cache = cache_insert list_lru (sample_entry 0x62) (cache_insert list_lru (sample_entry 0x61) (with_capacity list_lru 2))"

lemma sample_cache_inv: "cache_inv fst snd sample_cache"
  unfolding sample_cache_def by (intro ll.inv_insert ll.inv_with_capacity)

lemma sample_entry_simps:
  "entry_key (sample_entry b) = ([to_lower b], RT_A)" "ce_expiry (sample_entry b) = secs 60"
  "ce_ip_addr (sample_entry b) = Some (V4 [10, 0, 0, b])"
  by (simp_all add: sample_entry_def entry_new_def cache_key_def dn_hash_input_def timestamp_add_def)

lemma sample_cache_entries:
  "entries sample_cache = [(([0x61], RT_A), sample_entry 0x61), (([0x62], RT_A), sample_entry 0x62)]"
  "capacity sample_cache = 2"
  by (simp_all add: sample_cache_def cache_insert_def with_capacity_def Let_def sample_entry_simps to_lower_def)

text \<open>
  C5: in every state a cache reaches from its creation by any sequence of its operations, at any times
  and for any iteration orders of the hash map, hash map and LRU list hold the same entries under
  their own keys, the number of entries is at most the capacity (one for capacity zero), and the
  lookups counted are the hits and the misses.
\<close>

theorem cache_reachable_invariant:
  assumes "lru_cache L items cap" and "cache_reach L c"
  shows "map_of (entries c) = map_of (items (lru c)) \<and> distinct (map fst (entries c)) \<and>
     length (entries c) = length (items (lru c)) \<and> cache_len c \<le> max 1 (capacity c) \<and>
     (\<forall>k e. map_of (entries c) k = Some e \<longrightarrow> k = cache_key (ce_domain_name e) (ce_record_type e)) \<and>
     lookups (stats c) = hits (stats c) + misses (stats c)"
proof -
  have inv: "cache_inv items cap c" using lru_cache.reach_inv[OF assms] .
  then have "length (entries c) = length (items (lru c))" using same_items_length by (auto simp: cache_inv_def)
  with inv cache_inv_key[OF inv] show ?thesis by (auto simp: cache_inv_def same_items_def cache_len_def)
qed

theorem cache_reachable_invariant_witness:
  "map_of (entries sample_cache) = map_of (fst (lru sample_cache)) \<and> cache_len sample_cache \<le> max 1 (capacity sample_cache)"
proof -
  have "cache_reach list_lru sample_cache" unfolding sample_cache_def by (intro cache_reach.insert cache_reach.start)
  from cache_reachable_invariant[OF ll.lru_cache_axioms this] show ?thesis by simp
qed

text \<open>
  \<open>find_by_name\<close> returns an entry exactly when the cache holds it under that name, whatever its
  case, and type and it has not expired; it removes the entry it finds expired and changes the
  contents in no other way.
\<close>

theorem find_by_name_spec:
  assumes "lru_cache L items cap" and "cache_inv items cap c"
  shows "(fst (find_by_name L now d t c) = Some e \<longleftrightarrow> map_of (entries c) (cache_key d t) = Some e \<and> now < ce_expiry e) \<and>
     map_of (entries (snd (find_by_name L now d t c))) =
       (if \<exists>x. map_of (entries c) (cache_key d t) = Some x \<and> ce_expiry x \<le> now
        then (map_of (entries c))(cache_key d t := None) else map_of (entries c)) \<and>
     (dn_eq d d' \<longrightarrow> find_by_name L now d t c = find_by_name L now d' t c)"
  using lru_cache.find_by_name_result[OF assms] lru_cache.find_by_name_map[OF assms] cache_key_eq_iff[of d t d' t]
  by (auto simp: find_by_name_def)

theorem find_by_name_spec_witness:
  "fst (find_by_name list_lru 5 \<lparr>dn_name = [0x41]\<rparr> RT_A sample_cache) = Some (sample_entry 0x61)"
  using find_by_name_spec[OF ll.lru_cache_axioms sample_cache_inv, of 5 "\<lparr>dn_name = [0x41]\<rparr>" RT_A "sample_entry 0x61"]
  by (simp add: sample_cache_entries cache_key_def dn_hash_input_def to_lower_def sample_entry_simps secs_def)

text \<open>
  After an insertion the entry is found under its name and type until it expires; every other key
  finds what it found before, unless the cache was full and the key new, when exactly the least
  recently used entry is gone.
\<close>

theorem insert_then_find:
  assumes "lru_cache L items cap" and "cache_inv items cap c"
  shows "(now < ce_expiry e \<longrightarrow> dn_eq d (ce_domain_name e) \<longrightarrow>
       fst (find_by_name L now d (ce_record_type e) (cache_insert L e c)) = Some e) \<and>
     map_of (entries (cache_insert L e c)) =
       (if capacity c \<le> length (entries c) \<and> map_of (entries c) (entry_key e) = None \<and> entries c \<noteq> []
        then (map_of (entries c))(fst (last (items (lru c))) := None, entry_key e \<mapsto> e)
        else (map_of (entries c))(entry_key e \<mapsto> e))"
  using lru_cache.insert_map[OF assms] lru_cache.find_by_name_result[OF assms(1) lru_cache.inv_insert[OF assms]]
    cache_key_eq_iff[of d "ce_record_type e" "ce_domain_name e" "ce_record_type e"] by auto

theorem insert_then_find_witness:
  "fst (find_by_name list_lru 5 \<lparr>dn_name = [0x43]\<rparr> RT_A (cache_insert list_lru (sample_entry 0x63) sample_cache)) =
     Some (sample_entry 0x63)"
  using insert_then_find[OF ll.lru_cache_axioms sample_cache_inv, of 5 "sample_entry 0x63" "\<lparr>dn_name = [0x43]\<rparr>"]
  by (simp add: sample_entry_simps secs_def) (simp add: sample_entry_def entry_new_def dn_eq_def eq_ignore_ascii_case_def to_lower_def)

text \<open>
  C6: an entry just found survives fewer insertions of other keys than the cache has places: the
  entries evicted meanwhile are those used less recently.
\<close>

theorem recently_found_survives:
  assumes "lru_cache L items cap" and "cache_inv items cap c"
    and "fst (find_by_name L now d t c) = Some e"
    and "\<forall>x\<in>set es. entry_key x \<noteq> cache_key d t" and "length es < capacity c"
  shows "map_of (entries (fold (cache_insert L) es (snd (find_by_name L now d t c)))) (cache_key d t) = Some e"
  using lru_cache.inserts_keep[OF assms(1) lru_cache.inv_find_by_name[OF assms(1,2)]
      lru_cache.found_front(1)[OF assms(1-3)] assms(4)] lru_cache.found_front(2)[OF assms(1-3)] assms(5)
  by auto

theorem recently_found_survives_witness:
  "map_of (entries (fold (cache_insert list_lru) [sample_entry 0x63] (snd (find_by_name list_lru 5 \<lparr>dn_name = [0x61]\<rparr> RT_A sample_cache))))
     (cache_key \<lparr>dn_name = [0x61]\<rparr> RT_A) = Some (sample_entry 0x61)"
proof -
  have "fst (find_by_name list_lru 5 \<lparr>dn_name = [0x61]\<rparr> RT_A sample_cache) = Some (sample_entry 0x61)"
    using ll.find_by_name_result[OF sample_cache_inv]
    by (simp add: sample_cache_entries cache_key_def dn_hash_input_def to_lower_def sample_entry_simps secs_def)
  then show ?thesis
    by (intro recently_found_survives[OF ll.lru_cache_axioms sample_cache_inv])
      (simp_all add: sample_cache_entries sample_entry_def entry_new_def cache_key_def dn_hash_input_def to_lower_def)
qed

text \<open>
  \<open>prune_expired\<close> removes exactly the entries that have expired, whatever the iteration order, keeps
  hash map and LRU list in step, and returns how many it removed.
\<close>

theorem prune_removes_expired:
  assumes "lru_cache L items cap" and "cache_inv items cap c" and "mset (iter (entries c)) = mset (entries c)"
  shows "(map_of (entries (snd (prune_expired L iter now c))) k = Some e \<longleftrightarrow>
       map_of (entries c) k = Some e \<and> now < ce_expiry e) \<and>
     fst (prune_expired L iter now c) = length (filter (\<lambda>(_, x). ce_expiry x \<le> now) (entries c)) \<and>
     cache_inv items cap (snd (prune_expired L iter now c))"
proof -
  have "distinct (map fst (entries c))" using assms(2) by (simp add: cache_inv_def same_items_def)
  from prune_expired_spec[where iter = iter, OF this assms(3)] lru_cache.inv_prune_expired[OF assms(1,2)] show ?thesis by blast
qed

theorem prune_removes_expired_witness:
  "fst (prune_expired list_lru rev (secs 60) sample_cache) = 2"
  using prune_removes_expired[OF ll.lru_cache_axioms sample_cache_inv, of rev "secs 60"]
  by (simp add: sample_cache_entries sample_entry_simps)

text \<open>
  Removing a DHCP entry removes the entry of that name and type exactly when there is one with the
  DHCP flag and reports it; entries from hosts files and upstream answers stay.
\<close>

theorem remove_dhcp_only:
  "(fst (remove_dhcp_entry L d t c) \<longleftrightarrow> (\<exists>e. map_of (entries c) (cache_key d t) = Some e \<and> is_dhcp e)) \<and>
   map_of (entries (snd (remove_dhcp_entry L d t c))) =
     (if fst (remove_dhcp_entry L d t c) then (map_of (entries c))(cache_key d t := None) else map_of (entries c))"
  by (auto simp: remove_dhcp_entry_def Let_def delete_conv' split: option.splits)

text \<open>
  Loading a readable hosts file is the insertion, in order, of one entry for each valid hostname of each
  line with a valid address, and returns their number; a file that cannot be opened changes nothing.
\<close>

theorem refresh_from_hosts_spec:
  "refresh_from_hosts L idna parse_ip now (Some (map Some lines)) c =
     (Ok (length (concat (map (line_entries idna parse_ip now) lines))),
      fold (cache_insert L) (concat (map (line_entries idna parse_ip now) lines)) c) \<and>
   refresh_from_hosts L idna parse_ip now None c = (Ok 0, c)"
  by (simp add: refresh_from_hosts_def hosts_loop_fold Let_def)

text \<open>
  A lookup that finds its entry expired removes it without updating \<open>current_size\<close>, which then
  exceeds the number of entries; a reverse lookup whose first match has expired misses although a live
  entry has the address.
\<close>

theorem expired_lookup_effects:
  "current_size (stats (snd (find_by_name list_lru (secs 60) \<lparr>dn_name = [0x61]\<rparr> RT_A sample_cache))) = 2 \<and>
   cache_len (snd (find_by_name list_lru (secs 60) \<lparr>dn_name = [0x61]\<rparr> RT_A sample_cache)) = 1 \<and>
   fst (find_by_addr list_lru id (secs 60) (V4 [10, 0, 0, 0x61])
     (cache_insert list_lru (entry_new 0 \<lparr>dn_name = [0x62]\<rparr> RT_A (Some (V4 [10, 0, 0, 0x61])) 90 CF_FORWARD) sample_cache)) = None"
proof -
  let ?e = "entry_new 0 \<lparr>dn_name = [0x62]\<rparr> RT_A (Some (V4 [10, 0, 0, 0x61])) 90 CF_FORWARD"
  let ?c = "cache_insert list_lru ?e sample_cache"
  have "entry_key ?e = ([0x62], RT_A)"
    by (simp add: entry_new_def cache_key_def dn_hash_input_def to_lower_def)
  then have "entries ?c = [(([0x61], RT_A), sample_entry 0x61), (([0x62], RT_A), ?e)]"
    by (simp add: cache_insert_def Let_def sample_cache_entries)
  then have "fst (find_by_addr list_lru id (secs 60) (V4 [10, 0, 0, 0x61]) ?c) = None"
    by (simp add: find_by_addr_unfold sample_entry_simps is_expired_def)
  moreover have "current_size (stats sample_cache) = 2"
    by (simp add: sample_cache_def cache_insert_def with_capacity_def Let_def sample_entry_simps to_lower_def)
  ultimately show ?thesis
    by (simp add: ll.find_by_name_unfold[OF sample_cache_inv] Let_def cache_key_def dn_hash_input_def to_lower_def
        sample_cache_entries sample_entry_simps is_expired_def cache_len_def)
qed

end
