(* ===== verification/Lease_Manager.thy ===== *)
theory Lease_Manager
  imports Lease_Database Dns_Cache
begin

text \<open>
  The lease manager of \<open>src/dhcp/lease/mod.rs\<close> with its collaborators: the repository (Dhcp_Lease), the
  DNS cache through \<open>dns_integration.rs\<close>, the lease script of \<open>script_hooks.rs\<close> and the lease file
  (Lease_Database).  One state record holds all four; each operation returns its result and the new
  state.  Locks are held for one call of a collaborator at a time, so an operation is a sequence of
  such calls; \<open>renew_lease\<close> is also given as its two critical sections.
\<close>

subsection \<open>DNS registration\<close>

text \<open>
  \<open>sys\<close> is the wall clock (\<open>SystemTime::now\<close>) and \<open>tick\<close> the monotonic clock from which the cache
  computes expiry times; one call reads each of them once.  The time to live is cast to 32 bits.
\<close>

definition add_lease_name :: "'l lru_ops \<Rightarrow> (bytes \<Rightarrow> bytes option) \<Rightarrow> nat \<Rightarrow> ip_addr \<Rightarrow> u32 \<Rightarrow> bytes
    \<Rightarrow> 'l dns_cache \<Rightarrow> (unit, dhcp_error) outcome \<times> 'l dns_cache" where
  "add_lease_name L idna tick ip ttl name c =
     (if name = [] then (Ok (), c)
      else case dn_new idna name of
          Ok d \<Rightarrow> (Ok (), add_dhcp_entry L tick d ip ttl c)
        | Err _ \<Rightarrow> (Err (LeaseDatabaseFailed ''dns_integration'' ''Invalid name''), c)
        | Panic \<Rightarrow> (Panic, c))"

definition register_lease_hostname :: "'l lru_ops \<Rightarrow> (bytes \<Rightarrow> bytes option) \<Rightarrow> nat \<Rightarrow> nat \<Rightarrow> ip_addr \<Rightarrow> bytes
    \<Rightarrow> bytes option \<Rightarrow> nat \<Rightarrow> 'l dns_cache \<Rightarrow> (unit, dhcp_error) outcome \<times> 'l dns_cache" where
  "register_lease_hostname L idna sys tick ip hostname fqdn expires c =
     (case duration_since expires sys of
        None \<Rightarrow> (Ok (), c)
      | Some d \<Rightarrow>
          let ttl = of_nat (d div secs 1);
              (r, c) = (case fqdn of Some f \<Rightarrow> add_lease_name L idna tick ip ttl f c | None \<Rightarrow> (Ok (), c)) in
          (case r of Ok _ \<Rightarrow> add_lease_name L idna tick ip ttl hostname c | Err e \<Rightarrow> (Err e, c) | Panic \<Rightarrow> (Panic, c)))"

definition remove_lease_name :: "'l lru_ops \<Rightarrow> (bytes \<Rightarrow> bytes option) \<Rightarrow> ip_addr \<Rightarrow> bytes
    \<Rightarrow> 'l dns_cache \<Rightarrow> (unit, dhcp_error) outcome \<times> 'l dns_cache" where
  "remove_lease_name L idna ip name c =
     (if name = [] then (Ok (), c)
      else case dn_new idna name of
          Ok d \<Rightarrow> (Ok (), snd (remove_dhcp_entry L d (address_type ip) c))
        | Err _ \<Rightarrow> (Err (LeaseDatabaseFailed ''dns_integration'' ''Invalid name''), c)
        | Panic \<Rightarrow> (Panic, c))"

definition unregister_lease_hostname :: "'l lru_ops \<Rightarrow> (bytes \<Rightarrow> bytes option) \<Rightarrow> ip_addr \<Rightarrow> bytes \<Rightarrow> bytes option
    \<Rightarrow> 'l dns_cache \<Rightarrow> (unit, dhcp_error) outcome \<times> 'l dns_cache" where
  "unregister_lease_hostname L idna ip hostname fqdn c =
     (let (r, c) = (case fqdn of Some f \<Rightarrow> remove_lease_name L idna ip f c | None \<Rightarrow> (Ok (), c)) in
      case r of Ok _ \<Rightarrow> remove_lease_name L idna ip hostname c | Err e \<Rightarrow> (Err e, c) | Panic \<Rightarrow> (Panic, c))"

text \<open>Failures of single registrations are only logged.\<close>

definition update_lease_dns :: "'l lru_ops \<Rightarrow> (bytes \<Rightarrow> bytes option) \<Rightarrow> nat \<Rightarrow> nat \<Rightarrow> lease \<Rightarrow> 'l dns_cache \<Rightarrow> 'l dns_cache" where
  "update_lease_dns L idna sys tick l c =
     (case ls_hostname l of
        None \<Rightarrow> c
      | Some hostname \<Rightarrow>
          if hostname = [] \<or> ls_expires l < sys then c
          else
            let ips = ls_ip l # (if flags_contain (ls_flags l) LF_TA \<or> flags_contain (ls_flags l) LF_NA
                                 then (case ls_slaac_addresses l of Some as \<Rightarrow> map V6 as | None \<Rightarrow> []) else []) in
            fold (\<lambda>ip c. snd (register_lease_hostname L idna sys tick ip hostname (ls_fqdn l) (ls_expires l) c)) ips c)"

definition update_all_lease_dns :: "'l lru_ops \<Rightarrow> (bytes \<Rightarrow> bytes option) \<Rightarrow> nat \<Rightarrow> nat \<Rightarrow> lease list
    \<Rightarrow> 'l dns_cache \<Rightarrow> (unit, dhcp_error) outcome \<times> 'l dns_cache" where
  "update_all_lease_dns L idna sys tick ls c = (Ok (), fold (update_lease_dns L idna sys tick) ls c)"

subsection \<open>Lease scripts\<close>

record script_call =
  sc_args :: "bytes list"
  sc_env :: "(string \<times> bytes) list"

fun lease_action_to_str :: "lease_action \<Rightarrow> bytes" where
  "lease_action_to_str Add = ascii ''add''"
| "lease_action_to_str Del = ascii ''del''"
| "lease_action_to_str Old = ascii ''old''"
| "lease_action_to_str OldHostname = ascii ''old-hostname''"

definition script_args :: "(ip_addr \<Rightarrow> bytes) \<Rightarrow> lease_action \<Rightarrow> lease \<Rightarrow> bytes list" where
  "script_args show_ip action l =
     [lease_action_to_str action,
      (case ls_mac l of Some m \<Rightarrow> mac_display m
       | None \<Rightarrow> (case ls_iaid l of Some i \<Rightarrow> show_dec (unat i) | None \<Rightarrow> star)),
      show_ip (ls_ip l), (case ls_hostname l of Some h \<Rightarrow> h | None \<Rightarrow> star)]"

definition opt_env :: "string \<Rightarrow> bytes option \<Rightarrow> (string \<times> bytes) list" where
  "opt_env name v = (case v of Some x \<Rightarrow> [(name, x)] | None \<Rightarrow> [])"

definition script_env :: "nat \<Rightarrow> lease_action \<Rightarrow> lease \<Rightarrow> bytes option \<Rightarrow> bytes option \<Rightarrow> (string \<times> bytes) list" where
  "script_env sys action l old_hostname domain =
     [(''DNSMASQ_LEASE_EXPIRES'', show_dec (ls_expires l div secs 1)),
      (''DNSMASQ_LEASE_LENGTH'', show_dec (ls_expires l div secs 1 - sys div secs 1))] @
     opt_env ''DNSMASQ_MAC'' (map_option mac_display (ls_mac l)) @
     opt_env ''DNSMASQ_CLIENT_ID'' (map_option hex_colon (ls_client_id l)) @
     opt_env ''DNSMASQ_IAID'' (map_option (\<lambda>i. show_dec (unat i)) (ls_iaid l)) @
     [(''DNSMASQ_INTERFACE'', ls_interface l)] @
     opt_env ''DNSMASQ_SUPPLIED_HOSTNAME'' (ls_hostname l) @
     opt_env ''DNSMASQ_DOMAIN'' domain @
     opt_env ''DNSMASQ_VENDOR_CLASS'' (map_option hex_colon (ls_vendorclass l)) @
     opt_env ''DNSMASQ_RELAY_ADDRESS'' (map_option hex_colon (ls_agent_id l)) @
     (if action = OldHostname then opt_env ''DNSMASQ_OLD_HOSTNAME'' old_hostname else [])"

text \<open>How the operating system runs a script: \<open>exists\<close>, spawn, wait within the timeout, exit status.\<close>

datatype script_outcome = NoScript | SpawnError | WaitError | TimedOut | ExitedWith int | Succeeded

definition execute_lease_script :: "(script_call \<Rightarrow> script_outcome) \<Rightarrow> (ip_addr \<Rightarrow> bytes) \<Rightarrow> nat \<Rightarrow> bytes \<Rightarrow> lease_action \<Rightarrow> lease
    \<Rightarrow> bytes option \<Rightarrow> bytes option \<Rightarrow> (unit, dhcp_error) outcome" where
  "execute_lease_script run show_ip sys script_path action l old_hostname domain =
     (case run \<lparr>sc_args = script_args show_ip action l, sc_env = script_env sys action l old_hostname domain\<rparr> of
        NoScript \<Rightarrow> Err (ScriptFailed script_path ''Script not found'')
      | SpawnError \<Rightarrow> Err (ScriptFailed script_path ''Failed to spawn script'')
      | WaitError \<Rightarrow> Err (ScriptFailed script_path ''Script wait failed'')
      | TimedOut \<Rightarrow> Err (ScriptFailed script_path ''Script timeout'')
      | ExitedWith _ \<Rightarrow> Err (ScriptFailed script_path ''Script exited with code'')
      | Succeeded \<Rightarrow> Ok ())"

subsection \<open>The manager\<close>

text \<open>
  \<open>lm_file\<close> is the contents of the lease file and \<open>lm_log\<close> the events given to the script, oldest
  first.  The environment holds the code outside the repository, the iteration order of the hash map,
  whether the file can be written, and the readings of the clocks: \<open>sys_now\<close> when the operation starts,
  \<open>sys_later\<close> and \<open>mono_later\<close> when it registers a name.
\<close>

record manager_config =
  script_path :: "bytes option"
  lease_file :: "bytes option"

record 'l lease_manager =
  lm_repo :: lease_repo
  lm_cache :: "'l dns_cache"
  lm_config :: manager_config
  max_leases :: nat
  lm_file :: "bytes option"
  lm_log :: "(lease_action \<times> lease) list"

record 'l manager_env =
  env_lru :: "'l lru_ops"
  env_idna :: "bytes \<Rightarrow> bytes option"
  env_parse_ip :: "bytes \<Rightarrow> ip_addr option"
  env_show_ip :: "ip_addr \<Rightarrow> bytes"
  env_iter :: lease_iter
  env_write_ok :: bool
  sys_now :: nat
  sys_later :: nat
  mono_later :: nat

definition manager_new :: "manager_config \<Rightarrow> 'l dns_cache \<Rightarrow> nat \<Rightarrow> bytes option \<Rightarrow> 'l lease_manager" where
  "manager_new config dns_cache n file =
     \<lparr>lm_repo = repo_new, lm_cache = dns_cache, lm_config = config, max_leases = n, lm_file = file, lm_log = []\<rparr>"

text \<open>A script is called when one is configured; its failure is only logged.\<close>

definition run_script :: "lease_action \<Rightarrow> lease \<Rightarrow> 'l lease_manager \<Rightarrow> 'l lease_manager" where
  "run_script action l m =
     (case script_path (lm_config m) of Some _ \<Rightarrow> m\<lparr>lm_log := lm_log m @ [(action, l)]\<rparr> | None \<Rightarrow> m)"

definition allocate_lease :: "'l manager_env \<Rightarrow> ip_addr \<Rightarrow> mac_address option \<Rightarrow> bytes option \<Rightarrow> bytes option \<Rightarrow> bytes \<Rightarrow> nat
    \<Rightarrow> 'l lease_manager \<Rightarrow> (lease, dhcp_error) outcome \<times> 'l lease_manager" where
  "allocate_lease E ip mac hostname client_id interface duration m =
     (let is_new = (repo_find_by_ip ip (lm_repo m) = None);
          l = lease_new (sys_now E) ip mac hostname client_id interface duration;
          m = m\<lparr>lm_repo := repo_insert l (lm_repo m)\<rparr>;
          m = (case ls_hostname l of
                 Some h \<Rightarrow> m\<lparr>lm_cache := snd (register_lease_hostname (env_lru E) (env_idna E) (sys_later E) (mono_later E)
                     (ls_ip l) h (ls_fqdn l) (ls_expires l) (lm_cache m))\<rparr>
               | None \<Rightarrow> m);
          m = run_script (if is_new then Add else Old) l m in
      (Ok l, m))"

definition get_all_leases :: "'l manager_env \<Rightarrow> 'l lease_manager \<Rightarrow> lease list" where
  "get_all_leases E m = repo_list_all (env_iter E) (lm_repo m)"

definition save_leases :: "'l manager_env \<Rightarrow> 'l lease_manager \<Rightarrow> (nat, dhcp_error) outcome \<times> 'l lease_manager" where
  "save_leases E m =
     (case lease_file (lm_config m) of
        None \<Rightarrow> (Ok 0, m)
      | Some _ \<Rightarrow>
          let ls = get_all_leases E m in
          if env_write_ok E then (Ok (length ls), m\<lparr>lm_file := Some (write_leases (env_show_ip E) ls None)\<rparr>)
          else (Err (LeaseDatabaseFailed ''write'' ''I/O error''), m))"

definition release_lease :: "'l manager_env \<Rightarrow> ip_addr \<Rightarrow> 'l lease_manager \<Rightarrow> (lease, dhcp_error) outcome \<times> 'l lease_manager" where
  "release_lease E ip m =
     (case repo_remove ip (lm_repo m) of
        (Ok l, r) \<Rightarrow>
          let m = m\<lparr>lm_repo := r\<rparr>;
              m = (case ls_hostname l of
                     Some h \<Rightarrow> m\<lparr>lm_cache := snd (unregister_lease_hostname (env_lru E) (env_idna E) (ls_ip l) h (ls_fqdn l) (lm_cache m))\<rparr>
                   | None \<Rightarrow> m);
              m = run_script Del l m in
          (Ok l, snd (save_leases E m))
      | (Err e, r) \<Rightarrow> (Err e, m\<lparr>lm_repo := r\<rparr>)
      | (Panic, r) \<Rightarrow> (Panic, m\<lparr>lm_repo := r\<rparr>))"

text \<open>\<open>renew_lease\<close>: a read of the repository, then a write of the changed copy.\<close>

definition renew_read :: "ip_addr \<Rightarrow> 'l lease_manager \<Rightarrow> (lease, dhcp_error) outcome" where
  "renew_read ip m = ok_or (LeaseNotFound ip) (repo_find_by_ip ip (lm_repo m))"

definition store_lease :: "lease \<Rightarrow> 'l lease_manager \<Rightarrow> 'l lease_manager" where
  "store_lease l m = m\<lparr>lm_repo := repo_insert l (lm_repo m)\<rparr>"

definition change_lease :: "(lease \<Rightarrow> lease) \<Rightarrow> ip_addr \<Rightarrow> 'l lease_manager \<Rightarrow> (lease, dhcp_error) outcome \<times> 'l lease_manager" where
  "change_lease f ip m =
     (case renew_read ip m of
        Ok l \<Rightarrow> (Ok (f l), store_lease (f l) m)
      | Err e \<Rightarrow> (Err e, m)
      | Panic \<Rightarrow> (Panic, m))"

definition renew_lease :: "'l manager_env \<Rightarrow> ip_addr \<Rightarrow> nat \<Rightarrow> 'l lease_manager \<Rightarrow> (lease, dhcp_error) outcome \<times> 'l lease_manager" where
  "renew_lease E ip duration = change_lease (\<lambda>l. l\<lparr>ls_expires := sys_now E + duration\<rparr>) ip"

definition mark_lease_declined :: "ip_addr \<Rightarrow> 'l lease_manager \<Rightarrow> (lease, dhcp_error) outcome \<times> 'l lease_manager" where
  "mark_lease_declined ip = change_lease (\<lambda>l. l\<lparr>ls_flags := ls_flags l OR LF_DECLINED\<rparr>) ip"

definition expired_leases :: "'l manager_env \<Rightarrow> 'l lease_manager \<Rightarrow> lease list" where
  "expired_leases E m = filter (\<lambda>l. lease_is_expired (sys_now E) l \<and> \<not> is_static l) (get_all_leases E m)"

definition manager_prune :: "'l manager_env \<Rightarrow> 'l lease_manager \<Rightarrow> nat \<times> 'l lease_manager" where
  "manager_prune E m =
     (let expired = expired_leases E m in
      (length expired, fold (\<lambda>l m. snd (release_lease E (ls_ip l) m)) expired m))"

definition find_by_client_id :: "'l manager_env \<Rightarrow> bytes \<Rightarrow> 'l lease_manager \<Rightarrow> lease option" where
  "find_by_client_id E client_id m = find (\<lambda>l. ls_client_id l = Some client_id) (get_all_leases E m)"

definition load_leases :: "'l manager_env \<Rightarrow> 'l lease_manager \<Rightarrow> (nat, dhcp_error) outcome \<times> 'l lease_manager" where
  "load_leases E m =
     (case lease_file (lm_config m) of
        None \<Rightarrow> (Ok 0, m)
      | Some _ \<Rightarrow>
          (case read_leases (env_parse_ip E) (sys_now E) (lm_file m) of
             Ok ls \<Rightarrow> (Ok (length ls), m\<lparr>lm_repo := fold repo_insert ls (lm_repo m)\<rparr>)
           | Err e \<Rightarrow> (Err e, m)
           | Panic \<Rightarrow> (Panic, m)))"

subsection \<open>What each operation does to the parts of the state\<close>

lemma run_script_simps [simp]:
  "lm_repo (run_script a l m) = lm_repo m" "lm_cache (run_script a l m) = lm_cache m"
  "lm_config (run_script a l m) = lm_config m" "lm_file (run_script a l m) = lm_file m"
  "script_path (lm_config m) \<noteq> None \<Longrightarrow> lm_log (run_script a l m) = lm_log m @ [(a, l)]"
  by (auto simp: run_script_def split: option.splits)

lemma save_leases_simps [simp]:
  "lm_repo (snd (save_leases E m)) = lm_repo m" "lm_cache (snd (save_leases E m)) = lm_cache m"
  "lm_config (snd (save_leases E m)) = lm_config m" "lm_log (snd (save_leases E m)) = lm_log m"
  by (simp_all add: save_leases_def Let_def split: option.split)

lemma allocate_parts:
  fixes m :: "'l lease_manager" and E ip mac hostname client_id interface duration
  defines "l \<equiv> lease_new (sys_now E) ip mac hostname client_id interface duration"
  shows "fst (allocate_lease E ip mac hostname client_id interface duration m) = Ok l"
    "lm_repo (snd (allocate_lease E ip mac hostname client_id interface duration m)) = repo_insert l (lm_repo m)"
    "lm_cache (snd (allocate_lease E ip mac hostname client_id interface duration m)) =
       (case ls_hostname l of
          Some h \<Rightarrow> snd (register_lease_hostname (env_lru E) (env_idna E) (sys_later E) (mono_later E) ip h None (ls_expires l) (lm_cache m))
        | None \<Rightarrow> lm_cache m)"
    "lm_config (snd (allocate_lease E ip mac hostname client_id interface duration m)) = lm_config m"
    "script_path (lm_config m) \<noteq> None \<Longrightarrow> lm_log (snd (allocate_lease E ip mac hostname client_id interface duration m)) =
       lm_log m @ [(if repo_find_by_ip ip (lm_repo m) = None then Add else Old, l)]"
  by (simp_all add: allocate_lease_def l_def Let_def lease_new_def split: option.split)

lemma release_missing:
  "repo_find_by_ip ip (lm_repo m) = None \<Longrightarrow> release_lease E ip m = (Err (LeaseNotFound ip), m)"
  by (simp add: release_lease_def repo_remove_def repo_find_by_ip_def)

lemma release_parts:
  assumes "repo_find_by_ip ip (lm_repo m) = Some l"
  shows "fst (release_lease E ip m) = Ok l"
    "lm_repo (snd (release_lease E ip m)) = snd (repo_remove ip (lm_repo m))"
    "lm_cache (snd (release_lease E ip m)) =
       (case ls_hostname l of
          Some h \<Rightarrow> snd (unregister_lease_hostname (env_lru E) (env_idna E) (ls_ip l) h (ls_fqdn l) (lm_cache m))
        | None \<Rightarrow> lm_cache m)"
    "lm_config (snd (release_lease E ip m)) = lm_config m"
    "script_path (lm_config m) \<noteq> None \<Longrightarrow> lm_log (snd (release_lease E ip m)) = lm_log m @ [(Del, l)]"
    "lease_file (lm_config m) \<noteq> None \<Longrightarrow> env_write_ok E \<Longrightarrow>
       lm_file (snd (release_lease E ip m)) =
         Some (write_leases (env_show_ip E) (repo_list_all (env_iter E) (snd (repo_remove ip (lm_repo m)))) None)"
proof -
  let ?m = "m\<lparr>lm_repo := snd (repo_remove ip (lm_repo m)), lm_cache := (case ls_hostname l of
          Some h \<Rightarrow> snd (unregister_lease_hostname (env_lru E) (env_idna E) (ls_ip l) h (ls_fqdn l) (lm_cache m))
        | None \<Rightarrow> lm_cache m)\<rparr>"
  obtain r where "repo_remove ip (lm_repo m) = (Ok l, r)"
    using assms by (simp add: repo_remove_def repo_find_by_ip_def Let_def)
  then have r: "release_lease E ip m = (Ok l, snd (save_leases E (run_script Del l ?m)))"
    by (cases "ls_hostname l") (simp_all add: release_lease_def Let_def)
  show "fst (release_lease E ip m) = Ok l" "lm_repo (snd (release_lease E ip m)) = snd (repo_remove ip (lm_repo m))"
    "lm_config (snd (release_lease E ip m)) = lm_config m"
    "lm_cache (snd (release_lease E ip m)) =
       (case ls_hostname l of
          Some h \<Rightarrow> snd (unregister_lease_hostname (env_lru E) (env_idna E) (ls_ip l) h (ls_fqdn l) (lm_cache m))
        | None \<Rightarrow> lm_cache m)"
    by (simp_all add: r)
  show "script_path (lm_config m) \<noteq> None \<Longrightarrow> lm_log (snd (release_lease E ip m)) = lm_log m @ [(Del, l)]"
    by (simp add: r)
  show "lease_file (lm_config m) \<noteq> None \<Longrightarrow> env_write_ok E \<Longrightarrow>
       lm_file (snd (release_lease E ip m)) =
         Some (write_leases (env_show_ip E) (repo_list_all (env_iter E) (snd (repo_remove ip (lm_repo m)))) None)"
    by (auto simp: r save_leases_def get_all_leases_def Let_def)
qed

lemma change_parts:
  "lm_repo (snd (change_lease f ip m)) =
     (case repo_find_by_ip ip (lm_repo m) of Some l \<Rightarrow> repo_insert (f l) (lm_repo m) | None \<Rightarrow> lm_repo m)"
  "lm_cache (snd (change_lease f ip m)) = lm_cache m" "lm_config (snd (change_lease f ip m)) = lm_config m"
  "lm_log (snd (change_lease f ip m)) = lm_log m" "lm_file (snd (change_lease f ip m)) = lm_file m"
  "fst (change_lease f ip m) = (case repo_find_by_ip ip (lm_repo m) of Some l \<Rightarrow> Ok (f l) | None \<Rightarrow> Err (LeaseNotFound ip))"
  by (cases "repo_find_by_ip ip (lm_repo m)"; simp add: change_lease_def renew_read_def store_lease_def)+

subsection \<open>Invariant\<close>

definition manager_inv :: "('l \<Rightarrow> (cache_id \<times> cache_entry) list) \<Rightarrow> ('l \<Rightarrow> nat) \<Rightarrow> 'l lease_manager \<Rightarrow> bool" where
  "manager_inv items cap m \<longleftrightarrow> repo_inv (lm_repo m) \<and> cache_inv items cap (lm_cache m)"

text \<open>The environments the manager runs in: a correct LRU list and an iteration order of the hash map.\<close>

locale manager_environment = lru_cache "env_lru E" items cap
  for E :: "'l manager_env" and items :: "'l \<Rightarrow> (cache_id \<times> cache_entry) list" and cap :: "'l \<Rightarrow> nat" +
  assumes iter_perm: "mset (env_iter E xs) = mset xs"
begin

lemma inv_add_name: "cache_inv items cap c \<Longrightarrow> cache_inv items cap (snd (add_lease_name (env_lru E) idna t ip ttl n c))"
  by (simp add: add_lease_name_def add_dhcp_entry_def inv_insert split: outcome.split)

lemma inv_register:
  "cache_inv items cap c \<Longrightarrow> cache_inv items cap (snd (register_lease_hostname (env_lru E) idna s t ip h f e c))"
  using inv_add_name[of c idna t ip "of_nat ((e - s) div secs 1)"]
  by (auto simp: register_lease_hostname_def Let_def inv_add_name duration_since_def
      split: option.splits prod.splits outcome.splits) (metis inv_add_name snd_conv)+

lemma inv_remove_name: "cache_inv items cap c \<Longrightarrow> cache_inv items cap (snd (remove_lease_name (env_lru E) idna ip n c))"
  by (simp add: remove_lease_name_def inv_remove_dhcp split: outcome.split)

lemma inv_unregister:
  "cache_inv items cap c \<Longrightarrow> cache_inv items cap (snd (unregister_lease_hostname (env_lru E) idna ip h f c))"
  by (auto simp: unregister_lease_hostname_def Let_def inv_remove_name split: option.splits prod.splits outcome.splits)
    (metis inv_remove_name snd_conv)+

lemma inv_update_dns: "cache_inv items cap c \<Longrightarrow> cache_inv items cap (update_lease_dns (env_lru E) idna s t l c)"
proof -
  have "cache_inv items cap c \<Longrightarrow> cache_inv items cap
      (fold (\<lambda>ip c. snd (register_lease_hostname (env_lru E) idna s t ip h f e c)) ips c)" for ips h f e c
    by (induction ips arbitrary: c) (simp_all add: inv_register)
  then show "cache_inv items cap c \<Longrightarrow> ?thesis" by (simp add: update_lease_dns_def Let_def inv_register split: option.split)
qed

lemma inv_allocate:
  "manager_inv items cap m \<Longrightarrow> manager_inv items cap (snd (allocate_lease E ip mac h cid ifc d m))"
  by (simp add: manager_inv_def allocate_parts mem.inv_insert inv_register split: option.split)

lemma inv_release: "manager_inv items cap m \<Longrightarrow> manager_inv items cap (snd (release_lease E ip m))"
  by (cases "repo_find_by_ip ip (lm_repo m)")
    (auto simp: manager_inv_def release_missing release_parts mem.inv_remove inv_unregister split: option.split)

lemma inv_prune_fold:
  "manager_inv items cap m \<Longrightarrow> manager_inv items cap (fold (\<lambda>l m. snd (release_lease E (ls_ip l) m)) ls m)"
  by (induction ls arbitrary: m) (simp_all add: inv_release)

lemma inv_prune: "manager_inv items cap m \<Longrightarrow> manager_inv items cap (snd (manager_prune E m))"
  by (simp add: manager_prune_def Let_def inv_prune_fold)

lemma repo_laws: "lease_repository repo_inv repo_find_by_ip repo_insert repo_remove (repo_list_all (env_iter E))"
  by (rule repo_lease_repository) (rule iter_perm)

end

lemma inv_change:
  "manager_inv items cap m \<Longrightarrow> manager_inv items cap (snd (change_lease f ip m))"
  by (simp add: manager_inv_def change_parts mem.inv_insert split: option.split)

lemma inv_load: "manager_inv items cap m \<Longrightarrow> manager_inv items cap (snd (load_leases E m))"
  by (auto simp: manager_inv_def load_leases_def mem.inv_insert_list split: option.split outcome.split)

subsection \<open>Names in the cache\<close>

lemma register_no_fqdn:
  assumes "sys \<le> expires" "h \<noteq> []" "dn_new idna h = Ok d"
  shows "register_lease_hostname L idna sys tick ip h None expires c =
    (Ok (), add_dhcp_entry L tick d ip (of_nat ((expires - sys) div secs 1)) c)"
  using assms by (simp add: register_lease_hostname_def duration_since_def add_lease_name_def)

lemma unregister_no_fqdn:
  assumes "h \<noteq> []" "dn_new idna h = Ok d"
  shows "unregister_lease_hostname L idna ip h None c = (Ok (), snd (remove_dhcp_entry L d (address_type ip) c))"
  using assms by (simp add: unregister_lease_hostname_def remove_lease_name_def)

lemma lease_entry_simps [simp]:
  "ce_expiry (entry_new t d r a ttl f) = t + secs (unat ttl)" "ce_ip_addr (entry_new t d r a ttl f) = a"
  "entry_key (entry_new t d r a ttl f) = cache_key d r"
  by (simp_all add: entry_new_def timestamp_add_def)

lemma remove_dhcp_gone:
  "cache_map (snd (remove_dhcp_entry L d t c)) (cache_key d t) = Some e \<Longrightarrow> \<not> is_dhcp e"
  by (auto simp: remove_dhcp_entry_def Let_def delete_conv' split: option.splits if_splits)

context manager_environment
begin

lemma lookup_registered:
  assumes "cache_inv items cap c"
  shows "cache_map (add_dhcp_entry (env_lru E) tick d ip ttl c) (cache_key d (address_type ip)) =
    Some (entry_new tick d (address_type ip) (Some ip) ttl (CF_DHCP OR CF_FORWARD))"
  using insert_map[OF assms, of "entry_new tick d (address_type ip) (Some ip) ttl (CF_DHCP OR CF_FORWARD)"]
  by (simp add: add_dhcp_entry_def)

lemma find_registered:
  assumes "cache_inv items cap c" "dn_eq d' d"
  shows "fst (find_by_name (env_lru E) now d' (address_type ip) (add_dhcp_entry (env_lru E) tick d ip ttl c)) =
    (if now < tick + secs (unat ttl)
     then Some (entry_new tick d (address_type ip) (Some ip) ttl (CF_DHCP OR CF_FORWARD)) else None)"
proof -
  let ?c = "add_dhcp_entry (env_lru E) tick d ip ttl c"
  have inv: "cache_inv items cap ?c" using inv_insert[OF assms(1)] by (simp add: add_dhcp_entry_def)
  have key: "cache_key d' (address_type ip) = cache_key d (address_type ip)" using assms(2) by (simp add: cache_key_eq_iff)
  have r: "fst (find_by_name (env_lru E) now d' (address_type ip) ?c) = Some e \<longleftrightarrow>
      e = entry_new tick d (address_type ip) (Some ip) ttl (CF_DHCP OR CF_FORWARD) \<and> now < tick + secs (unat ttl)" for e
    unfolding find_by_name_result[OF inv] key lookup_registered[OF assms(1)] by auto
  show ?thesis
  proof (cases "now < tick + secs (unat ttl)")
    case True
    with r show ?thesis by simp
  next
    case False
    with r have "fst (find_by_name (env_lru E) now d' (address_type ip) ?c) \<noteq> Some e" for e by blast
    with False show ?thesis by (simp add: not_Some_eq[symmetric] del: not_Some_eq)
  qed
qed

lemma release_find:
  assumes "manager_inv items cap m"
  shows "repo_find_by_ip ip' (lm_repo (snd (release_lease E ip m))) =
    (if ip' = ip then None else repo_find_by_ip ip' (lm_repo m))"
  using assms mem.find_remove[of "lm_repo m" ip' ip]
  by (cases "repo_find_by_ip ip (lm_repo m)") (auto simp: manager_inv_def release_missing release_parts)

lemma prune_fold_repo:
  "manager_inv items cap m \<Longrightarrow>
   lm_repo (fold (\<lambda>l m. snd (release_lease E (ls_ip l) m)) ls m) =
     fold (\<lambda>ip r. snd (repo_remove ip r)) (map ls_ip ls) (lm_repo m)"
proof (induction ls arbitrary: m)
  case (Cons l ls)
  have "lm_repo (snd (release_lease E (ls_ip l) m)) = snd (repo_remove (ls_ip l) (lm_repo m))"
    by (cases "repo_find_by_ip (ls_ip l) (lm_repo m)")
      (simp_all add: release_missing release_parts, simp add: repo_remove_def repo_find_by_ip_def)
  with Cons.IH[OF inv_release[OF Cons.prems]] show ?case by simp
qed simp

lemma prune_find:
  assumes "manager_inv items cap m"
  shows "repo_find_by_ip ip (lm_repo (snd (manager_prune E m))) =
    (case repo_find_by_ip ip (lm_repo m) of
       Some l \<Rightarrow> if lease_is_expired (sys_now E) l \<and> \<not> is_static l then None else Some l | None \<Rightarrow> None)"
  using lease_repository.find_remove_filtered[OF repo_laws, of "lm_repo m" ip] assms
  by (simp add: manager_prune_def Let_def prune_fold_repo expired_leases_def get_all_leases_def manager_inv_def)

end

subsection \<open>The events a script sees\<close>

text \<open>
  A script can keep the set of leased addresses from the events alone: \<open>add\<close> announces an address it does
  not have, \<open>old\<close> and \<open>del\<close> one it has.  \<open>replay\<close> is \<open>None\<close> when an event does not fit.
\<close>

fun replay :: "ip_addr set \<Rightarrow> (lease_action \<times> lease) list \<Rightarrow> ip_addr set option" where
  "replay S [] = Some S"
| "replay S ((a, l) # es) =
     (case a of
        Add \<Rightarrow> if ls_ip l \<in> S then None else replay (insert (ls_ip l) S) es
      | Del \<Rightarrow> if ls_ip l \<in> S then replay (S - {ls_ip l}) es else None
      | _ \<Rightarrow> if ls_ip l \<in> S then replay S es else None)"

definition held :: "'l lease_manager \<Rightarrow> ip_addr set" where
  "held m = {ip. repo_find_by_ip ip (lm_repo m) \<noteq> None}"

lemma replay_append: "replay S (es @ fs) = Option.bind (replay S es) (\<lambda>T. replay T fs)"
  by (induction S es rule: replay.induct) (auto split: lease_action.splits)

definition script_view :: "ip_addr set \<Rightarrow> 'l lease_manager \<Rightarrow> bool" where
  "script_view S m \<longleftrightarrow> script_path (lm_config m) \<noteq> None \<and> replay S (lm_log m) = Some (held m)"

context manager_environment
begin

lemma view_allocate:
  assumes "script_view S m" "manager_inv items cap m"
  shows "script_view S (snd (allocate_lease E ip mac h cid ifc d m))"
proof -
  let ?l = "lease_new (sys_now E) ip mac h cid ifc d"
  have "ls_ip ?l = ip" by (simp add: lease_new_def)
  then have "held (snd (allocate_lease E ip mac h cid ifc d m)) = insert ip (held m)"
    using assms(2) by (auto simp: held_def allocate_parts mem.find_insert manager_inv_def)
  with assms(1) \<open>ls_ip ?l = ip\<close> show ?thesis
    by (auto simp: script_view_def allocate_parts replay_append held_def)
qed

lemma view_release:
  assumes "script_view S m" "manager_inv items cap m"
  shows "script_view S (snd (release_lease E ip m))"
proof (cases "repo_find_by_ip ip (lm_repo m)")
  case (Some l)
  then have "ls_ip l = ip" "ip \<in> held m" using assms(2) mem.find_keyed by (auto simp: manager_inv_def held_def)
  moreover have "held (snd (release_lease E ip m)) = held m - {ip}"
    unfolding held_def using release_find[OF assms(2), of _ ip] by simp blast
  ultimately show ?thesis
    using assms(1) by (simp add: script_view_def release_parts[OF Some] replay_append)
qed (use assms in \<open>simp add: release_missing\<close>)

lemma view_prune:
  assumes "script_view S m" "manager_inv items cap m"
  shows "script_view S (snd (manager_prune E m))"
proof -
  have "script_view S m \<Longrightarrow> manager_inv items cap m \<Longrightarrow>
      script_view S (fold (\<lambda>l m. snd (release_lease E (ls_ip l) m)) ls m)" for ls m
    by (induction ls arbitrary: m) (simp_all add: view_release inv_release)
  with assms show ?thesis by (simp add: manager_prune_def Let_def)
qed

end

lemma view_change:
  assumes "script_view S m" "manager_inv items cap m" "\<And>l. ls_ip (f l) = ls_ip l"
  shows "script_view S (snd (change_lease f ip m))"
proof -
  have "repo_find_by_ip ip (lm_repo m) = Some l \<Longrightarrow> ls_ip (f l) = ip" for l
    using assms(2,3) mem.find_keyed[of "lm_repo m" ip l] by (simp add: manager_inv_def)
  then have "held (snd (change_lease f ip m)) = held m"
    using assms(2) by (cases "repo_find_by_ip ip (lm_repo m)") (auto simp: held_def change_parts manager_inv_def mem.find_insert)
  with assms(1) show ?thesis by (simp add: script_view_def change_parts)
qed

subsection \<open>Reloading\<close>

lemma find_reloaded:
  assumes "distinct (map ls_ip ls)"
  shows "\<forall>l. l \<in> set ls \<and> ls_ip l = ip \<longrightarrow> repo_find_by_ip ip
      (fold repo_insert (map reloaded (filter is_ipv4 ls @ filter (\<lambda>l. \<not> is_ipv4 l) ls)) repo_new) = Some (reloaded l)"
    "\<forall>l\<in>set ls. ls_ip l \<noteq> ip \<Longrightarrow> repo_find_by_ip ip
      (fold repo_insert (map reloaded (filter is_ipv4 ls @ filter (\<lambda>l. \<not> is_ipv4 l) ls)) repo_new) = None"
proof -
  let ?r = "map reloaded (filter is_ipv4 ls @ filter (\<lambda>l. \<not> is_ipv4 l) ls)"
  have ip: "ls_ip (reloaded l) = ls_ip l" for l by (simp add: reloaded_def bare_def)
  note f = mem.find_insert_list[OF repo_inv_new, of ip ?r]
  have none: "repo_find_by_ip ip repo_new = None" by (simp add: repo_find_by_ip_def repo_new_def)
  show "\<forall>l. l \<in> set ls \<and> ls_ip l = ip \<longrightarrow> repo_find_by_ip ip (fold repo_insert ?r repo_new) = Some (reloaded l)"
  proof (intro allI impI, elim conjE)
    fix l assume l: "l \<in> set ls" "ls_ip l = ip"
    then have "reloaded l \<in> set (rev ?r)" "ls_ip (reloaded l) = ip" by (auto simp: ip)
    then have "find (\<lambda>l. ls_ip l = ip) (rev ?r) \<noteq> None" unfolding find_None_iff by blast
    then obtain x where x: "find (\<lambda>l. ls_ip l = ip) (rev ?r) = Some x" by auto
    then have "x \<in> set (rev ?r)" "ls_ip x = ip" unfolding find_Some_iff using nth_mem by blast+
    then obtain y where "y \<in> set ls" "x = reloaded y" "ls_ip x = ip" by auto
    with l assms have "y = l" using ip by (metis distinct_map inj_on_def)
    with f x \<open>x = reloaded y\<close> show "repo_find_by_ip ip (fold repo_insert ?r repo_new) = Some (reloaded l)" by simp
  qed
  assume "\<forall>l\<in>set ls. ls_ip l \<noteq> ip"
  then have "find (\<lambda>l. ls_ip l = ip) (rev ?r) = None" by (auto simp: find_None_iff ip)
  with f none show "repo_find_by_ip ip (fold repo_insert ?r repo_new) = None" by simp
qed

subsection \<open>Runs of the manager\<close>

text \<open>
  The states reached from a manager \<open>m0\<close> that has loaded its leases: any sequence of operations in any
  environments over the same LRU list, with lookups of the DNS server and expiry in between.
\<close>

inductive manager_reach :: "('l manager_env \<Rightarrow> bool) \<Rightarrow> 'l lru_ops \<Rightarrow> 'l lease_manager \<Rightarrow> 'l lease_manager \<Rightarrow> bool"
  for ok L m0 where
  start: "manager_reach ok L m0 m0"
| allocate: "manager_reach ok L m0 m \<Longrightarrow> ok E \<Longrightarrow> manager_reach ok L m0 (snd (allocate_lease E ip mac h cid ifc d m))"
| release: "manager_reach ok L m0 m \<Longrightarrow> ok E \<Longrightarrow> manager_reach ok L m0 (snd (release_lease E ip m))"
| renew: "manager_reach ok L m0 m \<Longrightarrow> manager_reach ok L m0 (snd (renew_lease E ip d m))"
| decline: "manager_reach ok L m0 m \<Longrightarrow> manager_reach ok L m0 (snd (mark_lease_declined ip m))"
| prune: "manager_reach ok L m0 m \<Longrightarrow> ok E \<Longrightarrow> manager_reach ok L m0 (snd (manager_prune E m))"
| save: "manager_reach ok L m0 m \<Longrightarrow> manager_reach ok L m0 (snd (save_leases E m))"
| dns_lookup: "manager_reach ok L m0 m \<Longrightarrow> manager_reach ok L m0 (m\<lparr>lm_cache := snd (find_by_name L now d t (lm_cache m))\<rparr>)"
| dns_insert: "manager_reach ok L m0 m \<Longrightarrow> manager_reach ok L m0 (m\<lparr>lm_cache := cache_insert L e (lm_cache m)\<rparr>)"
| dns_prune: "manager_reach ok L m0 m \<Longrightarrow> manager_reach ok L m0 (m\<lparr>lm_cache := snd (prune_expired L iter now (lm_cache m))\<rparr>)"

abbreviation runs_on :: "'l lru_ops \<Rightarrow> ('l \<Rightarrow> (cache_id \<times> cache_entry) list) \<Rightarrow> ('l \<Rightarrow> nat) \<Rightarrow> 'l manager_env \<Rightarrow> bool" where
  "runs_on L items cap E \<equiv> env_lru E = L \<and> manager_environment E items cap"

lemma script_view_cache [simp]: "script_view S (m\<lparr>lm_cache := c\<rparr>) = script_view S m"
  by (simp add: script_view_def held_def)

lemma manager_inv_cache: "manager_inv items cap m \<Longrightarrow> cache_inv items cap c \<Longrightarrow> manager_inv items cap (m\<lparr>lm_cache := c\<rparr>)"
  by (simp add: manager_inv_def)

lemma script_view_save [simp]: "script_view S (snd (save_leases E m)) = script_view S m"
  by (simp add: script_view_def held_def)

lemma manager_reach_inv:
  assumes "lru_cache L items cap" "manager_reach (runs_on L items cap) L m0 m" "manager_inv items cap m0" "script_view S m0"
  shows "manager_inv items cap m \<and> script_view S m"
  using assms(2)
proof induction
  case (allocate m E ip mac h cid ifc d)
  then show ?case
    by (auto intro: manager_environment.inv_allocate manager_environment.view_allocate)
next
  case (release m E ip)
  then show ?case by (auto intro: manager_environment.inv_release manager_environment.view_release)
next
  case (prune m E)
  then show ?case by (auto intro: manager_environment.inv_prune manager_environment.view_prune)
next
  case (renew m E ip d)
  then show ?case unfolding renew_lease_def using inv_change view_change[of S m items cap "\<lambda>l. l\<lparr>ls_expires := sys_now E + d\<rparr>"] by auto
next
  case (decline m ip)
  then show ?case unfolding mark_lease_declined_def using inv_change view_change[of S m items cap "\<lambda>l. l\<lparr>ls_flags := ls_flags l OR LF_DECLINED\<rparr>"] by auto
next
  case (save m E)
  then show ?case by (simp add: manager_inv_def)
next
  case (dns_lookup m now d t)
  then show ?case using lru_cache.inv_find_by_name[OF assms(1)] by (auto simp: manager_inv_def)
next
  case (dns_insert m e)
  then show ?case using lru_cache.inv_insert[OF assms(1)] by (auto simp: manager_inv_def)
next
  case (dns_prune m iter now)
  then show ?case using lru_cache.inv_prune_expired[OF assms(1)] by (auto simp: manager_inv_def)
qed (use assms in blast)

subsection \<open>An example environment\<close>

definition example_env :: "nat \<Rightarrow> ((cache_id \<times> cache_entry) list \<times> nat) manager_env" where
  "example_env t = \<lparr>env_lru = list_lru, env_idna = (\<lambda>_. None), env_parse_ip = hex_parse_ip, env_show_ip = hex_show_ip,
     env_iter = rev, env_write_ok = True, sys_now = t, sys_later = t, mono_later = t\<rparr>"

definition example_manager :: "((cache_id \<times> cache_entry) list \<times> nat) lease_manager" where
  "example_manager = manager_new \<lparr>script_path = Some [], lease_file = Some []\<rparr> (with_capacity list_lru 2) 10 None"

interpretation ex: manager_environment "example_env t" fst snd
  by unfold_locales (simp_all add: example_env_def ll.items_new ll.get_hit ll.get_miss ll.items_put ll.items_pop
      ll.pop_lru_Nil ll.pop_lru_snoc ll.items_clear)

lemma example_runs: "runs_on list_lru fst snd (example_env t)"
  using ex.manager_environment_axioms[of t] by (simp add: example_env_def)

lemma example_manager_inv: "manager_inv fst snd example_manager"
  by (simp add: manager_inv_def example_manager_def manager_new_def ll.inv_with_capacity)

lemma example_env_simps [simp]:
  "env_lru (example_env t) = list_lru" "env_idna (example_env t) = (\<lambda>_. None)" "env_parse_ip (example_env t) = hex_parse_ip"
  "env_show_ip (example_env t) = hex_show_ip" "env_write_ok (example_env t)" "sys_now (example_env t) = t"
  "sys_later (example_env t) = t" "mono_later (example_env t) = t" "env_iter (example_env t) = rev"
  by (simp_all add: example_env_def)

lemma example_hostname:
  "strip_hostname [0x61] 63 = [0x61]" "dn_new (\<lambda>_. None) [0x61] = Ok \<lparr>dn_name = [0x61]\<rparr>"
proof -
  have "valid_name \<lparr>dn_name = [0x61]\<rparr>"
    by (simp add: valid_name_def valid_label_def label_error_def is_ascii_alphanumeric_def)
  from dn_new_valid[OF this] show "dn_new (\<lambda>_. None) [0x61] = Ok \<lparr>dn_name = [0x61]\<rparr>" by simp
  show "strip_hostname [0x61] 63 = [0x61]"
    by (simp add: strip_hostname_def hostname_char_def is_ascii_alphanumeric_def trim_matches_def Let_def)
qed

subsection \<open>Properties\<close>

text \<open>
  C11: after \<open>allocate_lease\<close> with a usable hostname the lease is stored under its address and the DNS cache
  answers queries for the name, in any case, with that address exactly for the whole seconds left of
  the lease, as long as these fit in 32 bits.
\<close>

theorem allocated_name_resolves:
  assumes "manager_environment E items cap" and "manager_inv items cap m"
    and "strip_hostname h 63 \<noteq> []" and "dn_new (env_idna E) (strip_hostname h 63) = Ok d" and "dn_eq d' d"
    and "sys_later E \<le> sys_now E + duration" and "left = (sys_now E + duration - sys_later E) div secs 1" and "left < 2 ^ 32"
    and "allocate_lease E ip mac (Some h) client_id interface duration m = (r, m')"
  shows "\<exists>l. r = Ok l \<and> repo_find_by_ip ip (lm_repo m') = Some l \<and> ls_expires l = sys_now E + duration \<and>
    Option.bind (fst (find_by_name (env_lru E) now d' (address_type ip) (lm_cache m'))) ce_ip_addr =
      (if now < mono_later E + secs left then Some ip else None)"
proof -
  let ?l = "lease_new (sys_now E) ip mac (Some h) client_id interface duration"
  have l: "ls_ip ?l = ip" "ls_hostname ?l = Some (strip_hostname h 63)" "ls_expires ?l = sys_now E + duration"
    by (simp_all add: lease_new_def)
  have m: "m' = snd (allocate_lease E ip mac (Some h) client_id interface duration m)"
    "r = fst (allocate_lease E ip mac (Some h) client_id interface duration m)" using assms(9) by simp_all
  have u: "unat (of_nat left :: u32) = left" using assms(8) by (simp add: unat_of_nat take_bit_nat_eq_self)
  have inv: "repo_inv (lm_repo m)" "cache_inv items cap (lm_cache m)" using assms(2) by (simp_all add: manager_inv_def)
  have "lm_cache m' = add_dhcp_entry (env_lru E) (mono_later E) d ip (of_nat left) (lm_cache m)"
    using register_no_fqdn[OF assms(6,3,4), of "env_lru E"] by (simp add: m allocate_parts l assms(7))
  then have "Option.bind (fst (find_by_name (env_lru E) now d' (address_type ip) (lm_cache m'))) ce_ip_addr =
      (if now < mono_later E + secs left then Some ip else None)"
    using manager_environment.find_registered[OF assms(1) inv(2) assms(5)] by (simp add: u)
  moreover have "repo_find_by_ip ip (lm_repo m') = Some ?l"
    using mem.find_insert[OF inv(1), of ip ?l] by (simp add: m allocate_parts l)
  ultimately show ?thesis using l(3) by (auto simp: m allocate_parts)
qed

theorem allocated_name_resolves_witness:
  "Option.bind (fst (find_by_name list_lru 7 \<lparr>dn_name = [0x41]\<rparr> RT_A (lm_cache (snd
     (allocate_lease (example_env 5) (V4 [10, 0, 0, 1]) None (Some [0x61]) None [] (secs 60) example_manager))))) ce_ip_addr =
   Some (V4 [10, 0, 0, 1])"
proof -
  have "dn_eq \<lparr>dn_name = [0x41]\<rparr> \<lparr>dn_name = [0x61]\<rparr>" by (simp add: dn_eq_def eq_ignore_ascii_case_def to_lower_def)
  from allocated_name_resolves[OF ex.manager_environment_axioms[of 5] example_manager_inv _ _ this, of "[0x61]" "secs 60" 60
      "V4 [10, 0, 0, 1]" None None "[]" _ _ 7, OF _ _ _ _ _ prod.collapse[symmetric]]
  show ?thesis by (auto simp: example_hostname secs_def address_type_def)
qed

text \<open>
  \<open>release_lease\<close> of a leased address removes exactly that lease, unregisters its name so that no
  DHCP entry of the name is left, tells the script, and rewrites the lease file; for an address
  without a lease it is an error and nothing changes.
\<close>

theorem release_lease_spec:
  assumes "manager_environment E items cap" and "manager_inv items cap m"
  shows "(repo_find_by_ip ip (lm_repo m) = None \<longrightarrow> release_lease E ip m = (Err (LeaseNotFound ip), m)) \<and>
    (\<forall>l m'. repo_find_by_ip ip (lm_repo m) = Some l \<longrightarrow> snd (release_lease E ip m) = m' \<longrightarrow>
       fst (release_lease E ip m) = Ok l \<and>
       repo_find_by_ip ip' (lm_repo m') = (if ip' = ip then None else repo_find_by_ip ip' (lm_repo m)) \<and>
       (\<forall>h d e. ls_hostname l = Some h \<and> h \<noteq> [] \<and> ls_fqdn l = None \<and> dn_new (env_idna E) h = Ok d \<and>
          map_of (entries (lm_cache m')) (cache_key d (address_type ip)) = Some e \<longrightarrow> \<not> is_dhcp e) \<and>
       (script_path (lm_config m) \<noteq> None \<longrightarrow> lm_log m' = lm_log m @ [(Del, l)]) \<and>
       (lease_file (lm_config m) \<noteq> None \<and> env_write_ok E \<longrightarrow>
          lm_file m' = Some (write_leases (env_show_ip E) (get_all_leases E m') None)))"
proof -
  have k: "repo_find_by_ip ip (lm_repo m) = Some l \<Longrightarrow> ls_ip l = ip" for l
    using assms(2) mem.find_keyed[of "lm_repo m" ip l] by (simp add: manager_inv_def)
  have d: "repo_find_by_ip ip (lm_repo m) = Some l \<Longrightarrow> ls_hostname l = Some h \<Longrightarrow> h \<noteq> [] \<Longrightarrow> ls_fqdn l = None \<Longrightarrow>
      dn_new (env_idna E) h = Ok d \<Longrightarrow>
      map_of (entries (lm_cache (snd (release_lease E ip m)))) (cache_key d (address_type ip)) = Some e \<Longrightarrow> \<not> is_dhcp e" for l h d e
    using remove_dhcp_gone[of "env_lru E" d "address_type ip" "lm_cache m" e] k[of l]
    by (simp add: release_parts unregister_no_fqdn)
  show ?thesis
    using release_missing[of ip m E] mem.find_remove[of "lm_repo m"] assms(2) d
    by (auto simp: release_parts get_all_leases_def manager_inv_def)
qed

theorem release_lease_spec_witness:
  "fst (release_lease (example_env 5) (V4 [10, 0, 0, 1]) example_manager) = Err (LeaseNotFound (V4 [10, 0, 0, 1]))"
  using release_lease_spec[OF ex.manager_environment_axioms[of 5] example_manager_inv, of "V4 [10, 0, 0, 1]"]
  by (simp add: example_manager_def manager_new_def repo_new_def repo_find_by_ip_def)

text \<open>
  \<open>prune_expired\<close> of the manager removes exactly the leases that expired before now and are not static
  and returns their number, whatever the iteration order.
\<close>

theorem manager_prune_spec:
  assumes "manager_environment E items cap" and "manager_inv items cap m"
  shows "repo_find_by_ip ip (lm_repo (snd (manager_prune E m))) =
      (case repo_find_by_ip ip (lm_repo m) of
         Some l \<Rightarrow> if ls_expires l < sys_now E \<and> \<not> is_static l then None else Some l | None \<Rightarrow> None) \<and>
    fst (manager_prune E m) = card {ip. \<exists>l. repo_find_by_ip ip (lm_repo m) = Some l \<and> ls_expires l < sys_now E \<and> \<not> is_static l}"
proof -
  let ?P = "\<lambda>l. ls_expires l < sys_now E \<and> \<not> is_static l" and ?ls = "repo_list_all (env_iter E) (lm_repo m)"
  note rl = manager_environment.repo_laws[OF assms(1)]
  have r: "repo_inv (lm_repo m)" using assms(2) by (simp add: manager_inv_def)
  have "{ip. \<exists>l. repo_find_by_ip ip (lm_repo m) = Some l \<and> ?P l} = ls_ip ` set (filter ?P ?ls)"
  proof -
    have "(\<exists>l. repo_find_by_ip ip (lm_repo m) = Some l \<and> ?P l) \<longleftrightarrow> (\<exists>l\<in>set ?ls. ip = ls_ip l \<and> ?P l)" for ip
      using lease_repository.list_all_find[OF rl r] lease_repository.find_keyed[OF rl r, of ip] by metis
    then show ?thesis by auto
  qed
  moreover have "card (ls_ip ` set (filter ?P ?ls)) = length (filter ?P ?ls)"
    using distinct_card[OF distinct_map_filter[OF lease_repository.list_all_distinct[OF rl r], of ?P]] by simp
  ultimately have "fst (manager_prune E m) = card {ip. \<exists>l. repo_find_by_ip ip (lm_repo m) = Some l \<and> ?P l}"
    by (simp add: lease_is_expired_def manager_prune_def Let_def expired_leases_def get_all_leases_def)
  then show ?thesis using manager_environment.prune_find[OF assms, of ip]
    by (simp add: lease_is_expired_def split: option.split)
qed

theorem manager_prune_spec_witness: "fst (manager_prune (example_env 5) example_manager) = 0"
  using manager_prune_spec[OF ex.manager_environment_axioms[of 5] example_manager_inv]
  by (simp add: example_manager_def manager_new_def repo_new_def repo_find_by_ip_def)

text \<open>
  C10: in every state a manager with a script reaches, by allocations, releases, renewals, declines, pruning
  and saving in any order, with the DNS server using the shared cache in between, repository and cache
  are consistent, and the events told to the script, replayed from the addresses leased at the start,
  fit together and give exactly the addresses leased now.
\<close>

theorem script_events_track_leases:
  assumes "lru_cache L items cap" and "manager_reach (runs_on L items cap) L m0 m"
    and "manager_inv items cap m0" and "script_path (lm_config m0) \<noteq> None" and "lm_log m0 = []"
  shows "repo_inv (lm_repo m) \<and> cache_inv items cap (lm_cache m) \<and> replay (held m0) (lm_log m) = Some (held m)"
proof -
  have "script_view (held m0) m0" using assms(4,5) by (simp add: script_view_def)
  from manager_reach_inv[OF assms(1-3) this] show ?thesis by (simp add: manager_inv_def script_view_def)
qed

theorem script_events_track_leases_witness:
  "replay {} (lm_log (snd (release_lease (example_env 6) (V4 [10, 0, 0, 1])
     (snd (allocate_lease (example_env 5) (V4 [10, 0, 0, 1]) None None None [] 60 example_manager))))) = Some {}"
proof -
  let ?m1 = "snd (allocate_lease (example_env 5) (V4 [10, 0, 0, 1]) None None None [] 60 example_manager)"
  let ?m2 = "snd (release_lease (example_env 6) (V4 [10, 0, 0, 1]) ?m1)"
  have r: "manager_reach (runs_on list_lru fst snd) list_lru example_manager ?m2"
    by (intro manager_reach.release manager_reach.allocate manager_reach.start example_runs)
  have "replay (held example_manager) (lm_log ?m2) = Some (held ?m2)"
    using script_events_track_leases[OF ll.lru_cache_axioms r example_manager_inv]
    by (simp add: example_manager_def manager_new_def)
  moreover have "held example_manager = {}" by (simp add: held_def example_manager_def manager_new_def repo_new_def repo_find_by_ip_def)
  moreover have "held ?m2 = {}"
    using ex.release_find[OF ex.inv_allocate[OF example_manager_inv]]
    by (auto simp: held_def allocate_parts mem.find_insert lease_new_def example_manager_def manager_new_def
        repo_new_def repo_find_by_ip_def leases_insert split: if_splits)
  ultimately show ?thesis by simp
qed

text \<open>
  A restart keeps the leases: when a manager saves its leases and a new one loads the file before any
  of them expires, the new one finds under every address the lease the old one had, with what the file
  keeps of it.
\<close>

theorem save_then_load:
  assumes "manager_environment E items cap" and "manager_inv items cap m" and "ip_text (env_parse_ip E') (env_show_ip E)"
    and "env_write_ok E" and "lease_file (lm_config m) \<noteq> None" and "lease_file config \<noteq> None"
    and "\<forall>l. repo_find_by_ip (ls_ip l) (lm_repo m) = Some l \<longrightarrow> storable (sys_now E') l"
  shows "fst (load_leases E' (manager_new config c n (lm_file (snd (save_leases E m))))) = Ok (length (leases (lm_repo m))) \<and>
    repo_find_by_ip ip (lm_repo (snd (load_leases E' (manager_new config c n (lm_file (snd (save_leases E m))))))) =
      map_option reloaded (repo_find_by_ip ip (lm_repo m))"
proof -
  let ?ls = "get_all_leases E m" and ?sort = "\<lambda>ls. filter is_ipv4 ls @ filter (\<lambda>l. \<not> is_ipv4 l) ls"
  note rl = manager_environment.repo_laws[OF assms(1)]
  have r: "repo_inv (lm_repo m)" using assms(2) by (simp add: manager_inv_def)
  have set: "l \<in> set ?ls \<longleftrightarrow> repo_find_by_ip (ls_ip l) (lm_repo m) = Some l" for l
    using lease_repository.list_all_find[OF rl r] by (simp add: get_all_leases_def)
  have dist: "distinct (map ls_ip ?ls)" using lease_repository.list_all_distinct[OF rl r] by (simp add: get_all_leases_def)
  have "read_leases (env_parse_ip E') (sys_now E') (Some (write_leases (env_show_ip E) ?ls None)) = Ok (map reloaded (?sort ?ls))"
    using assms(7) set by (intro leases_read_back[OF assms(3) _ dist]) auto
  then have load: "load_leases E' (manager_new config c n (lm_file (snd (save_leases E m)))) =
      (Ok (length ?ls), (manager_new config c n (lm_file (snd (save_leases E m))))
         \<lparr>lm_repo := fold repo_insert (map reloaded (?sort ?ls)) repo_new\<rparr>)"
    using assms(4,5,6) sum_length_filter_compl[of is_ipv4 ?ls]
    by (auto simp: load_leases_def save_leases_def manager_new_def Let_def)
  have "length ?ls = length (leases (lm_repo m))"
    using manager_environment.iter_perm[OF assms(1), of "leases (lm_repo m)"]
    by (simp add: get_all_leases_def repo_list_all_def flip: size_mset)
  moreover have "repo_find_by_ip ip (fold repo_insert (map reloaded (?sort ?ls)) repo_new) =
      map_option reloaded (repo_find_by_ip ip (lm_repo m))"
  proof (cases "repo_find_by_ip ip (lm_repo m)")
    case None
    then have "\<forall>l\<in>set ?ls. ls_ip l \<noteq> ip" using set by force
    with None find_reloaded(2)[OF dist] show ?thesis by simp
  next
    case (Some l)
    then have "l \<in> set ?ls \<and> ls_ip l = ip" using set lease_repository.find_keyed[OF rl r] by blast
    with Some find_reloaded(1)[OF dist, of ip] show ?thesis by simp
  qed
  ultimately show ?thesis by (simp add: load)
qed

theorem save_then_load_witness:
  "repo_find_by_ip (V4 [10, 0, 0, 1]) (lm_repo (snd (load_leases (example_env 6) (manager_new \<lparr>script_path = None, lease_file = Some []\<rparr>
     (with_capacity list_lru 2) 10 (lm_file (snd (save_leases (example_env 5)
       (snd (allocate_lease (example_env 5) (V4 [10, 0, 0, 1]) None None None [] (secs 60) example_manager))))))))) =
   Some (reloaded (lease_new 5 (V4 [10, 0, 0, 1]) None None None [] (secs 60)))"
proof -
  let ?m = "snd (allocate_lease (example_env 5) (V4 [10, 0, 0, 1]) None None None [] (secs 60) example_manager)"
  let ?l = "lease_new 5 (V4 [10, 0, 0, 1]) None None None [] (secs 60)"
  have f: "repo_find_by_ip ip (lm_repo ?m) = (if ip = V4 [10, 0, 0, 1] then Some ?l else None)" for ip
    using mem.find_insert[OF repo_inv_new, of ip ?l]
    by (simp add: allocate_parts example_manager_def manager_new_def lease_new_def) (simp add: repo_find_by_ip_def repo_new_def)
  have "storable 6 ?l" by (simp add: storable_def lease_new_def secs_def)
  then have "\<forall>l. repo_find_by_ip (ls_ip l) (lm_repo ?m) = Some l \<longrightarrow> storable (sys_now (example_env 6)) l"
    by (simp add: f)
  moreover have "lease_file (lm_config ?m) = Some []" by (simp add: allocate_parts example_manager_def manager_new_def)
  ultimately show ?thesis
    using save_then_load[where E' = "example_env 6" and config = "\<lparr>script_path = None, lease_file = Some []\<rparr>" and m = ?m
        and ip = "V4 [10, 0, 0, 1]" and c = "with_capacity list_lru 2" and n = 10,
        OF ex.manager_environment_axioms[of 5] ex.inv_allocate[OF example_manager_inv]]
    by (simp add: hex_ip_text f)
qed

text \<open>
  \<open>renew_lease\<close> reads and writes the repository in two separate critical sections.  When nothing
  comes between them it sets the expiry of the lease, leaves every other lease and the DNS cache as
  they were, and fails only for an address without a lease; when the release of the same address comes
  between them, the write brings the released lease back although the script was told that it is gone.
\<close>

theorem renew_release_interleaving:
  assumes "manager_environment E items cap" and "manager_inv items cap m" and "repo_find_by_ip ip (lm_repo m) = Some l"
  shows "renew_lease E ip d m = (Ok (l\<lparr>ls_expires := sys_now E + d\<rparr>), store_lease (l\<lparr>ls_expires := sys_now E + d\<rparr>) m) \<and>
    repo_find_by_ip ip' (lm_repo (snd (renew_lease E ip d m))) =
      (if ip' = ip then Some (l\<lparr>ls_expires := sys_now E + d\<rparr>) else repo_find_by_ip ip' (lm_repo m)) \<and>
    lm_cache (snd (renew_lease E ip d m)) = lm_cache m \<and>
    (let m' = store_lease (l\<lparr>ls_expires := sys_now E + d\<rparr>) (snd (release_lease E ip m)) in
      repo_find_by_ip ip (lm_repo m') = Some (l\<lparr>ls_expires := sys_now E + d\<rparr>) \<and>
      (script_path (lm_config m) \<noteq> None \<longrightarrow> lm_log m' = lm_log m @ [(Del, l)]))"
proof -
  have r: "repo_inv (lm_repo m)" and k: "ls_ip l = ip"
    using assms(2,3) mem.find_keyed[of "lm_repo m" ip l] by (simp_all add: manager_inv_def)
  have r': "repo_inv (lm_repo (snd (release_lease E ip m)))"
    using manager_environment.inv_release[OF assms(1,2)] by (simp add: manager_inv_def)
  show ?thesis
    using assms(3) k by (simp add: renew_lease_def change_lease_def renew_read_def store_lease_def Let_def release_parts(5)
        mem.find_insert[OF r] mem.find_insert[OF r'])
qed

theorem renew_release_interleaving_witness:
  "fst (renew_lease (example_env 6) (V4 [10, 0, 0, 1]) 9
     (snd (allocate_lease (example_env 5) (V4 [10, 0, 0, 1]) None None None [] 60 example_manager))) =
   Ok (lease_new 5 (V4 [10, 0, 0, 1]) None None None [] 60\<lparr>ls_expires := 15\<rparr>)"
proof -
  let ?m = "snd (allocate_lease (example_env 5) (V4 [10, 0, 0, 1]) None None None [] 60 example_manager)"
  have "repo_find_by_ip (V4 [10, 0, 0, 1]) (lm_repo ?m) = Some (lease_new 5 (V4 [10, 0, 0, 1]) None None None [] 60)"
    using mem.find_insert[OF repo_inv_new] by (simp add: allocate_parts example_manager_def manager_new_def lease_new_def)
  from renew_release_interleaving[OF ex.manager_environment_axioms[of 6] ex.inv_allocate[OF example_manager_inv] this, of 9]
  show ?thesis by simp
qed

text \<open>
  Two leases may have the same hostname; the release of one unregisters the name although the other lease,
  which was registered last, still holds it.
\<close>

theorem shared_name_lost:
  assumes "manager_environment E items cap" and "manager_inv items cap m"
    and "repo_find_by_ip ip (lm_repo m) = Some l" and "ls_hostname l = Some h" and "ls_fqdn l = None" and "h \<noteq> []"
    and "dn_new (env_idna E) h = Ok d" and "strip_hostname h' 63 = h" and "address_type ip' = address_type ip" and "ip' \<noteq> ip"
    and "sys_later E \<le> sys_now E + duration"
    and m'_def: "m' = snd (release_lease E ip (snd (allocate_lease E ip' mac (Some h') cid ifc duration m)))"
  shows "repo_find_by_ip ip' (lm_repo m') \<noteq> None \<and> map_of (entries (lm_cache m')) (cache_key d (address_type ip')) = None"
proof -
  let ?l = "lease_new (sys_now E) ip' mac (Some h') cid ifc duration" and ?m = "snd (allocate_lease E ip' mac (Some h') cid ifc duration m)"
  have l: "ls_ip ?l = ip'" "ls_hostname ?l = Some h" "ls_expires ?l = sys_now E + duration" using assms(8) by (simp_all add: lease_new_def)
  have inv: "manager_inv items cap ?m" by (rule manager_environment.inv_allocate[OF assms(1,2)])
  have r: "repo_inv (lm_repo m)" "cache_inv items cap (lm_cache m)" using assms(2) by (simp_all add: manager_inv_def)
  have find: "repo_find_by_ip x (lm_repo ?m) = (if x = ip' then Some ?l else repo_find_by_ip x (lm_repo m))" for x
    using mem.find_insert[OF r(1), of x ?l] l by (simp add: allocate_parts)
  have k: "ls_ip l = ip" using mem.find_keyed[OF r(1) assms(3)] .
  let ?c = "add_dhcp_entry (env_lru E) (mono_later E) d ip' (of_nat ((sys_now E + duration - sys_later E) div secs 1)) (lm_cache m)"
  have c: "lm_cache ?m = ?c"
    using register_no_fqdn[OF assms(11,6,7), of "env_lru E"] by (simp add: allocate_parts l)
  have e: "cache_map ?c (cache_key d (address_type ip')) \<noteq> None" "\<And>e. cache_map ?c (cache_key d (address_type ip')) = Some e \<Longrightarrow> is_dhcp e"
    using manager_environment.lookup_registered[OF assms(1) r(2)] by (auto simp: is_dhcp_def entry_new_def flags_contain_def CF_DHCP_def CF_FORWARD_def)
  have "lm_cache m' = snd (remove_dhcp_entry (env_lru E) d (address_type ip) ?c)"
    using unregister_no_fqdn[OF assms(6,7), of "env_lru E"] find[of ip] assms(3,4,5,10)
    by (simp add: m'_def release_parts c k)
  then have "map_of (entries (lm_cache m')) (cache_key d (address_type ip')) = None"
    using e assms(9) by (auto simp: remove_dhcp_entry_def Let_def delete_conv')
  moreover have "repo_find_by_ip ip' (lm_repo m') \<noteq> None"
    using manager_environment.release_find[OF assms(1) inv, of ip' ip] find[of ip'] assms(10) by (simp add: m'_def)
  ultimately show ?thesis by blast
qed

end
