(* ===== verification/Dhcp4_Protocol.thy ===== *)
theory Dhcp4_Protocol
  imports Dhcp4_Message Lease_Manager
begin

text \<open>
  The DHCPv4 server: the handlers of \<open>src/dhcp/v4/protocol.rs\<close> for the five client messages over the lease
  manager, and the service of \<open>src/dhcp/v4/server.rs\<close> that receives a packet, parses it, dispatches it
  and serializes the answer for its destination.  A handler returns its result and the new state of
  the manager; those that only read return the result alone.
\<close>

subsection \<open>Configuration\<close>

text \<open>Durations are in nanoseconds.\<close>

record dhcp_range =
  rg_start :: ip_addr
  rg_end :: ip_addr
  rg_lease_time_override :: "nat option"
  rg_netmask :: "ip_addr option"
  rg_interface :: "bytes option"
  rg_lease_time :: "nat option"
  rg_is_ipv6 :: bool
  rg_prefix_len :: u8

record static_lease =
  sl_mac :: mac_address
  sl_ip :: ip_addr
  sl_hostname :: "bytes option"

text \<open>The fields of \<open>DhcpConfig\<close> the DHCPv4 code reads.\<close>

record dhcp_config =
  v4_ranges :: "dhcp_range list"
  static_leases :: "static_lease list"
  default_lease_time :: nat

subsection \<open>Choosing ranges, addresses and times\<close>

definition ip_in_range :: "bytes \<Rightarrow> bytes \<Rightarrow> bytes \<Rightarrow> bool" where
  "ip_in_range ip start stop \<longleftrightarrow> ipv4_u32 start \<le> ipv4_u32 ip \<and> ipv4_u32 ip \<le> ipv4_u32 stop"

fun select_context_loop :: "bytes \<Rightarrow> dhcp_range list \<Rightarrow> dhcp_range option" where
  "select_context_loop giaddr [] = None"
| "select_context_loop giaddr (rg # ranges) =
     (if giaddr \<noteq> UNSPECIFIED \<and>
         (case (rg_start rg, rg_end rg) of (V4 s, V4 e) \<Rightarrow> ip_in_range giaddr s e | _ \<Rightarrow> False) then Some rg
      else (case rg_start rg of V4 _ \<Rightarrow> Some rg | V6 _ \<Rightarrow> select_context_loop giaddr ranges))"

definition select_context :: "dhcp_config \<Rightarrow> dhcp_message \<Rightarrow> dhcp_range option" where
  "select_context cfg request = select_context_loop (dm_giaddr request) (v4_ranges cfg)"

fun param_list :: "dhcp_option \<Rightarrow> bytes option" where
  "param_list (Opt_ParameterRequestList l) = Some l"
| "param_list _ = None"

fun lease_time_opt :: "dhcp_option \<Rightarrow> u32 option" where
  "lease_time_opt (Opt_LeaseTime t) = Some t"
| "lease_time_opt _ = None"

fun hostname_opt :: "dhcp_option \<Rightarrow> bytes option" where
  "hostname_opt (Opt_Hostname h) = Some h"
| "hostname_opt _ = None"

fun message_type_opt :: "dhcp_option \<Rightarrow> message_type option" where
  "message_type_opt (Opt_MessageType t) = Some t"
| "message_type_opt _ = None"

definition requested_option :: "dhcp_range \<Rightarrow> u8 \<Rightarrow> dhcp_option list" where
  "requested_option context code =
     (if code = 1 then [Opt_Netmask [255, 255, 255, 0]]
      else if code = 3 then (case rg_start context of V4 router \<Rightarrow> [Opt_Router [router]] | V6 _ \<Rightarrow> [])
      else if code = 6 then [Opt_DnsServer [[8, 8, 8, 8], [8, 8, 4, 4]]]
      else if code = 15 then [Opt_DomainName (ascii ''local'')]
      else [])"

definition build_option_list :: "dhcp_range \<Rightarrow> dhcp_message \<Rightarrow> nat \<Rightarrow> bytes \<Rightarrow> message_type \<Rightarrow> dhcp_option list" where
  "build_option_list context request lease_time server_id message_type =
     [Opt_MessageType message_type, Opt_ServerId server_id] @
     (if 0 < lease_time div secs 1 then [Opt_LeaseTime (of_nat (lease_time div secs 1))] else []) @
     concat (map (requested_option context)
       (case find_map param_list (dm_options request) of Some params \<Rightarrow> params | None \<Rightarrow> [])) @
     (if Opt_RapidCommit \<in> set (dm_options request) then [Opt_RapidCommit] else [])"

definition calculate_lease_time :: "dhcp_config \<Rightarrow> dhcp_range \<Rightarrow> dhcp_message \<Rightarrow> nat" where
  "calculate_lease_time cfg context request =
     (case rg_lease_time_override context of
        Some t \<Rightarrow> t
      | None \<Rightarrow>
          (case find_map lease_time_opt (dm_options request) of
             Some requested \<Rightarrow>
               if secs 600 \<le> secs (unat requested) \<and> secs (unat requested) \<le> secs (86400 * 7) then secs (unat requested)
               else default_lease_time cfg
           | None \<Rightarrow> default_lease_time cfg))"

definition determine_server_id :: "dhcp_range \<Rightarrow> dhcp_message \<Rightarrow> bytes" where
  "determine_server_id context request =
     (if dm_giaddr request \<noteq> UNSPECIFIED then dm_giaddr request
      else (case rg_start context of V4 server_ip \<Rightarrow> server_ip | V6 _ \<Rightarrow> [255, 255, 255, 255]))"

definition determine_server_id_for_request :: "dhcp_config \<Rightarrow> bytes" where
  "determine_server_id_for_request cfg =
     (case v4_ranges cfg of
        rg # _ \<Rightarrow> (case rg_start rg of V4 server_ip \<Rightarrow> server_ip | V6 _ \<Rightarrow> [255, 255, 255, 255])
      | [] \<Rightarrow> [255, 255, 255, 255])"

definition find_static_lease :: "dhcp_config \<Rightarrow> mac_address \<Rightarrow> static_lease option" where
  "find_static_lease cfg mac = find (\<lambda>l. sl_mac l = mac) (static_leases cfg)"

definition is_declined :: "lease \<Rightarrow> bool" where
  "is_declined l \<longleftrightarrow> flags_contain (ls_flags l) LF_DECLINED"

definition is_available :: "nat \<Rightarrow> 'l lease_manager \<Rightarrow> bytes \<Rightarrow> bool" where
  "is_available now m ip =
     (case repo_find_by_ip (V4 ip) (lm_repo m) of
        Some l \<Rightarrow> lease_is_expired now l \<and> \<not> is_declined l
      | None \<Rightarrow> True)"

definition pool :: "bytes \<Rightarrow> bytes \<Rightarrow> bytes list" where
  "pool start stop = map (\<lambda>n. put_u32 (of_nat n)) [unat (ipv4_u32 start) ..< Suc (unat (ipv4_u32 stop))]"

definition allocate_address_from_range :: "nat \<Rightarrow> dhcp_range \<Rightarrow> dhcp_message \<Rightarrow> 'l lease_manager \<Rightarrow> (ip_addr, dhcp_error) outcome" where
  "allocate_address_from_range now context request m =
     (case (rg_start context, rg_end context) of
        (V4 s, V4 e) \<Rightarrow>
          (case find_map requested_ip_opt (dm_options request) of
             Some req_ip \<Rightarrow>
               if ip_in_range req_ip s e \<and> is_available now m req_ip then Ok (V4 req_ip)
               else (case find (is_available now m) (pool s e) of
                       Some ip \<Rightarrow> Ok (V4 ip) | None \<Rightarrow> Err (NoAddressAvailable ''range''))
           | None \<Rightarrow> (case find (is_available now m) (pool s e) of
                       Some ip \<Rightarrow> Ok (V4 ip) | None \<Rightarrow> Err (NoAddressAvailable ''range'')))
      | _ \<Rightarrow> Err (NoAddressAvailable ''range''))"

subsection \<open>Handlers\<close>

definition offered_address :: "nat \<Rightarrow> dhcp_config \<Rightarrow> dhcp_range \<Rightarrow> dhcp_message \<Rightarrow> mac_address \<Rightarrow> 'l lease_manager
    \<Rightarrow> (ip_addr, dhcp_error) outcome" where
  "offered_address now cfg context request mac m =
     (case find_static_lease cfg mac of
        Some sl \<Rightarrow> Ok (sl_ip sl)
      | None \<Rightarrow>
          (case repo_find_by_mac mac (lm_repo m) of
             Some l \<Rightarrow>
               if is_declined l then allocate_address_from_range now context request m
               else if lease_is_expired now l then allocate_address_from_range now context request m
               else Ok (ls_ip l)
           | None \<Rightarrow> allocate_address_from_range now context request m))"

text \<open>\<open>DhcpRange::next_server\<close> is always \<open>None\<close>, so that \<open>siaddr\<close> stays unspecified.\<close>

definition handle_discover :: "'l manager_env \<Rightarrow> dhcp_config \<Rightarrow> dhcp_message \<Rightarrow> 'l lease_manager \<Rightarrow> (dhcp_message, dhcp_error) outcome" where
  "handle_discover E cfg request m =
     rbind (client_hardware_addr request) (\<lambda>mac.
     rbind (ok_or (NoAddressAvailable ''default'') (select_context cfg request)) (\<lambda>context.
     rbind (offered_address (sys_now E) cfg context request mac m) (\<lambda>offered_ip.
       case offered_ip of
         V6 _ \<Rightarrow> Err (V4ProtocolError ''Non-IPv4 address in DHCPv4 context'')
       | V4 ip \<Rightarrow>
           let lease_time = calculate_lease_time cfg context request;
               server_id = determine_server_id context request in
           Ok ((new_reply request)\<lparr>dm_yiaddr := ip,
                 dm_options := build_option_list context request lease_time server_id Offer\<rparr>))))"

definition send_nak :: "dhcp_message \<Rightarrow> string \<Rightarrow> (dhcp_message, dhcp_error) outcome" where
  "send_nak request msg =
     rbind (client_hardware_addr request) (\<lambda>_.
       Ok ((new_reply request)\<lparr>dm_options := [Opt_MessageType Nak, Opt_Message (ascii msg)]\<rparr>))"

definition ack_reply :: "dhcp_range \<Rightarrow> dhcp_message \<Rightarrow> bytes \<Rightarrow> nat \<Rightarrow> bytes \<Rightarrow> dhcp_message" where
  "ack_reply context request ip lease_time server_id =
     (new_reply request)\<lparr>dm_yiaddr := ip, dm_options := build_option_list context request lease_time server_id Ack\<rparr>"

abbreviation unknown_interface :: bytes where "unknown_interface \<equiv> ascii ''unknown''"

definition leased_to_other :: "mac_address \<Rightarrow> bytes \<Rightarrow> 'l lease_manager \<Rightarrow> bool" where
  "leased_to_other mac ip m =
     (case repo_find_by_ip (V4 ip) (lm_repo m) of Some l \<Rightarrow> ls_mac l \<noteq> Some mac | None \<Rightarrow> False)"

definition handle_request_selecting :: "'l manager_env \<Rightarrow> dhcp_config \<Rightarrow> dhcp_message \<Rightarrow> bytes \<Rightarrow> bytes \<Rightarrow> 'l lease_manager
    \<Rightarrow> (dhcp_message, dhcp_error) outcome \<times> 'l lease_manager" where
  "handle_request_selecting E cfg request requested_ip server_id m =
     (case client_hardware_addr request of
        Ok mac \<Rightarrow>
          (case select_context cfg request of
             None \<Rightarrow> (Err (NoAddressAvailable ''no matching DHCP range''), m)
           | Some context \<Rightarrow>
               if leased_to_other mac requested_ip m then (send_nak request ''Address already allocated'', m)
               else
                 let lease_time = calculate_lease_time cfg context request;
                     hostname = find_map hostname_opt (dm_options request);
                     (r, m) = allocate_lease E (V4 requested_ip) (Some mac) hostname None unknown_interface lease_time m in
                 (case r of
                    Ok _ \<Rightarrow> (Ok (ack_reply context request requested_ip lease_time server_id), m)
                  | Err _ \<Rightarrow> (send_nak request ''Lease allocation failed'', m)
                  | Panic \<Rightarrow> (Panic, m)))
      | Err e \<Rightarrow> (Err e, m)
      | Panic \<Rightarrow> (Panic, m))"

definition wrong_network :: "dhcp_range \<Rightarrow> bytes \<Rightarrow> bool" where
  "wrong_network context ip = (case (rg_start context, rg_end context) of (V4 s, V4 e) \<Rightarrow> \<not> ip_in_range ip s e | _ \<Rightarrow> False)"

definition handle_request_init_reboot :: "'l manager_env \<Rightarrow> dhcp_config \<Rightarrow> dhcp_message \<Rightarrow> bytes \<Rightarrow> 'l lease_manager
    \<Rightarrow> (dhcp_message, dhcp_error) outcome \<times> 'l lease_manager" where
  "handle_request_init_reboot E cfg request requested_ip m =
     (case client_hardware_addr request of
        Ok mac \<Rightarrow>
          (case select_context cfg request of
             None \<Rightarrow> (Err (NoAddressAvailable ''no matching DHCP range''), m)
           | Some context \<Rightarrow>
               if wrong_network context requested_ip then (send_nak request ''Wrong network'', m)
               else if leased_to_other mac requested_ip m then (send_nak request ''Address in use'', m)
               else
                 let lease_time = calculate_lease_time cfg context request;
                     server_id = determine_server_id context request;
                     (r, m) = allocate_lease E (V4 requested_ip) (Some mac) None None unknown_interface lease_time m in
                 (case r of
                    Ok _ \<Rightarrow> (Ok (ack_reply context request requested_ip lease_time server_id), m)
                  | Err _ \<Rightarrow> (send_nak request ''Lease allocation failed'', m)
                  | Panic \<Rightarrow> (Panic, m)))
      | Err e \<Rightarrow> (Err e, m)
      | Panic \<Rightarrow> (Panic, m))"

definition handle_request_renewing :: "'l manager_env \<Rightarrow> dhcp_config \<Rightarrow> dhcp_message \<Rightarrow> bytes \<Rightarrow> 'l lease_manager
    \<Rightarrow> (dhcp_message, dhcp_error) outcome \<times> 'l lease_manager" where
  "handle_request_renewing E cfg request ciaddr m =
     (case client_hardware_addr request of
        Ok mac \<Rightarrow>
          (case repo_find_by_ip (V4 ciaddr) (lm_repo m) of
             None \<Rightarrow> (Err (LeaseNotFound (V4 ciaddr)), m)
           | Some l \<Rightarrow>
               if ls_mac l \<noteq> Some mac then (send_nak request ''Not your lease'', m)
               else (case select_context cfg request of
                       None \<Rightarrow> (Err (NoAddressAvailable ''no matching DHCP range''), m)
                     | Some context \<Rightarrow>
                         let lease_time = calculate_lease_time cfg context request;
                             server_id = determine_server_id context request;
                             (r, m) = renew_lease E (V4 ciaddr) lease_time m in
                         (case r of
                            Ok _ \<Rightarrow> (Ok (ack_reply context request ciaddr lease_time server_id), m)
                          | Err _ \<Rightarrow> (send_nak request ''Lease renewal failed'', m)
                          | Panic \<Rightarrow> (Panic, m))))
      | Err e \<Rightarrow> (Err e, m)
      | Panic \<Rightarrow> (Panic, m))"

definition handle_request :: "'l manager_env \<Rightarrow> dhcp_config \<Rightarrow> dhcp_message \<Rightarrow> 'l lease_manager
    \<Rightarrow> (dhcp_message, dhcp_error) outcome \<times> 'l lease_manager" where
  "handle_request E cfg request m =
     (case client_hardware_addr request of
        Ok mac \<Rightarrow>
          let requested = find_map requested_ip_opt (dm_options request);
              server = find_map server_id_opt (dm_options request);
              ciaddr = dm_ciaddr request in
          (case (server, requested) of
             (Some server_id, Some req_ip) \<Rightarrow>
               if server_id \<noteq> determine_server_id_for_request cfg then (Err (V4ProtocolError ''Request for different server''), m)
               else handle_request_selecting E cfg request req_ip (determine_server_id_for_request cfg) m
           | _ \<Rightarrow>
               if requested \<noteq> None \<and> ciaddr = UNSPECIFIED then handle_request_init_reboot E cfg request (the requested) m
               else if ciaddr \<noteq> UNSPECIFIED \<and> requested = None \<and> server = None then handle_request_renewing E cfg request ciaddr m
               else (Err (V4ProtocolError ''Invalid DHCPREQUEST message format''), m))
      | Err e \<Rightarrow> (Err e, m)
      | Panic \<Rightarrow> (Panic, m))"

text \<open>A declined address without a lease gets one for an hour first; failures are only logged.\<close>

definition handle_decline :: "'l manager_env \<Rightarrow> dhcp_message \<Rightarrow> 'l lease_manager \<Rightarrow> (unit, dhcp_error) outcome \<times> 'l lease_manager" where
  "handle_decline E request m =
     (case client_hardware_addr request of
        Ok mac \<Rightarrow>
          (case find_map requested_ip_opt (dm_options request) of
             None \<Rightarrow> (Err (V4ProtocolError ''DHCPDECLINE missing requested IP address''), m)
           | Some ip \<Rightarrow>
               let m = (if repo_find_by_ip (V4 ip) (lm_repo m) = None
                        then snd (allocate_lease E (V4 ip) (Some mac) None None unknown_interface (secs 3600) m) else m) in
               (Ok (), snd (mark_lease_declined (V4 ip) m)))
      | Err e \<Rightarrow> (Err e, m)
      | Panic \<Rightarrow> (Panic, m))"

definition handle_release :: "'l manager_env \<Rightarrow> dhcp_message \<Rightarrow> 'l lease_manager \<Rightarrow> (unit, dhcp_error) outcome \<times> 'l lease_manager" where
  "handle_release E request m =
     (case client_hardware_addr request of
        Ok mac \<Rightarrow>
          if dm_ciaddr request = UNSPECIFIED then (Err (V4ProtocolError ''DHCPRELEASE missing ciaddr''), m)
          else (case release_lease E (V4 (dm_ciaddr request)) m of
                  (Ok _, m) \<Rightarrow> (Ok (), m)
                | (Err (LeaseNotFound _), m) \<Rightarrow> (Ok (), m)
                | (Err e, m) \<Rightarrow> (Err e, m)
                | (Panic, m) \<Rightarrow> (Panic, m))
      | Err e \<Rightarrow> (Err e, m)
      | Panic \<Rightarrow> (Panic, m))"

definition handle_inform :: "dhcp_config \<Rightarrow> dhcp_message \<Rightarrow> (dhcp_message, dhcp_error) outcome" where
  "handle_inform cfg request =
     rbind (client_hardware_addr request) (\<lambda>mac.
       if dm_ciaddr request = UNSPECIFIED then Err (V4ProtocolError ''DHCPINFORM missing ciaddr'')
       else rbind (ok_or (NoAddressAvailable ''default'') (select_context cfg request)) (\<lambda>context.
         Ok ((new_reply request)\<lparr>dm_options := filter (\<lambda>opt. lease_time_opt opt = None)
               (build_option_list context request 0 (determine_server_id context request) Ack)\<rparr>)))"

subsection \<open>The service\<close>

text \<open>
  The destination of a reply.  One round of the server loop takes the bytes of a datagram, of which the
  receive buffer keeps 1500, and its source, and yields the result, what is sent and the new state.
\<close>

definition reply_destination :: "dhcp_message \<Rightarrow> sock_addr \<Rightarrow> sock_addr" where
  "reply_destination msg source =
     (if dm_giaddr msg \<noteq> UNSPECIFIED then
        if dm_giaddr msg ! 0 = 127 then source else (V4 (dm_giaddr msg), 67)
      else if dm_flags msg AND 0x8000 \<noteq> 0 then (V4 [255, 255, 255, 255], 68)
      else if dm_ciaddr msg \<noteq> UNSPECIFIED then (V4 (dm_ciaddr msg), 68)
      else (V4 (dm_yiaddr msg), 68))"

definition send_response :: "dhcp_message \<Rightarrow> sock_addr \<Rightarrow> bytes \<times> sock_addr" where
  "send_response msg source = (serialize_dhcp_message msg, reply_destination msg source)"

definition respond :: "(dhcp_message, dhcp_error) outcome \<times> 'l lease_manager \<Rightarrow> sock_addr
    \<Rightarrow> (unit, dhcp_error) outcome \<times> (bytes \<times> sock_addr) option \<times> 'l lease_manager" where
  "respond res source =
     (case res of
        (Ok msg, m) \<Rightarrow> (Ok (), Some (send_response msg source), m)
      | (Err e, m) \<Rightarrow> (Err e, None, m)
      | (Panic, m) \<Rightarrow> (Panic, None, m))"

definition dispatch :: "'l manager_env \<Rightarrow> dhcp_config \<Rightarrow> dhcp_message \<Rightarrow> sock_addr \<Rightarrow> 'l lease_manager
    \<Rightarrow> (unit, dhcp_error) outcome \<times> (bytes \<times> sock_addr) option \<times> 'l lease_manager" where
  "dispatch E cfg message source m =
     (case find_map message_type_opt (dm_options message) of
        None \<Rightarrow> (Err (DhcpParseFailed ''Missing message type option''), None, m)
      | Some Discover \<Rightarrow> respond (handle_discover E cfg message m, m) source
      | Some Request \<Rightarrow> respond (handle_request E cfg message m) source
      | Some Decline \<Rightarrow> (case handle_decline E message m of (r, m) \<Rightarrow> (r, None, m))
      | Some Release \<Rightarrow> (case handle_release E message m of (r, m) \<Rightarrow> (r, None, m))
      | Some Inform \<Rightarrow> respond (handle_inform cfg message, m) source
      | _ \<Rightarrow> (Err (DhcpParseFailed ''Unknown message type''), None, m))"

definition receive_and_handle :: "'l manager_env \<Rightarrow> dhcp_config \<Rightarrow> bytes \<Rightarrow> sock_addr \<Rightarrow> 'l lease_manager
    \<Rightarrow> (unit, dhcp_error) outcome \<times> (bytes \<times> sock_addr) option \<times> 'l lease_manager" where
  "receive_and_handle E cfg datagram source m =
     (let buffer = take 1500 datagram in
      if length buffer < MIN_PACKETSZ then (Err (DhcpParseFailed ''Packet too small''), None, m)
      else case parse_dhcp_message buffer of
          Ok message \<Rightarrow> dispatch E cfg message source m
        | Err e \<Rightarrow> (Err e, None, m)
        | Panic \<Rightarrow> (Panic, None, m))"

subsection \<open>What the handlers can do\<close>

lemma client_addr_not_Panic [simp]: "client_hardware_addr r \<noteq> Panic"
  by (simp add: client_hardware_addr_def)

lemma send_nak_ok: "client_hardware_addr r = Ok mac \<Longrightarrow>
  send_nak r msg = Ok ((new_reply r)\<lparr>dm_options := [Opt_MessageType Nak, Opt_Message (ascii msg)]\<rparr>)"
  by (simp add: send_nak_def)

text \<open>The three outcomes of a request: an acknowledged allocation, an acknowledged renewal, a refusal without effect.\<close>

definition quoted :: "dhcp_config \<Rightarrow> dhcp_range \<Rightarrow> dhcp_message \<Rightarrow> bytes \<Rightarrow> bytes \<Rightarrow> bool" where
  "quoted cfg ctx request ip sid \<longleftrightarrow> (find_map requested_ip_opt (dm_options request) = Some ip \<or> ip = dm_ciaddr request) \<and>
     (sid = determine_server_id_for_request cfg \<or> sid = determine_server_id ctx request)"

definition acked_allocation :: "'l manager_env \<Rightarrow> dhcp_config \<Rightarrow> dhcp_message \<Rightarrow> mac_address \<Rightarrow> 'l lease_manager \<Rightarrow>
    (dhcp_message, dhcp_error) outcome \<times> 'l lease_manager \<Rightarrow> bytes \<Rightarrow> bool" where
  "acked_allocation E cfg request mac m res ip \<longleftrightarrow> (\<exists>ctx h sid. select_context cfg request = Some ctx \<and> \<not> leased_to_other mac ip m \<and>
     quoted cfg ctx request ip sid \<and> res = (Ok (ack_reply ctx request ip (calculate_lease_time cfg ctx request) sid),
       snd (allocate_lease E (V4 ip) (Some mac) h None unknown_interface (calculate_lease_time cfg ctx request) m)))"

definition acked_renewal :: "'l manager_env \<Rightarrow> dhcp_config \<Rightarrow> dhcp_message \<Rightarrow> mac_address \<Rightarrow> 'l lease_manager \<Rightarrow>
    (dhcp_message, dhcp_error) outcome \<times> 'l lease_manager \<Rightarrow> bytes \<Rightarrow> bool" where
  "acked_renewal E cfg request mac m res ip \<longleftrightarrow> (\<exists>ctx sid l. select_context cfg request = Some ctx \<and>
     repo_find_by_ip (V4 ip) (lm_repo m) = Some l \<and> ls_mac l = Some mac \<and>
     quoted cfg ctx request ip sid \<and> res = (Ok (ack_reply ctx request ip (calculate_lease_time cfg ctx request) sid),
       snd (renew_lease E (V4 ip) (calculate_lease_time cfg ctx request) m)))"

definition nak_reasons :: "string list" where
  "nak_reasons = [''Address already allocated'', ''Lease allocation failed'', ''Wrong network'', ''Address in use'', ''Not your lease'', ''Lease renewal failed'']"

definition refused :: "dhcp_message \<Rightarrow> 'l lease_manager \<Rightarrow> (dhcp_message, dhcp_error) outcome \<times> 'l lease_manager \<Rightarrow> bool" where
  "refused request m res \<longleftrightarrow> snd res = m \<and>
     ((\<exists>e. fst res = Err e) \<or> (\<exists>why\<in>set nak_reasons. fst res = Ok ((new_reply request)\<lparr>dm_options := [Opt_MessageType Nak, Opt_Message (ascii why)]\<rparr>)))"

lemma refusedI [simp]:
  "refused request m (Err e, m)"
  "client_hardware_addr request = Ok mac \<Longrightarrow> why \<in> set nak_reasons \<Longrightarrow> refused request m (send_nak request why, m)"
  by (simp add: refused_def) (unfold refused_def send_nak_ok, auto)

lemma acked_allocationI:
  "select_context cfg request = Some ctx \<Longrightarrow> \<not> leased_to_other mac ip m \<Longrightarrow> quoted cfg ctx request ip sid \<Longrightarrow>
   acked_allocation E cfg request mac m (Ok (ack_reply ctx request ip (calculate_lease_time cfg ctx request) sid),
     snd (allocate_lease E (V4 ip) (Some mac) h None unknown_interface (calculate_lease_time cfg ctx request) m)) ip"
  unfolding acked_allocation_def by (intro exI conjI) (assumption | rule refl)+

lemma acked_renewalI:
  "select_context cfg request = Some ctx \<Longrightarrow> repo_find_by_ip (V4 ip) (lm_repo m) = Some l \<Longrightarrow> ls_mac l = Some mac \<Longrightarrow>
   quoted cfg ctx request ip sid \<Longrightarrow> acked_renewal E cfg request mac m (Ok (ack_reply ctx request ip (calculate_lease_time cfg ctx request) sid),
     snd (renew_lease E (V4 ip) (calculate_lease_time cfg ctx request) m)) ip"
  unfolding acked_renewal_def by (intro exI conjI) (assumption | rule refl)+

lemma after_allocate:
  "(case allocate_lease E ip mac h cid ifc d m of (r, m') \<Rightarrow>
      (case r of Ok _ \<Rightarrow> (Ok x, m') | Err _ \<Rightarrow> (y, m') | Panic \<Rightarrow> (Panic, m'))) =
   (Ok x, snd (allocate_lease E ip mac h cid ifc d m))"
  by (simp add: case_prod_unfold allocate_parts)

lemma after_renew:
  "repo_find_by_ip ip (lm_repo m) = Some l \<Longrightarrow>
   (case renew_lease E ip t m of (r, m') \<Rightarrow>
      (case r of Ok _ \<Rightarrow> (Ok x, m') | Err _ \<Rightarrow> (y, m') | Panic \<Rightarrow> (Panic, m'))) = (Ok x, snd (renew_lease E ip t m))"
  by (simp add: case_prod_unfold renew_lease_def change_parts)

lemma selecting_outcome:
  assumes "client_hardware_addr request = Ok mac" "find_map requested_ip_opt (dm_options request) = Some ip"
    and "sid = determine_server_id_for_request cfg"
  shows "acked_allocation E cfg request mac m (handle_request_selecting E cfg request ip sid m) ip \<or>
    refused request m (handle_request_selecting E cfg request ip sid m)"
  using assms
  by (cases "select_context cfg request"; cases "leased_to_other mac ip m")
    (simp_all add: handle_request_selecting_def Let_def after_allocate acked_allocationI nak_reasons_def quoted_def)

lemma init_reboot_outcome:
  assumes "client_hardware_addr request = Ok mac" "find_map requested_ip_opt (dm_options request) = Some ip"
  shows "acked_allocation E cfg request mac m (handle_request_init_reboot E cfg request ip m) ip \<or>
    refused request m (handle_request_init_reboot E cfg request ip m)"
proof (cases "select_context cfg request")
  case (Some ctx)
  with assms show ?thesis
    by (cases "wrong_network ctx ip"; cases "leased_to_other mac ip m")
      (simp_all add: handle_request_init_reboot_def Let_def after_allocate acked_allocationI nak_reasons_def quoted_def)
qed (use assms in \<open>simp add: handle_request_init_reboot_def\<close>)

lemma renewing_outcome:
  assumes "client_hardware_addr request = Ok mac" "ip = dm_ciaddr request"
  shows "acked_renewal E cfg request mac m (handle_request_renewing E cfg request ip m) ip \<or>
    refused request m (handle_request_renewing E cfg request ip m)"
proof (cases "repo_find_by_ip (V4 ip) (lm_repo m)")
  case (Some l)
  with assms show ?thesis
    by (cases "ls_mac l = Some mac"; cases "select_context cfg request")
      (simp_all add: handle_request_renewing_def Let_def after_renew[OF Some[unfolded assms(2)]] acked_renewalI nak_reasons_def quoted_def)
qed (use assms in \<open>simp add: handle_request_renewing_def\<close>)

lemma request_outcome:
  assumes "client_hardware_addr request = Ok mac"
  shows "(\<exists>ip. acked_allocation E cfg request mac m (handle_request E cfg request m) ip) \<or>
    (\<exists>ip. acked_renewal E cfg request mac m (handle_request E cfg request m) ip) \<or>
    refused request m (handle_request E cfg request m)"
proof -
  let ?s = "find_map server_id_opt (dm_options request)" and ?r = "find_map requested_ip_opt (dm_options request)"
    and ?c = "dm_ciaddr request"
  have "(\<exists>ip. ?r = Some ip \<and> handle_request E cfg request m =
        handle_request_selecting E cfg request ip (determine_server_id_for_request cfg) m) \<or>
      (\<exists>ip. ?r = Some ip \<and> handle_request E cfg request m = handle_request_init_reboot E cfg request ip m) \<or>
      handle_request E cfg request m = handle_request_renewing E cfg request ?c m \<or>
      (\<exists>e. handle_request E cfg request m = (Err e, m))"
    using assms by (cases ?s; cases ?r; cases "?c = UNSPECIFIED") (auto simp: handle_request_def Let_def)
  with selecting_outcome[OF assms _ refl, of _ E cfg m] init_reboot_outcome[OF assms, of _ E cfg m]
    renewing_outcome[OF assms refl, of E cfg m] show ?thesis by (elim disjE exE conjE) (metis refusedI(1))+
qed

subsection \<open>Runs of the service\<close>

text \<open>
  The loop of \<open>run\<close> over the datagrams it receives, each with the environment of its moment; errors are
  logged and the loop goes on.
\<close>

definition run_loop :: "dhcp_config \<Rightarrow> ('l manager_env \<times> bytes \<times> sock_addr) list \<Rightarrow> 'l lease_manager \<Rightarrow> 'l lease_manager" where
  "run_loop cfg packets m = fold (\<lambda>(E, datagram, source) m. snd (snd (receive_and_handle E cfg datagram source m))) packets m"

text \<open>Whatever the operations of the lease manager preserve, the handlers and the loop preserve.\<close>

lemma refused_state: "refused request m res \<Longrightarrow> snd res = m"
  by (simp add: refused_def)

lemma request_closed:
  assumes "P m" and "\<And>ip mac h d. P (snd (allocate_lease E ip mac h None unknown_interface d m))"
    and "\<And>ip d. P (snd (renew_lease E ip d m))"
  shows "P (snd (handle_request E cfg request m))"
proof (cases "client_hardware_addr request")
  case (Ok mac)
  from request_outcome[OF this, of E cfg m] assms show ?thesis
    by (auto simp: acked_allocation_def acked_renewal_def dest: refused_state)
qed (use assms in \<open>simp_all add: handle_request_def\<close>)

lemma decline_closed:
  assumes "\<And>m ip mac h d. P m \<Longrightarrow> P (snd (allocate_lease E ip mac h None unknown_interface d m))"
    and "\<And>m ip. P m \<Longrightarrow> P (snd (mark_lease_declined ip m))" and "P m"
  shows "P (snd (handle_decline E request m))"
  using assms by (simp add: handle_decline_def Let_def split: outcome.split option.split)

lemma handle_release_eq:
  assumes "client_hardware_addr request = Ok mac" "dm_ciaddr request \<noteq> UNSPECIFIED"
  shows "handle_release E request m = (Ok (), snd (release_lease E (V4 (dm_ciaddr request)) m))"
proof (cases "repo_find_by_ip (V4 (dm_ciaddr request)) (lm_repo m)")
  case (Some l)
  then obtain m' where "release_lease E (V4 (dm_ciaddr request)) m = (Ok l, m')"
    using release_parts(1)[OF Some, of E] by (cases "release_lease E (V4 (dm_ciaddr request)) m") simp
  with assms show ?thesis by (simp add: handle_release_def)
qed (use assms in \<open>simp add: handle_release_def release_missing\<close>)

lemma release_closed:
  assumes "P m" and "\<And>ip. P (snd (release_lease E ip m))"
  shows "P (snd (handle_release E request m))"
proof (cases "client_hardware_addr request")
  case (Ok mac)
  with assms show ?thesis
    by (cases "dm_ciaddr request = UNSPECIFIED") (simp_all add: handle_release_eq, simp add: handle_release_def)
qed (use assms in \<open>simp_all add: handle_release_def\<close>)

lemma receive_closed:
  assumes "\<And>m ip mac h d. P m \<Longrightarrow> P (snd (allocate_lease E ip mac h None unknown_interface d m))"
    and "\<And>m ip. P m \<Longrightarrow> P (snd (release_lease E ip m))" and "\<And>m ip d. P m \<Longrightarrow> P (snd (renew_lease E ip d m))"
    and "\<And>m ip. P m \<Longrightarrow> P (snd (mark_lease_declined ip m))" and "P m"
  shows "P (snd (snd (receive_and_handle E cfg datagram source m)))"
proof -
  have respond: "snd (snd (respond res source)) = snd res" for res :: "(dhcp_message, dhcp_error) outcome \<times> 'a lease_manager"
    by (simp add: respond_def split: prod.split outcome.split)
  have "P (snd (snd (dispatch E cfg msg source m)))" for msg
    using request_closed[of P m E cfg msg] decline_closed[of P E m msg] release_closed[of P m E msg] assms
    by (simp add: dispatch_def respond case_prod_unfold split: option.split message_type.split)
  with assms(5) show ?thesis by (simp add: receive_and_handle_def Let_def split: outcome.split)
qed

lemma service_step_reach:
  assumes "manager_reach ok L m0 m" "ok E"
  shows "manager_reach ok L m0 (snd (snd (receive_and_handle E cfg datagram source m)))"
  using assms by (intro receive_closed[where P = "manager_reach ok L m0"])
    (auto intro: manager_reach.allocate manager_reach.release manager_reach.renew manager_reach.decline)

lemma run_loop_reach:
  "\<forall>(E, d, s)\<in>set packets. ok E \<Longrightarrow> manager_reach ok L m0 m \<Longrightarrow> manager_reach ok L m0 (run_loop cfg packets m)"
  unfolding run_loop_def by (induction packets arbitrary: m) (auto simp: service_step_reach)

subsection \<open>Leases after a request\<close>

lemma new_reply_simps [simp]:
  "dm_op (new_reply r) = 2" "dm_xid (new_reply r) = dm_xid r" "dm_flags (new_reply r) = dm_flags r"
  "dm_giaddr (new_reply r) = dm_giaddr r" "dm_chaddr (new_reply r) = dm_chaddr r" "dm_hlen (new_reply r) = dm_hlen r"
  "dm_ciaddr (new_reply r) = UNSPECIFIED" "dm_siaddr (new_reply r) = UNSPECIFIED" "dm_yiaddr (new_reply r) = UNSPECIFIED"
  "dm_sname (new_reply r) = replicate 64 0" "dm_file (new_reply r) = replicate 128 0" "dm_options (new_reply r) = []"
  by (simp_all add: new_reply_def dhcp_new_def)

lemma ack_reply_simps [simp]:
  "dm_yiaddr (ack_reply ctx r ip t sid) = ip" "dm_options (ack_reply ctx r ip t sid) = build_option_list ctx r t sid Ack"
  by (simp_all add: ack_reply_def)

lemma leased_to_other_iff:
  "leased_to_other mac ip m \<longleftrightarrow> (\<exists>l. repo_find_by_ip (V4 ip) (lm_repo m) = Some l \<and> ls_mac l \<noteq> Some mac)"
  by (simp add: leased_to_other_def split: option.split)

lemma requested_not_type: "Opt_MessageType t \<notin> set (requested_option ctx c)"
  by (simp add: requested_option_def split: ip_addr.split)

lemma build_type: "Opt_MessageType t \<in> set (build_option_list ctx r d sid t') \<longleftrightarrow> t = t'"
  using requested_not_type by (auto simp: build_option_list_def split: if_splits)

lemma ack_effect:
  assumes inv: "repo_inv (lm_repo m)" and mac: "client_hardware_addr request = Ok mac"
    and req: "handle_request E cfg request m = (Ok reply, m')" and ack: "Opt_MessageType Ack \<in> set (dm_options reply)"
  shows "\<exists>ctx l. select_context cfg request = Some ctx \<and> \<not> leased_to_other mac (dm_yiaddr reply) m \<and>
      repo_find_by_ip (V4 (dm_yiaddr reply)) (lm_repo m') = Some l \<and> ls_mac l = Some mac \<and>
      ls_expires l = sys_now E + calculate_lease_time cfg ctx request"
    "ip \<noteq> V4 (dm_yiaddr reply) \<Longrightarrow> repo_find_by_ip ip (lm_repo m') = repo_find_by_ip ip (lm_repo m)"
proof -
  have "\<not> refused request m (Ok reply, m')" using ack by (auto simp: refused_def)
  then consider ip where "acked_allocation E cfg request mac m (Ok reply, m') ip"
    | ip where "acked_renewal E cfg request mac m (Ok reply, m') ip"
    using request_outcome[OF mac, of E cfg m] unfolding req by blast
  then have "(\<exists>ctx l. select_context cfg request = Some ctx \<and> \<not> leased_to_other mac (dm_yiaddr reply) m \<and>
      repo_find_by_ip (V4 (dm_yiaddr reply)) (lm_repo m') = Some l \<and> ls_mac l = Some mac \<and>
      ls_expires l = sys_now E + calculate_lease_time cfg ctx request) \<and>
      (ip \<noteq> V4 (dm_yiaddr reply) \<longrightarrow> repo_find_by_ip ip (lm_repo m') = repo_find_by_ip ip (lm_repo m))"
  proof cases
    case 1
    then show ?thesis
      by (auto simp: acked_allocation_def allocate_parts mem.find_insert[OF inv] lease_new_def)
  next
    case (2 a)
    then obtain l where l: "repo_find_by_ip (V4 a) (lm_repo m) = Some l" "ls_mac l = Some mac" by (auto simp: acked_renewal_def)
    then have "ls_ip l = V4 a" using mem.find_keyed[OF inv] by blast
    with 2 l show ?thesis
      by (auto simp: acked_renewal_def renew_lease_def change_parts mem.find_insert[OF inv] leased_to_other_iff)
  qed
  then show "\<exists>ctx l. select_context cfg request = Some ctx \<and> \<not> leased_to_other mac (dm_yiaddr reply) m \<and>
      repo_find_by_ip (V4 (dm_yiaddr reply)) (lm_repo m') = Some l \<and> ls_mac l = Some mac \<and>
      ls_expires l = sys_now E + calculate_lease_time cfg ctx request"
    "ip \<noteq> V4 (dm_yiaddr reply) \<Longrightarrow> repo_find_by_ip ip (lm_repo m') = repo_find_by_ip ip (lm_repo m)" by blast+
qed

lemma no_ack_no_effect:
  assumes "client_hardware_addr request = Ok mac" and "handle_request E cfg request m = (r, m')"
    and "\<forall>reply. r = Ok reply \<longrightarrow> Opt_MessageType Ack \<notin> set (dm_options reply)"
  shows "m' = m"
proof -
  have "\<not> acked_allocation E cfg request mac m (r, m') ip" "\<not> acked_renewal E cfg request mac m (r, m') ip" for ip
    using assms(3) by (auto simp: acked_allocation_def acked_renewal_def build_type)
  with request_outcome[OF assms(1), of E cfg m] show ?thesis unfolding assms(2) using refused_state by force
qed

lemma other_lease_kept:
  assumes inv: "repo_inv (lm_repo m)" and mac: "client_hardware_addr request = Ok mac"
    and l: "repo_find_by_ip ip (lm_repo m) = Some l" "ls_mac l \<noteq> Some mac"
  shows "repo_find_by_ip ip (lm_repo (snd (handle_request E cfg request m))) = Some l"
proof -
  obtain r m' where req: "handle_request E cfg request m = (r, m')" by fastforce
  show ?thesis
  proof (cases "\<exists>reply. r = Ok reply \<and> Opt_MessageType Ack \<in> set (dm_options reply)")
    case True
    then obtain reply where r: "r = Ok reply" "Opt_MessageType Ack \<in> set (dm_options reply)" by blast
    from ack_effect(1)[OF inv mac req[unfolded r(1)] r(2)] l have "ip \<noteq> V4 (dm_yiaddr reply)"
      by (auto simp: leased_to_other_iff)
    from ack_effect(2)[OF inv mac req[unfolded r(1)] r(2) this] l show ?thesis by (simp add: req)
  next
    case False
    then show ?thesis using no_ack_no_effect[OF mac req] l by (auto simp: req)
  qed
qed

subsection \<open>Offers\<close>

lemma put_be32: "put_u32 (be32 a b c d) = [a, b, c, d]"
proof -
  have n: "\<not> bit x (8 + n)" "\<not> bit x (16 + n)" "\<not> bit x (24 + n)" for x :: u8 and n
    using bit_imp_le_length[of x "8 + n"] bit_imp_le_length[of x "16 + n"] bit_imp_le_length[of x "24 + n"] by auto
  have "ucast (drop_bit 24 (be32 a b c d)) = a" "ucast (drop_bit 16 (be32 a b c d)) = b"
    "ucast (drop_bit 8 (be32 a b c d)) = c" "ucast (be32 a b c d) = d"
    unfolding be32_def by (auto intro!: bit_word_eqI simp: bit_simps n)
  then show ?thesis by (simp add: put_u32_def)
qed

lemma put_ipv4: "length a = 4 \<Longrightarrow> put_u32 (ipv4_u32 a) = a"
  by (auto simp: length_four ipv4_u32_def put_be32)

lemma pool_iff: "length ip = 4 \<Longrightarrow> ip \<in> set (pool s e) \<longleftrightarrow> ip_in_range ip s e"
proof -
  assume len: "length ip = 4"
  show ?thesis
  proof
    assume "ip \<in> set (pool s e)"
    then obtain n where n: "ip = put_u32 (of_nat n)" "unat (ipv4_u32 s) \<le> n" "n \<le> unat (ipv4_u32 e)" by (auto simp: pool_def)
    moreover have "n < 4294967296" using n(3) unat_u32_less[of "ipv4_u32 e"] by linarith
    then have "unat (of_nat n :: u32) = n" by (simp add: unat_of_nat take_bit_nat_eq_self)
    ultimately show "ip_in_range ip s e" by (simp add: ip_in_range_def word_le_nat_alt)
  next
    assume "ip_in_range ip s e"
    then have "unat (ipv4_u32 ip) \<in> {unat (ipv4_u32 s) ..< Suc (unat (ipv4_u32 e))}" by (simp add: ip_in_range_def word_le_nat_alt)
    moreover have "ip = put_u32 (of_nat (unat (ipv4_u32 ip)))" using put_ipv4[OF len] by simp
    ultimately show "ip \<in> set (pool s e)" unfolding pool_def set_map set_upt by blast
  qed
qed

lemma pool_length: "ip \<in> set (pool s e) \<Longrightarrow> length ip = 4"
  by (auto simp: pool_def)

lemma find_map_Some: "find_map f xs = Some y \<Longrightarrow> \<exists>x\<in>set xs. f x = Some y"
  by (induction xs) (auto split: option.splits)

lemma requested_ip_length:
  assumes "\<forall>opt\<in>set opts. wf_dhcp_option opt" "find_map requested_ip_opt opts = Some a"
  shows "length a = 4"
proof -
  obtain opt where "opt \<in> set opts" "requested_ip_opt opt = Some a" using assms(2) find_map_Some by metis
  with assms(1) show ?thesis by (cases opt) auto
qed

lemma allocate_range_spec:
  assumes "rg_start ctx = V4 s" "rg_end ctx = V4 e" "\<forall>opt\<in>set (dm_options request). wf_dhcp_option opt"
  shows "allocate_address_from_range now ctx request m = Ok ip \<Longrightarrow>
      \<exists>a. ip = V4 a \<and> length a = 4 \<and> ip_in_range a s e \<and> is_available now m a"
    "allocate_address_from_range now ctx request m = Err err \<Longrightarrow>
      length a = 4 \<Longrightarrow> ip_in_range a s e \<Longrightarrow> \<not> is_available now m a"
    "allocate_address_from_range now ctx request m \<noteq> Panic"
proof -
  let ?r = "find_map requested_ip_opt (dm_options request)" and ?f = "find (is_available now m) (pool s e)"
  have r: "?r = Some a \<Longrightarrow> length a = 4" for a using requested_ip_length[OF assms(3)] .
  have f: "?f = Some a \<Longrightarrow> length a = 4 \<and> ip_in_range a s e \<and> is_available now m a" for a
    using nth_mem pool_length pool_iff by (metis find_Some_iff)
  have n: "?f = None \<Longrightarrow> length a = 4 \<Longrightarrow> ip_in_range a s e \<Longrightarrow> \<not> is_available now m a" for a
    using pool_iff by (auto simp: find_None_iff)
  show "allocate_address_from_range now ctx request m = Ok ip \<Longrightarrow>
      \<exists>a. ip = V4 a \<and> length a = 4 \<and> ip_in_range a s e \<and> is_available now m a"
    using r f by (auto simp: allocate_address_from_range_def assms(1,2) split: option.splits if_splits)
  show "allocate_address_from_range now ctx request m = Err err \<Longrightarrow>
      length a = 4 \<Longrightarrow> ip_in_range a s e \<Longrightarrow> \<not> is_available now m a"
    using n by (auto simp: allocate_address_from_range_def assms(1,2) split: option.splits if_splits)
  show "allocate_address_from_range now ctx request m \<noteq> Panic"
    by (simp add: allocate_address_from_range_def assms(1,2) split: option.splits)
qed


lemma lease_by_mac:
  assumes "repo_inv r" "repo_find_by_mac mac r = Some l"
  shows "repo_find_by_ip (ls_ip l) r = Some l"
proof -
  obtain ip where "map_of (leases r) ip = Some l" using assms(2) by (auto simp: repo_find_by_mac_def split: option.splits)
  then show ?thesis using repo_keyed[OF assms(1)] by (auto simp: repo_find_by_ip_def)
qed

lemma discover_ok_iff:
  assumes "client_hardware_addr request = Ok mac" "select_context cfg request = Some ctx"
  shows "handle_discover E cfg request m = Ok offer \<longleftrightarrow> (\<exists>a. offered_address (sys_now E) cfg ctx request mac m = Ok (V4 a) \<and>
    offer = (new_reply request)\<lparr>dm_yiaddr := a,
      dm_options := build_option_list ctx request (calculate_lease_time cfg ctx request) (determine_server_id ctx request) Offer\<rparr>)"
proof (cases "offered_address (sys_now E) cfg ctx request mac m")
  case (Ok ip)
  with assms show ?thesis by (cases ip) (auto simp: handle_discover_def Let_def)
qed (use assms in \<open>simp_all add: handle_discover_def\<close>)

lemma discover_okD:
  assumes "handle_discover E cfg request m = Ok offer"
  obtains mac ctx where "client_hardware_addr request = Ok mac" "select_context cfg request = Some ctx"
  using assms by (cases "client_hardware_addr request"; cases "select_context cfg request")
    (auto simp: handle_discover_def rust_simps)

lemma build_server_id [simp]: "find_map server_id_opt (build_option_list ctx request t sid ty) = Some sid"
  by (simp add: build_option_list_def)

subsection \<open>Replies as packets\<close>

text \<open>Four bytes to an IPv4 address, as Rust's type has it, in the configuration and in the leases.\<close>

fun ip_ok :: "ip_addr \<Rightarrow> bool" where
  "ip_ok (V4 a) \<longleftrightarrow> length a = 4"
| "ip_ok (V6 a) \<longleftrightarrow> length a = 16"

definition config_ok :: "dhcp_config \<Rightarrow> bool" where
  "config_ok cfg \<longleftrightarrow> (\<forall>rg\<in>set (v4_ranges cfg). ip_ok (rg_start rg) \<and> ip_ok (rg_end rg)) \<and> (\<forall>sl\<in>set (static_leases cfg). ip_ok (sl_ip sl))"

definition addresses_ok :: "'l lease_manager \<Rightarrow> bool" where
  "addresses_ok m \<longleftrightarrow> (\<forall>(ip, l)\<in>set (leases (lm_repo m)). ip_ok (ls_ip l))"

lemma select_context_mem: "select_context cfg request = Some ctx \<Longrightarrow> ctx \<in> set (v4_ranges cfg)"
proof -
  have "select_context_loop g rs = Some ctx \<Longrightarrow> ctx \<in> set rs" for g rs
    by (induction rs) (auto split: if_splits ip_addr.splits)
  then show "select_context cfg request = Some ctx \<Longrightarrow> ctx \<in> set (v4_ranges cfg)" by (simp add: select_context_def)
qed

lemma mask24_ok: "validate_subnet_mask [255, 255, 255, 0] = Ok ()"
  by code_simp

lemma ascii_text: "list_all (\<lambda>b. b < 128) (ascii s) \<Longrightarrow> valid_utf8 (ascii s)"
  by (rule valid_utf8_ascii) (simp add: is_ascii_def)

lemma requested_option_wf:
  "ip_ok (rg_start ctx) \<Longrightarrow> opt \<in> set (requested_option ctx c) \<Longrightarrow> wf_dhcp_option opt \<and> opt \<noteq> Opt_End \<and> \<not> is_overload opt"
  by (cases "rg_start ctx") (auto simp: requested_option_def mask24_ok ascii_def valid_utf8_ascii is_ascii_def split: if_splits)

lemma build_options_wf:
  assumes "ip_ok (rg_start ctx)" "length sid = 4" "opt \<in> set (build_option_list ctx request t sid ty)"
  shows "wf_dhcp_option opt \<and> opt \<noteq> Opt_End \<and> \<not> is_overload opt"
  using assms requested_option_wf[OF assms(1)] by (auto simp: build_option_list_def split: if_splits)

lemma build_nonempty [simp]: "build_option_list ctx request t sid ty \<noteq> []"
  by (simp add: build_option_list_def)

lemma nak_options_wf:
  "why \<in> set nak_reasons \<Longrightarrow> valid_utf8 (ascii why) \<and> length (ascii why) < 256"
  by (auto simp: nak_reasons_def ascii_def intro!: ascii_text[unfolded ascii_def])

text \<open>Replies that carry over the identification of the request and survive the wire.\<close>

definition good_reply :: "dhcp_message \<Rightarrow> dhcp_message \<Rightarrow> bool" where
  "good_reply request reply \<longleftrightarrow> dm_op reply = 2 \<and> dm_xid reply = dm_xid request \<and> dm_chaddr reply = dm_chaddr request \<and>
     dm_hlen reply = dm_hlen request \<and> dm_giaddr reply = dm_giaddr request \<and> dm_flags reply = dm_flags request \<and>
     parse_dhcp_message (serialize_dhcp_message reply) = Ok (reply\<lparr>dm_options := dm_options reply @ [Opt_End]\<rparr>)"

lemma good_replyI:
  assumes "wf_dhcp_message request" "length ip = 4" "opts \<noteq> []"
    and "\<And>opt. opt \<in> set opts \<Longrightarrow> wf_dhcp_option opt \<and> opt \<noteq> Opt_End \<and> \<not> is_overload opt"
  shows "good_reply request ((new_reply request)\<lparr>dm_yiaddr := ip, dm_options := opts\<rparr>)"
proof -
  let ?r = "(new_reply request)\<lparr>dm_yiaddr := ip, dm_options := opts\<rparr>"
  have "wf_dhcp_message ?r" using assms(1,2) by (simp add: wf_dhcp_message_def new_reply_def dhcp_new_def)
  moreover have "wf_options opts" using assms(4) in_set_butlastD by (fastforce simp: wf_options_def)
  moreover have "with_end opts = opts @ [Opt_End]" using assms(3,4) last_in_set[of opts] by (auto simp: with_end_def)
  ultimately show ?thesis
    using dhcp_message_parse_back[of ?r] assms(3,4) by (simp add: good_reply_def)
qed

lemma plain_reply: "(new_reply request)\<lparr>dm_options := opts\<rparr> = (new_reply request)\<lparr>dm_yiaddr := UNSPECIFIED, dm_options := opts\<rparr>"
  by (simp add: new_reply_def dhcp_new_def)

lemma nak_good:
  "wf_dhcp_message request \<Longrightarrow> why \<in> set nak_reasons \<Longrightarrow>
   good_reply request ((new_reply request)\<lparr>dm_options := [Opt_MessageType Nak, Opt_Message (ascii why)]\<rparr>)"
  unfolding plain_reply by (rule good_replyI) (auto simp: nak_options_wf)

lemma server_id_len:
  "config_ok cfg \<Longrightarrow> select_context cfg request = Some ctx \<Longrightarrow> wf_dhcp_message request \<Longrightarrow>
   ip_ok (rg_start ctx) \<and> length (determine_server_id ctx request) = 4"
  by (cases "rg_start ctx") (use select_context_mem[of cfg request ctx] in
    \<open>fastforce simp: config_ok_def determine_server_id_def wf_dhcp_message_def\<close>)+

lemma offered_ok:
  assumes "config_ok cfg" "addresses_ok m" "\<forall>opt\<in>set (dm_options request). wf_dhcp_option opt"
    and "offered_address now cfg ctx request mac m = Ok ip"
  shows "ip_ok ip"
proof -
  have "ip_ok ip" if "allocate_address_from_range now ctx request m = Ok ip"
  proof (cases "rg_start ctx"; cases "rg_end ctx")
    fix s e assume "rg_start ctx = V4 s" "rg_end ctx = V4 e"
    from allocate_range_spec(1)[OF this assms(3) that] show ?thesis by auto
  qed (use that in \<open>simp_all add: allocate_address_from_range_def\<close>)
  moreover have "ip_ok (ls_ip l)" if "repo_find_by_mac mac (lm_repo m) = Some l" for l
    using that assms(2) by (fastforce simp: repo_find_by_mac_def addresses_ok_def split: option.splits dest: map_of_SomeD)
  moreover have "ip_ok (sl_ip sl)" if "find_static_lease cfg mac = Some sl" for sl
    using that assms(1) nth_mem by (fastforce simp: find_static_lease_def config_ok_def find_Some_iff)
  ultimately show ?thesis using assms(4) by (auto simp: offered_address_def split: option.splits if_splits)
qed

lemma server_id_first: "config_ok cfg \<Longrightarrow> length (determine_server_id_for_request cfg) = 4"
  by (cases "v4_ranges cfg") (auto simp: determine_server_id_for_request_def config_ok_def split: ip_addr.split)


lemma request_reply_good:
  assumes "config_ok cfg" "wf_dhcp_message request" "\<forall>opt\<in>set (dm_options request). wf_dhcp_option opt"
    and "fst (handle_request E cfg request m) = Ok reply"
  shows "good_reply request reply"
proof -
  have "\<exists>mac. client_hardware_addr request = Ok mac" using assms(4) by (cases "client_hardware_addr request") (auto simp: handle_request_def)
  then obtain mac where mac: "client_hardware_addr request = Ok mac" ..
  have ack: "good_reply request (ack_reply ctx request ip t sid)" if "select_context cfg request = Some ctx" "quoted cfg ctx request ip sid" for ctx ip t sid
  proof -
    have "length sid = 4" using that server_id_len[OF assms(1) that(1) assms(2)] server_id_first[OF assms(1)] by (auto simp: quoted_def)
    moreover have "length ip = 4"
      using that(2) assms(2) requested_ip_length[OF assms(3)] by (auto simp: quoted_def wf_dhcp_message_def)
    ultimately show ?thesis unfolding ack_reply_def
      using good_replyI[OF assms(2) _ build_nonempty] build_options_wf server_id_len[OF assms(1) that(1) assms(2)] by blast
  qed
  from request_outcome[OF mac, of E cfg m] assms(4) show ?thesis
    by (elim disjE exE) (auto simp: acked_allocation_def acked_renewal_def refused_def ack nak_good[OF assms(2)])
qed

lemma discover_reply_good:
  assumes "config_ok cfg" "addresses_ok m" "wf_dhcp_message request" "\<forall>opt\<in>set (dm_options request). wf_dhcp_option opt"
    and "handle_discover E cfg request m = Ok reply"
  shows "good_reply request reply"
proof -
  obtain mac ctx where d: "client_hardware_addr request = Ok mac" "select_context cfg request = Some ctx"
    using assms(5) by (rule discover_okD)
  from assms(5)[unfolded discover_ok_iff[OF d]] obtain a where
    a: "offered_address (sys_now E) cfg ctx request mac m = Ok (V4 a)" and
    r: "reply = (new_reply request)\<lparr>dm_yiaddr := a,
      dm_options := build_option_list ctx request (calculate_lease_time cfg ctx request) (determine_server_id ctx request) Offer\<rparr>" by blast
  have "length a = 4" "ip_ok (rg_start ctx)" "length (determine_server_id ctx request) = 4"
    using offered_ok[OF assms(1,2,4) a] server_id_len[OF assms(1) d(2) assms(3)] by auto
  then show ?thesis unfolding r using good_replyI[OF assms(3) _ build_nonempty] build_options_wf by blast
qed

lemma inform_reply_good:
  assumes "config_ok cfg" "wf_dhcp_message request" "handle_inform cfg request = Ok reply"
  shows "good_reply request reply"
proof -
  obtain ctx where ctx: "select_context cfg request = Some ctx" and r: "reply = (new_reply request)\<lparr>dm_options :=
      filter (\<lambda>opt. lease_time_opt opt = None) (build_option_list ctx request 0 (determine_server_id ctx request) Ack)\<rparr>"
    using assms(3) by (auto simp: handle_inform_def rust_simps split: if_splits)
  let ?o = "build_option_list ctx request 0 (determine_server_id ctx request) Ack"
  have "filter (\<lambda>opt. lease_time_opt opt = None) ?o \<noteq> []" by (simp add: build_option_list_def)
  moreover have "opt \<in> set ?o \<Longrightarrow> wf_dhcp_option opt \<and> opt \<noteq> Opt_End \<and> \<not> is_overload opt" for opt
    using server_id_len[OF assms(1) ctx assms(2)] build_options_wf by blast
  ultimately show ?thesis unfolding r plain_reply by (intro good_replyI assms(2)) simp_all
qed


subsection \<open>An example network\<close>

definition example_cfg :: dhcp_config where
  "example_cfg = \<lparr>v4_ranges = [\<lparr>rg_start = V4 [10, 0, 0, 1], rg_end = V4 [10, 0, 0, 2], rg_lease_time_override = None, rg_netmask = None,
     rg_interface = None, rg_lease_time = None, rg_is_ipv6 = False, rg_prefix_len = 64\<rparr>], static_leases = [], default_lease_time = secs 3600\<rparr>"

definition example_dhcp_message :: "dhcp_option list \<Rightarrow> dhcp_message" where
  "example_dhcp_message opts = dhcp_new\<lparr>dm_op := 1, dm_xid := 7, dm_options := opts\<rparr>"

lemma example_simps [simp]:
  "client_hardware_addr (example_dhcp_message opts) = Ok \<lparr>mac_octets = [0, 0, 0, 0, 0, 0]\<rparr>"
  "select_context example_cfg (example_dhcp_message opts) = Some (hd (v4_ranges example_cfg))"
  "dm_options (example_dhcp_message opts) = opts" "dm_giaddr (example_dhcp_message opts) = UNSPECIFIED" "wf_dhcp_message (example_dhcp_message opts)"
  "config_ok example_cfg" "find_static_lease example_cfg mac = None"
  by (simp_all add: example_dhcp_message_def dhcp_new_def client_hardware_addr_def select_context_def example_cfg_def wf_dhcp_message_def
      config_ok_def find_static_lease_def numeral_eq_Suc)

lemma example_manager_simps [simp]:
  "repo_inv (lm_repo example_manager)" "repo_find_by_ip ip (lm_repo example_manager) = None"
  "repo_find_by_mac mac (lm_repo example_manager) = None" "addresses_ok example_manager"
  "script_path (lm_config example_manager) \<noteq> None" "lm_log example_manager = []" "held example_manager = {}"
  "\<not> leased_to_other mac a example_manager" "is_available now example_manager a"
  by (simp_all add: example_manager_def manager_new_def repo_find_by_ip_def repo_find_by_mac_def repo_new_def addresses_ok_def held_def
      leased_to_other_def is_available_def repo_inv_def)

subsection \<open>Properties\<close>

text \<open>
  Whatever datagrams the service receives, in whatever order and from whomever, lease repository and DNS
  cache stay consistent, and the events told to the script, replayed, give the addresses leased now.
\<close>

theorem service_run_invariant:
  assumes "lru_cache L items cap" and "\<forall>(E, d, s)\<in>set packets. runs_on L items cap E"
    and "manager_inv items cap m" and "script_path (lm_config m) \<noteq> None" and "lm_log m = []"
  shows "manager_inv items cap (run_loop cfg packets m) \<and>
    replay (held m) (lm_log (run_loop cfg packets m)) = Some (held (run_loop cfg packets m))"
proof -
  have "script_view (held m) m" using assms(4,5) by (simp add: script_view_def)
  from manager_reach_inv[OF assms(1) run_loop_reach[OF assms(2) manager_reach.start] assms(3) this]
  show ?thesis by (simp add: script_view_def)
qed

theorem service_run_invariant_witness:
  "manager_inv fst snd (run_loop example_cfg [(example_env 5, serialize_dhcp_message (example_dhcp_message
     [Opt_MessageType Request, Opt_RequestedIpAddress [10, 0, 0, 1]]), V4 [10, 0, 0, 9], 68)] example_manager)"
  using service_run_invariant[OF ll.lru_cache_axioms, of "[(example_env 5, serialize_dhcp_message (example_dhcp_message
     [Opt_MessageType Request, Opt_RequestedIpAddress [10, 0, 0, 1]]), V4 [10, 0, 0, 9], 68)]" example_manager example_cfg]
  example_runs example_manager_inv by simp

text \<open>
  C13: a request is acknowledged only when the address is not leased to another client, and then the client
  holds a lease of it for the calculated time and every other address is as before; a request that is
  not acknowledged changes nothing; so no request takes a lease away from another client.
\<close>

theorem ack_means_leased:
  assumes "repo_inv (lm_repo m)" and "client_hardware_addr request = Ok mac" and "handle_request E cfg request m = (r, m')"
  shows "(\<forall>reply. r = Ok reply \<and> Opt_MessageType Ack \<in> set (dm_options reply) \<longrightarrow>
      \<not> leased_to_other mac (dm_yiaddr reply) m \<and>
      (\<exists>ctx l. select_context cfg request = Some ctx \<and> repo_find_by_ip (V4 (dm_yiaddr reply)) (lm_repo m') = Some l \<and>
         ls_mac l = Some mac \<and> ls_expires l = sys_now E + calculate_lease_time cfg ctx request) \<and>
      (\<forall>ip. ip \<noteq> V4 (dm_yiaddr reply) \<longrightarrow> repo_find_by_ip ip (lm_repo m') = repo_find_by_ip ip (lm_repo m))) \<and>
    ((\<forall>reply. r = Ok reply \<longrightarrow> Opt_MessageType Ack \<notin> set (dm_options reply)) \<longrightarrow> m' = m) \<and>
    (\<forall>ip l. repo_find_by_ip ip (lm_repo m) = Some l \<and> ls_mac l \<noteq> Some mac \<longrightarrow> repo_find_by_ip ip (lm_repo m') = Some l)"
proof (intro conjI)
  show "\<forall>reply. r = Ok reply \<and> Opt_MessageType Ack \<in> set (dm_options reply) \<longrightarrow>
      \<not> leased_to_other mac (dm_yiaddr reply) m \<and>
      (\<exists>ctx l. select_context cfg request = Some ctx \<and> repo_find_by_ip (V4 (dm_yiaddr reply)) (lm_repo m') = Some l \<and>
         ls_mac l = Some mac \<and> ls_expires l = sys_now E + calculate_lease_time cfg ctx request) \<and>
      (\<forall>ip. ip \<noteq> V4 (dm_yiaddr reply) \<longrightarrow> repo_find_by_ip ip (lm_repo m') = repo_find_by_ip ip (lm_repo m))"
    using ack_effect[OF assms(1,2)] assms(3) by blast
  show "(\<forall>reply. r = Ok reply \<longrightarrow> Opt_MessageType Ack \<notin> set (dm_options reply)) \<longrightarrow> m' = m"
    using no_ack_no_effect[OF assms(2,3)] by blast
  show "\<forall>ip l. repo_find_by_ip ip (lm_repo m) = Some l \<and> ls_mac l \<noteq> Some mac \<longrightarrow> repo_find_by_ip ip (lm_repo m') = Some l"
    using other_lease_kept[OF assms(1,2), of _ _ E cfg] assms(3) by simp
qed

theorem ack_means_leased_witness:
  "repo_find_by_ip (V4 [10, 0, 0, 3]) (lm_repo (snd (handle_request (example_env 6) example_cfg
     (example_dhcp_message [Opt_MessageType Request, Opt_RequestedIpAddress [10, 0, 0, 3]])
     (snd (allocate_lease (example_env 5) (V4 [10, 0, 0, 3]) None None None [] 60 example_manager))))) =
   Some (lease_new 5 (V4 [10, 0, 0, 3]) None None None [] 60)"
proof -
  let ?m = "snd (allocate_lease (example_env 5) (V4 [10, 0, 0, 3]) None None None [] 60 example_manager)"
  have "repo_inv (lm_repo ?m)" by (simp add: allocate_parts mem.inv_insert)
  from ack_means_leased[OF this example_simps(1) prod.collapse[symmetric]]
  show ?thesis by (simp add: allocate_parts mem.find_insert lease_new_def)
qed

text \<open>
  C14: a client without a static lease or a lease of its own is offered an address exactly when the selected range
  has one that is available, and the offer is of an available address of the range, the requested
  one if that is such an address.
\<close>

theorem discover_offers:
  assumes "client_hardware_addr request = Ok mac" and "select_context cfg request = Some ctx"
    and "rg_start ctx = V4 s" and "rg_end ctx = V4 e" and "\<forall>opt\<in>set (dm_options request). wf_dhcp_option opt"
    and "find_static_lease cfg mac = None" and "repo_find_by_mac mac (lm_repo m) = None"
  shows "((\<exists>offer. handle_discover E cfg request m = Ok offer) \<longleftrightarrow> (\<exists>a. length a = 4 \<and> ip_in_range a s e \<and> is_available (sys_now E) m a)) \<and>
    (\<forall>offer. handle_discover E cfg request m = Ok offer \<longrightarrow> Opt_MessageType Offer \<in> set (dm_options offer) \<and>
       ip_in_range (dm_yiaddr offer) s e \<and> is_available (sys_now E) m (dm_yiaddr offer) \<and>
       (\<forall>a. find_map requested_ip_opt (dm_options request) = Some a \<and> ip_in_range a s e \<and> is_available (sys_now E) m a \<longrightarrow>
          dm_yiaddr offer = a))"
proof (intro conjI allI impI)
  let ?alloc = "allocate_address_from_range (sys_now E) ctx request m"
  note spec = allocate_range_spec[OF assms(3-5), of "sys_now E" m]
  have ok: "handle_discover E cfg request m = Ok offer \<longleftrightarrow> (\<exists>a. ?alloc = Ok (V4 a) \<and>
      offer = (new_reply request)\<lparr>dm_yiaddr := a, dm_options := build_option_list ctx request (calculate_lease_time cfg ctx request)
        (determine_server_id ctx request) Offer\<rparr>)" for offer
    unfolding discover_ok_iff[OF assms(1,2)] by (simp add: offered_address_def assms(6,7))
  show "(\<exists>offer. handle_discover E cfg request m = Ok offer) \<longleftrightarrow> (\<exists>a. length a = 4 \<and> ip_in_range a s e \<and> is_available (sys_now E) m a)"
    using spec by (cases ?alloc) (auto simp: ok)
  fix offer assume "handle_discover E cfg request m = Ok offer"
  then obtain a where a: "?alloc = Ok (V4 a)" "dm_yiaddr offer = a" "Opt_MessageType Offer \<in> set (dm_options offer)"
    by (auto simp: ok build_type)
  then show "Opt_MessageType Offer \<in> set (dm_options offer)" "ip_in_range (dm_yiaddr offer) s e" "is_available (sys_now E) m (dm_yiaddr offer)"
    using spec(1) by auto
  fix b assume "find_map requested_ip_opt (dm_options request) = Some b \<and> ip_in_range b s e \<and> is_available (sys_now E) m b"
  with a show "dm_yiaddr offer = b" by (simp add: allocate_address_from_range_def assms(3,4))
qed

theorem discover_offers_witness:
  "\<exists>offer. handle_discover (example_env 5) example_cfg (example_dhcp_message [Opt_MessageType Discover]) example_manager = Ok offer"
proof -
  let ?ctx = "hd (v4_ranges example_cfg)"
  have "rg_start ?ctx = V4 [10, 0, 0, 1]" "rg_end ?ctx = V4 [10, 0, 0, 2]" by (simp_all add: example_cfg_def)
  from discover_offers[OF example_simps(1,2) this, of "[Opt_MessageType Discover]" example_manager "example_env 5"]
  show ?thesis by (auto simp: ip_in_range_def ipv4_u32_def be32_def intro!: exI[of _ "[10, 0, 0, 1]"])
qed

text \<open>
  C15: the four-message exchange completes: when the first range is one of IPv4 addresses, a request that quotes an
  offer, from the same client on the local link, is acknowledged with the offered address and leaves the
  client with the lease, in any later state of the manager in which no other client's lease of that
  address is stored.
\<close>

theorem offer_then_request_acked:
  assumes "handle_discover E cfg discover m = Ok offer" and "dm_giaddr discover = UNSPECIFIED"
    and "v4_ranges cfg = rg # ranges" and "rg_start rg = V4 s"
    and "client_hardware_addr discover = Ok mac" and "client_hardware_addr request = Ok mac" and "dm_giaddr request = UNSPECIFIED"
    and "find_map requested_ip_opt (dm_options request) = Some (dm_yiaddr offer)"
    and "find_map server_id_opt (dm_options request) = find_map server_id_opt (dm_options offer)"
    and "repo_inv (lm_repo m')" and "\<not> leased_to_other mac (dm_yiaddr offer) m'"
  shows "\<exists>ack l. fst (handle_request E' cfg request m') = Ok ack \<and> Opt_MessageType Ack \<in> set (dm_options ack) \<and>
    dm_yiaddr ack = dm_yiaddr offer \<and>
    repo_find_by_ip (V4 (dm_yiaddr offer)) (lm_repo (snd (handle_request E' cfg request m'))) = Some l \<and> ls_mac l = Some mac"
proof -
  have ctx: "select_context cfg discover = Some rg" "select_context cfg request = Some rg"
    using assms(2-4,7) by (simp_all add: select_context_def)
  have "find_map server_id_opt (dm_options offer) = Some s"
    using assms(1)[unfolded discover_ok_iff[OF assms(5) ctx(1)]] assms(2,4) by (auto simp: determine_server_id_def)
  then have "handle_request E' cfg request m' = handle_request_selecting E' cfg request (dm_yiaddr offer) s m'"
    using assms(3,4,6,8,9) by (simp add: handle_request_def Let_def determine_server_id_for_request_def)
  then obtain h where r: "handle_request E' cfg request m' =
      (Ok (ack_reply rg request (dm_yiaddr offer) (calculate_lease_time cfg rg request) s),
       snd (allocate_lease E' (V4 (dm_yiaddr offer)) (Some mac) h None unknown_interface (calculate_lease_time cfg rg request) m'))"
    using assms(6,11) by (simp add: handle_request_selecting_def ctx Let_def after_allocate)
  show ?thesis unfolding r by (simp add: build_type allocate_parts mem.find_insert[OF assms(10)] lease_new_def)
qed

theorem offer_then_request_acked_witness:
  "\<exists>ack l. fst (handle_request (example_env 6) example_cfg (example_dhcp_message
       [Opt_MessageType Request, Opt_RequestedIpAddress [10, 0, 0, 2], Opt_ServerId [10, 0, 0, 1]]) example_manager) = Ok ack \<and>
     Opt_MessageType Ack \<in> set (dm_options ack) \<and> dm_yiaddr ack = [10, 0, 0, 2] \<and>
     repo_find_by_ip (V4 [10, 0, 0, 2]) (lm_repo (snd (handle_request (example_env 6) example_cfg (example_dhcp_message
       [Opt_MessageType Request, Opt_RequestedIpAddress [10, 0, 0, 2], Opt_ServerId [10, 0, 0, 1]]) example_manager))) = Some l \<and>
     ls_mac l = Some \<lparr>mac_octets = [0, 0, 0, 0, 0, 0]\<rparr>"
proof -
  let ?d = "example_dhcp_message [Opt_MessageType Discover, Opt_RequestedIpAddress [10, 0, 0, 2]]" and ?ctx = "hd (v4_ranges example_cfg)"
  have r: "v4_ranges example_cfg = [?ctx]" "rg_start ?ctx = V4 [10, 0, 0, 1]" "rg_end ?ctx = V4 [10, 0, 0, 2]"
    by (simp_all add: example_cfg_def)
  have a: "offered_address (sys_now (example_env 5)) example_cfg ?ctx ?d \<lparr>mac_octets = [0, 0, 0, 0, 0, 0]\<rparr> example_manager = Ok (V4 [10, 0, 0, 2])"
    by (simp add: offered_address_def allocate_address_from_range_def r(2,3) ip_in_range_def ipv4_u32_def be32_def)
  note d = discover_ok_iff[OF example_simps(1,2), THEN iffD2, OF exI, OF conjI[OF a refl]]
  show ?thesis
    using offer_then_request_acked[where request = "example_dhcp_message
      [Opt_MessageType Request, Opt_RequestedIpAddress [10, 0, 0, 2], Opt_ServerId [10, 0, 0, 1]]" and m' = example_manager and E' = "example_env 6",
      OF d example_simps(4) r(1,2) example_simps(1) example_simps(1) example_simps(4)]
    by (simp add: determine_server_id_def r(2))
qed

text \<open>
  C16: every reply to a parsed packet carries the transaction id, hardware address, relay address and flags of
  the request, and the bytes sent for it parse back to the reply, whichever handler built it.
\<close>

theorem replies_parse_back:
  assumes "config_ok cfg" and "addresses_ok m" and "parse_dhcp_message buffer = Ok request"
    and "handle_discover E cfg request m = Ok reply \<or> fst (handle_request E cfg request m) = Ok reply \<or>
      handle_inform cfg request = Ok reply"
  shows "dm_op reply = 2 \<and> dm_xid reply = dm_xid request \<and> dm_chaddr reply = dm_chaddr request \<and>
    dm_giaddr reply = dm_giaddr request \<and> dm_flags reply = dm_flags request \<and>
    parse_dhcp_message (fst (send_response reply source)) = Ok (reply\<lparr>dm_options := dm_options reply @ [Opt_End]\<rparr>)"
proof -
  from parse_dhcp_message_wf[OF assms(3)] have "good_reply request reply"
    using assms(4) request_reply_good[OF assms(1)] discover_reply_good[OF assms(1,2)] inform_reply_good[OF assms(1)] by blast
  then show ?thesis by (simp add: good_reply_def send_response_def)
qed

theorem replies_parse_back_witness:
  "\<exists>reply. fst (handle_request (example_env 5) example_cfg (example_dhcp_message [Opt_MessageType Request, Opt_RequestedIpAddress [10, 0, 0, 9], Opt_End])
       example_manager) = Ok reply \<and>
     parse_dhcp_message (fst (send_response reply (V4 [10, 0, 0, 9], 68))) = Ok (reply\<lparr>dm_options := dm_options reply @ [Opt_End]\<rparr>)"
proof -
  let ?r = "example_dhcp_message [Opt_MessageType Request, Opt_RequestedIpAddress [10, 0, 0, 9], Opt_End]"
  have "rg_start (hd (v4_ranges example_cfg)) = V4 [10, 0, 0, 1]" "rg_end (hd (v4_ranges example_cfg)) = V4 [10, 0, 0, 2]" "dm_ciaddr ?r = UNSPECIFIED"
    by (simp_all add: example_cfg_def example_dhcp_message_def dhcp_new_def)
  then have reply: "fst (handle_request (example_env 5) example_cfg ?r example_manager) =
      Ok ((new_reply ?r)\<lparr>dm_options := [Opt_MessageType Nak, Opt_Message (ascii ''Wrong network'')]\<rparr>)"
    by (simp add: handle_request_def handle_request_init_reboot_def wrong_network_def ip_in_range_def ipv4_u32_def be32_def send_nak_def)
  have "parse_dhcp_message (serialize_dhcp_message ?r) = Ok ?r"
    using dhcp_message_parse_back[of ?r] by (simp add: wf_options_def with_end_def)
  from replies_parse_back[OF example_simps(6) example_manager_simps(4) this, of "example_env 5", OF disjI2[OF disjI1[OF reply]]] reply
  show ?thesis by blast
qed

lemma decline_result:
  assumes inv: "repo_inv (lm_repo m)" and mac: "client_hardware_addr request = Ok mac"
    and req: "find_map requested_ip_opt (dm_options request) = Some a"
  shows "fst (handle_decline E request m) = Ok ()" "repo_inv (lm_repo (snd (handle_decline E request m)))"
    "\<exists>l. repo_find_by_ip (V4 a) (lm_repo (snd (handle_decline E request m))) = Some l \<and> is_declined l"
proof -
  let ?m = "if repo_find_by_ip (V4 a) (lm_repo m) = None
    then snd (allocate_lease E (V4 a) (Some mac) None None unknown_interface (secs 3600) m) else m"
  have d: "handle_decline E request m = (Ok (), snd (mark_lease_declined (V4 a) ?m))" by (simp add: handle_decline_def mac req Let_def)
  have inv': "repo_inv (lm_repo ?m)" using inv by (simp add: allocate_parts mem.inv_insert)
  obtain l where l: "repo_find_by_ip (V4 a) (lm_repo ?m) = Some l"
    by (cases "repo_find_by_ip (V4 a) (lm_repo m)") (simp_all add: allocate_parts mem.find_insert[OF inv] lease_new_def)
  then have "ls_ip l = V4 a" using mem.find_keyed[OF inv'] by blast
  then show "\<exists>l. repo_find_by_ip (V4 a) (lm_repo (snd (handle_decline E request m))) = Some l \<and> is_declined l"
    unfolding d snd_conv mark_lease_declined_def
    by (simp add: change_parts l mem.find_insert[OF inv'] is_declined_def flags_contain_def bit.disj_conj_distrib2)
  show "fst (handle_decline E request m) = Ok ()" "repo_inv (lm_repo (snd (handle_decline E request m)))"
    unfolding d by (simp_all add: mark_lease_declined_def change_parts l mem.inv_insert[OF inv'])
qed

text \<open>
  C17: once an address is declined it is unavailable at any later time and offered to no client
  that has no static lease of it.
\<close>

theorem declined_not_offered:
  assumes "repo_inv (lm_repo m)" and "client_hardware_addr request = Ok mac"
    and "find_map requested_ip_opt (dm_options request) = Some a" and "handle_decline E request m = (r, m')"
  shows "r = Ok () \<and> \<not> is_available now m' a \<and>
    (\<forall>discover mac' offer. client_hardware_addr discover = Ok mac' \<and> find_static_lease cfg mac' = None \<and>
       (\<forall>opt\<in>set (dm_options discover). wf_dhcp_option opt) \<and> handle_discover E' cfg discover m' = Ok offer \<longrightarrow> dm_yiaddr offer \<noteq> a)"
proof -
  have m': "m' = snd (handle_decline E request m)" "r = fst (handle_decline E request m)" using assms(4) by simp_all
  note d = decline_result[OF assms(1-3), of E]
  have un: "\<not> is_available now m' a" for now using d(3) by (auto simp: is_available_def m')
  have "dm_yiaddr offer \<noteq> a" if mac: "client_hardware_addr discover = Ok mac'" and st: "find_static_lease cfg mac' = None"
    and wf: "\<forall>opt\<in>set (dm_options discover). wf_dhcp_option opt" and offer: "handle_discover E' cfg discover m' = Ok offer" for discover mac' offer
  proof
    assume a: "dm_yiaddr offer = a"
    obtain ctx where ctx: "select_context cfg discover = Some ctx" using discover_okD[OF offer] by blast
    from offer[unfolded discover_ok_iff[OF mac ctx]] a have o: "offered_address (sys_now E') cfg ctx discover mac' m' = Ok (V4 a)" by auto
    have na: "allocate_address_from_range (sys_now E') ctx discover m' \<noteq> Ok (V4 a)"
      using un allocate_range_spec(1)[OF _ _ wf, of ctx _ _ "sys_now E'" m' "V4 a"]
      by (cases "rg_start ctx"; cases "rg_end ctx") (auto simp: allocate_address_from_range_def)
    with o st obtain l where l: "repo_find_by_mac mac' (lm_repo m') = Some l" "\<not> is_declined l" "ls_ip l = V4 a"
      by (auto simp: offered_address_def split: option.splits if_splits)
    with lease_by_mac[of "lm_repo m'" mac' l] d(2,3) show False by (auto simp: m')
  qed
  with un d(1) m'(2) show ?thesis by blast
qed

theorem declined_not_offered_witness:
  "\<not> is_available 9 (snd (handle_decline (example_env 5) (example_dhcp_message [Opt_MessageType Decline, Opt_RequestedIpAddress [10, 0, 0, 1]])
     example_manager)) [10, 0, 0, 1]"
  using declined_not_offered[OF example_manager_simps(1) example_simps(1) _ prod.collapse[symmetric],
    of "[Opt_MessageType Decline, Opt_RequestedIpAddress [10, 0, 0, 1]]" "[10, 0, 0, 1]" "example_env 5"] by simp

text \<open>
  Behind a relay the exchange does not complete: the offer names the relay's address as the server, and
  the request that quotes it is refused as one for another server, unless the relay has the very address
  the first range starts with.
\<close>

theorem relayed_request_refused:
  assumes "handle_discover E cfg discover m = Ok offer" and "dm_giaddr discover \<noteq> UNSPECIFIED"
    and "dm_giaddr discover \<noteq> determine_server_id_for_request cfg" and "client_hardware_addr request = Ok mac"
    and "find_map requested_ip_opt (dm_options request) = Some (dm_yiaddr offer)"
    and "find_map server_id_opt (dm_options request) = find_map server_id_opt (dm_options offer)"
  shows "handle_request E' cfg request m' = (Err (V4ProtocolError ''Request for different server''), m')"
proof -
  obtain mac' ctx where d: "client_hardware_addr discover = Ok mac'" "select_context cfg discover = Some ctx"
    using assms(1) by (rule discover_okD)
  have "find_map server_id_opt (dm_options offer) = Some (dm_giaddr discover)"
    using assms(1)[unfolded discover_ok_iff[OF d]] assms(2) by (auto simp: determine_server_id_def)
  with assms(3-6) show ?thesis by (simp add: handle_request_def Let_def)
qed

theorem relayed_request_refused_witness:
  "fst (handle_request (example_env 6) example_cfg ((example_dhcp_message
     [Opt_MessageType Request, Opt_RequestedIpAddress [10, 0, 0, 2], Opt_ServerId [10, 0, 0, 254]])\<lparr>dm_giaddr := [10, 0, 0, 254]\<rparr>) example_manager) =
   Err (V4ProtocolError ''Request for different server'')"
proof -
  let ?d = "(example_dhcp_message [Opt_MessageType Discover, Opt_RequestedIpAddress [10, 0, 0, 2]])\<lparr>dm_giaddr := [10, 0, 0, 254]\<rparr>"
  let ?r = "(example_dhcp_message [Opt_MessageType Request, Opt_RequestedIpAddress [10, 0, 0, 2], Opt_ServerId [10, 0, 0, 254]])\<lparr>dm_giaddr := [10, 0, 0, 254]\<rparr>"
  let ?ctx = "hd (v4_ranges example_cfg)"
  have r: "rg_start ?ctx = V4 [10, 0, 0, 1]" "rg_end ?ctx = V4 [10, 0, 0, 2]" "determine_server_id_for_request example_cfg = [10, 0, 0, 1]"
    by (simp_all add: example_cfg_def determine_server_id_for_request_def)
  have c: "client_hardware_addr ?d = Ok \<lparr>mac_octets = [0, 0, 0, 0, 0, 0]\<rparr>" "select_context example_cfg ?d = Some ?ctx"
    "client_hardware_addr ?r = Ok \<lparr>mac_octets = [0, 0, 0, 0, 0, 0]\<rparr>"
    by (simp_all add: example_dhcp_message_def dhcp_new_def client_hardware_addr_def select_context_def example_cfg_def
        ip_in_range_def ipv4_u32_def be32_def numeral_eq_Suc)
  have a: "offered_address (sys_now (example_env 5)) example_cfg ?ctx ?d \<lparr>mac_octets = [0, 0, 0, 0, 0, 0]\<rparr> example_manager = Ok (V4 [10, 0, 0, 2])"
    by (simp add: offered_address_def allocate_address_from_range_def r(1,2) ip_in_range_def ipv4_u32_def be32_def)
  note d = discover_ok_iff[OF c(1,2), THEN iffD2, OF exI, OF conjI[OF a refl]]
  show ?thesis
    using relayed_request_refused[OF d _ _ c(3), of "example_env 6" example_manager] by (simp add: r(3) determine_server_id_def)
qed

text \<open>An expired lease of another client makes its address available for an offer, but not for the request that follows.\<close>

theorem expired_offer_refused:
  assumes "repo_find_by_ip (V4 a) (lm_repo m) = Some l" and "lease_is_expired now l" and "\<not> is_declined l" and "ls_mac l \<noteq> Some mac"
    and "client_hardware_addr request = Ok mac" and "select_context cfg request = Some ctx"
  shows "is_available now m a \<and> handle_request_selecting E cfg request a sid m = (send_nak request ''Address already allocated'', m)"
  using assms by (simp add: is_available_def handle_request_selecting_def leased_to_other_def)

text \<open>A release is carried out for whoever sends it.\<close>

theorem release_by_anyone:
  assumes "client_hardware_addr request = Ok mac" and "dm_ciaddr request \<noteq> UNSPECIFIED"
    and "repo_find_by_ip (V4 (dm_ciaddr request)) (lm_repo m) = Some l" and "ls_mac l \<noteq> Some mac" and "repo_inv (lm_repo m)"
  shows "repo_find_by_ip (V4 (dm_ciaddr request)) (lm_repo (snd (handle_release E request m))) = None"
  unfolding handle_release_eq[OF assms(1,2)] by (simp add: release_parts[OF assms(3)] mem.find_remove[OF assms(5)])

end
