(* ===== verification/Dhcp4_Service.thy ===== *)
theory Dhcp4_Service
  imports Dhcp4_Protocol
begin

text \<open>
  The address contexts of the DHCPv4 service, \<open>src/dhcp/v4/server.rs\<close>: their construction from the configured
  ranges and the interfaces of the host, the choice of a context for a relay, and the allocation that
  probes an address before it is given out.  What the network answers to a probe is a parameter.
\<close>

record dhcp_context =
  cx_start :: bytes
  cx_end :: bytes
  cx_interface :: bytes
  cx_interface_index :: u32
  cx_netmask :: bytes
  cx_broadcast :: bytes
  cx_router :: "bytes option"
  cx_dns_servers :: "bytes list"
  cx_lease_time :: u32
  cx_tags :: "bytes list"

text \<open>The outcome of the four socket calls of a probe; a timeout counts as a failure.\<close>

record probe =
  bind_ok :: bool
  connect_ok :: bool
  send_ok :: bool
  recv_ok :: bool

definition ping_test :: "(bytes \<Rightarrow> probe) \<Rightarrow> bytes \<Rightarrow> (bool, dhcp_error) outcome" where
  "ping_test net addr =
     (if \<not> bind_ok (net addr) then Ok False
      else if \<not> connect_ok (net addr) then Ok False
      else if send_ok (net addr) then if recv_ok (net addr) then Ok True else Ok False
      else Ok False)"

definition is_address_available :: "bytes \<Rightarrow> mac_address \<Rightarrow> 'l lease_manager \<Rightarrow> (bool, dhcp_error) outcome" where
  "is_address_available addr client_mac m =
     (case repo_find_by_ip (V4 addr) (lm_repo m) of
        Some l \<Rightarrow>
          if is_declined l then Ok False
          else (case ls_mac l of Some mac \<Rightarrow> if mac \<noteq> client_mac then Ok False else Ok True | None \<Rightarrow> Ok True)
      | None \<Rightarrow> Ok True)"

definition static_address :: "mac_address \<Rightarrow> static_lease \<Rightarrow> bytes option" where
  "static_address client_mac sl = (if sl_mac sl = client_mac then case sl_ip sl of V4 a \<Rightarrow> Some a | V6 _ \<Rightarrow> None else None)"

definition existing_address :: "dhcp_context \<Rightarrow> mac_address \<Rightarrow> 'l lease_manager \<Rightarrow> bytes option" where
  "existing_address context client_mac m =
     (case repo_find_by_mac client_mac (lm_repo m) of
        Some l \<Rightarrow>
          if is_declined l then None
          else (case ls_ip l of V4 a \<Rightarrow> if ip_in_range a (cx_start context) (cx_end context) then Some a else None | V6 _ \<Rightarrow> None)
      | None \<Rightarrow> None)"

fun allocate_loop :: "(bytes \<Rightarrow> probe) \<Rightarrow> dhcp_context \<Rightarrow> mac_address \<Rightarrow> 'l lease_manager \<Rightarrow> bytes list \<Rightarrow> (bytes, dhcp_error) outcome" where
  "allocate_loop net context client_mac m [] = Err (NoAddressAvailable ''range'')"
| "allocate_loop net context client_mac m (candidate # rest) =
     (if candidate = cx_start context \<or> candidate = cx_end context then allocate_loop net context client_mac m rest
      else rbind (is_address_available candidate client_mac m) (\<lambda>available.
        if \<not> available then allocate_loop net context client_mac m rest
        else (case ping_test net candidate of
                Ok False \<Rightarrow> Ok candidate
              | Ok True \<Rightarrow> allocate_loop net context client_mac m rest
              | Err _ \<Rightarrow> Ok candidate
              | Panic \<Rightarrow> Panic)))"

definition allocate_address :: "(bytes \<Rightarrow> probe) \<Rightarrow> dhcp_config \<Rightarrow> dhcp_context \<Rightarrow> mac_address \<Rightarrow> bytes option \<Rightarrow> 'l lease_manager
    \<Rightarrow> (bytes, dhcp_error) outcome" where
  "allocate_address net cfg context client_mac requested m =
     (case find_map (static_address client_mac) (static_leases cfg) of
        Some ip \<Rightarrow> Ok ip
      | None \<Rightarrow>
          (case existing_address context client_mac m of
             Some ip \<Rightarrow> Ok ip
           | None \<Rightarrow>
               let from_pool = allocate_loop net context client_mac m (pool (cx_start context) (cx_end context)) in
               (case requested of
                  None \<Rightarrow> from_pool
                | Some req \<Rightarrow>
                    if \<not> ip_in_range req (cx_start context) (cx_end context) then from_pool
                    else rbind (is_address_available req client_mac m) (\<lambda>available.
                      if \<not> available then from_pool
                      else rbind (ping_test net req) (\<lambda>in_use. if in_use then from_pool else Ok req)))))"

subsection \<open>Contexts\<close>

definition same_subnet :: "bytes \<Rightarrow> bytes \<Rightarrow> bytes \<Rightarrow> bool" where
  "same_subnet addr1 addr2 netmask \<longleftrightarrow> ipv4_u32 addr1 AND ipv4_u32 netmask = ipv4_u32 addr2 AND ipv4_u32 netmask"

text \<open>An interface is given by its name and index.\<close>

definition find_interface :: "(bytes \<times> u32) list \<Rightarrow> dhcp_range \<Rightarrow> (bytes \<times> u32) option" where
  "find_interface interfaces rg = find (\<lambda>iface. rg_interface rg = None \<or> rg_interface rg = Some (fst iface)) interfaces"

definition range_netmask :: "dhcp_range \<Rightarrow> bytes" where
  "range_netmask rg = (case rg_netmask rg of Some (V4 a) \<Rightarrow> a | _ \<Rightarrow> [255, 255, 255, 0])"

definition make_context :: "dhcp_config \<Rightarrow> bytes \<times> u32 \<Rightarrow> dhcp_range \<Rightarrow> bytes \<Rightarrow> bytes \<Rightarrow> dhcp_context" where
  "make_context cfg iface rg s e =
     (let netmask = range_netmask rg;
          network_bits = ipv4_u32 s AND ipv4_u32 netmask;
          host_bits = NOT (ipv4_u32 netmask);
          lease_time = (case rg_lease_time_override rg of Some t \<Rightarrow> t | None \<Rightarrow> default_lease_time cfg) in
      \<lparr>cx_start = s, cx_end = e, cx_interface = fst iface, cx_interface_index = snd iface, cx_netmask = netmask,
       cx_broadcast = put_u32 (network_bits OR host_bits), cx_router = None, cx_dns_servers = [],
       cx_lease_time = of_nat (lease_time div secs 1), cx_tags = []\<rparr>)"

fun contexts_loop :: "dhcp_config \<Rightarrow> (bytes \<times> u32) list \<Rightarrow> dhcp_range list \<Rightarrow> dhcp_context list \<Rightarrow> (dhcp_context list, dhcp_error) outcome" where
  "contexts_loop cfg interfaces [] contexts = Ok contexts"
| "contexts_loop cfg interfaces (rg # ranges) contexts =
     (case find_interface interfaces rg of
        None \<Rightarrow> Err (V4ProtocolError ''No interface found for range'')
      | Some iface \<Rightarrow>
          (case (rg_start rg, rg_end rg) of
             (V4 s, V4 e) \<Rightarrow> contexts_loop cfg interfaces ranges (contexts @ [make_context cfg iface rg s e])
           | _ \<Rightarrow> contexts_loop cfg interfaces ranges contexts))"

definition initialize_contexts :: "(bytes \<times> u32) list option \<Rightarrow> dhcp_config \<Rightarrow> (dhcp_context list, dhcp_error) outcome" where
  "initialize_contexts enumerated cfg =
     (case enumerated of
        None \<Rightarrow> Err (V4ProtocolError ''Failed to enumerate interfaces'')
      | Some interfaces \<Rightarrow> contexts_loop cfg interfaces (v4_ranges cfg) [])"

definition select_context_for_relay :: "bytes \<Rightarrow> dhcp_context list \<Rightarrow> dhcp_context option" where
  "select_context_for_relay giaddr contexts = find (\<lambda>context. same_subnet giaddr (cx_start context) (cx_netmask context)) contexts"

subsection \<open>Allocation\<close>

definition usable :: "(bytes \<Rightarrow> probe) \<Rightarrow> mac_address \<Rightarrow> 'l lease_manager \<Rightarrow> bytes \<Rightarrow> bool" where
  "usable net mac m a \<longleftrightarrow> is_address_available a mac m = Ok True \<and> ping_test net a = Ok False"

lemma probe_total: "ping_test net a = Ok True \<or> ping_test net a = Ok False"
  by (simp add: ping_test_def)

lemma available_total: "is_address_available a mac m = Ok True \<or> is_address_available a mac m = Ok False"
  by (simp add: is_address_available_def split: option.split)

lemma allocate_loop_find:
  "allocate_loop net cx mac m as =
   (case find (\<lambda>a. a \<noteq> cx_start cx \<and> a \<noteq> cx_end cx \<and> usable net mac m a) as of
      Some a \<Rightarrow> Ok a | None \<Rightarrow> Err (NoAddressAvailable ''range''))"
proof (induction as)
  case (Cons a as)
  show ?case
    using Cons available_total[of a mac m] probe_total[of net a] by (auto simp: usable_def)
qed simp

lemma available_iff:
  "is_address_available a mac m = Ok True \<longleftrightarrow>
   (\<forall>l. repo_find_by_ip (V4 a) (lm_repo m) = Some l \<longrightarrow> \<not> is_declined l \<and> (ls_mac l = None \<or> ls_mac l = Some mac))"
  by (auto simp: is_address_available_def split: option.splits)

lemma allocate_address_cases:
  assumes "find_map (static_address mac) (static_leases cfg) = None" "existing_address cx mac m = None"
  shows "allocate_address net cfg cx mac req m =
    (case req of
       Some a \<Rightarrow> if ip_in_range a (cx_start cx) (cx_end cx) \<and> usable net mac m a then Ok a
         else allocate_loop net cx mac m (pool (cx_start cx) (cx_end cx))
     | None \<Rightarrow> allocate_loop net cx mac m (pool (cx_start cx) (cx_end cx)))"
proof (cases req)
  case (Some a)
  then show ?thesis
    using assms available_total[of a mac m] probe_total[of net a] by (auto simp: allocate_address_def usable_def Let_def)
qed (simp add: allocate_address_def assms)

definition contexts_of :: "dhcp_config \<Rightarrow> (bytes \<times> u32) list \<Rightarrow> dhcp_range \<Rightarrow> dhcp_context list" where
  "contexts_of cfg interfaces rg =
     (case (rg_start rg, rg_end rg) of (V4 s, V4 e) \<Rightarrow> [make_context cfg (the (find_interface interfaces rg)) rg s e] | _ \<Rightarrow> [])"

lemma allocate_loop_in_range:
  assumes "allocate_loop net cx mac m (pool (cx_start cx) (cx_end cx)) = Ok a"
  shows "ip_in_range a (cx_start cx) (cx_end cx) \<and> usable net mac m a"
proof -
  from assms obtain "a \<in> set (pool (cx_start cx) (cx_end cx))" "usable net mac m a"
    by (auto simp: allocate_loop_find find_Some_iff split: option.splits)
  then show ?thesis using pool_iff[OF pool_length] by blast
qed

lemma contexts_loop_eq:
  "contexts_loop cfg ifs rgs cxs =
   (if \<exists>rg\<in>set rgs. find_interface ifs rg = None then Err (V4ProtocolError ''No interface found for range'')
    else Ok (cxs @ concat (map (contexts_of cfg ifs) rgs)))"
proof (induction rgs arbitrary: cxs)
  case (Cons rg rgs)
  then show ?case by (cases "find_interface ifs rg"; cases "rg_start rg"; cases "rg_end rg") (auto simp: contexts_of_def simp del: not_None_eq)
qed simp

lemma subnet_bounds:
  fixes x mask :: u32
  shows "x \<le> (x AND mask) OR NOT mask" "((x AND mask) OR NOT mask) AND mask = x AND mask"
proof -
  have "uint x \<le> uint (x OR NOT mask)" by (simp add: unsigned_or_eq or_greater_eq)
  moreover have "(x AND mask) OR NOT mask = x OR NOT mask" by (simp add: bit.disj_conj_distrib2)
  ultimately show "x \<le> (x AND mask) OR NOT mask" by (simp add: word_le_def)
  show "((x AND mask) OR NOT mask) AND mask = x AND mask" by (simp only: bit.conj_disj_distrib2 bit.conj_cancel_left bit.disj_zero_right and.assoc and.idem)
qed

lemma make_context_simps [simp]:
  "cx_start (make_context cfg i rg s e) = s" "cx_netmask (make_context cfg i rg s e) = range_netmask rg"
  by (simp_all add: make_context_def Let_def)

lemma make_context_subnet:
  "same_subnet (cx_broadcast (make_context cfg i rg s e)) s (range_netmask rg)"
  "same_subnet a s (range_netmask rg) \<Longrightarrow> ipv4_u32 a \<le> ipv4_u32 (cx_broadcast (make_context cfg i rg s e))"
  using subnet_bounds(1)[of "ipv4_u32 a" "ipv4_u32 (range_netmask rg)"] subnet_bounds(2)[of "ipv4_u32 s" "ipv4_u32 (range_netmask rg)"]
  by (auto simp: make_context_def Let_def same_subnet_def)

subsection \<open>Properties\<close>

text \<open>
  The address the service allocates is the static one of the client, or lies in the context's range and is neither
  declined nor leased to another client; the search of the pool fails exactly when no address strictly
  between the two ends is free and silent when probed.
\<close>

theorem allocate_address_spec:
  assumes "repo_inv (lm_repo m)" and "mac_inv (lm_repo m)"
  shows "(\<forall>a. allocate_address net cfg cx mac req m = Ok a \<longrightarrow>
      (\<exists>sl\<in>set (static_leases cfg). sl_mac sl = mac \<and> sl_ip sl = V4 a) \<or>
      ip_in_range a (cx_start cx) (cx_end cx) \<and>
      (\<forall>l. repo_find_by_ip (V4 a) (lm_repo m) = Some l \<longrightarrow> \<not> is_declined l \<and> (ls_mac l = None \<or> ls_mac l = Some mac))) \<and>
    (allocate_address net cfg cx mac None m = Err (NoAddressAvailable ''range'') \<longleftrightarrow>
      find_map (static_address mac) (static_leases cfg) = None \<and> existing_address cx mac m = None \<and>
      (\<forall>a\<in>set (pool (cx_start cx) (cx_end cx)). a \<noteq> cx_start cx \<and> a \<noteq> cx_end cx \<longrightarrow>
         is_address_available a mac m = Ok False \<or> ping_test net a = Ok True))"
proof (intro conjI allI impI)
  fix a assume ok: "allocate_address net cfg cx mac req m = Ok a"
  show "(\<exists>sl\<in>set (static_leases cfg). sl_mac sl = mac \<and> sl_ip sl = V4 a) \<or>
      ip_in_range a (cx_start cx) (cx_end cx) \<and>
      (\<forall>l. repo_find_by_ip (V4 a) (lm_repo m) = Some l \<longrightarrow> \<not> is_declined l \<and> (ls_mac l = None \<or> ls_mac l = Some mac))"
  proof (cases "find_map (static_address mac) (static_leases cfg)")
    case (Some b)
    then obtain sl where "sl \<in> set (static_leases cfg)" "static_address mac sl = Some b" using find_map_Some by metis
    with ok Some show ?thesis by (auto simp: allocate_address_def static_address_def split: if_splits ip_addr.splits)
  next
    case st: None
    show ?thesis
    proof (cases "existing_address cx mac m")
      case (Some b)
      then obtain l where l: "repo_find_by_mac mac (lm_repo m) = Some l" "\<not> is_declined l" "ls_ip l = V4 b" "ip_in_range b (cx_start cx) (cx_end cx)"
        by (auto simp: existing_address_def split: option.splits if_splits ip_addr.splits)
      then have "repo_find_by_ip (V4 b) (lm_repo m) = Some l" "ls_mac l = Some mac" using find_by_mac_iff[OF assms(2,1)] by metis+
      moreover have "a = b" using ok st Some by (simp add: allocate_address_def)
      ultimately show ?thesis using l by auto
    next
      case None
      have "ip_in_range a (cx_start cx) (cx_end cx) \<and> usable net mac m a"
        using ok allocate_loop_in_range[of net cx mac m] unfolding allocate_address_cases[OF st None]
        by (auto split: option.splits if_splits)
      then show ?thesis by (auto simp: usable_def available_iff)
    qed
  qed
next
  show "allocate_address net cfg cx mac None m = Err (NoAddressAvailable ''range'') \<longleftrightarrow>
      find_map (static_address mac) (static_leases cfg) = None \<and> existing_address cx mac m = None \<and>
      (\<forall>a\<in>set (pool (cx_start cx) (cx_end cx)). a \<noteq> cx_start cx \<and> a \<noteq> cx_end cx \<longrightarrow>
         is_address_available a mac m = Ok False \<or> ping_test net a = Ok True)"
  proof (cases "find_map (static_address mac) (static_leases cfg) = None \<and> existing_address cx mac m = None")
    case True
    then have c: "allocate_address net cfg cx mac None m = allocate_loop net cx mac m (pool (cx_start cx) (cx_end cx))"
      by (simp add: allocate_address_cases)
    have u: "usable net mac m a \<longleftrightarrow> \<not> (is_address_available a mac m = Ok False \<or> ping_test net a = Ok True)" for a
      using available_total[of a mac m] probe_total[of net a] by (auto simp: usable_def)
    show ?thesis unfolding c allocate_loop_find using True by (auto simp: find_None_iff u split: option.split dest!: find_SomeD)
  qed (auto simp: allocate_address_def split: option.splits)
qed

theorem allocate_address_spec_witness:
  "allocate_address (\<lambda>_. \<lparr>bind_ok = True, connect_ok = True, send_ok = True, recv_ok = False\<rparr>) example_cfg
     (make_context example_cfg ([], 1) (hd (v4_ranges example_cfg)) [10, 0, 0, 1] [10, 0, 0, 2]) \<lparr>mac_octets = [0, 0, 0, 0, 0, 1]\<rparr> None
     example_manager = Err (NoAddressAvailable ''range'')"
proof -
  let ?cx = "make_context example_cfg ([], 1) (hd (v4_ranges example_cfg)) [10, 0, 0, 1] [10, 0, 0, 2]"
  have "mac_inv (lm_repo example_manager)" by (simp add: mac_inv_def example_manager_def manager_new_def repo_new_def)
  moreover have "pool [10, 0, 0, 1] [10, 0, 0, 2] = [[10, 0, 0, 1], [10, 0, 0, 2]]"
    by (simp add: pool_def ipv4_u32_def be32_def upt_rec put_u32_def)
  moreover have "cx_start ?cx = [10, 0, 0, 1]" "cx_end ?cx = [10, 0, 0, 2]" by (simp_all add: make_context_def Let_def)
  ultimately show ?thesis
    using allocate_address_spec[OF example_manager_simps(1), of "\<lambda>_. \<lparr>bind_ok = True, connect_ok = True, send_ok = True, recv_ok = False\<rparr>"
      example_cfg ?cx "\<lparr>mac_octets = [0, 0, 0, 0, 0, 1]\<rparr>" None]
    by (simp add: existing_address_def example_cfg_def)
qed

text \<open>
  The contexts: they can be set up exactly when every range, of either address family, has an interface,
  and each has a broadcast address that is the last of the subnet its range starts in.
\<close>

theorem contexts_spec:
  "((\<exists>cxs. initialize_contexts (Some ifs) cfg = Ok cxs) \<longleftrightarrow> (\<forall>rg\<in>set (v4_ranges cfg). find_interface ifs rg \<noteq> None)) \<and>
   (initialize_contexts (Some ifs) cfg = Ok cxs \<and> cx \<in> set cxs \<longrightarrow>
      same_subnet (cx_broadcast cx) (cx_start cx) (cx_netmask cx) \<and> ipv4_u32 (cx_start cx) \<le> ipv4_u32 (cx_broadcast cx) \<and>
      (\<forall>a. same_subnet a (cx_start cx) (cx_netmask cx) \<longrightarrow> ipv4_u32 a \<le> ipv4_u32 (cx_broadcast cx)))"
proof -
  have c: "cx \<in> set (contexts_of cfg ifs rg) \<Longrightarrow> same_subnet (cx_broadcast cx) (cx_start cx) (cx_netmask cx) \<and>
      (\<forall>a. same_subnet a (cx_start cx) (cx_netmask cx) \<longrightarrow> ipv4_u32 a \<le> ipv4_u32 (cx_broadcast cx))" for rg
    by (cases "rg_start rg"; cases "rg_end rg") (auto simp: contexts_of_def make_context_subnet)
  have "same_subnet (cx_start cx) (cx_start cx) (cx_netmask cx)" by (simp add: same_subnet_def)
  with c show ?thesis
    by (auto simp: initialize_contexts_def contexts_loop_eq simp del: not_None_eq split: if_splits)
qed

end
