(* ===== verification/Dhcp6_Message.thy ===== *)
theory Dhcp6_Message
  imports Core_Types "HOL-Library.AList" "HOL-Library.Multiset"
begin

text \<open>
  DHCPv6 messages, \<open>src/dhcp/v6/message.rs\<close>: the four byte header, the options in a hash map keyed by
  their code, the parser built from nom combinators and the serializer.  A hash map is an association list
  with distinct keys; the order in which it is iterated is an argument of the serializer.
\<close>

subsection \<open>Codes\<close>

abbreviation MSG_SOLICIT :: u8 where "MSG_SOLICIT \<equiv> 1"
abbreviation MSG_ADVERTISE :: u8 where "MSG_ADVERTISE \<equiv> 2"
abbreviation MSG_REQUEST :: u8 where "MSG_REQUEST \<equiv> 3"
abbreviation MSG_CONFIRM :: u8 where "MSG_CONFIRM \<equiv> 4"
abbreviation MSG_RENEW :: u8 where "MSG_RENEW \<equiv> 5"
abbreviation MSG_REBIND :: u8 where "MSG_REBIND \<equiv> 6"
abbreviation MSG_REPLY :: u8 where "MSG_REPLY \<equiv> 7"
abbreviation MSG_RELEASE :: u8 where "MSG_RELEASE \<equiv> 8"
abbreviation MSG_DECLINE :: u8 where "MSG_DECLINE \<equiv> 9"
abbreviation MSG_INFORMATION_REQUEST :: u8 where "MSG_INFORMATION_REQUEST \<equiv> 11"

abbreviation OPTION_CLIENT_ID :: u16 where "OPTION_CLIENT_ID \<equiv> 1"
abbreviation OPTION_SERVER_ID :: u16 where "OPTION_SERVER_ID \<equiv> 2"
abbreviation OPTION_IA_NA :: u16 where "OPTION_IA_NA \<equiv> 3"
abbreviation OPTION_IA_TA :: u16 where "OPTION_IA_TA \<equiv> 4"
abbreviation OPTION_IAADDR :: u16 where "OPTION_IAADDR \<equiv> 5"
abbreviation OPTION_ORO :: u16 where "OPTION_ORO \<equiv> 6"
abbreviation OPTION_PREFERENCE :: u16 where "OPTION_PREFERENCE \<equiv> 7"
abbreviation OPTION_ELAPSED_TIME :: u16 where "OPTION_ELAPSED_TIME \<equiv> 8"
abbreviation OPTION_STATUS_CODE :: u16 where "OPTION_STATUS_CODE \<equiv> 13"
abbreviation OPTION_RAPID_COMMIT :: u16 where "OPTION_RAPID_COMMIT \<equiv> 14"
abbreviation OPTION_USER_CLASS :: u16 where "OPTION_USER_CLASS \<equiv> 15"
abbreviation OPTION_VENDOR_CLASS :: u16 where "OPTION_VENDOR_CLASS \<equiv> 16"
abbreviation OPTION_DNS_SERVER :: u16 where "OPTION_DNS_SERVER \<equiv> 23"
abbreviation OPTION_DOMAIN_SEARCH :: u16 where "OPTION_DOMAIN_SEARCH \<equiv> 24"
abbreviation OPTION_IA_PD :: u16 where "OPTION_IA_PD \<equiv> 25"
abbreviation OPTION_IAPREFIX :: u16 where "OPTION_IAPREFIX \<equiv> 26"
abbreviation OPTION_FQDN :: u16 where "OPTION_FQDN \<equiv> 39"
abbreviation OPTION_NTP_SERVER :: u16 where "OPTION_NTP_SERVER \<equiv> 56"

subsection \<open>Messages\<close>

type_synonym option6 = "u16 \<times> bytes"

record dhcp6_message =
  m6_type :: u8
  m6_xid :: bytes
  m6_options :: "option6 list"

definition message6_new :: "u8 \<Rightarrow> bytes \<Rightarrow> dhcp6_message" where
  "message6_new message_type transaction_id =
     \<lparr>m6_type = message_type, m6_xid = transaction_id, m6_options = []\<rparr>"

definition get_option6 :: "u16 \<Rightarrow> dhcp6_message \<Rightarrow> bytes option" where
  "get_option6 code m = map_of (m6_options m) code"

definition add_option6 :: "u16 \<Rightarrow> bytes \<Rightarrow> dhcp6_message \<Rightarrow> dhcp6_message" where
  "add_option6 code data m = m\<lparr>m6_options := AList.update code data (m6_options m)\<rparr>"

definition remove_option6 :: "u16 \<Rightarrow> dhcp6_message \<Rightarrow> bytes option \<times> dhcp6_message" where
  "remove_option6 code m = (map_of (m6_options m) code, m\<lparr>m6_options := AList.delete code (m6_options m)\<rparr>)"

subsection \<open>Parsing\<close>

definition parse_xid :: "bytes \<Rightarrow> (bytes \<times> bytes) option" where
  "parse_xid input = take_bytes 3 input"

definition parse_option6 :: "bytes \<Rightarrow> (bytes \<times> option6) option" where
  "parse_option6 input =
     Option.bind (be_u16 input) (\<lambda>(i, code).
     Option.bind (be_u16 i) (\<lambda>(i, len).
     Option.bind (take_bytes (unat len) i) (\<lambda>(i, data). Some (i, code, data))))"

lemma parse_option6_shorter: "parse_option6 i = Some (r, x) \<Longrightarrow> length r < length i"
  by (auto simp: parse_option6_def bind_eq_Some_conv dest!: be_u16_Some_length take_bytes_Some_length)

text \<open>nom's \<open>many0\<close>: options are read until one does not parse; the rest of the input is given back.\<close>

function many0_options :: "bytes \<Rightarrow> bytes \<times> option6 list" where
  "many0_options input =
     (case parse_option6 input of
        None \<Rightarrow> (input, [])
      | Some (rest, x) \<Rightarrow> (case many0_options rest of (r, xs) \<Rightarrow> (r, x # xs)))"
  by pat_completeness auto
termination by (relation "measure length") (auto dest: parse_option6_shorter)

declare many0_options.simps [simp del]

definition parse_message6 :: "bytes \<Rightarrow> (bytes \<times> dhcp6_message) option" where
  "parse_message6 input =
     Option.bind (be_u8 input) (\<lambda>(i, message_type).
     Option.bind (parse_xid i) (\<lambda>(i, transaction_id).
       case many0_options i of (i, option_vec) \<Rightarrow>
         Some (i, \<lparr>m6_type = message_type, m6_xid = transaction_id,
           m6_options = fold (\<lambda>(code, data) options. AList.update code data options) option_vec []\<rparr>)))"

definition message6_from_bytes :: "bytes \<Rightarrow> (dhcp6_message, dhcp_error) outcome" where
  "message6_from_bytes input =
     (if length input < 4 then Err (DhcpParseFailed ''Packet too short'')
      else case parse_message6 input of
          Some (_, message) \<Rightarrow> Ok message
        | None \<Rightarrow> Err (DhcpParseFailed ''nom parsing failed''))"

subsection \<open>Serializing\<close>

text \<open>The length of the data is cast to sixteen bits, which keeps its low bits.\<close>

definition encode_option6 :: "u16 \<Rightarrow> bytes \<Rightarrow> bytes" where
  "encode_option6 code data = put_u16 code @ put_u16 (of_nat (length data)) @ data"

definition message6_to_bytes :: "(option6 list \<Rightarrow> option6 list) \<Rightarrow> dhcp6_message \<Rightarrow> bytes" where
  "message6_to_bytes iter m =
     [m6_type m] @ m6_xid m @ concat (map (\<lambda>(code, data). encode_option6 code data) (iter (m6_options m)))"

subsection \<open>Round trip\<close>

definition wf_message6 :: "dhcp6_message \<Rightarrow> bool" where
  "wf_message6 m \<longleftrightarrow> length (m6_xid m) = 3 \<and> distinct (map fst (m6_options m)) \<and>
     (\<forall>(code, data)\<in>set (m6_options m). length data < 65536)"

text \<open>Equality of two messages: hash maps are compared by their contents.\<close>

definition same_message6 :: "dhcp6_message \<Rightarrow> dhcp6_message \<Rightarrow> bool" where
  "same_message6 m n \<longleftrightarrow> m6_type m = m6_type n \<and> m6_xid m = m6_xid n \<and> map_of (m6_options m) = map_of (m6_options n)"

lemma length_encode_option6 [simp]: "length (encode_option6 c d) = 4 + length d"
  by (simp add: encode_option6_def)

lemma parse_encode_option6:
  "length d < 65536 \<Longrightarrow> parse_option6 (encode_option6 c d @ r) = Some (r, c, d)"
  by (simp add: parse_option6_def encode_option6_def unat_of_nat_u16)

lemma many0_encode:
  "\<forall>(c, d)\<in>set os. length d < 65536 \<Longrightarrow>
   many0_options (concat (map (\<lambda>(c, d). encode_option6 c d) os)) = ([], os)"
proof (induction os)
  case Nil
  show ?case by (simp add: many0_options.simps[of "[]"] parse_option6_def)
next
  case (Cons x os)
  obtain c d where x: "x = (c, d)" by fastforce
  then show ?case using Cons
    by (simp add: many0_options.simps[of "encode_option6 c d @ _"] parse_encode_option6)
qed

lemma many0_stops: "parse_option6 i = None \<Longrightarrow> many0_options i = (i, [])"
  by (simp add: many0_options.simps[of i])

lemma map_of_fold_update:
  "map_of (fold (\<lambda>(k, v) al. AList.update k v al) kvs al) = map_of al ++ map_of (rev kvs)"
  by (induction kvs arbitrary: al) (auto simp: update_conv' fun_eq_iff map_add_def split: option.splits)

lemma distinct_fold_update:
  "distinct (map fst al) \<Longrightarrow> distinct (map fst (fold (\<lambda>(k, v) al. AList.update k v al) kvs al))"
  by (induction kvs arbitrary: al) (auto simp: distinct_update)

lemma map_of_rev_distinct: "distinct (map fst xs) \<Longrightarrow> map_of (rev xs) = map_of xs"
  by (rule map_of_eqI) (auto simp: rev_map[symmetric] map_of_eq_None_iff intro!: map_of_is_SomeI dest: map_of_SomeD)

lemma map_of_permuted:
  assumes "mset xs = mset ys" "distinct (map fst ys)"
  shows "map_of xs = map_of ys"
proof -
  have "set xs = set ys" "distinct (map fst xs)"
    using assms mset_eq_setD[of xs ys] mset_eq_imp_distinct_iff[of "map fst xs" "map fst ys"] by simp_all
  then show ?thesis using assms(2) map_of_inject_set by metis
qed

lemma keys_add_option6: "distinct (map fst (m6_options m)) \<Longrightarrow> distinct (map fst (m6_options (add_option6 c d m)))"
  by (simp add: add_option6_def distinct_update)

lemma get_add_option6 [simp]: "get_option6 c' (add_option6 c d m) = (if c' = c then Some d else get_option6 c' m)"
  by (simp add: get_option6_def add_option6_def update_conv')

lemma get_remove_option6: "get_option6 c' (snd (remove_option6 c m)) = (if c' = c then None else get_option6 c' m)"
  by (simp add: get_option6_def remove_option6_def delete_conv')

text \<open>What the parser yields: distinct keys, the last occurrence of a code wins.\<close>

lemma message6_from_bytes_eq:
  assumes "length xid = 3" and "many0_options rest = (tl_rest, os)"
  shows "message6_from_bytes (t # xid @ rest) =
    Ok \<lparr>m6_type = t, m6_xid = xid, m6_options = fold (\<lambda>(c, d) al. AList.update c d al) os []\<rparr>"
  using assms by (simp add: message6_from_bytes_def parse_message6_def parse_xid_def)

lemma round_trip6:
  assumes wf: "wf_message6 m" and iter: "mset (iter (m6_options m)) = mset (m6_options m)"
  shows "\<exists>n. message6_from_bytes (message6_to_bytes iter m) = Ok n \<and> same_message6 n m \<and> wf_message6 n"
proof -
  let ?os = "iter (m6_options m)"
  let ?n = "\<lparr>m6_type = m6_type m, m6_xid = m6_xid m, m6_options = fold (\<lambda>(c, d) al. AList.update c d al) ?os []\<rparr>"
  have set_os: "set ?os = set (m6_options m)" and dist: "distinct (map fst ?os)"
    using iter wf mset_eq_setD[OF iter] mset_eq_imp_distinct_iff[of "map fst ?os" "map fst (m6_options m)"]
    by (simp_all add: wf_message6_def)
  then have "many0_options (concat (map (\<lambda>(c, d). encode_option6 c d) ?os)) = ([], ?os)"
    using wf by (intro many0_encode) (simp add: wf_message6_def)
  moreover have "length (m6_xid m) = 3" using wf by (simp add: wf_message6_def)
  ultimately have 1: "message6_from_bytes (message6_to_bytes iter m) = Ok ?n"
    by (simp only: message6_to_bytes_def append_Cons append_Nil message6_from_bytes_eq)
  have 2: "map_of (m6_options ?n) = map_of (m6_options m)"
    using dist wf map_of_permuted[of ?os "m6_options m"] iter
    by (simp add: map_of_fold_update map_of_rev_distinct wf_message6_def)
  have 3: "distinct (map fst (m6_options ?n))" using distinct_fold_update[of "[]" ?os] by simp
  then have "set (m6_options ?n) = set (m6_options m)"
    using 2 wf map_of_inject_set[of "m6_options ?n" "m6_options m"] by (simp add: wf_message6_def)
  then have "wf_message6 ?n" using 3 wf by (simp add: wf_message6_def)
  then show ?thesis using 1 2 by (auto simp: same_message6_def)
qed

subsection \<open>Properties\<close>

text \<open>
  Whatever order the hash map is iterated in, serializing a message with a three byte transaction id
  and option data below 65536 bytes and parsing the result gives an equal message.
\<close>

theorem message6_round_trip:
  assumes "wf_message6 m" and "mset (iter (m6_options m)) = mset (m6_options m)"
  shows "\<exists>n. message6_from_bytes (message6_to_bytes iter m) = Ok n \<and> same_message6 n m"
  using round_trip6[of m iter] assms by blast

theorem message6_round_trip_witness:
  "\<exists>n. message6_from_bytes (message6_to_bytes rev \<lparr>m6_type = 1, m6_xid = [1, 2, 3], m6_options = [(1, [9, 9]), (14, [])]\<rparr>) = Ok n \<and>
     same_message6 n \<lparr>m6_type = 1, m6_xid = [1, 2, 3], m6_options = [(1, [9, 9]), (14, [])]\<rparr>"
  by (rule message6_round_trip) (simp_all add: wf_message6_def)

text \<open>
  Option data of 65536 bytes is written with length zero: the message parses back with an empty option.
\<close>

theorem long_option_truncated:
  assumes "length (m6_xid m) = 3" "m6_options m = [(c, d)]" "length d = 65536" "take 4 d = replicate 4 0xFF"
  shows "\<exists>n. message6_from_bytes (message6_to_bytes id m) = Ok n \<and> get_option6 c n = Some []"
proof -
  have "replicate 4 0xFF = [0xFF, 0xFF, 0xFF, 0xFF :: u8]" by (simp add: numeral_eq_Suc)
  then obtain e where d: "d = 0xFF # 0xFF # 0xFF # 0xFF # e" using assms(4) append_take_drop_id[of 4 d] by (metis append_Cons append_Nil)
  then have e: "length e < 65535" using assms(3) by simp
  have len0: "of_nat (length d) = (0 :: u16)" using assms(3) by simp
  have "parse_option6 (encode_option6 c d) = Some (d, c, [])"
    using len0 by (simp add: parse_option6_def encode_option6_def take_bytes_def)
  moreover have "parse_option6 d = None"
    using e by (simp add: d parse_option6_def be16_def take_bytes_def)
  ultimately have "many0_options (encode_option6 c d) = (d, [(c, [])])"
    by (simp add: many0_options.simps[of "encode_option6 c d"] many0_stops)
  then show ?thesis using assms message6_from_bytes_eq[of "m6_xid m" "encode_option6 c d"]
    by (simp add: message6_to_bytes_def get_option6_def)
qed

theorem long_option_truncated_witness:
  "\<exists>n. message6_from_bytes (message6_to_bytes id \<lparr>m6_type = 7, m6_xid = [0, 0, 0], m6_options = [(3, replicate 65536 0xFF)]\<rparr>) = Ok n \<and>
    get_option6 3 n = Some []"
  by (rule long_option_truncated[where d = "replicate 65536 0xFF"])
    (simp_all only: length_replicate take_replicate dhcp6_message.simps list.size, simp_all)

text \<open>Two options with the same code: only the last one is kept.\<close>

theorem duplicate_option_lost:
  assumes "length xid = 3" "length d1 < 65536" "length d2 < 65536"
  shows "\<exists>n. message6_from_bytes (t # xid @ encode_option6 c d1 @ encode_option6 c d2) = Ok n \<and> m6_options n = [(c, d2)]"
  using assms message6_from_bytes_eq[OF assms(1) many0_encode[of "[(c, d1), (c, d2)]"], of t] by simp

theorem duplicate_option_lost_witness:
  "\<exists>n. message6_from_bytes (1 # [0, 0, 0] @ encode_option6 3 [1] @ encode_option6 3 [2]) = Ok n \<and> m6_options n = [(3, [2])]"
  by (rule duplicate_option_lost) simp_all

end
