(* ===== verification/Dhcp6_Options.thy ===== *)
theory Dhcp6_Options
  imports Dhcp6_Message
begin

text \<open>
  The DHCPv6 option builder, \<open>src/dhcp/v6/options.rs\<close>: a growing buffer and a stack of the offsets of the
  open containers, whose length fields are filled in when they are closed.  A method takes the builder and
  yields its result and the builder; the closures that fill a container with further options are such methods.
\<close>

record option_builder =
  ob_buffer :: bytes
  container_stack :: "nat list"

type_synonym builder_op = "option_builder \<Rightarrow> (unit, dhcp_error) outcome \<times> option_builder"

definition ob_new :: option_builder where
  "ob_new = \<lparr>ob_buffer = [], container_stack = []\<rparr>"

text \<open>The question mark operator between two calls, and a loop of calls.\<close>

definition ob_then :: "builder_op \<Rightarrow> builder_op \<Rightarrow> builder_op" where
  "ob_then f g b = (case f b of (Ok _, b) \<Rightarrow> g b | (Err e, b) \<Rightarrow> (Err e, b) | (Panic, b) \<Rightarrow> (Panic, b))"

primrec ob_all :: "builder_op list \<Rightarrow> builder_op" where
  "ob_all [] = (\<lambda>b. (Ok (), b))"
| "ob_all (f # fs) = ob_then f (ob_all fs)"

subsection \<open>Primitive methods\<close>

definition ob_put_bytes :: "bytes \<Rightarrow> builder_op" where
  "ob_put_bytes data b = (Ok (), b\<lparr>ob_buffer := ob_buffer b @ data\<rparr>)"

definition ob_new_option :: "u16 \<Rightarrow> builder_op" where
  "ob_new_option option_code b = (Ok (), b\<lparr>ob_buffer := (ob_buffer b @ put_u16 option_code) @ put_u16 0\<rparr>)"

definition ob_put_u32 :: "u32 \<Rightarrow> builder_op" where
  "ob_put_u32 v b = (Ok (), b\<lparr>ob_buffer := ob_buffer b @ put_u32 v\<rparr>)"

definition ob_put_u16 :: "u16 \<Rightarrow> builder_op" where
  "ob_put_u16 v b = (Ok (), b\<lparr>ob_buffer := ob_buffer b @ put_u16 v\<rparr>)"

definition ob_put_u8 :: "u8 \<Rightarrow> builder_op" where
  "ob_put_u8 v b = (Ok (), b\<lparr>ob_buffer := ob_buffer b @ [v]\<rparr>)"

definition ob_put_string :: "bytes \<Rightarrow> builder_op" where
  "ob_put_string s b = (Ok (), b\<lparr>ob_buffer := ob_buffer b @ s\<rparr>)"

definition ob_put_ipv6_addr :: "bytes \<Rightarrow> builder_op" where
  "ob_put_ipv6_addr octets b = (Ok (), b\<lparr>ob_buffer := ob_buffer b @ octets\<rparr>)"

definition start_container :: "u16 \<Rightarrow> builder_op" where
  "start_container option_code b =
     ob_new_option option_code (b\<lparr>container_stack := length (ob_buffer b) # container_stack b\<rparr>)"

definition end_container :: builder_op where
  "end_container b =
     (case container_stack b of
        [] \<Rightarrow> (Err (V6ProtocolError ''end_container called without matching start_container''), b)
      | container_pos # stack \<Rightarrow>
          let b = b\<lparr>container_stack := stack\<rparr>; total_length = length (ob_buffer b) - container_pos in
          if total_length < 4 then (Err (V6ProtocolError ''Invalid container length''), b)
          else if 65535 < total_length - 4 then (Err (V6ProtocolError ''Option data length exceeds u16::MAX''), b)
          else let length_bytes = put_u16 (of_nat (total_length - 4)) in
            (Ok (), b\<lparr>ob_buffer := ((ob_buffer b)[container_pos + 2 := length_bytes ! 0])[container_pos + 3 := length_bytes ! 1]\<rparr>))"

abbreviation container :: "u16 \<Rightarrow> builder_op \<Rightarrow> builder_op" where
  "container code body \<equiv> ob_then (start_container code) (ob_then body end_container)"

subsection \<open>Options\<close>

definition put_client_id :: "bytes \<Rightarrow> builder_op" where
  "put_client_id duid = container OPTION_CLIENT_ID (ob_put_bytes duid)"

definition put_server_id :: "bytes \<Rightarrow> builder_op" where
  "put_server_id duid = container OPTION_SERVER_ID (ob_put_bytes duid)"

definition put_ia_na :: "u32 \<Rightarrow> u32 \<Rightarrow> u32 \<Rightarrow> builder_op \<Rightarrow> builder_op" where
  "put_ia_na iaid t1 t2 sub_options =
     container OPTION_IA_NA (ob_all [ob_put_u32 iaid, ob_put_u32 t1, ob_put_u32 t2, sub_options])"

definition put_ia_ta :: "u32 \<Rightarrow> builder_op \<Rightarrow> builder_op" where
  "put_ia_ta iaid sub_options = container OPTION_IA_TA (ob_all [ob_put_u32 iaid, sub_options])"

definition put_ia_pd :: "u32 \<Rightarrow> u32 \<Rightarrow> u32 \<Rightarrow> builder_op \<Rightarrow> builder_op" where
  "put_ia_pd iaid t1 t2 sub_options =
     container OPTION_IA_PD (ob_all [ob_put_u32 iaid, ob_put_u32 t1, ob_put_u32 t2, sub_options])"

definition put_ia_addr :: "bytes \<Rightarrow> u32 \<Rightarrow> u32 \<Rightarrow> builder_op \<Rightarrow> builder_op" where
  "put_ia_addr addr preferred valid sub_options =
     container OPTION_IAADDR (ob_all [ob_put_ipv6_addr addr, ob_put_u32 preferred, ob_put_u32 valid, sub_options])"

definition put_ia_prefix :: "bytes \<Rightarrow> u8 \<Rightarrow> u32 \<Rightarrow> u32 \<Rightarrow> builder_op \<Rightarrow> builder_op" where
  "put_ia_prefix prefix prefix_len preferred valid sub_options =
     (if 128 < prefix_len then (\<lambda>b. (Err (V6ProtocolError ''Invalid prefix length''), b))
      else container OPTION_IAPREFIX
        (ob_all [ob_put_u32 preferred, ob_put_u32 valid, ob_put_u8 prefix_len, ob_put_ipv6_addr prefix, sub_options]))"

definition put_option_request :: "u16 list \<Rightarrow> builder_op" where
  "put_option_request requested = container OPTION_ORO (ob_all (map ob_put_u16 requested))"

definition put_preference :: "u8 \<Rightarrow> builder_op" where
  "put_preference preference = container OPTION_PREFERENCE (ob_put_u8 preference)"

definition put_elapsed_time :: "u16 \<Rightarrow> builder_op" where
  "put_elapsed_time t = container OPTION_ELAPSED_TIME (ob_put_u16 t)"

definition put_status_code :: "u16 \<Rightarrow> bytes \<Rightarrow> builder_op" where
  "put_status_code status_code msg = container OPTION_STATUS_CODE (ob_then (ob_put_u16 status_code) (ob_put_string msg))"

definition put_rapid_commit :: builder_op where
  "put_rapid_commit = ob_then (start_container OPTION_RAPID_COMMIT) end_container"

text \<open>A class with its length in sixteen bits.\<close>

definition put_class :: "string \<Rightarrow> bytes \<Rightarrow> builder_op" where
  "put_class too_long cls =
     (if 65535 < length cls then (\<lambda>b. (Err (V6ProtocolError too_long), b))
      else ob_then (ob_put_u16 (of_nat (length cls))) (ob_put_bytes cls))"

definition put_user_class :: "bytes list \<Rightarrow> builder_op" where
  "put_user_class user_classes = container OPTION_USER_CLASS (ob_all (map (put_class ''User class too long'') user_classes))"

definition put_vendor_class :: "u32 \<Rightarrow> bytes list \<Rightarrow> builder_op" where
  "put_vendor_class enterprise_number vendor_classes =
     container OPTION_VENDOR_CLASS
       (ob_then (ob_put_u32 enterprise_number) (ob_all (map (put_class ''Vendor class too long'') vendor_classes)))"

definition put_dns_servers :: "bytes list \<Rightarrow> builder_op" where
  "put_dns_servers dns_servers = container OPTION_DNS_SERVER (ob_all (map ob_put_ipv6_addr dns_servers))"

definition put_label :: "string \<Rightarrow> bytes \<Rightarrow> builder_op" where
  "put_label too_long l =
     (if 255 < length l then (\<lambda>b. (Err (V6ProtocolError too_long), b))
      else ob_then (ob_put_u8 (of_nat (length l))) (ob_put_bytes l))"

definition put_domain_list :: "bytes list \<Rightarrow> builder_op" where
  "put_domain_list domains =
     container OPTION_DOMAIN_SEARCH
       (ob_all (map (\<lambda>domain. ob_then (ob_all (map (put_label ''Domain label too long'') (split_on dot domain))) (ob_put_u8 0)) domains))"

definition put_ntp_server :: "bytes list \<Rightarrow> builder_op" where
  "put_ntp_server ntp_servers = container OPTION_NTP_SERVER (ob_all (map ob_put_ipv6_addr ntp_servers))"

definition put_fqdn :: "u8 \<Rightarrow> bytes \<Rightarrow> builder_op" where
  "put_fqdn flags fqdn =
     container OPTION_FQDN
       (ob_then (ob_put_u8 flags)
         (ob_then (ob_all (map (put_label ''FQDN label too long'') (filter (\<lambda>l. l \<noteq> []) (split_on dot fqdn)))) (ob_put_u8 0)))"

subsection \<open>Methods that append\<close>

text \<open>
  The contract of a method, and of a closure given to one: it succeeds, appends \<open>ds\<close> to the buffer and leaves
  the open containers as they were.
\<close>

definition appends :: "builder_op \<Rightarrow> bytes \<Rightarrow> bool" where
  "appends f ds \<longleftrightarrow> (\<forall>b. f b = (Ok (), b\<lparr>ob_buffer := ob_buffer b @ ds\<rparr>))"

named_theorems appends_intros \<open>what the builder's methods append\<close>

lemma appendsD: "appends f ds \<Longrightarrow> f b = (Ok (), b\<lparr>ob_buffer := ob_buffer b @ ds\<rparr>)"
  by (simp add: appends_def)

lemma appends_primitive [appends_intros]:
  "appends (ob_put_bytes ds) ds" "appends (ob_put_string ds) ds" "appends (ob_put_ipv6_addr ds) ds"
  "appends (ob_put_u32 w) (put_u32 w)" "appends (ob_put_u16 v) (put_u16 v)" "appends (ob_put_u8 x) [x]"
  by (simp_all add: appends_def ob_put_bytes_def ob_put_string_def ob_put_ipv6_addr_def ob_put_u32_def ob_put_u16_def ob_put_u8_def)

lemma appends_then [appends_intros]: "appends f xs \<Longrightarrow> appends g ys \<Longrightarrow> appends (ob_then f g) (xs @ ys)"
  by (simp add: appends_def ob_then_def)

lemma appends_Nil [appends_intros]: "appends (ob_all []) []"
  by (simp add: appends_def)

lemma appends_Cons [appends_intros]: "appends f xs \<Longrightarrow> appends (ob_all fs) ys \<Longrightarrow> appends (ob_all (f # fs)) (xs @ ys)"
  by (simp add: appends_then)

lemma appends_map [appends_intros]:
  "(\<And>x. x \<in> set xs \<Longrightarrow> appends (f x) (enc x)) \<Longrightarrow> appends (ob_all (map f xs)) (concat (map enc xs))"
  by (induction xs) (simp_all only: list.map concat.simps list.set appends_Nil appends_Cons insertI1 insertI2)

lemma start_container_eq:
  "start_container code b = (Ok (), \<lparr>ob_buffer = ob_buffer b @ put_u16 code @ put_u16 0,
     container_stack = length (ob_buffer b) # container_stack b, \<dots> = option_builder.more b\<rparr>)"
  by (simp add: start_container_def ob_new_option_def)

lemma patch_length:
  "((pre @ put_u16 c @ put_u16 0 @ ds)[length pre + 2 := put_u16 n ! 0])[length pre + 3 := put_u16 n ! 1] =
     pre @ put_u16 c @ put_u16 n @ ds"
  by (simp add: put_u16_def list_update_append numeral_eq_Suc)

lemmas patch_length_Suc = patch_length[simplified]

lemma end_container_eq:
  assumes "ob_buffer b = pre @ put_u16 c @ put_u16 0 @ ds" "container_stack b = length pre # stack"
  shows "end_container b =
    (if length ds < 65536 then (Ok (), b\<lparr>container_stack := stack, ob_buffer := pre @ encode_option6 c ds\<rparr>)
     else (Err (V6ProtocolError ''Option data length exceeds u16::MAX''), b\<lparr>container_stack := stack\<rparr>))"
  using assms by (auto simp: end_container_def Let_def encode_option6_def patch_length_Suc)

lemma container_appends [appends_intros]:
  "appends f ds \<Longrightarrow> length ds < 65536 \<Longrightarrow> appends (container code f) (encode_option6 code ds)"
  unfolding appends_def ob_then_def start_container_eq
  by (simp add: end_container_eq[where ds = ds and c = code])

lemma container_too_long:
  "appends f ds \<Longrightarrow> 65536 \<le> length ds \<Longrightarrow>
   container code f b = (Err (V6ProtocolError ''Option data length exceeds u16::MAX''), b\<lparr>ob_buffer := ob_buffer b @ put_u16 code @ put_u16 0 @ ds\<rparr>)"
  unfolding appends_def ob_then_def start_container_eq
  by (simp add: end_container_eq[where ds = ds and c = code])

subsection \<open>What each option appends\<close>

lemma put_class_appends [appends_intros]:
  "length cls < 65536 \<Longrightarrow> appends (put_class why cls) (put_u16 (of_nat (length cls)) @ cls)"
  by (auto simp: put_class_def intro: appends_intros)

lemma put_label_appends [appends_intros]:
  "length l < 256 \<Longrightarrow> appends (put_label why l) ([of_nat (length l)] @ l)"
  unfolding put_label_def by (auto intro!: appends_then appends_primitive simp del: append_Cons append_Nil)

lemma ia_na_appends:
  assumes "appends sub ds" "length ds < 65524"
  shows "appends (put_ia_na iaid t1 t2 sub) (encode_option6 OPTION_IA_NA (put_u32 iaid @ put_u32 t1 @ put_u32 t2 @ ds))"
proof -
  have "appends (ob_all [ob_put_u32 iaid, ob_put_u32 t1, ob_put_u32 t2, sub]) (put_u32 iaid @ put_u32 t1 @ put_u32 t2 @ ds @ [])"
    by (intro appends_intros assms)
  then show ?thesis unfolding put_ia_na_def using assms(2) by (intro container_appends) simp_all
qed

lemma ia_addr_appends:
  assumes "appends sub ds" "length addr = 16" "length ds < 65512"
  shows "appends (put_ia_addr addr p v sub) (encode_option6 OPTION_IAADDR (addr @ put_u32 p @ put_u32 v @ ds))"
proof -
  have "appends (ob_all [ob_put_ipv6_addr addr, ob_put_u32 p, ob_put_u32 v, sub]) (addr @ put_u32 p @ put_u32 v @ ds @ [])"
    by (intro appends_intros assms)
  then show ?thesis unfolding put_ia_addr_def using assms(2,3) by (intro container_appends) simp_all
qed

lemma ia_prefix_appends:
  assumes "appends sub ds" "length prefix = 16" "length ds < 65511"
  shows "\<not> 128 < prefix_len \<Longrightarrow> appends (put_ia_prefix prefix prefix_len p v sub)
    (encode_option6 OPTION_IAPREFIX (put_u32 p @ put_u32 v @ [prefix_len] @ prefix @ ds))"
    "128 < prefix_len \<Longrightarrow> put_ia_prefix prefix prefix_len p v sub b = (Err (V6ProtocolError ''Invalid prefix length''), b)"
proof -
  have "appends (ob_all [ob_put_u32 p, ob_put_u32 v, ob_put_u8 prefix_len, ob_put_ipv6_addr prefix, sub])
    (put_u32 p @ put_u32 v @ [prefix_len] @ prefix @ ds @ [])"
    by (intro appends_intros assms)
  then show "\<not> 128 < prefix_len \<Longrightarrow> appends (put_ia_prefix prefix prefix_len p v sub)
    (encode_option6 OPTION_IAPREFIX (put_u32 p @ put_u32 v @ [prefix_len] @ prefix @ ds))"
    unfolding put_ia_prefix_def using assms(2,3) container_appends by simp
qed (simp add: put_ia_prefix_def)

lemma domain_appends:
  "\<forall>l\<in>set (split_on dot domain). length l < 256 \<Longrightarrow>
   appends (ob_then (ob_all (map (put_label why) (split_on dot domain))) (ob_put_u8 0))
     (concat (map (\<lambda>l. [of_nat (length l)] @ l) (split_on dot domain)) @ [0])"
  by (intro appends_intros) simp

subsection \<open>Trees of options\<close>

text \<open>
  The reference: an option is a code, its own data and the options nested in it, and is written as code,
  length and contents.  \<open>build_tree\<close> drives the builder the way the \<open>put_ia_*\<close> methods do.
\<close>

datatype option_tree = OptionTree u16 bytes "option_tree list"

primrec encode_tree :: "option_tree \<Rightarrow> bytes" where
  "encode_tree (OptionTree code data subs) = encode_option6 code (data @ concat (map encode_tree subs))"

primrec tree_fits :: "option_tree \<Rightarrow> bool" where
  "tree_fits (OptionTree code data subs) \<longleftrightarrow>
     length (data @ concat (map encode_tree subs)) < 65536 \<and> list_all id (map tree_fits subs)"

primrec build_tree :: "option_tree \<Rightarrow> builder_op" where
  "build_tree (OptionTree code data subs) =
     container code (ob_then (ob_put_bytes data) (ob_all (map build_tree subs)))"

lemma build_tree_appends: "tree_fits t \<Longrightarrow> appends (build_tree t) (encode_tree t)"
proof (induction t)
  case (OptionTree code data subs)
  then have "appends (ob_all (map build_tree subs)) (concat (map encode_tree subs))"
    by (intro appends_map) (auto simp: list_all_iff)
  then show ?case using OptionTree.prems
    by (auto intro!: container_appends appends_then appends_primitive)
qed

lemma encode_tree_parse:
  "tree_fits t \<Longrightarrow> parse_option6 (encode_tree t @ r) =
     (case t of OptionTree code data subs \<Rightarrow> Some (r, code, data @ concat (map encode_tree subs)))"
  by (cases t) (simp add: parse_encode_option6)

subsection \<open>Properties\<close>

text \<open>
  C21: building nested options whose contents stay below 65536 bytes at every level succeeds, leaves the
  open containers alone and appends exactly the reference encoding: every length field, of inner and outer
  options, is patched to the length of its contents.
\<close>

theorem builder_encodes_tree:
  assumes "tree_fits t"
  shows "build_tree t b = (Ok (), b\<lparr>ob_buffer := ob_buffer b @ encode_tree t\<rparr>)"
  using build_tree_appends[OF assms] by (rule appendsD)

theorem builder_encodes_tree_witness:
  "build_tree (OptionTree 3 [1] [OptionTree 5 [7, 7] [], OptionTree 13 [0] []]) ob_new =
     (Ok (), ob_new\<lparr>ob_buffer := [0, 3, 0, 12, 1, 0, 5, 0, 2, 7, 7, 0, 13, 0, 1, 0]\<rparr>)"
proof -
  let ?t = "OptionTree 3 [1] [OptionTree 5 [7, 7] [], OptionTree 13 [0] []]"
  have "encode_tree ?t = [0, 3, 0, 12, 1, 0, 5, 0, 2, 7, 7, 0, 13, 0, 1, 0]"
    by (simp add: encode_option6_def put_u16_def)
  then show ?thesis using builder_encodes_tree[of ?t ob_new] by (simp add: ob_new_def)
qed

text \<open>
  A search domain with a trailing dot is written with two terminators: the second one reads as a further,
  empty name of the list.
\<close>

theorem trailing_dot_extra_name:
  assumes "length l < 256" "dot \<notin> set l"
  shows "appends (put_domain_list [l @ [dot]]) (encode_option6 OPTION_DOMAIN_SEARCH ([of_nat (length l)] @ l @ [0, 0]))"
proof -
  have split: "split_on dot (l @ [dot]) = [l, []]" using split_on_append[OF assms(2), of "[]"] by simp
  have "appends (ob_all [ob_then (ob_all (map (put_label ''Domain label too long'') [l, []])) (ob_put_u8 0)])
    ((concat (map (\<lambda>l. [of_nat (length l)] @ l) [l, []]) @ [0]) @ [])"
    by (intro appends_Cons appends_then appends_map appends_primitive appends_Nil put_label_appends) (use assms in auto)
  then show ?thesis unfolding put_domain_list_def using assms(1)
    by (intro container_appends) (simp_all add: split)
qed

theorem trailing_dot_extra_name_witness:
  "appends (put_domain_list [[0x6C, 0x61, 0x6E] @ [dot]]) (encode_option6 OPTION_DOMAIN_SEARCH ([of_nat (length [0x6C, 0x61, 0x6E :: u8])] @ [0x6C, 0x61, 0x6E] @ [0, 0]))"
  by (rule trailing_dot_extra_name) simp_all

end
