(* ===== verification/Dhcp6_Protocol.thy ===== *)
theory Dhcp6_Protocol
  imports Lease_Manager Dhcp6_Options
begin

text \<open>
  The DHCPv6 state machine, \<open>src/dhcp/v6/protocol.rs\<close>: one handler per client message over the lease manager,
  the replies they build, the search for a free address or prefix, and the reading of the address inside an
  identity association.  A handler yields its result and the new state of the manager; a slice taken
  out of bounds is \<open>Panic\<close>.  Integers wrap, as in the release profile of the crate.
\<close>

subsection \<open>IPv6 addresses as numbers\<close>

definition ipv6_u128 :: "bytes \<Rightarrow> u128" where
  "ipv6_u128 octets = foldl (\<lambda>w b. w * 256 + ucast b) 0 octets"

primrec be_octets :: "nat \<Rightarrow> u128 \<Rightarrow> bytes" where
  "be_octets 0 w = []"
| "be_octets (Suc n) w = be_octets n (w div 256) @ [ucast w]"

definition u128_ipv6 :: "u128 \<Rightarrow> bytes" where
  "u128_ipv6 w = be_octets 16 w"

definition sat_add :: "u128 \<Rightarrow> u128 \<Rightarrow> u128" where
  "sat_add a b = (if a + b < a then - 1 else a + b)"

lemma ipv6_u128_snoc [simp]: "ipv6_u128 [] = 0" "ipv6_u128 (bs @ [b]) = ipv6_u128 bs * 256 + ucast b"
  by (simp_all add: ipv6_u128_def)

lemma unat_ipv6_snoc:
  "length bs < 16 \<Longrightarrow> unat (ipv6_u128 bs) < 256 ^ length bs \<Longrightarrow>
   unat (ipv6_u128 (bs @ [b])) = unat (ipv6_u128 bs) * 256 + unat b"
proof -
  assume a: "length bs < 16" "unat (ipv6_u128 bs) < 256 ^ length bs"
  have "(256 :: nat) ^ length bs \<le> 256 ^ 15" using a(1) by (intro power_increasing) simp_all
  moreover have "unat b < 256" by simp
  moreover have "(256 :: nat) ^ 15 * 256 = 2 ^ 128" by simp
  ultimately have "unat (ipv6_u128 bs) * 256 + unat b < 2 ^ 128" using a(2) by linarith
  then show ?thesis by (simp add: unat_word_ariths unsigned_ucast_eq take_bit_eq_mod)
qed

lemma unat_ipv6_bound: "length bs \<le> 16 \<Longrightarrow> unat (ipv6_u128 bs) < 256 ^ length bs"
proof (induction bs rule: rev_induct)
  case (snoc b bs)
  then have "unat (ipv6_u128 (bs @ [b])) = unat (ipv6_u128 bs) * 256 + unat b" by (intro unat_ipv6_snoc) simp_all
  moreover have "unat b < 256" by simp
  moreover have "unat (ipv6_u128 bs) < 256 ^ length bs" using snoc by simp
  ultimately have "unat (ipv6_u128 (bs @ [b])) < 256 ^ length bs * 256" by linarith
  then show ?case by (simp add: mult.commute)
qed simp

lemma be_octets_length [simp]: "length (be_octets n w) = n"
  by (induction n arbitrary: w) simp_all

lemma u128_ipv6_length [simp]: "length (u128_ipv6 w) = 16"
  by (simp add: u128_ipv6_def)

lemma ucast_u8_mod: "ucast (ucast (w :: u128) :: u8) = w mod 256"
  by (rule word_unat_eq_iff[THEN iffD2]) (simp add: unsigned_ucast_eq take_bit_eq_mod unat_mod)

lemma ipv6_be_octets: "unat w < 256 ^ n \<Longrightarrow> n \<le> 16 \<Longrightarrow> ipv6_u128 (be_octets n w) = w"
proof (induction n arbitrary: w)
  case 0
  then show ?case by (simp add: unat_eq_0)
next
  case (Suc n)
  then have "unat (w div 256) < 256 ^ n" by (simp add: unat_div less_mult_imp_div_less mult.commute)
  with Suc have "ipv6_u128 (be_octets n (w div 256)) = w div 256" by simp
  then show ?case using div_mult_mod_eq[of w 256] by (simp add: ucast_u8_mod)
qed

lemma u128_bound: "unat (w :: u128) < 256 ^ 16"
  using unsigned_less[of w, where ?'a = nat] by simp

lemma ipv6_u128_of [simp]: "ipv6_u128 (u128_ipv6 w) = w"
  unfolding u128_ipv6_def by (rule ipv6_be_octets[OF u128_bound]) simp

lemma be_octets_ipv6: "length bs \<le> 16 \<Longrightarrow> be_octets (length bs) (ipv6_u128 bs) = bs"
proof (induction bs rule: rev_induct)
  case (snoc b bs)
  then have u: "unat (ipv6_u128 (bs @ [b])) = unat (ipv6_u128 bs) * 256 + unat b"
    by (intro unat_ipv6_snoc unat_ipv6_bound) simp_all
  have "ipv6_u128 (bs @ [b]) div 256 = ipv6_u128 bs"
    using u by (intro word_unat_eq_iff[THEN iffD2]) (simp add: unat_div)
  moreover have "ucast (ipv6_u128 (bs @ [b])) = b"
    using u by (intro word_unat_eq_iff[THEN iffD2]) (simp add: unsigned_ucast_eq take_bit_eq_mod)
  ultimately show ?case using snoc by simp
qed simp

lemma u128_ipv6_inverse [simp]: "length bs = 16 \<Longrightarrow> u128_ipv6 (ipv6_u128 bs) = bs"
  using be_octets_ipv6[of bs] by (simp add: u128_ipv6_def)

lemma u128_ipv6_inject: "u128_ipv6 v = u128_ipv6 w \<longleftrightarrow> v = w"
  by (metis ipv6_u128_of)

subsection \<open>Status codes and requests\<close>

datatype status_code = Success | UnspecFail | NoAddrsAvail | NoBinding | NotOnLink | UseMulticast | NoPrefixAvail

fun status_to_u16 :: "status_code \<Rightarrow> u16" where
  "status_to_u16 Success = 0"
| "status_to_u16 UnspecFail = 1"
| "status_to_u16 NoAddrsAvail = 2"
| "status_to_u16 NoBinding = 3"
| "status_to_u16 NotOnLink = 4"
| "status_to_u16 UseMulticast = 5"
| "status_to_u16 NoPrefixAvail = 6"

fun status_message :: "status_code \<Rightarrow> bytes" where
  "status_message Success = ascii ''Success''"
| "status_message UnspecFail = ascii ''Unspecified failure''"
| "status_message NoAddrsAvail = ascii ''No addresses available''"
| "status_message NoBinding = ascii ''Client binding not found''"
| "status_message NotOnLink = ascii ''Address not on link''"
| "status_message UseMulticast = ascii ''Use multicast''"
| "status_message NoPrefixAvail = ascii ''No prefixes available''"

record dhcp6_context =
  cx_start6 :: ip_addr
  cx_end6 :: ip_addr
  cx_flags6 :: u32
  cx_if_index :: "32 word"
  cx_lease_time6 :: u32
  cx_prefix_len :: u8

record request_context =
  rc_clid :: bytes
  rc_clid_len :: nat
  rc_xid :: bytes
  rc_interface :: bytes
  rc_hostname :: "bytes option"
  rc_context :: "dhcp6_context option"
  rc_iaid :: u32
  rc_ia_type :: u16
  rc_multicast_dest :: bool

definition request_context_new :: "bytes \<Rightarrow> bytes \<Rightarrow> bytes \<Rightarrow> u32 \<Rightarrow> u16 \<Rightarrow> bool \<Rightarrow> request_context" where
  "request_context_new clid transaction_id interface iaid ia_type multicast_dest =
     \<lparr>rc_clid = clid, rc_clid_len = length clid, rc_xid = transaction_id, rc_interface = interface, rc_hostname = None,
      rc_context = None, rc_iaid = iaid, rc_ia_type = ia_type, rc_multicast_dest = multicast_dest\<rparr>"

text \<open>The state machine's own data: the configured lease time, in nanoseconds, and the server's identifier.\<close>

record dhcp6_machine =
  v6_lease_time :: nat
  server_duid :: bytes

subsection \<open>Reading and writing identity associations\<close>

fun parse_iaaddr_from_options :: "bytes \<Rightarrow> (ip_addr, dhcp_error) outcome" where
  "parse_iaaddr_from_options (a # b # c # d # rest) =
     (let option_code = be16 a b; option_len = unat (be16 c d) in
      if length rest < option_len then Err (V6ProtocolError ''Malformed IA option'')
      else if option_code = OPTION_IAADDR then
        if option_len < 16 then Err (V6ProtocolError ''IAADDR too short'') else Ok (V6 (take 16 rest))
      else parse_iaaddr_from_options (drop option_len rest))"
| "parse_iaaddr_from_options _ = Err (V6ProtocolError ''No IAADDR found in IA_NA'')"

definition iaaddr_bytes :: "ip_addr \<Rightarrow> u32 \<Rightarrow> bytes" where
  "iaaddr_bytes ip lifetime =
     (case ip of
        V6 octets \<Rightarrow> put_u16 OPTION_IAADDR @ put_u16 24 @ octets @ put_u32 lifetime @ put_u32 lifetime
      | V4 _ \<Rightarrow> [])"

definition iaprefix_bytes :: "ip_addr \<Rightarrow> u8 \<Rightarrow> u32 \<Rightarrow> bytes" where
  "iaprefix_bytes ip prefix_len lifetime =
     (case ip of
        V6 octets \<Rightarrow> put_u16 OPTION_IAPREFIX @ put_u16 25 @ put_u32 lifetime @ put_u32 lifetime @ [prefix_len] @ octets
      | V4 _ \<Rightarrow> [])"

subsection \<open>Replies\<close>

definition identified :: "dhcp6_machine \<Rightarrow> request_context \<Rightarrow> u8 \<Rightarrow> dhcp6_message" where
  "identified sm ctx message_type =
     add_option6 OPTION_CLIENT_ID (rc_clid ctx)
       (add_option6 OPTION_SERVER_ID (server_duid sm) (message6_new message_type (rc_xid ctx)))"

definition status_data :: "status_code \<Rightarrow> bytes" where
  "status_data status = put_u16 (status_to_u16 status) @ status_message status"

definition build_reply_with_status :: "dhcp6_machine \<Rightarrow> request_context \<Rightarrow> status_code \<Rightarrow> (dhcp6_message, dhcp_error) outcome" where
  "build_reply_with_status sm ctx status = Ok (add_option6 OPTION_STATUS_CODE (status_data status) (identified sm ctx MSG_REPLY))"

text \<open>\<open>now\<close> is the reading of the system clock when the reply is built.\<close>

definition build_reply_with_address :: "nat \<Rightarrow> dhcp6_machine \<Rightarrow> request_context \<Rightarrow> lease \<Rightarrow> status_code \<Rightarrow> (dhcp6_message, dhcp_error) outcome" where
  "build_reply_with_address now sm ctx l status =
     (let lease_duration = (case duration_since (ls_expires l) now of Some d \<Rightarrow> d | None \<Rightarrow> secs 3600);
          lease_secs = (of_nat (lease_duration div secs 1) :: u64);
          t1 = ucast (lease_secs div 2);
          t2 = ucast (lease_secs * 4 div 5);
          lifetime_secs = ucast lease_secs;
          ia_na_data = put_u32 (rc_iaid ctx) @ put_u32 t1 @ put_u32 t2 @ iaaddr_bytes (ls_ip l) lifetime_secs;
          response = add_option6 OPTION_IA_NA ia_na_data (identified sm ctx MSG_REPLY) in
      Ok (if status \<noteq> Success then add_option6 OPTION_STATUS_CODE (status_data status) response else response))"

subsection \<open>Searching the pool\<close>

definition is_address_in_pool :: "ip_addr \<Rightarrow> dhcp6_context \<Rightarrow> bool" where
  "is_address_in_pool address context \<longleftrightarrow> address = cx_start6 context"

definition validate_address_in_pool :: "ip_addr \<Rightarrow> dhcp6_context \<Rightarrow> (unit, dhcp_error) outcome" where
  "validate_address_in_pool address context =
     (if \<not> is_address_in_pool address context then Err (V6ProtocolError ''Address not in pool'') else Ok ())"

definition leased6 :: "'l lease_manager \<Rightarrow> bytes \<Rightarrow> bool" where
  "leased6 m a \<longleftrightarrow> repo_find_by_ip (V6 a) (lm_repo m) \<noteq> None"

text \<open>The loop over the inclusive range, left after ten thousand addresses.\<close>

function find_address_loop :: "'l lease_manager \<Rightarrow> u128 \<Rightarrow> u128 \<Rightarrow> u128 \<Rightarrow> u128 option" where
  "find_address_loop m start stop addr =
     (if stop < addr then None
      else if \<not> leased6 m (u128_ipv6 addr) then Some addr
      else if sat_add start 10000 \<le> addr then None
      else find_address_loop m start stop (addr + 1))"
  by pat_completeness auto

lemma below_max_inc:
  fixes a w :: "'a :: len word"
  assumes "\<not> w \<le> a"
  shows "unat (a + 1) = Suc (unat a)"
proof -
  have "unat a < unat w" using assms by (simp add: word_le_nat_alt)
  then have "Suc (unat a) < 2 ^ LENGTH('a)" using unsigned_less[of w, where ?'a = nat] by linarith
  then show ?thesis by (simp add: unat_word_ariths)
qed

termination find_address_loop
proof (relation "measure (\<lambda>(m, start, stop, addr). 2 ^ 128 - unat addr)", goal_cases)
  case (2 m start stop addr)
  then have "unat (addr + 1) = Suc (unat addr)" by (intro below_max_inc)
  then show ?case using u128_bound[of addr] by simp
qed simp

declare find_address_loop.simps [simp del]

text \<open>The offset \<open>i * prefix_size\<close> wraps for prefixes shorter than eight bits.\<close>

definition find_available_prefix :: "dhcp6_context \<Rightarrow> 'l lease_manager \<Rightarrow> (ip_addr, dhcp_error) outcome" where
  "find_available_prefix context m =
     (case cx_start6 context of
        V4 _ \<Rightarrow> Err (V6ProtocolError ''DHCPv6 prefix delegation must use IPv6 addresses'')
      | V6 start_v6 \<Rightarrow>
          let start = ipv6_u128 start_v6;
              prefix_size = (if cx_prefix_len context < 128 then push_bit (128 - unat (cx_prefix_len context)) 1 else 1) in
          (case find (\<lambda>p. \<not> leased6 m p) (map (\<lambda>i. u128_ipv6 (sat_add start (of_nat i * prefix_size))) [0..<256]) of
             Some p \<Rightarrow> Ok (V6 p)
           | None \<Rightarrow> Err (V6ProtocolError ''No prefixes available in delegation pool'')))"

definition find_available_address :: "dhcp6_context \<Rightarrow> 'l lease_manager \<Rightarrow> (ip_addr, dhcp_error) outcome" where
  "find_available_address context m =
     (if 0 < cx_prefix_len context then find_available_prefix context m
      else case (cx_start6 context, cx_end6 context) of
          (V6 start_v6, V6 end_v6) \<Rightarrow>
            (case find_address_loop m (ipv6_u128 start_v6) (ipv6_u128 end_v6) (ipv6_u128 start_v6) of
               Some a \<Rightarrow> Ok (V6 (u128_ipv6 a))
             | None \<Rightarrow> Err (V6ProtocolError ''No addresses available in pool''))
        | _ \<Rightarrow> Err (V6ProtocolError ''DHCPv6 pool must use IPv6 addresses''))"

subsection \<open>Handlers\<close>

definition check_server_id :: "dhcp6_machine \<Rightarrow> string \<Rightarrow> string \<Rightarrow> dhcp6_message \<Rightarrow> (unit, dhcp_error) outcome" where
  "check_server_id sm mismatch missing msg =
     (case get_option6 OPTION_SERVER_ID msg of
        Some server_id \<Rightarrow> if server_id \<noteq> server_duid sm then Err (V6ProtocolError mismatch) else Ok ()
      | None \<Rightarrow> Err (V6ProtocolError missing))"

text \<open>The address in the identity association; the slice behind its twelve byte header is not checked.\<close>

definition ia_na_address :: "string \<Rightarrow> dhcp6_message \<Rightarrow> (ip_addr, dhcp_error) outcome" where
  "ia_na_address missing msg =
     rbind (ok_or (V6ProtocolError missing) (get_option6 OPTION_IA_NA msg)) (\<lambda>ia_na_data.
       if length ia_na_data < 12 then Panic else parse_iaaddr_from_options (drop 12 ia_na_data))"

definition requested_address :: "dhcp6_machine \<Rightarrow> request_context \<Rightarrow> dhcp6_message \<Rightarrow> (ip_addr, dhcp_error) outcome" where
  "requested_address sm ctx msg =
     rbind (check_server_id sm ''Server ID does not match this server'' ''No SERVER_ID in REQUEST'' msg) (\<lambda>_.
     rbind (ok_or (V6ProtocolError ''No IA_NA in REQUEST'') (get_option6 OPTION_IA_NA msg)) (\<lambda>ia_na_data.
     if length ia_na_data < 12 then Err (V6ProtocolError ''Malformed IA_NA option'')
     else rbind (parse_iaaddr_from_options (drop 12 ia_na_data)) (\<lambda>address.
       rbind (ok_or (V6ProtocolError ''No matching address pool'') (rc_context ctx)) (\<lambda>context.
       rbind (validate_address_in_pool address context) (\<lambda>_. Ok address)))))"

definition handle_request6 :: "'l manager_env \<Rightarrow> dhcp6_machine \<Rightarrow> request_context \<Rightarrow> dhcp6_message \<Rightarrow> 'l lease_manager
    \<Rightarrow> (dhcp6_message, dhcp_error) outcome \<times> 'l lease_manager" where
  "handle_request6 E sm ctx msg m =
     (case requested_address sm ctx msg of
        Ok address \<Rightarrow>
          (case allocate_lease E address None (rc_hostname ctx) (Some (rc_clid ctx)) (rc_interface ctx) (v6_lease_time sm) m of
             (Ok l, m) \<Rightarrow> (build_reply_with_address (sys_later E) sm ctx l Success, m)
           | (Err e, m) \<Rightarrow> (Err e, m)
           | (Panic, m) \<Rightarrow> (Panic, m))
      | Err e \<Rightarrow> (Err e, m)
      | Panic \<Rightarrow> (Panic, m))"

text \<open>The advertised identity association: T1, T2 and both lifetimes are the whole lease time.\<close>

definition advertise :: "dhcp6_machine \<Rightarrow> request_context \<Rightarrow> dhcp6_context \<Rightarrow> ip_addr \<Rightarrow> (dhcp6_message, dhcp_error) outcome" where
  "advertise sm ctx context available_address =
     (let response = identified sm ctx MSG_ADVERTISE;
          lease_secs = of_nat (v6_lease_time sm div secs 1);
          header = put_u32 (rc_iaid ctx) @ put_u32 lease_secs @ put_u32 lease_secs in
      if rc_ia_type ctx = OPTION_IA_PD then
        if cx_prefix_len context = 0 then Err (V6ProtocolError ''No prefix delegation configured for this range'')
        else Ok (add_option6 OPTION_IA_PD (header @ iaprefix_bytes available_address (cx_prefix_len context) lease_secs) response)
      else Ok (add_option6 OPTION_IA_NA (header @ iaaddr_bytes available_address lease_secs) response))"

definition handle_solicit6 :: "'l manager_env \<Rightarrow> dhcp6_machine \<Rightarrow> request_context \<Rightarrow> dhcp6_message \<Rightarrow> 'l lease_manager
    \<Rightarrow> (dhcp6_message, dhcp_error) outcome \<times> 'l lease_manager" where
  "handle_solicit6 E sm ctx msg m =
     (case rc_context ctx of
        None \<Rightarrow> (Err (V6ProtocolError ''No address pool configured for interface''), m)
      | Some context \<Rightarrow>
          (case find_available_address context m of
             Ok available_address \<Rightarrow>
               if get_option6 OPTION_RAPID_COMMIT msg \<noteq> None then handle_request6 E sm ctx msg m
               else (advertise sm ctx context available_address, m)
           | Err e \<Rightarrow> (Err e, m)
           | Panic \<Rightarrow> (Panic, m)))"

text \<open>The end of a renewal: the reply carries the renewed lease.\<close>

definition renewed :: "'l manager_env \<Rightarrow> dhcp6_machine \<Rightarrow> request_context \<Rightarrow> (lease, dhcp_error) outcome \<times> 'l lease_manager
    \<Rightarrow> (dhcp6_message, dhcp_error) outcome \<times> 'l lease_manager" where
  "renewed E sm ctx res =
     (case res of
        (Ok l, m) \<Rightarrow> (build_reply_with_address (sys_later E) sm ctx l Success, m)
      | (Err e, m) \<Rightarrow> (Err e, m)
      | (Panic, m) \<Rightarrow> (Panic, m))"

definition handle_renew6 :: "'l manager_env \<Rightarrow> dhcp6_machine \<Rightarrow> request_context \<Rightarrow> dhcp6_message \<Rightarrow> 'l lease_manager
    \<Rightarrow> (dhcp6_message, dhcp_error) outcome \<times> 'l lease_manager" where
  "handle_renew6 E sm ctx msg m =
     (case rbind (check_server_id sm ''Server ID mismatch'' ''No SERVER_ID in RENEW'' msg) (\<lambda>_. ia_na_address ''No IA_NA in RENEW'' msg) of
        Ok address \<Rightarrow>
          (case repo_find_by_ip address (lm_repo m) of
             None \<Rightarrow> (Err (V6ProtocolError ''No binding found''), m)
           | Some l \<Rightarrow>
               if ls_client_id l \<noteq> Some (rc_clid ctx) then (build_reply_with_status sm ctx NoBinding, m)
               else renewed E sm ctx (renew_lease E address (v6_lease_time sm) m))
      | Err e \<Rightarrow> (Err e, m)
      | Panic \<Rightarrow> (Panic, m))"

definition handle_rebind6 :: "'l manager_env \<Rightarrow> dhcp6_machine \<Rightarrow> request_context \<Rightarrow> dhcp6_message \<Rightarrow> 'l lease_manager
    \<Rightarrow> (dhcp6_message, dhcp_error) outcome \<times> 'l lease_manager" where
  "handle_rebind6 E sm ctx msg m =
     (case ia_na_address ''No IA_NA in REBIND'' msg of
        Ok address \<Rightarrow>
          if rc_context ctx = None \<or> \<not> is_address_in_pool address (the (rc_context ctx))
          then (build_reply_with_status sm ctx NotOnLink, m)
          else (case repo_find_by_ip address (lm_repo m) of
                  Some existing \<Rightarrow>
                    if ls_client_id existing \<noteq> Some (rc_clid ctx) then (build_reply_with_status sm ctx NoBinding, m)
                    else renewed E sm ctx (renew_lease E address (v6_lease_time sm) m)
                | None \<Rightarrow>
                    renewed E sm ctx (allocate_lease E address None (rc_hostname ctx) (Some (rc_clid ctx)) (rc_interface ctx) (v6_lease_time sm) m))
      | Err e \<Rightarrow> (Err e, m)
      | Panic \<Rightarrow> (Panic, m))"

definition handle_release6 :: "'l manager_env \<Rightarrow> dhcp6_machine \<Rightarrow> request_context \<Rightarrow> dhcp6_message \<Rightarrow> 'l lease_manager
    \<Rightarrow> (dhcp6_message, dhcp_error) outcome \<times> 'l lease_manager" where
  "handle_release6 E sm ctx msg m =
     (case rbind (check_server_id sm ''Server ID mismatch'' ''No SERVER_ID in RELEASE'' msg) (\<lambda>_. ia_na_address ''No IA_NA in RELEASE'' msg) of
        Ok address \<Rightarrow>
          (case repo_find_by_ip address (lm_repo m) of
             Some l \<Rightarrow>
               if ls_client_id l \<noteq> Some (rc_clid ctx) then (build_reply_with_status sm ctx NoBinding, m)
               else (case release_lease E address m of
                       (Ok _, m) \<Rightarrow> (build_reply_with_status sm ctx Success, m)
                     | (Err e, m) \<Rightarrow> (Err e, m)
                     | (Panic, m) \<Rightarrow> (Panic, m))
           | None \<Rightarrow> (build_reply_with_status sm ctx Success, m))
      | Err e \<Rightarrow> (Err e, m)
      | Panic \<Rightarrow> (Panic, m))"

text \<open>The declined flag is set on a copy of the lease, which is then dropped.\<close>

definition handle_decline6 :: "dhcp6_machine \<Rightarrow> request_context \<Rightarrow> dhcp6_message \<Rightarrow> 'l lease_manager
    \<Rightarrow> (dhcp6_message, dhcp_error) outcome \<times> 'l lease_manager" where
  "handle_decline6 sm ctx msg m =
     (case rbind (check_server_id sm ''Server ID mismatch'' ''No SERVER_ID in DECLINE'' msg) (\<lambda>_. ia_na_address ''No IA_NA in DECLINE'' msg) of
        Ok address \<Rightarrow>
          (case repo_find_by_ip address (lm_repo m) of
             Some l \<Rightarrow>
               if ls_client_id l \<noteq> Some (rc_clid ctx) then (build_reply_with_status sm ctx NoBinding, m)
               else let dropped_copy = l\<lparr>ls_flags := ls_flags l OR LF_DECLINED\<rparr> in (build_reply_with_status sm ctx Success, m)
           | None \<Rightarrow> (build_reply_with_status sm ctx Success, m))
      | Err e \<Rightarrow> (Err e, m)
      | Panic \<Rightarrow> (Panic, m))"

definition handle_confirm6 :: "dhcp6_machine \<Rightarrow> request_context \<Rightarrow> dhcp6_message \<Rightarrow> (dhcp6_message, dhcp_error) outcome" where
  "handle_confirm6 sm ctx msg =
     rbind (ia_na_address ''No IA_NA in CONFIRM'' msg) (\<lambda>address.
       let is_on_link = (case rc_context ctx of Some context \<Rightarrow> is_address_in_pool address context | None \<Rightarrow> False) in
       build_reply_with_status sm ctx (if is_on_link then Success else NotOnLink))"

definition handle_information_request :: "dhcp6_machine \<Rightarrow> request_context \<Rightarrow> dhcp6_message \<Rightarrow> (dhcp6_message, dhcp_error) outcome" where
  "handle_information_request sm ctx msg = Ok (identified sm ctx MSG_REPLY)"

definition handle_advertise6 :: "request_context \<Rightarrow> dhcp6_message \<Rightarrow> (dhcp6_message, dhcp_error) outcome" where
  "handle_advertise6 ctx msg = Err (V6ProtocolError ''Server should not receive ADVERTISE messages'')"

definition handle_reply6 :: "request_context \<Rightarrow> dhcp6_message \<Rightarrow> (dhcp6_message, dhcp_error) outcome" where
  "handle_reply6 ctx msg = Err (V6ProtocolError ''Server should not receive REPLY messages'')"

definition unicast_allowed_for_client :: "request_context \<Rightarrow> bool" where
  "unicast_allowed_for_client ctx = False"

definition generate_status_code :: "request_context \<Rightarrow> ip_addr option \<Rightarrow> bool \<Rightarrow> status_code" where
  "generate_status_code ctx requested unicast_request =
     (if unicast_request \<and> \<not> unicast_allowed_for_client ctx then UseMulticast
      else case rc_context ctx of
          None \<Rightarrow> NoAddrsAvail
        | Some context \<Rightarrow>
            (case requested of
               Some address \<Rightarrow> if \<not> is_address_in_pool address context then NotOnLink else Success
             | None \<Rightarrow> Success))"

definition validate_duid :: "bytes \<Rightarrow> (unit, dhcp_error) outcome" where
  "validate_duid duid =
     (if length duid < 2 then Err (V6ProtocolError ''DUID too short'')
      else if 128 < length duid then Err (V6ProtocolError ''DUID too long'')
      else let duid_type = be16 (duid ! 0) (duid ! 1) in
        if duid_type = 1 then if length duid < 8 then Err (V6ProtocolError ''DUID-LLT too short'') else Ok ()
        else if duid_type = 2 then if length duid < 6 then Err (V6ProtocolError ''DUID-EN too short'') else Ok ()
        else if duid_type = 3 then if length duid < 4 then Err (V6ProtocolError ''DUID-LL too short'') else Ok ()
        else Err (V6ProtocolError ''Invalid DUID type''))"

fun encode_dns_labels :: "bytes list \<Rightarrow> bytes \<Rightarrow> (bytes, dhcp_error) outcome" where
  "encode_dns_labels [] output = Ok (output @ [0])"
| "encode_dns_labels (l # ls) output =
     (if l = [] then encode_dns_labels ls output
      else if 63 < length l then Err (V6ProtocolError ''DNS label too long'')
      else encode_dns_labels ls (output @ of_nat (length l) # l))"

definition encode_dns_name :: "bytes \<Rightarrow> bytes \<Rightarrow> (bytes, dhcp_error) outcome" where
  "encode_dns_name domain output =
     (if domain = [] then Ok (output @ [0]) else encode_dns_labels (split_on dot domain) output)"

subsection \<open>The search\<close>

lemma find_address_Some:
  "find_address_loop m start stop addr = Some a \<Longrightarrow> addr \<le> sat_add start 10000 \<Longrightarrow>
   addr \<le> a \<and> a \<le> stop \<and> a \<le> sat_add start 10000 \<and> \<not> leased6 m (u128_ipv6 a) \<and>
   (\<forall>b. addr \<le> b \<and> b < a \<longrightarrow> leased6 m (u128_ipv6 b))"
proof (induction m start stop addr rule: find_address_loop.induct)
  case (1 m start stop addr)
  show ?case
  proof (cases "stop < addr \<or> \<not> leased6 m (u128_ipv6 addr) \<or> sat_add start 10000 \<le> addr")
    case True
    with 1(2,3) show ?thesis by (auto simp: find_address_loop.simps[of _ _ _ addr] split: if_splits)
  next
    case False
    then have u: "unat (addr + 1) = Suc (unat addr)" by (intro below_max_inc[of "sat_add start 10000"]) simp
    then have le: "addr + 1 \<le> b \<longleftrightarrow> addr < b" for b by (simp add: word_le_nat_alt word_less_nat_alt Suc_le_eq)
    from False 1(2) have "find_address_loop m start stop (addr + 1) = Some a"
      by (simp add: find_address_loop.simps[of _ _ _ addr])
    moreover have "addr + 1 \<le> sat_add start 10000" "\<not> stop < addr" "\<not> \<not> leased6 m (u128_ipv6 addr)" "\<not> sat_add start 10000 \<le> addr"
      using False by (simp_all add: le not_le)
    ultimately have ih: "addr < a" "a \<le> stop" "a \<le> sat_add start 10000" "\<not> leased6 m (u128_ipv6 a)"
      "\<And>b. addr < b \<Longrightarrow> b < a \<Longrightarrow> leased6 m (u128_ipv6 b)" using 1(1) unfolding le by blast+
    moreover have "leased6 m (u128_ipv6 b)" if "addr \<le> b" "b < a" for b
      using that False ih(5)[of b] by (cases "b = addr") auto
    ultimately show ?thesis by auto
  qed
qed

lemma find_address_None:
  "find_address_loop m start stop addr = None \<Longrightarrow> addr \<le> b \<Longrightarrow> b \<le> stop \<Longrightarrow> b \<le> sat_add start 10000 \<Longrightarrow>
   leased6 m (u128_ipv6 b)"
proof (induction m start stop addr rule: find_address_loop.induct)
  case (1 m start stop addr)
  show ?case
  proof (cases "b = addr")
    case True
    with 1(2,4) show ?thesis by (auto simp: find_address_loop.simps[of _ _ _ addr] split: if_splits)
  next
    case False
    with 1(3-5) have b: "addr < b" "\<not> stop < addr" "\<not> sat_add start 10000 \<le> addr" by auto
    with 1(2) have l: "leased6 m (u128_ipv6 addr)" "find_address_loop m start stop (addr + 1) = None"
      by (auto simp: find_address_loop.simps[of _ _ _ addr] split: if_splits)
    have "unat (addr + 1) = Suc (unat addr)" using b by (intro below_max_inc[of b]) simp
    then have "addr + 1 \<le> b" using b(1) by (simp add: word_le_nat_alt word_less_nat_alt)
    with 1(1) b l 1(4,5) show ?thesis by auto
  qed
qed

lemma sat_add_le: "a \<le> sat_add a b"
  by (auto simp: sat_add_def)

subsection \<open>Reading what was written\<close>

lemma parse_iaaddr_bytes [simp]:
  "length a = 16 \<Longrightarrow> parse_iaaddr_from_options (iaaddr_bytes (V6 a) t) = Ok (V6 a)"
  by (simp add: iaaddr_bytes_def put_u16_def be16_def)

lemma parse_iaaddr_encode:
  "length a = 16 \<Longrightarrow> length ds < 65520 \<Longrightarrow> parse_iaaddr_from_options (encode_option6 OPTION_IAADDR (a @ ds) @ r) = Ok (V6 a)"
  using be16_put[of "of_nat (16 + length ds)"] be16_put[of OPTION_IAADDR] unat_of_nat_u16[of "16 + length ds"]
  by (simp add: encode_option6_def put_u16_def Let_def)

lemma parse_iaaddr_skip:
  "code \<noteq> OPTION_IAADDR \<Longrightarrow> length ds < 65536 \<Longrightarrow>
   parse_iaaddr_from_options (encode_option6 code ds @ r) = parse_iaaddr_from_options r"
  using be16_put[of "of_nat (length ds)"] be16_put[of code]
  by (simp add: encode_option6_def put_u16_def unat_of_nat_u16 Let_def)

lemma parse_iaaddr_not_Panic [simp]: "parse_iaaddr_from_options bs \<noteq> Panic"
  by (induction bs rule: parse_iaaddr_from_options.induct) (auto simp: Let_def)

lemma parse_iaaddr_V6: "parse_iaaddr_from_options bs = Ok ip \<Longrightarrow> \<exists>a. ip = V6 a \<and> length a = 16"
  by (induction bs rule: parse_iaaddr_from_options.induct) (auto simp: Let_def split: if_splits)

subsection \<open>What a handler does to the leases\<close>

lemmas reply_defs = build_reply_with_status_def build_reply_with_address_def

lemma reply_Ok: "\<exists>r. build_reply_with_address now sm ctx l st = Ok r" "\<exists>r. build_reply_with_status sm ctx st = Ok r"
  by (simp_all add: reply_defs Let_def)

lemma renewed_renew:
  "repo_find_by_ip ip (lm_repo m) = Some l \<Longrightarrow> renewed E sm ctx (renew_lease E ip d m) =
   (build_reply_with_address (sys_later E) sm ctx (l\<lparr>ls_expires := sys_now E + d\<rparr>) Success, snd (renew_lease E ip d m))"
  by (simp add: renewed_def renew_lease_def change_parts case_prod_unfold)

lemma renewed_allocate:
  "renewed E sm ctx (allocate_lease E ip mac h cid ifc d m) =
   (build_reply_with_address (sys_later E) sm ctx (lease_new (sys_now E) ip mac h cid ifc d) Success, snd (allocate_lease E ip mac h cid ifc d m))"
  by (simp add: renewed_def allocate_parts case_prod_unfold)

lemma request6_eq:
  "handle_request6 E sm ctx msg m =
   (case requested_address sm ctx msg of
      Ok address \<Rightarrow> renewed E sm ctx (allocate_lease E address None (rc_hostname ctx) (Some (rc_clid ctx)) (rc_interface ctx) (v6_lease_time sm) m)
    | Err e \<Rightarrow> (Err e, m) | Panic \<Rightarrow> (Panic, m))"
  unfolding handle_request6_def renewed_def ..

text \<open>The handlers reach the lease manager only through these calls.\<close>

inductive lease_call :: "'l manager_env \<Rightarrow> request_context \<Rightarrow> ip_addr \<Rightarrow> 'l lease_manager \<Rightarrow> 'l lease_manager \<Rightarrow> bool"
  for E ctx ip m where
  kept: "lease_call E ctx ip m m"
| taken: "repo_find_by_ip ip (lm_repo m) = None \<Longrightarrow>
    lease_call E ctx ip m (snd (allocate_lease E ip None (rc_hostname ctx) (Some (rc_clid ctx)) (rc_interface ctx) d m))"
| extended: "repo_find_by_ip ip (lm_repo m) = Some l \<Longrightarrow> ls_client_id l = Some (rc_clid ctx) \<Longrightarrow>
    lease_call E ctx ip m (snd (renew_lease E ip d m))"
| given_back: "repo_find_by_ip ip (lm_repo m) = Some l \<Longrightarrow> ls_client_id l = Some (rc_clid ctx) \<Longrightarrow>
    lease_call E ctx ip m (snd (release_lease E ip m))"

lemma release_ok_case:
  "repo_find_by_ip ip (lm_repo m) = Some l \<Longrightarrow>
   (case release_lease E ip m of (Ok _, m) \<Rightarrow> (x, m) | (Err e, m) \<Rightarrow> (Err e, m) | (Panic, m) \<Rightarrow> (Panic, m)) = (x, snd (release_lease E ip m))"
  using release_parts(1)[of ip m l E] by (cases "release_lease E ip m") simp

lemma renew6_call: "\<exists>ip. lease_call E ctx ip m (snd (handle_renew6 E sm ctx msg m))"
  by (auto simp: handle_renew6_def renewed_renew intro: lease_call.kept lease_call.extended split: outcome.split option.split)

lemma rebind6_call: "\<exists>ip. lease_call E ctx ip m (snd (handle_rebind6 E sm ctx msg m))"
  by (auto simp: handle_rebind6_def renewed_renew renewed_allocate intro: lease_call.intros split: outcome.split option.split)

lemma release6_call: "\<exists>ip. lease_call E ctx ip m (snd (handle_release6 E sm ctx msg m))"
  by (auto simp: handle_release6_def release_ok_case intro: lease_call.intros split: outcome.split option.split)

lemma decline6_same: "snd (handle_decline6 sm ctx msg m) = m"
  by (simp add: handle_decline6_def split: outcome.split option.split)

lemma call_keeps_others:
  assumes "lease_call E ctx ip m m'" "repo_inv (lm_repo m)"
    and "repo_find_by_ip ip' (lm_repo m) = Some l" "ls_client_id l \<noteq> Some (rc_clid ctx)"
  shows "repo_find_by_ip ip' (lm_repo m') = Some l"
  using assms
proof (cases rule: lease_call.cases)
  case (extended l' d)
  moreover have "ls_ip l' = ip" using assms(2) extended(2) by (rule mem.find_keyed)
  ultimately show ?thesis using assms by (auto simp: renew_lease_def change_parts mem.find_insert)
next
  case (given_back l')
  then have "ip' \<noteq> ip" using assms by auto
  then show ?thesis using given_back assms mem.find_remove[of "lm_repo m" ip' ip] by (simp add: release_parts)
qed (auto simp: allocate_parts mem.find_insert lease_new_def)

subsection \<open>What a reply says\<close>

text \<open>A reply of the server: its type, the transaction of the request, and both identifiers.\<close>

definition echoes :: "dhcp6_machine \<Rightarrow> request_context \<Rightarrow> dhcp6_message \<Rightarrow> bool" where
  "echoes sm ctx reply \<longleftrightarrow> m6_xid reply = rc_xid ctx \<and> get_option6 OPTION_SERVER_ID reply = Some (server_duid sm) \<and>
     get_option6 OPTION_CLIENT_ID reply = Some (rc_clid ctx) \<and> distinct (map fst (m6_options reply))"

lemma echoes_identified: "echoes sm ctx (identified sm ctx t)"
  by (simp add: echoes_def identified_def keys_add_option6) (simp add: add_option6_def message6_new_def get_option6_def distinct_update update_conv')

lemma echoes_add: "echoes sm ctx r \<Longrightarrow> c \<noteq> OPTION_SERVER_ID \<Longrightarrow> c \<noteq> OPTION_CLIENT_ID \<Longrightarrow> echoes sm ctx (add_option6 c d r)"
  by (auto simp: echoes_def keys_add_option6) (simp add: add_option6_def)

lemma type_add [simp]: "m6_type (add_option6 c d r) = m6_type r" "m6_type (identified sm ctx t) = t"
  by (simp_all add: add_option6_def identified_def message6_new_def)

lemma reply_status_echoes:
  "build_reply_with_status sm ctx st = Ok r \<Longrightarrow> echoes sm ctx r \<and> m6_type r = MSG_REPLY"
  by (auto simp: build_reply_with_status_def intro!: echoes_add echoes_identified)

lemma reply_address_echoes:
  "build_reply_with_address now sm ctx l st = Ok r \<Longrightarrow> echoes sm ctx r \<and> m6_type r = MSG_REPLY"
  by (auto simp: build_reply_with_address_def Let_def intro!: echoes_add echoes_identified)

lemma advertise_echoes: "advertise sm ctx cx a = Ok r \<Longrightarrow> echoes sm ctx r \<and> m6_type r = MSG_ADVERTISE"
  by (auto simp: advertise_def Let_def intro!: echoes_add echoes_identified split: if_splits)

lemma renewed_echoes:
  "renewed E sm ctx res = (Ok r, m') \<Longrightarrow> echoes sm ctx r \<and> m6_type r = MSG_REPLY"
  using reply_address_echoes by (auto simp: renewed_def split: prod.splits outcome.splits)

lemma request6_echoes: "handle_request6 E sm ctx msg m = (Ok r, m') \<Longrightarrow> echoes sm ctx r \<and> m6_type r = MSG_REPLY"
  by (auto simp: request6_eq dest: renewed_echoes split: outcome.splits)

subsection \<open>Where a request ends\<close>

lemma requested_address_pool:
  "requested_address sm ctx msg = Ok address \<Longrightarrow> \<exists>cx. rc_context ctx = Some cx \<and> address = cx_start6 cx"
  by (auto simp: requested_address_def validate_address_in_pool_def is_address_in_pool_def rust_simps split: if_splits)

lemma requested_address_not_Panic [simp]: "requested_address sm ctx msg \<noteq> Panic"
  by (auto simp: requested_address_def check_server_id_def validate_address_in_pool_def rust_simps split: option.splits if_splits)

lemma requested_address_eq:
  assumes "get_option6 OPTION_SERVER_ID msg = Some (server_duid sm)" "get_option6 OPTION_IA_NA msg = Some ia"
    and "12 \<le> length ia" "parse_iaaddr_from_options (drop 12 ia) = Ok address" "rc_context ctx = Some cx"
  shows "requested_address sm ctx msg = (if address = cx_start6 cx then Ok address else Err (V6ProtocolError ''Address not in pool''))"
  using assms by (simp add: requested_address_def check_server_id_def validate_address_in_pool_def is_address_in_pool_def)

lemma request6_granted:
  assumes "requested_address sm ctx msg = Ok address" "repo_inv (lm_repo m)"
  shows "\<exists>reply m'. handle_request6 E sm ctx msg m = (Ok reply, m') \<and>
    (\<forall>ip. repo_find_by_ip ip (lm_repo m') = (if ip = address
       then Some (lease_new (sys_now E) address None (rc_hostname ctx) (Some (rc_clid ctx)) (rc_interface ctx) (v6_lease_time sm))
       else repo_find_by_ip ip (lm_repo m)))"
  using assms reply_Ok(1)[of "sys_later E" sm ctx]
  by (fastforce simp: request6_eq renewed_allocate allocate_parts mem.find_insert lease_new_def)

lemma request6_refused:
  "requested_address sm ctx msg = Err e \<Longrightarrow> handle_request6 E sm ctx msg m = (Err e, m)"
  by (simp add: request6_eq)

subsection \<open>An example\<close>

definition example_addr6 :: "u8 \<Rightarrow> bytes" where
  "example_addr6 x = [0x20, 1, 0x0D, 0xB8, 0, 0, 0, 0, 0, 0, 0, 0, 0, 0, 0, x]"

definition example_machine :: dhcp6_machine where
  "example_machine = \<lparr>v6_lease_time = secs 3600, server_duid = [0, 3, 0, 1]\<rparr>"

definition example_context6 :: dhcp6_context where
  "example_context6 = \<lparr>cx_start6 = V6 (example_addr6 1), cx_end6 = V6 (example_addr6 9), cx_flags6 = 0, cx_if_index = 0,
     cx_lease_time6 = 0, cx_prefix_len = 0\<rparr>"

definition example_request6 :: "bytes \<Rightarrow> request_context" where
  "example_request6 clid = (request_context_new clid [1, 2, 3] [] 7 OPTION_IA_NA False)\<lparr>rc_context := Some example_context6\<rparr>"

definition example_message6 :: "u8 \<Rightarrow> bytes \<Rightarrow> dhcp6_message" where
  "example_message6 t ia = \<lparr>m6_type = t, m6_xid = [1, 2, 3], m6_options = [(OPTION_SERVER_ID, [0, 3, 0, 1]), (OPTION_IA_NA, ia)]\<rparr>"

definition example_ia :: "u8 \<Rightarrow> bytes" where
  "example_ia x = put_u32 7 @ put_u32 0 @ put_u32 0 @ iaaddr_bytes (V6 (example_addr6 x)) 0"

lemma example6_simps [simp]:
  "length (example_addr6 x) = 16" "length (example_ia x) = 40" "drop 12 (example_ia x) = iaaddr_bytes (V6 (example_addr6 x)) 0"
  "cx_start6 example_context6 = V6 (example_addr6 1)" "cx_end6 example_context6 = V6 (example_addr6 9)" "cx_prefix_len example_context6 = 0"
  "rc_context (example_request6 c) = Some example_context6" "rc_clid (example_request6 c) = c" "rc_ia_type (example_request6 c) = OPTION_IA_NA"
  "get_option6 OPTION_SERVER_ID (example_message6 t ia) = Some (server_duid example_machine)"
  "get_option6 OPTION_IA_NA (example_message6 t ia) = Some ia" "get_option6 OPTION_RAPID_COMMIT (example_message6 t ia) = None"
  by (simp_all add: example_addr6_def example_ia_def example_context6_def example_request6_def request_context_new_def
      example_message6_def get_option6_def example_machine_def iaaddr_bytes_def)

subsection \<open>Properties\<close>

text \<open>
  Soliciting and requesting.  A client without rapid commit is offered the lowest free address of the
  pool, or of its first 10001 addresses; nothing is leased by that.  Its request for the offered
  address is granted, and stored as a lease of that client, exactly when the address is the first of the pool;
  any other offer is refused when requested.
\<close>

theorem solicit_then_request:
  assumes "rc_context ctx = Some cx" "cx_prefix_len cx = 0" "rc_ia_type ctx = OPTION_IA_NA" "cx_start6 cx = V6 s" "cx_end6 cx = V6 e"
    and "length s = 16" "repo_inv (lm_repo m)" "get_option6 OPTION_RAPID_COMMIT msg = None"
    and "handle_solicit6 E sm ctx msg m = (Ok adv, m')"
    and "get_option6 OPTION_SERVER_ID req = Some (server_duid sm)" "get_option6 OPTION_IA_NA req = get_option6 OPTION_IA_NA adv"
  shows "\<exists>a. m' = m \<and> \<not> leased6 m (u128_ipv6 a) \<and> ipv6_u128 s \<le> a \<and> a \<le> ipv6_u128 e \<and>
    (\<forall>b. ipv6_u128 s \<le> b \<and> b < a \<longrightarrow> leased6 m (u128_ipv6 b)) \<and>
    (a = ipv6_u128 s \<longrightarrow> (\<exists>reply m''. handle_request6 E sm ctx req m = (Ok reply, m'') \<and>
       (\<exists>l. repo_find_by_ip (V6 s) (lm_repo m'') = Some l \<and> ls_client_id l = Some (rc_clid ctx)))) \<and>
    (a \<noteq> ipv6_u128 s \<longrightarrow> handle_request6 E sm ctx req m = (Err (V6ProtocolError ''Address not in pool''), m))"
proof -
  obtain a where a: "find_address_loop m (ipv6_u128 s) (ipv6_u128 e) (ipv6_u128 s) = Some a" "m' = m"
      "advertise sm ctx cx (V6 (u128_ipv6 a)) = Ok adv"
    using assms by (auto simp: handle_solicit6_def find_available_address_def split: option.splits)
  have ia: "get_option6 OPTION_IA_NA req = Some (put_u32 (rc_iaid ctx) @ put_u32 (of_nat (v6_lease_time sm div secs 1)) @
      put_u32 (of_nat (v6_lease_time sm div secs 1)) @ iaaddr_bytes (V6 (u128_ipv6 a)) (of_nat (v6_lease_time sm div secs 1)))" (is "_ = Some ?ia")
    using a(3) assms(3,11) by (auto simp: advertise_def Let_def)
  have "drop 12 ?ia = iaaddr_bytes (V6 (u128_ipv6 a)) (of_nat (v6_lease_time sm div secs 1))" by simp
  then have "requested_address sm ctx req =
      (if V6 (u128_ipv6 a) = cx_start6 cx then Ok (V6 (u128_ipv6 a)) else Err (V6ProtocolError ''Address not in pool''))"
    by (intro requested_address_eq[OF assms(10) ia _ _ assms(1)]) simp_all
  moreover have "u128_ipv6 a = s \<longleftrightarrow> a = ipv6_u128 s" using assms(6) by (metis ipv6_u128_of u128_ipv6_inverse)
  ultimately have ra: "requested_address sm ctx req = (if a = ipv6_u128 s then Ok (V6 s) else Err (V6ProtocolError ''Address not in pool''))"
    using assms(4,6) by simp
  have "a = ipv6_u128 s \<Longrightarrow> \<exists>reply m''. handle_request6 E sm ctx req m = (Ok reply, m'') \<and>
       (\<exists>l. repo_find_by_ip (V6 s) (lm_repo m'') = Some l \<and> ls_client_id l = Some (rc_clid ctx))"
    using request6_granted[of sm ctx req "V6 s" m E] assms(7) ra by (fastforce simp: lease_new_def)
  moreover have "a \<noteq> ipv6_u128 s \<Longrightarrow> handle_request6 E sm ctx req m = (Err (V6ProtocolError ''Address not in pool''), m)"
    using ra by (simp add: request6_refused)
  ultimately show ?thesis using find_address_Some[OF a(1) sat_add_le] a(2) by blast
qed

theorem solicit_then_request_witness:
  "\<exists>reply. fst (handle_request6 (example_env 5) example_machine (example_request6 [1]) (example_message6 MSG_REQUEST
     (put_u32 7 @ put_u32 3600 @ put_u32 3600 @ iaaddr_bytes (V6 (example_addr6 1)) 3600)) example_manager) = Ok reply"
proof -
  let ?ia = "put_u32 7 @ put_u32 3600 @ put_u32 3600 @ iaaddr_bytes (V6 (example_addr6 1)) 3600"
  let ?cx = example_context6 and ?ctx = "example_request6 [1]" and ?s = "ipv6_u128 (example_addr6 1)"
  have none: "\<not> leased6 example_manager a" for a by (simp add: leased6_def example_manager_def manager_new_def repo_find_by_ip_def repo_new_def)
  have "\<not> ipv6_u128 (example_addr6 9) < ?s" by (simp add: ipv6_u128_def example_addr6_def)
  then have "find_available_address ?cx example_manager = Ok (V6 (example_addr6 1))"
    by (simp add: find_available_address_def find_address_loop.simps[of _ _ _ ?s] none)
  then have "\<exists>adv. handle_solicit6 (example_env 5) example_machine ?ctx (example_message6 MSG_SOLICIT []) example_manager = (Ok adv, example_manager) \<and>
      get_option6 OPTION_IA_NA adv = Some ?ia"
    by (simp add: handle_solicit6_def advertise_def Let_def example_machine_def secs_def)
      (simp add: example_request6_def request_context_new_def)
  then obtain adv where adv: "handle_solicit6 (example_env 5) example_machine ?ctx (example_message6 MSG_SOLICIT []) example_manager = (Ok adv, example_manager)"
      "get_option6 OPTION_IA_NA (example_message6 MSG_REQUEST ?ia) = get_option6 OPTION_IA_NA adv" by auto
  have "repo_inv (lm_repo example_manager)" by (simp add: example_manager_def manager_new_def)
  from solicit_then_request[OF _ _ _ _ _ _ this _ adv(1) _ adv(2), where cx = ?cx and s = "example_addr6 1" and e = "example_addr6 9"] obtain a where
    "\<forall>b. ?s \<le> b \<and> b < a \<longrightarrow> leased6 example_manager (u128_ipv6 b)" "?s \<le> a"
    "a = ?s \<longrightarrow> (\<exists>reply m''. handle_request6 (example_env 5) example_machine ?ctx (example_message6 MSG_REQUEST ?ia) example_manager = (Ok reply, m''))"
    by auto
  then show ?thesis using none by (metis fst_conv order_le_less order_refl)
qed

text \<open>
  C19: renewing, rebinding, releasing and declining never touch a lease of another client: whatever the
  message says, the lease stays as it is.
\<close>

theorem other_client_untouched6:
  assumes "repo_inv (lm_repo m)" "repo_find_by_ip ip (lm_repo m) = Some l" "ls_client_id l \<noteq> Some (rc_clid ctx)"
    and "m' \<in> {snd (handle_renew6 E sm ctx msg m), snd (handle_rebind6 E sm ctx msg m), snd (handle_release6 E sm ctx msg m),
      snd (handle_decline6 sm ctx msg m)}"
  shows "repo_find_by_ip ip (lm_repo m') = Some l"
proof -
  have "lease_call E ctx ip m (snd (handle_decline6 sm ctx msg m))" by (simp add: decline6_same lease_call.kept)
  then obtain ip' where "lease_call E ctx ip' m m'"
    using assms(4) renew6_call[of E ctx m sm msg] rebind6_call[of E ctx m sm msg] release6_call[of E ctx m sm msg] by blast
  then show ?thesis using call_keeps_others assms(1-3) by blast
qed

lemma example_held6:
  "repo_inv (lm_repo (snd (allocate_lease (example_env 5) (V6 (example_addr6 1)) None None (Some [2]) [] 60 example_manager)))"
  "repo_find_by_ip (V6 (example_addr6 1)) (lm_repo (snd (allocate_lease (example_env 5) (V6 (example_addr6 1)) None None (Some [2]) [] 60 example_manager))) =
     Some (lease_new 5 (V6 (example_addr6 1)) None None (Some [2]) [] 60)"
proof -
  have "repo_inv (lm_repo example_manager)" by (simp add: example_manager_def manager_new_def)
  then show "repo_inv (lm_repo (snd (allocate_lease (example_env 5) (V6 (example_addr6 1)) None None (Some [2]) [] 60 example_manager)))"
    "repo_find_by_ip (V6 (example_addr6 1)) (lm_repo (snd (allocate_lease (example_env 5) (V6 (example_addr6 1)) None None (Some [2]) [] 60 example_manager))) =
     Some (lease_new 5 (V6 (example_addr6 1)) None None (Some [2]) [] 60)"
    by (simp_all add: allocate_parts mem.inv_insert mem.find_insert lease_new_def example_env_def)
qed

theorem other_client_untouched6_witness:
  "repo_find_by_ip (V6 (example_addr6 1)) (lm_repo (snd (handle_release6 (example_env 6) example_machine (example_request6 [1])
     (example_message6 MSG_RELEASE (example_ia 1))
     (snd (allocate_lease (example_env 5) (V6 (example_addr6 1)) None None (Some [2]) [] 60 example_manager))))) =
   Some (lease_new 5 (V6 (example_addr6 1)) None None (Some [2]) [] 60)"
  by (rule other_client_untouched6[OF example_held6, where E = "example_env 6" and sm = example_machine and
        ctx = "example_request6 [1]" and msg = "example_message6 MSG_RELEASE (example_ia 1)"])
    (simp_all add: lease_new_def)

text \<open>
  A request does take a lease over: one for the first address of the pool is granted although another client
  holds it, and that client's lease is replaced.
\<close>

theorem request_takes_over:
  assumes "repo_inv (lm_repo m)" "repo_find_by_ip (cx_start6 cx) (lm_repo m) = Some l" "ls_client_id l \<noteq> Some (rc_clid ctx)"
    and "rc_context ctx = Some cx" "get_option6 OPTION_SERVER_ID msg = Some (server_duid sm)" "get_option6 OPTION_IA_NA msg = Some ia"
    and "12 \<le> length ia" "parse_iaaddr_from_options (drop 12 ia) = Ok (cx_start6 cx)"
  shows "\<exists>reply m' l'. handle_request6 E sm ctx msg m = (Ok reply, m') \<and> repo_find_by_ip (cx_start6 cx) (lm_repo m') = Some l' \<and>
    ls_client_id l' = Some (rc_clid ctx)"
  using request6_granted[OF _ assms(1), of sm ctx msg "cx_start6 cx" E] requested_address_eq[OF assms(5-8,4)]
  by (fastforce simp: lease_new_def)

theorem request_takes_over_witness:
  "\<exists>reply m' l'. handle_request6 (example_env 6) example_machine (example_request6 [1]) (example_message6 MSG_REQUEST (example_ia 1))
     (snd (allocate_lease (example_env 5) (V6 (example_addr6 1)) None None (Some [2]) [] 60 example_manager)) = (Ok reply, m') \<and>
     repo_find_by_ip (V6 (example_addr6 1)) (lm_repo m') = Some l' \<and> ls_client_id l' = Some [1]"
  using request_takes_over[OF example_held6(1), of example_context6 _ "example_request6 [1]" "example_message6 MSG_REQUEST (example_ia 1)"
      example_machine "example_ia 1" "example_env 6"] example_held6(2)
  by (simp add: lease_new_def)

text \<open>
  An identity association shorter than its header stops the server: the four handlers slice it without
  a check, before anything else is looked at but the server identifier.  A request is refused instead.
\<close>

theorem short_ia_panics:
  assumes "get_option6 OPTION_SERVER_ID msg = Some (server_duid sm)" "get_option6 OPTION_IA_NA msg = Some ia" "length ia < 12"
  shows "handle_renew6 E sm ctx msg m = (Panic, m) \<and> handle_rebind6 E sm ctx msg m = (Panic, m) \<and>
    handle_release6 E sm ctx msg m = (Panic, m) \<and> handle_decline6 sm ctx msg m = (Panic, m) \<and>
    handle_request6 E sm ctx msg m = (Err (V6ProtocolError ''Malformed IA_NA option''), m)"
  using assms
  by (simp add: handle_renew6_def handle_rebind6_def handle_release6_def handle_decline6_def handle_request6_def
      requested_address_def check_server_id_def ia_na_address_def)

theorem short_ia_panics_witness:
  "fst (handle_renew6 (example_env 0) example_machine (example_request6 [1]) (example_message6 MSG_RENEW []) example_manager) = Panic"
  using short_ia_panics[of "example_message6 MSG_RENEW []" example_machine "[]" "example_env 0" "example_request6 [1]" example_manager] by simp

text \<open>
  Every reply a handler gives carries the transaction id of the request, the server's identifier and the
  client's, each once; a solicitation is advertised unless rapid commit is asked, everything else is replied to.
\<close>

theorem replies6_echo:
  assumes "(Ok reply, m') \<in> {handle_solicit6 E sm ctx msg m, handle_request6 E sm ctx msg m, handle_renew6 E sm ctx msg m,
    handle_rebind6 E sm ctx msg m, handle_release6 E sm ctx msg m, handle_decline6 sm ctx msg m,
    (handle_confirm6 sm ctx msg, m), (handle_information_request sm ctx msg, m)}"
  shows "echoes sm ctx reply \<and> (m6_type reply = MSG_REPLY \<or>
    m6_type reply = MSG_ADVERTISE \<and> handle_solicit6 E sm ctx msg m = (Ok reply, m') \<and> get_option6 OPTION_RAPID_COMMIT msg = None)"
proof -
  note reply = reply_status_echoes renewed_echoes request6_echoes
  have "handle_solicit6 E sm ctx msg m = (Ok reply, m') \<Longrightarrow> ?thesis"
    using request6_echoes[of E sm ctx msg m reply m'] advertise_echoes[of sm ctx _ _ reply]
    by (auto simp: handle_solicit6_def split: option.splits outcome.splits if_splits)
  moreover have "handle_renew6 E sm ctx msg m = (Ok reply, m') \<Longrightarrow> ?thesis"
    by (auto simp: handle_renew6_def dest: reply split: option.splits outcome.splits if_splits)
  moreover have "handle_rebind6 E sm ctx msg m = (Ok reply, m') \<Longrightarrow> ?thesis"
    by (auto simp: handle_rebind6_def dest: reply split: option.splits outcome.splits if_splits)
  moreover have "handle_release6 E sm ctx msg m = (Ok reply, m') \<Longrightarrow> ?thesis"
    by (auto simp: handle_release6_def dest: reply split: option.splits outcome.splits if_splits prod.splits)
  moreover have "handle_decline6 sm ctx msg m = (Ok reply, m') \<Longrightarrow> ?thesis"
    by (auto simp: handle_decline6_def dest: reply split: option.splits outcome.splits if_splits)
  moreover have "handle_confirm6 sm ctx msg = Ok reply \<Longrightarrow> ?thesis"
    by (auto simp: handle_confirm6_def rust_simps Let_def dest: reply)
  moreover have "handle_information_request sm ctx msg = Ok reply \<Longrightarrow> ?thesis"
    by (auto simp: handle_information_request_def echoes_identified)
  ultimately show ?thesis using assms request6_echoes[of E sm ctx msg m reply m'] by auto
qed

theorem replies6_echo_witness:
  "\<exists>reply. handle_information_request example_machine (example_request6 [1]) (example_message6 MSG_INFORMATION_REQUEST []) = Ok reply \<and>
     echoes example_machine (example_request6 [1]) reply"
proof -
  let ?r = "identified example_machine (example_request6 [1]) MSG_REPLY"
  have "handle_information_request example_machine (example_request6 [1]) (example_message6 MSG_INFORMATION_REQUEST []) = Ok ?r"
    by (simp add: handle_information_request_def)
  with replies6_echo[of ?r example_manager "example_env 0" example_machine "example_request6 [1]" "example_message6 MSG_INFORMATION_REQUEST []" example_manager]
  show ?thesis by simp
qed

end
