(* ===== verification/Dhcp6_Service.thy ===== *)
theory Dhcp6_Service
  imports Dhcp6_Protocol Dhcp4_Protocol
begin

text \<open>
  The DHCPv6 server, \<open>src/dhcp/v6/server.rs\<close>: the index of the address pools, the handling of one datagram from
  parsing to the serialized answer, the event loop, and the allocation of an address or a delegated prefix.
  Interface indices, the order in which hash maps are iterated and the success of sending are arguments.
\<close>

type_synonym address_pools = "(bytes \<times> dhcp_range list) list"

definition interface_default :: bytes where "interface_default = ascii ''default''"
definition interface_eth0 :: bytes where "interface_eth0 = ascii ''eth0''"

definition generate_server_duid :: bytes where
  "generate_server_duid = [0x00, 0x03] @ [0x00, 0x01] @ [0x00, 0x11, 0x22, 0x33, 0x44, 0x55]"

definition index_step :: "dhcp_range \<Rightarrow> address_pools \<Rightarrow> address_pools" where
  "index_step rg pools =
     (if \<not> rg_is_ipv6 rg then pools
      else let interface = (case rg_interface rg of Some i \<Rightarrow> i | None \<Rightarrow> interface_default);
               entry = (case map_of pools interface of Some rgs \<Rightarrow> rgs | None \<Rightarrow> []) in
        AList.update interface (entry @ [rg]) pools)"

definition index_address_pools :: "dhcp_range list \<Rightarrow> address_pools" where
  "index_address_pools ranges = fold index_step ranges []"


text \<open>The carry runs from the last octet to the first; the list is the octets from the last one on.\<close>

fun increment_loop :: "bytes \<Rightarrow> bytes" where
  "increment_loop [] = []"
| "increment_loop (b # bs) = (if b = 255 then 0 # increment_loop bs else (b + 1) # bs)"

definition increment_ipv6_addr :: "bytes \<Rightarrow> bytes" where
  "increment_ipv6_addr octets = rev (increment_loop (rev octets))"

subsection \<open>One datagram\<close>

definition iaid_of :: "bytes \<Rightarrow> u32" where
  "iaid_of ia = (if 4 \<le> length ia then be32 (ia ! 0) (ia ! 1) (ia ! 2) (ia ! 3) else 0)"

definition identity_association :: "dhcp6_message \<Rightarrow> u32 \<times> u16" where
  "identity_association message =
     (case get_option6 OPTION_IA_NA message of
        Some ia_na \<Rightarrow> (iaid_of ia_na, OPTION_IA_NA)
      | None \<Rightarrow>
          (case get_option6 OPTION_IA_TA message of
             Some ia_ta \<Rightarrow> (iaid_of ia_ta, OPTION_IA_TA)
           | None \<Rightarrow>
               (case get_option6 OPTION_IA_PD message of
                  Some ia_pd \<Rightarrow> (iaid_of ia_pd, OPTION_IA_PD)
                | None \<Rightarrow> (0, OPTION_IA_NA))))"

definition multicast_peer :: "sock_addr \<Rightarrow> bool" where
  "multicast_peer peer =
     (case fst peer of
        V6 ip \<Rightarrow> ip ! 0 = 0xFF \<or> ip = [0xFF, 2, 0, 0, 0, 0, 0, 0, 0, 0, 0, 0, 0, 1, 0, 2]
      | V4 _ \<Rightarrow> False)"

definition CONTEXT_DHCP :: u32 where "CONTEXT_DHCP = push_bit 8 1"
definition CONTEXT_RA :: u32 where "CONTEXT_RA = push_bit 13 1"
definition CONTEXT_V6 :: u32 where "CONTEXT_V6 = push_bit 17 1"

definition context_of_range :: "(bytes \<Rightarrow> u32 option) \<Rightarrow> bytes \<Rightarrow> dhcp_range \<Rightarrow> dhcp6_context" where
  "context_of_range if_nametoindex interface rg =
     \<lparr>cx_start6 = rg_start rg, cx_end6 = rg_end rg,
      cx_flags6 = (let flags = CONTEXT_V6 OR CONTEXT_DHCP in if 0 < rg_prefix_len rg then flags OR CONTEXT_RA else flags),
      cx_if_index = (case if_nametoindex interface of Some i \<Rightarrow> i | None \<Rightarrow> 0),
      cx_lease_time6 = of_nat (case rg_lease_time rg of Some t \<Rightarrow> t | None \<Rightarrow> 86400), cx_prefix_len = rg_prefix_len rg\<rparr>"

definition packet_context :: "(bytes \<Rightarrow> u32 option) \<Rightarrow> address_pools \<Rightarrow> dhcp6_context option" where
  "packet_context if_nametoindex pools =
     (let interface = interface_eth0 in
      case (case map_of pools interface of Some rgs \<Rightarrow> Some rgs | None \<Rightarrow> map_of pools interface_default) of
        Some (rg # _) \<Rightarrow> Some (context_of_range if_nametoindex interface rg)
      | _ \<Rightarrow> None)"

record 'l server6 =
  sv_machine :: dhcp6_machine
  sv_pools :: address_pools
  sv_ifindex :: "bytes \<Rightarrow> u32 option"
  sv_iter :: "option6 list \<Rightarrow> option6 list"
  sv_env :: "'l manager_env"
  sv_send_ok :: bool

definition silent :: "(dhcp6_message, dhcp_error) outcome \<times> 'l lease_manager \<Rightarrow> (dhcp6_message option, dhcp_error) outcome \<times> 'l lease_manager" where
  "silent res = (case res of (Ok _, m) \<Rightarrow> (Ok None, m) | (Err e, m) \<Rightarrow> (Err e, m) | (Panic, m) \<Rightarrow> (Panic, m))"

definition answered :: "(dhcp6_message, dhcp_error) outcome \<times> 'l lease_manager \<Rightarrow> (dhcp6_message option, dhcp_error) outcome \<times> 'l lease_manager" where
  "answered res = (case res of (Ok r, m) \<Rightarrow> (Ok (Some r), m) | (Err e, m) \<Rightarrow> (Err e, m) | (Panic, m) \<Rightarrow> (Panic, m))"

definition dispatch6 :: "'l manager_env \<Rightarrow> dhcp6_machine \<Rightarrow> request_context \<Rightarrow> dhcp6_message \<Rightarrow> 'l lease_manager
    \<Rightarrow> (dhcp6_message option, dhcp_error) outcome \<times> 'l lease_manager" where
  "dispatch6 E sm ctx message m =
     (let t = m6_type message in
      if t = MSG_SOLICIT then answered (handle_solicit6 E sm ctx message m)
      else if t = MSG_REQUEST then answered (handle_request6 E sm ctx message m)
      else if t = MSG_RENEW then answered (handle_renew6 E sm ctx message m)
      else if t = MSG_REBIND then answered (handle_rebind6 E sm ctx message m)
      else if t = MSG_RELEASE then silent (handle_release6 E sm ctx message m)
      else if t = MSG_DECLINE then silent (handle_decline6 sm ctx message m)
      else if t = MSG_INFORMATION_REQUEST then answered (handle_information_request sm ctx message, m)
      else (Ok None, m))"

definition packet_request :: "'l server6 \<Rightarrow> bytes \<Rightarrow> dhcp6_message \<Rightarrow> sock_addr \<Rightarrow> request_context" where
  "packet_request sv client_id message peer =
     (case identity_association message of (iaid, ia_type) \<Rightarrow>
        (request_context_new client_id (m6_xid message) interface_eth0 iaid ia_type (multicast_peer peer))
          \<lparr>rc_context := packet_context (sv_ifindex sv) (sv_pools sv)\<rparr>)"

definition handle_packet6 :: "'l server6 \<Rightarrow> bytes \<Rightarrow> sock_addr \<Rightarrow> 'l lease_manager
    \<Rightarrow> (unit, dhcp_error) outcome \<times> (bytes \<times> sock_addr) option \<times> 'l lease_manager" where
  "handle_packet6 sv data peer m =
     (case message6_from_bytes data of
        Ok message \<Rightarrow>
          (case get_option6 OPTION_CLIENT_ID message of
             None \<Rightarrow> (Err (MissingOption OPTION_CLIENT_ID), None, m)
           | Some client_id \<Rightarrow>
               (case dispatch6 (sv_env sv) (sv_machine sv) (packet_request sv client_id message peer) message m of
                  (Ok None, m) \<Rightarrow> (Ok (), None, m)
                | (Ok (Some response), m) \<Rightarrow>
                    if sv_send_ok sv then (Ok (), Some (message6_to_bytes (sv_iter sv) response, peer), m)
                    else (Err (V6ProtocolError ''Failed to send DHCPv6 response''), None, m)
                | (Err e, m) \<Rightarrow> (Err e, None, m)
                | (Panic, m) \<Rightarrow> (Panic, None, m)))
      | Err _ \<Rightarrow> (Err (V6ProtocolError ''Failed to parse DHCPv6 message''), None, m)
      | Panic \<Rightarrow> (Panic, None, m))"

subsection \<open>The event loop\<close>

text \<open>
  The branches of the loop's \<open>select!\<close>, each with the state of its surroundings.  A datagram longer than the
  buffer is cut; a panic ends the process, a fatal socket error and a shutdown end the loop.
\<close>

abbreviation RECV_BUFFER_SIZE :: nat where "RECV_BUFFER_SIZE \<equiv> 2048"

datatype 'l event6 = Datagram "'l server6" bytes sock_addr | RecvError bool | LeaseCheck "'l manager_env" | ShutdownSignal "'l manager_env"

datatype loop_end = Running | Returned "(unit, dhcp_error) outcome"

definition serve6 :: "'l event6 \<Rightarrow> 'l lease_manager \<Rightarrow> loop_end \<times> 'l lease_manager" where
  "serve6 ev m =
     (case ev of
        Datagram sv data peer \<Rightarrow>
          (case handle_packet6 sv (take RECV_BUFFER_SIZE data) peer m of
             (Panic, _, m) \<Rightarrow> (Returned Panic, m) | (_, _, m) \<Rightarrow> (Running, m))
      | RecvError fatal \<Rightarrow> if fatal then (Returned (Err (SocketError ''recv_from'')), m) else (Running, m)
      | LeaseCheck E \<Rightarrow> (Running, snd (manager_prune E m))
      | ShutdownSignal E \<Rightarrow> (Returned (Ok ()), snd (save_leases E m)))"

fun run6 :: "'l event6 list \<Rightarrow> 'l lease_manager \<Rightarrow> loop_end \<times> 'l lease_manager" where
  "run6 [] m = (Running, m)"
| "run6 (ev # evs) m = (case serve6 ev m of (Running, m) \<Rightarrow> run6 evs m | (Returned r, m) \<Rightarrow> (Returned r, m))"

subsection \<open>Allocation\<close>

text \<open>
  The search through one pool.  The end is compared after the increment, which wraps; a loop that never
  ends is \<open>None\<close>.
\<close>

partial_function (option) pool_scan :: "'l lease_manager \<Rightarrow> bytes \<Rightarrow> bytes \<Rightarrow> bytes option option" where
  "pool_scan m stop candidate =
     (if \<not> leased6 m candidate then Some (Some candidate)
      else let candidate = increment_ipv6_addr candidate in
        if ipv6_u128 stop < ipv6_u128 candidate then Some None else pool_scan m stop candidate)"






definition handle_prefix_delegation :: "address_pools \<Rightarrow> bytes \<Rightarrow> (bytes \<times> u8, dhcp_error) outcome" where
  "handle_prefix_delegation address_pools interface =
     (case map_of address_pools interface of
        None \<Rightarrow> Err (PrefixDelegationFailed ''No pools configured for interface'')
      | Some pools \<Rightarrow>
          (case filter (\<lambda>pl. 0 < rg_prefix_len pl) pools of
             [] \<Rightarrow> Err (PrefixDelegationFailed ''No prefix delegation pools configured for interface'')
           | pd_pool # _ \<Rightarrow>
               (case rg_start pd_pool of
                  V6 prefix_addr \<Rightarrow> Ok (prefix_addr, rg_prefix_len pd_pool)
                | V4 _ \<Rightarrow> Err (PrefixDelegationFailed ''Prefix delegation pool has non-IPv6 address''))))"

subsection \<open>Incrementing\<close>

lemma length_increment_loop [simp]: "length (increment_loop bs) = length bs"
  by (induction bs) auto

lemma length_increment [simp]: "length (increment_ipv6_addr a) = length a"
  by (simp add: increment_ipv6_addr_def)

lemma ucast_inc:
  assumes "(b :: u8) \<noteq> 255"
  shows "ucast (b + 1) = (ucast b + 1 :: u128)"
proof -
  have "unat b \<noteq> unat (255 :: u8)" using assms by (simp add: word_unat_eq_iff)
  moreover have "unat b < 256" by simp
  ultimately have "unat b < 255" by (simp del: unat_u8_less)
  then have "unat (b + 1) = unat b + 1" "unat (ucast b + 1 :: u128) = unat b + 1"
    by (simp_all add: unat_word_ariths unsigned_ucast_eq take_bit_eq_mod)
  with \<open>unat b < 255\<close> show ?thesis by (intro word_unat_eq_iff[THEN iffD2]) (simp add: unsigned_ucast_eq take_bit_eq_mod)
qed

lemma increment_value:
  "ipv6_u128 (rev (increment_loop bs)) + (if list_all (\<lambda>b. b = 255) bs then 256 ^ length bs else 0) = ipv6_u128 (rev bs) + 1"
proof (induction bs)
  case (Cons b bs)
  let ?p = "if list_all (\<lambda>b. b = 255) bs then 256 ^ length bs else 0 :: u128"
  show ?case
  proof (cases "b = 255")
    case True
    have "(ipv6_u128 (rev (increment_loop bs)) + ?p) * 256 = ipv6_u128 (rev bs) * 256 + 255 + 1"
      unfolding Cons by (simp add: distrib_right)
    then show ?thesis using True by (simp add: distrib_right mult.commute split: if_splits)
  qed (simp add: ucast_inc)
qed simp

lemma ipv6_increment:
  assumes "length a = 16"
  shows "ipv6_u128 (increment_ipv6_addr a) = ipv6_u128 a + 1"
proof -
  have "256 ^ 16 = (0 :: u128)" by simp
  then show ?thesis using increment_value[of "rev a"] assms by (simp only: length_rev rev_rev_ident increment_ipv6_addr_def) simp
qed

lemma increment_u128: "increment_ipv6_addr (u128_ipv6 w) = u128_ipv6 (w + 1)"
  using ipv6_increment[of "u128_ipv6 w"] u128_ipv6_inverse[of "increment_ipv6_addr (u128_ipv6 w)"] by simp

subsection \<open>Scanning a pool\<close>

lemma scan_step:
  "pool_scan m stop (u128_ipv6 c) =
     (if \<not> leased6 m (u128_ipv6 c) then Some (Some (u128_ipv6 c))
      else if ipv6_u128 stop < c + 1 then Some None else pool_scan m stop (u128_ipv6 (c + 1)))"
  by (subst pool_scan.simps) (simp add: increment_u128)

lemma inc_order:
  fixes c :: u128
  assumes "c + 1 \<noteq> 0"
  shows "c + 1 \<le> b \<longleftrightarrow> c < b" "b < c + 1 \<longleftrightarrow> b \<le> c"
proof -
  have "unat (c + 1) = Suc (unat c)" using assms unatSuc[of c] by (simp add: add.commute)
  then show "c + 1 \<le> b \<longleftrightarrow> c < b" "b < c + 1 \<longleftrightarrow> b \<le> c"
    by (simp_all add: word_le_nat_alt word_less_nat_alt Suc_le_eq less_Suc_eq_le)
qed

text \<open>Distances are counted modulo the size of the address space.\<close>

lemma distance_step: "f \<noteq> c \<Longrightarrow> unat (f - (c + 1)) < unat (f - (c :: u128))"
proof -
  assume "f \<noteq> c"
  then have "f - c \<noteq> 0" by simp
  then have "unat (f - c - 1) = unat (f - c) - 1" "0 < unat (f - c)" by (simp_all add: unat_minus_one unat_gt_0)
  then show ?thesis by (simp add: diff_diff_eq)
qed


lemma free_address:
  assumes "length (leases (lm_repo m)) < 2 ^ 128"
  shows "\<exists>w. \<not> leased6 m (u128_ipv6 w)"
proof (rule ccontr)
  assume "\<nexists>w. \<not> leased6 m (u128_ipv6 w)"
  then have "range (\<lambda>w. V6 (u128_ipv6 w)) \<subseteq> fst ` set (leases (lm_repo m))"
    by (auto simp: leased6_def repo_find_by_ip_def simp flip: map_of_eq_None_iff) (metis map_of_SomeD fst_conv image_eqI)
  then have "card (range (\<lambda>w. V6 (u128_ipv6 w))) \<le> length (leases (lm_repo m))"
    by (metis List.finite_set card_image_le card_length card_mono finite_imageI order_trans)
  moreover have "inj (\<lambda>w. V6 (u128_ipv6 w))" by (auto simp: inj_def u128_ipv6_inject)
  ultimately show False using assms by (simp add: card_image card_word)
qed







subsection \<open>The state the handlers reach\<close>

lemma call_reach:
  assumes "lease_call E ctx ip m m'" "manager_reach ok L m0 m" "ok E"
  shows "manager_reach ok L m0 m'"
  using assms by cases (auto intro: manager_reach.intros)

lemma request6_reach:
  "manager_reach ok L m0 m \<Longrightarrow> ok E \<Longrightarrow> manager_reach ok L m0 (snd (handle_request6 E sm ctx msg m))"
  by (auto simp: request6_eq renewed_allocate intro: manager_reach.intros split: outcome.split)

lemma solicit6_reach:
  "manager_reach ok L m0 m \<Longrightarrow> ok E \<Longrightarrow> manager_reach ok L m0 (snd (handle_solicit6 E sm ctx msg m))"
  by (auto simp: handle_solicit6_def request6_reach split: outcome.split option.split)

lemma answered_state [simp]: "snd (answered res) = snd res" "snd (silent res) = snd res"
  by (auto simp: answered_def silent_def split: prod.splits outcome.splits)

lemma dispatch6_reach:
  assumes "manager_reach ok L m0 m" "ok E"
  shows "manager_reach ok L m0 (snd (dispatch6 E sm ctx msg m))"
  using assms request6_reach[OF assms] solicit6_reach[OF assms] decline6_same[of sm ctx msg m]
    renew6_call[of E ctx m sm msg] rebind6_call[of E ctx m sm msg] release6_call[of E ctx m sm msg]
  by (auto simp: dispatch6_def Let_def intro: call_reach)

lemma packet6_state:
  "snd (snd (handle_packet6 sv d peer m)) = m \<or>
   (\<exists>ctx msg. snd (snd (handle_packet6 sv d peer m)) = snd (dispatch6 (sv_env sv) (sv_machine sv) ctx msg m))"
proof (cases "message6_from_bytes d")
  case (Ok msg)
  show ?thesis
  proof (cases "get_option6 OPTION_CLIENT_ID msg")
    case (Some cid)
    obtain r m' where "dispatch6 (sv_env sv) (sv_machine sv) (packet_request sv cid msg peer) msg m = (r, m')" by fastforce
    then show ?thesis using Ok Some
      by (intro disjI2 exI[of _ "packet_request sv cid msg peer"] exI[of _ msg])
        (auto simp: handle_packet6_def split: outcome.splits option.splits)
  qed (simp add: handle_packet6_def Ok)
qed (simp_all add: handle_packet6_def)

lemma packet6_reach:
  "manager_reach ok L m0 m \<Longrightarrow> ok (sv_env sv) \<Longrightarrow> manager_reach ok L m0 (snd (snd (handle_packet6 sv d peer m)))"
  using packet6_state[of sv d peer m] dispatch6_reach[of ok L m0 m "sv_env sv"] by auto

primrec event_env :: "'l event6 \<Rightarrow> 'l manager_env option" where
  "event_env (Datagram sv _ _) = Some (sv_env sv)"
| "event_env (RecvError _) = None"
| "event_env (LeaseCheck E) = Some E"
| "event_env (ShutdownSignal E) = Some E"

lemma serve6_reach:
  assumes "manager_reach ok L m0 m" "case event_env ev of Some E \<Rightarrow> ok E | None \<Rightarrow> True"
  shows "manager_reach ok L m0 (snd (serve6 ev m))"
proof (cases ev)
  case (Datagram sv d peer)
  then show ?thesis using packet6_reach[OF assms(1), of sv "take RECV_BUFFER_SIZE d" peer] assms(2)
    by (auto simp: serve6_def split: prod.splits outcome.splits)
qed (use assms in \<open>auto simp: serve6_def intro: manager_reach.intros\<close>)

lemma run6_reach:
  assumes "manager_reach ok L m0 m" "\<forall>ev\<in>set evs. case event_env ev of Some E \<Rightarrow> ok E | None \<Rightarrow> True"
  shows "manager_reach ok L m0 (snd (run6 evs m))"
  using assms
proof (induction evs arbitrary: m)
  case (Cons ev evs)
  have "manager_reach ok L m0 (snd (serve6 ev m))" using Cons.prems by (intro serve6_reach) simp_all
  then show ?case using Cons by (auto split: prod.splits loop_end.splits)
qed simp

subsection \<open>A request over the wire\<close>

text \<open>The datagram of a client that asks for an address, made with the option builder.\<close>

definition client_request :: "bytes \<Rightarrow> bytes \<Rightarrow> bytes \<Rightarrow> u32 \<Rightarrow> bytes \<Rightarrow> bytes" where
  "client_request xid clid duid iaid addr =
     [MSG_REQUEST] @ xid @ ob_buffer (snd (ob_all [put_client_id clid, put_server_id duid,
       put_ia_na iaid 0 0 (put_ia_addr addr 0 0 (ob_all []))] ob_new))"

lemma client_request_eq:
  assumes "length clid < 65536" "length duid < 65536" "length addr = 16"
  shows "client_request xid clid duid iaid addr = [MSG_REQUEST] @ xid @ concat (map (\<lambda>(c, d). encode_option6 c d)
    [(OPTION_CLIENT_ID, clid), (OPTION_SERVER_ID, duid),
     (OPTION_IA_NA, put_u32 iaid @ put_u32 0 @ put_u32 0 @ encode_option6 OPTION_IAADDR (addr @ put_u32 0 @ put_u32 0))])"
proof -
  have ia: "appends (put_ia_na iaid 0 0 (put_ia_addr addr 0 0 (ob_all [])))
      (encode_option6 OPTION_IA_NA (put_u32 iaid @ put_u32 0 @ put_u32 0 @ encode_option6 OPTION_IAADDR (addr @ put_u32 0 @ put_u32 0 @ [])))"
    by (intro ia_na_appends ia_addr_appends appends_Nil assms(3)) (simp_all add: assms(3))
  have "appends (put_client_id clid) (encode_option6 OPTION_CLIENT_ID clid)" "appends (put_server_id duid) (encode_option6 OPTION_SERVER_ID duid)"
    unfolding put_client_id_def put_server_id_def using assms by (intro container_appends appends_primitive; simp)+
  note appends_Cons[OF this(1) appends_Cons[OF this(2) appends_Cons[OF ia appends_Nil]]]
  from appendsD[OF this, of ob_new] show ?thesis by (simp add: client_request_def ob_new_def)
qed

definition client_message :: "bytes \<Rightarrow> bytes \<Rightarrow> bytes \<Rightarrow> u32 \<Rightarrow> bytes \<Rightarrow> dhcp6_message" where
  "client_message xid clid duid iaid addr = \<lparr>m6_type = MSG_REQUEST, m6_xid = xid, m6_options =
     [(OPTION_CLIENT_ID, clid), (OPTION_SERVER_ID, duid),
      (OPTION_IA_NA, put_u32 iaid @ put_u32 0 @ put_u32 0 @ encode_option6 OPTION_IAADDR (addr @ put_u32 0 @ put_u32 0))]\<rparr>"

lemma client_request_parses:
  assumes "length clid < 65536" "length duid < 65536" "length addr = 16" "length xid = 3"
  shows "message6_from_bytes (client_request xid clid duid iaid addr) = Ok (client_message xid clid duid iaid addr)"
  unfolding client_request_eq[OF assms(1-3)] append_Cons append_Nil client_message_def
  by (subst message6_from_bytes_eq[OF assms(4) many0_encode]) (use assms in simp_all)

lemma wf_reply_address:
  assumes "length (rc_xid ctx) = 3" "length (server_duid sm) < 65536" "length (rc_clid ctx) < 65536" "ls_ip l = V6 a" "length a = 16"
    and "build_reply_with_address now sm ctx l Success = Ok r"
  shows "wf_message6 r"
  using assms by (auto simp: build_reply_with_address_def Let_def identified_def add_option6_def message6_new_def wf_message6_def iaaddr_bytes_def)

lemma request_packet6:
  assumes cx: "packet_context (sv_ifindex sv) (sv_pools sv) = Some cx" and start: "cx_start6 cx = V6 a" "length a = 16"
    and len: "length xid = 3" "length clid < 65536" "length (server_duid (sv_machine sv)) < 65536"
    and inv: "repo_inv (lm_repo m)" and iter: "\<And>xs. mset (sv_iter sv xs) = mset xs" and sent: "sv_send_ok sv"
  shows "\<exists>reply response m' l. handle_packet6 sv (client_request xid clid (server_duid (sv_machine sv)) iaid a) peer m = (Ok (), Some (response, peer), m') \<and>
    message6_from_bytes response = Ok reply \<and> m6_type reply = MSG_REPLY \<and> m6_xid reply = xid \<and> get_option6 OPTION_CLIENT_ID reply = Some clid \<and>
    (\<exists>ia. get_option6 OPTION_IA_NA reply = Some ia \<and> iaid_of ia = iaid \<and> parse_iaaddr_from_options (drop 12 ia) = Ok (V6 a)) \<and>
    repo_find_by_ip (V6 a) (lm_repo m') = Some l \<and> ls_client_id l = Some clid"
proof -
  let ?sm = "sv_machine sv" and ?E = "sv_env sv"
  let ?msg = "client_message xid clid (server_duid ?sm) iaid a"
  let ?ctx = "packet_request sv clid ?msg peer"
  let ?l = "lease_new (sys_now ?E) (V6 a) None None (Some clid) interface_eth0 (v6_lease_time ?sm)"
  have opts: "get_option6 OPTION_CLIENT_ID ?msg = Some clid" "get_option6 OPTION_SERVER_ID ?msg = Some (server_duid ?sm)"
      "get_option6 OPTION_IA_NA ?msg = Some (put_u32 iaid @ put_u32 0 @ put_u32 0 @ encode_option6 OPTION_IAADDR (a @ put_u32 0 @ put_u32 0))"
    by (simp_all add: client_message_def get_option6_def)
  have iaid: "iaid_of (put_u32 iaid @ ds) = iaid" for ds by (simp add: iaid_of_def put_u32_def be32_put)
  have ctx: "rc_context ?ctx = Some cx" "rc_clid ?ctx = clid" "rc_xid ?ctx = xid" "rc_hostname ?ctx = None" "rc_interface ?ctx = interface_eth0"
      "rc_iaid ?ctx = iaid"
    using iaid by (simp_all add: packet_request_def identity_association_def opts request_context_new_def cx, simp_all add: client_message_def)
  have "requested_address ?sm ?ctx ?msg = Ok (V6 a)"
    using parse_iaaddr_encode[of a "put_u32 0 @ put_u32 0" "[]"] start
    by (subst requested_address_eq[OF opts(2,3) _ _ ctx(1)]) simp_all
  then have req: "handle_request6 ?E ?sm ?ctx ?msg m = (build_reply_with_address (sys_later ?E) ?sm ?ctx ?l Success,
      snd (allocate_lease ?E (V6 a) None None (Some clid) interface_eth0 (v6_lease_time ?sm) m))"
    by (simp add: request6_eq renewed_allocate ctx)
  obtain r where r: "build_reply_with_address (sys_later ?E) ?sm ?ctx ?l Success = Ok r" using reply_Ok(1) by blast
  have wf: "wf_message6 r" by (rule wf_reply_address[OF _ _ _ _ start(2) r]) (simp_all add: ctx len lease_new_def)
  obtain n where n: "message6_from_bytes (message6_to_bytes (sv_iter sv) r) = Ok n" "same_message6 n r"
    using round_trip6[OF wf, of "sv_iter sv"] iter by blast
  then have opt: "get_option6 c n = get_option6 c r" for c by (simp add: same_message6_def get_option6_def)
  have ia: "\<exists>t1 t2 t. get_option6 OPTION_IA_NA r = Some (put_u32 iaid @ put_u32 t1 @ put_u32 t2 @ iaaddr_bytes (V6 a) t)"
    using r by (auto simp: build_reply_with_address_def Let_def ctx lease_new_def)
  have "m6_type ?msg = MSG_REQUEST" by (simp add: client_message_def)
  then have disp: "dispatch6 ?E ?sm ?ctx ?msg m = (Ok (Some r), snd (allocate_lease ?E (V6 a) None None (Some clid) interface_eth0 (v6_lease_time ?sm) m))"
    by (simp add: dispatch6_def answered_def req r)
  have "handle_packet6 sv (client_request xid clid (server_duid ?sm) iaid a) peer m = (Ok (), Some (message6_to_bytes (sv_iter sv) r, peer),
      snd (allocate_lease ?E (V6 a) None None (Some clid) interface_eth0 (v6_lease_time ?sm) m))"
    by (simp add: handle_packet6_def client_request_parses len start opts(1) disp sent)
  moreover have "m6_type n = MSG_REPLY" "m6_xid n = xid" "get_option6 OPTION_CLIENT_ID n = Some clid"
    using reply_address_echoes[OF r] n(2) by (simp_all add: opt echoes_def ctx) (simp_all add: same_message6_def)
  moreover have "\<exists>ia. get_option6 OPTION_IA_NA n = Some ia \<and> iaid_of ia = iaid \<and> parse_iaaddr_from_options (drop 12 ia) = Ok (V6 a)"
    using ia start(2) iaid by (auto simp: opt)
  moreover have "repo_find_by_ip (V6 a) (lm_repo (snd (allocate_lease ?E (V6 a) None None (Some clid) interface_eth0 (v6_lease_time ?sm) m))) = Some ?l"
    using inv by (simp add: allocate_parts mem.find_insert lease_new_def)
  ultimately show ?thesis using n(1) by (fastforce simp: lease_new_def)
qed

lemma index_step_find:
  "map_of (index_step rg pools) ifc =
   (if rg_is_ipv6 rg \<and> ifc = (case rg_interface rg of Some i \<Rightarrow> i | None \<Rightarrow> interface_default)
    then Some ((case map_of pools ifc of Some rgs \<Rightarrow> rgs | None \<Rightarrow> []) @ [rg]) else map_of pools ifc)"
  by (auto simp: index_step_def Let_def update_conv')

lemma index_pools_find:
  "map_of (fold index_step ranges pools) ifc =
   (let mine = filter (\<lambda>rg. rg_is_ipv6 rg \<and> ifc = (case rg_interface rg of Some i \<Rightarrow> i | None \<Rightarrow> interface_default)) ranges in
    if mine = [] then map_of pools ifc else Some ((case map_of pools ifc of Some rgs \<Rightarrow> rgs | None \<Rightarrow> []) @ mine))"
  by (induction ranges arbitrary: pools) (auto simp: index_step_find Let_def split: option.split)

subsection \<open>Properties\<close>

text \<open>
  C18: a request over the wire.  The datagram a client makes with the option builder, naming the first address
  of the pool, is answered with a datagram that parses as a reply with the client's transaction, identifier
  and association, the address in it, and the server then has a lease of the address for that client.
\<close>

theorem request_over_the_wire:
  assumes "packet_context (sv_ifindex sv) (sv_pools sv) = Some cx" "cx_start6 cx = V6 a" "length a = 16"
    and "length xid = 3" "length clid < 65536" "length (server_duid (sv_machine sv)) < 65536"
    and "repo_inv (lm_repo m)" "\<And>xs. mset (sv_iter sv xs) = mset xs" "sv_send_ok sv"
  shows "\<exists>reply response m' l. handle_packet6 sv (client_request xid clid (server_duid (sv_machine sv)) iaid a) peer m = (Ok (), Some (response, peer), m') \<and>
    message6_from_bytes response = Ok reply \<and> m6_type reply = MSG_REPLY \<and> m6_xid reply = xid \<and> get_option6 OPTION_CLIENT_ID reply = Some clid \<and>
    (\<exists>ia. get_option6 OPTION_IA_NA reply = Some ia \<and> iaid_of ia = iaid \<and> parse_iaaddr_from_options (drop 12 ia) = Ok (V6 a)) \<and>
    repo_find_by_ip (V6 a) (lm_repo m') = Some l \<and> ls_client_id l = Some clid"
  by (rule request_packet6[OF assms])

definition example_range6 :: dhcp_range where
  "example_range6 = \<lparr>rg_start = V6 (example_addr6 1), rg_end = V6 (example_addr6 2), rg_lease_time_override = None, rg_netmask = None,
     rg_interface = None, rg_lease_time = None, rg_is_ipv6 = True, rg_prefix_len = 0\<rparr>"

definition example_server6 :: "((cache_id \<times> cache_entry) list \<times> nat) server6" where
  "example_server6 = \<lparr>sv_machine = example_machine, sv_pools = index_address_pools [example_range6], sv_ifindex = (\<lambda>_. None),
     sv_iter = rev, sv_env = example_env 5, sv_send_ok = True\<rparr>"

lemma example_server6_simps:
  "packet_context (sv_ifindex example_server6) (sv_pools example_server6) = Some (context_of_range (\<lambda>_. None) interface_eth0 example_range6)"
  "cx_start6 (context_of_range (\<lambda>_. None) interface_eth0 example_range6) = V6 (example_addr6 1)" "sv_send_ok example_server6"
  "sv_iter example_server6 = rev" "sv_machine example_server6 = example_machine" "sv_env example_server6 = example_env 5"
  "map_of (sv_pools example_server6) interface_default = Some [example_range6]"
  by (simp_all add: example_server6_def packet_context_def index_address_pools_def index_step_def example_range6_def interface_eth0_def
      interface_default_def ascii_def context_of_range_def)

theorem request_over_the_wire_witness:
  "\<exists>response m'. handle_packet6 example_server6 (client_request [1, 2, 3] [9] [0, 3, 0, 1] 7 (example_addr6 1)) (V6 (example_addr6 5), 546) example_manager =
     (Ok (), Some (response, V6 (example_addr6 5), 546), m')"
proof -
  have "length (server_duid (sv_machine example_server6)) < 65536" "server_duid (sv_machine example_server6) = [0, 3, 0, 1]"
    by (simp_all add: example_server6_simps example_machine_def)
  with request_over_the_wire[OF example_server6_simps(1,2) _ _ _ _ example_manager_simps(1) _ example_server6_simps(3),
      of "[1, 2, 3]" "[9]" 7 "(V6 (example_addr6 5), 546)"]
  show ?thesis by (auto simp: example_server6_simps)
qed



text \<open>
  At the end of the address space the search leaves the pool: when the pool ends at the last address and
  everything from the candidate on is leased, the increment wraps and address zero is given out.
\<close>

theorem scan_wraps_out_of_pool:
  assumes "ipv6_u128 stop = - 1" "\<not> leased6 m (u128_ipv6 0)"
  shows "c \<noteq> 0 \<Longrightarrow> \<forall>b. c \<le> b \<longrightarrow> leased6 m (u128_ipv6 b) \<Longrightarrow> pool_scan m stop (u128_ipv6 c) = Some (Some (u128_ipv6 0))"
proof (induction "unat (0 - c)" arbitrary: c rule: less_induct)
  case less
  have step: "pool_scan m stop (u128_ipv6 c) = pool_scan m stop (u128_ipv6 (c + 1))"
    using less(3) assms(1) by (subst scan_step) simp
  show ?case
  proof (cases "c + 1 = 0")
    case True
    then show ?thesis unfolding step True using assms(2) by (subst scan_step) simp
  next
    case False
    have "\<forall>b. c + 1 \<le> b \<longrightarrow> leased6 m (u128_ipv6 b)" using less(3) by (auto simp: inc_order[OF False])
    with less(1)[of "c + 1"] distance_step[of 0 c] less(2) False show ?thesis unfolding step by simp
  qed
qed

text \<open>
  The pools of an interface are the IPv6 ranges configured for it, in the order of the configuration;
  ranges without an interface are those of \<open>default\<close>.
\<close>

theorem index_address_pools_spec:
  "map_of (index_address_pools ranges) ifc =
   (let mine = filter (\<lambda>rg. rg_is_ipv6 rg \<and> ifc = (case rg_interface rg of Some i \<Rightarrow> i | None \<Rightarrow> interface_default)) ranges in
    if mine = [] then None else Some mine)"
  unfolding index_address_pools_def index_pools_find by (simp add: Let_def)

text \<open>
  A client that confirms its address gets no answer: the message is not dispatched, although it has a handler.
\<close>

theorem confirm_ignored:
  "m6_type message = MSG_CONFIRM \<Longrightarrow> dispatch6 E sm ctx message m = (Ok None, m)"
  by (simp add: dispatch6_def)

end
