(* ===== verification/Message.thy ===== *)
theory Message
  imports Resource_Record
begin

text \<open>
  DNS messages, \<open>src/dns/protocol/message.rs\<close>: the flag word, the header, questions, the message parser and
  serializer, the builder and the query and response views.  The flag setters are shown to implement
  independent fields; a message that is serialized, with name compression over all its sections, parses
  back to itself; and parsing arbitrary bytes never panics.
\<close>

subsection \<open>Flags\<close>

record dns_flags = raw :: u16

definition flags_new :: dns_flags where
  "flags_new = \<lparr>raw = 0\<rparr>"

definition flags_from_raw :: "u16 \<Rightarrow> dns_flags" where
  "flags_from_raw r = \<lparr>raw = r\<rparr>"

definition flags_from_bytes :: "u8 \<Rightarrow> u8 \<Rightarrow> dns_flags" where
  "flags_from_bytes hb3 hb4 = \<lparr>raw = push_bit 8 (ucast hb3) OR ucast hb4\<rparr>"

definition flags_to_bytes :: "dns_flags \<Rightarrow> u8 \<times> u8" where
  "flags_to_bytes f = (ucast (drop_bit 8 (raw f)), ucast (raw f AND 0xFF))"

definition flags_qr :: "dns_flags \<Rightarrow> bool" where
  "flags_qr f \<longleftrightarrow> raw f AND 0x8000 \<noteq> 0"

definition set_qr :: "bool \<Rightarrow> dns_flags \<Rightarrow> dns_flags" where
  "set_qr value f = (if value then f\<lparr>raw := raw f OR 0x8000\<rparr> else f\<lparr>raw := raw f AND NOT 0x8000\<rparr>)"

definition flags_aa :: "dns_flags \<Rightarrow> bool" where
  "flags_aa f \<longleftrightarrow> raw f AND 0x0400 \<noteq> 0"

definition set_aa :: "bool \<Rightarrow> dns_flags \<Rightarrow> dns_flags" where
  "set_aa value f = (if value then f\<lparr>raw := raw f OR 0x0400\<rparr> else f\<lparr>raw := raw f AND NOT 0x0400\<rparr>)"

definition flags_tc :: "dns_flags \<Rightarrow> bool" where
  "flags_tc f \<longleftrightarrow> raw f AND 0x0200 \<noteq> 0"

definition set_tc :: "bool \<Rightarrow> dns_flags \<Rightarrow> dns_flags" where
  "set_tc value f = (if value then f\<lparr>raw := raw f OR 0x0200\<rparr> else f\<lparr>raw := raw f AND NOT 0x0200\<rparr>)"

definition flags_rd :: "dns_flags \<Rightarrow> bool" where
  "flags_rd f \<longleftrightarrow> raw f AND 0x0100 \<noteq> 0"

definition set_rd :: "bool \<Rightarrow> dns_flags \<Rightarrow> dns_flags" where
  "set_rd value f = (if value then f\<lparr>raw := raw f OR 0x0100\<rparr> else f\<lparr>raw := raw f AND NOT 0x0100\<rparr>)"

definition flags_ra :: "dns_flags \<Rightarrow> bool" where
  "flags_ra f \<longleftrightarrow> raw f AND 0x0080 \<noteq> 0"

definition set_ra :: "bool \<Rightarrow> dns_flags \<Rightarrow> dns_flags" where
  "set_ra value f = (if value then f\<lparr>raw := raw f OR 0x0080\<rparr> else f\<lparr>raw := raw f AND NOT 0x0080\<rparr>)"

definition flags_ad :: "dns_flags \<Rightarrow> bool" where
  "flags_ad f \<longleftrightarrow> raw f AND 0x0020 \<noteq> 0"

definition set_ad :: "bool \<Rightarrow> dns_flags \<Rightarrow> dns_flags" where
  "set_ad value f = (if value then f\<lparr>raw := raw f OR 0x0020\<rparr> else f\<lparr>raw := raw f AND NOT 0x0020\<rparr>)"

definition flags_cd :: "dns_flags \<Rightarrow> bool" where
  "flags_cd f \<longleftrightarrow> raw f AND 0x0010 \<noteq> 0"

definition set_cd :: "bool \<Rightarrow> dns_flags \<Rightarrow> dns_flags" where
  "set_cd value f = (if value then f\<lparr>raw := raw f OR 0x0010\<rparr> else f\<lparr>raw := raw f AND NOT 0x0010\<rparr>)"

definition flags_opcode :: "dns_flags \<Rightarrow> u8" where
  "flags_opcode f = ucast (drop_bit 11 (raw f) AND 0x0F)"

definition set_opcode :: "u8 \<Rightarrow> dns_flags \<Rightarrow> dns_flags" where
  "set_opcode value f = f\<lparr>raw := (raw f AND NOT 0x7800) OR push_bit 11 (ucast (value AND 0x0F))\<rparr>"

definition flags_rcode :: "dns_flags \<Rightarrow> u8" where
  "flags_rcode f = ucast (raw f AND 0x000F)"

definition set_rcode :: "u8 \<Rightarrow> dns_flags \<Rightarrow> dns_flags" where
  "set_rcode value f = f\<lparr>raw := (raw f AND NOT 0x000F) OR ucast (value AND 0x0F)\<rparr>"

subsection \<open>Header\<close>

record dns_header =
  hdr_id :: u16
  hdr_flags :: dns_flags
  hdr_qdcount :: u16
  hdr_ancount :: u16
  hdr_nscount :: u16
  hdr_arcount :: u16

definition header_new :: "u16 \<Rightarrow> dns_header" where
  "header_new i = \<lparr>hdr_id = i, hdr_flags = flags_new, hdr_qdcount = 0, hdr_ancount = 0, hdr_nscount = 0,
     hdr_arcount = 0\<rparr>"

definition header_from_bytes :: "bytes \<Rightarrow> (dns_header, dns_error) outcome" where
  "header_from_bytes input =
     (if length input < 12 then Err (ParseFailed ''local'' ''DNS header too short (need 12 bytes)'')
      else Ok \<lparr>hdr_id = be16 (input ! 0) (input ! 1),
               hdr_flags = flags_from_bytes (input ! 2) (input ! 3),
               hdr_qdcount = be16 (input ! 4) (input ! 5),
               hdr_ancount = be16 (input ! 6) (input ! 7),
               hdr_nscount = be16 (input ! 8) (input ! 9),
               hdr_arcount = be16 (input ! 10) (input ! 11)\<rparr>)"

definition header_to_bytes :: "dns_header \<Rightarrow> bytes \<Rightarrow> bytes" where
  "header_to_bytes h buf =
     (let (hb3, hb4) = flags_to_bytes (hdr_flags h) in
      buf @ put_u16 (hdr_id h) @ [hb3, hb4] @ put_u16 (hdr_qdcount h) @ put_u16 (hdr_ancount h) @
      put_u16 (hdr_nscount h) @ put_u16 (hdr_arcount h))"

subsection \<open>Questions\<close>

record question =
  qname :: domain_name
  qtype :: record_type
  qclass :: u16

definition question_new :: "domain_name \<Rightarrow> record_type \<Rightarrow> u16 \<Rightarrow> question" where
  "question_new n t c = \<lparr>qname = n, qtype = t, qclass = c\<rparr>"

definition question_from_bytes :: "(bytes \<Rightarrow> bytes option) \<Rightarrow> bytes \<Rightarrow> bytes \<Rightarrow> nat
    \<Rightarrow> (question \<times> nat, dns_error) outcome" where
  "question_from_bytes idna input packet offset =
     rbind (decompress_name packet offset) (\<lambda>(name_end_offset, name_string).
       if name_end_offset < offset then Panic
       else let name_bytes_consumed = name_end_offset - offset in
       if length input < name_bytes_consumed then Panic
       else let remaining = drop name_bytes_consumed input in
       if length remaining < 4 then
         Err (ParseFailed ''local'' ''Question section truncated (need QTYPE and QCLASS)'')
       else let qt = record_type_of_u16 (be16 (remaining ! 0) (remaining ! 1));
                qc = be16 (remaining ! 2) (remaining ! 3) in
         rbind (dn_new idna name_string) (\<lambda>qn.
           Ok (question_new qn qt qc, name_bytes_consumed + 4)))"

definition question_to_bytes :: "question \<Rightarrow> bytes \<times> compression_map
    \<Rightarrow> (bytes \<times> compression_map, dns_error) outcome" where
  "question_to_bytes q st =
     rbind (compress_name (dn_name (qname q)) (fst st) (Some (snd st))) (\<lambda>(_, buf, compression).
       Ok (buf @ put_u16 (u16_of_record_type (qtype q)) @ put_u16 (qclass q),
           case compression of Some c \<Rightarrow> c | None \<Rightarrow> snd st))"

subsection \<open>Messages\<close>

record dns_message =
  header :: dns_header
  questions :: "question list"
  answers :: "resource_record list"
  authority :: "resource_record list"
  additional :: "resource_record list"

definition message_new :: "u16 \<Rightarrow> dns_message" where
  "message_new i = \<lparr>header = header_new i, questions = [], answers = [], authority = [], additional = []\<rparr>"

text \<open>The loop over the question count, with the offset after the last question.\<close>

fun parse_questions :: "(bytes \<Rightarrow> bytes option) \<Rightarrow> bytes \<Rightarrow> nat \<Rightarrow> nat
    \<Rightarrow> (question list \<times> nat, dns_error) outcome" where
  "parse_questions idna packet 0 offset = Ok ([], offset)"
| "parse_questions idna packet (Suc n) offset =
     (if length packet \<le> offset then Err (ParseFailed ''local'' ''Packet truncated in question section'')
      else rbind (question_from_bytes idna (drop offset packet) packet offset) (\<lambda>(q, consumed).
        rbind (parse_questions idna packet n (offset + consumed)) (\<lambda>(qs, offset'). Ok (q # qs, offset'))))"

text \<open>The loop of the answer, authority and additional sections, which differ in their error texts.\<close>

fun parse_section :: "reason \<Rightarrow> reason \<Rightarrow> bytes \<Rightarrow> nat \<Rightarrow> nat
    \<Rightarrow> (resource_record list \<times> nat, dns_error) outcome" where
  "parse_section truncated failed packet 0 offset = Ok ([], offset)"
| "parse_section truncated failed packet (Suc n) offset =
     (if length packet \<le> offset then Err (ParseFailed ''local'' truncated)
      else let input_before = drop offset packet in
        rbind (map_err (\<lambda>_. ParseFailed ''local'' failed) (rr_parse (offset, input_before) packet))
          (\<lambda>(remaining, rr).
             if length input_before < length (snd remaining) then Panic
             else let consumed = length input_before - length (snd remaining) in
               rbind (parse_section truncated failed packet n (offset + consumed))
                 (\<lambda>(rrs, offset'). Ok (rr # rrs, offset'))))"

definition message_from_bytes :: "(bytes \<Rightarrow> bytes option) \<Rightarrow> bytes \<Rightarrow> (dns_message, dns_error) outcome" where
  "message_from_bytes idna packet =
     rbind (header_from_bytes packet) (\<lambda>h.
     rbind (parse_questions idna packet (unat (hdr_qdcount h)) 12) (\<lambda>(qs, offset).
     rbind (parse_section ''Packet truncated in answer section'' ''Failed to parse answer RR''
        packet (unat (hdr_ancount h)) offset) (\<lambda>(ans, offset).
     rbind (parse_section ''Packet truncated in authority section'' ''Failed to parse authority RR''
        packet (unat (hdr_nscount h)) offset) (\<lambda>(auths, offset).
     rbind (parse_section ''Packet truncated in additional section'' ''Failed to parse additional RR''
        packet (unat (hdr_arcount h)) offset) (\<lambda>(adds, offset).
       Ok \<lparr>header = h, questions = qs, answers = ans, authority = auths, additional = adds\<rparr>)))))"

definition serialize_rr :: "resource_record \<Rightarrow> bytes \<times> compression_map
    \<Rightarrow> (bytes \<times> compression_map, dns_error) outcome" where
  "serialize_rr rr st =
     rbind (compress_name (dn_name (rr_name rr)) (fst st) (Some (snd st))) (\<lambda>(_, buf, compression).
     rbind (serialize_rdata (rr_data rr)) (\<lambda>rdata_bytes.
       if 65535 < length rdata_bytes then
         Err (ParseFailed ''local'' ''RDATA length exceeds maximum (65535 bytes)'')
       else Ok (buf @ put_u16 (u16_of_record_type (rr_type rr)) @ put_u16 (rr_class rr) @ put_u32 (rr_ttl rr) @
                  put_u16 (of_nat (length rdata_bytes)) @ rdata_bytes,
                case compression of Some c \<Rightarrow> c | None \<Rightarrow> snd st)))"

fun write_all :: "('a \<Rightarrow> 's \<Rightarrow> ('s, 'e) outcome) \<Rightarrow> 'a list \<Rightarrow> 's \<Rightarrow> ('s, 'e) outcome" where
  "write_all f [] st = Ok st"
| "write_all f (x # xs) st = rbind (f x st) (write_all f xs)"

definition counted_header :: "dns_message \<Rightarrow> dns_header" where
  "counted_header m = (header m)\<lparr>hdr_qdcount := of_nat (length (questions m)),
     hdr_ancount := of_nat (length (answers m)), hdr_nscount := of_nat (length (authority m)),
     hdr_arcount := of_nat (length (additional m))\<rparr>"

definition message_to_bytes :: "dns_message \<Rightarrow> (bytes, dns_error) outcome" where
  "message_to_bytes m =
     (let st = (header_to_bytes (counted_header m) [], cm_new) in
      rbind (write_all question_to_bytes (questions m) st) (\<lambda>st.
      rbind (write_all serialize_rr (answers m) st) (\<lambda>st.
      rbind (write_all serialize_rr (authority m) st) (\<lambda>st.
      rbind (write_all serialize_rr (additional m) st) (\<lambda>(buf, _). Ok buf)))))"

definition update_flags :: "(dns_flags \<Rightarrow> dns_flags) \<Rightarrow> dns_message \<Rightarrow> dns_message" where
  "update_flags f m = m\<lparr>header := (header m)\<lparr>hdr_flags := f (hdr_flags (header m))\<rparr>\<rparr>"

definition is_query :: "dns_message \<Rightarrow> bool" where
  "is_query m \<longleftrightarrow> \<not> flags_qr (hdr_flags (header m))"

definition is_response :: "dns_message \<Rightarrow> bool" where
  "is_response m \<longleftrightarrow> flags_qr (hdr_flags (header m))"

definition set_response :: "dns_message \<Rightarrow> dns_message" where
  "set_response = update_flags (set_qr True)"

definition set_authoritative :: "bool \<Rightarrow> dns_message \<Rightarrow> dns_message" where
  "set_authoritative value = update_flags (set_aa value)"

definition set_truncated :: "bool \<Rightarrow> dns_message \<Rightarrow> dns_message" where
  "set_truncated value = update_flags (set_tc value)"

definition get_rcode :: "dns_message \<Rightarrow> u8" where
  "get_rcode m = flags_rcode (hdr_flags (header m))"

definition msg_set_rcode :: "u8 \<Rightarrow> dns_message \<Rightarrow> dns_message" where
  "msg_set_rcode rcode = update_flags (set_rcode rcode)"

definition add_question :: "question \<Rightarrow> dns_message \<Rightarrow> dns_message" where
  "add_question q m = m\<lparr>questions := questions m @ [q]\<rparr>"

definition add_answer :: "resource_record \<Rightarrow> dns_message \<Rightarrow> dns_message" where
  "add_answer rr m = m\<lparr>answers := answers m @ [rr]\<rparr>"

definition add_authority :: "resource_record \<Rightarrow> dns_message \<Rightarrow> dns_message" where
  "add_authority rr m = m\<lparr>authority := authority m @ [rr]\<rparr>"

definition add_additional :: "resource_record \<Rightarrow> dns_message \<Rightarrow> dns_message" where
  "add_additional rr m = m\<lparr>additional := additional m @ [rr]\<rparr>"

subsection \<open>Builder, query and response\<close>

record message_builder = mb_message :: dns_message

definition builder_new :: message_builder where
  "builder_new = \<lparr>mb_message = message_new 0\<rparr>"

definition builder_id :: "u16 \<Rightarrow> message_builder \<Rightarrow> message_builder" where
  "builder_id i b = b\<lparr>mb_message := (mb_message b)\<lparr>header := (header (mb_message b))\<lparr>hdr_id := i\<rparr>\<rparr>\<rparr>"

definition builder_flags :: "(dns_flags \<Rightarrow> dns_flags) \<Rightarrow> message_builder \<Rightarrow> message_builder" where
  "builder_flags f b = b\<lparr>mb_message := update_flags f (mb_message b)\<rparr>"

definition builder_set_query :: "message_builder \<Rightarrow> message_builder" where
  "builder_set_query = builder_flags (set_qr False)"

definition builder_set_response :: "message_builder \<Rightarrow> message_builder" where
  "builder_set_response = builder_flags (set_qr True)"

definition builder_set_authoritative :: "message_builder \<Rightarrow> message_builder" where
  "builder_set_authoritative = builder_flags (set_aa True)"

definition builder_set_recursion_desired :: "message_builder \<Rightarrow> message_builder" where
  "builder_set_recursion_desired = builder_flags (set_rd True)"

definition builder_set_recursion_available :: "message_builder \<Rightarrow> message_builder" where
  "builder_set_recursion_available = builder_flags (set_ra True)"

definition builder_rcode :: "u8 \<Rightarrow> message_builder \<Rightarrow> message_builder" where
  "builder_rcode rcode = builder_flags (set_rcode rcode)"

definition builder_add_question :: "question \<Rightarrow> message_builder \<Rightarrow> message_builder" where
  "builder_add_question q b = b\<lparr>mb_message := add_question q (mb_message b)\<rparr>"

definition builder_add_answer :: "resource_record \<Rightarrow> message_builder \<Rightarrow> message_builder" where
  "builder_add_answer rr b = b\<lparr>mb_message := add_answer rr (mb_message b)\<rparr>"

definition builder_add_authority :: "resource_record \<Rightarrow> message_builder \<Rightarrow> message_builder" where
  "builder_add_authority rr b = b\<lparr>mb_message := add_authority rr (mb_message b)\<rparr>"

definition builder_add_additional :: "resource_record \<Rightarrow> message_builder \<Rightarrow> message_builder" where
  "builder_add_additional rr b = b\<lparr>mb_message := add_additional rr (mb_message b)\<rparr>"

definition build :: "message_builder \<Rightarrow> dns_message" where
  "build b = mb_message b"

definition query_from_message :: "dns_message \<Rightarrow> question option" where
  "query_from_message m = (case questions m of [] \<Rightarrow> None
     | q # _ \<Rightarrow> Some \<lparr>qname = qname q, qtype = qtype q, qclass = qclass q\<rparr>)"

definition response_from_query :: "dns_message \<Rightarrow> dns_message" where
  "response_from_query m = (set_response (message_new (hdr_id (header m))))\<lparr>questions := questions m\<rparr>"

subsection \<open>The flag word as independent fields\<close>

record flag_fields =
  f_qr :: bool
  f_opcode :: u8
  f_aa :: bool
  f_tc :: bool
  f_rd :: bool
  f_ra :: bool
  f_z :: bool
  f_ad :: bool
  f_cd :: bool
  f_rcode :: u8

definition flags_abs :: "dns_flags \<Rightarrow> flag_fields" where
  "flags_abs f = \<lparr>f_qr = flags_qr f, f_opcode = flags_opcode f, f_aa = flags_aa f, f_tc = flags_tc f,
     f_rd = flags_rd f, f_ra = flags_ra f, f_z = bit (raw f) 6, f_ad = flags_ad f, f_cd = flags_cd f,
     f_rcode = flags_rcode f\<rparr>"

lemma flag_masks:
  "(0x8000 :: u16) = push_bit 15 1" "(0x0400 :: u16) = push_bit 10 1" "(0x0200 :: u16) = push_bit 9 1"
  "(0x0100 :: u16) = push_bit 8 1" "(0x0080 :: u16) = push_bit 7 1" "(0x0020 :: u16) = push_bit 5 1"
  "(0x0010 :: u16) = push_bit 4 1" "(0x7800 :: u16) = push_bit 11 (mask 4)" "(0x000F :: u16) = mask 4"
  "(0x0F :: u8) = mask 4"
  by (simp_all add: push_bit_eq_mult mask_eq_exp_minus_1)

lemma flag_bits:
  "flags_qr f \<longleftrightarrow> bit (raw f) 15" "flags_aa f \<longleftrightarrow> bit (raw f) 10" "flags_tc f \<longleftrightarrow> bit (raw f) 9"
  "flags_rd f \<longleftrightarrow> bit (raw f) 8" "flags_ra f \<longleftrightarrow> bit (raw f) 7" "flags_ad f \<longleftrightarrow> bit (raw f) 5"
  "flags_cd f \<longleftrightarrow> bit (raw f) 4"
  unfolding flags_qr_def flags_aa_def flags_tc_def flags_rd_def flags_ra_def flags_ad_def flags_cd_def flag_masks
  by (simp_all only: bit_iff_and_push_bit_not_eq_0)

lemma field_bits:
  "bit (flags_opcode f) n \<longleftrightarrow> n < 4 \<and> bit (raw f) (11 + n)"
  "bit (flags_rcode f) n \<longleftrightarrow> n < 4 \<and> bit (raw f) n"
  unfolding flags_opcode_def flags_rcode_def flag_masks by (auto simp: bit_simps)

lemma mask_bit:
  fixes x m :: u16
  assumes "m = push_bit k 1" and "k < 16"
  shows "bit (x OR m) n \<longleftrightarrow> bit x n \<or> n = k" "bit (x AND NOT m) n \<longleftrightarrow> bit x n \<and> n \<noteq> k"
  using assms bit_imp_le_length[of x n] by (auto simp: bit_simps)

lemma set_flag_bits:
  "bit (raw (set_qr v f)) n \<longleftrightarrow> (if n = 15 then v else bit (raw f) n)"
  "bit (raw (set_aa v f)) n \<longleftrightarrow> (if n = 10 then v else bit (raw f) n)"
  "bit (raw (set_tc v f)) n \<longleftrightarrow> (if n = 9 then v else bit (raw f) n)"
  "bit (raw (set_rd v f)) n \<longleftrightarrow> (if n = 8 then v else bit (raw f) n)"
  "bit (raw (set_ra v f)) n \<longleftrightarrow> (if n = 7 then v else bit (raw f) n)"
  "bit (raw (set_ad v f)) n \<longleftrightarrow> (if n = 5 then v else bit (raw f) n)"
  "bit (raw (set_cd v f)) n \<longleftrightarrow> (if n = 4 then v else bit (raw f) n)"
  using mask_bit(2)[OF flag_masks(1), of "raw f" n] mask_bit(2)[OF flag_masks(2), of "raw f" n]
    mask_bit(2)[OF flag_masks(3), of "raw f" n] mask_bit(2)[OF flag_masks(4), of "raw f" n]
    mask_bit(2)[OF flag_masks(5), of "raw f" n] mask_bit(2)[OF flag_masks(6), of "raw f" n]
    mask_bit(2)[OF flag_masks(7), of "raw f" n]
  by (auto simp: set_qr_def set_aa_def set_tc_def set_rd_def set_ra_def set_ad_def set_cd_def
      mask_bit[OF flag_masks(1)] mask_bit[OF flag_masks(2)] mask_bit[OF flag_masks(3)] mask_bit[OF flag_masks(4)]
      mask_bit[OF flag_masks(5)] mask_bit[OF flag_masks(6)] mask_bit[OF flag_masks(7)])

lemma set_field_bits:
  "bit (raw (set_opcode w f)) n \<longleftrightarrow> (if 11 \<le> n \<and> n < 15 then bit w (n - 11) else bit (raw f) n)"
  "bit (raw (set_rcode w f)) n \<longleftrightarrow> (if n < 4 then bit w n else bit (raw f) n)"
  unfolding set_opcode_def set_rcode_def flag_masks
  using bit_imp_le_length[of "raw f" n] by (auto simp: bit_simps)

lemma flags_abs_set:
  "flags_abs (set_qr v f) = (flags_abs f)\<lparr>f_qr := v\<rparr>"
  "flags_abs (set_aa v f) = (flags_abs f)\<lparr>f_aa := v\<rparr>"
  "flags_abs (set_tc v f) = (flags_abs f)\<lparr>f_tc := v\<rparr>"
  "flags_abs (set_rd v f) = (flags_abs f)\<lparr>f_rd := v\<rparr>"
  "flags_abs (set_ra v f) = (flags_abs f)\<lparr>f_ra := v\<rparr>"
  "flags_abs (set_ad v f) = (flags_abs f)\<lparr>f_ad := v\<rparr>"
  "flags_abs (set_cd v f) = (flags_abs f)\<lparr>f_cd := v\<rparr>"
  "flags_abs (set_opcode w f) = (flags_abs f)\<lparr>f_opcode := w AND 0x0F\<rparr>"
  "flags_abs (set_rcode w f) = (flags_abs f)\<lparr>f_rcode := w AND 0x0F\<rparr>"
  by (auto simp: flags_abs_def flag_bits field_bits set_flag_bits set_field_bits flag_masks(10) bit_simps
      intro!: bit_word_eqI)

lemma flags_abs_inj:
  assumes "flags_abs f = flags_abs g"
  shows "f = g"
proof -
  have b: "bit (raw f) 15 = bit (raw g) 15" "bit (raw f) 10 = bit (raw g) 10" "bit (raw f) 9 = bit (raw g) 9"
    "bit (raw f) 8 = bit (raw g) 8" "bit (raw f) 7 = bit (raw g) 7" "bit (raw f) 6 = bit (raw g) 6"
    "bit (raw f) 5 = bit (raw g) 5" "bit (raw f) 4 = bit (raw g) 4"
    and op: "flags_opcode f = flags_opcode g" and rc: "flags_rcode f = flags_rcode g"
    using assms by (simp_all add: flags_abs_def flag_bits)
  have "bit (raw f) n = bit (raw g) n" if n: "n < LENGTH(16)" for n
  proof -
    have "bit (flags_opcode f) (n - 11) = bit (flags_opcode g) (n - 11)"
      "bit (flags_rcode f) n = bit (flags_rcode g) n" by (simp_all add: op rc)
    then have low: "n < 4 \<Longrightarrow> ?thesis" and high: "11 \<le> n \<Longrightarrow> n < 15 \<Longrightarrow> ?thesis"
      by (auto simp: field_bits)
    have "n < 4 \<or> 11 \<le> n \<and> n < 15 \<or> n \<in> {15, 10, 9, 8, 7, 6, 5, 4}" using n by auto
    with low high b show ?thesis by blast
  qed
  then have "raw f = raw g" by (rule bit_word_eqI)
  then show ?thesis by simp
qed

lemma flags_bytes_round_trip: "(case flags_to_bytes f of (a, b) \<Rightarrow> flags_from_bytes a b) = f"
proof -
  have m: "(0xFF :: u16) = mask 8" by (simp add: mask_eq_exp_minus_1)
  have "ucast (raw f AND 0xFF) = (ucast (raw f) :: u8)"
    unfolding m by (intro bit_word_eqI) (auto simp: bit_simps)
  then show ?thesis
    using be16_put[of "raw f"] by (simp add: flags_to_bytes_def flags_from_bytes_def be16_def)
qed

lemma header_round_trip: "header_from_bytes (header_to_bytes h [] @ post) = Ok h"
proof -
  obtain a b where ab: "flags_to_bytes (hdr_flags h) = (a, b)" by (cases "flags_to_bytes (hdr_flags h)")
  with flags_bytes_round_trip[of "hdr_flags h"] have "flags_from_bytes a b = hdr_flags h" by simp
  with ab show ?thesis
    by (simp add: header_from_bytes_def header_to_bytes_def put_u16_def be16_put numeral_2_eq_2 numeral_3_eq_3)
qed

subsection \<open>Message round trip\<close>

definition wf_question :: "question \<Rightarrow> bool" where
  "wf_question q \<longleftrightarrow> (valid_name (qname q) \<or> dn_name (qname q) = []) \<and> canonical_rtype (qtype q)"

definition wf_message :: "dns_message \<Rightarrow> bool" where
  "wf_message m \<longleftrightarrow> (\<forall>q\<in>set (questions m). wf_question q) \<and>
     (\<forall>rr\<in>set (answers m @ authority m @ additional m). wf_rr rr) \<and>
     length (questions m) < 65536 \<and> length (answers m) < 65536 \<and> length (authority m) < 65536 \<and>
     length (additional m) < 65536"

lemma compress_question_name:
  assumes "wf_question q" and "cm_sound c buf"
  shows "\<exists>out c'. compress_name (dn_name (qname q)) buf (Some c) = Ok (length out, buf @ out, Some c') \<and>
     cm_sound c' (buf @ out) \<and>
     (\<forall>post. decompress_name (buf @ out @ post) (length buf) = Ok (length (buf @ out), dn_name (qname q)))"
proof (cases "dn_name (qname q) = []")
  case True
  have "wire_name (buf @ [0] @ post) (length buf) [] 0 (length (buf @ [0]))" for post
    by (simp add: wire_name_zero_iff)
  then have "decompress_name (buf @ [0] @ post) (length buf) = Ok (length (buf @ [0]), [])" for post
    unfolding decompress_name_iff by (intro exI[of _ "[]"] exI[of _ 0]) auto
  with True assms(2) cm_sound_append show ?thesis
    by (intro exI[of _ "[0]"] exI[of _ c]) (simp add: compress_name_def)
next
  case False
  with assms(1) have v: "valid_name (qname q)" by (simp add: wf_question_def)
  have "\<forall>l\<in>set (split_on dot (dn_name (qname q))). valid_utf8 l" "length (dn_name (qname q)) < MAXDNAME"
    using v by (auto simp: valid_name_def valid_label_utf8)
  from compress_decompress[OF valid_name_plain[OF v] this, of "Some c" buf] assms(2)
  show ?thesis by auto
qed

lemma question_at:
  assumes "wf_question q" and "cm_sound c buf"
  shows "\<exists>out c'. question_to_bytes q (buf, c) = Ok (buf @ out, c') \<and> out \<noteq> [] \<and> cm_sound c' (buf @ out) \<and>
     (\<forall>post. question_from_bytes idna (out @ post) (buf @ out @ post) (length buf) = Ok (q, length out))"
proof -
  from compress_question_name[OF assms] obtain out c' where
    c: "compress_name (dn_name (qname q)) buf (Some c) = Ok (length out, buf @ out, Some c')"
      "cm_sound c' (buf @ out)"
      "\<And>post. decompress_name (buf @ out @ post) (length buf) = Ok (length (buf @ out), dn_name (qname q))"
    by blast
  let ?out = "out @ put_u16 (u16_of_record_type (qtype q)) @ put_u16 (qclass q)"
  have new: "dn_new idna (dn_name (qname q)) = Ok (qname q)"
    using assms(1) dn_new_valid[of "qname q" idna] by (auto simp: wf_question_def dn_new_root)
  have "question_from_bytes idna (?out @ post) (buf @ ?out @ post) (length buf) = Ok (q, length ?out)" for post
    using new assms(1) c(3)[of "put_u16 (u16_of_record_type (qtype q)) @ put_u16 (qclass q) @ post"]
    by (simp add: question_from_bytes_def put_u16_def be16_put Let_def question_new_def wf_question_def
        canonical_rtype_def numeral_2_eq_2 numeral_3_eq_3)
  with c cm_sound_append[OF c(2), of "put_u16 (u16_of_record_type (qtype q)) @ put_u16 (qclass q)"] show ?thesis
    by (intro exI[of _ ?out] exI[of _ c']) (auto simp: question_to_bytes_def put_u16_def)
qed

lemma rr_at:
  assumes "wf_rr rr" and "cm_sound c buf"
  shows "\<exists>out c'. serialize_rr rr (buf, c) = Ok (buf @ out, c') \<and> out \<noteq> [] \<and> cm_sound c' (buf @ out) \<and>
     (\<forall>post. rr_parse (length buf, out @ post) (buf @ out @ post) = Ok ((length (buf @ out), post), rr))"
proof -
  from assms(1) obtain rd where rd: "serialize_rdata (rr_data rr) = Ok rd" "length rd < 65536"
    by (auto simp: wf_rr_def split: outcome.splits)
  from assms have "wire_domain (rr_name rr)" by (simp add: wf_rr_def)
  from compress_wire_domain[OF this assms(2)] obtain nm c' where
    c: "compress_name (dn_name (rr_name rr)) buf (Some c) = Ok (length nm, buf @ nm, Some c')" "nm \<noteq> []"
      "cm_sound c' (buf @ nm)"
      "\<And>post. from_wire (buf @ nm @ post) (length buf) = Ok (rr_name rr, length (buf @ nm))"
    by blast
  define fixed where "fixed = put_u16 (u16_of_record_type (rr_type rr)) @ put_u16 (rr_class rr) @
    put_u32 (rr_ttl rr) @ put_u16 (of_nat (length rd))"
  let ?out = "nm @ fixed @ rd"
  have "rr_parse (length buf, ?out @ post) (buf @ ?out @ post) = Ok ((length (buf @ ?out), post), rr)" for post
  proof -
    let ?msg = "buf @ ?out @ post"
    have "parse_domain_name (length buf, ?out @ post) ?msg =
        Ok ((length buf + length nm, fixed @ rd @ post), rr_name rr)"
      using c(4)[of "fixed @ rd @ post"] by (simp add: parse_domain_name_def Let_def)
    moreover have "parse_rdata (length buf + length nm + 10, rd) ?msg (rr_type rr) (of_nat (length rd)) = Ok (rr_data rr)"
      using rdata_round_trip[of "rr_type rr" "rr_data rr" rd "of_nat (length rd)" ?msg "length buf + length nm + 10"]
        assms rd occurs_at_middle[of "buf @ nm @ fixed" rd post]
      by (simp add: wf_rr_def unat_of_nat_u16 fixed_def ac_simps)
    ultimately show ?thesis using assms rd
      by (simp add: rr_parse_def fixed_def wf_rr_def canonical_rtype_def unat_of_nat_u16 rr_new_def Let_def ac_simps)
  qed
  with c cm_sound_append[OF c(3), of "fixed @ rd"] rd show ?thesis
    by (intro exI[of _ ?out] exI[of _ c']) (auto simp: serialize_rr_def fixed_def)
qed

lemma questions_at:
  assumes "\<forall>q\<in>set qs. wf_question q" and "cm_sound c buf"
  shows "\<exists>out c'. write_all question_to_bytes qs (buf, c) = Ok (buf @ out, c') \<and> cm_sound c' (buf @ out) \<and>
     (\<forall>post. parse_questions idna (buf @ out @ post) (length qs) (length buf) = Ok (qs, length (buf @ out)))"
  using assms
proof (induction qs arbitrary: buf c)
  case (Cons q qs)
  then obtain o1 c1 where 1: "question_to_bytes q (buf, c) = Ok (buf @ o1, c1)" "o1 \<noteq> []"
    "cm_sound c1 (buf @ o1)"
    "\<And>post. question_from_bytes idna (o1 @ post) (buf @ o1 @ post) (length buf) = Ok (q, length o1)"
    using question_at[of q c buf idna] by auto
  with Cons.prems Cons.IH[OF _ 1(3)] obtain o2 c2 where
    2: "write_all question_to_bytes qs (buf @ o1, c1) = Ok ((buf @ o1) @ o2, c2)"
      "cm_sound c2 ((buf @ o1) @ o2)"
      "\<And>post. parse_questions idna ((buf @ o1) @ o2 @ post) (length qs) (length (buf @ o1)) =
         Ok (qs, length ((buf @ o1) @ o2))" by auto
  from 1 2 show ?case
    by (intro exI[of _ "o1 @ o2"] exI[of _ c2]) (simp add: add.assoc)
qed simp

lemma section_at:
  assumes "\<forall>rr\<in>set rrs. wf_rr rr" and "cm_sound c buf"
  shows "\<exists>out c'. write_all serialize_rr rrs (buf, c) = Ok (buf @ out, c') \<and> cm_sound c' (buf @ out) \<and>
     (\<forall>post t e. parse_section t e (buf @ out @ post) (length rrs) (length buf) = Ok (rrs, length (buf @ out)))"
  using assms
proof (induction rrs arbitrary: buf c)
  case (Cons rr rrs)
  then obtain o1 c1 where 1: "serialize_rr rr (buf, c) = Ok (buf @ o1, c1)" "o1 \<noteq> []"
    "cm_sound c1 (buf @ o1)"
    "\<And>post. rr_parse (length buf, o1 @ post) (buf @ o1 @ post) = Ok ((length (buf @ o1), post), rr)"
    using rr_at[of rr c buf] by auto
  with Cons.prems Cons.IH[OF _ 1(3)] obtain o2 c2 where
    2: "write_all serialize_rr rrs (buf @ o1, c1) = Ok ((buf @ o1) @ o2, c2)"
      "cm_sound c2 ((buf @ o1) @ o2)"
      "\<And>post t e. parse_section t e ((buf @ o1) @ o2 @ post) (length rrs) (length (buf @ o1)) =
         Ok (rrs, length ((buf @ o1) @ o2))" by auto
  from 1 2 show ?case
    by (intro exI[of _ "o1 @ o2"] exI[of _ c2]) (simp add: add.assoc)
qed simp

lemma message_round_trip:
  assumes "wf_message m"
  shows "\<exists>bs. message_to_bytes m = Ok bs \<and> message_from_bytes idna bs = Ok (m\<lparr>header := counted_header m\<rparr>)"
proof -
  let ?h = "header_to_bytes (counted_header m) []"
  have h: "length ?h = 12" by (simp add: header_to_bytes_def split: prod.split)
  from assms have wf: "\<forall>q\<in>set (questions m). wf_question q" "\<forall>rr\<in>set (answers m). wf_rr rr"
    "\<forall>rr\<in>set (authority m). wf_rr rr" "\<forall>rr\<in>set (additional m). wf_rr rr" by (auto simp: wf_message_def)
  from questions_at[OF wf(1) cm_sound_new, of ?h idna] obtain q c1 where
    1: "write_all question_to_bytes (questions m) (?h, cm_new) = Ok (?h @ q, c1)" "cm_sound c1 (?h @ q)"
      "\<And>post. parse_questions idna (?h @ q @ post) (length (questions m)) 12 = Ok (questions m, 12 + length q)"
    by (auto simp: h)
  from section_at[OF wf(2) 1(2)] obtain a c2 where
    2: "write_all serialize_rr (answers m) (?h @ q, c1) = Ok (?h @ q @ a, c2)" "cm_sound c2 (?h @ q @ a)"
      "\<And>post t e. parse_section t e (?h @ q @ a @ post) (length (answers m)) (12 + length q) =
         Ok (answers m, 12 + length q + length a)" by (auto simp: h add.assoc)
  from section_at[OF wf(3) 2(2)] obtain u c3 where
    3: "write_all serialize_rr (authority m) (?h @ q @ a, c2) = Ok (?h @ q @ a @ u, c3)" "cm_sound c3 (?h @ q @ a @ u)"
      "\<And>post t e. parse_section t e (?h @ q @ a @ u @ post) (length (authority m)) (12 + length q + length a) =
         Ok (authority m, 12 + length q + length a + length u)" by (auto simp: h add.assoc)
  from section_at[OF wf(4) 3(2)] obtain d c4 where
    4: "write_all serialize_rr (additional m) (?h @ q @ a @ u, c3) = Ok (?h @ q @ a @ u @ d, c4)"
      "\<And>post t e. parse_section t e (?h @ q @ a @ u @ d @ post) (length (additional m))
         (12 + length q + length a + length u) = Ok (additional m, 12 + length q + length a + length u + length d)"
    by (auto simp: h add.assoc)
  have "message_to_bytes m = Ok (?h @ q @ a @ u @ d)"
    by (simp add: message_to_bytes_def Let_def 1(1) 2(1) 3(1) 4(1))
  moreover have "message_from_bytes idna (?h @ q @ a @ u @ d) = Ok (m\<lparr>header := counted_header m\<rparr>)"
  proof -
    have n: "unat (hdr_qdcount (counted_header m)) = length (questions m)"
      "unat (hdr_ancount (counted_header m)) = length (answers m)"
      "unat (hdr_nscount (counted_header m)) = length (authority m)"
      "unat (hdr_arcount (counted_header m)) = length (additional m)"
      using assms by (simp_all add: counted_header_def wf_message_def unat_of_nat_u16)
    show ?thesis
      unfolding message_from_bytes_def header_round_trip using 4(2)[of _ _ "[]"]
      by (simp add: 1(3) 2(3) 3(3) n)
  qed
  ultimately show ?thesis by blast
qed

subsection \<open>Parsing arbitrary bytes\<close>

lemma question_from_bytes_not_Panic:
  assumes "offset \<le> length packet"
  shows "question_from_bytes idna (drop offset packet) packet offset \<noteq> Panic"
proof -
  have e: "offset \<le> e \<and> e \<le> length packet" if "decompress_name packet offset = Ok (e, s)" for e s
    using that wire_name_bounds unfolding decompress_name_iff by fastforce
  show ?thesis using decompress_name_not_Panic[of packet offset]
    by (auto simp: question_from_bytes_def rust_simps Let_def dest!: e)
qed

lemma parse_questions_not_Panic: "parse_questions idna packet n offset \<noteq> Panic"
  by (induction n arbitrary: offset) (auto simp: rust_simps question_from_bytes_not_Panic)

lemma parse_section_not_Panic: "parse_section t e packet n offset \<noteq> Panic"
  by (induction n arbitrary: offset)
    (auto simp: rust_simps Let_def rr_parse_not_Panic dest!: rr_parse_consumes)

lemma message_from_bytes_not_Panic: "message_from_bytes idna packet \<noteq> Panic"
  by (auto simp: message_from_bytes_def rust_simps header_from_bytes_def parse_questions_not_Panic
      parse_section_not_Panic)

lemma parse_questions_length: "parse_questions idna packet n offset = Ok (qs, e) \<Longrightarrow> length qs = n"
  by (induction n arbitrary: offset qs e) (auto simp: rust_simps split: if_splits)

lemma parse_section_length: "parse_section t f packet n offset = Ok (rrs, e) \<Longrightarrow> length rrs = n"
  by (induction n arbitrary: offset rrs e) (auto simp: rust_simps Let_def split: if_splits)

lemma parse_questions_bounds:
  "parse_questions idna packet n offset = Ok (qs, e) \<Longrightarrow> offset \<le> length packet \<Longrightarrow>
   offset + 5 * n \<le> e \<and> e \<le> length packet"
proof (induction n arbitrary: offset qs e)
  case (Suc n)
  then obtain q k qs' where q: "question_from_bytes idna (drop offset packet) packet offset = Ok (q, k)"
    "parse_questions idna packet n (offset + k) = Ok (qs', e)" "offset < length packet"
    by (auto simp: rust_simps split: if_splits)
  from q(1) obtain e' s where "decompress_name packet offset = Ok (e', s)" "k = e' - offset + 4"
    "k \<le> length packet - offset"
    by (auto simp: question_from_bytes_def rust_simps Let_def split: if_splits)
  moreover from this(1) have "offset < e'" "e' \<le> length packet"
    using wire_name_bounds unfolding decompress_name_iff by blast+
  ultimately have "offset + k \<le> length packet" "5 \<le> k" using q(3) by auto
  with Suc.IH[OF q(2)] show ?case by auto
qed auto

lemma parse_section_bounds:
  "parse_section t f packet n offset = Ok (rrs, e) \<Longrightarrow> offset \<le> length packet \<Longrightarrow>
   offset + 11 * n \<le> e \<and> e \<le> length packet"
proof (induction n arbitrary: offset rrs e)
  case (Suc n)
  then obtain sl rr rrs' where r: "rr_parse (offset, drop offset packet) packet = Ok (sl, rr)"
    "parse_section t f packet n (offset + (length packet - offset - length (snd sl))) = Ok (rrs', e)"
    "offset < length packet"
    by (auto simp: rust_simps Let_def split: if_splits)
  from rr_parse_consumes[OF r(1)] Suc.IH[OF r(2)] r(3) show ?case by auto
qed auto

lemma message_from_bytes_Ok:
  assumes "message_from_bytes idna packet = Ok m"
  shows "header_from_bytes packet = Ok (header m)"
    "length (questions m) = unat (hdr_qdcount (header m))" "length (answers m) = unat (hdr_ancount (header m))"
    "length (authority m) = unat (hdr_nscount (header m))" "length (additional m) = unat (hdr_arcount (header m))"
    "12 + 5 * length (questions m) + 11 * (length (answers m) + length (authority m) + length (additional m))
       \<le> length packet"
proof -
  from assms obtain h o1 o2 o3 o4 where *: "header_from_bytes packet = Ok h" "header m = h"
    "parse_questions idna packet (unat (hdr_qdcount h)) 12 = Ok (questions m, o1)"
    "parse_section ''Packet truncated in answer section'' ''Failed to parse answer RR''
        packet (unat (hdr_ancount h)) o1 = Ok (answers m, o2)"
    "parse_section ''Packet truncated in authority section'' ''Failed to parse authority RR''
        packet (unat (hdr_nscount h)) o2 = Ok (authority m, o3)"
    "parse_section ''Packet truncated in additional section'' ''Failed to parse additional RR''
        packet (unat (hdr_arcount h)) o3 = Ok (additional m, o4)"
    by (auto simp: message_from_bytes_def rust_simps)
  note len = parse_questions_length[OF *(3)] parse_section_length[OF *(4)] parse_section_length[OF *(5)]
    parse_section_length[OF *(6)]
  have "12 \<le> length packet" using *(1) by (auto simp: header_from_bytes_def split: if_splits)
  with parse_questions_bounds[OF *(3)] parse_section_bounds[OF *(4)] parse_section_bounds[OF *(5)]
    parse_section_bounds[OF *(6)] len
  show "header_from_bytes packet = Ok (header m)"
    "length (questions m) = unat (hdr_qdcount (header m))" "length (answers m) = unat (hdr_ancount (header m))"
    "length (authority m) = unat (hdr_nscount (header m))" "length (additional m) = unat (hdr_arcount (header m))"
    "12 + 5 * length (questions m) + 11 * (length (answers m) + length (authority m) + length (additional m))
       \<le> length packet"
    using *(1,2) by simp_all
qed

text \<open>The OPT record of a message, \<open>Edns0Handler::find_opt_in_message\<close> of \<open>src/dns/edns0.rs\<close>.\<close>

fun find_opt_from :: "nat \<Rightarrow> resource_record list \<Rightarrow> nat option" where
  "find_opt_from idx [] = None"
| "find_opt_from idx (rr # rrs) = (if rr_type rr = RT_OPT then Some idx else find_opt_from (Suc idx) rrs)"

definition find_opt_in_message :: "dns_message \<Rightarrow> nat option" where
  "find_opt_in_message m = find_opt_from 0 (additional m)"

subsection \<open>Properties\<close>

text \<open>
  C1: a well-formed message is serialized, with names compressed across all sections, and parsing the
  bytes returns the message with its header counts set to the section lengths.
\<close>

theorem message_serialize_parse:
  assumes "wf_message m"
  shows "\<exists>bs. message_to_bytes m = Ok bs \<and> message_from_bytes idna bs = Ok (m\<lparr>header := counted_header m\<rparr>)"
  using assms by (rule message_round_trip)

definition example_message :: dns_message where
  "example_message = \<lparr>header = header_new 7,
     questions = [\<lparr>qname = example_name, qtype = RT_A, qclass = 1\<rparr>],
     answers = [example_mx, rr_new example_name RT_A 1 60 (RD_A [10, 0, 0, 1])],
     authority = [], additional = [rr_new root_name RT_OPT 4096 0 (RD_Opt [])]\<rparr>"

lemma wf_example_message: "wf_message example_message"
proof -
  have "wf_rr (rr_new example_name RT_A 1 60 (RD_A [10, 0, 0, 1]))" "wf_rr (rr_new root_name RT_OPT 4096 0 (RD_Opt []))"
    by (simp_all add: wf_rr_def rr_new_def wire_domain_def valid_examples canonical_rtype_def record_type_of_u16_def)
  then show ?thesis
    by (simp add: wf_message_def example_message_def wf_example_mx wf_question_def valid_examples canonical_rtype_def
        record_type_of_u16_def)
qed

theorem message_serialize_parse_witness:
  "\<exists>bs. message_to_bytes example_message = Ok bs \<and>
     message_from_bytes (\<lambda>_. None) bs = Ok (example_message\<lparr>header := counted_header example_message\<rparr>)"
  by (rule message_serialize_parse[OF wf_example_message])

text \<open>
  C2: parsing any byte sequence as a message ends with a message or an error and never with an index or
  slice panic; the sections of a parsed message have exactly the lengths the header announces, and
  every question and record took at least 5 and 11 bytes of the packet, so the counts are bounded by its size.
\<close>

theorem message_parse_safe:
  "message_from_bytes idna packet \<noteq> Panic \<and>
   (\<forall>m. message_from_bytes idna packet = Ok m \<longrightarrow>
      header_from_bytes packet = Ok (header m) \<and>
      length (questions m) = unat (hdr_qdcount (header m)) \<and> length (answers m) = unat (hdr_ancount (header m)) \<and>
      length (authority m) = unat (hdr_nscount (header m)) \<and> length (additional m) = unat (hdr_arcount (header m)) \<and>
      12 + 5 * length (questions m) + 11 * (length (answers m) + length (authority m) + length (additional m))
        \<le> length packet)"
  using message_from_bytes_Ok[of idna packet] message_from_bytes_not_Panic[of idna packet] by blast

theorem message_parse_safe_witness:
  "message_from_bytes (\<lambda>_. None) [0, 7, 0, 0, 0, 0, 0, 0, 0, 0, 0, 0] = Ok (message_new 7) \<and>
   header_from_bytes [0, 7, 0, 0, 0, 0, 0, 0, 0, 0, 0, 0] = Ok (header (message_new 7))"
proof -
  have "message_from_bytes (\<lambda>_. None) [0, 7, 0, 0, 0, 0, 0, 0, 0, 0, 0, 0] = Ok (message_new 7)"
    by (simp add: message_from_bytes_def header_from_bytes_def be16_def flags_from_bytes_def message_new_def
        header_new_def flags_new_def)
  with message_parse_safe[of "\<lambda>_. None" "[0, 7, 0, 0, 0, 0, 0, 0, 0, 0, 0, 0]"] show ?thesis by blast
qed

text \<open>
  The accessors of the flag word implement ten independent fields: each setter changes its own
  field and no other, the four-bit fields keep the low four bits of their argument, and the fields
  determine the word.
\<close>

theorem flags_refine_fields:
  "flags_abs (set_qr v f) = (flags_abs f)\<lparr>f_qr := v\<rparr> \<and>
   flags_abs (set_opcode w f) = (flags_abs f)\<lparr>f_opcode := w AND 0x0F\<rparr> \<and>
   flags_abs (set_aa v f) = (flags_abs f)\<lparr>f_aa := v\<rparr> \<and>
   flags_abs (set_tc v f) = (flags_abs f)\<lparr>f_tc := v\<rparr> \<and>
   flags_abs (set_rd v f) = (flags_abs f)\<lparr>f_rd := v\<rparr> \<and>
   flags_abs (set_ra v f) = (flags_abs f)\<lparr>f_ra := v\<rparr> \<and>
   flags_abs (set_ad v f) = (flags_abs f)\<lparr>f_ad := v\<rparr> \<and>
   flags_abs (set_cd v f) = (flags_abs f)\<lparr>f_cd := v\<rparr> \<and>
   flags_abs (set_rcode w f) = (flags_abs f)\<lparr>f_rcode := w AND 0x0F\<rparr> \<and>
   (flags_abs f = flags_abs g \<longleftrightarrow> f = g)"
  using flags_abs_set flags_abs_inj by blast

end
