(* ===== verification/Dns_Filter.thy ===== *)
theory Dns_Filter
  imports Message
begin

text \<open>
  The resource record filter, \<open>src/dns/filter.rs\<close>: which records a mode removes, the check that no compression
  pointer leads into a removed part of the packet, the rewriting of the packet without the removed
  parts, and \<open>apply_filter\<close>, which puts them together.  A range of bytes is a pair of its start and its end.
\<close>

subsection \<open>Model\<close>

datatype filter_mode = FM_Edns0 | FM_Dnssec | FM_AddressRecords | FM_PolicyBased

definition should_remove_record :: "resource_record \<Rightarrow> filter_mode \<Rightarrow> 'c option \<Rightarrow> bool" where
  "should_remove_record rr mode config =
     (case mode of
        FM_Edns0 \<Rightarrow> rr_type rr = RT_OPT
      | FM_Dnssec \<Rightarrow> rr_type rr \<in> {RT_RRSIG, RT_NSEC, RT_NSEC3, RT_DNSKEY, RT_DS}
      | FM_AddressRecords \<Rightarrow> rr_type rr \<in> {RT_A, RT_AAAA}
      | FM_PolicyBased \<Rightarrow> False)"

definition in_ranges :: "nat \<Rightarrow> (nat \<times> nat) list \<Rightarrow> bool" where
  "in_ranges i ranges \<longleftrightarrow> list_ex (\<lambda>(s, e). s \<le> i \<and> i < e) ranges"

text \<open>The variable \<open>first_pointer\<close> of the loop is set but never read, and left out.\<close>

function check_name_compression :: "(nat \<times> nat) list \<Rightarrow> bytes \<Rightarrow> nat \<Rightarrow> nat \<Rightarrow> (nat, dns_error) outcome" where
  "check_name_compression removed packet offset hops =
     (if length packet \<le> offset then Err (ParseFailed ''packet'' ''Name offset out of bounds'')
      else if packet ! offset = 0 then Ok (offset + 1)
      else if packet ! offset AND 0xC0 = 0xC0 then
        if length packet \<le> offset + 1 then Err (ParseFailed ''packet'' ''Incomplete compression pointer'')
        else if in_ranges (pointer_target (packet ! offset) (packet ! (offset + 1))) removed
          then Err (InvalidName (ascii ''compressed'') ''Compression pointer points to removed range'')
        else if 255 < hops + 1 then Err (ParseFailed ''packet'' ''Too many compression pointer hops'')
        else check_name_compression removed packet (pointer_target (packet ! offset) (packet ! (offset + 1))) (hops + 1)
      else if 63 < unat (packet ! offset) then Err (InvalidName (ascii ''parsed'') ''Label length exceeds maximum 63'')
      else if length packet < offset + (1 + unat (packet ! offset)) then Err (ParseFailed ''packet'' ''Label extends beyond packet'')
      else check_name_compression removed packet (offset + (1 + unat (packet ! offset))) hops)"
  by pat_completeness auto
termination
  by (relation "measures [\<lambda>(_, _, _, hops). 255 - hops, \<lambda>(_, packet, offset, _). length packet - offset]") auto

declare check_name_compression.simps [simp del]

fun check_questions :: "(nat \<times> nat) list \<Rightarrow> bytes \<Rightarrow> nat \<Rightarrow> nat \<Rightarrow> (nat, dns_error) outcome" where
  "check_questions removed packet 0 offset = Ok offset"
| "check_questions removed packet (Suc n) offset =
     rbind (check_name_compression removed packet offset 0) (\<lambda>offset. check_questions removed packet n (offset + 4))"

fun check_records :: "(nat \<times> nat) list \<Rightarrow> bytes \<Rightarrow> nat \<Rightarrow> nat \<Rightarrow> (nat, dns_error) outcome" where
  "check_records removed packet 0 offset = Ok offset"
| "check_records removed packet (Suc n) offset =
     rbind (check_name_compression removed packet offset 0) (\<lambda>offset.
       let offset = offset + 8 in
       if length packet < offset + 2 then Err (ParseFailed ''packet'' ''Incomplete RDLENGTH'')
       else check_records removed packet n (offset + 2 + unat (be16 (packet ! offset) (packet ! (offset + 1)))))"

definition check_compression_integrity :: "bytes \<Rightarrow> (nat \<times> nat) list \<Rightarrow> (unit, dns_error) outcome" where
  "check_compression_integrity packet removed =
     (if length packet < 12 then Err (ParseFailed ''packet'' ''Packet too short for DNS header'')
      else
        let qdcount = unat (be16 (packet ! 4) (packet ! 5));
            ancount = unat (be16 (packet ! 6) (packet ! 7));
            nscount = unat (be16 (packet ! 8) (packet ! 9));
            arcount = unat (be16 (packet ! 10) (packet ! 11)) in
        rbind (check_questions removed packet qdcount 12) (\<lambda>offset.
        rbind (check_records removed packet (ancount + nscount + arcount) offset) (\<lambda>_. Ok ())))"

definition saturating_sub :: "u16 \<Rightarrow> u16 \<Rightarrow> u16" where
  "saturating_sub a b = (if b \<le> a then a - b else 0)"

function copy_kept :: "bytes \<Rightarrow> (nat \<times> nat) list \<Rightarrow> nat \<Rightarrow> bytes \<Rightarrow> bytes" where
  "copy_kept original removed offset new_packet =
     (if offset < length original then
        (case removed of
           (s, e) # rest \<Rightarrow>
             if s \<le> offset then copy_kept original rest e new_packet
             else let copy_end = min s (length original) in
               copy_kept original removed copy_end (new_packet @ slice offset copy_end original)
         | [] \<Rightarrow> new_packet @ slice offset (length original) original)
      else new_packet)"
  by pat_completeness auto
termination
  by (relation "measures [\<lambda>(_, removed, _, _). length removed, \<lambda>(original, _, offset, _). length original - offset]")
    (auto simp: Let_def)

declare copy_kept.simps [simp del]

definition removed_in :: "nat \<Rightarrow> (nat \<times> nat) list \<Rightarrow> nat \<times> nat \<times> nat" where
  "removed_in len removed =
     (length (filter (\<lambda>(s, e). s < len div 3) removed),
      length (filter (\<lambda>(s, e). \<not> s < len div 3 \<and> s < len * 2 div 3) removed),
      length (filter (\<lambda>(s, e). \<not> s < len div 3 \<and> \<not> s < len * 2 div 3) removed))"

definition rewrite_packet_bytes :: "bytes \<Rightarrow> (nat \<times> nat) list \<Rightarrow> bytes" where
  "rewrite_packet_bytes original removed =
     (let (r_an, r_ns, r_ar) = removed_in (length original) removed;
          p = copy_kept original removed 12 (take 12 original);
          ancount = saturating_sub (be16 (p ! 4) (p ! 5)) (of_nat r_an);
          nscount = saturating_sub (be16 (p ! 6) (p ! 7)) (of_nat r_ns);
          arcount = saturating_sub (be16 (p ! 8) (p ! 9)) (of_nat r_ar) in
      take 4 p @ put_u16 ancount @ put_u16 nscount @ put_u16 arcount @ drop 10 p)"

definition rewrite_packet :: "(bytes \<Rightarrow> bytes option) \<Rightarrow> dns_message \<Rightarrow> (nat \<times> nat) list \<Rightarrow> (dns_message, dns_error) outcome" where
  "rewrite_packet idna message removed =
     (if removed = [] then Ok message
      else rbind (message_to_bytes message) (\<lambda>original. message_from_bytes idna (rewrite_packet_bytes original removed)))"

text \<open>The records to remove are found but, apart from a trace message, nothing is done about them.\<close>

definition identify_records_to_remove :: "dns_message \<Rightarrow> filter_mode \<Rightarrow> 'c option \<Rightarrow> ((nat \<times> nat) list, dns_error) outcome" where
  "identify_records_to_remove message mode config =
     (if mode = FM_PolicyBased \<and> config = None then Ok []
      else rbind (message_to_bytes message) (\<lambda>_. Ok []))"

definition apply_filter :: "(bytes \<Rightarrow> bytes option) \<Rightarrow> dns_message \<Rightarrow> filter_mode \<Rightarrow> 'c option \<Rightarrow> (dns_message, dns_error) outcome" where
  "apply_filter idna message mode config =
     rbind (message_to_bytes message) (\<lambda>packet.
     rbind (identify_records_to_remove message mode config) (\<lambda>removed.
       if removed = [] then Ok message
       else rbind (check_compression_integrity packet removed) (\<lambda>_. rewrite_packet idna message removed)))"

subsection \<open>The compression check as a walk\<close>

fun check_event :: "(nat \<times> nat) list \<Rightarrow> bytes \<Rightarrow> nat \<Rightarrow> wire_event \<Rightarrow> (nat, dns_error) outcome" where
  "check_event removed p hops (Hop a t) =
     (if in_ranges t removed then Err (InvalidName (ascii ''compressed'') ''Compression pointer points to removed range'')
      else if 255 < hops + 1 then Err (ParseFailed ''packet'' ''Too many compression pointer hops'')
      else Ok (hops + 1))"
| "check_event removed p hops (Label l) = Ok hops"

lemma check_C0: "packet ! offset AND 0xC0 = 0xC0 \<Longrightarrow> packet ! offset \<noteq> (0 :: u8)" by (auto simp: and_C0_eq_C0)

interpretation check: name_walker "check_name_compression removed" "check_event removed" "\<lambda>_ e. e" "\<lambda>hops. 255 - hops"
proof (unfold_locales, goal_cases)
  case (1 off p st) then show ?case by (subst check_name_compression.simps) simp
next
  case (2 off p t st) then show ?case by (subst check_name_compression.simps) (auto dest: check_C0)
next
  case (3 off p n st)
  then have "p ! off AND 0xC0 \<noteq> 0xC0" by (auto simp: and_C0_eq_C0)
  with 3 show ?case by (subst check_name_compression.simps) simp
next
  case (4 p off st) then show ?case by (subst check_name_compression.simps) simp
next
  case (5 off p st) then show ?case by (subst check_name_compression.simps) (auto dest: check_C0)
next
  case (6 off p st) then show ?case by (subst check_name_compression.simps) auto
next
  case (9 p st ev) then show ?case by (cases ev) auto
qed (auto split: if_splits)

lemma run_check:
  "hops \<le> 255 \<Longrightarrow> run_events (check_event removed p) hops es = Ok hops' \<longleftrightarrow>
   hops' = hops + ev_hops es \<and> hops + ev_hops es \<le> 255 \<and> (\<forall>a t. Hop a t \<in> set es \<longrightarrow> \<not> in_ranges t removed)"
proof (induction es arbitrary: hops)
  case (Cons ev es)
  then show ?case by (cases ev) auto
qed auto

subsection \<open>Copying what is kept\<close>

definition kept :: "bytes \<Rightarrow> (nat \<times> nat) list \<Rightarrow> nat \<Rightarrow> bytes" where
  "kept original removed offset = map ((!) original) (filter (\<lambda>i. \<not> in_ranges i removed) [offset ..< length original])"

fun ordered_ranges :: "nat \<Rightarrow> (nat \<times> nat) list \<Rightarrow> bool" where
  "ordered_ranges offset [] \<longleftrightarrow> True"
| "ordered_ranges offset ((s, e) # rest) \<longleftrightarrow> offset \<le> s \<and> s \<le> e \<and> ordered_ranges e rest"

lemma in_ranges_Cons: "in_ranges i ((s, e) # rest) \<longleftrightarrow> s \<le> i \<and> i < e \<or> in_ranges i rest"
  by (simp add: in_ranges_def)

lemma ordered_above: "ordered_ranges offset rest \<Longrightarrow> in_ranges i rest \<Longrightarrow> offset \<le> i"
  by (induction offset rest rule: ordered_ranges.induct) (auto simp: in_ranges_Cons in_ranges_def)

lemma slice_nth: "a \<le> b \<Longrightarrow> b \<le> length xs \<Longrightarrow> slice a b xs = map ((!) xs) [a ..< b]"
  by (rule nth_equalityI) (auto simp: slice_def)

lemma kept_step:
  assumes "offset \<le> m" "m \<le> length original" "\<And>i. offset \<le> i \<Longrightarrow> i < m \<Longrightarrow> \<not> in_ranges i removed"
  shows "kept original removed offset = slice offset m original @ kept original removed m"
proof -
  have "[offset ..< length original] = [offset ..< m] @ [m ..< length original]"
    using upt_add_eq_append[of offset m "length original - m"] assms(1,2) by simp
  then show ?thesis using assms by (simp add: kept_def slice_nth)
qed

lemma kept_skip:
  assumes "s \<le> e" "ordered_ranges e rest"
  shows "kept original ((s, e) # rest) s = kept original rest e"
proof (cases "e \<le> length original")
  case True
  have "[s ..< length original] = [s ..< e] @ [e ..< length original]"
    using upt_add_eq_append[of s e "length original - e"] assms(1) True by simp
  moreover have "filter (\<lambda>i. \<not> in_ranges i ((s, e) # rest)) [e ..< length original] = filter (\<lambda>i. \<not> in_ranges i rest) [e ..< length original]"
    by (rule filter_cong) (auto simp: in_ranges_Cons)
  ultimately show ?thesis by (simp add: kept_def in_ranges_Cons)
qed (auto simp: kept_def in_ranges_Cons)

lemma copy_kept_spec:
  "ordered_ranges offset removed \<Longrightarrow> copy_kept original removed offset acc = acc @ kept original removed offset"
proof (induction removed arbitrary: offset acc)
  case Nil
  then show ?case by (subst copy_kept.simps) (simp add: kept_def in_ranges_def slice_nth)
next
  case (Cons r rest)
  obtain s e where r: "r = (s, e)" by fastforce
  from Cons.prems r have se: "offset \<le> s" "s \<le> e" "ordered_ranges e rest" by auto
  have at_s: "copy_kept original (r # rest) s acc = acc @ kept original (r # rest) s" for acc
    using Cons.IH[OF se(3)] kept_skip[OF se(2,3), of original] by (subst copy_kept.simps) (auto simp: r kept_def)
  show ?case
  proof (cases "s = offset \<or> length original \<le> offset")
    case True
    then show ?thesis
    proof
      assume "length original \<le> offset"
      then show ?thesis by (subst copy_kept.simps) (simp add: kept_def)
    qed (use at_s in blast)
  next
    case False
    let ?m = "min s (length original)"
    have "copy_kept original (r # rest) offset acc = copy_kept original (r # rest) ?m (acc @ slice offset ?m original)"
      using False se(1) by (subst copy_kept.simps) (simp add: r Let_def)
    also have "\<dots> = (acc @ slice offset ?m original) @ kept original (r # rest) ?m"
      using at_s by (cases "s \<le> length original") (auto simp: min_def, subst copy_kept.simps, simp add: kept_def)
    also have "\<dots> = acc @ kept original (r # rest) offset"
      using kept_step[of offset ?m original "r # rest"] ordered_above[OF se(3)] False se(1,2)
      by (fastforce simp: r in_ranges_Cons)
    finally show ?thesis .
  qed
qed


subsection \<open>The rewritten header\<close>

lemma rewrite_header:
  assumes "length original \<ge> 12" and "header_from_bytes original = Ok h"
    and "removed_in (length original) removed = (r_an, r_ns, r_ar)" and "ordered_ranges 12 removed"
  shows "rewrite_packet_bytes original removed = take 4 original @ put_u16 (saturating_sub (hdr_qdcount h) (of_nat r_an)) @
      put_u16 (saturating_sub (hdr_ancount h) (of_nat r_ns)) @ put_u16 (saturating_sub (hdr_nscount h) (of_nat r_ar)) @
      slice 10 12 original @ kept original removed 12"
proof -
  let ?p = "copy_kept original removed 12 (take 12 original)"
  have p: "?p = take 12 original @ kept original removed 12" by (rule copy_kept_spec[OF assms(4)])
  have "?p ! i = original ! i" if "i < 12" for i unfolding p using assms(1) that by (simp add: nth_append)
  moreover have "take 4 ?p = take 4 original" "drop 10 ?p = slice 10 12 original @ kept original removed 12"
    unfolding p using assms(1) by (simp_all add: slice_def drop_take)
  ultimately show ?thesis
    using assms(2,3) by (auto simp: rewrite_packet_bytes_def header_from_bytes_def Let_def split: if_splits)
qed

subsection \<open>Properties\<close>

text \<open>
  The check of a name accepts exactly the names whose encoding ends after at most 255 compression pointers none of
  which leads into a removed range; it always terminates, never panics, and its result is the end of
  the last piece of the name, which for a compressed name is not the end of its encoding.
\<close>

theorem check_name_spec:
  "(check_name_compression removed p off 0 = Ok e \<longleftrightarrow>
      (\<exists>es. wire_walk p off es e \<and> ev_hops es \<le> 255 \<and> (\<forall>a t. Hop a t \<in> set es \<longrightarrow> \<not> in_ranges t removed))) \<and>
   check_name_compression removed p off 0 \<noteq> Panic"
  by (auto simp: check.walk_Ok_iff run_check check.walk_not_Panic)

theorem check_name_spec_witness:
  "check_name_compression [(20, 30)] [0, 1, 0x61, 0, 0xC0, 1] 4 0 = Ok 4"
proof -
  have "wire_walk [0, 1, 0x61, 0, 0xC0, 1] 3 [] 4" using wire_walk.stop[of 3 "[0, 1, 0x61, 0, 0xC0, 1]"] by simp
  then have "wire_walk [0, 1, 0x61, 0, 0xC0, 1] 1 [Label [0x61]] 4"
    using wire_walk.step_label[of 1 "[0, 1, 0x61, 0, 0xC0, 1]" 1] by (simp add: slice_def numeral_3_eq_3)
  then have "wire_walk [0, 1, 0x61, 0, 0xC0, 1] 4 [Hop 4 1, Label [0x61]] 4"
    using wire_walk.step_hop[of 4 "[0, 1, 0x61, 0, 0xC0, 1]" 1] by (simp add: pointer_target_eq)
  then show ?thesis using check_name_spec[of "[(20, 30)]" "[0, 1, 0x61, 0, 0xC0, 1]" 4 4]
    by (force simp: in_ranges_def)
qed

text \<open>
  Rewriting: the bytes after the header are exactly those outside the removed ranges, in order; but the
  counts of removed records, themselves guessed from the position in the packet, are subtracted from
  the fields before those they belong to.
\<close>

theorem rewrite_packet_spec:
  assumes "12 \<le> length original" and "header_from_bytes original = Ok h"
    and "removed_in (length original) removed = (r_an, r_ns, r_ar)" and "ordered_ranges 12 removed"
  shows "drop 12 (rewrite_packet_bytes original removed) = kept original removed 12 \<and>
    header_from_bytes (rewrite_packet_bytes original removed) = Ok (h\<lparr>hdr_qdcount := saturating_sub (hdr_qdcount h) (of_nat r_an),
      hdr_ancount := saturating_sub (hdr_ancount h) (of_nat r_ns), hdr_nscount := saturating_sub (hdr_nscount h) (of_nat r_ar)\<rparr>)"
proof -
  obtain b0 b1 b2 b3 b4 b5 b6 b7 b8 b9 b10 b11 r where o: "original = [b0, b1, b2, b3, b4, b5, b6, b7, b8, b9, b10, b11] @ r"
    using assms(1) by (auto simp: Suc_le_length_iff numeral_eq_Suc)
  have h: "h = \<lparr>hdr_id = be16 b0 b1, hdr_flags = flags_from_bytes b2 b3, hdr_qdcount = be16 b4 b5, hdr_ancount = be16 b6 b7,
      hdr_nscount = be16 b8 b9, hdr_arcount = be16 b10 b11\<rparr>"
    using assms(2) by (simp add: o header_from_bytes_def)
  show ?thesis unfolding rewrite_header[OF assms]
    by (simp add: o slice_def put_u16_def header_from_bytes_def h be16_put numeral_2_eq_2 numeral_3_eq_3)
qed

text \<open>
  No mode of the filter removes anything: \<open>apply_filter\<close> returns the message as it was whenever the message
  can be serialized, and the serializer's error otherwise.
\<close>

theorem filter_removes_nothing:
  "apply_filter idna m mode config =
     (case message_to_bytes m of Ok _ \<Rightarrow> Ok m | Err e \<Rightarrow> Err e | Panic \<Rightarrow> Panic)"
  by (cases "message_to_bytes m") (simp_all add: apply_filter_def identify_records_to_remove_def)

end
