(* ===== verification/Matcher.thy ===== *)
theory Matcher
  imports Domain_Name "HOL-Library.AList"
begin

text \<open>
  Domain pattern matching, \<open>src/dns/matcher.rs\<close>: the pattern table, the longest match and all matches.
  The table, a \<open>BTreeMap\<close> that is only read by key, is an association list.  The servers of a pattern
  are never inspected and stay abstract (\<open>'s\<close>).  \<open>lc\<close> is \<open>str::to_lowercase\<close>, of which only
  the values on ASCII strings matter (\<open>ascii_lowercase\<close>).
\<close>

subsection \<open>Server flags\<close>

record server_flags = sf_bits :: u16

definition flags_from_bits :: "u16 \<Rightarrow> server_flags" where
  "flags_from_bits b = \<lparr>sf_bits = b\<rparr>"

definition sf_contains :: "server_flags \<Rightarrow> server_flags \<Rightarrow> bool" where
  "sf_contains f g \<longleftrightarrow> sf_bits f AND sf_bits g = sf_bits g"

definition sf_union :: "server_flags \<Rightarrow> server_flags \<Rightarrow> server_flags" where
  "sf_union f g = \<lparr>sf_bits = sf_bits f OR sf_bits g\<rparr>"

definition sf_intersection :: "server_flags \<Rightarrow> server_flags \<Rightarrow> server_flags" where
  "sf_intersection f g = \<lparr>sf_bits = sf_bits f AND sf_bits g\<rparr>"

subsection \<open>Patterns and matches\<close>

record 's pattern_entry =
  pe_domain :: domain_name
  pe_servers :: "'s list"
  is_wildcard :: bool
  label_count :: nat

record 's match_result =
  mr_domain :: domain_name
  mr_servers :: "'s list"
  is_wildcard_match :: bool
  match_length :: nat

record 's domain_matcher =
  patterns :: "(bytes \<times> 's pattern_entry) list"
  has_wildcards :: bool

abbreviation star_dot :: bytes where "star_dot \<equiv> [0x2A, 0x2E]"

definition matcher_new :: "'s domain_matcher" where
  "matcher_new = \<lparr>patterns = [], has_wildcards = False\<rparr>"

definition matcher_with_capacity :: "nat \<Rightarrow> 's domain_matcher" where
  "matcher_with_capacity n = matcher_new"

definition normalize_pattern :: "(bytes \<Rightarrow> bytes) \<Rightarrow> domain_name \<Rightarrow> bytes" where
  "normalize_pattern lc domain = lc (dn_name domain)"

definition add_pattern :: "(bytes \<Rightarrow> bytes) \<Rightarrow> domain_name \<Rightarrow> 's list \<Rightarrow> 's domain_matcher \<Rightarrow> 's domain_matcher" where
  "add_pattern lc domain servers m =
     (let wild = take 2 (dn_name domain) = star_dot;
          m = (if wild then m\<lparr>has_wildcards := True\<rparr> else m);
          e = \<lparr>pe_domain = domain, pe_servers = servers, is_wildcard = wild, label_count = length (labels domain)\<rparr> in
      m\<lparr>patterns := AList.update (normalize_pattern lc domain) e (patterns m)\<rparr>)"

definition match_of :: "'s pattern_entry \<Rightarrow> bool \<Rightarrow> 's match_result" where
  "match_of e wild = \<lparr>mr_domain = pe_domain e, mr_servers = pe_servers e, is_wildcard_match = wild,
     match_length = label_count e\<rparr>"

definition exact_at :: "(bytes \<Rightarrow> bytes) \<Rightarrow> 's domain_matcher \<Rightarrow> bytes list \<Rightarrow> 's match_result option" where
  "exact_at lc m suffix_labels =
     (case map_of (patterns m) (lc (join dot suffix_labels)) of
        Some e \<Rightarrow> if \<not> is_wildcard e then Some (match_of e False) else None
      | None \<Rightarrow> None)"

definition wildcard_at :: "(bytes \<Rightarrow> bytes) \<Rightarrow> 's domain_matcher \<Rightarrow> bytes list \<Rightarrow> 's match_result option" where
  "wildcard_at lc m suffix_labels =
     (case map_of (patterns m) (lc (star_dot @ join dot suffix_labels)) of
        Some e \<Rightarrow> if is_wildcard e then Some (match_of e True) else None
      | None \<Rightarrow> None)"

text \<open>The loops over the start index; \<open>first\<close> tells index 0.\<close>

fun longest_loop :: "(bytes \<Rightarrow> bytes) \<Rightarrow> 's domain_matcher \<Rightarrow> bool \<Rightarrow> bytes list \<Rightarrow> 's match_result option" where
  "longest_loop lc m first [] = None"
| "longest_loop lc m first (l # ls) =
     (case exact_at lc m (l # ls) of
        Some r \<Rightarrow> Some r
      | None \<Rightarrow>
          (case (if has_wildcards m \<and> \<not> first then wildcard_at lc m (l # ls) else None) of
             Some r \<Rightarrow> Some r
           | None \<Rightarrow> longest_loop lc m False ls))"

definition find_longest_match :: "(bytes \<Rightarrow> bytes) \<Rightarrow> 's domain_matcher \<Rightarrow> domain_name \<Rightarrow> 's match_result option" where
  "find_longest_match lc m query = longest_loop lc m True (labels query)"

definition is_match :: "(bytes \<Rightarrow> bytes) \<Rightarrow> 's domain_matcher \<Rightarrow> domain_name \<Rightarrow> bool" where
  "is_match lc m query \<longleftrightarrow> find_longest_match lc m query \<noteq> None"

fun all_loop :: "(bytes \<Rightarrow> bytes) \<Rightarrow> 's domain_matcher \<Rightarrow> bool \<Rightarrow> bytes list \<Rightarrow> 's match_result list" where
  "all_loop lc m first [] = []"
| "all_loop lc m first (l # ls) =
     (case exact_at lc m (l # ls) of Some r \<Rightarrow> [r] | None \<Rightarrow> []) @
     (if has_wildcards m \<and> \<not> first then (case wildcard_at lc m (l # ls) of Some r \<Rightarrow> [r] | None \<Rightarrow> []) else []) @
     all_loop lc m False ls"

definition find_all_matches :: "(bytes \<Rightarrow> bytes) \<Rightarrow> 's domain_matcher \<Rightarrow> domain_name \<Rightarrow> 's match_result list" where
  "find_all_matches lc m query = sort_key (\<lambda>r. - int (match_length r)) (all_loop lc m True (labels query))"

definition pattern_count :: "'s domain_matcher \<Rightarrow> nat" where
  "pattern_count m = length (patterns m)"

definition matcher_clear :: "'s domain_matcher \<Rightarrow> 's domain_matcher" where
  "matcher_clear m = m\<lparr>patterns := [], has_wildcards := False\<rparr>"

subsection \<open>Specification\<close>

definition ascii_lowercase :: "(bytes \<Rightarrow> bytes) \<Rightarrow> bool" where
  "ascii_lowercase lc \<longleftrightarrow> (\<forall>s. is_ascii s \<longrightarrow> lc s = to_ascii_lowercase s)"

definition is_wild :: "domain_name \<Rightarrow> bool" where
  "is_wild d \<longleftrightarrow> take 2 (dn_name d) = star_dot"

text \<open>The name a pattern stands under: itself, or what follows the star.\<close>

definition pattern_base :: "domain_name \<Rightarrow> domain_name" where
  "pattern_base d = (if is_wild d then \<lparr>dn_name = drop 2 (dn_name d)\<rparr> else d)"

definition pattern_matches :: "domain_name \<Rightarrow> domain_name \<Rightarrow> bool" where
  "pattern_matches d q \<longleftrightarrow>
     is_subdomain_of q (pattern_base d) \<or> \<not> is_wild d \<and> dn_eq q d"

text \<open>Names as \<open>DomainName::new\<close> and \<open>new_pattern\<close> return them.\<close>

definition pattern_ok :: "domain_name \<Rightarrow> bool" where
  "pattern_ok d \<longleftrightarrow> is_ascii (dn_name d) \<and> trim_end dot (dn_name d) = dn_name d"

definition matcher_inv :: "(bytes \<Rightarrow> bytes) \<Rightarrow> 's domain_matcher \<Rightarrow> bool" where
  "matcher_inv lc m \<longleftrightarrow> distinct (map fst (patterns m)) \<and>
     (\<forall>(k, e)\<in>set (patterns m). pattern_ok (pe_domain e) \<and> k = to_ascii_lowercase (dn_name (pe_domain e)) \<and>
        is_wildcard e = is_wild (pe_domain e) \<and> label_count e = length (labels (pe_domain e)) \<and>
        (is_wildcard e \<longrightarrow> has_wildcards m))"

lemma matcher_inv_new: "matcher_inv lc matcher_new"
  by (simp add: matcher_inv_def matcher_new_def)

lemma matcher_inv_add:
  assumes "matcher_inv lc m" and "ascii_lowercase lc" and "pattern_ok d"
  shows "matcher_inv lc (add_pattern lc d ss m)"
proof -
  let ?e = "\<lparr>pe_domain = d, pe_servers = ss, is_wildcard = is_wild d, label_count = length (labels d)\<rparr>"
  have k: "normalize_pattern lc d = to_ascii_lowercase (dn_name d)"
    using assms(2,3) by (simp add: normalize_pattern_def ascii_lowercase_def pattern_ok_def)
  have u: "(k, e) \<in> set (AList.update k' e' xs) \<Longrightarrow> (k, e) = (k', e') \<or> (k, e) \<in> set xs" for k e k' e' and xs :: "('x \<times> 'y) list"
    by (induction xs) (auto split: if_splits)
  from assms show ?thesis unfolding matcher_inv_def
    by (auto simp: add_pattern_def Let_def is_wild_def[symmetric] k distinct_update dest!: u)
qed

lemma matcher_inv_clear: "matcher_inv lc (matcher_clear m)"
  by (simp add: matcher_inv_def matcher_clear_def)

lemma new_pattern_ok:
  assumes "new_pattern s = Ok d"
  shows "pattern_ok d"
proof -
  from assms have d: "dn_name d = trim_end dot s" "first_error pattern_label_error (labels d) = None"
    by (auto simp: new_pattern_def Let_def split: if_splits option.splits)
  then have ok: "\<forall>l\<in>set (split_on dot (dn_name d)). pattern_label_error l = None"
    by (simp add: first_error_None labels_def)
  have "b < 0x80" if "pattern_label_error l = None" "b \<in> set l" for b l
    using that name_char_facts(1)[of b]
    by (auto simp: pattern_label_error_def list_ex_iff ascii_def split: if_splits)
  then have "b < 0x80" if "b \<in> set (join dot ls)" "\<forall>l\<in>set ls. pattern_label_error l = None" for b ls
    using that by (induction dot ls rule: join.induct) (auto simp: word_less_nat_alt)
  from this[of _ "split_on dot (dn_name d)"] ok d(1) show ?thesis
    by (auto simp: pattern_ok_def is_ascii_def list_all_iff)
qed

lemma valid_name_pattern_ok: "valid_name d \<Longrightarrow> pattern_ok d"
  by (simp add: pattern_ok_def valid_name_ascii valid_name_shape(3))

subsection \<open>The loops\<close>

lemma longest_loop_all: "longest_loop lc m first ls = (case all_loop lc m first ls of [] \<Rightarrow> None | r # _ \<Rightarrow> Some r)"
  by (induction lc m first ls rule: longest_loop.induct) (auto split: option.splits list.splits)

lemma set_of_option_list: "set (case x of Some r \<Rightarrow> [r] | None \<Rightarrow> []) = set_option x"
  by (cases x) simp_all

lemma all_loop_Cons:
  "r \<in> set (all_loop lc m first (l # ls)) \<longleftrightarrow> exact_at lc m (l # ls) = Some r \<or>
     has_wildcards m \<and> \<not> first \<and> wildcard_at lc m (l # ls) = Some r \<or> r \<in> set (all_loop lc m False ls)"
proof (cases "has_wildcards m \<and> \<not> first")
  case True
  then show ?thesis unfolding all_loop.simps if_P[OF True] set_append set_of_option_list Un_iff by (simp add: elem_set)
next
  case False
  then show ?thesis unfolding all_loop.simps if_not_P[OF False] set_append set_of_option_list Un_iff
    by (auto simp add: elem_set)
qed

lemma set_all_loop:
  "r \<in> set (all_loop lc m first ls) \<longleftrightarrow>
   (\<exists>i<length ls. exact_at lc m (drop i ls) = Some r \<or>
      has_wildcards m \<and> (first \<longrightarrow> 0 < i) \<and> wildcard_at lc m (drop i ls) = Some r)"
proof (induction ls arbitrary: first)
  case (Cons l ls)
  have ex: "(\<exists>i<length (l # ls). P i) \<longleftrightarrow> P 0 \<or> (\<exists>i<length ls. P (Suc i))" for P
    by (auto simp: less_Suc_eq_0_disj)
  show ?case unfolding ex all_loop_Cons Cons.IH by simp
qed simp

text \<open>What the probes of the table find, for a valid query.\<close>

lemma valid_name_chars:
  assumes "valid_name q"
  shows "b \<in> set (dn_name q) \<Longrightarrow> b \<noteq> 0x2A"
proof -
  have "0x2A \<notin> set (join dot ls)" if "\<forall>l\<in>set ls. valid_label l" for ls
    using that by (induction dot ls rule: join.induct)
      (auto dest!: valid_label_chars simp: is_ascii_alphanumeric_def)
  from this[of "split_on dot (dn_name q)"] assms show "b \<in> set (dn_name q) \<Longrightarrow> b \<noteq> 0x2A"
    by (auto simp: valid_name_def)
qed

lemma join_drop_ascii: "is_ascii (join dot ls) \<Longrightarrow> is_ascii (join dot (drop i ls))"
proof (induction dot ls arbitrary: i rule: join.induct)
  case (3 l m ls)
  then show ?case by (cases i) (auto simp: is_ascii_def)
next
  case (2 l)
  then show ?case by (cases i) (auto simp: is_ascii_def)
qed simp

lemma lower_join: "to_ascii_lowercase (join dot ls) = join dot (map to_ascii_lowercase ls)"
  using to_lower_dot_iff[of dot] by (simp add: map_join)

lemma dot_in_lower: "dot \<in> to_lower ` set l \<longleftrightarrow> dot \<in> set l"
proof
  assume "dot \<in> to_lower ` set l"
  then obtain b where "b \<in> set l" "to_lower b = dot" by (metis imageE)
  then show "dot \<in> set l" by (simp add: to_lower_dot_iff)
next
  assume "dot \<in> set l"
  then show "dot \<in> to_lower ` set l" using to_lower_dot_iff[of dot] by (metis imageI)
qed

lemma lower_join_eq_iff:
  assumes "ls \<noteq> []" and "\<forall>l\<in>set ls. dot \<notin> set l"
  shows "to_ascii_lowercase (join dot ls) = to_ascii_lowercase s \<longleftrightarrow>
    map to_ascii_lowercase ls = map to_ascii_lowercase (split_on dot s)"
proof -
  have "\<forall>l\<in>set (map to_ascii_lowercase ls). dot \<notin> set l"
    using assms(2) by (simp add: dot_in_lower)
  then have "split_on dot (to_ascii_lowercase (join dot ls)) = map to_ascii_lowercase ls"
    unfolding lower_join using assms(1) by (intro split_on_join) auto
  then show ?thesis by (metis join_split_on split_on_map_to_lower)
qed

lemma suffix_facts:
  assumes "valid_name q" and "i < length (labels q)"
  shows "drop i (labels q) \<noteq> []" "\<forall>l\<in>set (drop i (labels q)). dot \<notin> set l"
    "is_ascii (join dot (drop i (labels q)))" "0x2A \<notin> set (join dot (drop i (labels q)))"
proof -
  have lab: "labels q = split_on dot (dn_name q)" using assms(1) by (rule valid_name_labels)
  show "drop i (labels q) \<noteq> []" using assms(2) by simp
  show "\<forall>l\<in>set (drop i (labels q)). dot \<notin> set l" unfolding lab using split_on_pieces in_set_dropD by metis
  show "is_ascii (join dot (drop i (labels q)))"
    using join_drop_ascii[of "labels q" i] valid_name_ascii[OF assms(1)] by (simp add: lab)
  have "set (join dot (drop i ls)) \<subseteq> set (join dot ls)" for ls :: "bytes list"
    by (induction dot ls arbitrary: i rule: join.induct) (case_tac i; auto)+
  from this[of "labels q"] show "0x2A \<notin> set (join dot (drop i (labels q)))"
    using valid_name_chars[OF assms(1)] by (auto simp: lab)
qed

lemma entry_lookup:
  assumes "matcher_inv lc m"
  shows "map_of (patterns m) k = Some e \<longleftrightarrow> (\<exists>k'. (k', e) \<in> set (patterns m)) \<and> k = to_ascii_lowercase (dn_name (pe_domain e))"
  using assms by (auto simp: matcher_inv_def map_of_eq_Some_iff)

lemma exact_at_iff:
  assumes "ascii_lowercase lc" and "matcher_inv lc m" and "valid_name q" and "i < length (labels q)"
  shows "exact_at lc m (drop i (labels q)) = Some r \<longleftrightarrow>
    (\<exists>k e. (k, e) \<in> set (patterns m) \<and> \<not> is_wild (pe_domain e) \<and> r = match_of e False \<and>
       map to_ascii_lowercase (drop i (labels q)) = map to_ascii_lowercase (labels (pe_domain e)))"
proof -
  note sf = suffix_facts[OF assms(3,4)]
  have lc: "lc (join dot (drop i (labels q))) = to_ascii_lowercase (join dot (drop i (labels q)))"
    using assms(1) sf(3) by (simp add: ascii_lowercase_def)
  have lab: "labels (pe_domain e) = split_on dot (dn_name (pe_domain e))" "is_wildcard e = is_wild (pe_domain e)"
    if "(k, e) \<in> set (patterns m)" for k e
    using assms(2) that by (auto simp: matcher_inv_def pattern_ok_def labels_def)
  have "exact_at lc m (drop i (labels q)) = Some r \<longleftrightarrow>
      (\<exists>e. map_of (patterns m) (to_ascii_lowercase (join dot (drop i (labels q)))) = Some e \<and> \<not> is_wildcard e \<and>
         r = match_of e False)"
    by (auto simp: exact_at_def lc split: option.splits)
  then show ?thesis
    unfolding entry_lookup[OF assms(2)] lower_join_eq_iff[OF sf(1,2)] using lab by metis
qed

lemma wildcard_at_iff:
  assumes "ascii_lowercase lc" and "matcher_inv lc m" and "valid_name q" and "i < length (labels q)"
  shows "wildcard_at lc m (drop i (labels q)) = Some r \<longleftrightarrow>
    (\<exists>k e. (k, e) \<in> set (patterns m) \<and> is_wild (pe_domain e) \<and> r = match_of e True \<and>
       map to_ascii_lowercase (drop i (labels q)) = map to_ascii_lowercase (labels (pattern_base (pe_domain e))))"
proof -
  note sf = suffix_facts[OF assms(3,4)]
  let ?s = "join dot (drop i (labels q))"
  have lc: "lc (star_dot @ ?s) = star_dot @ to_ascii_lowercase ?s"
    using assms(1) sf(3) by (simp add: ascii_lowercase_def is_ascii_def to_lower_def)
  have e: "is_wildcard e = is_wild (pe_domain e)"
    "is_wild (pe_domain e) \<Longrightarrow> star_dot @ to_ascii_lowercase ?s = to_ascii_lowercase (dn_name (pe_domain e)) \<longleftrightarrow>
      map to_ascii_lowercase (drop i (labels q)) = map to_ascii_lowercase (labels (pattern_base (pe_domain e)))"
    if "(k, e) \<in> set (patterns m)" for k e
  proof -
    from assms(2) that have ok: "pattern_ok (pe_domain e)" and "is_wildcard e = is_wild (pe_domain e)"
      by (auto simp: matcher_inv_def)
    then show "is_wildcard e = is_wild (pe_domain e)" by simp
    assume w: "is_wild (pe_domain e)"
    then obtain rest where n: "dn_name (pe_domain e) = star_dot @ rest"
      unfolding is_wild_def by (metis append_take_drop_id)
    with ok have "rest = [] \<or> last rest \<noteq> dot"
      using trim_end_last[of dot "dn_name (pe_domain e)"] by (auto simp: pattern_ok_def)
    then have "trim_end dot rest = rest" by (rule trim_end_id)
    then have "labels (pattern_base (pe_domain e)) = split_on dot rest"
      using w n by (simp add: pattern_base_def labels_def)
    moreover have "star_dot @ to_ascii_lowercase ?s = to_ascii_lowercase (dn_name (pe_domain e)) \<longleftrightarrow>
        to_ascii_lowercase ?s = to_ascii_lowercase rest"
      unfolding n by (simp add: to_lower_def)
    ultimately show "star_dot @ to_ascii_lowercase ?s = to_ascii_lowercase (dn_name (pe_domain e)) \<longleftrightarrow>
        map to_ascii_lowercase (drop i (labels q)) = map to_ascii_lowercase (labels (pattern_base (pe_domain e)))"
      using lower_join_eq_iff[OF sf(1,2), of rest] by simp
  qed
  have "wildcard_at lc m (drop i (labels q)) = Some r \<longleftrightarrow>
      (\<exists>e. map_of (patterns m) (star_dot @ to_ascii_lowercase ?s) = Some e \<and> is_wildcard e \<and> r = match_of e True)"
    unfolding wildcard_at_def lc by (auto split: option.splits)
  then show ?thesis unfolding entry_lookup[OF assms(2)] using e by metis
qed


subsection \<open>Matches\<close>

lemma merge_cases:
  assumes "\<And>k e. S k e \<Longrightarrow> W e \<Longrightarrow> H" and "\<And>e. \<not> W e \<Longrightarrow> E e = B e"
  shows "((\<exists>k e. S k e \<and> \<not> W e \<and> r = f e False \<and> E e) \<or> H \<and> Z \<and> (\<exists>k e. S k e \<and> W e \<and> r = f e True \<and> B e)) \<longleftrightarrow>
    (\<exists>k e. S k e \<and> r = f e (W e) \<and> (W e \<longrightarrow> Z) \<and> B e)" (is "?l \<longleftrightarrow> ?r")
proof
  assume ?l
  then show ?r using assms(2) by fastforce
next
  assume ?r
  then obtain k e where e: "S k e" "r = f e (W e)" "W e \<longrightarrow> Z" "B e" by blast
  show ?l
  proof (cases "W e")
    case True
    with e assms(1) show ?thesis by auto
  next
    case False
    with e assms(2) have "S k e \<and> \<not> W e \<and> r = f e False \<and> E e" by simp
    then show ?thesis by blast
  qed
qed

lemma find_all_matches_iff:
  assumes "ascii_lowercase lc" and "matcher_inv lc m" and "valid_name q"
  shows "r \<in> set (find_all_matches lc m q) \<longleftrightarrow>
    (\<exists>k e. (k, e) \<in> set (patterns m) \<and> pattern_matches (pe_domain e) q \<and> r = match_of e (is_wild (pe_domain e)))"
    (is "?l \<longleftrightarrow> ?r")
proof -
  let ?low = "map to_ascii_lowercase" and ?n = "length (labels q)"
  have base: "pattern_base d = d" if "\<not> is_wild d" for d using that by (simp add: pattern_base_def)
  have wild: "has_wildcards m" if "(k, e) \<in> set (patterns m)" "is_wild (pe_domain e)" for k e
    using assms(2) that by (auto simp: matcher_inv_def)
  have ne: "labels d \<noteq> []" for d by (simp add: labels_def)
  have sub: "is_subdomain_of q b \<longleftrightarrow> (\<exists>i<?n. 0 < i \<and> ?low (drop i (labels q)) = ?low (labels b))" for b
  proof
    assume "is_subdomain_of q b"
    then obtain pre where pre: "pre \<noteq> []" "?low (labels q) = pre @ ?low (labels b)"
      unfolding is_subdomain_of_iff by blast
    from pre(2) have "length (labels q) = length pre + length (labels b)" by (metis length_append length_map)
    with pre ne[of b] show "\<exists>i<?n. 0 < i \<and> ?low (drop i (labels q)) = ?low (labels b)"
      by (intro exI[of _ "length pre"]) (simp add: drop_map[symmetric])
  next
    assume "\<exists>i<?n. 0 < i \<and> ?low (drop i (labels q)) = ?low (labels b)"
    then obtain i where i: "i < ?n" "0 < i" "?low (drop i (labels q)) = ?low (labels b)" by blast
    have "?low (labels q) = ?low (take i (labels q)) @ ?low (drop i (labels q))"
      by (metis append_take_drop_id map_append)
    with i show "is_subdomain_of q b" unfolding is_subdomain_of_iff
      by (intro exI[of _ "?low (take i (labels q))"]) auto
  qed
  have eq: "dn_eq q d \<longleftrightarrow> ?low (labels q) = ?low (labels d)" if "pattern_ok d" for d
    using that valid_name_shape(3)[OF assms(3)]
    by (simp add: dn_eq_def eq_ignore_ascii_case_iff labels_def pattern_ok_def) (metis join_split_on split_on_map_to_lower)
  have ok: "pattern_ok (pe_domain e)" if "(k, e) \<in> set (patterns m)" for k e
    using assms(2) that by (auto simp: matcher_inv_def)
  have "?l \<longleftrightarrow> (\<exists>i<?n. exact_at lc m (drop i (labels q)) = Some r \<or>
      has_wildcards m \<and> 0 < i \<and> wildcard_at lc m (drop i (labels q)) = Some r)"
    by (simp add: find_all_matches_def set_all_loop)
  also have "\<dots> \<longleftrightarrow> (\<exists>i<?n. \<exists>k e. (k, e) \<in> set (patterns m) \<and> r = match_of e (is_wild (pe_domain e)) \<and>
      (is_wild (pe_domain e) \<longrightarrow> 0 < i) \<and> ?low (drop i (labels q)) = ?low (labels (pattern_base (pe_domain e))))"
  proof (intro ex_cong1 conj_cong refl)
    fix i assume i: "i < ?n"
    show "(exact_at lc m (drop i (labels q)) = Some r \<or>
        has_wildcards m \<and> 0 < i \<and> wildcard_at lc m (drop i (labels q)) = Some r) \<longleftrightarrow>
      (\<exists>k e. (k, e) \<in> set (patterns m) \<and> r = match_of e (is_wild (pe_domain e)) \<and>
        (is_wild (pe_domain e) \<longrightarrow> 0 < i) \<and> ?low (drop i (labels q)) = ?low (labels (pattern_base (pe_domain e))))"
      unfolding exact_at_iff[OF assms i] wildcard_at_iff[OF assms i] 
      by (rule merge_cases[where f = match_of]) (use base wild in auto)
  qed
  also have "\<dots> \<longleftrightarrow> ?r"
  proof -
    have "pattern_matches d q \<longleftrightarrow> (\<exists>i<?n. (is_wild d \<longrightarrow> 0 < i) \<and> ?low (drop i (labels q)) = ?low (labels (pattern_base d)))"
      if "pattern_ok d" for d
    proof -
      have "(\<exists>i<?n. (is_wild d \<longrightarrow> 0 < i) \<and> ?low (drop i (labels q)) = ?low (labels (pattern_base d))) \<longleftrightarrow>
          (\<exists>i<?n. 0 < i \<and> ?low (drop i (labels q)) = ?low (labels (pattern_base d))) \<or>
          \<not> is_wild d \<and> ?low (labels q) = ?low (labels (pattern_base d))"
        using ne[of q] by (metis drop_0 gr0I length_greater_0_conv)
      then show ?thesis using eq[OF that] base unfolding pattern_matches_def sub by metis
    qed
    with ok show ?thesis by blast
  qed
  finally show ?thesis .
qed


text \<open>
  The first match in the order of the loop has the longest base: the loop goes from the whole query to
  its last label.
\<close>

lemma all_loop_sorted:
  assumes "all_loop lc m first ls = r # rs" and "r' \<in> set rs"
  obtains i j where "i \<le> j" "j < length ls"
    "exact_at lc m (drop i ls) = Some r \<or> wildcard_at lc m (drop i ls) = Some r"
    "exact_at lc m (drop j ls) = Some r' \<or> wildcard_at lc m (drop j ls) = Some r'"
  using assms
proof (induction ls arbitrary: first thesis)
  case (Cons l ls)
  have probe: "\<exists>j<length (l # ls). exact_at lc m (drop j (l # ls)) = Some x \<or> wildcard_at lc m (drop j (l # ls)) = Some x"
    if "x \<in> set (all_loop lc m first (l # ls))" for x
    using that unfolding set_all_loop by blast
  show ?case
  proof (cases "exact_at lc m (l # ls) = Some r \<or> wildcard_at lc m (l # ls) = Some r")
    case True
    have "r' \<in> set (all_loop lc m first (l # ls))" using Cons.prems(2,3) by simp
    from probe[OF this] obtain j where "j < length (l # ls)"
      "exact_at lc m (drop j (l # ls)) = Some r' \<or> wildcard_at lc m (drop j (l # ls)) = Some r'" by blast
    with True Cons.prems(1)[of 0 j] show ?thesis by simp
  next
    case False
    then have "all_loop lc m False ls = r # rs"
      using Cons.prems(2) by (cases "exact_at lc m (l # ls)"; cases "wildcard_at lc m (l # ls)") (auto split: if_splits)
    from Cons.IH[OF _ this Cons.prems(3)] obtain i j where "i \<le> j" "j < length ls"
      "exact_at lc m (drop i ls) = Some r \<or> wildcard_at lc m (drop i ls) = Some r"
      "exact_at lc m (drop j ls) = Some r' \<or> wildcard_at lc m (drop j ls) = Some r'" by metis
    with Cons.prems(1)[of "Suc i" "Suc j"] show ?thesis by simp
  qed
qed simp

lemma probe_base:
  assumes "ascii_lowercase lc" and "matcher_inv lc m" and "valid_name q" and "i < length (labels q)"
    and "exact_at lc m (drop i (labels q)) = Some r \<or> wildcard_at lc m (drop i (labels q)) = Some r"
  shows "length (labels (pattern_base (mr_domain r))) = length (labels q) - i"
proof -
  have "\<exists>e w. r = match_of e w \<and>
      map to_ascii_lowercase (drop i (labels q)) = map to_ascii_lowercase (labels (pattern_base (pe_domain e)))"
    using assms(5) unfolding exact_at_iff[OF assms(1-4)] wildcard_at_iff[OF assms(1-4)]
    by (elim disjE exE conjE) (metis pattern_base_def)+
  then show ?thesis by (metis length_drop length_map match_of_def match_result.select_convs(1))
qed

lemma find_longest_match_maximal:
  assumes "ascii_lowercase lc" and "matcher_inv lc m" and "valid_name q" and "find_longest_match lc m q = Some r"
    and "r' \<in> set (find_all_matches lc m q)"
  shows "length (labels (pattern_base (mr_domain r'))) \<le> length (labels (pattern_base (mr_domain r)))"
proof -
  from assms(4) obtain rs where rs: "all_loop lc m True (labels q) = r # rs"
    by (auto simp: find_longest_match_def longest_loop_all split: list.splits)
  have "set (find_all_matches lc m q) = set (all_loop lc m True (labels q))" by (simp add: find_all_matches_def)
  with assms(5) rs have "r' = r \<or> r' \<in> set rs" by simp
  then show ?thesis
  proof
    assume "r' \<in> set rs"
    from all_loop_sorted[OF rs this] obtain i j where ij: "i \<le> j" "j < length (labels q)"
      "exact_at lc m (drop i (labels q)) = Some r \<or> wildcard_at lc m (drop i (labels q)) = Some r"
      "exact_at lc m (drop j (labels q)) = Some r' \<or> wildcard_at lc m (drop j (labels q)) = Some r'" by metis
    with probe_base[OF assms(1-3) _ ij(3)] probe_base[OF assms(1-3) _ ij(4)] show ?thesis by simp
  qed simp
qed

lemma find_longest_match_member:
  "find_longest_match lc m q = Some r \<Longrightarrow> r \<in> set (find_all_matches lc m q)"
  "find_longest_match lc m q = None \<longleftrightarrow> find_all_matches lc m q = []"
proof -
  show "find_longest_match lc m q = Some r \<Longrightarrow> r \<in> set (find_all_matches lc m q)"
    by (auto simp: find_longest_match_def find_all_matches_def longest_loop_all split: list.splits)
  have "sort_key f xs = [] \<longleftrightarrow> xs = []" for f :: "'c \<Rightarrow> int" and xs
    by (metis length_0_conv length_sort)
  then show "find_longest_match lc m q = None \<longleftrightarrow> find_all_matches lc m q = []"
    by (simp add: find_longest_match_def find_all_matches_def longest_loop_all split: list.splits)
qed

subsection \<open>Properties\<close>

text \<open>
  C7: for a table built from valid names and patterns and a valid query, \<open>find_all_matches\<close> lists exactly
  the patterns that match (the query is the pattern or lies below it; a star pattern matches only what
  lies below its base), sorted by \<open>match_length\<close>, and \<open>is_match\<close> tells whether there is one.
\<close>

theorem all_matches_spec:
  assumes "ascii_lowercase lc" and "matcher_inv lc m" and "valid_name q"
  shows "(r \<in> set (find_all_matches lc m q) \<longleftrightarrow>
      (\<exists>k e. (k, e) \<in> set (patterns m) \<and> pattern_matches (pe_domain e) q \<and> r = match_of e (is_wild (pe_domain e)))) \<and>
    sorted_wrt (\<lambda>a b. match_length b \<le> match_length a) (find_all_matches lc m q) \<and>
    (is_match lc m q \<longleftrightarrow> (\<exists>k e. (k, e) \<in> set (patterns m) \<and> pattern_matches (pe_domain e) q))"
proof -
  have "sorted (map (\<lambda>r. - int (match_length r)) (find_all_matches lc m q))" by (simp add: find_all_matches_def)
  then have "sorted_wrt (\<lambda>a b. match_length b \<le> match_length a) (find_all_matches lc m q)"
    by (simp add: sorted_map)
  moreover have "is_match lc m q \<longleftrightarrow> (\<exists>r. r \<in> set (find_all_matches lc m q))"
    by (simp add: is_match_def find_longest_match_member(2)) (metis list.set_intros(1) neq_Nil_conv empty_iff list.set(1))
  ultimately show ?thesis using find_all_matches_iff[OF assms] by blast
qed

definition two_patterns :: "nat domain_matcher" where
  "two_patterns = add_pattern to_ascii_lowercase \<lparr>dn_name = [0x2A, 0x2E, 0x61, 0x2E, 0x62]\<rparr> [2]
     (add_pattern to_ascii_lowercase example_name [1] matcher_new)"

lemma two_patterns_inv: "matcher_inv to_ascii_lowercase two_patterns"
  unfolding two_patterns_def
  by (intro matcher_inv_add matcher_inv_new)
    (simp_all add: ascii_lowercase_def pattern_ok_def is_ascii_def trim_end_def example_name_def)

lemma two_patterns_table:
  "patterns two_patterns =
     [([0x61, 0x2E, 0x62], \<lparr>pe_domain = example_name, pe_servers = [1], is_wildcard = False, label_count = 2\<rparr>),
      ([0x2A, 0x2E, 0x61, 0x2E, 0x62],
        \<lparr>pe_domain = \<lparr>dn_name = [0x2A, 0x2E, 0x61, 0x2E, 0x62]\<rparr>, pe_servers = [2], is_wildcard = True, label_count = 3\<rparr>)]"
  "has_wildcards two_patterns"
  by (simp_all add: two_patterns_def add_pattern_def matcher_new_def Let_def normalize_pattern_def example_name_def
      labels_def trim_end_def to_lower_def)

theorem all_matches_spec_witness: "is_match to_ascii_lowercase two_patterns example_sub"
proof -
  have "pattern_matches example_name example_sub"
    by (simp add: pattern_matches_def pattern_base_def is_wild_def example_name_def example_sub_def is_subdomain_of_def
        labels_def trim_end_def eq_ignore_ascii_case_def)
  then show ?thesis
    using all_matches_spec[of to_ascii_lowercase two_patterns example_sub] two_patterns_inv valid_examples(2)
    by (force simp: ascii_lowercase_def two_patterns_table)
qed

text \<open>
  \<open>find_longest_match\<close> returns one of the matching patterns, if there is any, and among them one
  whose base has the most labels.
\<close>

theorem longest_match_spec:
  assumes "ascii_lowercase lc" and "matcher_inv lc m" and "valid_name q"
  shows "(find_longest_match lc m q = None \<longleftrightarrow> find_all_matches lc m q = []) \<and>
    (\<forall>r. find_longest_match lc m q = Some r \<longrightarrow> r \<in> set (find_all_matches lc m q) \<and>
       (\<forall>r'\<in>set (find_all_matches lc m q).
          length (labels (pattern_base (mr_domain r'))) \<le> length (labels (pattern_base (mr_domain r)))))"
  using find_longest_match_member find_longest_match_maximal[OF assms] by blast

theorem longest_match_spec_witness:
  "find_longest_match to_ascii_lowercase two_patterns example_sub \<noteq> None"
proof -
  have "match_of (snd (patterns two_patterns ! 0)) False \<in> set (find_all_matches to_ascii_lowercase two_patterns example_sub)"
    by (simp add: find_all_matches_def labels_def example_sub_def trim_end_def exact_at_def wildcard_at_def
        two_patterns_table to_lower_def)
  then show ?thesis
    using longest_match_spec[of to_ascii_lowercase two_patterns example_sub] two_patterns_inv valid_examples(2)
    by (auto simp: ascii_lowercase_def)
qed

text \<open>
  \<open>find_longest_match\<close> need not return the match with the most labels: with the patterns \<open>a.b\<close> and
  \<open>*.a.b\<close> the query \<open>c.a.b\<close> gets \<open>a.b\<close> with two labels, while \<open>find_all_matches\<close> puts
  \<open>*.a.b\<close> with three labels first.
\<close>

theorem longest_match_prefers_exact:
  "map_option match_length (find_longest_match to_ascii_lowercase two_patterns example_sub) = Some 2 \<and>
   map match_length (find_all_matches to_ascii_lowercase two_patterns example_sub) = [3, 2]"
  by (simp add: find_longest_match_def find_all_matches_def labels_def example_sub_def trim_end_def exact_at_def
      wildcard_at_def two_patterns_table to_lower_def match_of_def)

end
