(* ===== verification/Upstream.thy ===== *)
theory Upstream
  imports Matcher
begin

text \<open>
  The pool of upstream servers, \<open>src/dns/upstream.rs\<close>, with the names and server details of \<open>src/types.rs\<close> it
  is built from: availability with its failure cooldown, selection by domain pattern and round robin,
  and the operations that change the pool.  The time is an argument, in nanoseconds.  The failure rate,
  a floating point number only logged and reported, is left out.
\<close>

subsection \<open>Names and server details\<close>

text \<open>
  \<open>types::DomainName\<close> is another type than the names of the protocol: it keeps the text as given, and
  its labels allow no underscore.
\<close>

record types_name = tn_inner :: bytes

definition types_label_error :: "bytes \<Rightarrow> reason option" where
  "types_label_error label =
     (if label = [] then Some ''Domain name contains empty label (consecutive dots)''
      else if 63 < length label then Some ''Label exceeds 63 bytes''
      else if label = [0x2A] then None
      else if hd label = hyphen \<or> last label = hyphen then Some ''Label cannot start or end with hyphen''
      else if list_ex (\<lambda>ch. \<not> is_ascii_alphanumeric ch \<and> ch \<noteq> hyphen) label then Some ''Label contains invalid character''
      else None)"

definition types_labels :: "bytes \<Rightarrow> bytes list" where
  "types_labels s = split_on dot (trim_end dot s)"

definition types_name_new :: "bytes \<Rightarrow> (types_name, dns_error) outcome" where
  "types_name_new name =
     (if name = [] then Err (OtherError ''Domain name cannot be empty'')
      else if 255 < length name then Err (OtherError ''Domain name exceeds 255 bytes'')
      else (case first_error types_label_error (types_labels name) of
              Some r \<Rightarrow> Err (OtherError r)
            | None \<Rightarrow> Ok \<lparr>tn_inner = name\<rparr>))"

record server_details =
  sd_addr :: sock_addr
  sd_domain :: "types_name option"
  sd_flags :: u16
  sd_address :: "ip_addr option"

definition server_details_new :: "sock_addr \<Rightarrow> bytes option \<Rightarrow> u16 \<Rightarrow> (server_details, dns_error) outcome" where
  "server_details_new addr domain fl =
     rbind (case domain of Some d \<Rightarrow> rbind (types_name_new d) (\<lambda>n. Ok (Some n)) | None \<Rightarrow> Ok None) (\<lambda>dom.
       Ok \<lparr>sd_addr = addr, sd_domain = dom, sd_flags = fl, sd_address = Some (fst addr)\<rparr>)"

subsection \<open>Servers\<close>

datatype edns_capability = EC_Unknown | EC_Supported | EC_NotSupported | EC_RequiresDnssec

abbreviation UF_DO_DNSSEC :: u16 where "UF_DO_DNSSEC \<equiv> 0x0008"
abbreviation UF_DOMAIN_SPECIFIC :: u16 where "UF_DOMAIN_SPECIFIC \<equiv> 0x0020"
abbreviation UF_IPV4_ADDR :: u16 where "UF_IPV4_ADDR \<equiv> 0x0080"
abbreviation UF_IPV6_ADDR :: u16 where "UF_IPV6_ADDR \<equiv> 0x0100"
abbreviation UF_LOOP :: u16 where "UF_LOOP \<equiv> 0x0200"

definition from_bits_truncate :: "u16 \<Rightarrow> u16" where
  "from_bits_truncate bits = bits AND 0x07FF"

definition has_flag :: "u16 \<Rightarrow> u16 \<Rightarrow> bool" where
  "has_flag fl f \<longleftrightarrow> fl AND f = f"

record upstream_server =
  us_addr :: sock_addr
  us_domain :: "types_name option"
  us_flags :: u16
  us_queries :: u64
  us_failed_queries :: u64
  us_retrys :: u64
  us_last_used :: "timestamp option"
  us_last_failed :: "timestamp option"
  us_edns_capability :: edns_capability

definition upstream_new :: "sock_addr \<Rightarrow> types_name option \<Rightarrow> u16 \<Rightarrow> upstream_server" where
  "upstream_new addr domain fl =
     \<lparr>us_addr = addr, us_domain = domain, us_flags = fl, us_queries = 0, us_failed_queries = 0, us_retrys = 0,
      us_last_used = None, us_last_failed = None, us_edns_capability = EC_Unknown\<rparr>"

definition server_is_available :: "timestamp \<Rightarrow> upstream_server \<Rightarrow> bool" where
  "server_is_available now s =
     (if has_flag (us_flags s) UF_LOOP then False
      else (case us_last_failed s of None \<Rightarrow> True | Some t \<Rightarrow> secs 10 \<le> now - t))"

definition ends_with :: "bytes \<Rightarrow> bytes \<Rightarrow> bool" where
  "ends_with s suffix \<longleftrightarrow> length suffix \<le> length s \<and> drop (length s - length suffix) s = suffix"

definition matches_domain :: "types_name \<Rightarrow> upstream_server \<Rightarrow> bool" where
  "matches_domain query s =
     (case us_domain s of
        None \<Rightarrow> True
      | Some pattern \<Rightarrow> tn_inner query = tn_inner pattern \<or> ends_with (tn_inner query) (dot # tn_inner pattern))"

definition record_success :: "timestamp \<Rightarrow> upstream_server \<Rightarrow> upstream_server" where
  "record_success now s = s\<lparr>us_queries := us_queries s + 1, us_last_used := Some now, us_last_failed := None\<rparr>"

definition record_failure :: "timestamp \<Rightarrow> upstream_server \<Rightarrow> upstream_server" where
  "record_failure now s =
     s\<lparr>us_queries := us_queries s + 1, us_failed_queries := us_failed_queries s + 1, us_last_failed := Some now\<rparr>"

definition record_retry :: "upstream_server \<Rightarrow> upstream_server" where
  "record_retry s = s\<lparr>us_retrys := us_retrys s + 1\<rparr>"

subsection \<open>The pool\<close>

record upstream_pool =
  up_servers :: "upstream_server list"
  up_current_index :: nat
  up_matcher :: "server_details domain_matcher"

definition pool_new :: upstream_pool where
  "pool_new = \<lparr>up_servers = [], up_current_index = 0, up_matcher = matcher_new\<rparr>"

definition pool_with_capacity :: "nat \<Rightarrow> upstream_pool" where
  "pool_with_capacity n = \<lparr>up_servers = [], up_current_index = 0, up_matcher = matcher_with_capacity n\<rparr>"

text \<open>\<open>lc\<close> is \<open>str::to_lowercase\<close> and \<open>idna\<close> the conversion of international names, as in the matcher and the names.\<close>

fun from_config_loop :: "(bytes \<Rightarrow> bytes) \<Rightarrow> (bytes \<Rightarrow> bytes option) \<Rightarrow> server_details list \<Rightarrow> upstream_pool \<Rightarrow> (upstream_pool, dns_error) outcome" where
  "from_config_loop lc idna [] pool = Ok pool"
| "from_config_loop lc idna (sd # sds) pool =
     (let family = (case fst (sd_addr sd) of V4 _ \<Rightarrow> UF_IPV4_ADDR | V6 _ \<Rightarrow> UF_IPV6_ADDR);
          specific = (if sd_domain sd \<noteq> None then UF_DOMAIN_SPECIFIC else 0);
          server = upstream_new (sd_addr sd) (sd_domain sd) (family OR specific OR from_bits_truncate (sd_flags sd)) in
      rbind (case us_domain server of
               Some domain \<Rightarrow>
                 rbind (map_err (\<lambda>_. OtherError ''Invalid domain'') (dn_new idna (tn_inner domain))) (\<lambda>protocol_domain.
                   Ok (pool\<lparr>up_matcher := add_pattern lc protocol_domain [sd] (up_matcher pool)\<rparr>))
             | None \<Rightarrow> Ok pool) (\<lambda>pool.
        from_config_loop lc idna sds (pool\<lparr>up_servers := up_servers pool @ [server]\<rparr>)))"

definition pool_from_config :: "(bytes \<Rightarrow> bytes) \<Rightarrow> (bytes \<Rightarrow> bytes option) \<Rightarrow> server_details list \<Rightarrow> (upstream_pool, dns_error) outcome" where
  "pool_from_config lc idna upstream_servers =
     from_config_loop lc idna upstream_servers (pool_with_capacity (length upstream_servers))"

definition find_server :: "sock_addr \<Rightarrow> upstream_pool \<Rightarrow> upstream_server option" where
  "find_server addr pool = find (\<lambda>s. us_addr s = addr) (up_servers pool)"

definition dnssec_ok :: "bool \<Rightarrow> upstream_server \<Rightarrow> bool" where
  "dnssec_ok dnssec_required s \<longleftrightarrow> \<not> dnssec_required \<or> has_flag (us_flags s) UF_DO_DNSSEC"

fun select_matched :: "timestamp \<Rightarrow> bool \<Rightarrow> upstream_pool \<Rightarrow> server_details list \<Rightarrow> upstream_server option" where
  "select_matched now dnssec_required pool [] = None"
| "select_matched now dnssec_required pool (sd # sds) =
     (case find_server (sd_addr sd) pool of
        Some server \<Rightarrow>
          if server_is_available now server then
            if dnssec_required \<and> \<not> has_flag (us_flags server) UF_DO_DNSSEC then select_matched now dnssec_required pool sds
            else Some server
          else select_matched now dnssec_required pool sds
      | None \<Rightarrow> select_matched now dnssec_required pool sds)"

definition matched_server :: "(bytes \<Rightarrow> bytes) \<Rightarrow> (bytes \<Rightarrow> bytes option) \<Rightarrow> timestamp \<Rightarrow> types_name \<Rightarrow> bool \<Rightarrow> upstream_pool
    \<Rightarrow> upstream_server option" where
  "matched_server lc idna now query dnssec_required pool =
     (case dn_new idna (tn_inner query) of
        Ok pqn \<Rightarrow>
          (case find_longest_match lc (up_matcher pool) pqn of
             Some r \<Rightarrow> select_matched now dnssec_required pool (mr_servers r)
           | None \<Rightarrow> None)
      | _ \<Rightarrow> None)"

definition general_servers :: "timestamp \<Rightarrow> bool \<Rightarrow> upstream_pool \<Rightarrow> upstream_server list" where
  "general_servers now dnssec_required pool =
     filter (dnssec_ok dnssec_required) (filter (\<lambda>s. us_domain s = None \<and> server_is_available now s) (up_servers pool))"

definition select_server :: "(bytes \<Rightarrow> bytes) \<Rightarrow> (bytes \<Rightarrow> bytes option) \<Rightarrow> timestamp \<Rightarrow> types_name \<Rightarrow> bool \<Rightarrow> upstream_pool
    \<Rightarrow> upstream_server option \<times> upstream_pool" where
  "select_server lc idna now query dnssec_required pool =
     (if up_servers pool = [] then (None, pool)
      else (case matched_server lc idna now query dnssec_required pool of
              Some server \<Rightarrow> (Some server, pool)
            | None \<Rightarrow>
                let available = general_servers now dnssec_required pool in
                if available = [] then (None, pool)
                else (Some (available ! (up_current_index pool mod length available)),
                      pool\<lparr>up_current_index := (up_current_index pool + 1) mod length available\<rparr>)))"

fun update_first_server :: "(upstream_server \<Rightarrow> upstream_server) \<Rightarrow> sock_addr \<Rightarrow> upstream_server list \<Rightarrow> upstream_server list" where
  "update_first_server f addr [] = []"
| "update_first_server f addr (s # ss) = (if us_addr s = addr then f s # ss else s # update_first_server f addr ss)"

definition mark_failed :: "timestamp \<Rightarrow> sock_addr \<Rightarrow> upstream_pool \<Rightarrow> upstream_pool" where
  "mark_failed now addr pool = pool\<lparr>up_servers := update_first_server (record_failure now) addr (up_servers pool)\<rparr>"

definition mark_available :: "timestamp \<Rightarrow> sock_addr \<Rightarrow> upstream_pool \<Rightarrow> upstream_pool" where
  "mark_available now addr pool = pool\<lparr>up_servers := update_first_server (record_success now) addr (up_servers pool)\<rparr>"

definition pool_is_available :: "timestamp \<Rightarrow> sock_addr \<Rightarrow> upstream_pool \<Rightarrow> bool" where
  "pool_is_available now addr pool = (case find_server addr pool of Some s \<Rightarrow> server_is_available now s | None \<Rightarrow> False)"

definition check_health :: "timestamp \<Rightarrow> upstream_pool \<Rightarrow> (sock_addr \<times> bool \<times> u64 \<times> u64) list" where
  "check_health now pool = map (\<lambda>s. (us_addr s, server_is_available now s, us_queries s, us_failed_queries s)) (up_servers pool)"

definition server_count :: "upstream_pool \<Rightarrow> nat" where
  "server_count pool = length (up_servers pool)"

text \<open>\<open>ServerDetails::new(\<dots>).expect\<close> panics on an error.\<close>

definition add_server :: "(bytes \<Rightarrow> bytes) \<Rightarrow> upstream_server \<Rightarrow> upstream_pool \<Rightarrow> (upstream_pool, dns_error) outcome" where
  "add_server lc server pool =
     (case us_domain server of
        None \<Rightarrow> Ok (pool\<lparr>up_servers := up_servers pool @ [server]\<rparr>)
      | Some domain \<Rightarrow>
          (case server_details_new (us_addr server) (Some (tn_inner domain)) (us_flags server) of
             Ok details \<Rightarrow>
               (case new_pattern (tn_inner domain) of
                  Ok name \<Rightarrow> Ok (pool\<lparr>up_matcher := add_pattern lc name [details] (up_matcher pool), up_servers := up_servers pool @ [server]\<rparr>)
                | _ \<Rightarrow> Ok pool)
           | _ \<Rightarrow> Panic))"

fun remove_first_server :: "sock_addr \<Rightarrow> upstream_server list \<Rightarrow> upstream_server list" where
  "remove_first_server addr [] = []"
| "remove_first_server addr (s # ss) = (if us_addr s = addr then ss else s # remove_first_server addr ss)"

definition remove_server :: "sock_addr \<Rightarrow> upstream_pool \<Rightarrow> upstream_server option \<times> upstream_pool" where
  "remove_server addr pool =
     (case find_server addr pool of
        Some s \<Rightarrow> (Some s, pool\<lparr>up_servers := remove_first_server addr (up_servers pool)\<rparr>)
      | None \<Rightarrow> (None, pool))"

definition pool_clear :: "upstream_pool \<Rightarrow> upstream_pool" where
  "pool_clear pool = pool\<lparr>up_servers := [], up_current_index := 0, up_matcher := matcher_new\<rparr>"

subsection \<open>Selection\<close>

lemma select_matched_Some:
  "select_matched now d pool sds = Some s \<Longrightarrow>
   s \<in> set (up_servers pool) \<and> server_is_available now s \<and> dnssec_ok d s \<and> (\<exists>sd\<in>set sds. us_addr s = sd_addr sd)"
  by (induction sds) (auto simp: dnssec_ok_def find_server_def split: option.splits if_splits dest: find_SomeD)

lemma matched_server_Some:
  assumes "matched_server lc idna now q d pool = Some s"
  shows "s \<in> set (up_servers pool) \<and> server_is_available now s \<and> dnssec_ok d s"
  using assms select_matched_Some by (fastforce simp: matched_server_def split: outcome.splits option.splits)

lemma general_iff:
  "s \<in> set (general_servers now d pool) \<longleftrightarrow>
   s \<in> set (up_servers pool) \<and> us_domain s = None \<and> server_is_available now s \<and> dnssec_ok d s"
  by (auto simp: general_servers_def)

lemma select_server_eq:
  "select_server lc idna now q d pool =
   (case matched_server lc idna now q d pool of
      Some s \<Rightarrow> (Some s, pool)
    | None \<Rightarrow>
        let available = general_servers now d pool in
        if available = [] then (None, pool)
        else (Some (available ! (up_current_index pool mod length available)),
              pool\<lparr>up_current_index := (up_current_index pool + 1) mod length available\<rparr>))"
proof (cases "up_servers pool = []")
  case True
  then have "general_servers now d pool = []" by (simp add: general_servers_def)
  moreover have "matched_server lc idna now q d pool = None"
    using matched_server_Some[of lc idna now q d pool] True by (cases "matched_server lc idna now q d pool") auto
  ultimately show ?thesis using True by (simp add: select_server_def)
qed (simp add: select_server_def)

lemma select_server_pool:
  "up_servers (snd (select_server lc idna now q d pool)) = up_servers pool"
  "up_matcher (snd (select_server lc idna now q d pool)) = up_matcher pool"
  by (simp_all add: select_server_eq Let_def split: option.split)

lemma same_servers:
  assumes "up_servers pool' = up_servers pool" "up_matcher pool' = up_matcher pool"
  shows "general_servers now d pool' = general_servers now d pool"
    "matched_server lc idna now q d pool' = matched_server lc idna now q d pool"
proof -
  have "select_matched now d pool' sds = select_matched now d pool sds" for sds
    by (induction sds) (auto simp: find_server_def assms split: option.split)
  then show "matched_server lc idna now q d pool' = matched_server lc idna now q d pool"
    by (simp add: matched_server_def assms split: outcome.split option.split)
qed (simp add: general_servers_def assms)

text \<open>The results of \<open>n\<close> selections for the same query.\<close>

fun selections :: "(bytes \<Rightarrow> bytes) \<Rightarrow> (bytes \<Rightarrow> bytes option) \<Rightarrow> timestamp \<Rightarrow> types_name \<Rightarrow> bool \<Rightarrow> nat \<Rightarrow> upstream_pool
    \<Rightarrow> upstream_server option list" where
  "selections lc idna now q d 0 pool = []"
| "selections lc idna now q d (Suc n) pool =
     (let (r, pool) = select_server lc idna now q d pool in r # selections lc idna now q d n pool)"

lemma selections_rotate:
  assumes "matched_server lc idna now q d pool = None" "general_servers now d pool = av" "av \<noteq> []"
  shows "selections lc idna now q d n pool = map (\<lambda>k. Some (av ! ((up_current_index pool + k) mod length av))) [0 ..< n]"
  using assms
proof (induction n arbitrary: pool)
  case (Suc n)
  let ?p = "pool\<lparr>up_current_index := (up_current_index pool + 1) mod length av\<rparr>"
  have "selections lc idna now q d (Suc n) pool =
      Some (av ! (up_current_index pool mod length av)) # selections lc idna now q d n ?p"
    using Suc.prems by (simp add: select_server_eq Let_def)
  also have "selections lc idna now q d n ?p = map (\<lambda>k. Some (av ! ((up_current_index ?p + k) mod length av))) [0 ..< n]"
    using Suc.prems same_servers[of ?p pool] by (intro Suc.IH) (simp_all del: One_nat_def)
  also have "\<dots> = map (\<lambda>k. Some (av ! ((up_current_index pool + k) mod length av))) [1 ..< Suc n]"
    by (intro nth_equalityI) (simp_all add: mod_add_left_eq del: upt_Suc)
  finally show ?case by (simp add: upt_rec[of 0 "Suc n"] del: upt_Suc)
qed simp

subsection \<open>Failures\<close>

lemma update_first_set:
  assumes "distinct (map us_addr ss)" "\<And>s. us_addr (f s) = us_addr s"
  shows "set (update_first_server f addr ss) = (\<lambda>s. if us_addr s = addr then f s else s) ` set ss"
  using assms
proof (induction ss)
  case (Cons s ss)
  show ?case
  proof (cases "us_addr s = addr")
    case True
    with Cons.prems(1) have "addr \<notin> us_addr ` set ss" by simp
    then have "\<forall>x\<in>set ss. us_addr x \<noteq> addr" by (metis image_eqI)
    then have "(\<lambda>s. if us_addr s = addr then f s else s) ` set ss = set ss" by simp
    with True show ?thesis by simp
  qed (use Cons in simp)
qed simp

lemma update_first_hit:
  assumes "distinct (map us_addr ss)" "\<And>s. us_addr (f s) = us_addr s"
    and "s \<in> set (update_first_server f addr ss)" "us_addr s = addr"
  shows "\<exists>x\<in>set ss. s = f x"
proof -
  from assms(3)[unfolded update_first_set[OF assms(1,2)]] obtain x where "x \<in> set ss" "s = (if us_addr x = addr then f x else x)" by blast
  with assms(4) show ?thesis by (cases "us_addr x = addr") auto
qed

lemma update_first_miss:
  assumes "distinct (map us_addr ss)" "\<And>s. us_addr (f s) = us_addr s" "us_addr s \<noteq> addr"
  shows "s \<in> set (update_first_server f addr ss) \<longleftrightarrow> s \<in> set ss"
proof
  assume "s \<in> set (update_first_server f addr ss)"
  from this[unfolded update_first_set[OF assms(1,2)]] obtain x where "x \<in> set ss" "s = (if us_addr x = addr then f x else x)" by blast
  with assms(2,3) show "s \<in> set ss" by (cases "us_addr x = addr") auto
next
  assume "s \<in> set ss"
  then show "s \<in> set (update_first_server f addr ss)" unfolding update_first_set[OF assms(1,2)]
    using assms(3) by (intro image_eqI[of _ _ s]) simp_all
qed

lemma find_longest_servers:
  assumes "find_longest_match lc m q = Some r"
  shows "\<exists>k e. map_of (patterns m) k = Some e \<and> mr_servers r = pe_servers e"
proof -
  have "longest_loop lc m first ls = Some r \<Longrightarrow> \<exists>k e. map_of (patterns m) k = Some e \<and> mr_servers r = pe_servers e" for first ls
    by (induction lc m first ls rule: longest_loop.induct)
      (auto simp: exact_at_def wildcard_at_def match_of_def split: option.splits if_splits, blast+)
  then show ?thesis using assms by (simp add: find_longest_match_def)
qed

lemma matched_listed:
  assumes "matched_server lc idna now q d pool = Some s"
  shows "\<exists>k e sd. map_of (patterns (up_matcher pool)) k = Some e \<and> sd \<in> set (pe_servers e) \<and> us_addr s = sd_addr sd"
proof -
  obtain pqn r where r: "find_longest_match lc (up_matcher pool) pqn = Some r" "select_matched now d pool (mr_servers r) = Some s"
    using assms by (auto simp: matched_server_def split: outcome.splits option.splits)
  then show ?thesis using find_longest_servers[OF r(1)] select_matched_Some[OF r(2)] by fastforce
qed

subsection \<open>Example pools\<close>

definition example_server :: "u8 \<Rightarrow> upstream_server" where
  "example_server n = upstream_new (V4 [192, 0, 2, n], 53) None UF_IPV4_ADDR"

definition example_pool :: upstream_pool where
  "example_pool = pool_new\<lparr>up_servers := [example_server 1, example_server 2, example_server 3]\<rparr>"

lemma example_pool_simps [simp]:
  "up_servers example_pool = [example_server 1, example_server 2, example_server 3]" "up_current_index example_pool = 0"
  "us_addr (example_server n) = (V4 [192, 0, 2, n], 53)" "us_domain (example_server n) = None" "us_last_failed (example_server n) = None"
  "us_flags (example_server n) = UF_IPV4_ADDR" "patterns (up_matcher example_pool) = []"
  by (simp_all add: example_pool_def pool_new_def example_server_def upstream_new_def matcher_new_def)

lemma example_general: "general_servers now False example_pool = [example_server 1, example_server 2, example_server 3]"
  by (simp add: general_servers_def server_is_available_def dnssec_ok_def has_flag_def)

lemma example_unmatched: "matched_server lc idna now q d example_pool = None"
  using matched_listed[of lc idna now q d example_pool] by (cases "matched_server lc idna now q d example_pool") auto

subsection \<open>Properties\<close>

text \<open>
  A selection returns a server of the pool that is available and meets the DNSSEC requirement, either a
  listed server of the longest matching pattern or one without a domain; it fails exactly when there is
  no such server; and it changes nothing but the round robin position.
\<close>

theorem select_server_spec:
  assumes "select_server lc idna now q d pool = (r, pool')"
  shows "(\<forall>s. r = Some s \<longrightarrow> s \<in> set (up_servers pool) \<and> server_is_available now s \<and> dnssec_ok d s \<and>
      (us_domain s = None \<or> matched_server lc idna now q d pool = Some s)) \<and>
    (r = None \<longleftrightarrow> matched_server lc idna now q d pool = None \<and>
      (\<forall>s\<in>set (up_servers pool). \<not> (us_domain s = None \<and> server_is_available now s \<and> dnssec_ok d s))) \<and>
    up_servers pool' = up_servers pool \<and> up_matcher pool' = up_matcher pool"
proof (cases "matched_server lc idna now q d pool")
  case None
  let ?av = "general_servers now d pool"
  show ?thesis
  proof (cases "?av = []")
    case True
    have "\<forall>s\<in>set (up_servers pool). \<not> (us_domain s = None \<and> server_is_available now s \<and> dnssec_ok d s)"
      using general_iff[of _ now d pool] True by auto
    moreover have "r = None" "pool' = pool" using assms None True by (simp_all add: select_server_eq)
    ultimately show ?thesis using None by simp
  next
    case False
    then obtain s where s: "r = Some s" "s = ?av ! (up_current_index pool mod length ?av)"
      "pool' = pool\<lparr>up_current_index := (up_current_index pool + 1) mod length ?av\<rparr>"
      using assms None by (simp add: select_server_eq Let_def)
    have "s \<in> set ?av" unfolding s(2) by (rule nth_mem) (use False in simp)
    then show ?thesis using s(1,3) by (auto simp: general_iff)
  qed
next
  case (Some s)
  with assms matched_server_Some[OF Some] show ?thesis by (auto simp: select_server_eq)
qed

theorem select_server_spec_witness:
  "fst (select_server (\<lambda>s. s) (\<lambda>_. None) 0 \<lparr>tn_inner = [0x61]\<rparr> False example_pool) \<noteq> None"
  using select_server_spec[OF prod.collapse[symmetric], of "\<lambda>s. s" "\<lambda>_. None" 0 "\<lparr>tn_inner = [0x61]\<rparr>" False example_pool]
  by (simp add: server_is_available_def dnssec_ok_def has_flag_def)

text \<open>
  C25: while no domain pattern applies and the same \<open>n\<close> servers stay available, any \<open>n\<close> consecutive selections go
  through all of them, each once, in the order of the pool from where the last selection stopped.
\<close>

theorem round_robin_fair:
  assumes "matched_server lc idna now q d pool = None" and "general_servers now d pool \<noteq> []"
  shows "selections lc idna now q d (length (general_servers now d pool)) pool =
    map Some (rotate (up_current_index pool) (general_servers now d pool))"
  unfolding selections_rotate[OF assms(1) refl assms(2)] by (intro nth_equalityI) (simp_all add: nth_rotate)

theorem round_robin_fair_witness:
  "selections (\<lambda>s. s) (\<lambda>_. None) 0 \<lparr>tn_inner = [0x61]\<rparr> False 3 example_pool =
     [Some (example_server 1), Some (example_server 2), Some (example_server 3)]"
  using round_robin_fair[OF example_unmatched, of 0 False "\<lambda>s. s" "\<lambda>_. None" "\<lparr>tn_inner = [0x61]\<rparr>"]
  by (simp add: example_general numeral_3_eq_3)

text \<open>
  A server marked as failed is not selected for ten seconds; after these, or at once when it is marked available,
  it is available again unless it is flagged as a loop; the other servers of the pool are unaffected.
\<close>

theorem failed_server_rests:
  assumes "distinct (map us_addr (up_servers pool))"
  shows "(t \<le> now \<and> now < t + secs 10 \<longrightarrow> (\<forall>s. fst (select_server lc idna now q d (mark_failed t addr pool)) = Some s \<longrightarrow> us_addr s \<noteq> addr)) \<and>
    (\<forall>s\<in>set (up_servers (mark_failed t addr pool)). us_addr s = addr \<and> t + secs 10 \<le> now \<longrightarrow>
       server_is_available now s = (\<not> has_flag (us_flags s) UF_LOOP)) \<and>
    (\<forall>s\<in>set (up_servers (mark_available t addr pool)). us_addr s = addr \<longrightarrow> server_is_available now s = (\<not> has_flag (us_flags s) UF_LOOP)) \<and>
    (\<forall>s. us_addr s \<noteq> addr \<longrightarrow> (s \<in> set (up_servers (mark_failed t addr pool)) \<longleftrightarrow> s \<in> set (up_servers pool)))"
proof -
  have f: "us_addr (record_failure t s) = us_addr s" "us_addr (record_success t s) = us_addr s" for s
    by (simp_all add: record_failure_def record_success_def)
  have failed: "us_last_failed s = Some t" if "s \<in> set (up_servers (mark_failed t addr pool))" "us_addr s = addr" for s
    using update_first_hit[OF assms f(1)] that by (fastforce simp: mark_failed_def record_failure_def)
  have good: "us_last_failed s = None" if "s \<in> set (up_servers (mark_available t addr pool))" "us_addr s = addr" for s
    using update_first_hit[OF assms f(2)] that by (fastforce simp: mark_available_def record_success_def)
  have "us_addr s \<noteq> addr" if "t \<le> now" "now < t + secs 10" "fst (select_server lc idna now q d (mark_failed t addr pool)) = Some s" for s
  proof
    assume a: "us_addr s = addr"
    have s: "s \<in> set (up_servers (mark_failed t addr pool)) \<and> server_is_available now s"
      using matched_server_Some general_iff[of _ now d "mark_failed t addr pool"] that(3) nth_mem
      by (fastforce simp: select_server_eq Let_def split: option.splits if_splits)
    with failed a have "us_last_failed s = Some t" by blast
    with s that(1,2) show False by (auto simp: server_is_available_def split: if_splits)
  qed
  moreover have "\<forall>s\<in>set (up_servers (mark_failed t addr pool)). us_addr s = addr \<and> t + secs 10 \<le> now \<longrightarrow>
      server_is_available now s = (\<not> has_flag (us_flags s) UF_LOOP)"
    using failed by (auto simp: server_is_available_def)
  moreover have "\<forall>s\<in>set (up_servers (mark_available t addr pool)). us_addr s = addr \<longrightarrow>
      server_is_available now s = (\<not> has_flag (us_flags s) UF_LOOP)"
    using good by (simp add: server_is_available_def)
  moreover have "us_addr s \<noteq> addr \<Longrightarrow> s \<in> set (up_servers (mark_failed t addr pool)) \<longleftrightarrow> s \<in> set (up_servers pool)" for s
    using update_first_miss[OF assms f(1)] by (simp add: mark_failed_def)
  ultimately show ?thesis by blast
qed

theorem failed_server_rests_witness:
  "fst (select_server (\<lambda>s. s) (\<lambda>_. None) (secs 9) \<lparr>tn_inner = [0x61]\<rparr> False (mark_failed 0 (V4 [192, 0, 2, 1], 53) example_pool)) \<noteq>
     Some ((example_server 1)\<lparr>us_queries := 1, us_failed_queries := 1, us_last_failed := Some 0\<rparr>)"
proof -
  have "distinct (map us_addr (up_servers example_pool))" by simp
  from failed_server_rests[OF this, of 0 "secs 9" "\<lambda>s. s" "\<lambda>_. None" "\<lparr>tn_inner = [0x61]\<rparr>" False "(V4 [192, 0, 2, 1], 53)"]
  have "fst (select_server (\<lambda>s. s) (\<lambda>_. None) (secs 9) \<lparr>tn_inner = [0x61]\<rparr> False (mark_failed 0 (V4 [192, 0, 2, 1], 53) example_pool)) = Some s \<Longrightarrow>
      us_addr s \<noteq> (V4 [192, 0, 2, 1], 53)" for s by (simp add: secs_def)
  from this[of "(example_server 1)\<lparr>us_queries := 1, us_failed_queries := 1, us_last_failed := Some 0\<rparr>"] show ?thesis by auto
qed

text \<open>
  Two servers for the same domain: the pattern table keeps the second only, so that the first is never selected.
\<close>

theorem same_domain_replaced:
  assumes "us_domain s1 = Some n" and "us_domain s2 = Some n" and "us_addr s1 \<noteq> us_addr s2"
    and "types_name_new (tn_inner n) = Ok n" and "add_server lc s1 pool_new = Ok p1" and "add_server lc s2 p1 = Ok p2"
  shows "fst (select_server lc idna now q d p2) \<noteq> Some s1"
proof
  assume sel: "fst (select_server lc idna now q d p2) = Some s1"
  have det: "server_details_new a (Some (tn_inner n)) fl = Ok \<lparr>sd_addr = a, sd_domain = Some n, sd_flags = fl, sd_address = Some (fst a)\<rparr>" for a fl
    using assms(4) by (simp add: server_details_new_def)
  obtain p where p: "new_pattern (tn_inner n) = Ok p"
  proof (cases "new_pattern (tn_inner n)")
    case (Err e)
    with assms have "p2 = pool_new" by (simp add: add_server_def det)
    with sel show ?thesis by (simp add: select_server_def pool_new_def)
  next
    case Panic
    with assms have "p2 = pool_new" by (simp add: add_server_def det)
    with sel show ?thesis by (simp add: select_server_def pool_new_def)
  qed
  have p2: "p2 = pool_new\<lparr>up_servers := [s1, s2], up_matcher :=
      add_pattern lc p [\<lparr>sd_addr = us_addr s2, sd_domain = Some n, sd_flags = us_flags s2, sd_address = Some (fst (us_addr s2))\<rparr>]
        (add_pattern lc p [\<lparr>sd_addr = us_addr s1, sd_domain = Some n, sd_flags = us_flags s1, sd_address = Some (fst (us_addr s1))\<rparr>] matcher_new)\<rparr>"
    using assms by (auto simp: add_server_def det p pool_new_def)
  have "s1 \<notin> set (general_servers now d p2)" using assms(1) by (simp add: general_iff)
  then have "matched_server lc idna now q d p2 = Some s1"
    using sel nth_mem[of "up_current_index p2 mod length (general_servers now d p2)" "general_servers now d p2"]
    by (auto simp: select_server_eq Let_def split: option.splits if_splits)
  from matched_listed[OF this] show False
    using assms(3) by (auto simp: p2 add_pattern_def matcher_new_def Let_def split: if_splits)
qed

end
