(* ===== verification/Forwarder.thy ===== *)
theory Forwarder
  imports Message Dns_Cache Upstream
begin

text \<open>
  The query forwarder, \<open>src/dns/forwarder.rs\<close>: outstanding queries by query id, the answer from the cache, forwarding
  with a fresh id, the processing of an upstream response with positive and negative caching, the
  fallback to TCP, timeouts with their retries, and the blocking variant with rebinding protection.
  The network, the random numbers and the clock are parameters: what sockets return, the ids drawn,
  and the time of each step.  A task that waits for the network is cut at the wait into the step before
  and the step that handles what arrived.
\<close>

subsection \<open>Addresses\<close>

fun is_private_or_reserved_ip :: "ip_addr \<Rightarrow> bool" where
  "is_private_or_reserved_ip (V4 octets) =
     (octets ! 0 = 10 \<or>
      octets ! 0 = 172 \<and> 16 \<le> octets ! 1 \<and> octets ! 1 \<le> 31 \<or>
      octets ! 0 = 192 \<and> octets ! 1 = 168 \<or>
      octets ! 0 = 127 \<or>
      octets ! 0 = 169 \<and> octets ! 1 = 254)"
| "is_private_or_reserved_ip (V6 octets) =
     (let segment = be16 (octets ! 0) (octets ! 1) in
      octets = replicate 15 0 @ [1] \<or>
      segment AND 0xffc0 = 0xfe80 \<or>
      segment AND 0xfe00 = 0xfc00)"

subsection \<open>Queries\<close>

datatype query_state =
    QS_New
  | QS_CacheLookup
  | QS_Forwarded sock_addr timestamp nat
  | QS_Validating dns_message
  | QS_Completed dns_message
  | QS_Failed dns_error

fun is_terminal :: "query_state \<Rightarrow> bool" where
  "is_terminal (QS_Completed _) = True"
| "is_terminal (QS_Failed _) = True"
| "is_terminal _ = False"

fun is_forwarded :: "query_state \<Rightarrow> bool" where
  "is_forwarded (QS_Forwarded _ _ _) = True"
| "is_forwarded _ = False"

fun needs_validation :: "query_state \<Rightarrow> bool" where
  "needs_validation (QS_Validating _) = True"
| "needs_validation _ = False"

record outstanding_query =
  oq_query_id :: u16
  oq_original_id :: u16
  oq_client_addr :: sock_addr
  oq_query :: question
  oq_upstream_server :: "sock_addr option"
  oq_state :: query_state
  oq_created_at :: timestamp
  oq_edns0_options :: "edns0_handler option"
  oq_query_bytes :: bytes

abbreviation QUERY_TIMEOUT :: nat where "QUERY_TIMEOUT \<equiv> secs 10"
abbreviation MAX_RETRY_ATTEMPTS :: nat where "MAX_RETRY_ATTEMPTS \<equiv> 3"

definition outstanding_new :: "timestamp \<Rightarrow> u16 \<Rightarrow> u16 \<Rightarrow> sock_addr \<Rightarrow> question \<Rightarrow> bytes \<Rightarrow> edns0_handler option \<Rightarrow> outstanding_query" where
  "outstanding_new now query_id original_id client_addr query query_bytes edns0 =
     \<lparr>oq_query_id = query_id, oq_original_id = original_id, oq_client_addr = client_addr, oq_query = query,
      oq_upstream_server = None, oq_state = QS_New, oq_created_at = now, oq_edns0_options = edns0, oq_query_bytes = query_bytes\<rparr>"

definition oq_is_expired :: "timestamp \<Rightarrow> outstanding_query \<Rightarrow> bool" where
  "oq_is_expired now q \<longleftrightarrow> QUERY_TIMEOUT < now - oq_created_at q"

definition oq_age :: "timestamp \<Rightarrow> outstanding_query \<Rightarrow> nat" where
  "oq_age now q = now - oq_created_at q"

definition mark_forwarded :: "timestamp \<Rightarrow> sock_addr \<Rightarrow> outstanding_query \<Rightarrow> outstanding_query" where
  "mark_forwarded now upstream_addr q = q\<lparr>oq_upstream_server := Some upstream_addr, oq_state := QS_Forwarded upstream_addr now 0\<rparr>"

definition with_id :: "u16 \<Rightarrow> dns_message \<Rightarrow> dns_message" where
  "with_id i m = m\<lparr>header := (header m)\<lparr>hdr_id := i\<rparr>\<rparr>"

definition mark_completed :: "dns_message \<Rightarrow> outstanding_query \<Rightarrow> outstanding_query" where
  "mark_completed response q = q\<lparr>oq_state := QS_Completed (with_id (oq_original_id q) response)\<rparr>"

definition mark_query_failed :: "dns_error \<Rightarrow> outstanding_query \<Rightarrow> outstanding_query" where
  "mark_query_failed err q = q\<lparr>oq_state := QS_Failed err\<rparr>"

subsection \<open>The forwarder\<close>

text \<open>The settings of \<open>DnsConfig\<close> the forwarder reads.\<close>

record forward_config =
  edns_packet_max :: u16
  stop_dns_rebind :: bool

record 'l forwarder =
  fw_outstanding :: "(u16 \<times> outstanding_query) list"
  fw_cache :: "'l dns_cache"
  fw_pool :: upstream_pool

text \<open>
  The environment of one step: the \<open>lru\<close> crate, \<open>to_lowercase\<close>, the \<open>idna\<close> crate, the clock,
  the random ids in the order drawn, whether a socket can be bound and written, and what a TCP server
  answers to a message (nothing when the connection fails on the way).
\<close>

record 'l fwd_env =
  fe_lru :: "'l lru_ops"
  fe_lc :: "bytes \<Rightarrow> bytes"
  fe_idna :: "bytes \<Rightarrow> bytes option"
  fe_now :: timestamp
  fe_draw :: "nat \<Rightarrow> u16"
  fe_bind_ok :: bool
  fe_send_ok :: bool
  fe_client_ok :: bool
  fe_tcp :: "sock_addr \<Rightarrow> bytes \<Rightarrow> bytes option"

definition forwarder_new :: "'l dns_cache \<Rightarrow> upstream_pool \<Rightarrow> 'l forwarder" where
  "forwarder_new cache pool = \<lparr>fw_outstanding = [], fw_cache = cache, fw_pool = pool\<rparr>"

definition generate_query_id :: "(nat \<Rightarrow> u16) \<Rightarrow> (u16 \<times> outstanding_query) list \<Rightarrow> u16" where
  "generate_query_id draw queries =
     (case find (\<lambda>i. map_of queries i = None) (map draw [0 ..< 100]) of Some i \<Rightarrow> i | None \<Rightarrow> draw 100)"

definition extract_edns0_from_query :: "(bytes \<Rightarrow> bytes option) \<Rightarrow> bytes \<Rightarrow> edns0_handler option" where
  "extract_edns0_from_query idna query_bytes =
     (case message_from_bytes idna query_bytes of
        Ok message \<Rightarrow> if find_opt_in_message message \<noteq> None then Some \<lparr>check_source_flag = False\<rparr> else None
      | _ \<Rightarrow> None)"

definition opt_owner :: "(bytes \<Rightarrow> bytes option) \<Rightarrow> domain_name" where
  "opt_owner idna = (case dn_new idna [dot] of Ok n \<Rightarrow> n | _ \<Rightarrow> (case dn_new idna [] of Ok n \<Rightarrow> n | _ \<Rightarrow> \<lparr>dn_name = []\<rparr>))"

definition add_edns0_to_query :: "(bytes \<Rightarrow> bytes option) \<Rightarrow> bytes \<Rightarrow> edns0_handler option \<Rightarrow> (bytes, dns_error) outcome" where
  "add_edns0_to_query idna query_bytes handler =
     (case handler of
        None \<Rightarrow> Ok query_bytes
      | Some _ \<Rightarrow>
          (case message_from_bytes idna query_bytes of
             Ok message \<Rightarrow>
               if find_opt_in_message message = None
               then message_to_bytes (add_additional (rr_new (opt_owner idna) RT_OPT 4096 0x00008000 (RD_Opt [])) message)
               else Ok query_bytes
           | _ \<Rightarrow> Ok query_bytes))"

definition select_available_upstream :: "'l fwd_env \<Rightarrow> types_name \<Rightarrow> 'l forwarder \<Rightarrow> (sock_addr, dns_error) outcome \<times> 'l forwarder" where
  "select_available_upstream E name fw =
     (let (r, pool) = select_server (fe_lc E) (fe_idna E) (fe_now E) name False (fw_pool fw) in
      (case r of
         Some server \<Rightarrow> if pool_is_available (fe_now E) (us_addr server) pool then Ok (us_addr server) else Err NoUpstreamServers
       | None \<Rightarrow> Err NoUpstreamServers, fw\<lparr>fw_pool := pool\<rparr>))"

subsection \<open>Cache entries of responses\<close>

definition positive_ttls :: "dns_message \<Rightarrow> u32 list" where
  "positive_ttls response = filter (\<lambda>ttl. ttl > 0) (map rr_ttl (answers response))"

definition first_address :: "dns_message \<Rightarrow> ip_addr option" where
  "first_address response =
     (case answers response of
        rr # _ \<Rightarrow> (case rr_data rr of RD_A a \<Rightarrow> Some (V4 a) | RD_AAAA a \<Rightarrow> Some (V6 a) | _ \<Rightarrow> None)
      | [] \<Rightarrow> None)"

definition create_cache_entry :: "timestamp \<Rightarrow> question \<Rightarrow> dns_message \<Rightarrow> cache_entry" where
  "create_cache_entry now query response =
     (let ttl = (if positive_ttls response = [] then 300 else Min (set (positive_ttls response))) in
      entry_new now (qname query) (qtype query) (first_address response) ttl CF_FORWARD)"

definition create_negative_cache_entry :: "timestamp \<Rightarrow> question \<Rightarrow> bool \<Rightarrow> u32 \<Rightarrow> cache_entry" where
  "create_negative_cache_entry now query is_nxdomain ttl =
     entry_new now (qname query) (qtype query) None ttl
       (if is_nxdomain then CF_NEG OR CF_FORWARD OR CF_NXDOMAIN else CF_NEG OR CF_FORWARD)"

fun soa_minimum :: "resource_record list \<Rightarrow> u32 option" where
  "soa_minimum [] = None"
| "soa_minimum (rr # rrs) = (case rr_data rr of RD_Soa _ _ _ _ _ _ mini \<Rightarrow> Some mini | _ \<Rightarrow> soa_minimum rrs)"

text \<open>The part of \<open>reply_query\<close> that caches a response.\<close>

definition cache_response :: "'l fwd_env \<Rightarrow> question \<Rightarrow> dns_message \<Rightarrow> 'l dns_cache \<Rightarrow> 'l dns_cache" where
  "cache_response E query response cache =
     (let rcode = get_rcode response;
          is_nxdomain = (rcode = 3);
          is_nodata = (rcode = 0 \<and> answers response = []) in
      if is_nxdomain \<or> is_nodata then
        let ttl = (case soa_minimum (authority response) of Some t \<Rightarrow> t | None \<Rightarrow> 300) in
        cache_insert (fe_lru E) (create_negative_cache_entry (fe_now E) query is_nxdomain ttl) cache
      else if positive_ttls response \<noteq> [] then cache_insert (fe_lru E) (create_cache_entry (fe_now E) query response) cache
      else cache)"

subsection \<open>Responses\<close>

text \<open>Results of a step: its outcome, the datagrams sent to clients, and the new state.\<close>

type_synonym 'l fwd_result = "(unit, dns_error) outcome \<times> (bytes \<times> sock_addr) list \<times> 'l forwarder"

definition replace_id :: "u16 \<Rightarrow> bytes \<Rightarrow> bytes" where
  "replace_id i b = (if 2 \<le> length b then b[0 := ucast (drop_bit 8 i), 1 := ucast (i AND 0xFF)] else b)"

definition with_opt :: "forward_config \<Rightarrow> (bytes \<Rightarrow> bytes option) \<Rightarrow> outstanding_query \<Rightarrow> dns_message \<Rightarrow> dns_message" where
  "with_opt cfg idna q response =
     (if oq_edns0_options q \<noteq> None \<and> \<not> list_ex (\<lambda>rr. rr_type rr = RT_OPT) (additional response)
      then add_additional (rr_new (opt_owner idna) RT_OPT (edns_packet_max cfg) 0 (RD_Opt [])) response
      else response)"

definition send_to_client :: "'l fwd_env \<Rightarrow> forward_config \<Rightarrow> outstanding_query \<Rightarrow> dns_message \<Rightarrow> 'l forwarder \<Rightarrow> 'l fwd_result" where
  "send_to_client E cfg q response fw =
     (case message_to_bytes (with_opt cfg (fe_idna E) q (with_id (oq_original_id q) response)) of
        Ok b \<Rightarrow> if fe_client_ok E then (Ok (), [(b, oq_client_addr q)], fw)
               else (Err (NetworkError ''Failed to send to client''), [], fw)
      | Err _ \<Rightarrow> (Err (SerializationError ''Response serialization failed''), [], fw)
      | Panic \<Rightarrow> (Panic, [], fw))"

text \<open>
  \<open>reply_query\<close> and \<open>handle_tcp_fallback\<close> call each other; \<open>d\<close> counts the fallbacks, so that each has draws of
  its own.  The TCP message carries the length of the query in two bytes.
\<close>

definition tcp_message :: "u16 \<Rightarrow> bytes \<Rightarrow> bytes option" where
  "tcp_message i query_bytes =
     (let b = replace_id i query_bytes in if length b < 65536 then Some (put_u16 (of_nat (length b)) @ b) else None)"

function reply_query :: "(nat \<Rightarrow> 'l fwd_env) \<Rightarrow> forward_config \<Rightarrow> nat \<Rightarrow> u16 \<Rightarrow> bytes \<Rightarrow> 'l forwarder \<Rightarrow> 'l fwd_result" where
  "reply_query E cfg d query_id response_bytes fw =
     (case message_from_bytes (fe_idna (E d)) response_bytes of
        Ok response \<Rightarrow>
          (case map_of (fw_outstanding fw) query_id of
             None \<Rightarrow> (Err (QueryNotFound query_id), [], fw)
           | Some q \<Rightarrow>
               let fw = fw\<lparr>fw_outstanding := AList.delete query_id (fw_outstanding fw)\<rparr> in
               if \<not> flags_qr (hdr_flags (header response)) then (Err (ParseError ''Invalid response: QR bit not set''), [], fw)
               else (case (flags_tc (hdr_flags (header response)), oq_upstream_server q) of
                 (True, Some upstream_addr) \<Rightarrow>
                   let tcp_query_id = generate_query_id (fe_draw (E d)) (fw_outstanding fw) in
                   (case tcp_message tcp_query_id (oq_query_bytes q) of
                      None \<Rightarrow> (Err (NetworkError ''Query too large for TCP''), [], fw)
                    | Some msg \<Rightarrow>
                        (case fe_tcp (E d) upstream_addr msg of
                           None \<Rightarrow> (Err (NetworkError ''TCP exchange failed''), [], fw)
                         | Some b \<Rightarrow> reply_query E cfg (Suc d) tcp_query_id b fw))
               | (_, upstream) \<Rightarrow>
                   let pool = (case upstream of Some a \<Rightarrow> mark_available (fe_now (E d)) a (fw_pool fw) | None \<Rightarrow> fw_pool fw) in
                   send_to_client (E d) cfg q response
                     (fw\<lparr>fw_pool := pool, fw_cache := cache_response (E d) (oq_query q) response (fw_cache fw)\<rparr>)))
      | Err _ \<Rightarrow> (Err (ParseError ''Invalid upstream response''), [], fw)
      | Panic \<Rightarrow> (Panic, [], fw))"
  by pat_completeness auto
termination
proof (relation "measure (\<lambda>(_, _, _, _, _, fw). length (fw_outstanding fw))", goal_cases)
  case (2 E cfg d query_id b fw response q fw')
  then have "query_id \<in> fst ` set (fw_outstanding fw)" by (metis weak_map_of_SomeI domIff dom_map_of_conv_image_fst option.distinct(1))
  then have "length (AList.delete query_id (fw_outstanding fw)) < length (fw_outstanding fw)"
    by (auto simp: AList.delete_eq length_filter_less)
  with 2 show ?case by simp
qed simp

declare reply_query.simps [simp del]

subsection \<open>Queries from clients\<close>

definition fw_build_response_from_cache :: "dns_message \<Rightarrow> cache_entry \<Rightarrow> dns_message" where
  "fw_build_response_from_cache query_message cache_entry =
     set_authoritative False (msg_set_rcode 0 (response_from_query query_message))"

definition forward_query :: "'l fwd_env \<Rightarrow> question \<Rightarrow> u16 \<Rightarrow> sock_addr \<Rightarrow> bytes \<Rightarrow> 'l forwarder \<Rightarrow> 'l fwd_result" where
  "forward_query E query original_id client_addr query_bytes fw =
     (case types_name_new (dn_name (qname query)) of
        Ok name \<Rightarrow>
          let (r, pool) = select_server (fe_lc E) (fe_idna E) (fe_now E) name False (fw_pool fw);
              fw = fw\<lparr>fw_pool := pool\<rparr> in
          (case r of
             None \<Rightarrow> (Err NoUpstreamServers, [], fw)
           | Some server \<Rightarrow>
               let new_query_id = generate_query_id (fe_draw E) (fw_outstanding fw);
                   edns0 = extract_edns0_from_query (fe_idna E) query_bytes;
                   q = outstanding_new (fe_now E) new_query_id original_id client_addr query query_bytes edns0;
                   forward_bytes = replace_id new_query_id query_bytes in
               if \<not> fe_bind_ok E then (Err (OtherError ''bind failed''), [], fw)
               else if \<not> fe_send_ok E then (Err (OtherError ''send failed''), [], fw)
               else (Ok (), [(forward_bytes, us_addr server)],
                 fw\<lparr>fw_outstanding := AList.update new_query_id (mark_forwarded (fe_now E) (us_addr server) q) (fw_outstanding fw)\<rparr>))
      | Err e \<Rightarrow> (Err e, [], fw)
      | Panic \<Rightarrow> (Panic, [], fw))"

definition receive_query :: "'l fwd_env \<Rightarrow> bytes \<Rightarrow> sock_addr \<Rightarrow> 'l forwarder \<Rightarrow> 'l fwd_result" where
  "receive_query E query_bytes client_addr fw =
     (case message_from_bytes (fe_idna E) query_bytes of
        Ok message \<Rightarrow>
          (case query_from_message message of
             None \<Rightarrow> (Err (ParseFailed ''client'' ''Query has no questions''), [], fw)
           | Some query \<Rightarrow>
               let (found, cache) = find_by_name (fe_lru E) (fe_now E) (qname query) (qtype query) (fw_cache fw);
                   fw = fw\<lparr>fw_cache := cache\<rparr> in
               (case found of
                  Some entry \<Rightarrow>
                    (case message_to_bytes (fw_build_response_from_cache message entry) of
                       Ok b \<Rightarrow> if fe_client_ok E then (Ok (), [(b, client_addr)], fw) else (Err (OtherError ''send failed''), [], fw)
                     | Err e \<Rightarrow> (Err e, [], fw)
                     | Panic \<Rightarrow> (Panic, [], fw))
                | None \<Rightarrow> forward_query E query (hdr_id (header message)) client_addr query_bytes fw))
      | Err _ \<Rightarrow> (Err (ParseFailed ''client'' ''Invalid DNS query''), [], fw)
      | Panic \<Rightarrow> (Panic, [], fw))"

subsection \<open>Waiting for the upstream server\<close>

datatype recv = Received bytes sock_addr | RecvFailed | TimedOut

definition wait_for_upstream_response :: "(nat \<Rightarrow> 'l fwd_env) \<Rightarrow> forward_config \<Rightarrow> u16 \<Rightarrow> recv \<Rightarrow> 'l forwarder \<Rightarrow> 'l fwd_result" where
  "wait_for_upstream_response E cfg query_id rc fw =
     (case rc of
        Received datagram _ \<Rightarrow> reply_query E cfg 0 query_id (take (unat (edns_packet_max cfg)) datagram) fw
      | _ \<Rightarrow> (Err (NetworkError ''Upstream recv failed''), [], fw))"

definition handle_query_error :: "u16 \<Rightarrow> 'l forwarder \<Rightarrow> 'l forwarder" where
  "handle_query_error query_id fw = fw\<lparr>fw_outstanding := AList.delete query_id (fw_outstanding fw)\<rparr>"

definition await_reply :: "(nat \<Rightarrow> 'l fwd_env) \<Rightarrow> forward_config \<Rightarrow> u16 \<Rightarrow> recv \<Rightarrow> 'l forwarder
    \<Rightarrow> (bytes \<times> sock_addr) list \<times> 'l forwarder" where
  "await_reply E cfg query_id rc fw =
     (case wait_for_upstream_response E cfg query_id rc fw of
        (Ok _, sent, fw) \<Rightarrow> (sent, fw)
      | (_, sent, fw) \<Rightarrow> (sent, handle_query_error query_id fw))"

text \<open>
  One attempt of a loop that waits: the environments of its steps, what it receives, and what the other
  tasks do to the shared state while it waits.
\<close>

record 'l attempt =
  at_env :: "nat \<Rightarrow> 'l fwd_env"
  at_recv :: recv
  at_meanwhile :: "'l forwarder \<Rightarrow> 'l forwarder"

definition next_server :: "'l fwd_env \<Rightarrow> question \<Rightarrow> upstream_pool \<Rightarrow> sock_addr option \<times> upstream_pool" where
  "next_server E query pool =
     (case types_name_new (dn_name (qname query)) of
        Ok name \<Rightarrow> (case select_server (fe_lc E) (fe_idna E) (fe_now E) name False pool of
                      (r, pool) \<Rightarrow> (map_option us_addr r, pool))
      | _ \<Rightarrow> (None, pool))"

function retry_loop :: "(nat \<Rightarrow> 'l attempt) \<Rightarrow> forward_config \<Rightarrow> nat \<Rightarrow> outstanding_query \<Rightarrow> 'l forwarder
    \<Rightarrow> (bytes \<times> sock_addr) list \<times> 'l forwarder" where
  "retry_loop attempt cfg retry_count q fw =
     (if \<not> retry_count < MAX_RETRY_ATTEMPTS then ([], fw)
      else
        let A = attempt retry_count; E = at_env A 0;
            (nxt, pool) = next_server E (oq_query q) (fw_pool fw);
            fw = fw\<lparr>fw_pool := pool\<rparr> in
        (case nxt of
           None \<Rightarrow> ([], fw)
         | Some addr \<Rightarrow>
             let retry_count = retry_count + 1;
                 new_query_id = generate_query_id (fe_draw E) (fw_outstanding fw);
                 forward_bytes = replace_id new_query_id (oq_query_bytes q) in
             if \<not> fe_bind_ok E then retry_loop attempt cfg retry_count q fw
             else if \<not> fe_send_ok E then retry_loop attempt cfg retry_count q fw
             else
               let q = q\<lparr>oq_query_id := new_query_id, oq_upstream_server := Some addr, oq_state := QS_Forwarded addr (fe_now E) retry_count\<rparr>;
                   fw = fw\<lparr>fw_outstanding := AList.update new_query_id q (fw_outstanding fw)\<rparr>;
                   fw = at_meanwhile A fw in
               (case at_recv A of
                  TimedOut \<Rightarrow>
                    let fw = fw\<lparr>fw_pool := mark_failed (fe_now (at_env A 1)) addr (fw_pool fw)\<rparr>;
                        q = (case map_of (fw_outstanding fw) new_query_id of Some q' \<Rightarrow> q' | None \<Rightarrow> q);
                        fw = fw\<lparr>fw_outstanding := AList.delete new_query_id (fw_outstanding fw)\<rparr>;
                        (sent, fw) = retry_loop attempt cfg retry_count q fw in
                    ((forward_bytes, addr) # sent, fw)
                | rc \<Rightarrow> (case await_reply (at_env A) cfg new_query_id rc fw of
                           (sent, fw) \<Rightarrow> ((forward_bytes, addr) # sent, fw)))))"
  by pat_completeness auto
termination by (relation "measure (\<lambda>(_, _, n, _, _). 3 - n)") auto

declare retry_loop.simps [simp del]

definition handle_query_timeout :: "timestamp \<Rightarrow> (nat \<Rightarrow> 'l attempt) \<Rightarrow> forward_config \<Rightarrow> u16 \<Rightarrow> 'l forwarder
    \<Rightarrow> (bytes \<times> sock_addr) list \<times> 'l forwarder" where
  "handle_query_timeout now attempt cfg query_id fw =
     (case map_of (fw_outstanding fw) query_id of
        None \<Rightarrow> ([], fw)
      | Some q \<Rightarrow>
          let fw = fw\<lparr>fw_outstanding := AList.delete query_id (fw_outstanding fw)\<rparr>;
              fw = (case oq_upstream_server q of Some a \<Rightarrow> fw\<lparr>fw_pool := mark_failed now a (fw_pool fw)\<rparr> | None \<Rightarrow> fw) in
          retry_loop attempt cfg (case oq_state q of QS_Forwarded _ _ n \<Rightarrow> n | _ \<Rightarrow> 0) q fw)"

text \<open>The task spawned by \<open>forward_query\<close>.\<close>

definition forward_task :: "(nat \<Rightarrow> 'l fwd_env) \<Rightarrow> (nat \<Rightarrow> 'l attempt) \<Rightarrow> forward_config \<Rightarrow> u16 \<Rightarrow> recv \<Rightarrow> 'l forwarder
    \<Rightarrow> (bytes \<times> sock_addr) list \<times> 'l forwarder" where
  "forward_task E attempt cfg query_id rc fw =
     (case rc of
        TimedOut \<Rightarrow> handle_query_timeout (fe_now (E 0)) attempt cfg query_id fw
      | _ \<Rightarrow> await_reply E cfg query_id rc fw)"

subsection \<open>Forwarding and waiting\<close>

definition private_answer :: "resource_record \<Rightarrow> bool" where
  "private_answer rr =
     (if rr_type rr = RT_A then (case rr_data rr of RD_A a \<Rightarrow> is_private_or_reserved_ip (V4 a) | _ \<Rightarrow> False)
      else if rr_type rr = RT_AAAA then (case rr_data rr of RD_AAAA a \<Rightarrow> is_private_or_reserved_ip (V6 a) | _ \<Rightarrow> False)
      else False)"

definition blocked_response :: "dns_message \<Rightarrow> dns_message" where
  "blocked_response m = (msg_set_rcode 3 m)\<lparr>answers := [], authority := [], additional := []\<rparr>"

definition check_rebind :: "forward_config \<Rightarrow> dns_message \<Rightarrow> dns_message" where
  "check_rebind cfg m = (if stop_dns_rebind cfg \<and> list_ex private_answer (answers m) then blocked_response m else m)"

function wait_loop :: "(nat \<Rightarrow> 'l attempt) \<Rightarrow> forward_config \<Rightarrow> bytes \<Rightarrow> types_name \<Rightarrow> bytes \<Rightarrow> nat \<Rightarrow> sock_addr list \<Rightarrow> 'l forwarder
    \<Rightarrow> (dns_message, dns_error) outcome \<times> sock_addr list \<times> 'l forwarder" where
  "wait_loop attempt cfg qn name query_bytes retry_count tried fw =
     (if \<not> retry_count < MAX_RETRY_ATTEMPTS then (Err (Timeout qn 30000), tried, fw)
      else
        let A = attempt retry_count; E = at_env A 0;
            (r, pool) = select_server (fe_lc E) (fe_idna E) (fe_now E) name False (fw_pool fw);
            fw = fw\<lparr>fw_pool := pool\<rparr> in
        (case (case r of Some s \<Rightarrow> if us_addr s \<in> set tried then None else Some s | None \<Rightarrow> None) of
           None \<Rightarrow> (Err (Timeout qn 30000), tried, fw)
         | Some upstream \<Rightarrow>
             let addr = us_addr upstream; tried = tried @ [addr];
                 failed = (\<lambda>fw. fw\<lparr>fw_pool := mark_failed (fe_now (at_env A 1)) addr (fw_pool fw)\<rparr>);
                 again = wait_loop attempt cfg qn name query_bytes (retry_count + 1) tried in
             if \<not> fe_bind_ok E then again fw
             else if \<not> fe_send_ok E then again (failed fw)
             else
               let fw = at_meanwhile A fw in
               (case at_recv A of
                  Received datagram _ \<Rightarrow>
                    (case message_from_bytes (fe_idna E) (take (unat (edns_packet_max cfg)) datagram) of
                       Ok response \<Rightarrow> (Ok (check_rebind cfg response), tried, fw)
                     | Err _ \<Rightarrow> again (failed fw)
                     | Panic \<Rightarrow> (Panic, tried, fw))
                | _ \<Rightarrow> again (failed fw))))"
  by pat_completeness auto
termination by (relation "measure (\<lambda>(_, _, _, _, _, n, _, _). 3 - n)") auto

declare wait_loop.simps [simp del]

definition forward_query_and_wait :: "(nat \<Rightarrow> 'l attempt) \<Rightarrow> forward_config \<Rightarrow> question \<Rightarrow> bytes \<Rightarrow> 'l forwarder
    \<Rightarrow> (dns_message, dns_error) outcome \<times> sock_addr list \<times> 'l forwarder" where
  "forward_query_and_wait attempt cfg query query_bytes fw =
     (case types_name_new (dn_name (qname query)) of
        Ok name \<Rightarrow> wait_loop attempt cfg (dn_name (qname query)) name query_bytes 0 [] fw
      | Err _ \<Rightarrow> (Err (InvalidName (dn_name (qname query)) ''invalid domain name''), [], fw)
      | Panic \<Rightarrow> (Panic, [], fw))"

subsection \<open>The state of outstanding queries\<close>

text \<open>
  Every outstanding query is stored under its own id, has been sent to the server it names, and counts at
  most three retries.
\<close>

definition waiting :: "u16 \<Rightarrow> outstanding_query \<Rightarrow> bool" where
  "waiting i q \<longleftrightarrow> oq_query_id q = i \<and> (\<exists>a t n. oq_upstream_server q = Some a \<and> oq_state q = QS_Forwarded a t n \<and> n \<le> 3)"

definition fwd_inv :: "('l \<Rightarrow> (cache_id \<times> cache_entry) list) \<Rightarrow> ('l \<Rightarrow> nat) \<Rightarrow> 'l forwarder \<Rightarrow> bool" where
  "fwd_inv items cap fw \<longleftrightarrow> distinct (map fst (fw_outstanding fw)) \<and> (\<forall>(i, q)\<in>set (fw_outstanding fw). waiting i q) \<and>
     cache_inv items cap (fw_cache fw)"

lemma fwd_inv_parts:
  "fwd_inv items cap (fw\<lparr>fw_pool := p\<rparr>) = fwd_inv items cap fw"
  "fwd_inv items cap fw \<Longrightarrow> fwd_inv items cap (fw\<lparr>fw_outstanding := AList.delete i (fw_outstanding fw)\<rparr>)"
  "fwd_inv items cap fw \<Longrightarrow> waiting i q \<Longrightarrow> fwd_inv items cap (fw\<lparr>fw_outstanding := AList.update i q (fw_outstanding fw)\<rparr>)"
  "fwd_inv items cap fw \<Longrightarrow> cache_inv items cap c \<Longrightarrow> fwd_inv items cap (fw\<lparr>fw_cache := c\<rparr>)"
  using set_delete_subset[of i "fw_outstanding fw"]
  by (auto simp: fwd_inv_def distinct_delete distinct_update dest: set_update_cases)

lemma fwd_inv_waiting: "fwd_inv items cap fw \<Longrightarrow> map_of (fw_outstanding fw) i = Some q \<Longrightarrow> waiting i q"
  by (auto simp: fwd_inv_def dest: map_of_SomeD)

lemma fwd_inv_error: "fwd_inv items cap fw \<Longrightarrow> fwd_inv items cap (handle_query_error i fw)"
  by (simp add: handle_query_error_def fwd_inv_parts)

lemma send_to_client_state: "snd (snd (send_to_client E cfg q r fw)) = fw"
  by (simp add: send_to_client_def split: outcome.split)

context lru_cache
begin

lemma find_inserted:
  assumes "cache_inv items cap c" "dn_eq d (ce_domain_name e)"
  shows "fst (find_by_name L now d (ce_record_type e) (cache_insert L e c)) = (if now < ce_expiry e then Some e else None)"
proof -
  have key: "cache_key d (ce_record_type e) = entry_key e" using assms(2) by (simp add: cache_key_eq_iff)
  have "cache_map (cache_insert L e c) (entry_key e) = Some e" using insert_map[OF assms(1), of e] by simp
  then have "fst (find_by_name L now d (ce_record_type e) (cache_insert L e c)) = Some x \<longleftrightarrow> x = e \<and> now < ce_expiry e" for x
    unfolding find_by_name_result[OF inv_insert[OF assms(1)]] key by auto
  then show ?thesis by (cases "fst (find_by_name L now d (ce_record_type e) (cache_insert L e c))") auto
qed

lemma inv_cache_response: "cache_inv items cap c \<Longrightarrow> fe_lru E = L \<Longrightarrow> cache_inv items cap (cache_response E q r c)"
  by (auto simp: cache_response_def Let_def inv_insert)

end

subsection \<open>Steps\<close>

text \<open>
  Tasks give way to each other at every wait and share the forwarder's state behind locks.  A step is one
  critical section: an access to the cache, which the other services use as well, a call of the
  pool, or an insertion into or a removal from the table of outstanding queries.  A run is any
  sequence of steps of any tasks.
\<close>

inductive fwd_step :: "'l lru_ops \<Rightarrow> 'l forwarder \<Rightarrow> 'l forwarder \<Rightarrow> bool" for L where
  looked_up: "fwd_step L fw (fw\<lparr>fw_cache := snd (find_by_name L now d ty (fw_cache fw))\<rparr>)"
| cached: "fwd_step L fw (fw\<lparr>fw_cache := cache_insert L e (fw_cache fw)\<rparr>)"
| selected: "fwd_step L fw (fw\<lparr>fw_pool := snd (select_server lc idna now name dnssec (fw_pool fw))\<rparr>)"
| failed: "fwd_step L fw (fw\<lparr>fw_pool := mark_failed now a (fw_pool fw)\<rparr>)"
| available: "fwd_step L fw (fw\<lparr>fw_pool := mark_available now a (fw_pool fw)\<rparr>)"
| forwarded: "fwd_step L fw (fw\<lparr>fw_outstanding :=
     AList.update i (mark_forwarded t a (outstanding_new t' i oid client q b e)) (fw_outstanding fw)\<rparr>)"
| retried: "n < MAX_RETRY_ATTEMPTS \<Longrightarrow> fwd_step L fw (fw\<lparr>fw_outstanding := AList.update i
     (q\<lparr>oq_query_id := i, oq_upstream_server := Some a, oq_state := QS_Forwarded a t (n + 1)\<rparr>) (fw_outstanding fw)\<rparr>)"
| removed: "fwd_step L fw (fw\<lparr>fw_outstanding := AList.delete i (fw_outstanding fw)\<rparr>)"

abbreviation fwd_steps :: "'l lru_ops \<Rightarrow> 'l forwarder \<Rightarrow> 'l forwarder \<Rightarrow> bool" where
  "fwd_steps L \<equiv> rtranclp (fwd_step L)"

lemma then_step: "fwd_step L fw fw' \<Longrightarrow> fwd_steps L s fw \<Longrightarrow> fwd_steps L s fw'"
  by (rule rtranclp.rtrancl_into_rtrancl)

lemmas fwd_then = looked_up[THEN then_step] cached[THEN then_step] selected[THEN then_step] failed[THEN then_step]
  available[THEN then_step] forwarded[THEN then_step] retried[THEN then_step] removed[THEN then_step]

lemma then_selected:
  "select_server lc idna now name dnssec (fw_pool fw) = (r, p) \<Longrightarrow> fwd_steps L s fw \<Longrightarrow> fwd_steps L s (fw\<lparr>fw_pool := p\<rparr>)"
  by (metis selected[THEN then_step] snd_conv)

lemma then_error: "fwd_steps L s fw \<Longrightarrow> fwd_steps L s (handle_query_error i fw)"
  by (simp add: handle_query_error_def fwd_then)

text \<open>What other tasks do while a task waits is a run of the forwarder.\<close>

definition keeps :: "'l lru_ops \<Rightarrow> (nat \<Rightarrow> 'l attempt) \<Rightarrow> bool" where
  "keeps L attempt \<longleftrightarrow> (\<forall>k d. fe_lru (at_env (attempt k) d) = L) \<and> (\<forall>k fw. fwd_steps L fw (at_meanwhile (attempt k) fw))"

lemma keeps_lru: "keeps L attempt \<Longrightarrow> fe_lru (at_env (attempt k) d) = L"
  by (simp add: keeps_def)

lemma then_meanwhile: "keeps L attempt \<Longrightarrow> fwd_steps L s fw \<Longrightarrow> fwd_steps L s (at_meanwhile (attempt k) fw)"
  by (meson keeps_def rtranclp_trans)

text \<open>Every handler is a sequence of steps, with runs of other tasks where it waits.\<close>

lemma then_response:
  assumes "fe_lru E = L" "fwd_steps L s fw"
  shows "fwd_steps L s (fw\<lparr>fw_cache := cache_response E q r (fw_cache fw)\<rparr>)"
proof -
  have "fw\<lparr>fw_cache := fw_cache fw\<rparr> = fw" by simp
  then show ?thesis using assms cached[THEN then_step, OF assms(2)] by (simp add: cache_response_def Let_def)
qed

lemma reply_steps:
  assumes "\<And>d. fe_lru (E d) = L" "fwd_steps L s fw"
  shows "fwd_steps L s (snd (snd (reply_query E cfg d i b fw)))"
  using assms
proof (induction E cfg d i b fw rule: reply_query.induct)
  case (1 E cfg d i b fw)
  show ?case
  proof (cases "message_from_bytes (fe_idna (E d)) b")
    case (Ok r)
    show ?thesis
    proof (cases "map_of (fw_outstanding fw) i")
      case (Some q)
      define fw1 where "fw1 = fw\<lparr>fw_outstanding := AList.delete i (fw_outstanding fw)\<rparr>"
      have run: "fwd_steps L s fw1" unfolding fw1_def using "1.prems"(2) by (rule removed[THEN then_step])
      have fin: "fwd_steps L s (fw2\<lparr>fw_cache := cache_response (E d) (oq_query q) r (fw_cache fw2)\<rparr>)" if "fwd_steps L s fw2" for fw2
        using then_response[OF "1.prems"(1) that] .
      have fin': "fwd_steps L s (fw1\<lparr>fw_pool := mark_available now a (fw_pool fw1), fw_cache := cache_response (E d) (oq_query q) r (fw_cache fw1)\<rparr>)" for now a
        using fin[OF available[THEN then_step, OF run, of now a]] by simp
      have eq: "fw_cache fw = fw_cache fw1" "fw_pool fw = fw_pool fw1" by (simp_all add: fw1_def)
      show ?thesis
        using "1.IH"[OF Ok Some refl] "1.prems"(1) run fin[OF run] fin' Ok Some
        by (subst reply_query.simps)
          (auto simp: Let_def send_to_client_state fw1_def[symmetric] eq split: bool.split option.split)
    qed (use "1.prems" Ok in \<open>subst reply_query.simps, simp\<close>)
  qed (use "1.prems" in \<open>subst reply_query.simps, simp\<close>)+
qed

lemma await_steps:
  assumes "\<And>d. fe_lru (E d) = L" "fwd_steps L s fw"
  shows "fwd_steps L s (snd (await_reply E cfg i rc fw))"
proof -
  have "fwd_steps L s (snd (snd (wait_for_upstream_response E cfg i rc fw)))"
    using assms reply_steps[OF assms] by (simp add: wait_for_upstream_response_def split: recv.split)
  then show ?thesis
    by (auto simp: await_reply_def split: prod.split outcome.split intro: then_error)
qed

lemma next_server_steps:
  assumes "next_server E q (fw_pool fw) = (nxt, p)" "fwd_steps L s fw"
  shows "fwd_steps L s (fw\<lparr>fw_pool := p\<rparr>)"
proof -
  have "fw\<lparr>fw_pool := fw_pool fw\<rparr> = fw" by simp
  then show ?thesis using assms by (auto simp: next_server_def split: outcome.splits prod.splits dest: then_selected)
qed

lemma retry_steps:
  assumes keeps: "keeps L attempt"
  shows "fwd_steps L s fw \<Longrightarrow> fwd_steps L s (snd (retry_loop attempt cfg n q fw))"
proof (induction "3 - n" arbitrary: n q fw rule: less_induct)
  case (less n q fw)
  let ?A = "attempt n" let ?E = "at_env ?A 0"
  obtain nxt pool where nx: "next_server ?E (oq_query q) (fw_pool fw) = (nxt, pool)" by fastforce
  show ?case
  proof (cases "n < 3 \<and> nxt \<noteq> None")
    case True
    then obtain addr where a: "nxt = Some addr" and n: "n < 3" by blast
    have IH: "fwd_steps L s fw' \<Longrightarrow> fwd_steps L s (snd (retry_loop attempt cfg (n + 1) q' fw'))" for q' fw'
      using n less.hyps[of "n + 1" fw' q'] by simp
    define fw0 where "fw0 = fw\<lparr>fw_pool := pool\<rparr>"
    define i where "i = generate_query_id (fe_draw ?E) (fw_outstanding fw0)"
    define q1 where "q1 = q\<lparr>oq_query_id := i, oq_upstream_server := Some addr, oq_state := QS_Forwarded addr (fe_now ?E) (n + 1)\<rparr>"
    define fw1 where "fw1 = at_meanwhile ?A (fw0\<lparr>fw_outstanding := AList.update i q1 (fw_outstanding fw0)\<rparr>)"
    define fw2 where "fw2 = fw1\<lparr>fw_pool := mark_failed (fe_now (at_env ?A 1)) addr (fw_pool fw1)\<rparr>"
    have run: "fwd_steps L s fw0" unfolding fw0_def using nx less.prems by (rule next_server_steps)
    have "fwd_steps L s (fw0\<lparr>fw_outstanding := AList.update i q1 (fw_outstanding fw0)\<rparr>)"
      unfolding q1_def using n by (intro retried[THEN then_step, OF _ run]) simp
    then have run1: "fwd_steps L s fw1" unfolding fw1_def by (rule then_meanwhile[OF keeps])
    then have run2: "fwd_steps L s (fw2\<lparr>fw_outstanding := AList.delete i (fw_outstanding fw2)\<rparr>)"
      unfolding fw2_def by (intro fwd_then)
    have loop: "snd (retry_loop attempt cfg n q fw) =
        (if \<not> fe_bind_ok ?E \<or> \<not> fe_send_ok ?E then snd (retry_loop attempt cfg (n + 1) q fw0)
         else case at_recv ?A of
           TimedOut \<Rightarrow> snd (retry_loop attempt cfg (n + 1) (case map_of (fw_outstanding fw2) i of Some q' \<Rightarrow> q' | None \<Rightarrow> q1)
             (fw2\<lparr>fw_outstanding := AList.delete i (fw_outstanding fw2)\<rparr>))
         | rc \<Rightarrow> snd (await_reply (at_env ?A) cfg i rc fw1))"
      using n by (subst retry_loop.simps)
        (simp add: nx a Let_def case_prod_unfold fw0_def[symmetric] i_def[symmetric] q1_def[symmetric, simplified] fw1_def[symmetric]
          fw2_def split: recv.split)
    show ?thesis unfolding loop using IH run run2 await_steps[OF keeps_lru[OF keeps] run1] by (simp split: recv.split)
  next
    case False
    have "retry_loop attempt cfg n q fw = ([], fw)" if "\<not> n < 3" using that by (subst retry_loop.simps) simp
    moreover have "retry_loop attempt cfg n q fw = ([], fw\<lparr>fw_pool := pool\<rparr>)" if "n < 3" "nxt = None"
      using that nx by (subst retry_loop.simps) simp
    ultimately show ?thesis using False less.prems next_server_steps[OF nx less.prems] by (cases "n < 3"; cases nxt) simp_all
  qed
qed

lemma task_steps:
  assumes "\<And>d. fe_lru (E d) = L" "keeps L attempt" "fwd_steps L s fw"
  shows "fwd_steps L s (snd (forward_task E attempt cfg i rc fw))"
proof -
  have "fwd_steps L s (snd (handle_query_timeout t attempt cfg i fw))" for t
  proof (cases "map_of (fw_outstanding fw) i")
    case (Some q)
    define fw1 where "fw1 = fw\<lparr>fw_outstanding := AList.delete i (fw_outstanding fw)\<rparr>"
    have run: "fwd_steps L s fw1" unfolding fw1_def using assms(3) by (rule removed[THEN then_step])
    then have "fwd_steps L s (case oq_upstream_server q of Some a \<Rightarrow> fw1\<lparr>fw_pool := mark_failed t a (fw_pool fw1)\<rparr> | None \<Rightarrow> fw1)"
      by (auto intro: fwd_then split: option.split)
    from retry_steps[OF assms(2) this] show ?thesis
      using Some by (simp add: handle_query_timeout_def Let_def fw1_def[symmetric])
  qed (use assms(3) in \<open>simp add: handle_query_timeout_def\<close>)
  then show ?thesis using await_steps[OF assms(1,3)] by (simp add: forward_task_def split: recv.split)
qed

lemma forward_steps:
  assumes "fwd_steps L s fw"
  shows "fwd_steps L s (snd (snd (forward_query E q oid client b fw)))"
proof -
  have "fwd_steps L s (fw\<lparr>fw_pool := p\<rparr>)"
      "fwd_steps L s ((fw\<lparr>fw_pool := p\<rparr>)\<lparr>fw_outstanding :=
        AList.update i (mark_forwarded t a (outstanding_new t' i oid client q b e)) (fw_outstanding (fw\<lparr>fw_pool := p\<rparr>))\<rparr>)"
    if "select_server lc idna now name dnssec (fw_pool fw) = (r, p)" for lc idna now name dnssec r p i t a t' e
    using then_selected[OF that assms] forwarded[THEN then_step, OF then_selected[OF that assms]] by blast+
  with assms show ?thesis
    by (auto simp: forward_query_def Let_def case_prod_unfold prod_eq_iff split: outcome.split option.split)
qed

lemma receive_steps:
  assumes "fe_lru E = L" "fwd_steps L s fw"
  shows "fwd_steps L s (snd (snd (receive_query E b client fw)))"
  using assms looked_up[THEN then_step, OF assms(2)]
  by (simp add: receive_query_def Let_def case_prod_unfold forward_steps split: outcome.split option.split)

context lru_cache
begin

lemma step_inv:
  assumes "fwd_step L fw fw'" "fwd_inv items cap fw"
  shows "fwd_inv items cap fw'"
proof -
  have c: "cache_inv items cap (fw_cache fw)" using assms(2) by (simp add: fwd_inv_def)
  from assms(1) show ?thesis
  proof cases
    case (retried n i a t q)
    then have "waiting i (q\<lparr>oq_query_id := i, oq_upstream_server := Some a, oq_state := QS_Forwarded a t (n + 1)\<rparr>)"
      by (simp add: waiting_def)
    with retried(1) assms(2) show ?thesis by (simp add: fwd_inv_parts)
  next
    case (forwarded i t a t' oid client q b e)
    have "waiting i (mark_forwarded t a (outstanding_new t' i oid client q b e))"
      by (simp add: waiting_def mark_forwarded_def outstanding_new_def)
    with forwarded assms(2) show ?thesis by (simp add: fwd_inv_parts)
  qed (use assms(2) c in \<open>simp_all add: fwd_inv_parts inv_insert inv_find_by_name\<close>)
qed

lemma steps_inv:
  assumes "fwd_steps L fw fw'" "fwd_inv items cap fw"
  shows "fwd_inv items cap fw'"
  using assms by induction (blast intro: step_inv)+

end

subsection \<open>Waiting for an answer\<close>

definition good_wait :: "('l forwarder \<Rightarrow> bool) \<Rightarrow> forward_config \<Rightarrow> bytes \<Rightarrow> nat \<Rightarrow>
    (dns_message, dns_error) outcome \<times> sock_addr list \<times> 'l forwarder \<Rightarrow> bool" where
  "good_wait P cfg qn k res \<longleftrightarrow> P (snd (snd res)) \<and> distinct (fst (snd res)) \<and> length (fst (snd res)) \<le> k \<and>
     (fst res = Err (Timeout qn 30000) \<or> (\<exists>m. fst res = Ok (check_rebind cfg m)))"

lemma wait_loop_good:
  assumes sel: "\<And>fw lc idna t name b. P fw \<Longrightarrow> P (fw\<lparr>fw_pool := snd (select_server lc idna t name b (fw_pool fw))\<rparr>)"
    and fail: "\<And>fw t a. P fw \<Longrightarrow> P (fw\<lparr>fw_pool := mark_failed t a (fw_pool fw)\<rparr>)"
    and other: "\<And>k fw. P fw \<Longrightarrow> P (at_meanwhile (attempt k) fw)"
  shows "P fw \<Longrightarrow> distinct tried \<Longrightarrow> length tried + (3 - n) \<le> k \<Longrightarrow> good_wait P cfg qn k (wait_loop attempt cfg qn name b n tried fw)"
proof (induction "3 - n" arbitrary: n tried fw rule: less_induct)
  case (less n tried fw)
  let ?A = "attempt n" let ?E = "at_env ?A 0"
  obtain r p where rp: "select_server (fe_lc ?E) (fe_idna ?E) (fe_now ?E) name False (fw_pool fw) = (r, p)" by fastforce
  define fw0 where "fw0 = fw\<lparr>fw_pool := p\<rparr>"
  define fw1 where "fw1 = at_meanwhile ?A fw0"
  have "P fw0" using sel[OF less.prems(1)] rp unfolding fw0_def by (metis snd_conv)
  then have P: "P fw0" "P fw1" by (simp_all add: fw1_def other)
  show ?case
  proof (cases "n < 3")
    case n: True
    show ?thesis
    proof (cases "\<exists>s. r = Some s \<and> us_addr s \<notin> set tried")
      case True
      then obtain s where s: "r = Some s" "us_addr s \<notin> set tried" by blast
      have IH: "P fw' \<Longrightarrow> good_wait P cfg qn k (wait_loop attempt cfg qn name b (n + 1) (tried @ [us_addr s]) fw')" for fw'
        using n less.hyps[of "n + 1" fw' "tried @ [us_addr s]"] less.prems(2,3) s(2) by simp
      have fin: "P fw' \<Longrightarrow> good_wait P cfg qn k (Ok (check_rebind cfg m), tried @ [us_addr s], fw')" for fw' m
        using n less.prems(2,3) s(2) by (auto simp: good_wait_def)
      show ?thesis
        using n rp s P fail IH fin message_from_bytes_not_Panic[of "fe_idna ?E"]
        by (subst wait_loop.simps) (simp add: fw0_def[symmetric] fw1_def[symmetric] Let_def split: recv.split outcome.split)
    next
      case False
      then have "wait_loop attempt cfg qn name b n tried fw = (Err (Timeout qn 30000), tried, fw0)"
        using n rp by (subst wait_loop.simps) (auto simp: fw0_def split: option.split)
      then show ?thesis using P less.prems by (simp add: good_wait_def)
    qed
  next
    case False
    then have "wait_loop attempt cfg qn name b n tried fw = (Err (Timeout qn 30000), tried, fw)" by (subst wait_loop.simps) simp
    then show ?thesis using less.prems by (simp add: good_wait_def)
  qed
qed

lemma wait_good:
  assumes "\<And>fw lc idna t name b. P fw \<Longrightarrow> P (fw\<lparr>fw_pool := snd (select_server lc idna t name b (fw_pool fw))\<rparr>)"
    and "\<And>fw t a. P fw \<Longrightarrow> P (fw\<lparr>fw_pool := mark_failed t a (fw_pool fw)\<rparr>)"
    and "\<And>k fw. P fw \<Longrightarrow> P (at_meanwhile (attempt k) fw)" "P fw"
  shows "good_wait P cfg (dn_name (qname q)) 3 (forward_query_and_wait attempt cfg q b fw) \<or>
    forward_query_and_wait attempt cfg q b fw = (Err (InvalidName (dn_name (qname q)) ''invalid domain name''), [], fw)"
proof (cases "types_name_new (dn_name (qname q))")
  case (Ok name)
  then show ?thesis using wait_loop_good[OF assms(1-3), of fw "[]" 0 3] assms(4) by (simp add: forward_query_and_wait_def)
next
  case Panic
  then show ?thesis by (simp add: types_name_new_def split: if_splits option.splits)
qed (simp add: forward_query_and_wait_def)

lemma wait_steps:
  assumes "keeps L attempt" "fwd_steps L s fw"
  shows "fwd_steps L s (snd (snd (forward_query_and_wait attempt cfg q b fw)))"
proof -
  have "good_wait (fwd_steps L s) cfg (dn_name (qname q)) 3 (forward_query_and_wait attempt cfg q b fw) \<or>
      forward_query_and_wait attempt cfg q b fw = (Err (InvalidName (dn_name (qname q)) ''invalid domain name''), [], fw)"
    by (rule wait_good) (use assms in \<open>simp_all add: selected[THEN then_step] failed[THEN then_step] then_meanwhile\<close>)
  then show ?thesis using assms(2) by (auto simp: good_wait_def)
qed

subsection \<open>Examples\<close>

definition example_fenv :: "timestamp \<Rightarrow> ((cache_id \<times> cache_entry) list \<times> nat) fwd_env" where
  "example_fenv t = \<lparr>fe_lru = list_lru, fe_lc = to_ascii_lowercase, fe_idna = (\<lambda>_. None), fe_now = t, fe_draw = (\<lambda>k. of_nat k + 9),
     fe_bind_ok = True, fe_send_ok = True, fe_client_ok = True, fe_tcp = (\<lambda>_ _. None)\<rparr>"

lemma example_fenv_simps [simp]:
  "fe_lru (example_fenv t) = list_lru" "fe_idna (example_fenv t) = (\<lambda>_. None)" "fe_now (example_fenv t) = t"
  "fe_client_ok (example_fenv t)" "fe_bind_ok (example_fenv t)" "fe_send_ok (example_fenv t)" "fe_draw (example_fenv t) k = of_nat k + 9"
  by (simp_all add: example_fenv_def)

definition example_query :: outstanding_query where
  "example_query = mark_forwarded 0 (V4 [192, 0, 2, 1], 53)
     (outstanding_new 0 7 5 (V4 [10, 0, 0, 1], 4096) \<lparr>qname = \<lparr>dn_name = [0x61]\<rparr>, qtype = RT_A, qclass = 1\<rparr> [] None)"

definition example_forwarder :: "((cache_id \<times> cache_entry) list \<times> nat) forwarder" where
  "example_forwarder = (forwarder_new (with_capacity list_lru 2) example_pool)\<lparr>fw_outstanding := [(7, example_query)]\<rparr>"

lemma example_forwarder_simps [simp]:
  "map_of (fw_outstanding example_forwarder) 7 = Some example_query" "fw_cache example_forwarder = with_capacity list_lru 2"
  "fw_outstanding example_forwarder = [(7, example_query)]" "fw_pool example_forwarder = example_pool"
  by (simp_all add: example_forwarder_def forwarder_new_def)

lemma example_forwarder_inv: "fwd_inv fst snd example_forwarder"
  by (simp add: fwd_inv_def waiting_def example_query_def mark_forwarded_def outstanding_new_def ll.inv_with_capacity)

text \<open>A response that consists of a header: no such name (\<open>0x83\<close>), truncated (\<open>0x82\<close>).\<close>

lemma example_response:
  "message_from_bytes idna [0, 1, 0x80, 3, 0, 0, 0, 0, 0, 0, 0, 0] =
     Ok ((message_new 1)\<lparr>header := (header_new 1)\<lparr>hdr_flags := \<lparr>raw = 0x8003\<rparr>\<rparr>\<rparr>)"
  "message_from_bytes idna [0, 1, 0x82, 0, 0, 0, 0, 0, 0, 0, 0, 0] =
     Ok ((message_new 1)\<lparr>header := (header_new 1)\<lparr>hdr_flags := \<lparr>raw = 0x8200\<rparr>\<rparr>\<rparr>)"
  by (simp_all add: message_from_bytes_def header_from_bytes_def flags_from_bytes_def be16_def message_new_def header_new_def)

lemma rebind_safe: "stop_dns_rebind cfg \<Longrightarrow> rr \<in> set (answers (check_rebind cfg m)) \<Longrightarrow> \<not> private_answer rr"
  by (cases "list_ex private_answer (answers m)")
    (auto simp: check_rebind_def blocked_response_def list_ex_iff)

lemma entry_key_parts:
  "ce_domain_name (create_negative_cache_entry t query nx ttl) = qname query"
  "ce_record_type (create_negative_cache_entry t query nx ttl) = qtype query"
  "ce_domain_name (create_cache_entry t query r) = qname query" "ce_record_type (create_cache_entry t query r) = qtype query"
  by (simp_all add: create_negative_cache_entry_def create_cache_entry_def entry_new_def Let_def)

lemma reply_complete:
  assumes "map_of (fw_outstanding fw) i = Some q" and "message_from_bytes (fe_idna (E d)) b = Ok r"
    and "flags_qr (hdr_flags (header r))" and "\<not> flags_tc (hdr_flags (header r))"
  shows "reply_query E cfg d i b fw = send_to_client (E d) cfg q r
    (fw\<lparr>fw_outstanding := AList.delete i (fw_outstanding fw),
      fw_pool := (case oq_upstream_server q of Some a \<Rightarrow> mark_available (fe_now (E d)) a (fw_pool fw) | None \<Rightarrow> fw_pool fw),
      fw_cache := cache_response (E d) (oq_query q) r (fw_cache fw)\<rparr>)"
  using assms by (subst reply_query.simps) (simp add: Let_def split: option.split)

lemma generate_query_id_fresh:
  assumes "k < 100" and "map_of queries (draw k) = None"
  shows "map_of queries (generate_query_id draw queries) = None"
proof (cases "find (\<lambda>i. map_of queries i = None) (map draw [0 ..< 100])")
  case None
  then have "map_of queries (draw k) \<noteq> None" using assms(1) unfolding find_None_iff by simp
  with assms(2) show ?thesis by simp
next
  case (Some j)
  then have "map_of queries j = None" by (auto simp: find_Some_iff)
  with Some show ?thesis by (simp add: generate_query_id_def)
qed

subsection \<open>Properties\<close>

text \<open>
  C22: in every state of the forwarder, also those in which tasks wait, each outstanding query is kept under its own id,
  waits for the server it was sent to and has been retried at most three times, and the DNS cache is
  consistent, whatever steps of whatever tasks led there; and every handler is made of such steps: the
  arrival of a query, a spawned task with its retries and timeouts, and a caller that forwards and
  waits, with runs of other tasks wherever they wait.
\<close>

theorem forwarder_invariant:
  assumes "lru_cache L items cap" and "fwd_inv items cap fw0" and "fwd_steps L fw0 fw"
  shows "cache_inv items cap (fw_cache fw) \<and> distinct (map fst (fw_outstanding fw)) \<and>
    (\<forall>(i, q)\<in>set (fw_outstanding fw). oq_query_id q = i \<and> is_forwarded (oq_state q) \<and>
       (\<exists>a t n. oq_upstream_server q = Some a \<and> oq_state q = QS_Forwarded a t n \<and> n \<le> MAX_RETRY_ATTEMPTS)) \<and>
    (\<forall>E b client. fe_lru E = L \<longrightarrow> fwd_steps L fw (snd (snd (receive_query E b client fw)))) \<and>
    (\<forall>E attempt cfg i rc. (\<forall>d. fe_lru (E d) = L) \<and> keeps L attempt \<longrightarrow> fwd_steps L fw (snd (forward_task E attempt cfg i rc fw))) \<and>
    (\<forall>attempt cfg q b. keeps L attempt \<longrightarrow> fwd_steps L fw (snd (snd (forward_query_and_wait attempt cfg q b fw))))"
proof -
  have "fwd_inv items cap fw" by (rule lru_cache.steps_inv[OF assms(1,3,2)])
  then show ?thesis using receive_steps[of _ L fw fw] task_steps[of _ L _ fw fw] wait_steps[of L _ fw fw]
    by (auto simp: fwd_inv_def waiting_def)
qed

text \<open>A query whose first server times out is retried, while a query of another client arrives.\<close>

definition busy_attempt :: "((cache_id \<times> cache_entry) list \<times> nat) attempt" where
  "busy_attempt = \<lparr>at_env = (\<lambda>_. example_fenv 1), at_recv = TimedOut,
     at_meanwhile = (\<lambda>fw. snd (snd (receive_query (example_fenv 2) [0, 5, 1, 0, 0, 1, 0, 0, 0, 0, 0, 0, 1, 0x61, 0, 0, 1, 0, 1]
       (V4 [10, 0, 0, 2], 53) fw)))\<rparr>"

theorem forwarder_invariant_witness:
  "list_all (\<lambda>(i, q). oq_query_id q = i) (fw_outstanding (snd (forward_task (\<lambda>_. example_fenv 1) (\<lambda>_. busy_attempt)
      \<lparr>edns_packet_max = 4096, stop_dns_rebind = True\<rparr> 7 TimedOut example_forwarder)))"
proof -
  have "keeps list_lru (\<lambda>_. busy_attempt)" by (simp add: keeps_def busy_attempt_def receive_steps)
  then have "fwd_steps list_lru example_forwarder (snd (forward_task (\<lambda>_. example_fenv 1) (\<lambda>_. busy_attempt)
      \<lparr>edns_packet_max = 4096, stop_dns_rebind = True\<rparr> 7 TimedOut example_forwarder))"
    by (intro task_steps) simp_all
  from forwarder_invariant[OF ll.lru_cache_axioms example_forwarder_inv this] show ?thesis by (auto simp: list_all_iff)
qed

text \<open>
  C23: a response to an outstanding query, complete and marked as a response, is sent to the client that asked, under the
  id of its query, exactly once; the query is no longer outstanding and no other is affected; and the
  cache then answers for the name, in any case, until the time to live is over: negatively for a
  missing name or an empty answer, otherwise with the first address of the answer, as far as the
  answer has a time to live.
\<close>

theorem reply_query_spec:
  assumes "lru_cache (fe_lru (E d)) items cap" and "cache_inv items cap (fw_cache fw)"
    and "map_of (fw_outstanding fw) i = Some q" and "message_from_bytes (fe_idna (E d)) b = Ok r"
    and "flags_qr (hdr_flags (header r))" and "\<not> flags_tc (hdr_flags (header r))"
    and "message_to_bytes (with_opt cfg (fe_idna (E d)) q (with_id (oq_original_id q) r)) = Ok out" and "fe_client_ok (E d)"
    and "reply_query E cfg d i b fw = (res, sent, fw')" and "dn_eq name (qname (oq_query q))"
  shows "res = Ok () \<and> sent = [(out, oq_client_addr q)] \<and> map_of (fw_outstanding fw') = (map_of (fw_outstanding fw))(i := None) \<and>
    (get_rcode r = 3 \<or> get_rcode r = 0 \<and> answers r = [] \<longrightarrow>
      (\<exists>e ttl. ttl = (case soa_minimum (authority r) of Some t \<Rightarrow> t | None \<Rightarrow> 300) \<and>
         flags_contain (ce_flags e) CF_NEG \<and> flags_contain (ce_flags e) CF_NXDOMAIN = (get_rcode r = 3) \<and>
         fst (find_by_name (fe_lru (E d)) now name (qtype (oq_query q)) (fw_cache fw')) =
           (if now < fe_now (E d) + secs (unat ttl) then Some e else None))) \<and>
    (\<not> (get_rcode r = 3 \<or> get_rcode r = 0 \<and> answers r = []) \<and> positive_ttls r \<noteq> [] \<longrightarrow>
      (\<exists>e. ce_ip_addr e = first_address r \<and> \<not> flags_contain (ce_flags e) CF_NEG \<and>
         fst (find_by_name (fe_lru (E d)) now name (qtype (oq_query q)) (fw_cache fw')) =
           (if now < fe_now (E d) + secs (unat (Min (set (positive_ttls r)))) then Some e else None)))"
proof -
  let ?c = "cache_response (E d) (oq_query q) r (fw_cache fw)"
  let ?neg = "get_rcode r = 3 \<or> get_rcode r = 0 \<and> answers r = []"
  have res: "res = Ok ()" "sent = [(out, oq_client_addr q)]" "fw_cache fw' = ?c"
      "map_of (fw_outstanding fw') = (map_of (fw_outstanding fw))(i := None)"
    using assms(7,8,9) unfolding reply_complete[of fw i q E d b r, OF assms(3-6)] by (auto simp: send_to_client_def delete_conv')
  let ?n = "create_negative_cache_entry (fe_now (E d)) (oq_query q) (get_rcode r = 3)
    (case soa_minimum (authority r) of Some t \<Rightarrow> t | None \<Rightarrow> 300)"
  let ?p = "create_cache_entry (fe_now (E d)) (oq_query q) r"
  have "?neg \<Longrightarrow> fst (find_by_name (fe_lru (E d)) now name (qtype (oq_query q)) ?c) = (if now < ce_expiry ?n then Some ?n else None)"
    using lru_cache.find_inserted[OF assms(1,2), of name ?n] assms(10)
    by (simp add: cache_response_def Let_def entry_key_parts)
  moreover have "\<not> ?neg \<Longrightarrow> positive_ttls r \<noteq> [] \<Longrightarrow>
      fst (find_by_name (fe_lru (E d)) now name (qtype (oq_query q)) ?c) = (if now < ce_expiry ?p then Some ?p else None)"
    using lru_cache.find_inserted[OF assms(1,2), of name ?p] assms(10)
    by (auto simp: cache_response_def entry_key_parts)
  moreover have "flags_contain (ce_flags ?n) CF_NEG" "flags_contain (ce_flags ?n) CF_NXDOMAIN = (get_rcode r = 3)"
    "ce_expiry ?n = fe_now (E d) + secs (unat (case soa_minimum (authority r) of Some t \<Rightarrow> t | None \<Rightarrow> 300))"
    by (simp_all add: create_negative_cache_entry_def entry_new_def cache_flag_defs timestamp_add_def)
  moreover have "ce_ip_addr ?p = first_address r" "\<not> flags_contain (ce_flags ?p) CF_NEG"
    "positive_ttls r \<noteq> [] \<Longrightarrow> ce_expiry ?p = fe_now (E d) + secs (unat (Min (set (positive_ttls r))))"
    by (simp_all add: create_cache_entry_def entry_new_def cache_flag_defs Let_def timestamp_add_def)
  ultimately show ?thesis
    unfolding res(3) by (intro conjI impI exI[of _ ?n] exI[of _ ?p] exI) (use res in simp_all)
qed

theorem reply_query_spec_witness:
  "\<exists>out fw' e. reply_query (\<lambda>_. example_fenv 1) \<lparr>edns_packet_max = 4096, stop_dns_rebind = True\<rparr> 0 7
       [0, 1, 0x80, 3, 0, 0, 0, 0, 0, 0, 0, 0] example_forwarder = (Ok (), [(out, (V4 [10, 0, 0, 1], 4096))], fw') \<and>
     map_of (fw_outstanding fw') 7 = None \<and> flags_contain (ce_flags e) CF_NXDOMAIN \<and>
     fst (find_by_name list_lru 2 \<lparr>dn_name = [0x41]\<rparr> RT_A (fw_cache fw')) = Some e"
proof -
  let ?m = "(message_new 1)\<lparr>header := (header_new 1)\<lparr>hdr_flags := \<lparr>raw = 0x8003\<rparr>\<rparr>\<rparr>"
  let ?cfg = "\<lparr>edns_packet_max = 4096, stop_dns_rebind = True\<rparr>"
  have q: "oq_edns0_options example_query = None" "oq_client_addr example_query = (V4 [10, 0, 0, 1], 4096)"
    "qname (oq_query example_query) = \<lparr>dn_name = [0x61]\<rparr>" "qtype (oq_query example_query) = RT_A"
    by (simp_all add: example_query_def mark_forwarded_def outstanding_new_def)
  have d: "dn_eq \<lparr>dn_name = [0x41]\<rparr> \<lparr>dn_name = [0x61]\<rparr>" by (simp add: dn_eq_def eq_ignore_ascii_case_def to_lower_def)
  have m: "flags_qr (hdr_flags (header ?m))" "\<not> flags_tc (hdr_flags (header ?m))" "get_rcode ?m = 3" "authority ?m = []"
    by (simp_all add: message_new_def get_rcode_def flags_qr_def flags_tc_def flags_rcode_def)
  obtain out where out: "message_to_bytes (with_opt ?cfg (\<lambda>_. None) example_query (with_id (oq_original_id example_query) ?m)) = Ok out"
    by (simp add: with_opt_def q with_id_def message_to_bytes_def message_new_def Let_def)
  obtain res sent fw' where r: "reply_query (\<lambda>_. example_fenv 1) ?cfg 0 7 [0, 1, 0x80, 3, 0, 0, 0, 0, 0, 0, 0, 0] example_forwarder = (res, sent, fw')"
    using prod_cases3 by blast
  from reply_query_spec[of "\<lambda>_. example_fenv 1" 0 fst snd example_forwarder 7 example_query _ ?m, OF _ _ _ _ m(1,2) _ _ r, of out "\<lparr>dn_name = [0x41]\<rparr>" 2]
  have "res = Ok () \<and> sent = [(out, (V4 [10, 0, 0, 1], 4096))] \<and> map_of (fw_outstanding fw') 7 = None \<and>
      (\<exists>e. flags_contain (ce_flags e) CF_NXDOMAIN \<and> fst (find_by_name list_lru 2 \<lparr>dn_name = [0x41]\<rparr> RT_A (fw_cache fw')) = Some e)"
    using d m(3,4) out q by (auto simp: example_response ll.lru_cache_axioms ll.inv_with_capacity secs_def)
  with r show ?thesis by blast
qed

text \<open>
  The fallback to TCP never produces an answer: the id drawn for it is not entered among the outstanding queries,
  so that its response is refused, and the client's query is gone.
\<close>

theorem tcp_fallback_lost:
  assumes "map_of (fw_outstanding fw) i = Some q" and "oq_upstream_server q = Some a"
    and "message_from_bytes (fe_idna (E d)) b = Ok r" and "flags_qr (hdr_flags (header r))" and "flags_tc (hdr_flags (header r))"
    and "k < 100" and "map_of (AList.delete i (fw_outstanding fw)) (fe_draw (E d) k) = None"
  shows "\<exists>e. reply_query E cfg d i b fw = (Err e, [], fw\<lparr>fw_outstanding := AList.delete i (fw_outstanding fw)\<rparr>)"
proof -
  let ?fw = "fw\<lparr>fw_outstanding := AList.delete i (fw_outstanding fw)\<rparr>"
  let ?j = "generate_query_id (fe_draw (E d)) (fw_outstanding ?fw)"
  have "map_of (AList.delete i (fw_outstanding fw)) ?j = None" using generate_query_id_fresh[of k "AList.delete i (fw_outstanding fw)" "fe_draw (E d)"] assms(6,7) by simp
  then have "\<exists>e. reply_query E cfg (Suc d) ?j c ?fw = (Err e, [], ?fw)" for c
    using message_from_bytes_not_Panic[of "fe_idna (E (Suc d))" c]
    by (subst reply_query.simps) (simp split: outcome.split)
  with assms(1-5) show ?thesis by (subst reply_query.simps) (simp add: Let_def split: option.split)
qed

theorem tcp_fallback_lost_witness:
  "\<exists>e. reply_query (\<lambda>_. example_fenv 1) \<lparr>edns_packet_max = 4096, stop_dns_rebind = True\<rparr> 0 7
     [0, 1, 0x82, 0, 0, 0, 0, 0, 0, 0, 0, 0] example_forwarder =
     (Err e, [], example_forwarder\<lparr>fw_outstanding := AList.delete 7 (fw_outstanding example_forwarder)\<rparr>)"
  by (rule tcp_fallback_lost[where k = 0 and q = example_query and a = "(V4 [192, 0, 2, 1], 53)" and
        r = "(message_new 1)\<lparr>header := (header_new 1)\<lparr>hdr_flags := \<lparr>raw = 0x8200\<rparr>\<rparr>\<rparr>"])
    (simp_all add: example_response flags_qr_def flags_tc_def example_query_def mark_forwarded_def outstanding_new_def message_new_def)

text \<open>
  The documentation of the address test lists the TEST-NET ranges; the code lets them pass.
\<close>

lemma test_net_passes:
  "\<not> is_private_or_reserved_ip (V4 [192, 0, 2, x])" "\<not> is_private_or_reserved_ip (V4 [198, 51, 100, x])"
  "\<not> is_private_or_reserved_ip (V4 [203, 0, 113, x])"
  by simp_all

text \<open>
  C24: forwarding with a wait ends after at most three different servers, with an answer or an error, and with
  rebinding protection no answer contains an address that the address test of the code recognises: private,
  loopback, link-local or unique local.
\<close>

theorem forward_and_wait_spec:
  assumes "forward_query_and_wait attempt cfg q b fw = (r, tried, fw')"
  shows "distinct tried \<and> length tried \<le> MAX_RETRY_ATTEMPTS \<and>
    (r = Err (InvalidName (dn_name (qname q)) ''invalid domain name'') \<or> r = Err (Timeout (dn_name (qname q)) 30000) \<or>
     (\<exists>m. r = Ok m \<and> (stop_dns_rebind cfg \<longrightarrow> (\<forall>rr\<in>set (answers m). \<not> private_answer rr))))"
  using wait_good[of "\<lambda>_. True" attempt fw cfg q b] assms
  by (auto simp: good_wait_def dest: rebind_safe)

theorem forward_and_wait_spec_witness:
  "\<exists>r tried fw'. forward_query_and_wait (\<lambda>_. \<lparr>at_env = (\<lambda>_. example_fenv 1), at_recv = TimedOut, at_meanwhile = id\<rparr>)
      \<lparr>edns_packet_max = 4096, stop_dns_rebind = True\<rparr> (oq_query example_query) [] example_forwarder = (r, tried, fw') \<and> distinct tried \<and> length tried \<le> 3"
proof -
  obtain r tried fw' where "forward_query_and_wait (\<lambda>_. \<lparr>at_env = (\<lambda>_. example_fenv 1), at_recv = TimedOut, at_meanwhile = id\<rparr>)
      \<lparr>edns_packet_max = 4096, stop_dns_rebind = True\<rparr> (oq_query example_query) [] example_forwarder = (r, tried, fw')"
    using prod_cases3 by blast
  from this forward_and_wait_spec[OF this] show ?thesis by auto
qed

text \<open>
  A query for a name that contains an underscore, as the names of service records do, is never forwarded:
  the server is selected with the name type of \<open>types.rs\<close>, which allows letters, digits and hyphens
  only, while the messages are parsed with the one of \<open>protocol/name.rs\<close>.
\<close>

lemma underscore_rejected:
  assumes "0x5F \<in> set s"
  shows "\<exists>e. types_name_new s = Err e"
proof -
  have "0x5F \<in> set (trim_end dot s)" using assms in_trim_end[of "0x5F" s dot] by simp
  then obtain l where "l \<in> set (types_labels s)" "0x5F \<in> set l"
    unfolding types_labels_def using in_split_on by force
  moreover from this(2) have "types_label_error l \<noteq> None"
    by (auto simp: types_label_error_def list_ex_iff is_ascii_alphanumeric_def)
  ultimately have "first_error types_label_error (types_labels s) \<noteq> None" by (auto simp: first_error_None)
  then show ?thesis by (auto simp: types_name_new_def)
qed

theorem underscore_not_forwarded:
  assumes "0x5F \<in> set (dn_name (qname query))"
  shows "\<exists>e. forward_query E query i client b fw = (Err e, [], fw)"
  using underscore_rejected[OF assms] by (auto simp: forward_query_def)

text \<open>
  A query whose name is in the cache is answered without a record, whatever the cache holds.
\<close>

theorem cached_answer_empty:
  assumes "message_from_bytes (fe_idna E) b = Ok m" and "query_from_message m = Some query"
    and "fst (find_by_name (fe_lru E) (fe_now E) (qname query) (qtype query) (fw_cache fw)) = Some e"
    and "receive_query E b client fw = (Ok (), sent, fw')"
  shows "\<exists>r out. message_to_bytes r = Ok out \<and> sent = [(out, client)] \<and> answers r = [] \<and> authority r = [] \<and> get_rcode r = 0"
proof -
  let ?r = "fw_build_response_from_cache m e"
  have "answers ?r = [] \<and> authority ?r = [] \<and> get_rcode ?r = 0"
    by (simp add: fw_build_response_from_cache_def response_from_query_def set_authoritative_def msg_set_rcode_def update_flags_def
        get_rcode_def flags_rcode_def set_rcode_def set_aa_def message_new_def set_response_def set_qr_def header_new_def flags_new_def)
  moreover have "message_to_bytes ?r = Ok (fst (hd sent)) \<and> sent = [(fst (hd sent), client)]"
    using assms by (auto simp: receive_query_def Let_def case_prod_unfold split: outcome.splits if_splits)
  ultimately show ?thesis by blast
qed

end
