(* ===== verification/Auth.thy ===== *)
theory Auth
  imports Message Dns_Cache
begin

text \<open>
  Authoritative zones (\<open>src/dns/auth.rs\<close>): the zone of a name, answers from the zone's own SOA and NS
  records and from the DNS cache, and zone transfers.  The service shares the DNS cache with the rest
  of the program, so the operations that look names up return the cache.  The subnet filter of a zone
  is not implemented in the code and lets every client in.
\<close>

subsection \<open>Zones\<close>

record soa_params =
  sp_serial :: u32
  sp_refresh :: u32
  sp_retry :: u32
  sp_expire :: u32
  sp_minimum :: u32

text \<open>The default serial number is the time of day in seconds since 1970.\<close>

definition soa_params_default :: "nat \<Rightarrow> soa_params" where
  "soa_params_default epoch_secs =
     \<lparr>sp_serial = (if epoch_secs < 2 ^ 32 then of_nat epoch_secs else - 1), sp_refresh = 1200, sp_retry = 180,
      sp_expire = 1209600, sp_minimum = 600\<rparr>"

record auth_zone =
  z_domain :: domain_name
  z_soa_params :: soa_params
  z_ns_records :: "domain_name list"

definition zone_is_match :: "auth_zone \<Rightarrow> domain_name \<Rightarrow> bool" where
  "zone_is_match zone name = (if dn_eq name (z_domain zone) then True else is_subdomain_of name (z_domain zone))"

definition contains_name :: "auth_zone \<Rightarrow> domain_name \<Rightarrow> bool" where
  "contains_name zone name = zone_is_match zone name"

record auth_service =
  as_zones :: "auth_zone list"
  as_auth_ttl :: u32

definition auth_new :: "auth_zone list \<Rightarrow> u32 \<Rightarrow> auth_service" where
  "auth_new zones ttl = \<lparr>as_zones = zones, as_auth_ttl = ttl\<rparr>"

text \<open>Rust's \<open>max_by_key\<close>: the last of the elements with the largest key.\<close>

fun max_by_key :: "('a \<Rightarrow> nat) \<Rightarrow> 'a list \<Rightarrow> 'a option" where
  "max_by_key f [] = None"
| "max_by_key f (x # xs) = (case max_by_key f xs of None \<Rightarrow> Some x | Some y \<Rightarrow> if f x \<le> f y then Some y else Some x)"

definition find_zone :: "auth_service \<Rightarrow> domain_name \<Rightarrow> auth_zone option" where
  "find_zone svc query_name =
     (let matching_zones = filter (\<lambda>zone. zone_is_match zone query_name) (as_zones svc) in
      if matching_zones = [] then None
      else max_by_key (\<lambda>zone. length (dn_name (z_domain zone))) matching_zones)"

definition filter_by_subnet :: "auth_service \<Rightarrow> ip_addr \<Rightarrow> auth_zone \<Rightarrow> bool" where
  "filter_by_subnet svc client_addr zone = True"

subsection \<open>Records of a zone\<close>

text \<open>The bytes of \<open>hostmaster.\<close>\<close>

definition hostmaster :: bytes where
  "hostmaster = [0x68, 0x6F, 0x73, 0x74, 0x6D, 0x61, 0x73, 0x74, 0x65, 0x72, 0x2E]"

definition generate_soa_record :: "(bytes \<Rightarrow> bytes option) \<Rightarrow> auth_service \<Rightarrow> auth_zone \<Rightarrow> (resource_record, dns_error) outcome" where
  "generate_soa_record idna svc zone =
     (let mname = (case z_ns_records zone of ns # _ \<Rightarrow> ns | [] \<Rightarrow> z_domain zone);
          rname_str = hostmaster @ dn_name (z_domain zone);
          p = z_soa_params zone in
      rbind (map_err (InvalidName rname_str) (from_str idna rname_str)) (\<lambda>rname.
        Ok (rr_new (z_domain zone) RT_SOA 1 (as_auth_ttl svc)
          (RD_Soa mname rname (sp_serial p) (sp_refresh p) (sp_retry p) (sp_expire p) (sp_minimum p)))))"

definition ns_records_of :: "auth_service \<Rightarrow> auth_zone \<Rightarrow> resource_record list" where
  "ns_records_of svc zone = map (\<lambda>ns. rr_new (z_domain zone) RT_NS 1 (as_auth_ttl svc) (RD_Ns ns)) (z_ns_records zone)"

definition get_zone_records_from_cache :: "'l dns_cache \<Rightarrow> auth_zone \<Rightarrow> resource_record list" where
  "get_zone_records_from_cache cache zone = []"

definition get_zone_records :: "(bytes \<Rightarrow> bytes option) \<Rightarrow> 'l dns_cache \<Rightarrow> auth_service \<Rightarrow> domain_name \<Rightarrow> resource_record list" where
  "get_zone_records idna cache svc zone_domain =
     (case find (\<lambda>z. dn_eq (z_domain z) zone_domain) (as_zones svc) of
        None \<Rightarrow> []
      | Some zone \<Rightarrow>
          (case generate_soa_record idna svc zone of Ok soa \<Rightarrow> [soa] | _ \<Rightarrow> []) @ ns_records_of svc zone @
          get_zone_records_from_cache cache zone)"

subsection \<open>Answers\<close>

definition response_with_question :: "dns_message \<Rightarrow> dns_message \<Rightarrow> dns_message" where
  "response_with_question query response = (case questions query of q # _ \<Rightarrow> add_question q response | [] \<Rightarrow> response)"

definition generate_auth_response :: "'l lru_ops \<Rightarrow> (bytes \<Rightarrow> bytes option) \<Rightarrow> timestamp \<Rightarrow> auth_service \<Rightarrow> dns_message \<Rightarrow>
    auth_zone \<Rightarrow> domain_name \<Rightarrow> record_type \<Rightarrow> 'l dns_cache \<Rightarrow> (dns_message, dns_error) outcome \<times> 'l dns_cache" where
  "generate_auth_response L idna now svc query zone query_name query_type cache =
     (let response = set_authoritative True (set_response (message_new (hdr_id (header query))));
          response = update_flags (set_opcode (flags_opcode (hdr_flags (header query)))) response;
          response = update_flags (set_rd (flags_rd (hdr_flags (header query)))) response;
          response = response_with_question query (msg_set_rcode 0 response) in
      if query_type = RT_SOA then (rbind (generate_soa_record idna svc zone) (\<lambda>soa. Ok (add_answer soa response)), cache)
      else if query_type = RT_NS then (Ok (fold add_answer (ns_records_of svc zone) response), cache)
      else
        let (hit, cache) = (if query_type = RT_A \<or> query_type = RT_AAAA
              then (case find_by_name L now query_name query_type cache of
                      (Some entry, cache) \<Rightarrow> (flags_contain (ce_flags entry) CF_HOSTS \<or> flags_contain (ce_flags entry) CF_DHCP, cache)
                    | (None, cache) \<Rightarrow> (False, cache))
              else (False, cache)) in
        if hit then (Ok response, cache)
        else
          let response = msg_set_rcode 3 response in
          (rbind (generate_soa_record idna svc zone) (\<lambda>soa. Ok (add_authority soa response)), cache))"

definition generate_axfr_response :: "(bytes \<Rightarrow> bytes option) \<Rightarrow> auth_service \<Rightarrow> dns_message \<Rightarrow> auth_zone \<Rightarrow>
    (dns_message, dns_error) outcome" where
  "generate_axfr_response idna svc query zone =
     (let response = set_authoritative True (set_response (message_new (hdr_id (header query))));
          response = update_flags (set_opcode (flags_opcode (hdr_flags (header query)))) response;
          response = response_with_question query (msg_set_rcode 0 response) in
      rbind (generate_soa_record idna svc zone) (\<lambda>soa.
      let response = fold add_answer (ns_records_of svc zone) (add_answer soa response) in
      rbind (generate_soa_record idna svc zone) (\<lambda>soa. Ok (add_answer soa response))))"

definition create_axfr_message :: "u16 \<Rightarrow> resource_record list \<Rightarrow> dns_message" where
  "create_axfr_message i records =
     fold add_answer records (msg_set_rcode 0 (set_authoritative True (set_response (message_new i))))"

text \<open>The stream of a zone transfer has one message.\<close>

definition handle_axfr_request :: "(bytes \<Rightarrow> bytes option) \<Rightarrow> 'l dns_cache \<Rightarrow> auth_service \<Rightarrow> dns_message \<Rightarrow> auth_zone \<Rightarrow>
    (dns_message list, dns_error) outcome" where
  "handle_axfr_request idna cache svc query zone =
     rbind (generate_soa_record idna svc zone) (\<lambda>soa.
     let records = [soa] @ ns_records_of svc zone @ get_zone_records_from_cache cache zone in
     rbind (generate_soa_record idna svc zone) (\<lambda>soa.
     Ok [create_axfr_message (hdr_id (header query)) (records @ [soa])]))"

definition answer_auth_query :: "'l lru_ops \<Rightarrow> (bytes \<Rightarrow> bytes option) \<Rightarrow> timestamp \<Rightarrow> auth_service \<Rightarrow> dns_message \<Rightarrow> ip_addr \<Rightarrow>
    'l dns_cache \<Rightarrow> (dns_message option, dns_error) outcome \<times> 'l dns_cache" where
  "answer_auth_query L idna now svc query client_addr cache =
     (case questions query of
        [] \<Rightarrow> (Ok None, cache)
      | question # _ \<Rightarrow>
          (case find_zone svc (qname question) of
             None \<Rightarrow> (Ok None, cache)
           | Some zone \<Rightarrow>
               if \<not> filter_by_subnet svc client_addr zone
               then (Err (AuthFailed (dn_name (z_domain zone)) ''Client IP not allowed by zone subnet filters''), cache)
               else if qtype question = RT_AXFR then (rbind (generate_axfr_response idna svc query zone) (\<lambda>r. Ok (Some r)), cache)
               else (case generate_auth_response L idna now svc query zone (qname question) (qtype question) cache of
                       (r, cache) \<Rightarrow> (rbind r (\<lambda>m. Ok (Some m)), cache))))"

subsection \<open>The zone of a name\<close>

lemma max_by_key_None: "max_by_key f xs = None \<longleftrightarrow> xs = []"
  by (cases xs) (auto split: option.split)

lemma max_by_key_Some: "max_by_key f xs = Some y \<Longrightarrow> y \<in> set xs \<and> (\<forall>x\<in>set xs. f x \<le> f y)"
proof (induction xs arbitrary: y)
  case (Cons a xs)
  show ?case
  proof (cases "max_by_key f xs")
    case None
    with Cons.prems show ?thesis by (simp add: max_by_key_None)
  next
    case (Some b)
    with Cons.prems Cons.IH[OF Some] show ?thesis by (auto split: if_splits)
  qed
qed simp

text \<open>The labels of a name in lower case, as names are compared.\<close>

abbreviation low_labels :: "domain_name \<Rightarrow> bytes list" where
  "low_labels d \<equiv> map to_ascii_lowercase (labels d)"

definition plain :: "domain_name \<Rightarrow> bool" where
  "plain d \<longleftrightarrow> trim_end dot (dn_name d) = dn_name d"

lemma zone_is_match_suffix: "zone_is_match z n \<Longrightarrow> \<exists>pre. low_labels n = pre @ low_labels (z_domain z)"
  by (auto simp: zone_is_match_def is_subdomain_of_iff lower_labels dn_eq_def eq_ignore_ascii_case_iff split: if_splits)

lemma join_low_labels: "plain d \<Longrightarrow> join dot (low_labels d) = to_ascii_lowercase (dn_name d)"
  unfolding lower_labels by (metis join_split_on plain_def trim_end_lower)

lemma low_labels_longer:
  assumes "plain a" "plain b" "low_labels a = pre @ low_labels b" "length (dn_name a) \<le> length (dn_name b)"
  shows "pre = []"
proof (rule ccontr)
  assume "pre \<noteq> []"
  then have "length (join dot (low_labels b)) < length (join dot (low_labels a))"
    unfolding assms(3) by (rule length_join_append) (simp add: labels_def)
  then show False using assms(1,2,4) by (simp add: join_low_labels)
qed

lemma low_labels_eq: "plain a \<Longrightarrow> plain b \<Longrightarrow> low_labels a = low_labels b \<Longrightarrow> dn_eq a b"
  using join_low_labels[of a] join_low_labels[of b] by (simp add: dn_eq_def eq_ignore_ascii_case_iff)

lemma matches_nested:
  assumes "zone_is_match z n" "zone_is_match z' n" "plain (z_domain z)" "plain (z_domain z')"
    and "length (dn_name (z_domain z')) \<le> length (dn_name (z_domain z))"
  shows "dn_eq (z_domain z) (z_domain z') \<or> is_subdomain_of (z_domain z) (z_domain z')"
proof -
  obtain p p' where p: "low_labels n = p @ low_labels (z_domain z)" "low_labels n = p' @ low_labels (z_domain z')"
    using assms(1,2) zone_is_match_suffix by blast
  then obtain us where "p = p' @ us \<and> us @ low_labels (z_domain z) = low_labels (z_domain z') \<or>
      p @ us = p' \<and> low_labels (z_domain z) = us @ low_labels (z_domain z')"
    using append_eq_append_conv2[of p "low_labels (z_domain z)" p' "low_labels (z_domain z')"] by auto
  then consider (outer) "low_labels (z_domain z') = us @ low_labels (z_domain z)"
    | (inner) "low_labels (z_domain z) = us @ low_labels (z_domain z')" by auto
  then show ?thesis
  proof cases
    case outer
    with low_labels_longer[OF assms(4,3) outer assms(5)] show ?thesis using low_labels_eq[OF assms(3,4)] by simp
  next
    case inner
    then show ?thesis using low_labels_eq[OF assms(3,4)] by (cases "us = []") (auto simp: is_subdomain_of_iff)
  qed
qed

lemma find_zone_None: "find_zone svc n = None \<longleftrightarrow> (\<forall>z\<in>set (as_zones svc). \<not> zone_is_match z n)"
  by (auto simp: find_zone_def Let_def max_by_key_None filter_empty_conv)

lemma find_zone_Some:
  "find_zone svc n = Some z \<Longrightarrow> z \<in> set (as_zones svc) \<and> zone_is_match z n \<and>
     (\<forall>z'\<in>set (as_zones svc). zone_is_match z' n \<longrightarrow> length (dn_name (z_domain z')) \<le> length (dn_name (z_domain z)))"
  by (auto simp: find_zone_def Let_def split: if_splits dest: max_by_key_Some)

subsection \<open>Answers of a zone\<close>

lemma flag_reads:
  "flags_qr f = f_qr (flags_abs f)" "flags_aa f = f_aa (flags_abs f)" "flags_rcode f = f_rcode (flags_abs f)"
  "flags_opcode f = f_opcode (flags_abs f)"
  by (simp_all add: flags_abs_def)

lemma flag_writes:
  "flags_qr (set_qr v f) = v" "flags_qr (set_aa v f) = flags_qr f" "flags_qr (set_rd v f) = flags_qr f"
  "flags_qr (set_opcode w f) = flags_qr f" "flags_qr (set_rcode w f) = flags_qr f"
  "flags_aa (set_qr v f) = flags_aa f" "flags_aa (set_aa v f) = v" "flags_aa (set_rd v f) = flags_aa f"
  "flags_aa (set_opcode w f) = flags_aa f" "flags_aa (set_rcode w f) = flags_aa f"
  "flags_opcode (set_rd v f) = flags_opcode f" "flags_opcode (set_opcode w f) = w AND 0x0F" "flags_opcode (set_rcode w f) = flags_opcode f"
  "flags_rcode (set_rcode w f) = w AND 0x0F"
  by (simp_all add: flag_reads flags_abs_set)

lemmas message_ops = set_authoritative_def set_response_def msg_set_rcode_def update_flags_def response_with_question_def
  add_question_def add_answer_def add_authority_def get_rcode_def message_new_def header_new_def

lemma fold_add_answer: "fold add_answer rrs m = m\<lparr>answers := answers m @ rrs\<rparr>"
  by (induction rrs arbitrary: m) (auto simp: add_answer_def)

lemma soa_record: "generate_soa_record idna svc z = Ok rr \<Longrightarrow> rr_name rr = z_domain z \<and> rr_type rr = RT_SOA \<and> rr_ttl rr = as_auth_ttl svc"
  by (auto simp: generate_soa_record_def Let_def rbind_Ok_iff rr_new_def)

lemma ns_record: "rr \<in> set (ns_records_of svc z) \<Longrightarrow> rr_name rr = z_domain z \<and> rr_type rr = RT_NS \<and> rr_ttl rr = as_auth_ttl svc"
  by (auto simp: ns_records_of_def rr_new_def)

definition auth_hit :: "'l lru_ops \<Rightarrow> timestamp \<Rightarrow> question \<Rightarrow> 'l dns_cache \<Rightarrow> bool" where
  "auth_hit L now q cache \<longleftrightarrow> qtype q \<in> {RT_A, RT_AAAA} \<and>
     (\<exists>e. fst (find_by_name L now (qname q) (qtype q) cache) = Some e \<and>
        (flags_contain (ce_flags e) CF_HOSTS \<or> flags_contain (ce_flags e) CF_DHCP))"

text \<open>The first part of a response: its header and question.\<close>

definition auth_header :: "dns_message \<Rightarrow> question \<Rightarrow> dns_message \<Rightarrow> bool" where
  "auth_header query q r \<longleftrightarrow> questions r = [q] \<and> hdr_id (header r) = hdr_id (header query) \<and> flags_qr (hdr_flags (header r)) \<and>
     flags_aa (hdr_flags (header r)) \<and> flags_opcode (hdr_flags (header r)) = flags_opcode (hdr_flags (header query))"

lemma opcode_mask: "flags_opcode f AND 0x0F = flags_opcode f"
  unfolding flag_masks by (intro bit_word_eqI) (auto simp: bit_simps field_bits)

lemma auth_response_cases:
  assumes "generate_auth_response L idna now svc query z (qname q) (qtype q) cache = (Ok r, cache')" and "questions query = q # qs"
  shows "auth_header query q r \<and> additional r = [] \<and>
    (if qtype q = RT_SOA then get_rcode r = 0 \<and> authority r = [] \<and> (\<exists>soa. generate_soa_record idna svc z = Ok soa \<and> answers r = [soa])
     else if qtype q = RT_NS then get_rcode r = 0 \<and> authority r = [] \<and> answers r = ns_records_of svc z
     else if auth_hit L now q cache then get_rcode r = 0 \<and> authority r = [] \<and> answers r = []
     else get_rcode r = 3 \<and> answers r = [] \<and> (\<exists>soa. generate_soa_record idna svc z = Ok soa \<and> authority r = [soa]))"
  using assms
  by (auto simp: generate_auth_response_def Let_def auth_hit_def auth_header_def message_ops rbind_Ok_iff fold_add_answer
      flag_writes opcode_mask split: if_splits prod.splits option.splits)

lemma axfr_response:
  assumes "generate_axfr_response idna svc query z = Ok r" and "questions query = q # qs"
  shows "auth_header query q r \<and> additional r = [] \<and> get_rcode r = 0 \<and> authority r = [] \<and>
    (\<exists>soa. generate_soa_record idna svc z = Ok soa \<and> answers r = soa # ns_records_of svc z @ [soa])"
  using assms by (auto simp: generate_axfr_response_def Let_def auth_header_def message_ops rbind_Ok_iff fold_add_answer flag_writes opcode_mask)

subsection \<open>Properties\<close>

text \<open>
  A name belongs to the innermost of the zones that contain it: the zone found contains the name, and
  its domain is that of every other zone that contains the name, or lies below it; no zone is found
  only when none contains the name.
\<close>

theorem find_zone_spec:
  assumes "\<And>z. z \<in> set (as_zones svc) \<Longrightarrow> plain (z_domain z)"
  shows "(find_zone svc n = None \<longleftrightarrow> (\<forall>z\<in>set (as_zones svc). \<not> zone_is_match z n)) \<and>
    (\<forall>z. find_zone svc n = Some z \<longrightarrow> z \<in> set (as_zones svc) \<and> zone_is_match z n \<and>
       (\<forall>z'\<in>set (as_zones svc). zone_is_match z' n \<longrightarrow> dn_eq (z_domain z) (z_domain z') \<or> is_subdomain_of (z_domain z) (z_domain z')))"
  using find_zone_None[of svc n] find_zone_Some[of svc n] matches_nested[of _ n] assms by blast

definition example_zones :: "auth_zone list" where
  "example_zones = [\<lparr>z_domain = example_name, z_soa_params = soa_params_default 0, z_ns_records = [example_name]\<rparr>,
     \<lparr>z_domain = example_sub, z_soa_params = soa_params_default 0, z_ns_records = []\<rparr>]"

lemma example_zones_plain: "z \<in> set example_zones \<Longrightarrow> plain (z_domain z)"
  by (auto simp: example_zones_def plain_def example_name_def example_sub_def trim_end_def)

theorem find_zone_spec_witness:
  "\<exists>z. find_zone (auth_new example_zones 600) example_sub = Some z \<and>
     (dn_eq (z_domain z) example_name \<or> is_subdomain_of (z_domain z) example_name)"
proof -
  let ?z = "\<lparr>z_domain = example_name, z_soa_params = soa_params_default 0, z_ns_records = [example_name]\<rparr>"
  have "zone_is_match ?z example_sub"
    by (simp add: zone_is_match_def is_subdomain_of_def labels_def example_name_def example_sub_def trim_end_def eq_ignore_ascii_case_def)
  moreover have "?z \<in> set (as_zones (auth_new example_zones 600))" by (simp add: auth_new_def example_zones_def)
  moreover have "\<And>z. z \<in> set (as_zones (auth_new example_zones 600)) \<Longrightarrow> plain (z_domain z)"
    using example_zones_plain by (simp add: auth_new_def)
  ultimately show ?thesis using find_zone_spec[of "auth_new example_zones 600" example_sub] by force
qed

text \<open>
  C26: an authoritative answer repeats the id, the opcode and the first question of the query, is marked as an
  authoritative response, and its records belong to the apex of the zone of the name: its start of
  authority for an SOA query, the name servers for an NS query, both for a transfer.  For every other
  type there is no answer record, not even for a name that the hosts file or a lease gives an address,
  and the answer is \<open>no such name\<close> with the start of authority unless an address of the name is known
  in this way.
\<close>

theorem answer_auth_query_spec:
  assumes "answer_auth_query L idna now svc query client cache = (Ok (Some r), cache')"
  shows "\<exists>q qs z soa. questions query = q # qs \<and> find_zone svc (qname q) = Some z \<and> auth_header query q r \<and> additional r = [] \<and>
    (\<forall>rr\<in>set (answers r @ authority r). rr_name rr = z_domain z \<and> rr_ttl rr = as_auth_ttl svc) \<and>
    (if qtype q = RT_SOA then generate_soa_record idna svc z = Ok soa \<and> answers r = [soa] \<and> authority r = [] \<and> get_rcode r = 0
     else if qtype q = RT_NS then answers r = ns_records_of svc z \<and> authority r = [] \<and> get_rcode r = 0
     else if qtype q = RT_AXFR
       then generate_soa_record idna svc z = Ok soa \<and> answers r = soa # ns_records_of svc z @ [soa] \<and> authority r = [] \<and> get_rcode r = 0
     else answers r = [] \<and>
       (if auth_hit L now q cache then authority r = [] \<and> get_rcode r = 0
        else generate_soa_record idna svc z = Ok soa \<and> authority r = [soa] \<and> get_rcode r = 3))"
proof -
  obtain q qs z where q: "questions query = q # qs" "find_zone svc (qname q) = Some z"
    using assms by (auto simp: answer_auth_query_def split: list.splits option.splits)
  show ?thesis
  proof (cases "qtype q = RT_AXFR")
    case True
    with assms q have "generate_axfr_response idna svc query z = Ok r"
      by (auto simp: answer_auth_query_def filter_by_subnet_def rbind_Ok_iff)
    from axfr_response[OF this q(1)] obtain soa where "auth_header query q r" "additional r = []" "get_rcode r = 0" "authority r = []"
      "generate_soa_record idna svc z = Ok soa" "answers r = soa # ns_records_of svc z @ [soa]" by blast
    with q True soa_record[of idna svc z soa] ns_record[of _ svc z] show ?thesis
      by (intro exI[of _ q] exI[of _ qs] exI[of _ z] exI[of _ soa]) auto
  next
    case False
    with assms q have "generate_auth_response L idna now svc query z (qname q) (qtype q) cache = (Ok r, cache')"
      by (auto simp: answer_auth_query_def filter_by_subnet_def rbind_Ok_iff split: prod.splits)
    from auth_response_cases[OF this q(1)] q False soa_record[of idna svc z] ns_record[of _ svc z] show ?thesis
      by (intro exI[of _ q] exI[of _ qs] exI[of _ z]
          exI[of _ "case generate_soa_record idna svc z of Ok s \<Rightarrow> s | _ \<Rightarrow> undefined"]) (auto split: if_splits)
  qed
qed

theorem answer_auth_query_spec_witness:
  "\<exists>r. answer_auth_query list_lru (\<lambda>_. None) 0 (auth_new example_zones 600)
       ((message_new 9)\<lparr>questions := [\<lparr>qname = example_name, qtype = RT_NS, qclass = 1\<rparr>]\<rparr>) (V4 [10, 0, 0, 1]) (with_capacity list_lru 2) =
       (Ok (Some r), with_capacity list_lru 2) \<and> hdr_id (header r) = 9 \<and> map rr_data (answers r) = [RD_Ns example_name] \<and> get_rcode r = 0"
proof -
  let ?svc = "auth_new example_zones 600"
  let ?m = "(message_new 9)\<lparr>questions := [\<lparr>qname = example_name, qtype = RT_NS, qclass = 1\<rparr>]\<rparr>"
  have z: "find_zone ?svc example_name = Some (hd example_zones)"
    by (simp add: find_zone_def auth_new_def example_zones_def zone_is_match_def is_subdomain_of_def labels_def example_name_def example_sub_def
        trim_end_def eq_ignore_ascii_case_def dn_eq_def)
  then obtain r where r: "answer_auth_query list_lru (\<lambda>_. None) 0 ?svc ?m (V4 [10, 0, 0, 1]) (with_capacity list_lru 2) =
      (Ok (Some r), with_capacity list_lru 2)"
    by (simp add: answer_auth_query_def filter_by_subnet_def generate_auth_response_def Let_def)
  from answer_auth_query_spec[OF r] z r show ?thesis
    by (auto simp: auth_header_def ns_records_of_def rr_new_def message_new_def header_new_def example_zones_def)
qed

end
