(* ===== verification/Rust_Str.thy ===== *)
theory Rust_Str
  imports Prelude
begin

text \<open>
  More of Rust's \<open>str\<close>, over the bytes of UTF-8 texts: \<open>trim\<close>, \<open>lines\<close>, \<open>strip_prefix\<close>,
  \<open>split_once\<close> and \<open>splitn\<close> on one character.
\<close>

function trim_start_ws :: "bytes \<Rightarrow> bytes" where
  "trim_start_ws s = (if ws_len s = 0 then s else trim_start_ws (drop (ws_len s) s))"
  by pat_completeness auto
termination
proof (relation "measure length", goal_cases)
  case (2 s)
  then have "s \<noteq> []" by auto
  with 2 show ?case by (cases s) auto
qed simp

declare trim_start_ws.simps [simp del]

text \<open>A text of white space only; a suffix that starts inside a character is none.\<close>

definition blank :: "bytes \<Rightarrow> bool" where
  "blank s \<longleftrightarrow> trim_start_ws s = []"

fun trim_end_ws :: "bytes \<Rightarrow> bytes" where
  "trim_end_ws [] = []"
| "trim_end_ws (b # r) = (if blank (b # r) then [] else b # trim_end_ws r)"

definition str_trim :: "bytes \<Rightarrow> bytes" where
  "str_trim s = trim_end_ws (trim_start_ws s)"

definition strip_prefix :: "bytes \<Rightarrow> bytes \<Rightarrow> bytes option" where
  "strip_prefix p s = (if take (length p) s = p then Some (drop (length p) s) else None)"

definition starts_with :: "bytes \<Rightarrow> bytes \<Rightarrow> bool" where
  "starts_with p s \<longleftrightarrow> take (length p) s = p"

text \<open>\<open>str::lines\<close>: the pieces that newlines end, without a carriage return before the newline.\<close>

definition chomp :: "bytes \<Rightarrow> bytes" where
  "chomp l = (if l \<noteq> [] \<and> last l = 13 then butlast l else l)"

definition str_lines :: "bytes \<Rightarrow> bytes list" where
  "str_lines s =
     (let ps = split_on 10 s in map chomp (butlast ps) @ (if last ps = [] then [] else [last ps]))"

text \<open>\<open>split_once\<close>: the parts before and after the first occurrence.\<close>

definition split_once :: "u8 \<Rightarrow> bytes \<Rightarrow> (bytes \<times> bytes) option" where
  "split_once c s = (if c \<in> set s then Some (takeWhile (\<lambda>b. b \<noteq> c) s, tl (dropWhile (\<lambda>b. b \<noteq> c) s)) else None)"

subsection \<open>Lemmas\<close>

lemma trim_start_graphic: "is_ascii_graphic b \<Longrightarrow> trim_start_ws (b # r) = b # r"
  by (subst trim_start_ws.simps) (simp add: ws_len_graphic)

lemma trim_end_graphic: "list_all is_ascii_graphic s \<Longrightarrow> trim_end_ws s = s"
  by (induction s) (auto simp: blank_def trim_start_graphic)

lemma str_trim_graphic: "list_all is_ascii_graphic s \<Longrightarrow> str_trim s = s"
proof (cases s)
  case Nil
  then show ?thesis by (simp add: str_trim_def trim_start_ws.simps)
next
  case (Cons b r)
  moreover assume "list_all is_ascii_graphic s"
  ultimately show ?thesis using trim_end_graphic[of s] by (simp add: str_trim_def trim_start_graphic)
qed

lemma split_once_append: "c \<notin> set a \<Longrightarrow> split_once c (a @ c # b) = Some (a, b)"
proof -
  assume "c \<notin> set a"
  then have "takeWhile (\<lambda>b. b \<noteq> c) (a @ c # b) = a \<and> dropWhile (\<lambda>b. b \<noteq> c) (a @ c # b) = c # b"
    by (induction a) auto
  then show ?thesis by (simp add: split_once_def)
qed

lemma strip_prefix_append [simp]: "strip_prefix p (p @ s) = Some s"
  by (simp add: strip_prefix_def)

end
