(* ===== verification/Trust_Anchors.thy ===== *)
theory Trust_Anchors
  imports Domain_Name Rust_Str
begin

text \<open>
  DNSSEC trust anchors (\<open>src/dns/dnssec/trust_anchors.rs\<close>): anchors, the store ordered by domain, the
  parser of anchor lines, and the search for the anchors of the closest enclosing domain.  The \<open>hex\<close>
  crate and \<open>str::to_uppercase\<close> are parameters.
\<close>

subsection \<open>Anchors\<close>

datatype rfc5011_state = AddHold | Hold | Valid | Removed

datatype anchor_error = TrustAnchorFailed reason | AnchorParseError nat reason

record trust_anchor =
  ta_domain :: domain_name
  ta_class :: u16
  ta_keytag :: u16
  ta_algorithm :: u8
  ta_digest_type :: u8
  ta_digest :: bytes
  ta_rfc5011_status :: "rfc5011_state option"

definition validate_digest_length :: "u8 \<Rightarrow> nat \<Rightarrow> (unit, anchor_error) outcome" where
  "validate_digest_length digest_type digest_len =
     rbind (if digest_type = 1 then Ok 20 else if digest_type = 2 then Ok 32 else if digest_type = 4 then Ok 48
            else Err (TrustAnchorFailed ''Invalid digest type'')) (\<lambda>expected_len.
     if digest_len \<noteq> expected_len then Err (TrustAnchorFailed ''Invalid digest length'') else Ok ())"

definition anchor_validate :: "trust_anchor \<Rightarrow> (unit, anchor_error) outcome" where
  "anchor_validate a =
     (if ta_algorithm a \<notin> {1, 3, 5, 6, 7, 8, 10, 12, 13, 14, 15, 16} then Err (TrustAnchorFailed ''Invalid DNSSEC algorithm'')
      else validate_digest_length (ta_digest_type a) (length (ta_digest a)))"

definition anchor_new :: "domain_name \<Rightarrow> u16 \<Rightarrow> u16 \<Rightarrow> u8 \<Rightarrow> u8 \<Rightarrow> bytes \<Rightarrow> (trust_anchor, anchor_error) outcome" where
  "anchor_new domain class keytag algorithm digest_type digest =
     (let anchor = \<lparr>ta_domain = domain, ta_class = class, ta_keytag = keytag, ta_algorithm = algorithm,
        ta_digest_type = digest_type, ta_digest = digest, ta_rfc5011_status = None\<rparr> in
      rbind (anchor_validate anchor) (\<lambda>_. Ok anchor))"

subsection \<open>The store\<close>

text \<open>The \<open>BTreeMap\<close> as its entries in the order of the keys; keys are compared without regard to case.\<close>

type_synonym anchor_store = "(domain_name \<times> trust_anchor list) list"

definition store_get :: "domain_name \<Rightarrow> anchor_store \<Rightarrow> trust_anchor list option" where
  "store_get d st = map_option snd (find (\<lambda>(k, _). dn_eq k d) st)"

text \<open>\<open>entry(domain).or_default().push(anchor)\<close>\<close>

fun store_push :: "domain_name \<Rightarrow> trust_anchor \<Rightarrow> anchor_store \<Rightarrow> anchor_store" where
  "store_push d a [] = [(d, [a])]"
| "store_push d a ((k, as) # st) =
     (case dn_cmp d k of Less \<Rightarrow> (d, [a]) # (k, as) # st | Equal \<Rightarrow> (k, as @ [a]) # st | Greater \<Rightarrow> (k, as) # store_push d a st)"

definition store_set :: "domain_name \<Rightarrow> trust_anchor list \<Rightarrow> anchor_store \<Rightarrow> anchor_store" where
  "store_set d as st = map (\<lambda>(k, bs). if dn_eq k d then (k, as) else (k, bs)) st"

definition store_remove :: "domain_name \<Rightarrow> anchor_store \<Rightarrow> anchor_store" where
  "store_remove d st = filter (\<lambda>(k, _). \<not> dn_eq k d) st"

definition add_anchor :: "trust_anchor \<Rightarrow> anchor_store \<Rightarrow> (anchor_store, anchor_error) outcome" where
  "add_anchor anchor st = rbind (anchor_validate anchor) (\<lambda>_. Ok (store_push (ta_domain anchor) anchor st))"

definition remove_anchor :: "domain_name \<Rightarrow> u16 \<Rightarrow> anchor_store \<Rightarrow> (unit, anchor_error) outcome \<times> anchor_store" where
  "remove_anchor domain keytag st =
     (case store_get domain st of
        Some anchors \<Rightarrow>
          let kept = filter (\<lambda>a. ta_keytag a \<noteq> keytag) anchors; st' = store_set domain kept st in
          if length kept < length anchors then (Ok (), if kept = [] then store_remove domain st' else st')
          else (Err (TrustAnchorFailed ''Trust anchor not found''), st')
      | None \<Rightarrow> (Err (TrustAnchorFailed ''Trust anchor not found''), st))"

fun validate_anchors :: "trust_anchor list \<Rightarrow> (unit, anchor_error) outcome" where
  "validate_anchors [] = Ok ()"
| "validate_anchors (a # as) = rbind (anchor_validate a) (\<lambda>_. validate_anchors as)"

definition store_validate :: "anchor_store \<Rightarrow> (unit, anchor_error) outcome" where
  "store_validate st = validate_anchors (concat (map snd st))"

subsection \<open>The search\<close>

fun find_parent :: "(bytes \<Rightarrow> bytes option) \<Rightarrow> anchor_store \<Rightarrow> bytes list \<Rightarrow> trust_anchor list option" where
  "find_parent idna st [] = None"
| "find_parent idna st (l # ls) =
     (case (case dn_new idna (join dot (l # ls)) of Ok parent_domain \<Rightarrow> store_get parent_domain st | _ \<Rightarrow> None) of
        Some anchors \<Rightarrow> Some anchors
      | None \<Rightarrow> find_parent idna st ls)"

definition find_anchor :: "(bytes \<Rightarrow> bytes option) \<Rightarrow> anchor_store \<Rightarrow> domain_name \<Rightarrow> trust_anchor list option" where
  "find_anchor idna st domain =
     (case store_get domain st of
        Some anchors \<Rightarrow> Some anchors
      | None \<Rightarrow>
          (case find_parent idna st (tl (filter (\<lambda>l. l \<noteq> []) (split_on dot (dn_name domain)))) of
             Some anchors \<Rightarrow> Some anchors
           | None \<Rightarrow> (case dn_new idna [dot] of Ok root_domain \<Rightarrow> store_get root_domain st | _ \<Rightarrow> None)))"

subsection \<open>Anchor lines\<close>

abbreviation comma :: u8 where "comma \<equiv> 0x2C"

definition class_of :: "bytes \<Rightarrow> u16 option" where
  "class_of c =
     (if c = ascii ''CH'' \<or> c = ascii ''CHAOS'' then Some 3 else if c = ascii ''HS'' \<or> c = ascii ''HESIOD'' then Some 4
      else if c = ascii ''IN'' then Some 1 else None)"

text \<open>The characters of a text that are not white space.\<close>

function remove_ws :: "bytes \<Rightarrow> bytes" where
  "remove_ws s =
     (case s of [] \<Rightarrow> [] | b # r \<Rightarrow> if ws_len s = 0 then b # remove_ws r else remove_ws (drop (ws_len s) s))"
  by pat_completeness auto
termination by (relation "measure length") auto

declare remove_ws.simps [simp del]

definition parse_hex_digest :: "(bytes \<Rightarrow> bytes option) \<Rightarrow> nat \<Rightarrow> bytes \<Rightarrow> (bytes, anchor_error) outcome" where
  "parse_hex_digest hex_decode line_num hex_str =
     (case hex_decode (remove_ws hex_str) of Some d \<Rightarrow> Ok d | None \<Rightarrow> Err (AnchorParseError line_num ''invalid hex digest''))"

definition field_num :: "nat \<Rightarrow> nat \<Rightarrow> reason \<Rightarrow> bytes \<Rightarrow> (nat, anchor_error) outcome" where
  "field_num line_num largest reason s =
     (case parse_dec largest s of Some n \<Rightarrow> Ok n | None \<Rightarrow> Err (AnchorParseError line_num reason))"

definition parse_trust_anchor_line :: "(bytes \<Rightarrow> bytes option) \<Rightarrow> (bytes \<Rightarrow> bytes) \<Rightarrow> (bytes \<Rightarrow> bytes option) \<Rightarrow> bytes \<Rightarrow> nat \<Rightarrow>
    (trust_anchor, anchor_error) outcome" where
  "parse_trust_anchor_line idna uc hex_decode line line_num =
     (let line = (case strip_prefix (ascii ''trust-anchor='') line of Some r \<Rightarrow> r | None \<Rightarrow> line);
          parts = map str_trim (split_on comma line) in
      if length parts < 5 then Err (AnchorParseError line_num ''trust-anchor requires at least 5 fields'')
      else
        let (class, i) = (if 6 \<le> length parts
               then (case class_of (uc (parts ! 1)) of Some c \<Rightarrow> (c, 2) | None \<Rightarrow> (1, 1)) else (1, 1)) in
        rbind (map_err (\<lambda>_. AnchorParseError line_num ''invalid domain'') (dn_new idna (parts ! 0))) (\<lambda>domain.
        rbind (field_num line_num 65535 ''invalid keytag'' (parts ! i)) (\<lambda>keytag.
        rbind (field_num line_num 255 ''invalid algorithm'' (parts ! (i + 1))) (\<lambda>algorithm.
        rbind (field_num line_num 255 ''invalid digest_type'' (parts ! (i + 2))) (\<lambda>digest_type.
        rbind (parse_hex_digest hex_decode line_num (parts ! (i + 3))) (\<lambda>digest.
        anchor_new domain class (of_nat keytag) (of_nat algorithm) (of_nat digest_type) digest))))))"

definition parse_and_add_anchor :: "(bytes \<Rightarrow> bytes option) \<Rightarrow> (bytes \<Rightarrow> bytes) \<Rightarrow> (bytes \<Rightarrow> bytes option) \<Rightarrow> bytes \<Rightarrow> anchor_store \<Rightarrow>
    (anchor_store, anchor_error) outcome" where
  "parse_and_add_anchor idna uc hex_decode line st =
     rbind (parse_trust_anchor_line idna uc hex_decode line 0) (\<lambda>anchor. add_anchor anchor st)"

text \<open>The lines of a file; an error leaves the anchors of the lines before it in the store.\<close>

fun load_loop :: "(bytes \<Rightarrow> bytes option) \<Rightarrow> (bytes \<Rightarrow> bytes) \<Rightarrow> (bytes \<Rightarrow> bytes option) \<Rightarrow> nat \<Rightarrow> bytes list \<Rightarrow> anchor_store \<Rightarrow>
    (unit, anchor_error) outcome \<times> anchor_store" where
  "load_loop idna uc hex_decode n [] st = (Ok (), st)"
| "load_loop idna uc hex_decode n (l # ls) st =
     (let line = str_trim l in
      if line = [] \<or> starts_with [0x23] line then load_loop idna uc hex_decode (n + 1) ls st
      else (case parse_trust_anchor_line idna uc hex_decode line (n + 1) of
              Ok anchor \<Rightarrow> (case add_anchor anchor st of
                              Ok st \<Rightarrow> load_loop idna uc hex_decode (n + 1) ls st
                            | Err e \<Rightarrow> (Err e, st) | Panic \<Rightarrow> (Panic, st))
            | Err e \<Rightarrow> (Err e, st)
            | Panic \<Rightarrow> (Panic, st)))"

definition load_from_file :: "(bytes \<Rightarrow> bytes option) \<Rightarrow> (bytes \<Rightarrow> bytes) \<Rightarrow> (bytes \<Rightarrow> bytes option) \<Rightarrow> bytes option \<Rightarrow> anchor_store \<Rightarrow>
    (unit, anchor_error) outcome \<times> anchor_store" where
  "load_from_file idna uc hex_decode content st =
     (case content of
        None \<Rightarrow> (Err (TrustAnchorFailed ''Failed to read file''), st)
      | Some text \<Rightarrow> load_loop idna uc hex_decode 0 (str_lines text) st)"

subsection \<open>The store as a map\<close>

lemma dn_eq_iff: "dn_eq a b \<longleftrightarrow> dn_hash_input a = dn_hash_input b"
  by (simp add: dn_eq_def dn_hash_input_def eq_ignore_ascii_case_iff)

lemma dn_cmp_Equal: "dn_cmp a b = Equal \<longleftrightarrow> dn_hash_input a = dn_hash_input b"
  by (simp only: dn_cmp_def dn_hash_input_def bytes_cmp_Equal)

lemma dn_cmp_swap: "dn_cmp a b = Less \<longleftrightarrow> dn_cmp b a = Greater"
  using bytes_cmp_swap[of "to_ascii_lowercase (dn_name a)" "to_ascii_lowercase (dn_name b)"] by (simp only: dn_cmp_def)

lemma dn_cmp_trans: "dn_cmp a b = Less \<Longrightarrow> dn_cmp b c = Less \<Longrightarrow> dn_cmp a c = Less"
  by (simp add: dn_cmp_def bytes_cmp_trans)

lemma dn_cmp_eq: "dn_hash_input a = dn_hash_input b \<Longrightarrow> dn_cmp a c = dn_cmp b c \<and> dn_cmp c a = dn_cmp c b"
  by (simp add: dn_cmp_def dn_hash_input_def)

definition anchor_ok :: "trust_anchor \<Rightarrow> bool" where
  "anchor_ok a \<longleftrightarrow> anchor_validate a = Ok ()"

definition store_inv :: "anchor_store \<Rightarrow> bool" where
  "store_inv st \<longleftrightarrow> sorted_wrt (\<lambda>(a, _) (b, _). dn_cmp a b = Less) st \<and>
     (\<forall>(k, as)\<in>set st. as \<noteq> [] \<and> (\<forall>a\<in>set as. anchor_ok a \<and> dn_eq (ta_domain a) k))"

definition store_abs :: "anchor_store \<Rightarrow> (bytes \<rightharpoonup> trust_anchor list)" where
  "store_abs st = map_of (map (\<lambda>(k, as). (dn_hash_input k, as)) st)"

lemma store_get_abs: "store_get d st = store_abs st (dn_hash_input d)"
proof (induction st)
  case (Cons e st)
  show ?case by (cases e; cases "dn_eq (fst e) d") (use Cons in \<open>simp_all add: store_get_def store_abs_def dn_eq_iff\<close>)
qed (simp add: store_get_def store_abs_def)

lemma store_inv_Cons:
  "store_inv ((k, as) # st) \<longleftrightarrow> (\<forall>(b, _)\<in>set st. dn_cmp k b = Less) \<and> as \<noteq> [] \<and> (\<forall>a\<in>set as. anchor_ok a \<and> dn_eq (ta_domain a) k) \<and> store_inv st"
  by (auto simp: store_inv_def)

lemma store_push_keys: "fst ` set (store_push d a st) \<subseteq> insert d (fst ` set st)"
  by (induction d a st rule: store_push.induct) (auto split: ordering.split)

lemma store_abs_push:
  "store_inv st \<Longrightarrow> store_abs (store_push d a st) =
     (store_abs st)(dn_hash_input d \<mapsto> (case store_abs st (dn_hash_input d) of None \<Rightarrow> [] | Some as \<Rightarrow> as) @ [a])"
proof (induction st)
  case (Cons e st)
  obtain k as where e: "e = (k, as)" by fastforce
  show ?case
  proof (cases "dn_cmp d k")
    case Less
    then have "dn_cmp d b = Less" if "(b, cs) \<in> set st" for b cs
      using that Cons.prems dn_cmp_trans[of d k b] by (auto simp: e store_inv_Cons)
    then have "dn_hash_input b \<noteq> dn_hash_input d" if "(b, cs) \<in> set st" for b cs
      using that dn_cmp_Equal[of d b] by fastforce
    then have "store_abs st (dn_hash_input d) = None" unfolding store_abs_def map_of_eq_None_iff by force
    with Less dn_cmp_Equal[of d k] show ?thesis by (auto simp: e store_abs_def)
  next
    case Equal
    then show ?thesis using dn_cmp_Equal[of d k] by (auto simp: e store_abs_def)
  next
    case Greater
    with Cons dn_cmp_Equal[of d k] show ?thesis by (auto simp: e store_abs_def store_inv_Cons fun_upd_twist)
  qed
qed (simp add: store_abs_def)

lemma store_inv_push:
  "store_inv st \<Longrightarrow> anchor_ok a \<Longrightarrow> dn_eq (ta_domain a) d \<Longrightarrow> store_inv (store_push d a st)"
proof (induction st)
  case (Cons e st)
  obtain k as where e: "e = (k, as)" by fastforce
  show ?case
  proof (cases "dn_cmp d k")
    case Less
    with Cons.prems dn_cmp_trans[OF Less] show ?thesis by (auto simp: e store_inv_Cons)
  next
    case Equal
    then have "dn_hash_input d = dn_hash_input k" by (simp add: dn_cmp_Equal)
    with Equal Cons.prems show ?thesis by (auto simp: e store_inv_Cons dn_eq_iff)
  next
    case Greater
    then have k: "dn_cmp k d = Less" using dn_cmp_swap by blast
    have "dn_cmp k b = Less" if "(b, cs) \<in> set (store_push d a st)" for b cs
    proof -
      have "b \<in> insert d (fst ` set st)" using that store_push_keys[of d a st] by force
      then show ?thesis using k Cons.prems(1) by (auto simp: e store_inv_Cons)
    qed
    with Greater Cons show ?thesis by (auto simp: e store_inv_Cons)
  qed
qed (simp add: store_inv_def)

lemma store_abs_set: "store_abs (store_set d as st) = (\<lambda>n. if n = dn_hash_input d then map_option (\<lambda>_. as) (store_abs st n) else store_abs st n)"
  by (induction st) (auto simp: store_abs_def store_set_def dn_eq_iff)

lemma store_abs_remove: "store_abs (store_remove d st) = (store_abs st)(dn_hash_input d := None)"
  by (induction st) (auto simp: store_abs_def store_remove_def dn_eq_iff)

lemma sorted_wrt_keys: "sorted_wrt (\<lambda>(a, _) (b, _). dn_cmp a b = Less) st \<longleftrightarrow> sorted_wrt (\<lambda>a b. dn_cmp a b = Less) (map fst st)"
  by (simp add: sorted_wrt_map case_prod_unfold)

lemma store_get_ok: "store_inv st \<Longrightarrow> store_get d st = Some as \<Longrightarrow> as \<noteq> [] \<and> (\<forall>a\<in>set as. anchor_ok a \<and> dn_eq (ta_domain a) d)"
  by (auto simp: store_get_def store_inv_def dn_eq_iff dest!: find_SomeD)

lemma store_inv_set:
  assumes "store_inv st" "as \<noteq> []" "\<forall>a\<in>set as. anchor_ok a \<and> dn_eq (ta_domain a) d"
  shows "store_inv (store_set d as st)"
proof -
  have "map fst (store_set d as st) = map fst st" by (auto simp: store_set_def)
  then have "sorted_wrt (\<lambda>(a, _) (b, _). dn_cmp a b = Less) (store_set d as st)"
    using assms(1) unfolding store_inv_def sorted_wrt_keys by simp
  moreover have "\<forall>(k, bs)\<in>set (store_set d as st). bs \<noteq> [] \<and> (\<forall>a\<in>set bs. anchor_ok a \<and> dn_eq (ta_domain a) k)"
    using assms unfolding store_inv_def store_set_def by (auto simp: dn_eq_iff split: if_splits)
  ultimately show ?thesis by (simp add: store_inv_def)
qed

lemma store_inv_remove: "store_inv st \<Longrightarrow> store_inv (store_remove d st)"
  by (auto simp: store_inv_def store_remove_def sorted_wrt_filter)

lemma store_set_same: "store_inv st \<Longrightarrow> store_get d st = Some as \<Longrightarrow> store_set d as st = st"
proof (induction st)
  case (Cons e st)
  obtain k bs where e: "e = (k, bs)" by fastforce
  have "store_set d as st = st" if "dn_eq k d"
    unfolding store_set_def
  proof (rule map_idI, clarify)
    fix b cs assume "(b, cs) \<in> set st"
    then have "dn_cmp k b = Less" using Cons.prems(1) by (auto simp: e store_inv_Cons)
    then have "\<not> dn_eq b d" using that dn_cmp_Equal[of k b] by (auto simp: dn_eq_iff)
    then show "(if dn_eq b d then (b, as) else (b, cs)) = (b, cs)" by simp
  qed
  with Cons show ?case by (auto simp: e store_inv_Cons store_set_def store_get_def split: if_splits)
qed (simp add: store_get_def)

lemma remove_anchor_cases:
  assumes "store_inv st"
  shows "remove_anchor d t st =
    (case store_get d st of
       None \<Rightarrow> (Err (TrustAnchorFailed ''Trust anchor not found''), st)
     | Some as \<Rightarrow> if t \<notin> ta_keytag ` set as then (Err (TrustAnchorFailed ''Trust anchor not found''), st)
         else (Ok (), let kept = filter (\<lambda>a. ta_keytag a \<noteq> t) as in if kept = [] then store_remove d (store_set d kept st) else store_set d kept st))"
proof (cases "store_get d st")
  case (Some as)
  have same: "t \<notin> ta_keytag ` set as \<Longrightarrow> filter (\<lambda>a. ta_keytag a \<noteq> t) as = as" by (auto simp: filter_id_conv)
  moreover have "length (filter (\<lambda>a. ta_keytag a \<noteq> t) as) < length as \<longleftrightarrow> t \<in> ta_keytag ` set as"
    using same length_filter_less[of _ as "\<lambda>a. ta_keytag a \<noteq> t"] by (cases "t \<in> ta_keytag ` set as") auto
  ultimately show ?thesis using Some store_set_same[OF assms Some] by (simp add: remove_anchor_def Let_def)
qed (simp add: remove_anchor_def)

lemma add_anchor_inv: "add_anchor a st = Ok st' \<Longrightarrow> store_inv st \<Longrightarrow> store_inv st'"
  by (auto simp: add_anchor_def rbind_Ok_iff anchor_ok_def intro: store_inv_push simp: dn_eq_iff)

lemma remove_anchor_inv:
  assumes "store_inv st"
  shows "store_inv (snd (remove_anchor d t st))"
proof (cases "store_get d st")
  case (Some as)
  let ?k = "filter (\<lambda>a. ta_keytag a \<noteq> t) as"
  have k: "?k \<noteq> [] \<Longrightarrow> store_inv (store_set d ?k st)" using store_get_ok[OF assms Some] by (intro store_inv_set[OF assms]) auto
  have r: "store_remove d (store_set d ks st) = store_remove d st" for ks
    by (auto simp: store_remove_def store_set_def filter_map comp_def case_prod_unfold if_distrib cong: if_cong intro!: map_idI)
  show ?thesis using Some k store_inv_remove[OF assms, of d] by (simp add: remove_anchor_cases[OF assms] Let_def r assms)
qed (simp add: remove_anchor_cases[OF assms] assms)

text \<open>The name of the labels of \<open>d\<close> from the \<open>i\<close>-th on; with all labels dropped, the root.\<close>

definition ancestor :: "domain_name \<Rightarrow> nat \<Rightarrow> domain_name" where
  "ancestor d i = \<lparr>dn_name = join dot (drop i (split_on dot (dn_name d)))\<rparr>"

lemma ancestor_0 [simp]: "ancestor d 0 = d"
  by (simp add: ancestor_def)

lemma ancestor_new:
  assumes "valid_name d" "i < length (split_on dot (dn_name d))"
  shows "dn_new idna (join dot (drop i (split_on dot (dn_name d)))) = Ok (ancestor d i)"
proof -
  let ?ls = "split_on dot (dn_name d)"
  have "split_on dot (join dot (drop i ?ls)) = drop i ?ls"
    using assms(2) split_on_pieces[of _ dot "dn_name d"] by (intro split_on_join) (auto dest: in_set_dropD)
  moreover have "length (join dot (drop i ?ls)) \<le> length (join dot ?ls)"
    using length_join_append[of "take i ?ls" "drop i ?ls" dot] assms(2)
    by (cases "i = 0") (auto simp: append_take_drop_id less_imp_le)
  ultimately have "valid_name (ancestor d i)"
    using assms(1) by (auto simp: valid_name_def ancestor_def dest: in_set_dropD)
  from dn_new_valid[OF this, of idna] show ?thesis by (simp add: ancestor_def)
qed

lemma dn_new_dot: "dn_new idna [dot] = Ok \<lparr>dn_name = []\<rparr>"
  by (simp add: dn_new_def from_str_def is_ascii_def trim_end_def validate_def Let_def)

lemma find_parent_Some:
  assumes "valid_name d" "i \<le> length (split_on dot (dn_name d))"
  shows "find_parent idna st (drop i (split_on dot (dn_name d))) = Some as \<longleftrightarrow>
    (\<exists>j. i \<le> j \<and> j < length (split_on dot (dn_name d)) \<and> store_get (ancestor d j) st = Some as \<and>
       (\<forall>k. i \<le> k \<and> k < j \<longrightarrow> store_get (ancestor d k) st = None))" (is "_ = ?r i")
  using assms(2)
proof (induction "length (split_on dot (dn_name d)) - i" arbitrary: i)
  case (Suc n)
  let ?ls = "split_on dot (dn_name d)"
  have i: "i < length ?ls" using Suc.hyps(2) by simp
  have step: "find_parent idna st (drop i ?ls) =
      (case store_get (ancestor d i) st of Some as \<Rightarrow> Some as | None \<Rightarrow> find_parent idna st (drop (Suc i) ?ls))"
    using ancestor_new[OF assms(1) i, of idna] Cons_nth_drop_Suc[OF i, symmetric] by simp
  have IH: "find_parent idna st (drop (Suc i) ?ls) = Some as \<longleftrightarrow> ?r (Suc i)" using Suc by (intro Suc.hyps(1)) auto
  show ?case
  proof (cases "store_get (ancestor d i) st")
    case None
    then have "?r (Suc i) \<longleftrightarrow> ?r i"
      by (metis Suc_le_eq le_eq_less_or_eq not_less_eq_eq option.distinct(1))
    with step IH None show ?thesis by simp
  next
    case (Some bs)
    then have "?r i \<longleftrightarrow> bs = as" using i by (metis le_eq_less_or_eq not_le option.distinct(1) option.inject)
    with step Some show ?thesis by simp
  qed
qed auto

subsection \<open>Properties\<close>

inductive store_reach :: "anchor_store \<Rightarrow> bool" where
  new: "store_reach []"
| added: "store_reach st \<Longrightarrow> add_anchor a st = Ok st' \<Longrightarrow> store_reach st'"
| removed: "store_reach st \<Longrightarrow> store_reach (snd (remove_anchor d t st))"
| loaded: "store_reach st \<Longrightarrow> store_reach (snd (load_from_file idna uc hex_decode content st))"

lemma load_loop_inv: "store_inv st \<Longrightarrow> store_inv (snd (load_loop idna uc hex_decode n ls st))"
  by (induction ls arbitrary: n st) (auto simp: Let_def split: outcome.split dest: add_anchor_inv)

lemma store_reach_inv: "store_reach st \<Longrightarrow> store_inv st"
proof (induction rule: store_reach.induct)
  case (loaded st idna uc hex_decode content)
  then show ?case by (simp add: load_from_file_def load_loop_inv split: option.split)
qed (auto simp: store_inv_def[of "[]"] intro: add_anchor_inv remove_anchor_inv)

text \<open>
  Whatever anchors are added, removed or loaded from files, the store holds only anchors with a known
  algorithm and a digest of the length of its type, every anchor under its own domain, no empty list
  and no domain twice, in the order of the names; so the validation of the store always succeeds.
\<close>

theorem anchor_store_invariant:
  assumes "store_reach st"
  shows "store_validate st = Ok () \<and> sorted_wrt (\<lambda>(a, _) (b, _). dn_cmp a b = Less) st \<and>
    (\<forall>(k, as)\<in>set st. as \<noteq> [] \<and> (\<forall>a\<in>set as. anchor_validate a = Ok () \<and> dn_eq (ta_domain a) k))"
proof -
  have "validate_anchors as = Ok ()" if "\<forall>a\<in>set as. anchor_ok a" for as
    using that by (induction as) (auto simp: anchor_ok_def)
  moreover have "\<forall>a\<in>set (concat (map snd st)). anchor_ok a" using store_reach_inv[OF assms] by (auto simp: store_inv_def)
  ultimately show ?thesis using store_reach_inv[OF assms] by (simp add: store_validate_def store_inv_def anchor_ok_def)
qed

definition example_anchor :: trust_anchor where
  "example_anchor = \<lparr>ta_domain = example_name, ta_class = 1, ta_keytag = 5, ta_algorithm = 8, ta_digest_type = 1,
     ta_digest = replicate 20 7, ta_rfc5011_status = None\<rparr>"

lemma example_anchor_added: "add_anchor example_anchor [] = Ok [(example_name, [example_anchor])]"
  by (simp add: add_anchor_def anchor_validate_def example_anchor_def validate_digest_length_def)

theorem anchor_store_invariant_witness: "store_validate [(example_name, [example_anchor])] = Ok ()"
  using anchor_store_invariant[OF store_reach.added[OF store_reach.new example_anchor_added]] by simp

lemma first_Some_unique:
  fixes g :: "nat \<Rightarrow> 'a option"
  assumes "g i0 = Some bs" "i0 \<le> n" "\<forall>j<i0. g j = None"
  shows "(\<exists>i\<le>n. g i = Some as \<and> (\<forall>j<i. g j = None)) \<longleftrightarrow> as = bs"
proof -
  have "i = i0" if "g i = Some as" "\<forall>j<i. g j = None" for i
    using that assms(1,3) by (cases i i0 rule: linorder_cases) auto
  with assms show ?thesis by (metis option.inject)
qed

text \<open>
  The search for a valid name returns the anchors of the closest of the name itself and the domains above
  it, down to the root, that has anchors, and nothing only when none of them has.
\<close>

theorem find_anchor_spec:
  assumes "valid_name d"
  shows "find_anchor idna st d = Some as \<longleftrightarrow>
    (\<exists>i\<le>length (split_on dot (dn_name d)). store_get (ancestor d i) st = Some as \<and> (\<forall>j<i. store_get (ancestor d j) st = None))"
proof -
  let ?ls = "split_on dot (dn_name d)" and ?g = "\<lambda>i. store_get (ancestor d i) st"
  have ne: "filter (\<lambda>l. l \<noteq> []) ?ls = ?ls"
    using assms by (auto simp: filter_id_conv valid_name_def valid_label_def label_error_def)
  have len: "0 < length ?ls" by simp
  have root: "ancestor d (length ?ls) = \<lparr>dn_name = []\<rparr>" by (simp add: ancestor_def)
  have par: "find_parent idna st (tl ?ls) = Some bs \<longleftrightarrow>
      (\<exists>j. 1 \<le> j \<and> j < length ?ls \<and> ?g j = Some bs \<and> (\<forall>k. 1 \<le> k \<and> k < j \<longrightarrow> ?g k = None))" for bs
    using find_parent_Some[OF assms, of 1 idna st bs] len by (simp add: drop_Suc)
  show ?thesis
  proof (cases "?g 0")
    case (Some bs)
    then show ?thesis using first_Some_unique[of ?g 0 bs "length ?ls" as] by (auto simp: find_anchor_def)
  next
    case g0: None
    show ?thesis
    proof (cases "find_parent idna st (tl ?ls)")
      case (Some bs)
      then obtain j where j: "1 \<le> j" "j < length ?ls" "?g j = Some bs" "\<forall>k. 1 \<le> k \<and> k < j \<longrightarrow> ?g k = None" using par by blast
      then have "\<forall>k<j. ?g k = None" using g0 by (metis less_one linorder_not_le ancestor_0)
      with first_Some_unique[of ?g j bs "length ?ls" as] j Some g0 ne show ?thesis by (auto simp: find_anchor_def)
    next
      case None
      have none: "?g k = None" if "k < length ?ls" for k using that
      proof (induction k rule: less_induct)
        case (less k)
        then show ?case using None par g0 by (cases "k = 0") (auto simp: Suc_le_eq, metis gr0I less_trans not_None_eq option.distinct(1))
      qed
      then have "find_anchor idna st d = ?g (length ?ls)" using None g0 ne by (simp add: find_anchor_def dn_new_dot root)
      moreover have "(\<exists>i\<le>length ?ls. ?g i = Some as \<and> (\<forall>j<i. ?g j = None)) \<longleftrightarrow> ?g (length ?ls) = Some as"
        using none by (metis le_eq_less_or_eq option.distinct(1))
      ultimately show ?thesis by simp
    qed
  qed
qed

theorem find_anchor_spec_witness: "find_anchor (\<lambda>_. None) [(example_name, [example_anchor])] example_sub = Some [example_anchor]"
proof -
  have "store_get (ancestor example_sub 0) [(example_name, [example_anchor])] = None"
    "store_get (ancestor example_sub 1) [(example_name, [example_anchor])] = Some [example_anchor]"
    by (simp_all add: store_get_def ancestor_def example_sub_def example_name_def dn_eq_def eq_ignore_ascii_case_def to_lower_def)
  then show ?thesis
    unfolding find_anchor_spec[OF valid_examples(2)] by (intro exI[of _ 1]) (auto simp: example_sub_def less_Suc_eq)
qed

end
