(* ===== verification/Dns_Service.thy ===== *)
theory Dns_Service
  imports Forwarder Auth Trust_Anchors
begin

text \<open>
  The DNS service (\<open>src/dns/mod.rs\<close>) puts the components together: the cache answers first, then the
  authoritative zones, then the forwarder, whose response is cached.  The cache and the pool of
  upstream servers are shared with the forwarder and live in its state.  The builder makes the service
  from the configuration, with the configured host records in the cache.  Of the DNSSEC validator, which
  these functions build and never call, the trust anchors are modelled.
\<close>

subsection \<open>The service\<close>

record 'l dns_service =
  ds_forwarder :: "'l forwarder"
  ds_auth :: "auth_service option"
  ds_config :: forward_config
  ds_trust_anchors :: "anchor_store option"

definition build_response_from_cache :: "question \<Rightarrow> cache_entry \<Rightarrow> dns_message" where
  "build_response_from_cache query cached_entry =
     (let flags = ce_flags cached_entry;
          is_negative = flags_contain flags CF_NEG;
          is_nxdomain = flags_contain flags CF_NXDOMAIN;
          query_message = build (builder_add_question \<lparr>qname = qname query, qtype = qtype query, qclass = qclass query\<rparr>
            (builder_set_query (builder_id 0 builder_new)));
          response = response_from_query query_message;
          response = (if is_negative then if is_nxdomain then msg_set_rcode 3 response else response
                      else add_answer (ce_record cached_entry) response) in
      set_authoritative (flags_contain flags CF_HOSTS) response)"

definition answer_address :: "resource_record \<Rightarrow> ip_addr option" where
  "answer_address rr = (case rr_data rr of RD_A a \<Rightarrow> Some (V4 a) | RD_AAAA a \<Rightarrow> Some (V6 a) | _ \<Rightarrow> None)"

definition answer_entry :: "timestamp \<Rightarrow> resource_record \<Rightarrow> cache_entry" where
  "answer_entry now rr =
     entry_new now (rr_name rr) (rr_type rr) (answer_address rr) (rr_ttl rr)
       (CF_FORWARD OR (case answer_address rr of Some (V4 _) \<Rightarrow> CF_IPV4 | _ \<Rightarrow> CF_IPV6))"

definition negative_entry :: "timestamp \<Rightarrow> question \<Rightarrow> dns_message \<Rightarrow> cache_entry" where
  "negative_entry now query response_message =
     (let ttl = (case find (\<lambda>rr. rr_type rr = RT_SOA) (authority response_message) of Some rr \<Rightarrow> rr_ttl rr | None \<Rightarrow> 300) in
      entry_new now (qname query) (qtype query) None ttl
        (if get_rcode response_message = 3 then CF_NEG OR CF_NXDOMAIN else CF_NEG))"

definition store_response :: "'l lru_ops \<Rightarrow> timestamp \<Rightarrow> question \<Rightarrow> dns_message \<Rightarrow> 'l dns_cache \<Rightarrow> 'l dns_cache" where
  "store_response L now query response_message cache =
     (let cache = fold (\<lambda>rr. cache_insert L (answer_entry now rr)) (answers response_message) cache in
      if answers response_message = [] then
        let rcode = get_rcode response_message in
        if rcode = 3 \<or> rcode = 0 then cache_insert L (negative_entry now query response_message) cache else cache
      else cache)"

definition query_message :: "u16 \<Rightarrow> question \<Rightarrow> dns_message" where
  "query_message i query =
     (let m = message_new i in m\<lparr>questions := questions m @ [\<lparr>qname = qname query, qtype = qtype query, qclass = qclass query\<rparr>]\<rparr>)"

text \<open>
  \<open>E 0\<close> is the environment of the lookup, \<open>E 1\<close> that of storing the response, \<open>attempt\<close> those of
  the forwarder's attempts.
\<close>

definition forward_and_store :: "(nat \<Rightarrow> 'l fwd_env) \<Rightarrow> (nat \<Rightarrow> 'l attempt) \<Rightarrow> question \<Rightarrow> bytes \<Rightarrow> 'l dns_service
    \<Rightarrow> (dns_message, dns_error) outcome \<times> sock_addr list \<times> 'l dns_service" where
  "forward_and_store E attempt query query_bytes s =
     (case forward_query_and_wait attempt (ds_config s) query query_bytes (ds_forwarder s) of
        (Ok response_message, tried, fw) \<Rightarrow>
          (Ok response_message, tried,
           s\<lparr>ds_forwarder := fw\<lparr>fw_cache := store_response (fe_lru (E 1)) (fe_now (E 1)) query response_message (fw_cache fw)\<rparr>\<rparr>)
      | (Err e, tried, fw) \<Rightarrow> (Err e, tried, s\<lparr>ds_forwarder := fw\<rparr>)
      | (Panic, tried, fw) \<Rightarrow> (Panic, tried, s\<lparr>ds_forwarder := fw\<rparr>))"

definition resolve_query :: "(nat \<Rightarrow> 'l fwd_env) \<Rightarrow> (nat \<Rightarrow> 'l attempt) \<Rightarrow> question \<Rightarrow> ip_addr \<Rightarrow> bytes option \<Rightarrow> 'l dns_service
    \<Rightarrow> (dns_message, dns_error) outcome \<times> sock_addr list \<times> 'l dns_service" where
  "resolve_query E attempt query client_addr original_query_bytes s =
     (let fw = ds_forwarder s; L = fe_lru (E 0); now = fe_now (E 0);
          (found, cache) = find_by_name L now (qname query) (qtype query) (fw_cache fw);
          s = s\<lparr>ds_forwarder := fw\<lparr>fw_cache := cache\<rparr>\<rparr> in
      case found of
        Some cached_entry \<Rightarrow> (Ok (build_response_from_cache query cached_entry), [], s)
      | None \<Rightarrow>
          let (auth, cache) = (case ds_auth s of
                 None \<Rightarrow> (Ok None, cache)
               | Some auth_service \<Rightarrow> answer_auth_query L (fe_idna (E 0)) now auth_service (query_message 0 query) client_addr cache);
              s = s\<lparr>ds_forwarder := fw\<lparr>fw_cache := cache\<rparr>\<rparr> in
          (case auth of
             Err e \<Rightarrow> (Err e, [], s)
           | Panic \<Rightarrow> (Panic, [], s)
           | Ok (Some auth_message) \<Rightarrow> (Ok auth_message, [], s)
           | Ok None \<Rightarrow>
               (case (case original_query_bytes of
                        Some original_bytes \<Rightarrow> Ok original_bytes
                      | None \<Rightarrow> map_err (\<lambda>_. ParseError ''Failed to serialize query'') (message_to_bytes (query_message (fe_draw (E 0) 0) query))) of
                  Ok query_bytes \<Rightarrow> forward_and_store E attempt query query_bytes s
                | Err e \<Rightarrow> (Err e, [], s)
                | Panic \<Rightarrow> (Panic, [], s))))"

subsection \<open>Administration\<close>

definition clear_cache :: "'l lru_ops \<Rightarrow> 'l dns_service \<Rightarrow> 'l dns_service" where
  "clear_cache L s = s\<lparr>ds_forwarder := (ds_forwarder s)\<lparr>fw_cache := cache_clear L (fw_cache (ds_forwarder s))\<rparr>\<rparr>"

definition clear_upstream_servers :: "'l dns_service \<Rightarrow> 'l dns_service" where
  "clear_upstream_servers s = s\<lparr>ds_forwarder := (ds_forwarder s)\<lparr>fw_pool := pool_clear (fw_pool (ds_forwarder s))\<rparr>\<rparr>"

definition add_upstream_server :: "(bytes \<Rightarrow> bytes) \<Rightarrow> ip_addr \<Rightarrow> bytes option \<Rightarrow> 'l dns_service
    \<Rightarrow> (unit, dns_error) outcome \<times> 'l dns_service" where
  "add_upstream_server lc addr domain s =
     (let flags = (case addr of V4 _ \<Rightarrow> UF_IPV4_ADDR | V6 _ \<Rightarrow> UF_IPV6_ADDR) in
      case (case domain of
              Some d \<Rightarrow> rbind (types_name_new d) (\<lambda>n. Ok (Some n, flags OR UF_DOMAIN_SPECIFIC))
            | None \<Rightarrow> Ok (None, flags)) of
        Ok (domain_name, flags) \<Rightarrow>
          (case add_server lc (upstream_new (addr, 53) domain_name flags) (fw_pool (ds_forwarder s)) of
             Ok pool \<Rightarrow> (Ok (), s\<lparr>ds_forwarder := (ds_forwarder s)\<lparr>fw_pool := pool\<rparr>\<rparr>)
           | Err e \<Rightarrow> (Err e, s)
           | Panic \<Rightarrow> (Panic, s))
      | Err e \<Rightarrow> (Err e, s)
      | Panic \<Rightarrow> (Panic, s))"

definition get_upstream_servers :: "'l dns_service \<Rightarrow> sock_addr list" where
  "get_upstream_servers s = map us_addr (up_servers (fw_pool (ds_forwarder s)))"

definition get_loop_servers :: "'l dns_service \<Rightarrow> sock_addr list" where
  "get_loop_servers s = map us_addr (filter (\<lambda>sv. has_flag (us_flags sv) UF_LOOP) (up_servers (fw_pool (ds_forwarder s))))"

subsection \<open>The builder\<close>

record dns_config =
  dc_cache_size :: nat
  dc_upstream_servers :: "server_details list"
  dc_host_records :: "(bytes \<times> ip_addr list) list"
  dc_authoritative_zones :: "auth_zone list"
  dc_dnssec_enabled :: bool
  dc_trust_anchors :: "bytes list"
  dc_forward :: forward_config

record dns_service_builder =
  sb_config :: "dns_config option"
  sb_cache_size :: "nat option"
  sb_upstream_servers :: "bytes list option"
  sb_auth_zones :: "auth_zone list option"
  sb_enable_dnssec :: bool

definition sbuilder_new :: dns_service_builder where
  "sbuilder_new = \<lparr>sb_config = None, sb_cache_size = None, sb_upstream_servers = None, sb_auth_zones = None, sb_enable_dnssec = False\<rparr>"

definition host_entry :: "timestamp \<Rightarrow> domain_name \<Rightarrow> ip_addr \<Rightarrow> cache_entry" where
  "host_entry now domain_name addr =
     (case addr of
        V4 _ \<Rightarrow> entry_new now domain_name RT_A (Some addr) 600 (CF_HOSTS OR CF_IPV4)
      | V6 _ \<Rightarrow> entry_new now domain_name RT_AAAA (Some addr) 600 (CF_HOSTS OR CF_IPV6))"

fun insert_host_records :: "'l lru_ops \<Rightarrow> (bytes \<Rightarrow> bytes option) \<Rightarrow> timestamp \<Rightarrow> (bytes \<times> ip_addr list) list \<Rightarrow> 'l dns_cache \<Rightarrow> 'l dns_cache" where
  "insert_host_records L idna now [] cache = cache"
| "insert_host_records L idna now ((hostname, addrs) # records) cache =
     insert_host_records L idna now records
       (case dn_new idna hostname of
          Ok domain_name \<Rightarrow> fold (\<lambda>addr. cache_insert L (host_entry now domain_name addr)) addrs cache
        | _ \<Rightarrow> cache)"

fun add_servers :: "(bytes \<Rightarrow> bytes) \<Rightarrow> server_details list \<Rightarrow> upstream_pool \<Rightarrow> (upstream_pool, dns_error) outcome" where
  "add_servers lc [] pool = Ok pool"
| "add_servers lc (sd # sds) pool =
     rbind (add_server lc (upstream_new (sd_addr sd) (sd_domain sd) (from_bits_truncate (sd_flags sd))) pool) (add_servers lc sds)"

fun add_anchors :: "(bytes \<Rightarrow> (anchor_store \<Rightarrow> (anchor_store, anchor_error) outcome)) \<Rightarrow> bytes list \<Rightarrow> anchor_store \<Rightarrow> (anchor_store, anchor_error) outcome" where
  "add_anchors parse [] st = Ok st"
| "add_anchors parse (line # ls) st = rbind (parse line st) (add_anchors parse ls)"

text \<open>
  The environment of the builder: the \<open>lru\<close>, \<open>idna\<close> and \<open>hex\<close> crates, the case conversions of
  strings, and the clock.
\<close>

record 'l build_env =
  be_lru :: "'l lru_ops"
  be_idna :: "bytes \<Rightarrow> bytes option"
  be_lc :: "bytes \<Rightarrow> bytes"
  be_uc :: "bytes \<Rightarrow> bytes"
  be_hex :: "bytes \<Rightarrow> bytes option"
  be_now :: timestamp

definition service_build :: "'l build_env \<Rightarrow> dns_service_builder \<Rightarrow> ('l dns_service, dns_error + anchor_error) outcome" where
  "service_build B b =
     (case sb_config b of
        None \<Rightarrow> Err (Inl (ConfigurationError ''DNS config is required''))
      | Some config \<Rightarrow>
          let cache = cache_new (be_lru B) (dc_cache_size config);
              cache = insert_host_records (be_lru B) (be_idna B) (be_now B) (dc_host_records config) cache in
          rbind (map_err Inl (add_servers (be_lc B) (dc_upstream_servers config) pool_new)) (\<lambda>pool.
          let zones = (case sb_auth_zones b of Some z \<Rightarrow> Some z
                       | None \<Rightarrow> if dc_authoritative_zones config \<noteq> [] then Some (dc_authoritative_zones config) else None) in
          rbind (if sb_enable_dnssec b \<or> dc_dnssec_enabled config then
                   if dc_trust_anchors config = [] then Err (Inl (ConfigurationError ''DNSSEC enabled but no trust anchors configured''))
                   else rbind (map_err Inr (add_anchors (parse_and_add_anchor (be_idna B) (be_uc B) (be_hex B)) (dc_trust_anchors config) []))
                     (\<lambda>st. Ok (Some st))
                 else Ok None) (\<lambda>anchors.
          Ok \<lparr>ds_forwarder = forwarder_new cache pool, ds_auth = map_option (\<lambda>z. auth_new z 600) zones,
              ds_config = dc_forward config, ds_trust_anchors = anchors\<rparr>)))"

subsection \<open>Lemmas\<close>

lemma answer_entry_simps [simp]:
  "ce_domain_name (answer_entry now rr) = rr_name rr" "ce_record_type (answer_entry now rr) = rr_type rr"
  "ce_expiry (answer_entry now rr) = now + secs (unat (rr_ttl rr))"
  "ce_record (answer_entry now rr) = rr_new (rr_name rr) (rr_type rr) 1 (rr_ttl rr) (entry_rdata (rr_type rr) (answer_address rr))"
  by (simp_all add: answer_entry_def entry_new_def timestamp_add_def)

lemma answer_entry_flags:
  "\<not> flags_contain (ce_flags (answer_entry now rr)) CF_NEG" "\<not> flags_contain (ce_flags (answer_entry now rr)) CF_HOSTS"
  by (simp_all add: answer_entry_def entry_new_def cache_flag_defs split: option.split ip_addr.split)

lemma host_entry_simps:
  "ce_domain_name (host_entry now d a) = d" "ce_expiry (host_entry now d a) = now + secs 600"
  "flags_contain (ce_flags (host_entry now d a)) CF_HOSTS" "\<not> flags_contain (ce_flags (host_entry now d a)) CF_NEG"
  "ce_record_type (host_entry now d a) = address_type a"
  by (auto simp: host_entry_def entry_new_def timestamp_add_def cache_flag_defs address_type_def split: ip_addr.split)

context lru_cache
begin

lemma inv_fold_insert: "cache_inv items cap c \<Longrightarrow> cache_inv items cap (fold (cache_insert L) es c)"
  by (induction es arbitrary: c) (auto simp: inv_insert)

lemma capacity_fold_insert: "cache_inv items cap c \<Longrightarrow> capacity (fold (cache_insert L) es c) = capacity c"
  by (induction es arbitrary: c) (auto simp: inv_insert insert_unfold(3))

text \<open>An inserted entry is still there after fewer further insertions of other keys than the cache has places.\<close>

lemma inserted_stays:
  assumes "cache_inv items cap c" and "\<forall>e'\<in>set post. entry_key e' \<noteq> entry_key e" and "length post < capacity c"
    and "cache_key d t = entry_key e" and "now < ce_expiry e"
  shows "fst (find_by_name L now d t (fold (cache_insert L) (pre @ e # post) c)) = Some e"
proof -
  let ?c = "fold (cache_insert L) pre c"
  have c: "cache_inv items cap ?c" "capacity ?c = capacity c"
    using assms(1) by (simp_all add: inv_fold_insert capacity_fold_insert)
  have "cache_map (fold (cache_insert L) post (cache_insert L e ?c)) (entry_key e) = Some e"
    using inserts_keep[OF inv_insert[OF c(1)], of e "[]" "entry_key e" e] insert_unfold(2,3)[OF c(1), of e] assms(2,3) c(2) by auto
  then show ?thesis
    using find_by_name_result[OF inv_fold_insert[OF inv_insert[OF c(1)]], of now d t post e] assms(4,5) by simp
qed

end

lemma build_response_positive:
  assumes "\<not> flags_contain (ce_flags e) CF_NEG"
  shows "answers (build_response_from_cache q e) = [ce_record e]" "questions (build_response_from_cache q e) = [q]"
    "get_rcode (build_response_from_cache q e) = 0" "flags_aa (hdr_flags (header (build_response_from_cache q e))) = flags_contain (ce_flags e) CF_HOSTS"
  using assms
  by (simp_all add: build_response_from_cache_def Let_def message_ops response_from_query_def build_def builder_add_question_def
      builder_set_query_def builder_id_def builder_new_def builder_flags_def flag_reads flags_abs_set)
    (simp_all add: flags_abs_def flags_new_def flags_rcode_def)

lemma resolve_hit:
  assumes "fst (find_by_name (fe_lru (E 0)) (fe_now (E 0)) (qname q) (qtype q) (fw_cache (ds_forwarder s))) = Some e"
  shows "\<exists>s'. resolve_query E attempt q client ob s = (Ok (build_response_from_cache q e), [], s')"
  using assms by (auto simp: resolve_query_def Let_def case_prod_unfold)

lemma auth_inv:
  assumes "lru_cache L items cap" "cache_inv items cap c"
  shows "cache_inv items cap (snd (answer_auth_query L idna now svc m client c))"
proof -
  have "cache_inv items cap (snd (find_by_name L now d t c))" for d t
    by (rule lru_cache.inv_find_by_name[OF assms])
  with assms(2) show ?thesis
    by (auto simp: answer_auth_query_def generate_auth_response_def Let_def case_prod_unfold split: list.split option.split prod.split)
qed

lemma wait_inv:
  assumes "lru_cache L items cap" "fwd_inv items cap fw" "keeps L attempt"
  shows "fwd_inv items cap (snd (snd (forward_query_and_wait attempt cfg q b fw)))"
  by (rule lru_cache.steps_inv[OF assms(1) wait_steps[OF assms(3)] assms(2)]) simp

lemma fold_answers: "fold (\<lambda>rr. cache_insert L (answer_entry now rr)) rrs c = fold (cache_insert L) (map (answer_entry now) rrs) c"
  by (simp add: fold_map comp_def)

lemma store_inv_response:
  assumes "lru_cache L items cap" "cache_inv items cap c"
  shows "cache_inv items cap (store_response L now q m c)"
  using assms by (simp add: store_response_def Let_def fold_answers lru_cache.inv_fold_insert lru_cache.inv_insert)

lemma forward_and_store_inv:
  assumes "lru_cache L items cap" "fwd_inv items cap (ds_forwarder s)" "keeps L attempt" "fe_lru (E 1) = L"
  shows "fwd_inv items cap (ds_forwarder (snd (snd (forward_and_store E attempt q b s))))"
proof -
  obtain r tried fw where w: "forward_query_and_wait attempt (ds_config s) q b (ds_forwarder s) = (r, tried, fw)" using prod_cases3 by blast
  with wait_inv[OF assms(1-3), of "ds_config s" q b] have inv: "fwd_inv items cap fw" by simp
  then have "fwd_inv items cap (fw\<lparr>fw_cache := store_response L t q m (fw_cache fw)\<rparr>)" for t m
    using store_inv_response[OF assms(1)] by (intro fwd_inv_parts) (auto simp: fwd_inv_def)
  with w inv assms(4) show ?thesis by (simp add: forward_and_store_def split: outcome.split)
qed

lemma resolve_cases:
  assumes "lru_cache L items cap" "cache_inv items cap (fw_cache (ds_forwarder s))" "fe_lru (E 0) = L"
  obtains c s1 where "cache_inv items cap c" "s1 = s\<lparr>ds_forwarder := (ds_forwarder s)\<lparr>fw_cache := c\<rparr>\<rparr>"
    "(\<exists>r. resolve_query E attempt q client ob s = (r, [], s1)) \<or> (\<exists>b. resolve_query E attempt q client ob s = forward_and_store E attempt q b s1)"
proof -
  obtain f c1 where f: "find_by_name L (fe_now (E 0)) (qname q) (qtype q) (fw_cache (ds_forwarder s)) = (f, c1)" by fastforce
  have c1: "cache_inv items cap c1" using lru_cache.inv_find_by_name[OF assms(1,2)] f by (metis snd_conv)
  obtain a c2 where a: "(case ds_auth s of None \<Rightarrow> (Ok None, c1)
      | Some svc \<Rightarrow> answer_auth_query L (fe_idna (E 0)) (fe_now (E 0)) svc (query_message 0 q) client c1) = (a, c2)" by fastforce
  have c2: "cache_inv items cap c2" using a c1 auth_inv[OF assms(1) c1] by (auto split: option.splits) (metis snd_conv)
  show ?thesis
  proof (cases f)
    case None
    define s1 where "s1 = s\<lparr>ds_forwarder := (ds_forwarder s)\<lparr>fw_cache := c2\<rparr>\<rparr>"
    have "resolve_query E attempt q client ob s =
        (case a of Err e \<Rightarrow> (Err e, [], s1) | Panic \<Rightarrow> (Panic, [], s1) | Ok (Some m) \<Rightarrow> (Ok m, [], s1)
         | Ok None \<Rightarrow> (case (case ob of Some b \<Rightarrow> Ok b | None \<Rightarrow> map_err (\<lambda>_. ParseError ''Failed to serialize query'')
               (message_to_bytes (query_message (fe_draw (E 0) 0) q))) of
             Ok b \<Rightarrow> forward_and_store E attempt q b s1 | Err e \<Rightarrow> (Err e, [], s1) | Panic \<Rightarrow> (Panic, [], s1)))"
      unfolding s1_def using f a assms(3) None by (simp add: resolve_query_def Let_def)
    then show ?thesis by (intro that[OF c2 s1_def]) (auto split: option.split outcome.split)
  next
    case (Some e)
    with f a assms(3) show ?thesis by (intro that[OF c1 refl]) (simp add: resolve_query_def Let_def)
  qed
qed

lemma resolve_inv:
  assumes "lru_cache L items cap" "fwd_inv items cap (ds_forwarder s)" "keeps L attempt" "fe_lru (E 0) = L" "fe_lru (E 1) = L"
  shows "fwd_inv items cap (ds_forwarder (snd (snd (resolve_query E attempt q client ob s))))"
proof -
  have "cache_inv items cap (fw_cache (ds_forwarder s))" using assms(2) by (simp add: fwd_inv_def)
  then obtain c s1 where c: "cache_inv items cap c" "s1 = s\<lparr>ds_forwarder := (ds_forwarder s)\<lparr>fw_cache := c\<rparr>\<rparr>"
    "(\<exists>r. resolve_query E attempt q client ob s = (r, [], s1)) \<or> (\<exists>b. resolve_query E attempt q client ob s = forward_and_store E attempt q b s1)"
    by (rule resolve_cases[where E = E and s = s and q = q, OF assms(1) _ assms(4)]) blast
  then have "fwd_inv items cap (ds_forwarder s1)" using fwd_inv_parts(4)[OF assms(2) c(1)] by simp
  from this forward_and_store_inv[where E = E and q = q, OF assms(1) this assms(3) assms(5)] c(3) show ?thesis by auto
qed

lemma resolve_forwarded:
  assumes "lru_cache L items cap" "fwd_inv items cap (ds_forwarder s)" "keeps L attempt" "fe_lru (E 0) = L"
    and "resolve_query E attempt q client ob s = (Ok m, a # tried, s')"
  obtains c where "cache_inv items cap c" "fw_cache (ds_forwarder s') = store_response (fe_lru (E 1)) (fe_now (E 1)) q m c"
proof -
  have "cache_inv items cap (fw_cache (ds_forwarder s))" using assms(2) by (simp add: fwd_inv_def)
  then obtain c s1 b where c: "cache_inv items cap c" "s1 = s\<lparr>ds_forwarder := (ds_forwarder s)\<lparr>fw_cache := c\<rparr>\<rparr>"
      "forward_and_store E attempt q b s1 = (Ok m, a # tried, s')"
    by (rule resolve_cases[where E = E and s = s and q = q and attempt = attempt and client = client and ob = ob, OF assms(1) _ assms(4)])
       (use assms(5) in auto)
  have "fwd_inv items cap (ds_forwarder s1)" using fwd_inv_parts(4)[OF assms(2) c(1)] c(2) by simp
  from wait_inv[OF assms(1) this assms(3), of "ds_config s1" q b] c(3) show ?thesis
    by (intro that) (auto simp: forward_and_store_def fwd_inv_def split: outcome.splits prod.splits)
qed

subsection \<open>Properties\<close>

text \<open>
  C27: what an upstream server answered is answered from the cache: after a query was resolved by forwarding, a
  query for the name of one of the answer records, in any case, and for its type gets, until the time
  to live of the record is over, an answer with one record of that name, type and time to live,
  without contacting a server, provided the response has no later record of the same name and type
  and fewer later records than the cache has places.  An address record keeps its address; a record
  of any other type loses its data.
\<close>

theorem forwarded_then_cached:
  assumes "lru_cache L items cap" and "fwd_inv items cap (ds_forwarder s)" and "keeps L attempt"
    and "fe_lru (E 0) = L" and "fe_lru (E 1) = L" and "resolve_query E attempt q client ob s = (Ok m, a # tried, s')"
    and "answers m = pre @ rr # post" and "\<forall>rr'\<in>set post. \<not> (dn_eq (rr_name rr') (rr_name rr) \<and> rr_type rr' = rr_type rr)"
    and "length post < capacity (fw_cache (ds_forwarder s'))" and "dn_eq (qname q') (rr_name rr)" and "qtype q' = rr_type rr"
    and "fe_lru (E' 0) = L" and "fe_now (E' 0) < fe_now (E 1) + secs (unat (rr_ttl rr))"
  shows "\<exists>m' s''. resolve_query E' attempt' q' client' ob' s' = (Ok m', [], s'') \<and> questions m' = [q'] \<and> get_rcode m' = 0 \<and>
    answers m' = [rr_new (rr_name rr) (rr_type rr) 1 (rr_ttl rr)
      (case (rr_type rr, rr_data rr) of (RT_A, RD_A ip) \<Rightarrow> RD_A ip | (RT_AAAA, RD_AAAA ip) \<Rightarrow> RD_AAAA ip
       | _ \<Rightarrow> RD_Unknown (u16_of_record_type (rr_type rr)) [])]"
proof -
  let ?e = "answer_entry (fe_now (E 1))"
  obtain c where c: "cache_inv items cap c" "fw_cache (ds_forwarder s') = store_response L (fe_now (E 1)) q m c"
    using resolve_forwarded[OF assms(1-4,6)] assms(5) by metis
  have st: "fw_cache (ds_forwarder s') = fold (cache_insert L) (map ?e pre @ ?e rr # map ?e post) c"
    using c(2) assms(7) by (simp add: store_response_def fold_answers)
  have room: "length post < capacity c" using assms(9) unfolding st lru_cache.capacity_fold_insert[OF assms(1) c(1)] .
  have key: "cache_key d t = cache_key d' t' \<longleftrightarrow> dn_eq d d' \<and> t = t'" for d t d' t'
    by (auto simp: cache_key_def dn_eq_iff)
  have "fst (find_by_name L (fe_now (E' 0)) (qname q') (qtype q') (fw_cache (ds_forwarder s'))) = Some (?e rr)"
    unfolding st
    by (rule lru_cache.inserted_stays[OF assms(1) c(1)]) (use assms(8,10,11,13) room in \<open>auto simp: key\<close>)
  then obtain s'' where "resolve_query E' attempt' q' client' ob' s' = (Ok (build_response_from_cache q' (?e rr)), [], s'')"
    using resolve_hit[of E' q' s'] assms(12) by metis
  moreover have "entry_rdata (rr_type rr) (answer_address rr) =
      (case (rr_type rr, rr_data rr) of (RT_A, RD_A ip) \<Rightarrow> RD_A ip | (RT_AAAA, RD_AAAA ip) \<Rightarrow> RD_AAAA ip
       | _ \<Rightarrow> RD_Unknown (u16_of_record_type (rr_type rr)) [])"
    by (simp add: entry_rdata_def answer_address_def split: record_type.split rdata.split)
  ultimately show ?thesis
    using build_response_positive[OF answer_entry_flags(1), of q' "fe_now (E 1)" rr] by simp
qed

definition example_datagram :: bytes where
  "example_datagram = [0, 1, 0x80, 0, 0, 0, 0, 1, 0, 0, 0, 0, 1, 0x61, 0, 0, 1, 0, 1, 0, 0, 0, 60, 0, 4, 192, 0, 2, 9]"

definition example_answer :: dns_message where
  "example_answer = \<lparr>header = \<lparr>hdr_id = 1, hdr_flags = \<lparr>raw = 0x8000\<rparr>, hdr_qdcount = 0, hdr_ancount = 1, hdr_nscount = 0, hdr_arcount = 0\<rparr>,
     questions = [], answers = [rr_new \<lparr>dn_name = [0x61]\<rparr> RT_A 1 60 (RD_A [192, 0, 2, 9])], authority = [], additional = []\<rparr>"

lemma example_datagram_parsed: "message_from_bytes (\<lambda>_. None) example_datagram = Ok example_answer"
  by code_simp

definition example_question :: question where
  "example_question = \<lparr>qname = \<lparr>dn_name = [0x61]\<rparr>, qtype = RT_A, qclass = 1\<rparr>"

definition example_service :: "((cache_id \<times> cache_entry) list \<times> nat) dns_service" where
  "example_service = \<lparr>ds_forwarder = example_forwarder, ds_auth = None, ds_config = \<lparr>edns_packet_max = 4096, stop_dns_rebind = False\<rparr>,
     ds_trust_anchors = None\<rparr>"

definition example_attempt :: "((cache_id \<times> cache_entry) list \<times> nat) attempt" where
  "example_attempt = \<lparr>at_env = (\<lambda>_. example_fenv 1), at_recv = Received example_datagram (V4 [192, 0, 2, 1], 53), at_meanwhile = id\<rparr>"

lemma example_wait:
  assumes "fw_pool fw = example_pool"
  shows "\<exists>fw'. forward_query_and_wait (\<lambda>_. example_attempt) \<lparr>edns_packet_max = 4096, stop_dns_rebind = False\<rparr> example_question b fw =
     (Ok example_answer, [us_addr (example_server 1)], fw') \<and> fw_cache fw' = fw_cache fw"
proof -
  have "types_name_new [0x61] = Ok \<lparr>tn_inner = [0x61]\<rparr>"
    by (simp add: types_name_new_def types_labels_def types_label_error_def trim_end_def is_ascii_alphanumeric_def)
  moreover have "take 4096 example_datagram = example_datagram" by (simp add: example_datagram_def)
  ultimately show ?thesis
    using assms unfolding forward_query_and_wait_def
    by (subst wait_loop.simps)
      (simp add: example_question_def example_attempt_def select_server_def example_unmatched example_general Let_def
        example_datagram_parsed check_rebind_def)
qed

lemma find_by_name_capacity: "capacity (snd (find_by_name L now d t c)) = capacity c"
  by (simp add: find_by_name_def Let_def on_stats_def case_prod_unfold split: option.split)

lemma example_miss: "fst (find_by_name list_lru t d ty (with_capacity list_lru 2)) = None"
  using ll.find_by_name_result[OF ll.inv_with_capacity, of t d ty 2]
  by (cases "fst (find_by_name list_lru t d ty (with_capacity list_lru 2))") (auto simp: with_capacity_def)

theorem forwarded_then_cached_witness:
  "\<exists>a s' m' s''. resolve_query (\<lambda>_. example_fenv 1) (\<lambda>_. example_attempt) example_question (V4 [10, 0, 0, 9]) (Some []) example_service =
       (Ok example_answer, [a], s') \<and>
     resolve_query (\<lambda>_. example_fenv 2) (\<lambda>_. example_attempt) (example_question\<lparr>qname := \<lparr>dn_name = [0x41]\<rparr>\<rparr>) (V4 [10, 0, 0, 9]) None s' =
       (Ok m', [], s'') \<and> answers m' = answers example_answer"
proof -
  let ?c = "snd (find_by_name list_lru 1 \<lparr>dn_name = [0x61]\<rparr> RT_A (with_capacity list_lru 2))"
  obtain fw' where w: "forward_query_and_wait (\<lambda>_. example_attempt) \<lparr>edns_packet_max = 4096, stop_dns_rebind = False\<rparr> example_question []
      (example_forwarder\<lparr>fw_cache := ?c\<rparr>) = (Ok example_answer, [us_addr (example_server 1)], fw')" "fw_cache fw' = ?c"
    using example_wait[of "example_forwarder\<lparr>fw_cache := ?c\<rparr>" "[]"] by auto
  obtain s' where r: "resolve_query (\<lambda>_. example_fenv 1) (\<lambda>_. example_attempt) example_question (V4 [10, 0, 0, 9]) (Some []) example_service =
       (Ok example_answer, [us_addr (example_server 1)], s')"
    and f: "fw_cache (ds_forwarder s') = store_response list_lru 1 example_question example_answer ?c"
    using w example_miss[of 1 "\<lparr>dn_name = [0x61]\<rparr>" RT_A]
    by (simp add: resolve_query_def example_service_def forward_and_store_def Let_def case_prod_unfold example_question_def)
  have cap: "capacity (fw_cache (ds_forwarder s')) = 2"
    unfolding f store_response_def fold_answers Let_def
    by (simp add: example_answer_def ll.insert_unfold(3) ll.inv_find_by_name ll.inv_with_capacity find_by_name_capacity)
       (simp add: with_capacity_def)
  have keeps: "keeps list_lru (\<lambda>_. example_attempt)"
    by (simp add: keeps_def example_attempt_def)
  have d: "dn_eq \<lparr>dn_name = [0x41]\<rparr> \<lparr>dn_name = [0x61]\<rparr>" by (simp add: dn_eq_def eq_ignore_ascii_case_def to_lower_def)
  have "fwd_inv fst snd (ds_forwarder example_service)" by (simp add: example_service_def example_forwarder_inv)
  from forwarded_then_cached[OF ll.lru_cache_axioms this keeps _ _ r, of "[]" "rr_new \<lparr>dn_name = [0x61]\<rparr> RT_A 1 60 (RD_A [192, 0, 2, 9])" "[]"
      "example_question\<lparr>qname := \<lparr>dn_name = [0x41]\<rparr>\<rparr>" "\<lambda>_. example_fenv 2" "\<lambda>_. example_attempt" "V4 [10, 0, 0, 9]" None]
  show ?thesis using r d cap by (auto simp: example_answer_def rr_new_def example_question_def secs_def)
qed

definition host_entries :: "(bytes \<Rightarrow> bytes option) \<Rightarrow> timestamp \<Rightarrow> (bytes \<times> ip_addr list) list \<Rightarrow> cache_entry list" where
  "host_entries idna now records =
     concat (map (\<lambda>(h, addrs). case dn_new idna h of Ok d \<Rightarrow> map (host_entry now d) addrs | _ \<Rightarrow> []) records)"

lemma insert_host_records_fold: "insert_host_records L idna now records c = fold (cache_insert L) (host_entries idna now records) c"
  by (induction records arbitrary: c) (auto simp: host_entries_def fold_map comp_def split: outcome.split)

lemma service_build_cache:
  "service_build B b = Ok s \<Longrightarrow> sb_config b = Some config \<Longrightarrow> fw_cache (ds_forwarder s) =
     fold (cache_insert (be_lru B)) (host_entries (be_idna B) (be_now B) (dc_host_records config)) (cache_new (be_lru B) (dc_cache_size config))"
  by (auto simp: service_build_def Let_def rbind_Ok_iff forwarder_new_def insert_host_records_fold)

text \<open>
  A configured host record is served: for ten minutes after the start, a query for the name, in any case, and
  the type of one of its addresses is answered with the address, as an authority and without
  contacting a server, provided no later host record gives the name another address of this type and
  fewer addresses follow than the cache has places.  After the ten minutes the cache has forgotten it.
\<close>

theorem host_record_served:
  assumes "lru_cache (be_lru B) items cap" and "service_build B b = Ok s" and "sb_config b = Some config"
    and "host_entries (be_idna B) (be_now B) (dc_host_records config) = pre @ host_entry (be_now B) d addr # post"
    and "\<forall>e\<in>set post. \<not> (dn_eq (ce_domain_name e) d \<and> ce_record_type e = address_type addr)"
    and "length post < (if dc_cache_size config = 0 then 150 else dc_cache_size config)"
    and "dn_eq (qname q) d" and "qtype q = address_type addr" and "fe_lru (E 0) = be_lru B"
  shows "(fe_now (E 0) < be_now B + secs 600 \<longrightarrow>
      (\<exists>m s'. resolve_query E attempt q client ob s = (Ok m, [], s') \<and> flags_aa (hdr_flags (header m)) \<and> get_rcode m = 0 \<and>
         map rr_data (answers m) = [case addr of V4 a \<Rightarrow> RD_A a | V6 a \<Rightarrow> RD_AAAA a])) \<and>
    (be_now B + secs 600 \<le> fe_now (E 0) \<longrightarrow>
      fst (find_by_name (fe_lru (E 0)) (fe_now (E 0)) (qname q) (qtype q) (fw_cache (ds_forwarder s))) = None)"
proof -
  let ?L = "be_lru B" and ?e = "host_entry (be_now B) d addr"
  let ?c = "cache_new ?L (dc_cache_size config)" and ?f = "\<lambda>t. fst (find_by_name ?L t (qname q) (qtype q) (fw_cache (ds_forwarder s)))"
  have c: "cache_inv items cap ?c" using lru_cache.inv_with_capacity[OF assms(1)] by (simp add: cache_new_def)
  have capa: "capacity ?c = (if dc_cache_size config = 0 then 150 else dc_cache_size config)"
    by (simp add: cache_new_def with_capacity_def)
  have key: "cache_key d t = cache_key d' t' \<longleftrightarrow> dn_eq d d' \<and> t = t'" for d t d' t'
    by (auto simp: cache_key_def dn_eq_iff)
  have st: "fw_cache (ds_forwarder s) = fold (cache_insert ?L) (pre @ ?e # post) ?c"
    using service_build_cache[OF assms(2,3)] assms(4) by simp
  have hit: "t < ce_expiry ?e \<Longrightarrow> ?f t = Some ?e" for t
    unfolding st
    by (rule lru_cache.inserted_stays[OF assms(1) c]) (use assms(5-8) capa in \<open>auto simp: key host_entry_simps\<close>)
  have inv: "cache_inv items cap (fw_cache (ds_forwarder s))" unfolding st by (rule lru_cache.inv_fold_insert[OF assms(1) c])
  have "?f t = None" if "ce_expiry ?e \<le> t" for t
  proof (rule ccontr)
    assume "?f t \<noteq> None"
    then obtain x where x: "cache_map (fw_cache (ds_forwarder s)) (cache_key (qname q) (qtype q)) = Some x" "t < ce_expiry x"
      using lru_cache.find_by_name_result[OF assms(1) inv] by auto
    moreover have "cache_map (fw_cache (ds_forwarder s)) (cache_key (qname q) (qtype q)) = Some ?e"
      using lru_cache.find_by_name_result[OF assms(1) inv, of 0 "qname q" "qtype q" ?e] hit[of 0] by (simp add: host_entry_simps secs_def)
    ultimately show False using that by simp
  qed
  moreover have "rr_data (ce_record ?e) = (case addr of V4 a \<Rightarrow> RD_A a | V6 a \<Rightarrow> RD_AAAA a)"
    by (auto simp: host_entry_def entry_new_def entry_rdata_def rr_new_def split: ip_addr.split)
  ultimately show ?thesis
    using hit[of "fe_now (E 0)"] resolve_hit[of E q s ?e attempt client ob] assms(9) build_response_positive[of ?e q]
    by (auto simp: host_entry_simps)
qed

theorem host_record_served_witness:
  "\<exists>s m s'. service_build \<lparr>be_lru = list_lru, be_idna = (\<lambda>_. None), be_lc = to_ascii_lowercase, be_uc = id, be_hex = (\<lambda>_. None), be_now = 0\<rparr>
       (sbuilder_new\<lparr>sb_config := Some \<lparr>dc_cache_size = 0, dc_upstream_servers = [], dc_host_records = [([0x61, 0x2E, 0x62], [V4 [10, 0, 0, 1]])],
          dc_authoritative_zones = [], dc_dnssec_enabled = False, dc_trust_anchors = [],
          dc_forward = \<lparr>edns_packet_max = 4096, stop_dns_rebind = False\<rparr>\<rparr>\<rparr>) = Ok s \<and>
     resolve_query (\<lambda>_. example_fenv 1) (\<lambda>_. example_attempt) \<lparr>qname = example_name, qtype = RT_A, qclass = 1\<rparr> (V4 [10, 0, 0, 9]) None s =
       (Ok m, [], s') \<and> map rr_data (answers m) = [RD_A [10, 0, 0, 1]]"
proof -
  let ?B = "\<lparr>be_lru = list_lru, be_idna = (\<lambda>_. None), be_lc = to_ascii_lowercase, be_uc = id, be_hex = (\<lambda>_. None), be_now = 0\<rparr>"
  let ?cfg = "\<lparr>dc_cache_size = 0, dc_upstream_servers = [], dc_host_records = [([0x61, 0x2E, 0x62], [V4 [10, 0, 0, 1]])],
          dc_authoritative_zones = [], dc_dnssec_enabled = False, dc_trust_anchors = [],
          dc_forward = \<lparr>edns_packet_max = 4096, stop_dns_rebind = False\<rparr>\<rparr>"
  let ?b = "sbuilder_new\<lparr>sb_config := Some ?cfg\<rparr>"
  obtain s where s: "service_build ?B ?b = Ok s" by (simp add: service_build_def sbuilder_new_def Let_def)
  have n: "dn_new (\<lambda>_. None) [0x61, 0x2E, 0x62] = Ok example_name"
    using dn_new_valid[OF valid_examples(1), of "\<lambda>_. None"] by (simp add: example_name_def)
  have "host_entries (be_idna ?B) (be_now ?B) (dc_host_records ?cfg) = [] @ host_entry (be_now ?B) example_name (V4 [10, 0, 0, 1]) # []"
    by (simp add: host_entries_def n)
  from host_record_served[where B = ?B and E = "\<lambda>_. example_fenv 1", OF _ s _ this, of fst snd
      "\<lparr>qname = example_name, qtype = RT_A, qclass = 1\<rparr>" "\<lambda>_. example_attempt" "V4 [10, 0, 0, 9]" None]
  show ?thesis using s by (auto simp: ll.lru_cache_axioms address_type_def secs_def dn_eq_def eq_ignore_ascii_case_def)
qed

end
