(* ===== verification/Tftp.thy ===== *)
theory Tftp
  imports Core_Types Rust_Str "HOL-Library.AList"
begin

text \<open>
  The TFTP server (\<open>src/tftp/transfer.rs\<close> and \<open>src/tftp/server.rs\<close>): the state of a transfer with its
  block numbers at their width of 16 bits, the conversion to netascii, requests with their options, the
  check of the requested path against the root directory, and the loop over the active transfers.
  Additions wrap, as in the release profile of the crate.  Files, the file system, sockets and the clock
  are parameters of the steps that use them.
\<close>

unbundle bit_operations_syntax

subsection \<open>Transfers\<close>

datatype tftp_error =
    TftpFileNotFound
  | TftpAccessViolation reason
  | TftpIllegalOperation reason
  | TftpIoError reason

text \<open>An open file: the bytes read at a position, at most as many as asked for; \<open>None\<close> is an error.\<close>

type_synonym tftp_file = "u64 \<Rightarrow> nat \<Rightarrow> bytes option"

record transfer_state =
  ts_file :: tftp_file
  ts_block_current :: u16
  ts_block_high :: u16
  ts_peer :: sock_addr
  ts_blocksize :: u16
  ts_windowsize :: u16
  ts_timeout :: nat
  ts_start :: nat
  ts_last_activity :: nat
  ts_file_offset :: u64
  ts_netascii :: bool
  ts_carrylf :: bool
  ts_eof :: bool

definition transfer_new :: "nat \<Rightarrow> tftp_file \<Rightarrow> sock_addr \<Rightarrow> u16 \<Rightarrow> u16 \<Rightarrow> nat \<Rightarrow> bool \<Rightarrow> transfer_state" where
  "transfer_new now file peer blocksize windowsize timeout netascii =
     \<lparr>ts_file = file, ts_block_current = 0, ts_block_high = 0, ts_peer = peer, ts_blocksize = blocksize, ts_windowsize = windowsize,
      ts_timeout = timeout, ts_start = now, ts_last_activity = now, ts_file_offset = 0, ts_netascii = netascii, ts_carrylf = False,
      ts_eof = False\<rparr>"

abbreviation LF :: u8 where "LF \<equiv> 10"
abbreviation CR :: u8 where "CR \<equiv> 13"

text \<open>The loop over the data: the output so far, the bytes consumed and the line feed carried over.\<close>

fun netascii_loop :: "nat \<Rightarrow> bytes \<Rightarrow> bytes \<Rightarrow> nat \<Rightarrow> bytes \<times> nat \<times> bool" where
  "netascii_loop blocksize [] output consumed = (output, consumed, False)"
| "netascii_loop blocksize (byte # data) output consumed =
     (if byte = LF then
        if length output + 2 > blocksize then (output @ [LF], consumed + 1, True)
        else netascii_loop blocksize data (output @ [CR, LF]) (consumed + 1)
      else if length output \<ge> blocksize then (output, consumed, False)
      else netascii_loop blocksize data (output @ [byte]) (consumed + 1))"

definition netascii_convert :: "bytes \<Rightarrow> transfer_state \<Rightarrow> (bytes \<times> nat) \<times> transfer_state" where
  "netascii_convert data ts =
     (let (output, consumed, carry) = netascii_loop (unat (ts_blocksize ts)) data (if ts_carrylf ts then [CR] else []) 0 in
      ((take (unat (ts_blocksize ts)) output, consumed), ts\<lparr>ts_carrylf := carry\<rparr>))"

definition get_block :: "u16 \<Rightarrow> transfer_state \<Rightarrow> (bytes, tftp_error) outcome \<times> transfer_state" where
  "get_block block ts =
     (if block = 0 then (Ok [], ts)
      else
        let position = (if ts_netascii ts \<and> ts_block_current ts > 0 then ts_file_offset ts
              else (ucast block - 1) * ucast (ts_blocksize ts));
            read_size = (if ts_netascii ts then unat (ts_blocksize ts) * 2 else unat (ts_blocksize ts)) in
        (case ts_file ts position read_size of
           None \<Rightarrow> (Err (TftpIoError ''Failed to read block''), ts)
         | Some buffer \<Rightarrow>
             let n = length buffer;
                 ((final_data, input_consumed), ts) = (if ts_netascii ts
                    then let ((data, consumed), ts) = netascii_convert buffer ts;
                             ts = (if consumed < unat (ts_blocksize ts) \<and> n < read_size then ts\<lparr>ts_eof := True\<rparr> else ts) in
                         ((data, consumed), ts)
                    else ((buffer, n), if n < unat (ts_blocksize ts) then ts\<lparr>ts_eof := True\<rparr> else ts)) in
             (Ok final_data, ts\<lparr>ts_block_current := block, ts_file_offset := position + of_nat input_consumed\<rparr>)))"

definition is_complete :: "transfer_state \<Rightarrow> bool" where
  "is_complete ts = ts_eof ts"

definition is_timeout :: "nat \<Rightarrow> transfer_state \<Rightarrow> bool" where
  "is_timeout now ts \<longleftrightarrow> ts_timeout ts < now - ts_last_activity ts"

definition advance_window :: "nat \<Rightarrow> u16 \<Rightarrow> transfer_state \<Rightarrow> transfer_state" where
  "advance_window now ack_block ts =
     (let ts = (if ack_block > ts_block_high ts then ts\<lparr>ts_block_high := ack_block\<rparr> else ts) in ts\<lparr>ts_last_activity := now\<rparr>)"

definition handle_ack :: "nat \<Rightarrow> u16 \<Rightarrow> transfer_state \<Rightarrow> (unit, tftp_error) outcome \<times> transfer_state" where
  "handle_ack now ack_block ts =
     (if ack_block > ts_block_current ts then (Err (TftpIllegalOperation ''ACK block exceeds current block''), ts)
      else (Ok (), advance_window now ack_block ts))"

subsection \<open>Packets\<close>

datatype tftp_opcode = RRQ | WRQ | DATA | ACK | ERROR | OACK

definition opcode_of_u16 :: "u16 \<Rightarrow> tftp_opcode option" where
  "opcode_of_u16 v = (if v = 1 then Some RRQ else if v = 2 then Some WRQ else if v = 3 then Some DATA
     else if v = 4 then Some ACK else if v = 5 then Some ERROR else if v = 6 then Some OACK else None)"

datatype tftp_error_code = TE_Undefined | TE_FileNotFound | TE_AccessViolation | TE_DiskFull | TE_IllegalOperation | TE_UnknownTid
  | TE_FileExists | TE_NoSuchUser

fun u16_of_error_code :: "tftp_error_code \<Rightarrow> u16" where
  "u16_of_error_code TE_Undefined = 0"
| "u16_of_error_code TE_FileNotFound = 1"
| "u16_of_error_code TE_AccessViolation = 2"
| "u16_of_error_code TE_DiskFull = 3"
| "u16_of_error_code TE_IllegalOperation = 4"
| "u16_of_error_code TE_UnknownTid = 5"
| "u16_of_error_code TE_FileExists = 6"
| "u16_of_error_code TE_NoSuchUser = 7"

definition build_oack_packet :: "(bytes \<times> bytes) list \<Rightarrow> bytes" where
  "build_oack_packet options = put_u16 6 @ concat (map (\<lambda>(key, value). key @ [0] @ value @ [0]) options)"

definition build_error_packet :: "tftp_error_code \<Rightarrow> bytes \<Rightarrow> bytes" where
  "build_error_packet error_code message = put_u16 5 @ put_u16 (u16_of_error_code error_code) @ message @ [0]"

definition build_data_packet :: "u16 \<Rightarrow> bytes \<Rightarrow> bytes" where
  "build_data_packet block data = put_u16 3 @ put_u16 block @ data"

subsection \<open>Acknowledgements\<close>

text \<open>
  The blocks of a window: \<open>send_ok\<close> tells which packets the socket takes.  The packets sent are those
  before the first error.
\<close>

fun send_window :: "(nat \<Rightarrow> bool) \<Rightarrow> u16 \<Rightarrow> nat \<Rightarrow> nat \<Rightarrow> transfer_state \<Rightarrow> (unit, tftp_error) outcome \<times> bytes list \<times> transfer_state" where
  "send_window send_ok next_block offset 0 ts = (Ok (), [], ts)"
| "send_window send_ok next_block offset (Suc k) ts =
     (let block_num = next_block + of_nat offset in
      case get_block block_num ts of
        (Ok block_data, ts) \<Rightarrow>
          if \<not> send_ok offset then (Err (TftpIoError ''Failed to send DATA block''), [], ts)
          else
            let packet = build_data_packet block_num block_data in
            if is_complete ts then (Ok (), [packet], ts)
            else (case send_window send_ok next_block (offset + 1) k ts of (r, sent, ts) \<Rightarrow> (r, packet # sent, ts))
      | (Err e, ts) \<Rightarrow> (Err e, [], ts)
      | (Panic, ts) \<Rightarrow> (Panic, [], ts))"

definition handle_tftp_packet :: "nat \<Rightarrow> (nat \<Rightarrow> bool) \<Rightarrow> bytes \<Rightarrow> transfer_state \<Rightarrow> (unit, tftp_error) outcome \<times> bytes list \<times> transfer_state" where
  "handle_tftp_packet now send_ok buf ts =
     (if length buf < 2 then (Err (TftpIllegalOperation ''Packet too short''), [], ts)
      else (case opcode_of_u16 (be16 (buf ! 0) (buf ! 1)) of
        None \<Rightarrow> (Err (TftpIllegalOperation ''Invalid opcode''), [], ts)
      | Some ACK \<Rightarrow>
          if length buf < 4 then (Err (TftpIllegalOperation ''ACK packet too short''), [], ts)
          else (case handle_ack now (be16 (buf ! 2) (buf ! 3)) ts of
                  (Ok _, ts) \<Rightarrow> send_window send_ok (ts_block_high ts + 1) 0 (unat (ts_windowsize ts)) ts
                | (Err e, ts) \<Rightarrow> (Err e, [], ts)
                | (Panic, ts) \<Rightarrow> (Panic, [], ts))
      | Some ERROR \<Rightarrow>
          if length buf < 4 then (Err (TftpIllegalOperation ''ERROR packet too short''), [], ts)
          else (Err (TftpIllegalOperation ''Client error''), [], ts)
      | Some _ \<Rightarrow> (Err (TftpIllegalOperation ''Unexpected opcode''), [], ts)))"

subsection \<open>Requests\<close>

datatype transfer_mode = Netascii | Octet

text \<open>\<open>lc\<close> is \<open>str::to_lowercase\<close>, \<open>lossy\<close> is \<open>String::from_utf8_lossy\<close>.\<close>

definition mode_of_str :: "(bytes \<Rightarrow> bytes) \<Rightarrow> bytes \<Rightarrow> transfer_mode option" where
  "mode_of_str lc s = (let l = lc s in if l = ascii ''netascii'' then Some Netascii else if l = ascii ''octet'' then Some Octet else None)"

record tftp_rrq =
  rq_filename :: bytes
  rq_mode :: transfer_mode
  rq_options :: "(bytes \<times> bytes) list"

definition parse_null_terminated_string :: "(bytes \<Rightarrow> bytes) \<Rightarrow> bytes \<Rightarrow> (bytes \<times> bytes) option" where
  "parse_null_terminated_string lossy input =
     (if 0 \<in> set input then Some (tl (dropWhile (\<lambda>b. b \<noteq> 0) input), lossy (takeWhile (\<lambda>b. b \<noteq> 0) input)) else None)"

text \<open>\<open>many0\<close> of pairs of strings: it stops at the first pair that does not parse.\<close>

lemma null_terminated_shorter:
  assumes "parse_null_terminated_string lossy s = Some (r, x)"
  shows "length r < length s"
proof -
  have "length (dropWhile (\<lambda>b. b \<noteq> 0) s) \<le> length s" by (simp add: length_dropWhile_le)
  moreover have "dropWhile (\<lambda>b. b \<noteq> 0) s \<noteq> []" using assms by (auto simp: parse_null_terminated_string_def split: if_splits)
  ultimately show ?thesis using assms
    by (cases "dropWhile (\<lambda>b. b \<noteq> 0) s") (auto simp: parse_null_terminated_string_def split: if_splits)
qed

function option_pairs :: "(bytes \<Rightarrow> bytes) \<Rightarrow> bytes \<Rightarrow> (bytes \<times> bytes) list" where
  "option_pairs lossy input =
     (case parse_null_terminated_string lossy input of
        None \<Rightarrow> []
      | Some (remaining, key) \<Rightarrow>
          (case parse_null_terminated_string lossy remaining of
             None \<Rightarrow> []
           | Some (remaining, value) \<Rightarrow> (key, value) # option_pairs lossy remaining))"
  by pat_completeness auto
termination by (relation "measure (\<lambda>(_, s). length s)") (auto dest!: null_terminated_shorter)

declare option_pairs.simps [simp del]

definition parse_rrq :: "(bytes \<Rightarrow> bytes) \<Rightarrow> (bytes \<Rightarrow> bytes) \<Rightarrow> bytes \<Rightarrow> tftp_rrq option" where
  "parse_rrq lc lossy input =
     (case parse_null_terminated_string lossy input of
        None \<Rightarrow> None
      | Some (remaining, filename) \<Rightarrow>
          (case parse_null_terminated_string lossy remaining of
             None \<Rightarrow> None
           | Some (remaining, mode_str) \<Rightarrow>
               Some \<lparr>rq_filename = filename, rq_mode = (case mode_of_str lc mode_str of Some m \<Rightarrow> m | None \<Rightarrow> Octet),
                 rq_options = fold (\<lambda>(key, value). AList.update (lc key) value) (option_pairs lossy remaining) []\<rparr>))"

subsection \<open>File access\<close>

text \<open>
  Paths as the bytes of their names.  A canonical path is absolute and has no empty, \<open>.\<close> or \<open>..\<close>
  components, so its components are the pieces between slashes.
\<close>

definition components :: "bytes \<Rightarrow> bytes list" where
  "components path = filter (\<lambda>c. c \<noteq> []) (split_on 0x2F path)"

definition path_starts_with :: "bytes \<Rightarrow> bytes \<Rightarrow> bool" where
  "path_starts_with path base \<longleftrightarrow> take (length (components base)) (components path) = components base"

definition path_join :: "bytes \<Rightarrow> bytes \<Rightarrow> bytes" where
  "path_join base p =
     (if starts_with [0x2F] p then p else if base = [] \<or> last base = 0x2F then base @ p else base @ [0x2F] @ p)"

datatype fs_failure = FS_NotFound | FS_PermissionDenied | FS_Other

record file_metadata =
  md_is_file :: bool
  md_uid :: nat
  md_len :: nat

text \<open>The file system: canonical paths, attributes and open files.\<close>

record file_system =
  fs_canonicalize :: "bytes \<Rightarrow> (bytes, fs_failure) outcome"
  fs_metadata :: "bytes \<Rightarrow> (file_metadata, fs_failure) outcome"
  fs_open :: "bytes \<Rightarrow> (tftp_file, fs_failure) outcome"

record tftp_config =
  tftp_prefix :: "bytes option"
  tftp_mtu :: u16
  tftp_secure :: bool

definition get_root_directory :: "tftp_config \<Rightarrow> bytes option" where
  "get_root_directory cfg = tftp_prefix cfg"

text \<open>The file is returned with the path it was opened by.\<close>

definition check_tftp_fileperm :: "file_system \<Rightarrow> nat \<Rightarrow> tftp_config \<Rightarrow> bytes \<Rightarrow> (bytes \<times> tftp_file, tftp_error) outcome" where
  "check_tftp_fileperm fs our_uid cfg path =
     rbind (map_err (\<lambda>e. if e = FS_NotFound then TftpFileNotFound else TftpIoError ''Failed to canonicalize'') (fs_canonicalize fs path)) (\<lambda>canonical_path.
     rbind (case get_root_directory cfg of Some r \<Rightarrow> Ok r | None \<Rightarrow> Err (TftpAccessViolation ''No TFTP root configured'')) (\<lambda>root_dir.
     rbind (map_err (\<lambda>_. TftpIoError ''Failed to canonicalize root'') (fs_canonicalize fs root_dir)) (\<lambda>canonical_root.
     if \<not> path_starts_with canonical_path canonical_root then Err (TftpAccessViolation ''Path outside TFTP root'')
     else
       rbind (map_err (\<lambda>e. if e = FS_NotFound then TftpFileNotFound else TftpIoError ''Failed to get metadata'') (fs_metadata fs canonical_path)) (\<lambda>metadata.
       if \<not> md_is_file metadata then Err (TftpAccessViolation ''Not a regular file'')
       else if tftp_secure cfg \<and> md_uid metadata \<noteq> our_uid then Err (TftpAccessViolation ''File not owned by dnsmasq user'')
       else
         rbind (map_err (\<lambda>e. if e = FS_PermissionDenied then TftpAccessViolation ''Permission denied'' else TftpIoError ''Failed to open file'')
                 (fs_open fs canonical_path)) (\<lambda>file. Ok (canonical_path, file))))))"

subsection \<open>Option negotiation\<close>

record negotiated =
  ng_options :: "(bytes \<times> bytes) list"
  ng_blksize :: u16
  ng_timeout_secs :: u8
  ng_windowsize :: u16

definition TFTP_MAX_WINDOW :: u16 where "TFTP_MAX_WINDOW = 32"
definition TFTP_MAX_CONNECTIONS :: nat where "TFTP_MAX_CONNECTIONS = 50"

definition sat_sub16 :: "u16 \<Rightarrow> u16 \<Rightarrow> u16" where
  "sat_sub16 a b = (if a < b then 0 else a - b)"

definition negotiate_blksize :: "tftp_config \<Rightarrow> tftp_rrq \<Rightarrow> negotiated \<Rightarrow> negotiated" where
  "negotiate_blksize cfg rrq ng =
     (case map_of (rq_options rrq) (ascii ''blksize'') of
        None \<Rightarrow> ng
      | Some s \<Rightarrow>
          (case parse_dec 65535 s of
             None \<Rightarrow> ng
           | Some v \<Rightarrow>
               let clamped_blksize = max 8 (min (of_nat v) 65464);
                   blksize = min clamped_blksize (sat_sub16 (tftp_mtu cfg) 28) in
               ng\<lparr>ng_blksize := blksize, ng_options := AList.update (ascii ''blksize'') (show_dec (unat blksize)) (ng_options ng)\<rparr>))"

definition negotiate_tsize :: "nat \<Rightarrow> tftp_rrq \<Rightarrow> negotiated \<Rightarrow> negotiated" where
  "negotiate_tsize file_size rrq ng =
     (if map_of (rq_options rrq) (ascii ''tsize'') \<noteq> None
      then ng\<lparr>ng_options := AList.update (ascii ''tsize'') (show_dec file_size) (ng_options ng)\<rparr> else ng)"

definition negotiate_timeout :: "tftp_rrq \<Rightarrow> negotiated \<Rightarrow> negotiated" where
  "negotiate_timeout rrq ng =
     (case map_of (rq_options rrq) (ascii ''timeout'') of
        None \<Rightarrow> ng
      | Some s \<Rightarrow>
          (case parse_dec 255 s of
             None \<Rightarrow> ng
           | Some v \<Rightarrow>
               let t = max (of_nat v) 1 in
               ng\<lparr>ng_timeout_secs := t, ng_options := AList.update (ascii ''timeout'') (show_dec (unat t)) (ng_options ng)\<rparr>))"

definition negotiate_windowsize :: "tftp_rrq \<Rightarrow> negotiated \<Rightarrow> negotiated" where
  "negotiate_windowsize rrq ng =
     (case map_of (rq_options rrq) (ascii ''windowsize'') of
        None \<Rightarrow> ng
      | Some s \<Rightarrow>
          (case parse_dec 65535 s of
             None \<Rightarrow> ng
           | Some v \<Rightarrow>
               let w = min (max (of_nat v) 1) TFTP_MAX_WINDOW in
               ng\<lparr>ng_windowsize := w, ng_options := AList.update (ascii ''windowsize'') (show_dec (unat w)) (ng_options ng)\<rparr>))"

definition negotiate :: "tftp_config \<Rightarrow> nat \<Rightarrow> tftp_rrq \<Rightarrow> negotiated" where
  "negotiate cfg file_size rrq =
     negotiate_windowsize rrq (negotiate_timeout rrq (negotiate_tsize file_size rrq (negotiate_blksize cfg rrq
       \<lparr>ng_options = [], ng_blksize = 512, ng_timeout_secs = 5, ng_windowsize = 1\<rparr>)))"

subsection \<open>The server\<close>

record tftp_server =
  tv_config :: tftp_config
  tv_transfers :: "transfer_state list"

definition tftp_new :: "tftp_config \<Rightarrow> tftp_server" where
  "tftp_new cfg = \<lparr>tv_config = cfg, tv_transfers = []\<rparr>"

text \<open>
  The environment of a step: the string conversions, the order in which a hash map is iterated, the
  file system, the user id, the length of an open file, the clock, and which socket operations succeed.
\<close>

record tftp_env =
  te_lc :: "bytes \<Rightarrow> bytes"
  te_lossy :: "bytes \<Rightarrow> bytes"
  te_iter :: "(bytes \<times> bytes) list \<Rightarrow> (bytes \<times> bytes) list"
  te_fs :: file_system
  te_uid :: nat
  te_file_len :: "bytes \<Rightarrow> nat option"
  te_now :: nat
  te_listener_ok :: bool
  te_socket_ok :: bool
  te_send_ok :: "nat \<Rightarrow> bool"

type_synonym tftp_result = "(unit, tftp_error) outcome \<times> (bytes \<times> sock_addr) list \<times> tftp_server"

definition send_error :: "tftp_env \<Rightarrow> sock_addr \<Rightarrow> tftp_error_code \<Rightarrow> bytes \<Rightarrow> tftp_server \<Rightarrow> tftp_result" where
  "send_error E peer error_code message v =
     (if te_listener_ok E then (Ok (), [(build_error_packet error_code message, peer)], v)
      else (Err (TftpIoError ''Failed to send ERROR''), [], v))"

definition error_reply :: "tftp_error \<Rightarrow> tftp_error_code \<times> bytes" where
  "error_reply e =
     (case e of TftpFileNotFound \<Rightarrow> (TE_FileNotFound, ascii ''File not found'')
      | TftpAccessViolation _ \<Rightarrow> (TE_AccessViolation, ascii ''Access denied'')
      | _ \<Rightarrow> (TE_Undefined, ascii ''File error''))"

text \<open>The second half of a read request: the file is open, the options are negotiated.\<close>

definition start_transfer :: "tftp_env \<Rightarrow> tftp_rrq \<Rightarrow> tftp_file \<Rightarrow> negotiated \<Rightarrow> sock_addr \<Rightarrow> tftp_server \<Rightarrow> tftp_result" where
  "start_transfer E rrq file ng peer v =
     (if \<not> te_socket_ok E then (Err (TftpIoError ''Failed to bind transfer socket''), [], v)
      else
        let ts = transfer_new (te_now E) file peer (ng_blksize ng) (ng_windowsize ng) (secs (unat (ng_timeout_secs ng))) (rq_mode rrq = Netascii) in
        if ng_options ng = [] then
          (case get_block 1 ts of
             (Ok block_data, ts) \<Rightarrow>
               if te_send_ok E 0 then (Ok (), [(build_data_packet 1 block_data, peer)], v\<lparr>tv_transfers := tv_transfers v @ [ts]\<rparr>)
               else (Err (TftpIoError ''Failed to send first DATA''), [], v)
           | (Err e, _) \<Rightarrow> (Err e, [], v)
           | (Panic, _) \<Rightarrow> (Panic, [], v))
        else if te_send_ok E 0
          then (Ok (), [(build_oack_packet (te_iter E (ng_options ng)), peer)], v\<lparr>tv_transfers := tv_transfers v @ [ts]\<rparr>)
        else (Err (TftpIoError ''Failed to send OACK''), [], v))"

definition handle_rrq :: "tftp_env \<Rightarrow> bytes \<Rightarrow> sock_addr \<Rightarrow> tftp_server \<Rightarrow> tftp_result" where
  "handle_rrq E buf peer v =
     (case parse_rrq (te_lc E) (te_lossy E) buf of
        None \<Rightarrow> send_error E peer TE_IllegalOperation (ascii ''Malformed RRQ'') v
      | Some rrq \<Rightarrow>
          if length (tv_transfers v) \<ge> TFTP_MAX_CONNECTIONS
          then send_error E peer TE_Undefined (ascii ''Server busy, try again later'') v
          else (case get_root_directory (tv_config v) of
            None \<Rightarrow> send_error E peer TE_AccessViolation (ascii ''TFTP not enabled'') v
          | Some root_dir \<Rightarrow>
              (case check_tftp_fileperm (te_fs E) (te_uid E) (tv_config v) (path_join root_dir (rq_filename rrq)) of
                 Err e \<Rightarrow> (case error_reply e of (error_code, msg) \<Rightarrow> send_error E peer error_code msg v)
               | Panic \<Rightarrow> (Panic, [], v)
               | Ok (opened, file) \<Rightarrow>
                   (case te_file_len E opened of
                      None \<Rightarrow> (Err (TftpIoError ''Failed to get metadata''), [], v)
                    | Some file_size \<Rightarrow> start_transfer E rrq file (negotiate (tv_config v) file_size rrq) peer v))))"

definition tftp_request :: "tftp_env \<Rightarrow> bytes \<Rightarrow> sock_addr \<Rightarrow> tftp_server \<Rightarrow> tftp_result" where
  "tftp_request E buf peer v =
     (if length buf < 2 then send_error E peer TE_IllegalOperation (ascii ''Packet too short'') v
      else (case opcode_of_u16 (be16 (buf ! 0) (buf ! 1)) of
        None \<Rightarrow> send_error E peer TE_IllegalOperation (ascii ''Invalid opcode'') v
      | Some RRQ \<Rightarrow> handle_rrq E (drop 2 buf) peer v
      | Some WRQ \<Rightarrow> send_error E peer TE_AccessViolation (ascii ''Write not allowed'') v
      | Some _ \<Rightarrow> send_error E peer TE_IllegalOperation (ascii ''Use RRQ'') v))"

text \<open>What polling the socket of a transfer gives within a millisecond.\<close>

datatype poll = Packet bytes | SocketFailed | Nothing

text \<open>One transfer of \<open>process_active_transfers\<close>: what it sends, and its state unless it is removed.\<close>

definition process_transfer :: "nat \<Rightarrow> (nat \<Rightarrow> bool) \<Rightarrow> poll \<Rightarrow> transfer_state \<Rightarrow> bytes list \<times> transfer_state option" where
  "process_transfer now send_ok p ts =
     (if is_timeout now ts then ([], None)
      else if is_complete ts then ([], None)
      else (case p of
        Packet buf \<Rightarrow>
          (case handle_tftp_packet now send_ok (take 1024 buf) ts of
             (Ok _, sent, ts) \<Rightarrow> (sent, Some ts)
           | (_, sent, _) \<Rightarrow> (sent, None))
      | SocketFailed \<Rightarrow> ([], None)
      | Nothing \<Rightarrow> ([], Some ts)))"

text \<open>The times, sockets and packets of the transfers, by their position.\<close>

definition process_active_transfers :: "(nat \<Rightarrow> nat \<times> (nat \<Rightarrow> bool) \<times> poll) \<Rightarrow> tftp_server \<Rightarrow> (bytes \<times> sock_addr) list \<times> tftp_server" where
  "process_active_transfers io v =
     (let rs = map (\<lambda>(i, ts). (ts_peer ts, case io i of (now, send_ok, p) \<Rightarrow> process_transfer now send_ok p ts))
                 (enumerate 0 (tv_transfers v)) in
      (concat (map (\<lambda>(peer, sent, _). map (\<lambda>b. (b, peer)) sent) rs), v\<lparr>tv_transfers := List.map_filter (\<lambda>(_, _, r). r) rs\<rparr>))"

datatype tftp_event = Request tftp_env bytes sock_addr | ListenerFailed | Poll "nat \<Rightarrow> nat \<times> (nat \<Rightarrow> bool) \<times> poll"

definition check_tftp_listeners :: "tftp_event \<Rightarrow> tftp_server \<Rightarrow> (bytes \<times> sock_addr) list \<times> tftp_server" where
  "check_tftp_listeners ev v =
     (case ev of
        Request E buf peer \<Rightarrow> (case tftp_request E buf peer v of (_, sent, v) \<Rightarrow> (sent, v))
      | ListenerFailed \<Rightarrow> ([], v)
      | Poll io \<Rightarrow> process_active_transfers io v)"

subsection \<open>Blocks of a file\<close>

text \<open>The \<open>i\<close>-th block of a file, counted from 1, and the number of blocks: the last one is shorter than a block.\<close>

definition block_of :: "nat \<Rightarrow> bytes \<Rightarrow> nat \<Rightarrow> bytes" where
  "block_of bs content i = take bs (drop ((i - 1) * bs) content)"

definition block_count :: "nat \<Rightarrow> bytes \<Rightarrow> nat" where
  "block_count bs content = length content div bs + 1"

definition reads :: "bytes \<Rightarrow> transfer_state \<Rightarrow> bool" where
  "reads content ts \<longleftrightarrow> (\<forall>p n. ts_file ts p n = Some (take n (drop (unat p) content)))"

lemma block_short_iff:
  assumes "0 < bs" "1 \<le> i" "i \<le> block_count bs content"
  shows "length (block_of bs content i) < bs \<longleftrightarrow> i = block_count bs content"
proof -
  let ?q = "length content div bs"
  have l: "length content = ?q * bs + length content mod bs" "length content mod bs < bs" using assms(1) by simp_all
  show ?thesis
  proof (cases "i = ?q + 1")
    case True
    then have "length content - (i - 1) * bs = length content mod bs" by (simp add: minus_div_mult_eq_mod)
    with True l(2) show ?thesis by (simp add: block_of_def block_count_def)
  next
    case False
    then have "i * bs \<le> ?q * bs" using assms(3) by (intro mult_right_mono) (auto simp: block_count_def)
    moreover have "(i - 1) * bs + bs = i * bs" using assms(2) by (cases i) auto
    ultimately have "bs \<le> length content - (i - 1) * bs" using l(1) by linarith
    with False show ?thesis by (simp add: block_of_def block_count_def)
  qed
qed

lemma blocks_append:
  "1 \<le> i \<Longrightarrow> take (i * bs) content @ block_of bs content (Suc i) = take (Suc i * bs) content"
  by (simp add: block_of_def take_add[symmetric] add.commute)

lemma u16_bound: "unat (w :: u16) < 65536"
  using unsigned_less[of w, where 'a = nat] by simp

lemma unat_position:
  "block \<noteq> (0 :: u16) \<Longrightarrow> unat ((ucast block - 1 :: u64) * ucast (bs :: u16)) = (unat block - 1) * unat bs"
proof -
  assume b: "block \<noteq> 0"
  have u: "unat (ucast block :: u64) = unat block" "unat (ucast bs :: u64) = unat bs"
    using less_trans[OF u16_bound[of block], of "2 ^ 64"] less_trans[OF u16_bound[of bs], of "2 ^ 64"]
    by (simp_all add: unsigned_ucast_eq take_bit_nat_eq_self)
  have "(1 :: u64) \<le> ucast block" using b by (simp add: word_le_nat_alt u unat_gt_0 Suc_leI unat_eq_zero)
  then have d: "unat (ucast block - 1 :: u64) = unat block - 1" by (simp add: unat_sub u)
  have "unat block - 1 < 2 ^ 16" "unat bs < 2 ^ 16" using u16_bound[of block] u16_bound[of bs] by (simp_all add: less_imp_diff_less)
  then have "(unat block - 1) * unat bs < 2 ^ 16 * 2 ^ 16" by (intro mult_strict_mono) auto
  then show ?thesis by (subst unat_mult_lem[THEN iffD1]) (simp_all add: d u)
qed

lemma get_block_octet:
  assumes "reads content ts" "\<not> ts_netascii ts" "block \<noteq> 0"
  shows "get_block block ts = (let d = block_of (unat (ts_blocksize ts)) content (unat block) in
    (Ok d, ts\<lparr>ts_eof := ts_eof ts \<or> length d < unat (ts_blocksize ts), ts_block_current := block,
       ts_file_offset := (ucast block - 1) * ucast (ts_blocksize ts) + of_nat (length d)\<rparr>))"
proof -
  let ?d = "block_of (unat (ts_blocksize ts)) content (unat block)"
  have "ts_file ts ((ucast block - 1) * ucast (ts_blocksize ts)) (unat (ts_blocksize ts)) = Some ?d"
    using assms(1,3) by (simp add: reads_def block_of_def unat_position)
  then show ?thesis
    using assms(2,3) by (cases "length ?d < unat (ts_blocksize ts)"; cases "ts_eof ts") (simp_all add: get_block_def Let_def)
qed

text \<open>The part of a transfer that stays: an octet transfer of a file of not more than 65535 blocks.\<close>

definition octet_transfer :: "bytes \<Rightarrow> transfer_state \<Rightarrow> bool" where
  "octet_transfer content ts \<longleftrightarrow> reads content ts \<and> \<not> ts_netascii ts \<and> 0 < ts_blocksize ts \<and> 0 < ts_windowsize ts \<and>
     block_count (unat (ts_blocksize ts)) content \<le> 65535"

definition same_transfer :: "transfer_state \<Rightarrow> transfer_state \<Rightarrow> bool" where
  "same_transfer ts ts' \<longleftrightarrow> ts_file ts' = ts_file ts \<and> ts_netascii ts' = ts_netascii ts \<and> ts_blocksize ts' = ts_blocksize ts \<and>
     ts_windowsize ts' = ts_windowsize ts \<and> ts_block_high ts' = ts_block_high ts"

lemma send_window_octet:
  assumes "octet_transfer content ts" "\<forall>i. ok i" "1 \<le> unat nb" "\<not> ts_eof ts"
    and "unat nb + off \<le> block_count (unat (ts_blocksize ts)) content" "0 < k"
  shows "\<exists>ts' m. 0 < m \<and> m \<le> k \<and> unat nb + off + m \<le> block_count (unat (ts_blocksize ts)) content + 1 \<and>
    send_window ok nb off k ts =
      (Ok (), map (\<lambda>i. build_data_packet (of_nat i) (block_of (unat (ts_blocksize ts)) content i)) [unat nb + off ..< unat nb + off + m], ts') \<and>
    same_transfer ts ts' \<and> unat (ts_block_current ts') = unat nb + off + m - 1 \<and>
    ts_eof ts' = (unat nb + off + m = block_count (unat (ts_blocksize ts)) content + 1)"
  using assms(1,4-6)
proof (induction k arbitrary: off ts)
  case (Suc k)
  let ?bs = "unat (ts_blocksize ts)" let ?N = "block_count ?bs content" and ?i = "unat nb + off"
  let ?b = "nb + of_nat off" let ?d = "block_of ?bs content ?i"
  have i: "?i < 65536" "1 \<le> ?i" using Suc.prems(1,3) assms(3) by (auto simp: octet_transfer_def)
  have ub: "unat ?b = ?i" using i(1) by (simp add: unat_word_ariths unat_of_nat)
  then have b: "?b \<noteq> 0" "?b = of_nat ?i" using i(2) by (metis unat_0 not_one_le_zero, simp)
  have bs: "0 < ?bs" using Suc.prems(1) by (simp add: octet_transfer_def word_less_nat_alt)
  have r: "reads content ts" "\<not> ts_netascii ts" using Suc.prems(1) by (simp_all add: octet_transfer_def)
  define ts1 where "ts1 = ts\<lparr>ts_eof := (?i = ?N), ts_block_current := ?b,
    ts_file_offset := (ucast ?b - 1) * ucast (ts_blocksize ts) + of_nat (length ?d)\<rparr>"
  have "get_block ?b ts = (Ok ?d, ts1)"
    unfolding get_block_octet[OF r b(1)] ub Let_def ts1_def block_short_iff[OF bs i(2) Suc.prems(3)] using Suc.prems(2) by simp
  moreover have "ts_eof ts1 = (?i = ?N)" "same_transfer ts ts1" "ts_block_current ts1 = ?b" by (simp_all add: ts1_def same_transfer_def)
  moreover have "octet_transfer content ts1" using Suc.prems(1) by (simp add: ts1_def octet_transfer_def reads_def)
  ultimately have g: "get_block ?b ts = (Ok ?d, ts1)" "ts_eof ts1 = (?i = ?N)" "same_transfer ts ts1" "ts_block_current ts1 = ?b"
    "octet_transfer content ts1" by blast+
  show ?case
  proof (cases "?i = ?N \<or> k = 0")
    case True
    then have "send_window ok nb off (Suc k) ts = (Ok (), [build_data_packet ?b ?d], ts1)"
      using g(1,2) assms(2) by (auto simp: is_complete_def)
    moreover have "[?i ..< ?i + 1] = [?i]" by simp
    ultimately show ?thesis using g(2-4) ub True Suc.prems(3)
      by (intro exI[of _ ts1] exI[of _ "1 :: nat"]) simp
  next
    case False
    then have "\<not> ts_eof ts1" "unat nb + Suc off \<le> block_count (unat (ts_blocksize ts1)) content" "0 < k"
      using g(2,3) Suc.prems(3) by (auto simp: same_transfer_def)
    from Suc.IH[OF g(5) this] obtain ts' m where m: "0 < m" "m \<le> k" "unat nb + Suc off + m \<le> block_count (unat (ts_blocksize ts1)) content + 1"
      "send_window ok nb (Suc off) k ts1 = (Ok (), map (\<lambda>i. build_data_packet (of_nat i) (block_of (unat (ts_blocksize ts1)) content i))
          [unat nb + Suc off ..< unat nb + Suc off + m], ts')"
      "same_transfer ts1 ts'" "unat (ts_block_current ts') = unat nb + Suc off + m - 1"
      "ts_eof ts' = (unat nb + Suc off + m = block_count (unat (ts_blocksize ts1)) content + 1)"
      by blast
    then have "send_window ok nb off (Suc k) ts = (Ok (), map (\<lambda>i. build_data_packet (of_nat i) (block_of ?bs content i)) [?i ..< ?i + Suc m], ts')"
      using False g assms(2) by (simp add: is_complete_def same_transfer_def upt_conv_Cons Let_def)
    with m g(3) show ?thesis by (intro exI[of _ ts'] exI[of _ "Suc m"]) (auto simp: same_transfer_def)
  qed
qed simp

subsection \<open>A client\<close>

text \<open>
  A client that acknowledges the last block it received, and receives the next window in order, until the
  server has sent the last block; the result is the data received.
\<close>

fun client_run :: "nat \<Rightarrow> nat \<Rightarrow> u16 \<Rightarrow> transfer_state \<Rightarrow> bytes \<times> transfer_state" where
  "client_run now 0 ack ts = ([], ts)"
| "client_run now (Suc n) ack ts =
     (if is_complete ts then ([], ts)
      else (case handle_tftp_packet now (\<lambda>_. True) (put_u16 4 @ put_u16 ack) ts of
        (Ok _, sent, ts) \<Rightarrow>
          if sent = [] then ([], ts)
          else (case client_run now n (be16 (last sent ! 2) (last sent ! 3)) ts of (d, ts) \<Rightarrow> (concat (map (drop 4) sent) @ d, ts))
      | (_, sent, ts) \<Rightarrow> ([], ts)))"

lemma put_u16_length [simp]: "length (put_u16 w) = 2"
  by (simp add: put_u16_def)

lemma put_u16_be16: "be16 (put_u16 w ! 0) (put_u16 w ! 1) = w"
  by (simp add: put_u16_def be16_put)

lemma data_packet_parts: "drop 4 (build_data_packet b d) = d" "be16 (build_data_packet b d ! 2) (build_data_packet b d ! 3) = b"
  using put_u16_be16[of b] by (simp_all add: build_data_packet_def put_u16_def)

lemma concat_blocks:
  "1 \<le> a \<Longrightarrow> concat (map (block_of bs content) [a ..< a + m]) = take (m * bs) (drop ((a - 1) * bs) content)"
proof (induction m)
  case (Suc m)
  have "block_of bs content (a + m) = take bs (drop (m * bs) (drop ((a - 1) * bs) content))"
    using Suc.prems by (cases a) (simp_all add: block_of_def add_mult_distrib add.commute)
  moreover have "take (Suc m * bs) xs = take (m * bs) xs @ take bs (drop (m * bs) xs)" for xs :: bytes
    using take_add[of "m * bs" bs xs] by (simp add: add.commute)
  ultimately show ?case using Suc by simp
qed simp

lemma handle_ack_packet:
  assumes "ack \<le> ts_block_current ts"
  shows "handle_tftp_packet now ok (put_u16 4 @ put_u16 ack) ts =
    (let ts1 = advance_window now ack ts in send_window ok (ts_block_high ts1 + 1) 0 (unat (ts_windowsize ts1)) ts1)"
proof -
  have "be16 ((put_u16 4 @ put_u16 ack) ! 2) ((put_u16 4 @ put_u16 ack) ! 3) = ack"
    "be16 ((put_u16 4 @ put_u16 ack) ! 0) ((put_u16 4 @ put_u16 ack) ! 1) = 4"
    using put_u16_be16[of ack] put_u16_be16[of 4] by (simp_all add: put_u16_def)
  moreover have "\<not> ts_block_current ts < ack" using assms by simp
  ultimately show ?thesis by (simp add: handle_tftp_packet_def handle_ack_def opcode_of_u16_def Let_def)
qed

lemma client_run_octet:
  assumes "octet_transfer content ts" "\<not> ts_eof ts" "ts_block_high ts \<le> ts_block_current ts"
    and "unat (ts_block_current ts) < block_count (unat (ts_blocksize ts)) content"
    and "block_count (unat (ts_blocksize ts)) content - unat (ts_block_current ts) \<le> n"
  shows "\<exists>ts'. client_run now n (ts_block_current ts) ts = (drop (unat (ts_block_current ts) * unat (ts_blocksize ts)) content, ts') \<and> is_complete ts'"
  using assms
proof (induction n arbitrary: ts)
  case (Suc n)
  let ?c = "ts_block_current ts" and ?bs = "unat (ts_blocksize ts)" let ?N = "block_count ?bs content"
  define ts1 where "ts1 = advance_window now ?c ts"
  have a: "ts_block_high ts1 = ?c" "octet_transfer content ts1" "\<not> ts_eof ts1" "ts_blocksize ts1 = ts_blocksize ts"
    using Suc.prems(1-3) by (auto simp: ts1_def advance_window_def octet_transfer_def reads_def Let_def)
  have N: "?N \<le> 65535" and bs: "0 < ?bs" and w: "0 < unat (ts_windowsize ts1)"
    using Suc.prems(1) a(2) by (auto simp: octet_transfer_def word_less_nat_alt)
  have c1: "unat (?c + 1) = unat ?c + 1" using Suc.prems(4) N by (simp add: unat_word_ariths)
  have "1 \<le> unat (?c + 1)" "unat (?c + 1) + 0 \<le> block_count (unat (ts_blocksize ts1)) content"
    using c1 Suc.prems(4) a(4) by simp_all
  from send_window_octet[OF a(2) _ this(1) a(3) this(2) w, of "\<lambda>_. True", unfolded c1 a(4) add_0_right]
  obtain ts' m where m: "0 < m" "unat ?c + 1 + m \<le> ?N + 1"
    "send_window (\<lambda>_. True) (?c + 1) 0 (unat (ts_windowsize ts1)) ts1 =
      (Ok (), map (\<lambda>i. build_data_packet (of_nat i) (block_of ?bs content i)) [unat ?c + 1 ..< unat ?c + 1 + m], ts')"
    "same_transfer ts1 ts'" "unat (ts_block_current ts') = unat ?c + 1 + m - 1" "ts_eof ts' = (unat ?c + 1 + m = ?N + 1)"
    by blast
  from m(5) have m5: "unat (ts_block_current ts') = unat ?c + m" by simp
  let ?sent = "map (\<lambda>i. build_data_packet (of_nat i) (block_of ?bs content i)) [unat ?c + 1 ..< unat ?c + 1 + m]"
  have h: "handle_tftp_packet now (\<lambda>_. True) (put_u16 4 @ put_u16 ?c) ts = (Ok (), ?sent, ts')"
    unfolding handle_ack_packet[of ?c ts, OF order_refl] Let_def using m(3) a(1) by (simp add: ts1_def)
  have last: "be16 (last ?sent ! 2) (last ?sent ! 3) = ts_block_current ts'"
  proof -
    have "last ?sent = build_data_packet (of_nat (unat ?c + m)) (block_of ?bs content (unat ?c + m))"
      using m(1) by (simp add: last_map)
    then have "be16 (last ?sent ! 2) (last ?sent ! 3) = of_nat (unat (ts_block_current ts'))"
      unfolding m5 by (simp only: data_packet_parts)
    then show ?thesis by simp
  qed
  have data: "concat (map (drop 4) ?sent) = take (m * ?bs) (drop (unat ?c * ?bs) content)"
    using concat_blocks[of "unat ?c + 1" ?bs content m] by (simp add: comp_def data_packet_parts)
  have run: "client_run now (Suc n) ?c ts =
      (case client_run now n (ts_block_current ts') ts' of (d, t) \<Rightarrow> (take (m * ?bs) (drop (unat ?c * ?bs) content) @ d, t))"
    using h last data m(1) Suc.prems(2) by (simp add: is_complete_def)
  show ?case
  proof (cases "ts_eof ts'")
    case True
    then have "length content \<le> unat ?c * ?bs + m * ?bs"
      using m(6) bs by (simp add: block_count_def add_mult_distrib[symmetric]) (metis dividend_less_div_times less_imp_le add.commute mult.commute)
    moreover have "client_run now n (ts_block_current ts') ts' = ([], ts')" using True by (cases n) (simp_all add: is_complete_def)
    ultimately show ?thesis using run True by (simp add: is_complete_def)
  next
    case False
    have "octet_transfer content ts'" "ts_block_high ts' \<le> ts_block_current ts'" "ts_blocksize ts' = ts_blocksize ts"
      using a m(4) m5 by (auto simp: same_transfer_def octet_transfer_def reads_def word_le_nat_alt)
    moreover have "unat (ts_block_current ts') < ?N" using False m(2,6) m5 by simp
    moreover have "?N - unat (ts_block_current ts') \<le> n" using Suc.prems(5) m(1) m5 by simp
    ultimately obtain t where "client_run now n (ts_block_current ts') ts' = (drop (unat (ts_block_current ts') * ?bs) content, t)" "is_complete t"
      using Suc.IH[of ts'] False by auto
    moreover have "drop (unat (ts_block_current ts') * ?bs) content = drop (m * ?bs) (drop (unat ?c * ?bs) content)"
      unfolding m5 drop_drop by (simp add: add_mult_distrib add.commute)
    ultimately show ?thesis using run append_take_drop_id[of "m * ?bs" "drop (unat ?c * ?bs) content"] by simp
  qed
qed simp

subsection \<open>Invariant of the server\<close>

text \<open>Files return at most the bytes asked for.\<close>

definition file_bounded :: "tftp_file \<Rightarrow> bool" where
  "file_bounded f \<longleftrightarrow> (\<forall>p n b. f p n = Some b \<longrightarrow> length b \<le> n)"

definition mtu_limit :: "tftp_config \<Rightarrow> nat" where
  "mtu_limit cfg = max 512 (unat (tftp_mtu cfg) - 28)"

definition transfer_inv :: "tftp_config \<Rightarrow> transfer_state \<Rightarrow> bool" where
  "transfer_inv cfg ts \<longleftrightarrow> file_bounded (ts_file ts) \<and> unat (ts_blocksize ts) \<le> mtu_limit cfg \<and>
     1 \<le> ts_windowsize ts \<and> ts_windowsize ts \<le> TFTP_MAX_WINDOW"

definition tftp_inv :: "tftp_server \<Rightarrow> bool" where
  "tftp_inv v \<longleftrightarrow> length (tv_transfers v) \<le> TFTP_MAX_CONNECTIONS \<and> (\<forall>ts\<in>set (tv_transfers v). transfer_inv (tv_config v) ts)"

lemma netascii_parts: "ts_file (snd (netascii_convert b ts)) = ts_file ts" "ts_blocksize (snd (netascii_convert b ts)) = ts_blocksize ts"
  "ts_windowsize (snd (netascii_convert b ts)) = ts_windowsize ts" "length (fst (fst (netascii_convert b ts))) \<le> unat (ts_blocksize ts)"
  by (simp_all add: netascii_convert_def Let_def case_prod_unfold)

lemma get_block_inv:
  assumes "transfer_inv cfg ts" "get_block b ts = (r, ts')"
  shows "transfer_inv cfg ts' \<and> (\<forall>d. r = Ok d \<longrightarrow> length d \<le> mtu_limit cfg) \<and> ts_peer ts' = ts_peer ts"
proof -
  have "length d \<le> unat (ts_blocksize ts)" if "ts_file ts p (unat (ts_blocksize ts)) = Some d" for p d
    using assms(1) that by (auto simp: transfer_inv_def file_bounded_def)
  then have "transfer_inv cfg ts' \<and> (\<forall>d. r = Ok d \<longrightarrow> length d \<le> unat (ts_blocksize ts)) \<and> ts_peer ts' = ts_peer ts"
    using assms netascii_parts[of _ ts]
    by (auto simp: get_block_def Let_def transfer_inv_def netascii_convert_def case_prod_unfold split: if_splits option.splits)
  then show ?thesis using assms(1) by (auto simp: transfer_inv_def)
qed

definition sent_ok :: "tftp_config \<Rightarrow> (unit, tftp_error) outcome \<times> bytes list \<times> transfer_state \<Rightarrow> bool" where
  "sent_ok cfg res \<longleftrightarrow> transfer_inv cfg (snd (snd res)) \<and> (\<forall>b\<in>set (fst (snd res)). length b \<le> 4 + mtu_limit cfg)"

lemma send_window_inv: "transfer_inv cfg ts \<Longrightarrow> sent_ok cfg (send_window ok nb off k ts)"
proof (induction k arbitrary: off ts)
  case (Suc k)
  obtain r ts1 where g: "get_block (nb + of_nat off) ts = (r, ts1)" by fastforce
  note i = get_block_inv[OF Suc.prems g]
  show ?case
  proof (cases r)
    case (Ok d)
    then have "length (build_data_packet (nb + of_nat off) d) \<le> 4 + mtu_limit cfg" using i by (simp add: build_data_packet_def)
    with Ok g i Suc.IH[of ts1 "Suc off"] show ?thesis by (simp add: Let_def case_prod_unfold sent_ok_def)
  qed (use g i in \<open>simp_all add: Let_def sent_ok_def\<close>)
qed (simp add: sent_ok_def)

lemma advance_window_inv: "transfer_inv cfg (advance_window now a ts) = transfer_inv cfg ts"
  by (simp add: advance_window_def transfer_inv_def Let_def)

lemma handle_packet_inv:
  assumes "transfer_inv cfg ts" "handle_tftp_packet now ok buf ts = (r, sent, ts')"
  shows "transfer_inv cfg ts' \<and> (\<forall>b\<in>set sent. length b \<le> 4 + mtu_limit cfg)"
proof -
  have "sent_ok cfg (e, [], ts)" for e using assms(1) by (simp add: sent_ok_def)
  then have "sent_ok cfg (handle_tftp_packet now ok buf ts)"
    using assms(1) by (simp add: handle_tftp_packet_def handle_ack_def advance_window_inv send_window_inv split: option.split tftp_opcode.split)
  with assms(2) show ?thesis by (simp add: sent_ok_def)
qed

lemma process_transfer_inv:
  assumes "transfer_inv cfg ts" "process_transfer now ok p ts = (sent, r)"
  shows "(\<forall>ts'. r = Some ts' \<longrightarrow> transfer_inv cfg ts') \<and> (\<forall>b\<in>set sent. length b \<le> 4 + mtu_limit cfg)"
  using assms handle_packet_inv[OF assms(1)]
  by (auto simp: process_transfer_def split: if_splits poll.splits prod.splits outcome.splits)

lemma length_map_filter: "length (List.map_filter f xs) \<le> length xs"
  by (induction xs) (auto simp: List.map_filter_simps split: option.split)

lemma in_map_filter: "y \<in> set (List.map_filter f xs) \<longleftrightarrow> (\<exists>x\<in>set xs. f x = Some y)"
  by (induction xs) (auto simp: List.map_filter_simps split: option.split)

lemma process_active_inv:
  assumes "tftp_inv v"
  shows "tftp_inv (snd (process_active_transfers io v)) \<and>
    (\<forall>(b, _)\<in>set (fst (process_active_transfers io v)). length b \<le> 4 + mtu_limit (tv_config v)) \<and>
    tv_config (snd (process_active_transfers io v)) = tv_config v"
proof -
  let ?rs = "map (\<lambda>(i, ts). (ts_peer ts, case io i of (now, send_ok, p) \<Rightarrow> process_transfer now send_ok p ts)) (enumerate 0 (tv_transfers v))"
  have each: "(\<forall>ts'. r = Some ts' \<longrightarrow> transfer_inv (tv_config v) ts') \<and> (\<forall>b\<in>set sent. length b \<le> 4 + mtu_limit (tv_config v))"
    if m: "(peer, sent, r) \<in> set ?rs" for peer sent r
  proof -
    obtain i ts now ok p where "ts \<in> set (tv_transfers v)" "process_transfer now ok p ts = (sent, r)"
      using m by (auto simp: in_set_enumerate_eq split: prod.splits) (metis nth_mem)
    with process_transfer_inv assms show ?thesis unfolding tftp_inv_def by blast
  qed
  have sent_bound: "\<forall>(b, _)\<in>set (concat (map (\<lambda>(peer, sent, _). map (\<lambda>b. (b, peer)) sent) rs)). length b \<le> k"
    if "\<And>peer sent r. (peer, sent, r) \<in> set rs \<Longrightarrow> \<forall>b\<in>set sent. length b \<le> k"
    for rs :: "(sock_addr \<times> bytes list \<times> transfer_state option) list" and k
    using that by fastforce
  have "length (List.map_filter (\<lambda>(_, _, r). r) ?rs) \<le> TFTP_MAX_CONNECTIONS"
    using length_map_filter[of "\<lambda>(_, _, r). r" ?rs] assms by (simp add: tftp_inv_def)
  moreover have "\<forall>ts\<in>set (List.map_filter (\<lambda>(_, _, r). r) ?rs). transfer_inv (tv_config v) ts"
  proof
    fix ts assume "ts \<in> set (List.map_filter (\<lambda>(_, _, r). r) ?rs)"
    then obtain x where "x \<in> set ?rs" "(case x of (_, _, r) \<Rightarrow> r) = Some ts" unfolding in_map_filter by blast
    moreover obtain peer sent r where "x = (peer, sent, r)" using prod_cases3 by blast
    ultimately show "transfer_inv (tv_config v) ts" using each[of peer sent r] by simp
  qed
  moreover have "\<forall>(b, _)\<in>set (concat (map (\<lambda>(peer, sent, _). map (\<lambda>b. (b, peer)) sent) ?rs)). length b \<le> 4 + mtu_limit (tv_config v)"
    by (rule sent_bound) (use each in blast)
  ultimately show ?thesis unfolding process_active_transfers_def Let_def tftp_inv_def by simp
qed

definition negotiated_ok :: "tftp_config \<Rightarrow> negotiated \<Rightarrow> bool" where
  "negotiated_ok cfg ng \<longleftrightarrow> unat (ng_blksize ng) \<le> mtu_limit cfg \<and> 1 \<le> ng_windowsize ng \<and> ng_windowsize ng \<le> TFTP_MAX_WINDOW \<and> 1 \<le> ng_timeout_secs ng"

lemma negotiate_blksize_ok: "negotiated_ok cfg ng \<Longrightarrow> negotiated_ok cfg (negotiate_blksize cfg rrq ng)"
proof -
  have u: "unat (sat_sub16 m 28) = unat m - 28" for m
    by (simp add: sat_sub16_def unat_sub word_less_nat_alt word_le_nat_alt)
  have "unat (min x (sat_sub16 (tftp_mtu cfg) 28)) \<le> mtu_limit cfg" for x
    using word_le_nat_alt[of "min x (sat_sub16 (tftp_mtu cfg) 28)" "sat_sub16 (tftp_mtu cfg) 28"] by (simp add: u mtu_limit_def)
  then show "negotiated_ok cfg ng \<Longrightarrow> ?thesis"
    by (simp add: negotiated_ok_def negotiate_blksize_def Let_def split: option.split)
qed

lemma negotiate_rest_ok:
  "negotiated_ok cfg ng \<Longrightarrow> negotiated_ok cfg (negotiate_tsize len rrq ng)"
  "negotiated_ok cfg ng \<Longrightarrow> negotiated_ok cfg (negotiate_timeout rrq ng)"
  "negotiated_ok cfg ng \<Longrightarrow> negotiated_ok cfg (negotiate_windowsize rrq ng)"
  by (simp_all add: negotiated_ok_def negotiate_tsize_def negotiate_timeout_def negotiate_windowsize_def Let_def TFTP_MAX_WINDOW_def
      split: option.split)

lemma negotiate_bounds: "negotiated_ok cfg (negotiate cfg len rrq)"
  unfolding negotiate_def
  by (intro negotiate_rest_ok negotiate_blksize_ok) (simp add: negotiated_ok_def mtu_limit_def TFTP_MAX_WINDOW_def)

lemma start_transfer_inv:
  assumes "tftp_inv v" "file_bounded f" "length (tv_transfers v) < TFTP_MAX_CONNECTIONS"
  shows "tftp_inv (snd (snd (start_transfer E rrq f (negotiate (tv_config v) len rrq) peer v)))"
proof -
  let ?ng = "negotiate (tv_config v) len rrq"
  define ts where "ts = transfer_new (te_now E) f peer (ng_blksize ?ng) (ng_windowsize ?ng) (secs (unat (ng_timeout_secs ?ng))) (rq_mode rrq = Netascii)"
  have i: "transfer_inv (tv_config v) ts"
    using assms(2) negotiate_bounds[of "tv_config v" len rrq] by (simp add: ts_def transfer_inv_def transfer_new_def negotiated_ok_def)
  have add: "tftp_inv (v\<lparr>tv_transfers := tv_transfers v @ [t]\<rparr>)" if "transfer_inv (tv_config v) t" for t
    using assms(1,3) that by (simp add: tftp_inv_def)
  obtain r ts1 where g: "get_block 1 ts = (r, ts1)" by fastforce
  with get_block_inv[OF i] have "transfer_inv (tv_config v) ts1" by blast
  with i add g assms(1) show ?thesis by (simp add: start_transfer_def Let_def ts_def[symmetric] split: outcome.split)
qed

lemma send_error_state: "snd (snd (send_error E peer c m v)) = v"
  by (simp add: send_error_def)

lemma fileperm_Ok:
  "check_tftp_fileperm fs uid cfg path = Ok (opened, f) \<Longrightarrow>
   \<exists>root croot md. tftp_prefix cfg = Some root \<and> fs_canonicalize fs root = Ok croot \<and> fs_canonicalize fs path = Ok opened \<and>
     path_starts_with opened croot \<and> fs_metadata fs opened = Ok md \<and> md_is_file md \<and> (tftp_secure cfg \<longrightarrow> md_uid md = uid) \<and>
     fs_open fs opened = Ok f"
  by (auto simp: check_tftp_fileperm_def rbind_Ok_iff get_root_directory_def map_err_Ok_iff split: option.splits if_splits)

lemma request_inv:
  assumes "tftp_inv v" "\<And>p f. fs_open (te_fs E) p = Ok f \<Longrightarrow> file_bounded f"
  shows "tftp_inv (snd (snd (tftp_request E buf peer v)))"
proof -
  have "tftp_inv (snd (snd (handle_rrq E b peer v)))" for b
  proof (cases "parse_rrq (te_lc E) (te_lossy E) b")
    case (Some rrq)
    have "tftp_inv (snd (snd (start_transfer E rrq f (negotiate (tv_config v) len rrq) peer v)))"
      if "check_tftp_fileperm (te_fs E) (te_uid E) (tv_config v) path = Ok (opened, f)" "length (tv_transfers v) < TFTP_MAX_CONNECTIONS" for path opened f len
      using start_transfer_inv[OF assms(1) _ that(2)] fileperm_Ok[OF that(1)] assms(2) by blast
    with Some assms(1) show ?thesis
      by (simp add: handle_rrq_def send_error_state case_prod_unfold not_le split: option.split outcome.split)
  qed (use assms(1) in \<open>simp add: handle_rrq_def send_error_state\<close>)
  with assms(1) show ?thesis by (simp add: tftp_request_def send_error_state split: option.split tftp_opcode.split)
qed

lemma first_block_bound:
  assumes "file_bounded f" "ng_options (negotiate cfg len rrq) = []"
  shows "\<forall>(b, _)\<in>set (fst (snd (start_transfer E rrq f (negotiate cfg len rrq) peer v))). length b \<le> 4 + mtu_limit cfg"
proof -
  let ?ng = "negotiate cfg len rrq"
  define ts where "ts = transfer_new (te_now E) f peer (ng_blksize ?ng) (ng_windowsize ?ng) (secs (unat (ng_timeout_secs ?ng))) (rq_mode rrq = Netascii)"
  have i: "transfer_inv cfg ts"
    using assms(1) negotiate_bounds[of cfg len rrq] by (simp add: ts_def transfer_inv_def transfer_new_def negotiated_ok_def)
  obtain r ts1 where g: "get_block 1 ts = (r, ts1)" by fastforce
  with get_block_inv[OF i g] assms(2) show ?thesis
    by (auto simp: start_transfer_def Let_def ts_def[symmetric] build_data_packet_def split: outcome.split)
qed

inductive tftp_reach :: "tftp_config \<Rightarrow> tftp_server \<Rightarrow> bool" for cfg where
  start: "tftp_reach cfg (tftp_new cfg)"
| step: "tftp_reach cfg v \<Longrightarrow>
    (\<And>E buf peer p f. ev = Request E buf peer \<Longrightarrow> fs_open (te_fs E) p = Ok f \<Longrightarrow> file_bounded f) \<Longrightarrow>
    tftp_reach cfg (snd (check_tftp_listeners ev v))"

lemma request_config: "tv_config (snd (snd (tftp_request E buf peer v))) = tv_config v"
  by (simp add: tftp_request_def handle_rrq_def start_transfer_def send_error_state Let_def case_prod_unfold
      split: option.split tftp_opcode.split outcome.split)

lemma reach_tftp_inv: "tftp_reach cfg v \<Longrightarrow> tftp_inv v \<and> tv_config v = cfg"
proof (induction rule: tftp_reach.induct)
  case (step v ev)
  show ?case
  proof (cases ev)
    case (Request E buf peer)
    with step request_inv[of v E buf peer] request_config[of E buf peer v] show ?thesis
      by (simp add: check_tftp_listeners_def case_prod_unfold)
  next
    case (Poll io)
    with step process_active_inv[of v io] show ?thesis by (simp add: check_tftp_listeners_def)
  qed (use step in \<open>simp add: check_tftp_listeners_def\<close>)
qed (simp add: tftp_new_def tftp_inv_def)

text \<open>Without options: the first block, sent at once, and the client that acknowledges it.\<close>

lemma first_block_octet:
  assumes "octet_transfer content ts" "\<not> ts_eof ts" "ts_block_high ts = 0"
  shows "\<exists>ts1 d ts'. get_block 1 ts = (Ok (take (unat (ts_blocksize ts)) content), ts1) \<and>
    client_run now (length content div unat (ts_blocksize ts) + 1) 1 ts1 = (d, ts') \<and>
    take (unat (ts_blocksize ts)) content @ d = content \<and> is_complete ts'"
proof -
  let ?bs = "unat (ts_blocksize ts)" let ?n = "length content div ?bs + 1"
  obtain ts1 where g: "get_block 1 ts = (Ok (take ?bs content), ts1)" and t1: "octet_transfer content ts1"
      "ts_blocksize ts1 = ts_blocksize ts" "ts_eof ts1 = (length (take ?bs content) < ?bs)" "ts_block_high ts1 = 0" "ts_block_current ts1 = 1"
    using get_block_octet[of content ts 1] assms by (auto simp: octet_transfer_def reads_def block_of_def Let_def)
  have "\<exists>d ts'. client_run now ?n 1 ts1 = (d, ts') \<and> take ?bs content @ d = content \<and> is_complete ts'"
  proof (cases "ts_eof ts1")
    case True
    then have "client_run now ?n 1 ts1 = ([], ts1)" "is_complete ts1" by (simp_all add: is_complete_def)
    moreover have "take ?bs content = content" using True t1(3) by simp
    ultimately show ?thesis by simp
  next
    case more: False
    have "?bs \<le> length content" "0 < ?bs" using more t1(3) assms(1) by (auto simp: octet_transfer_def word_less_nat_alt)
    then have "1 < block_count ?bs content" by (simp add: block_count_def div_greater_zero_iff)
    then have "\<exists>ts'. client_run now ?n 1 ts1 = (drop ?bs content, ts') \<and> is_complete ts'"
      using client_run_octet[of content ts1 ?n now] t1 more by (simp add: block_count_def del: client_run.simps)
    then show ?thesis by (metis append_take_drop_id)
  qed
  with g show ?thesis by blast
qed

subsection \<open>Properties\<close>

text \<open>
  C28: in octet mode a client that asks for a file of at most 65535 blocks and acknowledges what it receives gets the
  whole file in order and the transfer ends, for every block size and window: with options agreed on the
  client acknowledges the option acknowledgement with block 0 and receives everything from then on;
  without options the first block comes at once.
\<close>

theorem octet_file_delivered:
  assumes "\<And>p n. file p n = Some (take n (drop (unat p) content))" and "0 < ng_blksize ng" and "0 < ng_windowsize ng"
    and "length content div unat (ng_blksize ng) + 1 \<le> 65535" and "rq_mode rrq = Octet" and "te_socket_ok E" and "te_send_ok E 0"
  shows "\<exists>packet ts d ts'. start_transfer E rrq file ng peer v = (Ok (), [(packet, peer)], v\<lparr>tv_transfers := tv_transfers v @ [ts]\<rparr>) \<and>
    client_run now (length content div unat (ng_blksize ng) + 1) (if ng_options ng = [] then 1 else 0) ts = (d, ts') \<and>
    (if ng_options ng = [] then drop 4 packet else []) @ d = content \<and> is_complete ts'"
proof -
  let ?bs = "unat (ng_blksize ng)" let ?n = "length content div ?bs + 1"
  define ts where "ts = transfer_new (te_now E) file peer (ng_blksize ng) (ng_windowsize ng) (secs (unat (ng_timeout_secs ng))) False"
  have ts: "octet_transfer content ts" "ts_blocksize ts = ng_blksize ng" "\<not> ts_eof ts" "ts_block_high ts = 0" "ts_block_current ts = 0"
    using assms(1-4) by (simp_all add: octet_transfer_def transfer_new_def reads_def block_count_def ts_def)
  show ?thesis
  proof (cases "ng_options ng = []")
    case False
    obtain ts' where run: "client_run now ?n 0 ts = (content, ts')" "is_complete ts'"
      using client_run_octet[of content ts ?n now] ts by (auto simp: block_count_def)
    have "start_transfer E rrq file ng peer v =
        (Ok (), [(build_oack_packet (te_iter E (ng_options ng)), peer)], v\<lparr>tv_transfers := tv_transfers v @ [ts]\<rparr>)"
      using False assms(5-7) by (simp add: start_transfer_def Let_def ts_def[symmetric])
    moreover have "client_run now ?n (if ng_options ng = [] then 1 else 0) ts = (content, ts')"
      "(if ng_options ng = [] then drop 4 (build_oack_packet (te_iter E (ng_options ng))) else []) @ content = content"
      using False run(1) by simp_all
    ultimately show ?thesis using run(2) by blast
  next
    case True
    obtain ts1 d ts' where g: "get_block 1 ts = (Ok (take ?bs content), ts1)"
        and run: "client_run now ?n 1 ts1 = (d, ts')" "take ?bs content @ d = content" "is_complete ts'"
      using first_block_octet[OF ts(1,3,4), unfolded ts(2)] by blast
    have "start_transfer E rrq file ng peer v =
        (Ok (), [(build_data_packet 1 (take ?bs content), peer)], v\<lparr>tv_transfers := tv_transfers v @ [ts1]\<rparr>)"
      using True g assms(5-7) by (simp add: start_transfer_def Let_def ts_def[symmetric])
    moreover have "client_run now ?n (if ng_options ng = [] then 1 else 0) ts1 = (d, ts')"
      "(if ng_options ng = [] then drop 4 (build_data_packet 1 (take ?bs content)) else []) @ d = content"
      using True run(1,2) by (simp_all add: data_packet_parts)
    ultimately show ?thesis using run(3) by blast
  qed
qed

definition example_content :: bytes where
  "example_content = [1, 2, 3, 4, 5, 6, 7, 8, 9, 10]"

definition example_fs :: file_system where
  "example_fs = \<lparr>fs_canonicalize = (\<lambda>p. Ok p), fs_metadata = (\<lambda>_. Ok \<lparr>md_is_file = True, md_uid = 0, md_len = 10\<rparr>),
     fs_open = (\<lambda>_. Ok (\<lambda>p n. Some (take n (drop (unat p) example_content))))\<rparr>"

definition example_tenv :: tftp_env where
  "example_tenv = \<lparr>te_lc = id, te_lossy = id, te_iter = id, te_fs = example_fs, te_uid = 0, te_file_len = (\<lambda>_. Some 10), te_now = 0,
     te_listener_ok = True, te_socket_ok = True, te_send_ok = (\<lambda>_. True)\<rparr>"

theorem octet_file_delivered_witness:
  "\<exists>packet ts d ts'. start_transfer example_tenv \<lparr>rq_filename = [0x61], rq_mode = Octet, rq_options = []\<rparr>
       (\<lambda>p n. Some (take n (drop (unat p) example_content))) \<lparr>ng_options = [], ng_blksize = 8, ng_timeout_secs = 5, ng_windowsize = 1\<rparr>
       (V4 [10, 0, 0, 1], 69) (tftp_new \<lparr>tftp_prefix = None, tftp_mtu = 1500, tftp_secure = False\<rparr>) =
     (Ok (), [(packet, V4 [10, 0, 0, 1], 69)], (tftp_new \<lparr>tftp_prefix = None, tftp_mtu = 1500, tftp_secure = False\<rparr>)\<lparr>tv_transfers := [ts]\<rparr>) \<and>
     client_run 0 2 1 ts = (d, ts') \<and> drop 4 packet @ d = example_content \<and> is_complete ts'"
proof -
  have n: "length example_content div 8 + 1 = 2" by (simp add: example_content_def)
  have "te_socket_ok example_tenv" "te_send_ok example_tenv 0"
      "tv_transfers (tftp_new \<lparr>tftp_prefix = None, tftp_mtu = 1500, tftp_secure = False\<rparr>) = []"
    by (simp_all add: example_tenv_def tftp_new_def)
  note parts = this n
  from octet_file_delivered[of "\<lambda>p n. Some (take n (drop (unat p) example_content))" example_content
      "\<lparr>ng_options = [], ng_blksize = 8, ng_timeout_secs = 5, ng_windowsize = 1\<rparr>" "\<lparr>rq_filename = [0x61], rq_mode = Octet, rq_options = []\<rparr>"
      example_tenv "(V4 [10, 0, 0, 1], 69)" "tftp_new \<lparr>tftp_prefix = None, tftp_mtu = 1500, tftp_secure = False\<rparr>" 0]
  show ?thesis by (simp add: parts del: client_run.simps One_nat_def add_Suc_right)
qed

text \<open>
  C30: in every state of the server there are at most 50 transfers, with windows of 1 to 32 blocks, and every
  datagram of data, the first of a transfer as well as those that answer acknowledgements and timeouts,
  carries at most 512 bytes, or what the configured MTU leaves after 28 bytes of headers if that is
  more.  The default block size is not reduced to a small MTU.
\<close>

theorem tftp_server_bounds:
  assumes "tftp_reach cfg v"
  shows "length (tv_transfers v) \<le> 50 \<and>
    (\<forall>ts\<in>set (tv_transfers v). 1 \<le> ts_windowsize ts \<and> ts_windowsize ts \<le> 32 \<and> unat (ts_blocksize ts) \<le> max 512 (unat (tftp_mtu cfg) - 28)) \<and>
    (\<forall>io. \<forall>(b, _)\<in>set (fst (process_active_transfers io v)). length b \<le> 4 + max 512 (unat (tftp_mtu cfg) - 28)) \<and>
    (\<forall>E rrq f len peer. file_bounded f \<and> ng_options (negotiate cfg len rrq) = [] \<longrightarrow>
      (\<forall>(b, _)\<in>set (fst (snd (start_transfer E rrq f (negotiate cfg len rrq) peer v))). length b \<le> 4 + max 512 (unat (tftp_mtu cfg) - 28)))"
proof -
  have inv: "tftp_inv v" "tv_config v = cfg" using reach_tftp_inv[OF assms] by simp_all
  then have "length (tv_transfers v) \<le> 50"
    "\<forall>ts\<in>set (tv_transfers v). 1 \<le> ts_windowsize ts \<and> ts_windowsize ts \<le> 32 \<and> unat (ts_blocksize ts) \<le> max 512 (unat (tftp_mtu cfg) - 28)"
    by (auto simp: tftp_inv_def transfer_inv_def TFTP_MAX_CONNECTIONS_def TFTP_MAX_WINDOW_def mtu_limit_def)
  then show ?thesis
    using process_active_inv[OF inv(1)] first_block_bound[of _ cfg] inv(2) unfolding mtu_limit_def by blast
qed

text \<open>A server with one transfer, after a request for a file.\<close>

theorem tftp_server_bounds_witness:
  "list_all (\<lambda>(b, _). length b \<le> 1476) (fst (process_active_transfers (\<lambda>_. (1, \<lambda>_. True, Packet [0, 4, 0, 1]))
     (snd (check_tftp_listeners (Request example_tenv [0, 1, 0x61, 0, 0x78, 0] (V4 [10, 0, 0, 1], 69))
       (tftp_new \<lparr>tftp_prefix = Some [0x2F, 0x74], tftp_mtu = 1500, tftp_secure = True\<rparr>)))))"
proof -
  have "tftp_reach \<lparr>tftp_prefix = Some [0x2F, 0x74], tftp_mtu = 1500, tftp_secure = True\<rparr>
      (snd (check_tftp_listeners (Request example_tenv [0, 1, 0x61, 0, 0x78, 0] (V4 [10, 0, 0, 1], 69))
        (tftp_new \<lparr>tftp_prefix = Some [0x2F, 0x74], tftp_mtu = 1500, tftp_secure = True\<rparr>)))"
    by (rule tftp_reach.step[OF tftp_reach.start]) (auto simp: example_tenv_def example_fs_def file_bounded_def)
  from tftp_server_bounds[OF this] show ?thesis by (simp add: list_all_iff)
qed

lemma start_transfer_new:
  assumes "start_transfer E rrq f ng peer v = (r, sent, v')" "tv_transfers v' \<noteq> tv_transfers v"
  shows "\<exists>ts. tv_transfers v' = tv_transfers v @ [ts] \<and> ts_file ts = f \<and> ts_peer ts = peer"
proof -
  define ts where "ts = transfer_new (te_now E) f peer (ng_blksize ng) (ng_windowsize ng) (secs (unat (ng_timeout_secs ng))) (rq_mode rrq = Netascii)"
  obtain g ts1 where g: "get_block 1 ts = (g, ts1)" by fastforce
  have "ts_file (snd (get_block 1 ts)) = ts_file ts \<and> ts_peer (snd (get_block 1 ts)) = ts_peer ts"
    by (simp add: get_block_def Let_def netascii_convert_def case_prod_unfold split: option.split)
  with g have t1: "ts_file ts1 = f" "ts_peer ts1 = peer" "ts_file ts = f" "ts_peer ts = peer" by (simp_all add: ts_def transfer_new_def)
  have "tv_transfers v' = tv_transfers v @ [ts] \<or> tv_transfers v' = tv_transfers v @ [ts1]"
    using assms g by (auto simp: start_transfer_def Let_def ts_def[symmetric] split: if_splits outcome.splits)
  with t1 show ?thesis by blast
qed

text \<open>
  C29: a request starts at most one transfer, and only a read request does; the file it serves is a regular file
  whose canonical path lies below the canonical root directory, owned by the user of the server in
  secure mode, whatever the request names.
\<close>

theorem served_file_confined:
  assumes "tftp_request E buf peer v = (r, sent, v')" and "tv_transfers v' \<noteq> tv_transfers v"
  shows "\<exists>ts opened root croot md. tv_transfers v' = tv_transfers v @ [ts] \<and> ts_peer ts = peer \<and> fs_open (te_fs E) opened = Ok (ts_file ts) \<and>
    tftp_prefix (tv_config v) = Some root \<and> fs_canonicalize (te_fs E) root = Ok croot \<and>
    (\<exists>rest. components opened = components croot @ rest) \<and>
    fs_metadata (te_fs E) opened = Ok md \<and> md_is_file md \<and> (tftp_secure (tv_config v) \<longrightarrow> md_uid md = te_uid E) \<and>
    opcode_of_u16 (be16 (buf ! 0) (buf ! 1)) = Some RRQ"
proof -
  have err: "send_error E peer c m v \<noteq> (r, sent, v')" for c m using assms(2) by (auto simp: send_error_def split: if_splits)
  from assms err have rr: "opcode_of_u16 (be16 (buf ! 0) (buf ! 1)) = Some RRQ" "handle_rrq E (drop 2 buf) peer v = (r, sent, v')"
    by (auto simp: tftp_request_def split: if_splits option.splits tftp_opcode.splits)
  with assms(2) err obtain rrq path opened f len where
      f: "check_tftp_fileperm (te_fs E) (te_uid E) (tv_config v) path = Ok (opened, f)"
      "start_transfer E rrq f (negotiate (tv_config v) len rrq) peer v = (r, sent, v')"
    by (auto simp: handle_rrq_def split: if_splits option.splits outcome.splits prod.splits)
  from start_transfer_new[OF f(2) assms(2)] obtain ts where ts: "tv_transfers v' = tv_transfers v @ [ts]" "ts_file ts = f" "ts_peer ts = peer" by blast
  from fileperm_Ok[OF f(1)] obtain root croot md where
    o: "tftp_prefix (tv_config v) = Some root" "fs_canonicalize (te_fs E) root = Ok croot" "path_starts_with opened croot"
      "fs_metadata (te_fs E) opened = Ok md" "md_is_file md" "tftp_secure (tv_config v) \<longrightarrow> md_uid md = te_uid E" "fs_open (te_fs E) opened = Ok f"
    by blast
  have "components opened = components croot @ drop (length (components croot)) (components opened)"
    using o(3) append_take_drop_id[of "length (components croot)" "components opened"] by (simp add: path_starts_with_def)
  with ts o rr(1) show ?thesis by blast
qed

theorem served_file_confined_witness:
  "\<exists>ts. tv_transfers (snd (snd (tftp_request example_tenv [0, 1, 0x61, 0, 0x78, 0] (V4 [10, 0, 0, 1], 69)
       (tftp_new \<lparr>tftp_prefix = Some [0x2F, 0x74], tftp_mtu = 1500, tftp_secure = True\<rparr>)))) = [ts] \<and>
     ts_peer ts = (V4 [10, 0, 0, 1], 69)"
proof -
  let ?v = "tftp_new \<lparr>tftp_prefix = Some [0x2F, 0x74], tftp_mtu = 1500, tftp_secure = True\<rparr>"
  obtain r sent v' where r: "tftp_request example_tenv [0, 1, 0x61, 0, 0x78, 0] (V4 [10, 0, 0, 1], 69) ?v = (r, sent, v')" using prod_cases3 by blast
  let ?file = "\<lambda>p n. Some (take n (drop (unat (p :: u64)) example_content))"
  have p: "parse_rrq id id [0x61, 0, 0x78, 0] = Some \<lparr>rq_filename = [0x61], rq_mode = Octet, rq_options = []\<rparr>" by code_simp
  have c: "check_tftp_fileperm example_fs 0 \<lparr>tftp_prefix = Some [0x2F, 0x74], tftp_mtu = 1500, tftp_secure = True\<rparr> (path_join [0x2F, 0x74] [0x61]) =
      Ok (path_join [0x2F, 0x74] [0x61], ?file)"
    by (simp add: check_tftp_fileperm_def example_fs_def get_root_directory_def path_starts_with_def components_def path_join_def starts_with_def)
  have g: "\<exists>d ts1. get_block 1 (transfer_new t ?file peer bs w tm False) = (Ok d, ts1)" for t peer bs w tm
    using get_block_octet[of example_content "transfer_new t ?file peer bs w tm False" 1]
    by (simp add: reads_def transfer_new_def Let_def)
  have "length (tv_transfers (snd (snd (start_transfer example_tenv \<lparr>rq_filename = [0x61], rq_mode = Octet, rq_options = []\<rparr> ?file ng peer ?v)))) = 1"
    for ng peer
  proof -
    obtain d ts1 where "get_block 1 (transfer_new 0 ?file peer (ng_blksize ng) (ng_windowsize ng) (secs (unat (ng_timeout_secs ng))) False) = (Ok d, ts1)"
      using g by blast
    then show ?thesis by (simp add: start_transfer_def example_tenv_def Let_def tftp_new_def)
  qed
  then have "length (tv_transfers (snd (snd (tftp_request example_tenv [0, 1, 0x61, 0, 0x78, 0] (V4 [10, 0, 0, 1], 69) ?v)))) = 1"
    using p c by (simp add: tftp_request_def opcode_of_u16_def be16_def handle_rrq_def TFTP_MAX_CONNECTIONS_def get_root_directory_def
        example_tenv_def tftp_new_def)
  with r have "tv_transfers v' \<noteq> tv_transfers ?v" by (auto simp: tftp_new_def)
  from served_file_confined[OF r this] r show ?thesis by (auto simp: tftp_new_def)
qed

subsection \<open>Limits\<close>

text \<open>
  Block numbers are not extended: the acknowledgement of block 65535 is answered with an empty block
  0, which ends the transfer for the client, and the blocks that follow are those of the beginning of
  the file.
\<close>

theorem wraps_to_empty_block:
  assumes "ts_block_current ts = 0xFFFF" and "ts_windowsize ts = 1"
  shows "\<exists>ts'. handle_tftp_packet now (\<lambda>_. True) (put_u16 4 @ put_u16 0xFFFF) ts = (Ok (), [build_data_packet 0 []], ts')"
proof -
  have "advance_window now 0xFFFF ts = ts\<lparr>ts_block_high := 0xFFFF, ts_last_activity := now\<rparr>"
  proof (cases "ts_block_high ts = 0xFFFF")
    case False
    moreover have "(0xFFFF :: u16) = - 1" by simp
    ultimately have "ts_block_high ts < 0xFFFF" using word_order.not_eq_extremum[of "ts_block_high ts"] by metis
    then show ?thesis by (simp add: advance_window_def Let_def)
  qed (simp add: advance_window_def Let_def)
  moreover have z: "(65536 :: u16) = 0" by simp
  ultimately show ?thesis using assms by (simp add: handle_ack_packet Let_def get_block_def) (simp only: z)
qed

text \<open>
  In netascii mode a line feed for whose two bytes a block has no room is sent as a line feed at the end
  of this block and a carriage return at the beginning of the next, and a block shorter in the file than
  on the wire ends the transfer although data is left.
\<close>

theorem netascii_newline_swapped:
  assumes "0 < n"
  shows "netascii_loop n (replicate (n - 1) 0x61 @ [LF]) [] 0 = (replicate (n - 1) 0x61 @ [LF], n, True)"
proof -
  have "length out + k = m \<Longrightarrow> netascii_loop (Suc m) (replicate k 0x61 @ [LF]) out c = (out @ replicate k 0x61 @ [LF], c + k + 1, True)" for out k m c
    by (induction k arbitrary: out c) (auto simp: replicate_append_same)
  from this[of "[]" "n - 1" "n - 1" 0] assms show ?thesis by simp
qed

theorem netascii_ends_early:
  "case get_block 1 (transfer_new 0 (\<lambda>p n. Some (take n (drop (unat p) (replicate 10 LF)))) (V4 [10, 0, 0, 1], 69) 8 1 5 True) of
     (r, ts) \<Rightarrow> r = Ok [CR, LF, CR, LF, CR, LF, CR, LF] \<and> is_complete ts"
  by code_simp

end
