(* ===== verification/Radv.thy ===== *)
theory Radv
  imports Dhcp6_Protocol
begin

text \<open>
  Router advertisements, \<open>src/radv/mod.rs\<close>, \<open>src/radv/protocol.rs\<close> and \<open>src/radv/slaac.rs\<close>: the parameters of an
  advertisement gathered from interface addresses and DHCPv6 contexts, the packet with its options, the
  sending state machine, and the addresses that clients derive from their hardware address, with the
  ICMPv6 checksum of the probes sent to them.  Interface table, socket and clock are arguments.
\<close>

datatype radv_error =
    RadvConfiguration reason
  | PacketConstruction reason
  | RadvInterface reason
  | RadvIo reason

datatype slaac_error = MacConversionFailed reason | InvalidPacket reason

subsection \<open>Configuration and parameters\<close>

record ra_interface =
  ri_name :: bytes
  ri_interval :: u32
  ri_lifetime :: u32
  ri_priority :: u8
  ri_mtu :: u32

definition ra_interface_new :: "bytes \<Rightarrow> ra_interface" where
  "ra_interface_new name = \<lparr>ri_name = name, ri_interval = 600, ri_lifetime = 1800, ri_priority = 0, ri_mtu = 0\<rparr>"

record network_interface =
  ni_name :: bytes
  ni_index :: u32
  ni_addresses :: "ip_addr list"

record ra_param =
  pa_now :: nat
  pa_ind :: u32
  pa_managed :: bool
  pa_other :: bool
  pa_first :: bool
  pa_adv_router :: bool
  pa_if_name :: bytes
  pa_link_local :: "bytes option"
  pa_link_global :: "bytes option"
  pa_ula :: "bytes option"
  pa_glob_pref_time :: u32
  pa_link_pref_time :: u32
  pa_ula_pref_time :: u32
  pa_adv_interval :: u32
  pa_prio :: u8
  pa_found_context :: bool

text \<open>The server: the RA interfaces and DHCP contexts of the configuration, the host's interfaces, the times of sending.\<close>

record radv_server =
  rs_ra_interfaces :: "ra_interface list"
  rs_contexts :: "dhcp6_context list"
  rs_interfaces :: "network_interface list"
  rs_ra_times :: "(u32 \<times> nat) list"

fun check_ra_interfaces :: "ra_interface list \<Rightarrow> (unit, radv_error) outcome" where
  "check_ra_interfaces [] = Ok ()"
| "check_ra_interfaces (ri # ris) =
     (if ri_interval ri = 0 then Err (RadvConfiguration ''Invalid interval 0'')
      else if ri_priority ri \<noteq> 0 \<and> ri_priority ri \<noteq> 1 \<and> ri_priority ri \<noteq> 3 then Err (RadvConfiguration ''Invalid priority'')
      else check_ra_interfaces ris)"

definition radv_new :: "ra_interface list \<Rightarrow> dhcp6_context list \<Rightarrow> network_interface list \<Rightarrow> (radv_server, radv_error) outcome" where
  "radv_new ra_interfaces contexts interfaces =
     rbind (check_ra_interfaces ra_interfaces) (\<lambda>_.
       Ok \<lparr>rs_ra_interfaces = ra_interfaces, rs_contexts = contexts, rs_interfaces = interfaces, rs_ra_times = []\<rparr>)"

definition get_interface_by_index :: "radv_server \<Rightarrow> u32 \<Rightarrow> network_interface option" where
  "get_interface_by_index s idx = find (\<lambda>i. ni_index i = idx) (rs_interfaces s)"

definition find_ra_interface :: "radv_server \<Rightarrow> bytes \<Rightarrow> (ra_interface, radv_error) outcome" where
  "find_ra_interface s name =
     ok_or (RadvConfiguration ''No RA configuration found for interface'') (find (\<lambda>ri. ri_name ri = name) (rs_ra_interfaces s))"

text \<open>The last address of each scope is kept.\<close>

definition first_segment :: "bytes \<Rightarrow> u16" where
  "first_segment a = be16 (a ! 0) (a ! 1)"

definition classify_address :: "ip_addr \<Rightarrow> bytes option \<times> bytes option \<times> bytes option \<Rightarrow> bytes option \<times> bytes option \<times> bytes option" where
  "classify_address addr acc =
     (case acc of (link_local, link_global, ula) \<Rightarrow>
        (case addr of
           V6 a \<Rightarrow>
             if first_segment a AND 0xFFC0 = 0xFE80 then (Some a, link_global, ula)
             else if first_segment a AND 0xFE00 = 0xFC00 then (link_local, link_global, Some a)
             else if first_segment a AND 0xE000 = 0x2000 then (link_local, Some a, ula)
             else acc
         | V4 _ \<Rightarrow> acc))"

definition RADV_CONTEXT_V6 :: u32 where "RADV_CONTEXT_V6 = push_bit 17 1"
definition RADV_CONTEXT_RA_NAME :: u32 where "RADV_CONTEXT_RA_NAME = 0x01"
definition RADV_CONTEXT_RA_STATELESS :: u32 where "RADV_CONTEXT_RA_STATELESS = push_bit 7 1"

definition is_v6 :: "dhcp6_context \<Rightarrow> bool" where
  "is_v6 cx \<longleftrightarrow> cx_flags6 cx AND RADV_CONTEXT_V6 \<noteq> 0"

definition contains_address :: "dhcp6_context \<Rightarrow> ip_addr \<Rightarrow> bool" where
  "contains_address cx addr \<longleftrightarrow> cx_start6 cx = addr"

text \<open>Three quarters of the lease time; the detour through \<open>f64\<close> is exact for thirty-two bits.\<close>

definition preferred_time :: "dhcp6_context \<Rightarrow> u32" where
  "preferred_time cx = of_nat (unat (cx_lease_time6 cx) * 3 div 4)"

definition scan_context :: "u32 \<Rightarrow> bytes option \<Rightarrow> bytes option \<Rightarrow> dhcp6_context \<Rightarrow> bool \<times> bool \<times> bool \<times> u32 \<times> u32
    \<Rightarrow> bool \<times> bool \<times> bool \<times> u32 \<times> u32" where
  "scan_context iface_idx link_global ula cx acc =
     (case acc of (managed, other, found, glob, ulat) \<Rightarrow>
        if cx_if_index cx \<noteq> 0 \<and> cx_if_index cx \<noteq> iface_idx then acc
        else if is_v6 cx then
          (managed \<or> cx_flags6 cx AND RADV_CONTEXT_RA_NAME \<noteq> 0, True, True,
           (case link_global of Some g \<Rightarrow> if contains_address cx (V6 g) then preferred_time cx else glob | None \<Rightarrow> glob),
           (case ula of Some u \<Rightarrow> if contains_address cx (V6 u) then preferred_time cx else ulat | None \<Rightarrow> ulat))
        else acc)"

definition build_ra_param :: "radv_server \<Rightarrow> nat \<Rightarrow> u32 \<Rightarrow> bool \<Rightarrow> (ra_param, radv_error) outcome" where
  "build_ra_param s now iface_idx first =
     rbind (ok_or (RadvInterface ''Failed to get interface'') (get_interface_by_index s iface_idx)) (\<lambda>iface.
       case fold classify_address (ni_addresses iface) (None, None, None) of (link_local, link_global, ula) \<Rightarrow>
       rbind (find_ra_interface s (ni_name iface)) (\<lambda>ra_iface.
       case fold (scan_context iface_idx link_global ula) (rs_contexts s) (False, False, False, 0, 0) of
         (managed, other, found, glob, ulat) \<Rightarrow>
           let default_lifetime = ri_interval ra_iface * 3 in
           Ok \<lparr>pa_now = now, pa_ind = iface_idx, pa_managed = managed, pa_other = other, pa_first = first,
               pa_adv_router = (0 < ri_lifetime ra_iface), pa_if_name = ni_name iface,
               pa_link_local = link_local, pa_link_global = link_global, pa_ula = ula,
               pa_glob_pref_time = (if \<not> found then default_lifetime else glob),
               pa_link_pref_time = (if \<not> found then default_lifetime else 0),
               pa_ula_pref_time = (if \<not> found then default_lifetime else ulat),
               pa_adv_interval = ri_interval ra_iface, pa_prio = ri_priority ra_iface, pa_found_context = found\<rparr>))"

subsection \<open>The packet\<close>

definition router_lifetime :: "ra_param \<Rightarrow> u16" where
  "router_lifetime p = (if pa_adv_router p then ucast (min (pa_adv_interval p * 3) 0xFFFF) else 0)"

definition ra_flags :: "ra_param \<Rightarrow> u8" where
  "ra_flags p = (if pa_managed p then 0x80 else 0) OR (if pa_other p then 0x40 else 0)"

definition ra_header :: "ra_param \<Rightarrow> bytes" where
  "ra_header p = [134, 0] @ put_u16 0 @ [255, ra_flags p] @ put_u16 (router_lifetime p) @ put_u32 0 @ put_u32 0"

definition prefix_option :: "bytes \<Rightarrow> u8 \<Rightarrow> u32 \<Rightarrow> u32 \<Rightarrow> bytes" where
  "prefix_option prefix prefix_len valid_lifetime preferred_lifetime =
     [3, 4, prefix_len, 0xC0] @ put_u32 valid_lifetime @ put_u32 preferred_lifetime @ put_u32 0 @ prefix"

definition prefix_for :: "bytes option \<Rightarrow> u32 \<Rightarrow> bytes" where
  "prefix_for addr pref = (case addr of Some a \<Rightarrow> prefix_option a 64 (pref * 2) pref | None \<Rightarrow> [])"

definition prefix_options :: "ra_param \<Rightarrow> bytes" where
  "prefix_options p =
     prefix_for (pa_link_local p) (pa_link_pref_time p) @ prefix_for (pa_link_global p) (pa_glob_pref_time p) @
     prefix_for (pa_ula p) (pa_ula_pref_time p)"

definition rdnss_servers :: "ra_param \<Rightarrow> bytes list" where
  "rdnss_servers p =
     (case pa_link_global p of Some g \<Rightarrow> [g] | None \<Rightarrow> (case pa_link_local p of Some l \<Rightarrow> [l] | None \<Rightarrow> [])) @
     (case pa_ula p of Some u \<Rightarrow> [u] | None \<Rightarrow> [])"

definition rdnss_option :: "ra_param \<Rightarrow> bytes" where
  "rdnss_option p =
     (let dns_servers = rdnss_servers p in
      if dns_servers = [] then []
      else [25, 1 + of_nat (length dns_servers * 2), 0, 0] @ put_u32 (pa_adv_interval p * 3) @ concat dns_servers)"

definition mtu_option :: "radv_server \<Rightarrow> ra_param \<Rightarrow> (bytes, radv_error) outcome" where
  "mtu_option s p =
     rbind (find_ra_interface s (pa_if_name p)) (\<lambda>ra_iface.
       Ok (if 0 < ri_mtu ra_iface then [5, 1, 0, 0] @ put_u32 (ri_mtu ra_iface) else []))"

definition interval_option :: "ra_param \<Rightarrow> bytes" where
  "interval_option p = [7, 1, 0, 0] @ put_u32 (pa_adv_interval p * 1000)"

definition construct_ra_packet :: "radv_server \<Rightarrow> ra_param \<Rightarrow> (bytes, radv_error) outcome" where
  "construct_ra_packet s p =
     rbind (mtu_option s p) (\<lambda>mtu. Ok (ra_header p @ prefix_options p @ rdnss_option p @ mtu @ interval_option p))"

subsection \<open>Sending\<close>

abbreviation ALL_NODES :: bytes where "ALL_NODES \<equiv> [0xFF, 2, 0, 0, 0, 0, 0, 0, 0, 0, 0, 0, 0, 0, 0, 1]"

text \<open>A transmission is the packet, its destination and the interface; \<open>sent\<close> tells whether the socket takes it.\<close>

type_synonym transmission = "bytes \<times> bytes \<times> u32"

definition transmit_ra_packet :: "(transmission \<Rightarrow> bool) \<Rightarrow> bytes \<Rightarrow> u32 \<Rightarrow> bytes option \<Rightarrow> (transmission, radv_error) outcome" where
  "transmit_ra_packet sent packet iface_idx dest =
     (let t = (packet, case dest of Some d \<Rightarrow> d | None \<Rightarrow> ALL_NODES, iface_idx) in
      if sent t then Ok t else Err (RadvIo ''Failed to send RA packet''))"

definition send_ra :: "(transmission \<Rightarrow> bool) \<Rightarrow> nat \<Rightarrow> u32 \<Rightarrow> bytes option \<Rightarrow> radv_server \<Rightarrow> (transmission, radv_error) outcome \<times> radv_server" where
  "send_ra sent now iface dest s =
     (case rbind (build_ra_param s now iface False) (\<lambda>p.
        rbind (construct_ra_packet s p) (\<lambda>packet. transmit_ra_packet sent packet iface dest)) of
        Ok t \<Rightarrow> (Ok t, s\<lparr>rs_ra_times := AList.update iface now (rs_ra_times s)\<rparr>)
      | Err e \<Rightarrow> (Err e, s)
      | Panic \<Rightarrow> (Panic, s))"

definition slaac_ping_reply :: "bytes \<Rightarrow> (bool, slaac_error) outcome" where
  "slaac_ping_reply packet =
     (if length packet < 8 then Err (InvalidPacket ''Packet too short'')
      else if packet ! 0 \<noteq> 129 then Err (InvalidPacket ''Not an Echo Reply'')
      else Ok True)"

definition handle_echo_reply :: "bytes \<Rightarrow> (unit, radv_error) outcome" where
  "handle_echo_reply packet =
     rbind (map_err (\<lambda>_. PacketConstruction ''SLAAC processing failed'') (slaac_ping_reply packet)) (\<lambda>_. Ok ())"

definition handle_router_solicitation :: "(transmission \<Rightarrow> bool) \<Rightarrow> nat \<Rightarrow> bytes \<Rightarrow> u32 \<Rightarrow> radv_server
    \<Rightarrow> (transmission option, radv_error) outcome \<times> radv_server" where
  "handle_router_solicitation sent now src iface s =
     (case get_interface_by_index s iface of
        None \<Rightarrow> (Err (RadvInterface ''Failed to get interface''), s)
      | Some _ \<Rightarrow>
          (case send_ra sent now iface (Some src) s of
             (Ok t, s) \<Rightarrow> (Ok (Some t), s) | (Err e, s) \<Rightarrow> (Err e, s) | (Panic, s) \<Rightarrow> (Panic, s)))"

definition icmp6_packet :: "(transmission \<Rightarrow> bool) \<Rightarrow> nat \<Rightarrow> bytes \<Rightarrow> bytes \<Rightarrow> u32 \<Rightarrow> radv_server
    \<Rightarrow> (transmission option, radv_error) outcome \<times> radv_server" where
  "icmp6_packet sent now packet src iface s =
     (case packet of
        [] \<Rightarrow> (Ok None, s)
      | icmp_type # _ \<Rightarrow>
          if icmp_type = 133 then handle_router_solicitation sent now src iface s
          else if icmp_type = 129 then (rbind (handle_echo_reply packet) (\<lambda>_. Ok None), s)
          else (Ok None, s))"

text \<open>The interfaces for which a task is started.\<close>

definition ra_start_unsolicited :: "radv_server \<Rightarrow> network_interface list" where
  "ra_start_unsolicited s =
     filter (\<lambda>iface. list_ex (\<lambda>addr. case addr of V6 _ \<Rightarrow> True | V4 _ \<Rightarrow> False) (ni_addresses iface) \<and>
                     list_ex (\<lambda>ri. ri_name ri = ni_name iface) (rs_ra_interfaces s)) (rs_interfaces s)"

text \<open>
  The task of an interface.  The clock is in seconds and sending is taken as instantaneous.  The timers of tokio are
  parameters: when a sleep of a given length begun at a given time ends, and when the ticks of an
  interval timer made at a given time with a given period come.  Four advertisements are sent with a
  sleep after each but the last, and a failure ends the task; then the timer's first tick is dropped
  and an advertisement is sent at each of the next \<open>n\<close> ticks, where a failure is only logged.  An interval
  timer with period zero panics.  \<open>sent\<close> also depends on the time.
\<close>

record tokio_timers =
  sleep_until :: "nat \<Rightarrow> nat \<Rightarrow> nat"
  tick_time :: "nat \<Rightarrow> nat \<Rightarrow> nat \<Rightarrow> nat"

fun short_ra_loop :: "tokio_timers \<Rightarrow> (nat \<Rightarrow> transmission \<Rightarrow> bool) \<Rightarrow> u32 \<Rightarrow> nat list \<Rightarrow> nat \<Rightarrow> radv_server
    \<Rightarrow> (unit, radv_error) outcome \<times> (nat \<times> transmission) list \<times> nat \<times> radv_server" where
  "short_ra_loop tm sent iface [] now s = (Ok (), [], now, s)"
| "short_ra_loop tm sent iface (i # is) now s =
     (case send_ra (sent now) now iface None s of
        (Ok t, s) \<Rightarrow>
          (case short_ra_loop tm sent iface is (if i < 3 then sleep_until tm now 16 else now) s of
             (r, ts, later, s) \<Rightarrow> (r, (now, t) # ts, later, s))
      | (Err e, s) \<Rightarrow> (Err e, [], now, s)
      | (Panic, s) \<Rightarrow> (Panic, [], now, s))"

definition run_short_ra_period :: "tokio_timers \<Rightarrow> (nat \<Rightarrow> transmission \<Rightarrow> bool) \<Rightarrow> u32 \<Rightarrow> nat \<Rightarrow> radv_server
    \<Rightarrow> (unit, radv_error) outcome \<times> (nat \<times> transmission) list \<times> nat \<times> radv_server" where
  "run_short_ra_period tm sent iface now s = short_ra_loop tm sent iface [0..<4] now s"

fun normal_ra_loop :: "(nat \<Rightarrow> transmission \<Rightarrow> bool) \<Rightarrow> u32 \<Rightarrow> nat list \<Rightarrow> radv_server \<Rightarrow> (nat \<times> transmission) list \<times> radv_server" where
  "normal_ra_loop sent iface [] s = ([], s)"
| "normal_ra_loop sent iface (tick # ticks) s =
     (case send_ra (sent tick) tick iface None s of
        (r, s) \<Rightarrow> (case normal_ra_loop sent iface ticks s of
                      (ts, s) \<Rightarrow> ((case r of Ok t \<Rightarrow> [(tick, t)] | _ \<Rightarrow> []) @ ts, s)))"

definition run_normal_ra_period :: "tokio_timers \<Rightarrow> (nat \<Rightarrow> transmission \<Rightarrow> bool) \<Rightarrow> u32 \<Rightarrow> bytes \<Rightarrow> nat \<Rightarrow> nat \<Rightarrow> radv_server
    \<Rightarrow> (unit, radv_error) outcome \<times> (nat \<times> transmission) list \<times> radv_server" where
  "run_normal_ra_period tm sent iface iface_name n now s =
     (case find_ra_interface s iface_name of
        Ok ra_iface \<Rightarrow>
          let interval_secs = unat (ri_interval ra_iface) in
          if interval_secs = 0 then (Panic, [], s)
          else (case normal_ra_loop sent iface (drop 1 (map (tick_time tm now interval_secs) [0..<Suc n])) s of (ts, s) \<Rightarrow> (Ok (), ts, s))
      | Err e \<Rightarrow> (Err e, [], s)
      | Panic \<Rightarrow> (Panic, [], s))"

definition run_ra_task :: "tokio_timers \<Rightarrow> (nat \<Rightarrow> transmission \<Rightarrow> bool) \<Rightarrow> u32 \<Rightarrow> bytes \<Rightarrow> nat \<Rightarrow> nat \<Rightarrow> radv_server
    \<Rightarrow> (unit, radv_error) outcome \<times> (nat \<times> transmission) list \<times> radv_server" where
  "run_ra_task tm sent iface iface_name n now s =
     (case run_short_ra_period tm sent iface now s of
        (Ok _, ts, now, s) \<Rightarrow> (case run_normal_ra_period tm sent iface iface_name n now s of (r, us, s) \<Rightarrow> (r, ts @ us, s))
      | (Err e, ts, _, s) \<Rightarrow> (Err e, ts, s)
      | (Panic, ts, _, s) \<Rightarrow> (Panic, ts, s))"

subsection \<open>Lifetimes\<close>

definition calc_lifetime :: "ra_interface \<Rightarrow> u16" where
  "calc_lifetime ri = ucast (min (ri_interval ri * 3) 0xFFFF)"

definition calc_interval :: "ra_interface \<Rightarrow> u16" where
  "calc_interval ri = ucast (min (max (ri_interval ri * 3 div 4) 3) 0xFFFF)"

definition calc_prio :: "ra_interface \<Rightarrow> u8" where
  "calc_prio ri = (if ri_priority ri = 0 then 0x18 else if ri_priority ri = 1 then 0x00 else 0x08)"

definition calc_prefix_valid_lifetime :: "dhcp6_context option \<Rightarrow> u32 \<Rightarrow> u32" where
  "calc_prefix_valid_lifetime context default_lifetime =
     (case context of Some cx \<Rightarrow> max (cx_lease_time6 cx) 7200 | None \<Rightarrow> default_lifetime)"

definition calc_prefix_preferred_lifetime :: "u32 \<Rightarrow> dhcp6_context option \<Rightarrow> u32" where
  "calc_prefix_preferred_lifetime valid_lifetime context =
     (case context of Some cx \<Rightarrow> min (cx_lease_time6 cx div 2) valid_lifetime | None \<Rightarrow> max (valid_lifetime div 2) 1800)"

definition should_set_managed_flag :: "dhcp6_context option \<Rightarrow> bool" where
  "should_set_managed_flag context = (case context of Some cx \<Rightarrow> cx_flags6 cx AND RADV_CONTEXT_RA_STATELESS = 0 | None \<Rightarrow> False)"

definition should_set_other_flag :: "dhcp6_context option \<Rightarrow> bool" where
  "should_set_other_flag context \<longleftrightarrow> context \<noteq> None"

subsection \<open>Derived addresses\<close>

definition eui64_from_mac :: "bytes \<Rightarrow> bytes \<Rightarrow> bytes" where
  "eui64_from_mac mac prefix =
     take 8 prefix @ [mac ! 0 XOR 0x02, mac ! 1, mac ! 2, 0xFF, 0xFE, mac ! 3, mac ! 4, mac ! 5]"

definition SLAAC_CONTEXT_RA_NAME :: u32 where "SLAAC_CONTEXT_RA_NAME = 0x2000"
definition SLAAC_CONTEXT_OLD :: u32 where "SLAAC_CONTEXT_OLD = 0x4000"

definition slaac_step :: "bytes \<Rightarrow> bool \<Rightarrow> dhcp6_context \<Rightarrow> bytes list \<Rightarrow> bytes list" where
  "slaac_step mac force cx addrs =
     (if cx_flags6 cx AND SLAAC_CONTEXT_RA_NAME = 0 then addrs
      else if \<not> force \<and> cx_flags6 cx AND SLAAC_CONTEXT_OLD \<noteq> 0 then addrs
      else case cx_start6 cx of
          V6 prefix \<Rightarrow> let a = eui64_from_mac mac prefix in if a \<in> set addrs then addrs else addrs @ [a]
        | V4 _ \<Rightarrow> addrs)"

definition slaac_add_addrs :: "dhcp6_context list \<Rightarrow> bool \<Rightarrow> lease \<Rightarrow> (unit, slaac_error) outcome \<times> lease" where
  "slaac_add_addrs contexts force l =
     (case ls_mac l of
        None \<Rightarrow> (Err (MacConversionFailed ''Lease has no MAC address''), l)
      | Some mac \<Rightarrow>
          let addrs = (case ls_slaac_addresses l of Some as \<Rightarrow> as | None \<Rightarrow> []) in
          (Ok (), l\<lparr>ls_slaac_addresses := Some (fold (slaac_step (mac_octets mac) force) contexts addrs)\<rparr>))"

subsection \<open>Checksum\<close>

fun sum_words :: "bytes \<Rightarrow> u32 \<Rightarrow> u32" where
  "sum_words (a # b # r) acc = sum_words r (acc + ucast (be16 a b))"
| "sum_words [a] acc = acc + ucast (be16 a 0)"
| "sum_words [] acc = acc"

function fold_carries :: "u32 \<Rightarrow> u32" where
  "fold_carries acc = (if drop_bit 16 acc \<noteq> 0 then fold_carries ((acc AND 0xFFFF) + drop_bit 16 acc) else acc)"
  by pat_completeness auto

lemma carry_parts:
  "unat (acc AND 0xFFFF :: u32) = unat acc mod 65536" "unat (drop_bit 16 acc :: u32) = unat acc div 65536"
proof -
  have "acc AND 0xFFFF = take_bit 16 acc" by (simp add: take_bit_eq_mask mask_eq_exp_minus_1)
  then show "unat (acc AND 0xFFFF :: u32) = unat acc mod 65536" by (simp add: take_bit_eq_mod unat_mod)
  show "unat (drop_bit 16 acc :: u32) = unat acc div 65536" by (simp add: drop_bit_eq_div unat_div)
qed

lemma unat_fold_step: "unat ((acc AND 0xFFFF) + drop_bit 16 acc :: u32) = unat acc mod 65536 + unat acc div 65536"
proof -
  have "unat acc < 2 ^ 32" using unsigned_less[of acc, where ?'a = nat] by simp
  then have "unat acc mod 65536 + unat acc div 65536 < 2 ^ 32" by simp
  then show ?thesis by (simp add: unat_word_ariths carry_parts)
qed

termination fold_carries
proof (relation "measure unat", goal_cases)
  case (2 acc)
  then have "0 < unat acc div 65536" by (simp add: carry_parts[symmetric] unat_gt_0)
  moreover have "unat acc = unat acc div 65536 * 65536 + unat acc mod 65536" by simp
  ultimately show ?case unfolding in_measure unat_fold_step by linarith
qed simp

declare fold_carries.simps [simp del]

definition calculate_icmpv6_checksum :: "bytes \<Rightarrow> bytes \<Rightarrow> bytes \<Rightarrow> u16" where
  "calculate_icmpv6_checksum src dst packet =
     (let acc = sum_words dst (sum_words src 0);
          len = of_nat (length packet) :: u32;
          acc = acc + (drop_bit 16 len AND 0xFFFF);
          acc = acc + (len AND 0xFFFF);
          acc = acc + 58;
          acc = sum_words packet acc
      in ucast (NOT (fold_carries acc)))"

definition construct_icmpv6_echo_request :: "u16 \<Rightarrow> bytes \<Rightarrow> bytes \<Rightarrow> bytes" where
  "construct_icmpv6_echo_request ping_id src target =
     (let packet = [128, 0, 0, 0] @ put_u16 ping_id @ [0, 0];
          checksum = calculate_icmpv6_checksum src target packet in
      [128, 0] @ put_u16 checksum @ put_u16 ping_id @ [0, 0])"

text \<open>One round over the leases: every derived address is probed; the counter of probe identifiers wraps.\<close>

fun ping_addresses :: "(bytes \<Rightarrow> bytes \<Rightarrow> bool) \<Rightarrow> bytes list \<Rightarrow> u16 \<Rightarrow> (bytes \<times> bytes) list \<times> u16" where
  "ping_addresses sent [] counter = ([], counter)"
| "ping_addresses sent (a # as) counter =
     (let packet = construct_icmpv6_echo_request counter (replicate 16 0) a;
          (ps, c) = ping_addresses sent as (counter + 1) in
      ((if sent packet a then [(packet, a)] else []) @ ps, c))"

definition periodic_slaac :: "(bytes \<Rightarrow> bytes \<Rightarrow> bool) \<Rightarrow> lease list \<Rightarrow> u16 \<Rightarrow> (bytes \<times> bytes) list \<times> u16" where
  "periodic_slaac sent ls counter =
     ping_addresses sent (concat (map (\<lambda>l. case ls_slaac_addresses l of Some as \<Rightarrow> as | None \<Rightarrow> []) ls)) counter"

subsection \<open>Ones' complement sums\<close>

definition residue :: "nat \<Rightarrow> nat" where
  "residue n = (if n = 0 then 0 else (n - 1) mod 65535 + 1)"

lemma fold_carries_residue: "unat (fold_carries w) = residue (unat w)"
proof (induction w rule: fold_carries.induct)
  case (1 acc)
  define q r where "q = unat acc div 65536" and "r = unat acc mod 65536"
  have n: "unat acc = 65536 * q + r" "r < 65536" by (simp_all add: q_def r_def)
  have q0: "drop_bit 16 acc \<noteq> 0 \<longleftrightarrow> 0 < q" by (simp add: q_def carry_parts[symmetric] unat_gt_0)
  show ?case
  proof (cases "0 < q")
    case True
    then have "unat (fold_carries acc) = residue (r + q)"
      using 1 q0 unat_fold_step[of acc] by (simp add: fold_carries.simps[of acc] q_def r_def)
    moreover have "r + q - 1 + q * 65535 = unat acc - 1" using n True by simp
    then have "(r + q - 1) mod 65535 = (unat acc - 1) mod 65535" by (metis mod_mult_self1)
    ultimately show ?thesis using True n by (simp add: residue_def)
  next
    case False
    then show ?thesis using n q0 by (simp add: fold_carries.simps[of acc] residue_def)
  qed
qed

lemma residue_bound: "residue n \<le> 65535"
  by (simp add: residue_def Suc_le_eq)

lemma residue_complement: "0 < n \<Longrightarrow> residue (n + (65535 - residue n)) = 65535"
proof -
  assume n: "0 < n"
  define q where "q = (n - 1) div 65535"
  have "n - 1 = 65535 * q + (n - 1) mod 65535" by (simp add: q_def)
  moreover have "(n - 1) mod 65535 < 65535" by simp
  ultimately have "n + (65535 - residue n) - 1 = 65534 + q * 65535" using n unfolding residue_def by simp
  then show ?thesis using n by (simp add: residue_def)
qed

lemma unat_not: "unat (NOT (w :: 'a :: len word)) = unat (- 1 :: 'a word) - unat w"
proof -
  have "NOT w = - 1 - w" by (simp add: not_eq_complement)
  then show ?thesis by (simp add: unat_sub)
qed

lemma checksum_of_residue: "unat (ucast (NOT (fold_carries w)) :: u16) = 65535 - residue (unat w)"
proof -
  have u: "unat (NOT (fold_carries w)) = 4294967295 - residue (unat w)"
    by (simp add: unat_not fold_carries_residue unsigned_minus_1_eq_mask mask_eq_exp_minus_1)
  have "(4294967295 - residue (unat w)) mod 65536 = 65535 - residue (unat w)"
    using residue_bound[of "unat w"] mod_mult_self1[of "65535 - residue (unat w)" 65535 65536] by simp
  then show ?thesis unfolding unsigned_ucast_eq take_bit_eq_mod u by simp
qed

fun word_sum :: "bytes \<Rightarrow> nat" where
  "word_sum (a # b # r) = unat (be16 a b) + word_sum r"
| "word_sum [a] = unat (be16 a 0)"
| "word_sum [] = 0"

lemma word_sum_bound: "word_sum bs \<le> 65535 * ((length bs + 1) div 2)"
proof (induction bs rule: word_sum.induct)
  case (1 a b r)
  moreover have "unat (be16 a b) \<le> 65535" using unat_u16_less[of "be16 a b"] by linarith
  ultimately show ?case by simp
next
  case (2 a)
  show ?case using unat_u16_less[of "be16 a 0"] by (simp add: less_Suc_eq_le[symmetric])
qed simp

lemma unat_sum_words: "unat acc + word_sum bs < 2 ^ 32 \<Longrightarrow> unat (sum_words bs acc) = unat acc + word_sum bs"
proof (induction bs acc rule: sum_words.induct)
  case (1 a b r acc)
  then have "unat (acc + ucast (be16 a b)) = unat acc + unat (be16 a b)"
    by (simp add: unat_word_ariths unsigned_ucast_eq take_bit_eq_mod)
  with 1 show ?case by simp
qed (simp_all add: unat_word_ariths unsigned_ucast_eq take_bit_eq_mod)

lemma word_sum_append: "even (length xs) \<Longrightarrow> word_sum (xs @ ys) = word_sum xs + word_sum ys"
  by (induction xs rule: word_sum.induct) auto

lemma word_sum_put: "word_sum (put_u16 w @ r) = unat w + word_sum r"
  by (simp add: put_u16_def be16_put)

definition pseudo_sum :: "bytes \<Rightarrow> bytes \<Rightarrow> nat \<Rightarrow> nat" where
  "pseudo_sum src dst n = word_sum src + word_sum dst + n + 58"

lemma checksum_eq:
  assumes "length src = 16" "length dst = 16" "length packet < 65536"
  shows "unat (calculate_icmpv6_checksum src dst packet) = 65535 - residue (pseudo_sum src dst (length packet) + word_sum packet)"
proof -
  let ?n = "length packet"
  have b: "word_sum src \<le> 524280" "word_sum dst \<le> 524280" "word_sum packet \<le> 65535 * 32768"
    using word_sum_bound[of src] word_sum_bound[of dst] word_sum_bound[of packet] assms by simp_all
  have len: "unat (of_nat ?n :: u32) = ?n" using assms(3) by (simp add: unat_of_nat)
  have lo: "unat ((of_nat ?n :: u32) AND 0xFFFF) = ?n" and hi: "drop_bit 16 (of_nat ?n :: u32) AND 0xFFFF = 0"
    using carry_parts[of "of_nat ?n"] len assms(3) unat_eq_0[of "drop_bit 16 (of_nat ?n :: u32)"] by simp_all
  have s: "unat (sum_words dst (sum_words src 0)) = word_sum src + word_sum dst"
    using b unat_sum_words[of 0 src] unat_sum_words[of "sum_words src 0" dst] by simp
  have "unat (sum_words dst (sum_words src 0) + ((of_nat ?n :: u32) AND 0xFFFF) + 58) = pseudo_sum src dst ?n"
    using b assms(3) by (simp add: unat_word_ariths s lo pseudo_sum_def)
  moreover from this have "unat (sum_words packet (sum_words dst (sum_words src 0) + ((of_nat ?n :: u32) AND 0xFFFF) + 58)) =
      pseudo_sum src dst ?n + word_sum packet"
    using b assms(3) by (subst unat_sum_words) (simp_all add: pseudo_sum_def)
  ultimately show ?thesis unfolding calculate_icmpv6_checksum_def Let_def hi by (simp add: checksum_of_residue)
qed

lemma checksum_filled:
  assumes "length src = 16" "length dst = 16" "length (pre @ post) < 65534" "even (length pre)"
  shows "calculate_icmpv6_checksum src dst (pre @ put_u16 (calculate_icmpv6_checksum src dst (pre @ [0, 0] @ post)) @ post) = 0"
proof -
  let ?c = "calculate_icmpv6_checksum src dst (pre @ [0, 0] @ post)"
  let ?n = "pseudo_sum src dst (length (pre @ [0, 0] @ post)) + word_sum (pre @ [0, 0] @ post)"
  have c: "unat ?c = 65535 - residue ?n" using assms by (intro checksum_eq) simp_all
  have z: "word_sum ([0, 0] @ post) = word_sum post" by (simp add: be16_def)
  have "unat (calculate_icmpv6_checksum src dst (pre @ put_u16 ?c @ post)) =
      65535 - residue (pseudo_sum src dst (length (pre @ put_u16 ?c @ post)) + word_sum (pre @ put_u16 ?c @ post))"
    using assms by (intro checksum_eq) simp_all
  also have "pseudo_sum src dst (length (pre @ put_u16 ?c @ post)) + word_sum (pre @ put_u16 ?c @ post) = ?n + (65535 - residue ?n)"
    using c assms(4) z by (simp add: word_sum_append word_sum_put)
  also have "residue (?n + (65535 - residue ?n)) = 65535" by (rule residue_complement) (simp add: pseudo_sum_def)
  finally show ?thesis by (simp add: unat_eq_0)
qed

subsection \<open>Options of a packet\<close>

text \<open>
  The options of neighbour discovery (RFC 4861): type, length in units of eight bytes, contents.  \<open>None\<close> is a
  malformed sequence.
\<close>

function nd_options :: "bytes \<Rightarrow> (u8 \<times> bytes) list option" where
  "nd_options [] = Some []"
| "nd_options [x] = None"
| "nd_options (t # n # r) =
     (if n = 0 \<or> length r < 8 * unat n - 2 then None
      else map_option (Cons (t, take (8 * unat n - 2) r)) (nd_options (drop (8 * unat n - 2) r)))"
  by pat_completeness auto
termination by (relation "measure length") auto

lemma nd_option_append:
  assumes "n \<noteq> 0" "length body + 2 = 8 * unat n"
  shows "nd_options ([t, n] @ body @ r) = map_option (Cons (t, body)) (nd_options r)"
proof -
  have "8 * unat n - 2 = length body" using assms(2) by simp
  then show ?thesis using assms(1) by simp
qed

definition prefix_content :: "bytes \<Rightarrow> u32 \<Rightarrow> bytes" where
  "prefix_content a pref = [64, 0xC0] @ put_u32 (pref * 2) @ put_u32 pref @ put_u32 0 @ a"

definition advertised_options :: "ra_interface \<Rightarrow> ra_param \<Rightarrow> (u8 \<times> bytes) list" where
  "advertised_options ri p =
     (case pa_link_local p of Some a \<Rightarrow> [(3, prefix_content a (pa_link_pref_time p))] | None \<Rightarrow> []) @
     (case pa_link_global p of Some a \<Rightarrow> [(3, prefix_content a (pa_glob_pref_time p))] | None \<Rightarrow> []) @
     (case pa_ula p of Some a \<Rightarrow> [(3, prefix_content a (pa_ula_pref_time p))] | None \<Rightarrow> []) @
     (if rdnss_servers p = [] then [] else [(25, [0, 0] @ put_u32 (pa_adv_interval p * 3) @ concat (rdnss_servers p))]) @
     (if 0 < ri_mtu ri then [(5, [0, 0] @ put_u32 (ri_mtu ri))] else []) @
     [(7, [0, 0] @ put_u32 (pa_adv_interval p * 1000))]"

definition param_ok :: "ra_param \<Rightarrow> bool" where
  "param_ok p \<longleftrightarrow> (\<forall>a. pa_link_local p = Some a \<or> pa_link_global p = Some a \<or> pa_ula p = Some a \<longrightarrow> length a = 16)"

lemma map_option_append [simp]: "map_option ((@) []) x = x" "map_option ((@) [a]) x = map_option (Cons a) x"
  by (cases x; simp)+

lemma nd_prefix:
  "(\<And>a. addr = Some a \<Longrightarrow> length a = 16) \<Longrightarrow> nd_options (prefix_for addr pref @ r) =
   map_option ((@) (case addr of Some a \<Rightarrow> [(3, prefix_content a pref)] | None \<Rightarrow> [])) (nd_options r)"
  using nd_option_append[of 4 "prefix_content (the addr) pref" 3 r]
  by (cases addr) (simp_all add: prefix_for_def prefix_option_def prefix_content_def option.map_comp comp_def)

lemma nd_rdnss:
  assumes "param_ok p"
  shows "nd_options (rdnss_option p @ r) = map_option ((@) (if rdnss_servers p = [] then []
    else [(25, [0, 0] @ put_u32 (pa_adv_interval p * 3) @ concat (rdnss_servers p))])) (nd_options r)"
proof -
  let ?n = "length (rdnss_servers p)"
  let ?body = "[0, 0] @ put_u32 (pa_adv_interval p * 3) @ concat (rdnss_servers p)"
  have servers: "?n \<le> 2" "length (concat (rdnss_servers p)) = 16 * ?n"
    using assms by (auto simp: rdnss_servers_def param_ok_def split: option.splits)
  have u: "unat (1 + of_nat (?n * 2) :: u8) = 1 + ?n * 2" using servers(1) by (simp add: unat_word_ariths unat_of_nat)
  have "nd_options ([25, 1 + of_nat (?n * 2)] @ ?body @ r) = map_option (Cons (25, ?body)) (nd_options r)"
    by (rule nd_option_append) (use servers u in \<open>auto simp: word_unat_eq_iff\<close>)
  then show ?thesis by (simp add: rdnss_option_def Let_def option.map_comp comp_def)
qed

lemma nd_fixed:
  "length body = 6 \<Longrightarrow> nd_options ([t, 1] @ body @ r) = map_option (Cons (t, body)) (nd_options r)"
  by (rule nd_option_append) simp_all

lemma ra_options:
  assumes "param_ok p" "find_ra_interface s (pa_if_name p) = Ok ri" "construct_ra_packet s p = Ok packet"
  shows "take 16 packet = ra_header p \<and> nd_options (drop 16 packet) = Some (advertised_options ri p)"
proof -
  let ?mtu = "if 0 < ri_mtu ri then [5, 1, 0, 0] @ put_u32 (ri_mtu ri) else []"
  have packet: "packet = ra_header p @ prefix_options p @ rdnss_option p @ ?mtu @ interval_option p"
    using assms(2,3) by (simp add: construct_ra_packet_def mtu_option_def)
  have len: "length (ra_header p) = 16" by (simp add: ra_header_def)
  have addrs: "\<And>a. pa_link_local p = Some a \<Longrightarrow> length a = 16" "\<And>a. pa_link_global p = Some a \<Longrightarrow> length a = 16"
    "\<And>a. pa_ula p = Some a \<Longrightarrow> length a = 16" using assms(1) by (auto simp: param_ok_def)
  have "nd_options (interval_option p @ []) = Some [(7, [0, 0] @ put_u32 (pa_adv_interval p * 1000))]"
    using nd_fixed[of "[0, 0] @ put_u32 (pa_adv_interval p * 1000)" 7 "[]"] by (simp add: interval_option_def)
  moreover have "nd_options (?mtu @ r) = map_option ((@) (if 0 < ri_mtu ri then [(5, [0, 0] @ put_u32 (ri_mtu ri))] else [])) (nd_options r)" for r
    using nd_fixed[of "[0, 0] @ put_u32 (ri_mtu ri)" 5 r] by (simp add: option.map_comp comp_def option.map_id0)
  ultimately have "nd_options (drop 16 packet) = Some (advertised_options ri p)"
    unfolding packet prefix_options_def append_assoc using len addrs assms(1)
    by (simp add: nd_prefix nd_rdnss advertised_options_def)
  then show ?thesis using packet len by simp
qed

definition scopes_ok :: "bytes option \<times> bytes option \<times> bytes option \<Rightarrow> bool" where
  "scopes_ok acc = (case acc of (x, y, z) \<Rightarrow> \<forall>a. x = Some a \<or> y = Some a \<or> z = Some a \<longrightarrow> length a = 16)"

lemma classify_ok: "scopes_ok acc \<Longrightarrow> (\<And>a. x = V6 a \<Longrightarrow> length a = 16) \<Longrightarrow> scopes_ok (classify_address x acc)"
  by (cases acc; cases x) (simp_all add: classify_address_def scopes_ok_def)

lemma classify_fold_ok:
  "(\<forall>a. V6 a \<in> set as \<longrightarrow> length a = 16) \<Longrightarrow> scopes_ok acc \<Longrightarrow> scopes_ok (fold classify_address as acc)"
  by (induction as arbitrary: acc) (simp_all add: classify_ok)

lemma build_ra_param_ok:
  assumes "\<forall>i\<in>set (rs_interfaces s). \<forall>a. V6 a \<in> set (ni_addresses i) \<longrightarrow> length a = 16" "build_ra_param s now idx first = Ok p"
  shows "param_ok p \<and> (\<exists>ri. find_ra_interface s (pa_if_name p) = Ok ri \<and> pa_adv_interval p = ri_interval ri)"
proof -
  obtain i where i: "get_interface_by_index s idx = Some i" using assms(2) by (auto simp: build_ra_param_def rust_simps)
  obtain ll lg u where sc: "fold classify_address (ni_addresses i) (None, None, None) = (ll, lg, u)" using prod_cases3 by blast
  obtain ri where ri: "find_ra_interface s (ni_name i) = Ok ri"
    using assms(2) i sc by (auto simp: build_ra_param_def rust_simps)
  have "i \<in> set (rs_interfaces s)" using i by (auto simp: get_interface_by_index_def find_Some_iff)
  then have "scopes_ok (ll, lg, u)"
    using assms(1) classify_fold_ok[of "ni_addresses i" "(None, None, None)"] sc by (simp add: scopes_ok_def)
  moreover have "pa_link_local p = ll \<and> pa_link_global p = lg \<and> pa_ula p = u \<and> pa_if_name p = ni_name i \<and> pa_adv_interval p = ri_interval ri"
    using assms(2) i sc ri by (auto simp: build_ra_param_def Let_def split: prod.splits)
  ultimately show ?thesis using ri by (auto simp: param_ok_def scopes_ok_def)
qed

subsection \<open>The task of an interface\<close>

text \<open>Advertisements do not depend on the times recorded, so that a server that can send once can always send.\<close>

lemma build_ra_param_now:
  assumes "build_ra_param s now idx first = Ok p"
  shows "build_ra_param (s\<lparr>rs_ra_times := ts\<rparr>) now' idx first = Ok (p\<lparr>pa_now := now'\<rparr>)"
proof -
  obtain i where i: "get_interface_by_index s idx = Some i" using assms by (auto simp: build_ra_param_def rust_simps)
  obtain ll lg u where sc: "fold classify_address (ni_addresses i) (None, None, None) = (ll, lg, u)" using prod_cases3 by blast
  obtain ri where ri: "find_ra_interface s (ni_name i) = Ok ri" using assms i sc by (auto simp: build_ra_param_def rust_simps)
  obtain a b c d e where cx: "fold (scan_context idx lg u) (rs_contexts s) (False, False, False, 0, 0) = (a, b, c, d, e)" using prod_cases5 by blast
  have "get_interface_by_index (s\<lparr>rs_ra_times := ts\<rparr>) idx = Some i" "find_ra_interface (s\<lparr>rs_ra_times := ts\<rparr>) (ni_name i) = Ok ri"
    using i ri by (simp_all add: get_interface_by_index_def find_ra_interface_def)
  then show ?thesis using assms i sc ri cx by (auto simp: build_ra_param_def Let_def)
qed

lemma param_parts:
  "router_lifetime (p\<lparr>pa_now := n\<rparr>) = router_lifetime p" "ra_flags (p\<lparr>pa_now := n\<rparr>) = ra_flags p"
  "prefix_options (p\<lparr>pa_now := n\<rparr>) = prefix_options p" "rdnss_servers (p\<lparr>pa_now := n\<rparr>) = rdnss_servers p"
  "interval_option (p\<lparr>pa_now := n\<rparr>) = interval_option p" "mtu_option (s\<lparr>rs_ra_times := ts\<rparr>) (p\<lparr>pa_now := n\<rparr>) = mtu_option s p"
  unfolding router_lifetime_def ra_flags_def prefix_options_def rdnss_servers_def interval_option_def mtu_option_def find_ra_interface_def
  by (simp_all split: option.split)

lemma packet_now: "construct_ra_packet (s\<lparr>rs_ra_times := ts\<rparr>) (p\<lparr>pa_now := now'\<rparr>) = construct_ra_packet s p"
  unfolding construct_ra_packet_def ra_header_def rdnss_option_def param_parts by (simp add: Let_def)

definition can_send :: "radv_server \<Rightarrow> u32 \<Rightarrow> bytes \<Rightarrow> bool" where
  "can_send s idx packet \<longleftrightarrow> (\<exists>p. build_ra_param s 0 idx False = Ok p \<and> construct_ra_packet s p = Ok packet)"

lemma can_send_times: "can_send s idx packet \<Longrightarrow> can_send (s\<lparr>rs_ra_times := ts\<rparr>) idx packet"
  unfolding can_send_def using build_ra_param_now[of s 0 idx False _ ts 0] packet_now[where s = s and ts = ts and now' = 0] by metis

lemma send_ra_result:
  assumes "can_send s idx packet"
  shows "send_ra sent now idx None s =
    (if sent (packet, ALL_NODES, idx) then (Ok (packet, ALL_NODES, idx), s\<lparr>rs_ra_times := AList.update idx now (rs_ra_times s)\<rparr>)
     else (Err (RadvIo ''Failed to send RA packet''), s))"
proof -
  obtain p where p: "build_ra_param s 0 idx False = Ok p" "construct_ra_packet s p = Ok packet" using assms(1) by (auto simp: can_send_def)
  have "build_ra_param s now idx False = Ok (p\<lparr>pa_now := now\<rparr>)" "construct_ra_packet s (p\<lparr>pa_now := now\<rparr>) = Ok packet"
    using build_ra_param_now[OF p(1), of "rs_ra_times s" now] packet_now[where s = s and ts = "rs_ra_times s" and p = p and now' = now] p(2) by simp_all
  then show ?thesis by (simp add: send_ra_def transmit_ra_packet_def)
qed

text \<open>The documented behaviour of the timers when the runtime is never late.\<close>

definition exact_timers :: "tokio_timers \<Rightarrow> bool" where
  "exact_timers tm \<longleftrightarrow> (\<forall>now d. sleep_until tm now d = now + d) \<and> (\<forall>start period k. tick_time tm start period k = start + k * period)"

lemma short_period_sends:
  assumes "exact_timers tm" and "can_send s idx packet"
  shows "\<exists>later ts. run_short_ra_period tm sent idx now s =
    (if \<forall>t\<in>{now, now + 16, now + 32, now + 48}. sent t (packet, ALL_NODES, idx) then Ok () else Err (RadvIo ''Failed to send RA packet''),
     map (\<lambda>t. (t, packet, ALL_NODES, idx)) (takeWhile (\<lambda>t. sent t (packet, ALL_NODES, idx)) [now, now + 16, now + 32, now + 48]),
     later, s\<lparr>rs_ra_times := ts\<rparr>) \<and>
    ((\<forall>t\<in>{now, now + 16, now + 32, now + 48}. sent t (packet, ALL_NODES, idx)) \<longrightarrow> later = now + 48)"
proof -
  have sleep: "sleep_until tm now 16 = now + 16" "sleep_until tm (now + 16) 16 = now + 32" "sleep_until tm (now + 32) 16 = now + 48"
    using assms(1) by (simp_all add: exact_timers_def)
  have now: "s\<lparr>rs_ra_times := rs_ra_times s\<rparr> = s" by simp
  have upt: "[0..<4] = [0, 1, 2, 3]" by (simp add: upt_rec)
  note sends = send_ra_result[OF assms(2)] send_ra_result[OF can_send_times[OF assms(2)]]
  show ?thesis
    unfolding run_short_ra_period_def upt using exI[of "\<lambda>ts. s = s\<lparr>rs_ra_times := ts\<rparr>", OF now[symmetric]]
    by (cases "sent now (packet, ALL_NODES, idx)"; cases "sent (now + 16) (packet, ALL_NODES, idx)";
        cases "sent (now + 32) (packet, ALL_NODES, idx)"; cases "sent (now + 48) (packet, ALL_NODES, idx)")
       (auto simp: sends sleep)
qed

lemma normal_loop_sends:
  "can_send s idx packet \<Longrightarrow> \<exists>ts. normal_ra_loop sent idx ticks s =
     (map (\<lambda>t. (t, packet, ALL_NODES, idx)) (filter (\<lambda>t. sent t (packet, ALL_NODES, idx)) ticks), s\<lparr>rs_ra_times := ts\<rparr>)"
proof (induction ticks arbitrary: s)
  case Nil
  show ?case by (simp add: exI[of _ "rs_ra_times s"])
next
  case (Cons t ticks)
  from Cons.IH[OF can_send_times[OF Cons.prems], of "AList.update idx t (rs_ra_times s)"] Cons.IH[OF Cons.prems]
  show ?case using send_ra_result[OF Cons.prems, of "sent t" t] by auto
qed

subsection \<open>Derived addresses\<close>

lemma slaac_step_distinct: "distinct as \<Longrightarrow> distinct (slaac_step mac force cx as)"
  by (simp add: slaac_step_def Let_def split: ip_addr.split)

lemma slaac_fold:
  "set (fold (slaac_step mac force) cxs as) = set as \<union> {eui64_from_mac mac p | p cx. cx \<in> set cxs \<and> cx_start6 cx = V6 p \<and>
     cx_flags6 cx AND SLAAC_CONTEXT_RA_NAME \<noteq> 0 \<and> (force \<or> cx_flags6 cx AND SLAAC_CONTEXT_OLD = 0)}"
proof (induction cxs arbitrary: as)
  case (Cons cx cxs)
  have "set (slaac_step mac force cx as) = set as \<union> {eui64_from_mac mac p | p. cx_start6 cx = V6 p \<and>
     cx_flags6 cx AND SLAAC_CONTEXT_RA_NAME \<noteq> 0 \<and> (force \<or> cx_flags6 cx AND SLAAC_CONTEXT_OLD = 0)}"
    by (cases "cx_start6 cx") (auto simp: slaac_step_def Let_def)
  with Cons show ?case by auto
qed simp

lemma slaac_fold_distinct: "distinct as \<Longrightarrow> distinct (fold (slaac_step mac force) cxs as)"
  by (induction cxs arbitrary: as) (simp_all add: slaac_step_distinct)

lemma xor_right_cancel: "a XOR c = b XOR c \<longleftrightarrow> a = (b :: 'a :: len word)"
  by (metis xor.assoc xor_self_eq xor.right_neutral)

lemma six_bytes: "length xs = 6 \<Longrightarrow> \<exists>a b c d e f. xs = [a, b, c, d, e, f]"
  by (auto simp: length_Suc_conv numeral_eq_Suc)

lemma eui64_inject:
  assumes "length mac = 6" "length mac' = 6" "eui64_from_mac mac p = eui64_from_mac mac' p'" "length p = 16" "length p' = 16"
  shows "mac = mac' \<and> take 8 p = take 8 p'"
proof -
  obtain a b c d e f where m: "mac = [a, b, c, d, e, f]" using six_bytes[OF assms(1)] by blast
  obtain a' b' c' d' e' f' where m': "mac' = [a', b', c', d', e', f']" using six_bytes[OF assms(2)] by blast
  show ?thesis using assms(3-5) by (simp add: eui64_from_mac_def m m' append_eq_append_conv xor_right_cancel)
qed

subsection \<open>Properties\<close>

text \<open>
  C31: an advertisement is a sixteen byte header with the flags and lifetime of the parameters, followed by a
  well-formed sequence of neighbour discovery options: prefixes for the interface's addresses, the name servers,
  the MTU if one is configured, and the interval; every length field is right.
\<close>

theorem ra_packet_options:
  assumes "\<forall>i\<in>set (rs_interfaces s). \<forall>a. V6 a \<in> set (ni_addresses i) \<longrightarrow> length a = 16"
    and "build_ra_param s now idx first = Ok p" "construct_ra_packet s p = Ok packet"
  shows "\<exists>ri. find_ra_interface s (pa_if_name p) = Ok ri \<and> take 16 packet = ra_header p \<and>
    nd_options (drop 16 packet) = Some (advertised_options ri p)"
  using build_ra_param_ok[OF assms(1,2)] ra_options[OF _ _ assms(3)] by blast

definition example_radv :: radv_server where
  "example_radv = \<lparr>rs_ra_interfaces = [ra_interface_new [0x65]], rs_contexts = [],
     rs_interfaces = [\<lparr>ni_name = [0x65], ni_index = 2, ni_addresses = [V6 (example_addr6 1), V4 [10, 0, 0, 1]]\<rparr>], rs_ra_times = []\<rparr>"

definition example_param :: ra_param where
  "example_param = \<lparr>pa_now = 0, pa_ind = 2, pa_managed = False, pa_other = False, pa_first = False, pa_adv_router = True, pa_if_name = [0x65],
     pa_link_local = None, pa_link_global = Some (example_addr6 1), pa_ula = None, pa_glob_pref_time = 1800, pa_link_pref_time = 1800,
     pa_ula_pref_time = 1800, pa_adv_interval = 600, pa_prio = 0, pa_found_context = False\<rparr>"

lemma example_radv_simps:
  "build_ra_param example_radv 0 2 False = Ok example_param" "find_ra_interface example_radv [0x65] = Ok (ra_interface_new [0x65])"
  "\<exists>packet. construct_ra_packet example_radv example_param = Ok packet"
proof -
  have seg: "first_segment (example_addr6 1) = 0x2001" by (simp add: first_segment_def example_addr6_def be16_def)
  show find: "find_ra_interface example_radv [0x65] = Ok (ra_interface_new [0x65])"
    by (simp add: find_ra_interface_def example_radv_def ra_interface_new_def)
  then show "build_ra_param example_radv 0 2 False = Ok example_param"
    by (simp add: build_ra_param_def get_interface_by_index_def example_radv_def classify_address_def seg example_param_def Let_def ra_interface_new_def)
  show "\<exists>packet. construct_ra_packet example_radv example_param = Ok packet"
    using find by (simp add: construct_ra_packet_def mtu_option_def example_param_def)
qed

theorem ra_packet_options_witness:
  "\<exists>packet. construct_ra_packet example_radv example_param = Ok packet \<and>
     nd_options (drop 16 packet) = Some (advertised_options (ra_interface_new [0x65]) example_param)"
proof -
  obtain packet where p: "construct_ra_packet example_radv example_param = Ok packet" using example_radv_simps(3) by blast
  have "\<forall>i\<in>set (rs_interfaces example_radv). \<forall>a. V6 a \<in> set (ni_addresses i) \<longrightarrow> length a = 16" by (simp add: example_radv_def)
  from ra_packet_options[OF this example_radv_simps(1) p] show ?thesis
    using p example_radv_simps(2) by (simp add: example_param_def)
qed

text \<open>
  The ICMPv6 checksum is verified by its receiver: for addresses of sixteen bytes and packets below 65534 bytes, the
  checksum over a packet with its own checksum filled in at an even position is zero.
\<close>

theorem checksum_verifies:
  assumes "length src = 16" "length dst = 16" "length (pre @ post) < 65534" "even (length pre)"
  shows "calculate_icmpv6_checksum src dst (pre @ put_u16 (calculate_icmpv6_checksum src dst (pre @ [0, 0] @ post)) @ post) = 0"
  by (rule checksum_filled[OF assms])

theorem checksum_verifies_witness:
  "calculate_icmpv6_checksum (example_addr6 1) (example_addr6 2) (construct_icmpv6_echo_request 7 (example_addr6 1) (example_addr6 2)) = 0"
  using checksum_verifies[of "example_addr6 1" "example_addr6 2" "[128, 0]" "put_u16 7 @ [0, 0]"]
  by (simp add: construct_icmpv6_echo_request_def Let_def)

text \<open>
  C32: when the timers are exact, the task of an interface whose advertisement can be built sends it to all nodes when it
  starts and 16, 32 and 48 seconds later, and from then on once every configured interval, counted from the
  last of these.  If one of the first four cannot be sent the task ends with an error and sends nothing
  more; a later one that cannot be sent is left out, and the schedule goes on.
\<close>

theorem ra_task_schedule:
  assumes "exact_timers tm" and "can_send s idx packet" and "find_ra_interface s name = Ok ri" and "0 < ri_interval ri"
  shows "\<exists>r s'. run_ra_task tm sent idx name n now s = (r, map (\<lambda>t. (t, packet, ALL_NODES, idx))
      (if \<forall>t\<in>{now, now + 16, now + 32, now + 48}. sent t (packet, ALL_NODES, idx)
       then [now, now + 16, now + 32, now + 48] @
         filter (\<lambda>t. sent t (packet, ALL_NODES, idx)) (map (\<lambda>k. now + 48 + Suc k * unat (ri_interval ri)) [0..<n])
       else takeWhile (\<lambda>t. sent t (packet, ALL_NODES, idx)) [now, now + 16, now + 32]), s') \<and>
    (r = Ok () \<longleftrightarrow> (\<forall>t\<in>{now, now + 16, now + 32, now + 48}. sent t (packet, ALL_NODES, idx)))"
proof -
  let ?sent = "\<lambda>t. sent t (packet, ALL_NODES, idx)" let ?all = "\<forall>t\<in>{now, now + 16, now + 32, now + 48}. ?sent t"
  obtain later ts where short: "run_short_ra_period tm sent idx now s =
      (if ?all then Ok () else Err (RadvIo ''Failed to send RA packet''),
       map (\<lambda>t. (t, packet, ALL_NODES, idx)) (takeWhile ?sent [now, now + 16, now + 32, now + 48]), later, s\<lparr>rs_ra_times := ts\<rparr>)"
      "?all \<longrightarrow> later = now + 48"
    using short_period_sends[OF assms(1,2)] by blast
  show ?thesis
  proof (cases ?all)
    case False
    then have tw: "takeWhile ?sent [now, now + 16, now + 32, now + 48] = takeWhile ?sent [now, now + 16, now + 32]" by simp
    have "run_short_ra_period tm sent idx now s = (Err (RadvIo ''Failed to send RA packet''),
        map (\<lambda>t. (t, packet, ALL_NODES, idx)) (takeWhile ?sent [now, now + 16, now + 32]), later, s\<lparr>rs_ra_times := ts\<rparr>)"
      unfolding short(1) tw by (simp only: False if_False)
    then have run: "run_ra_task tm sent idx name n now s = (Err (RadvIo ''Failed to send RA packet''),
        map (\<lambda>t. (t, packet, ALL_NODES, idx)) (takeWhile ?sent [now, now + 16, now + 32]), s\<lparr>rs_ra_times := ts\<rparr>)"
      unfolding run_ra_task_def by (simp only: prod.case outcome.case)
    show ?thesis unfolding run by (simp only: False if_False) blast
  next
    case True
    let ?ticks = "map (\<lambda>k. now + 48 + Suc k * unat (ri_interval ri)) [0..<n]"
    have tick: "drop 1 (map (tick_time tm (now + 48) (unat (ri_interval ri))) [0..<Suc n]) = ?ticks"
      using assms(1) by (simp add: exact_timers_def drop_map upt_conv_Cons map_Suc_upt[symmetric] del: upt_Suc map_Suc_upt)
    obtain us where "normal_ra_loop sent idx ?ticks (s\<lparr>rs_ra_times := ts\<rparr>) =
        (map (\<lambda>t. (t, packet, ALL_NODES, idx)) (filter ?sent ?ticks), (s\<lparr>rs_ra_times := ts\<rparr>)\<lparr>rs_ra_times := us\<rparr>)"
      using normal_loop_sends[OF can_send_times[OF assms(2)]] by blast
    moreover have "find_ra_interface (s\<lparr>rs_ra_times := ts\<rparr>) name = Ok ri" using assms(3) by (simp add: find_ra_interface_def)
    moreover have "unat (ri_interval ri) \<noteq> 0" using assms(4) by (simp add: word_less_nat_alt)
    ultimately have "run_normal_ra_period tm sent idx name n (now + 48) (s\<lparr>rs_ra_times := ts\<rparr>) =
        (Ok (), map (\<lambda>t. (t, packet, ALL_NODES, idx)) (filter ?sent ?ticks), s\<lparr>rs_ra_times := us\<rparr>)"
      unfolding run_normal_ra_period_def Let_def by (simp add: tick[unfolded One_nat_def] del: upt_Suc drop_map)
    moreover have "run_short_ra_period tm sent idx now s = (Ok (),
        map (\<lambda>t. (t, packet, ALL_NODES, idx)) [now, now + 16, now + 32, now + 48], now + 48, s\<lparr>rs_ra_times := ts\<rparr>)"
      using True short by simp
    ultimately have "run_ra_task tm sent idx name n now s = (Ok (),
        map (\<lambda>t. (t, packet, ALL_NODES, idx)) ([now, now + 16, now + 32, now + 48] @ filter ?sent ?ticks), s\<lparr>rs_ra_times := us\<rparr>)"
      unfolding run_ra_task_def by (simp only: prod.case outcome.case map_append)
    with True show ?thesis by (intro exI[of _ "Ok ()"] exI[of _ "s\<lparr>rs_ra_times := us\<rparr>"]) simp
  qed
qed

theorem ra_task_schedule_witness:
  "\<exists>packet s'. run_ra_task \<lparr>sleep_until = (+), tick_time = (\<lambda>start period k. start + k * period)\<rparr>
      (\<lambda>t _. t \<noteq> 648) 2 [0x65] 2 0 example_radv = (Ok (), map (\<lambda>t. (t, packet, ALL_NODES, 2)) [0, 16, 32, 48, 1248], s')"
proof -
  obtain packet where p: "can_send example_radv 2 packet" using example_radv_simps(1,3) by (auto simp: can_send_def)
  have upt: "[0..<2] = [0, 1]" by (simp add: upt_rec)
  have i: "ri_interval (ra_interface_new [0x65]) = 600" by (simp add: ra_interface_new_def)
  have "exact_timers \<lparr>sleep_until = (+), tick_time = (\<lambda>start period k. start + k * period)\<rparr>" by (simp add: exact_timers_def)
  from ra_task_schedule[OF this p example_radv_simps(2), of "\<lambda>t _. t \<noteq> 648" 2 0] i upt show ?thesis by auto
qed

text \<open>
  The derived addresses of a lease: none is lost or repeated, one is added for every live context marked
  for names, and different hardware addresses or prefixes never give the same one.
\<close>

theorem slaac_addresses_spec:
  assumes "ls_mac l = Some mac" "ls_slaac_addresses l = Some old" "distinct old"
  shows "\<exists>as. slaac_add_addrs cxs force l = (Ok (), l\<lparr>ls_slaac_addresses := Some as\<rparr>) \<and> distinct as \<and>
    set as = set old \<union> {eui64_from_mac (mac_octets mac) p | p cx. cx \<in> set cxs \<and> cx_start6 cx = V6 p \<and>
     cx_flags6 cx AND SLAAC_CONTEXT_RA_NAME \<noteq> 0 \<and> (force \<or> cx_flags6 cx AND SLAAC_CONTEXT_OLD = 0)}"
  using assms(1,2) slaac_fold_distinct[OF assms(3)] slaac_fold[of "mac_octets mac" force cxs old]
  by (intro exI[of _ "fold (slaac_step (mac_octets mac) force) cxs old"]) (simp add: slaac_add_addrs_def)

text \<open>
  A DHCPv6 context withdraws the prefix: when the interface has a context whose first address is not the
  interface's own global address, the prefix is advertised with both lifetimes zero.
\<close>

lemma scan_lifetimes:
  "\<forall>cx\<in>set cxs. cx_start6 cx \<noteq> V6 g \<Longrightarrow> fst (snd (snd (snd (fold (scan_context idx (Some g) u) cxs (a, b, c, 0, e))))) = 0"
proof (induction cxs arbitrary: a b c e)
  case (Cons cx cxs)
  obtain a' b' c' d' e' where sc: "scan_context idx (Some g) u cx (a, b, c, 0, e) = (a', b', c', d', e')" using prod_cases5 by blast
  have "fst (snd (snd (snd (scan_context idx (Some g) u cx (a, b, c, 0, e))))) = 0"
    using Cons.prems by (simp add: scan_context_def contains_address_def)
  with sc Cons show ?case by simp
qed simp

theorem context_withdraws_prefix:
  assumes "build_ra_param s now idx first = Ok p" "pa_found_context p" "pa_link_global p = Some g" "\<forall>cx\<in>set (rs_contexts s). cx_start6 cx \<noteq> V6 g"
  shows "prefix_for (pa_link_global p) (pa_glob_pref_time p) = prefix_option g 64 0 0"
proof -
  obtain i where i: "get_interface_by_index s idx = Some i" using assms by (auto simp: build_ra_param_def rust_simps)
  obtain ll lg u where sc: "fold classify_address (ni_addresses i) (None, None, None) = (ll, lg, u)" using prod_cases3 by blast
  obtain ri where ri: "find_ra_interface s (ni_name i) = Ok ri" using assms i sc by (auto simp: build_ra_param_def rust_simps)
  obtain a b c d e where cx: "fold (scan_context idx lg u) (rs_contexts s) (False, False, False, 0, 0) = (a, b, c, d, e)" using prod_cases5 by blast
  have p: "lg = Some g" "pa_glob_pref_time p = d" using assms i sc ri cx by (auto simp: build_ra_param_def Let_def)
  then have "d = 0" using scan_lifetimes[OF assms(4), of idx u False False False 0] cx by simp
  then show ?thesis using assms(3) p by (simp add: prefix_for_def)
qed

end
