(* ===== verification/Patterns.thy ===== *)
theory Patterns
  imports Compression
begin

text \<open>
  \<open>util/patterns.rs\<close>: the case-insensitive glob matcher with a single backtracking point, the
  one-pass validators of host names and host-name patterns, and the label-by-label matcher the
  connection-tracking filter uses.  The matcher is a loop over four indices which need not end
  from an arbitrary state, so it is a \<open>partial_function\<close>; the theorems show that from the start
  state it ends and computes the textbook definition of glob matching.  The validators are
  shown equal to a description over the list of labels.
\<close>

subsection \<open>The glob loop\<close>

abbreviation wild :: u8 where "wild \<equiv> 0x2A"

definition to_upper :: "u8 \<Rightarrow> u8" where
  "to_upper b = (if 0x61 \<le> b \<and> b \<le> 0x7A then b - (0x61 - 0x41) else b)"

partial_function (option) glob_loop ::
    "bytes \<Rightarrow> bytes \<Rightarrow> nat \<Rightarrow> nat \<Rightarrow> nat \<Rightarrow> nat \<Rightarrow> bool option" where
  "glob_loop v p value_index next_value_index pattern_index next_pattern_index =
     (if \<not> (value_index < length v \<or> pattern_index < length p) then Some True
      else if pattern_index < length p \<and> to_upper (p ! pattern_index) = wild then
        glob_loop v p value_index (if value_index < length v then value_index + 1 else 0)
          (pattern_index + 1) pattern_index
      else if pattern_index < length p \<and> value_index < length v \<and>
              to_upper (v ! value_index) = to_upper (p ! pattern_index) then
        glob_loop v p (value_index + 1) next_value_index (pattern_index + 1) next_pattern_index
      else if next_value_index \<noteq> 0 then
        glob_loop v p next_value_index next_value_index next_pattern_index next_pattern_index
      else Some False)"

definition is_string_matching_glob_pattern :: "bytes \<Rightarrow> bytes \<Rightarrow> bool option" where
  "is_string_matching_glob_pattern v p = glob_loop v p 0 0 0 0"

subsection \<open>Validating host names\<close>

definition MAX_LABEL_LENGTH :: nat where "MAX_LABEL_LENGTH = 63"
definition MAX_HOSTNAME_LENGTH :: nat where "MAX_HOSTNAME_LENGTH = 253"
definition MIN_LABELS :: nat where "MIN_LABELS = 2"
definition MAX_WILDCARDS_PER_LABEL :: nat where "MAX_WILDCARDS_PER_LABEL = 2"

record name_scan =
  scan_bytes :: nat
  scan_labels :: nat
  label_start :: "nat option"
  is_label_numeric :: bool

definition name_scan_start :: name_scan where
  "name_scan_start = \<lparr>scan_bytes = 0, scan_labels = 0, label_start = None, is_label_numeric = True\<rparr>"

text \<open>One byte of the scan; \<open>None\<close> is the early \<open>return false\<close>.\<close>

definition dns_name_step :: "bytes \<Rightarrow> nat \<times> u8 \<Rightarrow> name_scan \<Rightarrow> name_scan option" where
  "dns_name_step bytes = (\<lambda>(index, byte) s.
     if byte \<noteq> hyphen \<and> byte \<noteq> dot \<and> \<not> is_ascii_alphanumeric byte then None
     else let s1 = (if byte \<noteq> dot then s\<lparr>scan_bytes := scan_bytes s + 1\<rparr> else s) in
       if label_start s1 = None \<and> (byte = dot \<or> byte = hyphen) then None
       else let s2 = (if label_start s1 = None then s1\<lparr>label_start := Some index\<rparr> else s1) in
         if byte = dot then
           if index > 0 \<and> bytes ! (index - 1) = hyphen then None
           else if index - the (label_start s2) > MAX_LABEL_LENGTH then None
           else Some (s2\<lparr>scan_labels := scan_labels s2 + 1, label_start := None, is_label_numeric := True\<rparr>)
         else Some (if is_digit byte then s2 else s2\<lparr>is_label_numeric := False\<rparr>))"

fun scan_loop :: "('x \<Rightarrow> 's \<Rightarrow> 's option) \<Rightarrow> 'x list \<Rightarrow> 's \<Rightarrow> 's option" where
  "scan_loop step [] s = Some s"
| "scan_loop step (x # xs) s = (case step x s of None \<Rightarrow> None | Some s' \<Rightarrow> scan_loop step xs s')"

definition dns_name_end :: "bytes \<Rightarrow> name_scan \<Rightarrow> bool" where
  "dns_name_end bytes s = (case label_start s of
     None \<Rightarrow> False
   | Some label_start_idx \<Rightarrow>
       if bytes \<noteq> [] \<and> bytes ! (length bytes - 1) = hyphen then False
       else let num_label_bytes = length bytes - label_start_idx; num_labels = scan_labels s + 1 in
         if num_label_bytes > MAX_LABEL_LENGTH then False
         else if num_labels < MIN_LABELS then False
         else if is_label_numeric s then False
         else if num_label_bytes = 5 \<and> eq_ignore_ascii_case (drop label_start_idx bytes) (ascii ''local'')
         then False
         else 1 \<le> scan_bytes s \<and> scan_bytes s \<le> MAX_HOSTNAME_LENGTH)"

definition is_valid_dns_name :: "bytes \<Rightarrow> bool" where
  "is_valid_dns_name v = (case scan_loop (dns_name_step v) (enumerate 0 v) name_scan_start of
     None \<Rightarrow> False
   | Some s \<Rightarrow> dns_name_end v s)"

subsection \<open>Validating host-name patterns\<close>

record pattern_scan = name_scan +
  num_wildcards :: nat
  wildcard_label_positions :: "nat list"

definition pattern_scan_start :: pattern_scan where
  "pattern_scan_start = \<lparr>scan_bytes = 0, scan_labels = 0, label_start = None, is_label_numeric = True,
     num_wildcards = 0, wildcard_label_positions = []\<rparr>"

definition pattern_step :: "bytes \<Rightarrow> nat \<times> u8 \<Rightarrow> pattern_scan \<Rightarrow> pattern_scan option" where
  "pattern_step bytes = (\<lambda>(index, byte) s.
     if byte \<noteq> wild \<and> byte \<noteq> hyphen \<and> byte \<noteq> dot \<and> \<not> is_ascii_alphanumeric byte then None
     else let s1 = (if byte \<noteq> wild \<and> byte \<noteq> dot then s\<lparr>scan_bytes := scan_bytes s + 1\<rparr> else s) in
       if label_start s1 = None \<and> (byte = dot \<or> byte = hyphen) then None
       else let s2 = (if label_start s1 = None then s1\<lparr>label_start := Some index\<rparr> else s1) in
         if byte = dot then
           if index > 0 \<and> bytes ! (index - 1) = hyphen then None
           else if (index - the (label_start s2)) - num_wildcards s2 > MAX_LABEL_LENGTH then None
           else let num_labels = scan_labels s2 + 1 in
             Some (s2\<lparr>scan_labels := num_labels, label_start := None, is_label_numeric := True,
               num_wildcards := 0,
               wildcard_label_positions := (if num_wildcards s2 \<noteq> 0
                 then wildcard_label_positions s2 @ [num_labels] else wildcard_label_positions s2)\<rparr>)
         else let s3 = (if is_digit byte then s2 else s2\<lparr>is_label_numeric := False\<rparr>) in
           if byte = wild then
             if num_wildcards s3 \<ge> MAX_WILDCARDS_PER_LABEL then None
             else Some (s3\<lparr>num_wildcards := num_wildcards s3 + 1\<rparr>)
           else Some s3)"

definition pattern_end :: "bytes \<Rightarrow> pattern_scan \<Rightarrow> bool" where
  "pattern_end bytes s = (case label_start s of
     None \<Rightarrow> False
   | Some label_start_idx \<Rightarrow>
       if bytes \<noteq> [] \<and> bytes ! (length bytes - 1) = hyphen then False
       else let num_label_bytes = (length bytes - label_start_idx) - num_wildcards s;
                num_labels = scan_labels s + 1 in
         if num_label_bytes > MAX_LABEL_LENGTH then False
         else if num_labels < MIN_LABELS then False
         else if num_wildcards s \<noteq> 0 then False
         else if num_labels - 1 \<in> set (wildcard_label_positions s) then False
         else if is_label_numeric s then False
         else if num_label_bytes = 5 \<and> eq_ignore_ascii_case (drop label_start_idx bytes) (ascii ''local'')
         then False
         else 1 \<le> scan_bytes s \<and> scan_bytes s \<le> MAX_HOSTNAME_LENGTH)"

definition is_valid_dns_name_pattern :: "bytes \<Rightarrow> bool" where
  "is_valid_dns_name_pattern v =
     (case scan_loop (pattern_step v) (enumerate 0 v) pattern_scan_start of
        None \<Rightarrow> False
      | Some s \<Rightarrow> pattern_end v s)"

subsection \<open>Matching label by label\<close>

function label_end :: "bytes \<Rightarrow> nat \<Rightarrow> nat" where
  "label_end bs pos = (if pos < length bs \<and> bs ! pos \<noteq> dot then label_end bs (pos + 1) else pos)"
  by auto
termination by (relation "measure (\<lambda>(bs, pos). length bs - pos)") auto

declare label_end.simps [simp del]

lemma label_end_eq: "label_end bs pos = pos + length (takeWhile (\<lambda>b. b \<noteq> dot) (drop pos bs))"
proof (induction bs pos rule: label_end.induct)
  case (1 bs pos)
  show ?case
  proof (cases "pos < length bs")
    case True
    then have "drop pos bs = bs ! pos # drop (pos + 1) bs" by (simp add: Cons_nth_drop_Suc)
    then show ?thesis using 1 True by (subst label_end.simps) auto
  qed (simp add: label_end.simps)
qed

text \<open>
  The loop runs at most once per label of the name; a glob comparison that did not return would
  make it not return either, which is the value \<open>None\<close>.
\<close>

function match_labels :: "bytes \<Rightarrow> bytes \<Rightarrow> nat \<Rightarrow> nat \<Rightarrow> bool option" where
  "match_labels name pat n_pos p_pos =
     (let n_end = label_end name n_pos; p_end = label_end pat p_pos in
      case is_string_matching_glob_pattern (slice n_pos n_end name) (slice p_pos p_end pat) of
        None \<Rightarrow> None
      | Some False \<Rightarrow> Some False
      | Some True \<Rightarrow>
          let n_next = (if n_end < length name then n_end + 1 else n_end);
              p_next = (if p_end < length pat then p_end + 1 else p_end) in
          if n_next \<ge> length name \<and> p_next \<ge> length pat then Some True
          else if n_next \<ge> length name \<or> p_next \<ge> length pat then Some False
          else match_labels name pat n_next p_next)"
  by auto
termination
  by (relation "measure (\<lambda>(name, pat, n_pos, p_pos). length name - n_pos)")
    (auto simp: label_end_eq split: if_splits)

declare match_labels.simps [simp del]

text \<open>\<open>debug_assert!\<close> is active when the program is built with debug assertions.\<close>

definition is_dns_name_matching_pattern :: "bool \<Rightarrow> bytes \<Rightarrow> bytes \<Rightarrow> (bool option, unit) outcome" where
  "is_dns_name_matching_pattern debug_assertions name pat =
     (if debug_assertions \<and> \<not> is_valid_dns_name name then Panic
      else if debug_assertions \<and> \<not> is_valid_dns_name_pattern pat then Panic
      else Ok (match_labels name pat 0 0))"

subsection \<open>Glob matching, as it is defined in textbooks\<close>

fun globs :: "u8 list \<Rightarrow> u8 list \<Rightarrow> bool" where
  "globs [] [] = True"
| "globs (c # v) [] = False"
| "globs v (d # p) =
     (if d = wild then globs v p \<or> (case v of [] \<Rightarrow> False | c # v' \<Rightarrow> globs v' (d # p))
      else (case v of [] \<Rightarrow> False | c # v' \<Rightarrow> c = d \<and> globs v' p))"

lemma globs_Nil_iff: "globs v [] \<longleftrightarrow> v = []"
  by (cases v) auto

lemma globs_star: "globs v (wild # p) \<longleftrightarrow> (\<exists>k\<le>length v. globs (drop k v) p)"
proof (induction v)
  case (Cons c v)
  have "(\<exists>k\<le>length (c # v). globs (drop k (c # v)) p) \<longleftrightarrow>
      globs (c # v) p \<or> (\<exists>k\<le>length v. globs (drop k v) p)"
    by (metis drop0 drop_Suc_Cons le0 length_Cons not0_implies_Suc Suc_le_mono)
  then show ?case using Cons.IH by simp
qed simp

lemma globs_star_suffix: "globs (drop k v) (wild # p) \<Longrightarrow> globs v (wild # p)"
proof (cases "k \<le> length v")
  case True
  assume "globs (drop k v) (wild # p)"
  then obtain j where "j \<le> length v - k" "globs (drop (k + j) v) p"
    unfolding globs_star by (auto simp: add.commute)
  then show ?thesis using True unfolding globs_star by (intro exI[of _ "k + j"]) auto
next
  case False
  assume "globs (drop k v) (wild # p)"
  then have "globs [] p" using False by simp
  then have "globs (drop (length v) v) p" by simp
  then show ?thesis unfolding globs_star by blast
qed

lemma globs_literal:
  "wild \<notin> set l \<Longrightarrow> globs v (l @ p) \<Longrightarrow> globs (drop (length l) v) p \<and> length l \<le> length v"
proof (induction l arbitrary: v)
  case (Cons d l)
  then show ?case by (cases v) auto
qed simp

text \<open>A later wild makes every alternative of an earlier one superfluous.\<close>

lemma globs_last_star:
  assumes "wild \<notin> set l" "globs v (wild # l @ wild # p)"
  shows "globs (drop (length l) v) (wild # p)"
proof -
  from assms(2) obtain k where "globs (drop k v) (l @ wild # p)"
    unfolding globs_star by auto
  from globs_literal[OF assms(1) this] have "globs (drop k (drop (length l) v)) (wild # p)"
    by (simp add: add.commute)
  then show ?thesis by (rule globs_star_suffix)
qed


subsection \<open>The loop computes it\<close>

abbreviation uppercase :: "bytes \<Rightarrow> bytes" where "uppercase \<equiv> map to_upper"

lemma globs_step_star:
  assumes "j < length P" "P ! j = wild" "i < length V"
  shows "globs (drop i V) (drop j P) \<longleftrightarrow>
    globs (drop i V) (drop (Suc j) P) \<or> globs (drop (Suc i) V) (drop j P)"
  using assms by (simp add: Cons_nth_drop_Suc[symmetric])

lemma globs_step_star_end:
  assumes "j < length P" "P ! j = wild"
  shows "globs [] (drop j P) \<longleftrightarrow> globs [] (drop (Suc j) P)"
  using assms by (simp add: Cons_nth_drop_Suc[symmetric])

lemma globs_step_char:
  assumes "j < length P" "P ! j \<noteq> wild"
  shows "globs (drop i V) (drop j P) \<longleftrightarrow>
    i < length V \<and> V ! i = P ! j \<and> globs (drop (Suc i) V) (drop (Suc j) P)"
  using assms by (cases "i < length V") (auto simp: Cons_nth_drop_Suc[symmetric])

lemma globs_step_end: "length P \<le> j \<Longrightarrow> globs (drop i V) (drop j P) \<longleftrightarrow> length V \<le> i"
  by (simp add: globs_Nil_iff)

lemma glob_loop_at_end:
  "glob_loop v p (length v) 0 j np = Some (globs [] (drop j (uppercase p)))"
proof (induction "length p - j" arbitrary: j np)
  case 0
  then show ?case by (subst glob_loop.simps) simp
next
  case (Suc n)
  then have j: "j < length p" by simp
  show ?case
  proof (cases "to_upper (p ! j) = wild")
    case True
    have "glob_loop v p (length v) 0 (Suc j) j = Some (globs [] (drop (Suc j) (uppercase p)))"
      using Suc by simp
    then show ?thesis using True j globs_step_star_end[of j "uppercase p"]
      by (subst glob_loop.simps) simp
  next
    case False
    then show ?thesis using j globs_step_char[of j "uppercase p" 0 "[]"]
      by (subst glob_loop.simps) simp
  qed
qed

text \<open>
  A pending alternative: the last wild passed is at \<open>np\<close>, the pattern between it and the
  present position is literal and as long as the part of the value consumed for it.
\<close>

fun pending :: "bytes \<Rightarrow> bytes \<Rightarrow> nat \<times> nat \<times> nat \<times> nat \<Rightarrow> bool" where
  "pending V P (i, ni, j, np) \<longleftrightarrow>
     0 < ni \<and> ni \<le> length V \<and> i \<le> length V \<and> j \<le> length P \<and> np < j \<and> P ! np = wild \<and>
     wild \<notin> set (slice (Suc np) j P) \<and> i + np + 2 = ni + j"

lemma slice_self [simp]: "slice a a xs = []"
  by (simp add: slice_def)

lemma slice_snoc: "a \<le> b \<Longrightarrow> b < length xs \<Longrightarrow> slice a (Suc b) xs = slice a b xs @ [xs ! b]"
  by (simp add: slice_def Suc_diff_le take_Suc_conv_app_nth)

lemma pending_split:
  assumes "pending V P (i, ni, j, np)"
  shows "drop np P = wild # slice (Suc np) j P @ drop j P" "length (slice (Suc np) j P) = Suc i - ni"
proof -
  have "np < length P" using assms by simp
  then have "drop np P = P ! np # drop (Suc np) P" by (simp add: Cons_nth_drop_Suc)
  also have "drop (Suc np) P = slice (Suc np) j P @ drop j P"
    using assms by (simp add: slice_def) (metis Suc_leI append_take_drop_id drop_drop le_add_diff_inverse2)
  finally show "drop np P = wild # slice (Suc np) j P @ drop j P" using assms by simp
  show "length (slice (Suc np) j P) = Suc i - ni"
    using assms length_slice[of j P "Suc np"] by (simp del: length_slice) arith
qed

lemma pending_superseded:
  assumes "pending V P (i, ni, j, np)" "j < length P" "P ! j = wild" "globs (drop ni V) (drop np P)"
  shows "globs (drop i V) (drop j P)"
proof -
  let ?l = "slice (Suc np) j P"
  have dj: "drop j P = wild # drop (Suc j) P" using assms(2,3) by (simp add: Cons_nth_drop_Suc[symmetric])
  have "globs (drop (length ?l) (drop ni V)) (wild # drop (Suc j) P)"
    using assms(1,4) pending_split(1)[OF assms(1)] dj by (intro globs_last_star) auto
  then have "globs (drop 1 (drop i V)) (wild # drop (Suc j) P)"
    using assms(1) pending_split(2)[OF assms(1)] by (simp add: add.commute)
  then show ?thesis unfolding dj by (rule globs_star_suffix)
qed

lemma pending_fresh:
  "j < length P \<Longrightarrow> P ! j = wild \<Longrightarrow> i < length V \<Longrightarrow> pending V P (i, Suc i, Suc j, j)"
  by (simp add: slice_def)

lemma pending_literal:
  assumes "pending V P (i, ni, j, np)" "j < length P" "i < length V" "P ! j \<noteq> wild"
  shows "pending V P (Suc i, ni, Suc j, np)"
proof -
  have "slice (Suc np) (Suc j) P = slice (Suc np) j P @ [P ! j]"
    using assms slice_snoc[of "Suc np" j P] by simp
  then show ?thesis using assms by simp
qed

lemma glob_loop_pending:
  assumes "pending (uppercase v) (uppercase p) s"
  shows "case s of (i, ni, j, np) \<Rightarrow> glob_loop v p i ni j np =
    Some (globs (drop i (uppercase v)) (drop j (uppercase p)) \<or>
          globs (drop ni (uppercase v)) (drop np (uppercase p)))"
  using assms
proof (induction s rule: wf_induct_rule[OF wf_measures[of "[\<lambda>(i, ni, j, np). length p - np,
    \<lambda>(i, ni, j, np). length v - ni, \<lambda>(i, ni, j, np). length p - j]"]])
  case (1 s)
  obtain i ni j np where s: "s = (i, ni, j, np)" using prod_cases4 by blast
  let ?V = "uppercase v" and ?P = "uppercase p"
  have pend: "pending ?V ?P (i, ni, j, np)" using "1.prems" s by simp
  then have np: "np < length p" "to_upper (p ! np) = wild" and ni: "ni \<noteq> 0" "ni \<le> length v"
    and ij: "i \<le> length v" "j \<le> length p" "np < j" by auto
  note IH = "1.IH"[unfolded s]
  have again: "glob_loop v p ni (if ni < length v then ni + 1 else 0) (np + 1) np =
      Some (globs (drop ni ?V) (drop np ?P))"
  proof (cases "ni < length v")
    case True
    then show ?thesis
      using IH[of "(ni, Suc ni, Suc np, np)"] pending_fresh[of np ?P ni ?V] np
        globs_step_star[of np ?P ni ?V] by (simp add: diff_less_mono2)
  next
    case False
    then show ?thesis using glob_loop_at_end[of v p "Suc np" np] np ni
        globs_step_star_end[of np ?P] by simp
  qed
  consider (star) "j < length p" "to_upper (p ! j) = wild"
    | (char) "j < length p" "to_upper (p ! j) \<noteq> wild" "i < length v" "to_upper (v ! i) = to_upper (p ! j)"
    | (fail) "j < length p" "to_upper (p ! j) \<noteq> wild" "i < length v \<Longrightarrow> to_upper (v ! i) \<noteq> to_upper (p ! j)"
    | (over) "j = length p" using ij by linarith
  then have "glob_loop v p i ni j np = Some (globs (drop i ?V) (drop j ?P) \<or> globs (drop ni ?V) (drop np ?P))"
  proof cases
    case star
    have "globs (drop ni ?V) (drop np ?P) \<Longrightarrow> globs (drop i ?V) (drop j ?P)"
      using pending_superseded[OF pend] star by simp
    moreover have "glob_loop v p i (if i < length v then i + 1 else 0) (j + 1) j =
        Some (globs (drop i ?V) (drop j ?P))"
    proof (cases "i < length v")
      case True
      then show ?thesis
        using IH[of "(i, Suc i, Suc j, j)"] pending_fresh[of j ?P i ?V] star ij
          globs_step_star[of j ?P i ?V] by (simp add: diff_less_mono2)
    next
      case False
      then show ?thesis using glob_loop_at_end[of v p "Suc j" j] star ij
          globs_step_star_end[of j ?P] by simp
    qed
    ultimately show ?thesis using star by (subst glob_loop.simps) auto
  next
    case char
    then show ?thesis
      using IH[of "(Suc i, ni, Suc j, np)"] pending_literal[OF pend] globs_step_char[of j ?P i ?V] ij
      by (subst glob_loop.simps) simp
  next
    case fail
    then have "\<not> globs (drop i ?V) (drop j ?P)"
      using globs_step_char[of j ?P i ?V] by auto
    moreover have "glob_loop v p i ni j np = glob_loop v p ni ni np np"
      using fail ni by (subst glob_loop.simps) auto
    moreover have "glob_loop v p ni ni np np = Some (globs (drop ni ?V) (drop np ?P))"
      using again np by (subst glob_loop.simps) simp
    ultimately show ?thesis by simp
  next
    case over
    have "glob_loop v p ni ni np np = Some (globs (drop ni ?V) (drop np ?P))"
      using again np by (subst glob_loop.simps) simp
    then show ?thesis using over ij ni globs_step_end[of ?P j i ?V]
      by (subst glob_loop.simps) auto
  qed
  then show ?case by (simp add: s)
qed

lemma glob_loop_fresh:
  "i \<le> length v \<Longrightarrow> j \<le> length p \<Longrightarrow>
   glob_loop v p i 0 j np = Some (globs (drop i (uppercase v)) (drop j (uppercase p)))"
proof (induction "length p - j" arbitrary: i j np)
  case 0
  then show ?case using globs_step_end[of "uppercase p" j i "uppercase v"]
    by (subst glob_loop.simps) auto
next
  case (Suc n)
  let ?V = "uppercase v" and ?P = "uppercase p"
  from Suc have j: "j < length p" by simp
  consider (star) "to_upper (p ! j) = wild" "i < length v"
    | (at_end) "to_upper (p ! j) = wild" "i = length v"
    | (char) "to_upper (p ! j) \<noteq> wild" using Suc.prems by linarith
  then show ?case
  proof cases
    case star
    then have "glob_loop v p i (Suc i) (Suc j) j =
        Some (globs (drop i ?V) (drop (Suc j) ?P) \<or> globs (drop (Suc i) ?V) (drop j ?P))"
      using glob_loop_pending[of v p "(i, Suc i, Suc j, j)"] pending_fresh[of j ?P i ?V] j by simp
    then show ?thesis using star j globs_step_star[of j ?P i ?V] by (subst glob_loop.simps) simp
  next
    case at_end
    then show ?thesis using glob_loop_at_end[of v p j] by simp
  next
    case char
    then show ?thesis using j Suc globs_step_char[of j ?P i ?V] by (subst glob_loop.simps) auto
  qed
qed

lemma glob_matches: "is_string_matching_glob_pattern v p = Some (globs (uppercase v) (uppercase p))"
  using glob_loop_fresh[of 0 v 0 p 0] by (simp add: is_string_matching_glob_pattern_def)


subsection \<open>What the validators accept\<close>

definition wildcards :: "bytes \<Rightarrow> nat" where
  "wildcards l = length (filter (\<lambda>b. b = wild) l)"

definition pattern_char :: "u8 \<Rightarrow> bool" where
  "pattern_char b \<longleftrightarrow> b = wild \<or> b = hyphen \<or> is_ascii_alphanumeric b"

text \<open>A finished label, and the part of a label read so far.\<close>

definition pattern_part :: "bytes \<Rightarrow> bool" where
  "pattern_part l \<longleftrightarrow> list_all pattern_char l \<and> (l = [] \<or> hd l \<noteq> hyphen) \<and> wildcards l \<le> 2"

definition pattern_label :: "bytes \<Rightarrow> bool" where
  "pattern_label l \<longleftrightarrow> l \<noteq> [] \<and> pattern_part l \<and> last l \<noteq> hyphen \<and> length l - wildcards l \<le> 63"

definition pattern_labels :: "bytes list \<Rightarrow> bool" where
  "pattern_labels ls \<longleftrightarrow>
     list_all pattern_label ls \<and> 2 \<le> length ls \<and>
     wild \<notin> set (last ls) \<and> wild \<notin> set (last (butlast ls)) \<and>
     \<not> list_all is_digit (last ls) \<and> \<not> eq_ignore_ascii_case (last ls) (ascii ''local'') \<and>
     (\<Sum>l\<leftarrow>ls. length l - wildcards l) \<le> 253"

lemma wildcards_simps [simp]:
  "wildcards [] = 0" "wildcards (b # l) = (if b = wild then 1 else 0) + wildcards l"
  "wildcards (l @ m) = wildcards l + wildcards m"
  by (auto simp: wildcards_def)

lemma wildcards_0_iff: "wildcards l = 0 \<longleftrightarrow> wild \<notin> set l"
  by (auto simp: wildcards_def filter_empty_conv)

lemma split_on_snoc_other:
  "x \<noteq> c \<Longrightarrow> split_on c (xs @ [x]) = butlast (split_on c xs) @ [last (split_on c xs) @ [x]]"
  by (induction xs) (auto split: list.splits simp: neq_Nil_conv)

lemma scan_loop_append:
  "scan_loop step (xs @ ys) s = (case scan_loop step xs s of None \<Rightarrow> None | Some s' \<Rightarrow> scan_loop step ys s')"
  by (induction xs arbitrary: s) (auto split: option.splits)

lemma scan_loop_stop: "x \<in> set xs \<Longrightarrow> (\<And>s. step x s = None) \<Longrightarrow> scan_loop step xs s = None"
  by (induction xs arbitrary: s) (auto split: option.splits)

text \<open>The state of the scan after a prefix is a function of the labels of the prefix.\<close>

abbreviation finished :: "bytes \<Rightarrow> bytes list" where "finished pre \<equiv> butlast (split_on dot pre)"
abbreviation current :: "bytes \<Rightarrow> bytes" where "current pre \<equiv> last (split_on dot pre)"

definition scan_ok :: "bytes \<Rightarrow> bool" where
  "scan_ok pre \<longleftrightarrow> list_all pattern_label (finished pre) \<and> pattern_part (current pre)"

definition scan_of :: "bytes \<Rightarrow> pattern_scan" where
  "scan_of pre = \<lparr>scan_bytes = length (filter (\<lambda>b. b \<noteq> wild \<and> b \<noteq> dot) pre),
     scan_labels = length (finished pre),
     label_start = (if current pre = [] then None else Some (length pre - length (current pre))),
     is_label_numeric = list_all is_digit (current pre),
     num_wildcards = wildcards (current pre),
     wildcard_label_positions =
       map Suc (filter (\<lambda>k. wildcards (finished pre ! k) \<noteq> 0) [0..<length (finished pre)])\<rparr>"

lemma current_suffix: "\<exists>q. pre = q @ current pre"
proof (cases "finished pre = []")
  case True
  then have "split_on dot pre = [current pre]"
    by (metis append_butlast_last_id append_Nil split_on_not_Nil)
  then show ?thesis by (metis append_Nil join.simps(2) join_split_on)
next
  case False
  have "split_on dot pre = finished pre @ [current pre]" by simp
  then have "pre = join dot (finished pre @ [current pre])" using join_split_on[of dot pre] by argo
  then have "pre = (join dot (finished pre) @ [dot]) @ current pre"
    using join_append_singleton[OF False, of dot "current pre"] by simp
  then show ?thesis by blast
qed

lemma current_last: "current pre \<noteq> [] \<Longrightarrow> last pre = last (current pre) \<and> pre \<noteq> []"
  by (metis append_is_Nil_conv current_suffix last_appendR)

lemma length_current: "length (current pre) \<le> length pre"
  by (metis current_suffix le_add2 length_append)

lemma filter_nth_snoc:
  "filter (\<lambda>k. P ((xs @ [x]) ! k)) [0..<length xs] = filter (\<lambda>k. P (xs ! k)) [0..<length xs]"
  by (rule filter_cong) (auto simp: nth_append)

lemma dot_chars: "\<not> pattern_char dot" "\<not> is_digit dot" "\<not> is_digit wild" "\<not> is_digit hyphen"
  "\<not> is_ascii_alphanumeric dot" "\<not> is_ascii_alphanumeric hyphen" "\<not> is_ascii_alphanumeric wild"
  by (simp_all add: pattern_char_def is_digit_def is_ascii_alphanumeric_def)

lemma step_dot:
  assumes "scan_ok pre" "v = pre @ dot # post"
  shows "pattern_step v (length pre, dot) (scan_of pre) =
    (if scan_ok (pre @ [dot]) then Some (scan_of (pre @ [dot])) else None)"
proof (cases "current pre = []")
  case True
  then have "[] \<in> set (split_on dot pre)" by (metis last_in_set split_on_not_Nil)
  then have "\<not> list_all pattern_label (split_on dot pre)" by (auto simp: list_all_iff pattern_label_def)
  then show ?thesis using True
    by (simp add: pattern_step_def scan_of_def scan_ok_def split_on_snoc)
next
  case False
  then have "v ! (length pre - 1) = last (current pre)" "pre \<noteq> []"
    using assms(2) current_last[OF False] by (auto simp: nth_append last_conv_nth)
  moreover obtain F C where "split_on dot pre = F @ [C]" by (metis append_butlast_last_id split_on_not_Nil)
  ultimately show ?thesis using False assms(1) length_current[of pre]
    by (simp add: pattern_step_def scan_of_def scan_ok_def pattern_label_def pattern_part_def Let_def
        MAX_LABEL_LENGTH_def split_on_snoc butlast_append
        filter_nth_snoc[where P = "\<lambda>l. 0 < wildcards l"])
qed

lemma step_char:
  assumes "scan_ok pre" "b \<noteq> dot"
  shows "pattern_step v (length pre, b) (scan_of pre) =
    (if scan_ok (pre @ [b]) then Some (scan_of (pre @ [b])) else None)"
  using assms length_current[of pre] dot_chars
  by (auto simp: pattern_step_def scan_of_def scan_ok_def split_on_snoc_other pattern_part_def Let_def
      pattern_char_def MAX_WILDCARDS_PER_LABEL_def hd_append)

lemma scan_loop_prefix:
  "v = pre @ post \<Longrightarrow> scan_loop (pattern_step v) (enumerate 0 pre) pattern_scan_start =
     (if scan_ok pre then Some (scan_of pre) else None)"
proof (induction pre arbitrary: post rule: rev_induct)
  case Nil
  then show ?case by (simp add: scan_ok_def scan_of_def pattern_scan_start_def pattern_part_def)
next
  case (snoc b pre)
  have mono: "scan_ok (pre @ [b]) \<Longrightarrow> scan_ok pre"
  proof (cases "b = dot")
    case True
    then show "scan_ok (pre @ [b]) \<Longrightarrow> scan_ok pre"
      by (simp add: scan_ok_def split_on_snoc list_all_iff pattern_label_def in_set_butlastD)
  next
    case False
    then show "scan_ok (pre @ [b]) \<Longrightarrow> scan_ok pre"
      by (auto simp: scan_ok_def split_on_snoc_other pattern_part_def hd_append split: if_splits)
  qed
  show ?case
  proof (cases "scan_ok pre")
    case True
    then show ?thesis
      using snoc.IH[of "b # post"] snoc.prems step_dot[OF True, of v post] step_char[OF True, of b v]
      by (cases "b = dot") (simp_all add: enumerate_append_eq scan_loop_append split: option.splits)
  next
    case False
    then show ?thesis
      using snoc.IH[of "b # post"] snoc.prems mono by (auto simp: enumerate_append_eq scan_loop_append)
  qed
qed


lemma scan_bytes_sum:
  "length (filter (\<lambda>b. b \<noteq> wild \<and> b \<noteq> dot) v) = (\<Sum>l\<leftarrow>split_on dot v. length l - wildcards l)"
proof -
  have lit: "dot \<notin> set l \<Longrightarrow> length (filter (\<lambda>b. b \<noteq> wild \<and> b \<noteq> dot) l) = length l - wildcards l" for l
    by (induction l) (auto simp: wildcards_def Suc_diff_le length_filter_le)
  have "filter (\<lambda>b. b \<noteq> wild \<and> b \<noteq> dot) v =
      concat (map (filter (\<lambda>b. b \<noteq> wild \<and> b \<noteq> dot)) (split_on dot v))"
    using filter_join[of "\<lambda>b. b \<noteq> wild \<and> b \<noteq> dot" dot "split_on dot v"] by simp
  moreover have "map (\<lambda>l. length (filter (\<lambda>b. b \<noteq> wild \<and> b \<noteq> dot) l)) (split_on dot v) =
      map (\<lambda>l. length l - wildcards l) (split_on dot v)"
    using lit split_on_pieces[of _ dot v] by simp
  ultimately show ?thesis by (simp only: length_concat map_map comp_def)
qed

lemma scan_result: "is_valid_dns_name_pattern v \<longleftrightarrow> scan_ok v \<and> pattern_end v (scan_of v)"
  using scan_loop_prefix[of v v "[]"] by (simp add: is_valid_dns_name_pattern_def)

lemma valid_pattern_iff: "is_valid_dns_name_pattern v \<longleftrightarrow> pattern_labels (split_on dot v)"
proof -
  obtain F C where FC: "split_on dot v = F @ [C]" by (metis append_butlast_last_id split_on_not_Nil)
  have last_C: "C \<noteq> [] \<Longrightarrow> v \<noteq> [] \<and> v ! (length v - 1) = last C"
    using current_last[of v] FC by (auto simp: last_conv_nth)
  obtain q where "v = q @ C" using current_suffix[of v] FC by auto
  then have C: "drop (length v - length C) v = C" "length v - (length v - length C) = length C" by auto
  have sum: "length (filter (\<lambda>b. b \<noteq> wild \<and> b \<noteq> dot) v) = (\<Sum>l\<leftarrow>F @ [C]. length l - wildcards l)"
    using scan_bytes_sum[of v] FC by simp
  have second: "F \<noteq> [] \<Longrightarrow> length F \<in> set (map Suc (filter (\<lambda>k. wildcards (F ! k) \<noteq> 0) [0..<length F]))
      \<longleftrightarrow> wild \<in> set (last F)"
    by (cases F rule: rev_cases) (auto simp: nth_append wildcards_0_iff)
  have local: "eq_ignore_ascii_case C (ascii ''local'') \<Longrightarrow> length C = 5"
    by (auto simp: eq_ignore_ascii_case_def ascii_def dest: arg_cong[of _ _ length])
  show ?thesis
  proof (cases "C = [] \<or> F = []")
    case True
    then show ?thesis unfolding scan_result pattern_labels_def
      by (auto simp: FC pattern_end_def scan_of_def MIN_LABELS_def pattern_label_def Let_def)
  next
    case False
    then have "pattern_end v (scan_of v) \<longleftrightarrow> last C \<noteq> hyphen \<and> length C - wildcards C \<le> 63 \<and>
        wildcards C = 0 \<and> wild \<notin> set (last F) \<and> \<not> list_all is_digit C \<and>
        \<not> (length C = 5 \<and> eq_ignore_ascii_case C (ascii ''local'')) \<and>
        1 \<le> (\<Sum>l\<leftarrow>F @ [C]. length l - wildcards l) \<and> (\<Sum>l\<leftarrow>F @ [C]. length l - wildcards l) \<le> 253"
      using last_C second[symmetric]
      by (simp add: FC sum pattern_end_def scan_of_def Let_def C MIN_LABELS_def MAX_LABEL_LENGTH_def
          MAX_HOSTNAME_LENGTH_def del: set_map set_filter)
    moreover have "2 \<le> length (F @ [C])" using False by (cases F) auto
    moreover have "wildcards C = 0 \<Longrightarrow> 1 \<le> (\<Sum>l\<leftarrow>F @ [C]. length l - wildcards l)"
      using False by (cases C) auto
    ultimately show ?thesis
      unfolding scan_result pattern_labels_def FC using False local
      by (auto simp: FC scan_ok_def pattern_label_def wildcards_0_iff)
  qed
qed


subsection \<open>A name is a pattern without wildcards\<close>

definition lift_scan :: "name_scan \<Rightarrow> pattern_scan" where
  "lift_scan s = \<lparr>scan_bytes = scan_bytes s, scan_labels = scan_labels s, label_start = label_start s,
     is_label_numeric = is_label_numeric s, num_wildcards = 0, wildcard_label_positions = []\<rparr>"

lemma step_lift:
  "b \<noteq> wild \<Longrightarrow> pattern_step v (i, b) (lift_scan s) = map_option lift_scan (dns_name_step v (i, b) s)"
  by (auto simp: pattern_step_def dns_name_step_def lift_scan_def Let_def)

lemma loop_lift:
  "\<forall>(i, b)\<in>set xs. b \<noteq> wild \<Longrightarrow>
   scan_loop (pattern_step v) xs (lift_scan s) = map_option lift_scan (scan_loop (dns_name_step v) xs s)"
proof (induction xs arbitrary: s)
  case (Cons x xs)
  obtain i b where x: "x = (i, b)" by fastforce
  then show ?case using Cons step_lift[of b v i s] by (cases "dns_name_step v (i, b) s") auto
qed simp

lemma end_lift: "pattern_end v (lift_scan s) = dns_name_end v s"
  by (auto simp: pattern_end_def dns_name_end_def lift_scan_def Let_def split: option.splits)

lemma valid_name_iff: "is_valid_dns_name v \<longleftrightarrow> is_valid_dns_name_pattern v \<and> wild \<notin> set v"
proof (cases "wild \<in> set v")
  case True
  then obtain i where "i < length v" "v ! i = wild" by (auto simp: in_set_conv_nth)
  then have "(i, wild) \<in> set (enumerate 0 v)" by (auto simp: in_set_enumerate_eq)
  moreover have "dns_name_step v (i, wild) s = None" for s
    by (simp add: dns_name_step_def dot_chars)
  ultimately have "scan_loop (dns_name_step v) (enumerate 0 v) name_scan_start = None"
    by (rule scan_loop_stop)
  then show ?thesis using True by (simp add: is_valid_dns_name_def)
next
  case False
  then have "\<forall>(i, b)\<in>set (enumerate 0 v). b \<noteq> wild"
    by (fastforce simp: in_set_enumerate_eq dest: nth_mem)
  moreover have "pattern_scan_start = lift_scan name_scan_start"
    by (simp add: pattern_scan_start_def name_scan_start_def lift_scan_def)
  ultimately show ?thesis using False loop_lift[of "enumerate 0 v" v name_scan_start]
    by (auto simp: is_valid_dns_name_pattern_def is_valid_dns_name_def end_lift split: option.splits)
qed

subsection \<open>Matching label by label, over the lists of labels\<close>

abbreviation label_matches :: "bytes \<Rightarrow> bytes \<Rightarrow> bool" where
  "label_matches l m \<equiv> globs (uppercase l) (uppercase m)"

lemma split_on_at:
  "split_on c xs = takeWhile (\<lambda>x. x \<noteq> c) xs #
     (if length (takeWhile (\<lambda>x. x \<noteq> c) xs) < length xs
      then split_on c (drop (Suc (length (takeWhile (\<lambda>x. x \<noteq> c) xs))) xs) else [])"
  by (induction xs) auto

lemma split_on_from:
  "pos \<le> length bs \<Longrightarrow> split_on dot (drop pos bs) = slice pos (label_end bs pos) bs #
     (if label_end bs pos < length bs then split_on dot (drop (label_end bs pos + 1) bs) else [])"
  using split_on_at[of dot "drop pos bs"]
  by (simp add: label_end_eq slice_def add.commute add.left_commute less_diff_conv
      takeWhile_eq_take[symmetric])

lemma label_end_bounds: "pos \<le> length bs \<Longrightarrow> pos \<le> label_end bs pos \<and> label_end bs pos \<le> length bs"
  using length_takeWhile_le[of "\<lambda>b. b \<noteq> dot" "drop pos bs"] by (auto simp: label_end_eq)

lemma match_labels_spec:
  assumes "n \<le> length name" "p \<le> length pat"
    "[] \<notin> set (split_on dot (drop n name))" "[] \<notin> set (split_on dot (drop p pat))"
  shows "match_labels name pat n p =
    Some (list_all2 label_matches (split_on dot (drop n name)) (split_on dot (drop p pat)))"
  using assms
proof (induction name pat n p rule: match_labels.induct)
  case (1 name pat n p)
  let ?n = "label_end name n" and ?p = "label_end pat p"
  note bounds = label_end_bounds[OF 1(2)] label_end_bounds[OF 1(3)]
  note splits = split_on_from[OF 1(2)] split_on_from[OF 1(3)]
  have ends: "?n < length name \<Longrightarrow> ?n + 1 < length name" "?p < length pat \<Longrightarrow> ?p + 1 < length pat"
    using splits 1(4,5) by (auto simp: not_less intro: ccontr)
  consider (over) "?n = length name \<or> ?p = length pat" | (more) "?n < length name" "?p < length pat"
    using bounds by linarith
  then show ?case
  proof cases
    case over
    then show ?thesis using splits ends bounds
      by (subst match_labels.simps) (auto simp: glob_matches Let_def split: bool.splits)
  next
    case more
    have "label_matches (slice n ?n name) (slice p ?p pat) \<Longrightarrow> match_labels name pat (?n + 1) (?p + 1) =
        Some (list_all2 label_matches (split_on dot (drop (?n + 1) name)) (split_on dot (drop (?p + 1) pat)))"
      using more ends splits 1(4,5) by (intro 1(1)) (auto simp: glob_matches)
    then show ?thesis using more ends splits
      by (subst match_labels.simps) (auto simp: glob_matches Let_def split: bool.splits)
  qed
qed


lemma no_empty_labels: "is_valid_dns_name_pattern v \<Longrightarrow> [] \<notin> set (split_on dot v)"
  by (auto simp: valid_pattern_iff pattern_labels_def pattern_label_def list_all_iff)

lemma matching_valid:
  assumes "is_valid_dns_name name" "is_valid_dns_name_pattern pat"
  shows "is_dns_name_matching_pattern debug name pat =
    Ok (Some (list_all2 label_matches (split_on dot name) (split_on dot pat)))"
  using assms match_labels_spec[of 0 name 0 pat] no_empty_labels[of pat] no_empty_labels[of name]
  by (simp add: is_dns_name_matching_pattern_def valid_name_iff)

lemma to_upper_star [simp]: "to_upper b = wild \<longleftrightarrow> b = wild"
proof -
  have "to_upper wild = wild" by (simp add: to_upper_def)
  moreover have "0x61 \<le> b \<Longrightarrow> b \<le> 0x7A \<Longrightarrow> b - (0x61 - 0x41) \<noteq> wild"
    by (auto simp: diff_eq_eq word_le_nat_alt)
  ultimately show ?thesis by (auto simp: to_upper_def)
qed

lemma globs_no_star: "wild \<notin> set p \<Longrightarrow> globs v p \<longleftrightarrow> v = p"
proof (induction p arbitrary: v)
  case (Cons d p)
  then show ?case by (cases v) auto
qed (simp add: globs_Nil_iff)

lemma label_matches_literal: "wild \<notin> set m \<Longrightarrow> label_matches l m \<longleftrightarrow> uppercase l = uppercase m"
  by (subst globs_no_star) (auto, metis to_upper_star)

lemma last_two: "2 \<le> length ls \<Longrightarrow> \<exists>xs. ls = xs @ [last (butlast ls), last ls]"
  by (cases ls rule: rev_cases, simp, rename_tac ys y, case_tac ys rule: rev_cases) (auto simp: butlast_append)

subsection \<open>Properties\<close>

text \<open>
  C33: glob matching terminates and is correct.  The loop with one backtracking point returns on
  every value and every pattern, and its answer is the one of the recursive definition of glob
  matching on the upper-cased strings: a wild stands for any run of bytes, every other byte for
  itself.  Giving up the alternatives of all stars but the last one loses no match.
\<close>

theorem glob_equals_reference:
  "is_string_matching_glob_pattern v p = Some (globs (uppercase v) (uppercase p))"
  by (rule glob_matches)

text \<open>
  C34: a filter pattern cannot reach outside its domain.  Whenever the validator accepts a
  pattern and the matcher says that a valid host name matches it, the name has as many labels as
  the pattern, and its last two labels are those of the pattern up to ASCII case, so a wildcard
  never decides the registered domain; with these arguments the matcher returns and no debug
  assertion fires.
\<close>

theorem pattern_match_confined:
  assumes "is_valid_dns_name name" "is_valid_dns_name_pattern pat"
  shows "\<exists>r. is_dns_name_matching_pattern debug name pat = Ok (Some r) \<and>
    (r \<longrightarrow> length (split_on dot name) = length (split_on dot pat) \<and>
      map uppercase (drop (length (split_on dot name) - 2) (split_on dot name)) =
      map uppercase (drop (length (split_on dot pat) - 2) (split_on dot pat)))"
proof -
  let ?N = "split_on dot name" and ?P = "split_on dot pat"
  have labels: "pattern_labels ?N" "pattern_labels ?P" using assms by (auto simp: valid_name_iff valid_pattern_iff)
  have "map uppercase (drop (length ?N - 2) ?N) = map uppercase (drop (length ?P - 2) ?P)"
    if match: "list_all2 label_matches ?N ?P"
  proof -
    obtain xs where xs: "?N = xs @ [last (butlast ?N), last ?N]"
      using last_two labels(1) unfolding pattern_labels_def by blast
    obtain ys where ys: "?P = ys @ [last (butlast ?P), last ?P]"
      using last_two labels(2) unfolding pattern_labels_def by blast
    have "length ?N = length ?P" using match by (rule list_all2_lengthD)
    then have len: "length xs = length ys"
      by (metis add_right_cancel length_append length_Cons list.size(3) xs ys)
    have "list_all2 label_matches (xs @ [last (butlast ?N), last ?N]) (ys @ [last (butlast ?P), last ?P])"
      using match xs ys by argo
    then have "label_matches (last (butlast ?N)) (last (butlast ?P))" "label_matches (last ?N) (last ?P)"
      using len by (auto simp: list_all2_append)
    then have eqs: "uppercase (last (butlast ?N)) = uppercase (last (butlast ?P))"
      "uppercase (last ?N) = uppercase (last ?P)"
      using labels(2) by (auto simp: label_matches_literal pattern_labels_def)
    have "drop (length ?N - 2) ?N = [last (butlast ?N), last ?N]"
      by (subst (1 2) xs) simp
    moreover have "drop (length ?P - 2) ?P = [last (butlast ?P), last ?P]"
      by (subst (1 2) ys) simp
    ultimately show ?thesis using eqs by simp
  qed
  then show ?thesis
    using matching_valid[OF assms, of debug] list_all2_lengthD[of label_matches ?N ?P] by blast
qed

definition example_host :: bytes where "example_host = ascii ''Api.Example.com''"
definition example_pattern :: bytes where "example_pattern = ascii ''a*i.example.com''"

lemma example_valid: "is_valid_dns_name example_host" "is_valid_dns_name_pattern example_pattern"
  by code_simp+

theorem pattern_match_confined_witness:
  "\<exists>r. is_dns_name_matching_pattern True example_host example_pattern = Ok (Some r) \<and>
    (r \<longrightarrow> map uppercase (drop (length (split_on dot example_host) - 2) (split_on dot example_host)) =
      map uppercase (drop (length (split_on dot example_pattern) - 2) (split_on dot example_pattern)))"
  using pattern_match_confined[OF example_valid, of True] by blast

text \<open>
  The length limit of 253 counts neither dots nor wildcards: a name of four labels of 63 bytes
  and a fifth of one byte is accepted although its text is 257 bytes long.
\<close>

definition long_host :: bytes where
  "long_host = join dot (replicate 4 (replicate 63 0x61) @ [[0x62]])"

lemma long_host_accepted: "is_valid_dns_name long_host" "length long_host = 257"
proof -
  have split: "split_on dot long_host = replicate 4 (replicate 63 0x61) @ [[0x62]]"
    unfolding long_host_def by (rule split_on_join) auto
  have w: "wildcards (replicate n 0x61) = 0" for n by (simp add: wildcards_def)
  have "pattern_labels (split_on dot long_host)"
    unfolding split pattern_labels_def
    by (simp add: w pattern_label_def pattern_part_def pattern_char_def is_ascii_alphanumeric_def
        is_digit_def eq_ignore_ascii_case_def ascii_def butlast_append hd_replicate
        list_all_iff sum_list_replicate)
  moreover have "wild \<notin> set long_host"
    by code_simp
  ultimately show "is_valid_dns_name long_host" by (simp add: valid_name_iff valid_pattern_iff)
  show "length long_host = 257" by (simp add: long_host_def numeral_eq_Suc)
qed

text \<open>A wildcard directly above a two-label public suffix is accepted.\<close>

lemma broad_pattern_accepted: "is_valid_dns_name_pattern (ascii ''*.co.uk'')"
  by code_simp

end
