(* ===== verification/Rust_Net.thy ===== *)
theory Rust_Net
  imports Core_Types Rust_Str
begin

text \<open>
  \<open>IpAddr::from_str\<close> of the Rust standard library, as its reader does it: an IPv4 address is four
  decimal numbers without leading zeros; an IPv6 address is eight groups of up to four
  hexadecimal digits, a tail in IPv4 notation and at most one \<open>::\<close>.  The whole text has to be
  read.  The IPv4 reader accepts what \<open>Display\<close> prints.
\<close>

abbreviation colon :: u8 where "colon \<equiv> 0x3A"

definition to_digit :: "int \<Rightarrow> u8 \<Rightarrow> int option" where
  "to_digit radix b =
     (let d = (if is_digit b then uint (b - 0x30)
               else if 0x61 \<le> b \<and> b \<le> 0x7A then uint (b - 0x61) + 10
               else if 0x41 \<le> b \<and> b \<le> 0x5A then uint (b - 0x41) + 10
               else 36) in
      if d < radix then Some d else None)"

fun number_loop :: "int \<Rightarrow> nat \<Rightarrow> int \<Rightarrow> int \<Rightarrow> nat \<Rightarrow> bytes \<Rightarrow> (int \<times> nat \<times> bytes) option" where
  "number_loop radix max_digits largest result digits [] = Some (result, digits, [])"
| "number_loop radix max_digits largest result digits (b # r) =
     (case to_digit radix b of
        None \<Rightarrow> Some (result, digits, b # r)
      | Some d \<Rightarrow>
          if result * radix + d > largest \<or> digits + 1 > max_digits then None
          else number_loop radix max_digits largest (result * radix + d) (digits + 1) r)"

definition read_number :: "int \<Rightarrow> nat \<Rightarrow> int \<Rightarrow> bool \<Rightarrow> bytes \<Rightarrow> (int \<times> bytes) option" where
  "read_number radix max_digits largest allow_zero_prefix s =
     (case number_loop radix max_digits largest 0 0 s of
        None \<Rightarrow> None
      | Some (result, digits, r) \<Rightarrow>
          if digits = 0 then None
          else if \<not> allow_zero_prefix \<and> hd s = 0x30 \<and> digits > 1 then None
          else Some (result, r))"

definition read_given_char :: "u8 \<Rightarrow> bytes \<Rightarrow> bytes option" where
  "read_given_char c s = (case s of b # r \<Rightarrow> if b = c then Some r else None | [] \<Rightarrow> None)"

text \<open>\<open>read_separator\<close>: the separator comes before every item but the first.\<close>

definition read_separator :: "u8 \<Rightarrow> nat \<Rightarrow> (bytes \<Rightarrow> 'a option) \<Rightarrow> bytes \<Rightarrow> 'a option" where
  "read_separator c i inner s =
     (if i > 0 then (case read_given_char c s of None \<Rightarrow> None | Some r \<Rightarrow> inner r) else inner s)"

fun read_octets :: "nat \<Rightarrow> nat \<Rightarrow> bytes \<Rightarrow> (bytes \<times> bytes) option" where
  "read_octets i 0 s = Some ([], s)"
| "read_octets i (Suc n) s =
     (case read_separator dot i (read_number 10 3 255 False) s of
        None \<Rightarrow> None
      | Some (v, r) \<Rightarrow> (case read_octets (Suc i) n r of
          None \<Rightarrow> None
        | Some (os, r') \<Rightarrow> Some (of_int v # os, r')))"

definition read_ipv4_addr :: "bytes \<Rightarrow> (bytes \<times> bytes) option" where
  "read_ipv4_addr s = read_octets 0 4 s"

text \<open>
  Up to \<open>n\<close> groups of which \<open>i\<close> have been read; the flag tells that the last two came from an IPv4
  tail, and the text is left where the first group that cannot be read would start.
\<close>

fun read_groups :: "nat \<Rightarrow> nat \<Rightarrow> bytes \<Rightarrow> u16 list \<times> bool \<times> bytes" where
  "read_groups i 0 s = ([], False, s)"
| "read_groups i (Suc n) s =
     (case (if n > 0 then read_separator colon i read_ipv4_addr s else None) of
        Some (os, r) \<Rightarrow> ([be16 (os ! 0) (os ! 1), be16 (os ! 2) (os ! 3)], True, r)
      | None \<Rightarrow>
          (case read_separator colon i (read_number 16 4 65535 True) s of
             None \<Rightarrow> ([], False, s)
           | Some (g, r) \<Rightarrow>
               (case read_groups (Suc i) n r of (gs, v4, r') \<Rightarrow> (of_int g # gs, v4, r'))))"

definition read_ipv6_addr :: "bytes \<Rightarrow> (bytes \<times> bytes) option" where
  "read_ipv6_addr s =
     (case read_groups 0 8 s of (hd_groups, hd_v4, r) \<Rightarrow>
        if length hd_groups = 8 then Some (concat (map put_u16 hd_groups), r)
        else if hd_v4 then None
        else (case read_given_char colon r of
          None \<Rightarrow> None
        | Some r1 \<Rightarrow> (case read_given_char colon r1 of
            None \<Rightarrow> None
          | Some r2 \<Rightarrow>
              (case read_groups 0 (8 - (length hd_groups + 1)) r2 of (tl_groups, _, r3) \<Rightarrow>
                 Some (concat (map put_u16
                   (hd_groups @ replicate (8 - length hd_groups - length tl_groups) 0 @ tl_groups)), r3)))))"

definition parse_ip_addr :: "bytes \<Rightarrow> ip_addr option" where
  "parse_ip_addr s =
     (case read_ipv4_addr s of
        Some (os, r) \<Rightarrow> if r = [] then Some (V4 os) else None
      | None \<Rightarrow> (case read_ipv6_addr s of
          Some (os, r) \<Rightarrow> if r = [] then Some (V6 os) else None
        | None \<Rightarrow> None))"

definition show_ipv4 :: "bytes \<Rightarrow> bytes" where
  "show_ipv4 os = join dot (map (\<lambda>b. show_dec (unat b)) os)"

subsection \<open>What the readers return\<close>

lemma read_octets_length: "read_octets i n s = Some (os, r) \<Longrightarrow> length os = n"
  by (induction i n s arbitrary: os rule: read_octets.induct) (auto split: option.splits)

lemma read_groups_length: "length (fst (read_groups i n s)) \<le> n"
proof (induction i n s rule: read_groups.induct)
  case (2 i n s)
  then show ?case
    by (cases "if n > 0 then read_separator colon i read_ipv4_addr s else None")
      (auto split: option.splits prod.splits if_splits)
qed simp

lemma length_groups: "length (concat (map put_u16 gs)) = 2 * length gs"
  by (induction gs) auto

lemma read_ipv6_length: "read_ipv6_addr s = Some (os, r) \<Longrightarrow> length os = 16"
proof -
  assume read: "read_ipv6_addr s = Some (os, r)"
  obtain hg v4 r0 where h: "read_groups 0 8 s = (hg, v4, r0)" using prod_cases3 by blast
  have hg: "length hg \<le> 8" using read_groups_length[of 0 8 s] h by simp
  show ?thesis
  proof (cases "length hg = 8")
    case True
    then show ?thesis using read by (auto simp: read_ipv6_addr_def h length_groups)
  next
    case False
    then obtain r2 tg v r3 where t: "read_groups 0 (8 - (length hg + 1)) r2 = (tg, v, r3)"
      and os: "os = concat (map put_u16 (hg @ replicate (8 - length hg - length tg) 0 @ tg))"
      using read by (auto simp: read_ipv6_addr_def h split: if_splits option.splits prod.splits)
    have "length tg \<le> 8 - (length hg + 1)" using read_groups_length[of 0 "8 - (length hg + 1)" r2] t by simp
    then have "length (hg @ replicate (8 - length hg - length tg) 0 @ tg) = 8" using hg False by simp
    then show ?thesis by (simp only: os length_groups)
  qed
qed

text \<open>A parsed address has the length of its family.\<close>

definition ip_wf :: "ip_addr \<Rightarrow> bool" where
  "ip_wf a = (case a of V4 os \<Rightarrow> length os = 4 | V6 os \<Rightarrow> length os = 16)"

lemma parse_ip_addr_wf: "parse_ip_addr s = Some a \<Longrightarrow> ip_wf a"
  by (auto simp: parse_ip_addr_def ip_wf_def read_ipv4_addr_def
      dest: read_octets_length read_ipv6_length split: option.splits if_splits prod.splits)


subsection \<open>IPv4 addresses are read back\<close>

lemma to_digit_dec: "n < 10 \<Longrightarrow> to_digit 10 (0x30 + of_nat n) = Some (int n)"
  using digit_facts[of n] by (simp add: to_digit_def Let_def uint_nat)

lemma to_digit_stop: "to_digit 10 dot = None"
  by (simp add: to_digit_def is_digit_def)

lemma show_dec_small:
  assumes "n < 256"
  obtains d where "n = d" "d < 10" "show_dec n = [0x30 + of_nat d]"
  | c d where "n = 10 * c + d" "0 < c" "c < 10" "d < 10" "show_dec n = [0x30 + of_nat c, 0x30 + of_nat d]"
  | b c d where "n = 100 * b + 10 * c + d" "0 < b" "b < 3" "c < 10" "d < 10"
      "show_dec n = [0x30 + of_nat b, 0x30 + of_nat c, 0x30 + of_nat d]"
proof -
  consider "n < 10" | "10 \<le> n" "n < 100" | "100 \<le> n" by linarith
  then show thesis
  proof cases
    case 1
    then show thesis using that(1)[of n] by (simp add: show_dec.simps)
  next
    case 2
    then have "n div 10 < 10" by linarith
    then show thesis using 2 that(2)[of "n div 10" "n mod 10"] by (simp add: show_dec.simps[of n] show_dec.simps[of "n div 10"])
  next
    case 3
    define b where "b = n div 10 div 10"
    define c where "c = n div 10 mod 10"
    define d where "d = n mod 10"
    have high: "10 * b + c = n div 10" unfolding b_def c_def by (rule mult_div_mod_eq)
    have n: "n = 10 * (10 * b + c) + d" unfolding high d_def by (rule mult_div_mod_eq[symmetric])
    have digits: "c < 10" "d < 10" by (simp_all add: c_def d_def)
    have bound: "0 < b" "b < 3" using 3 assms by (simp_all add: b_def)
    have div: "n div 10 = 10 * b + c" "n mod 10 = d" "(10 * b + c) div 10 = b" "(10 * b + c) mod 10 = c"
      unfolding high by (simp_all only: b_def c_def d_def)
    have "show_dec b = [0x30 + of_nat b]" using bound by (simp add: show_dec.simps)
    moreover have "show_dec (10 * b + c) = show_dec b @ [0x30 + of_nat c]"
      using bound by (subst show_dec.simps) (simp only: div, simp)
    moreover have "show_dec n = show_dec (10 * b + c) @ [0x30 + of_nat d]"
      using 3 by (subst show_dec.simps) (simp only: div, simp)
    ultimately show thesis using that(3)[of b c d] n bound digits by simp
  qed
qed

lemma nonzero_digit: "0 < n \<Longrightarrow> n < 10 \<Longrightarrow> (of_nat n :: u8) \<noteq> 0"
  using digit_facts(2)[of n] by auto

lemma read_number_dec:
  assumes "n < 256" "r = [] \<or> hd r = dot"
  shows "read_number 10 3 255 False (show_dec n @ r) = Some (int n, r)"
proof -
  have stop: "number_loop 10 3 255 v k r = Some (v, k, r)" for v k
    using assms(2) by (cases r) (auto simp: to_digit_stop)
  show ?thesis
  proof (rule show_dec_small[OF assms(1)], goal_cases)
    case (1 d)
    then show ?thesis by (simp add: read_number_def to_digit_dec stop)
  next
    case (2 c d)
    then show ?thesis using nonzero_digit[of c] by (simp add: read_number_def to_digit_dec stop)
  next
    case (3 b c d)
    moreover have "(int b * 10 + int c) * 10 + int d \<le> 255" "int b * 10 + int c \<le> 255" using 3 assms(1) by auto
    ultimately show ?thesis using nonzero_digit[of b] by (simp add: read_number_def to_digit_dec stop)
  qed
qed

lemma read_octets_show:
  "os \<noteq> [] \<Longrightarrow> read_octets i (length os) ((if i > 0 then [dot] else []) @ show_ipv4 os) = Some (os, [])"
proof (induction os arbitrary: i)
  case (Cons a os)
  have rd: "read_number 10 3 255 False (show_dec (unat a) @ r) = Some (uint a, r)" if "r = [] \<or> hd r = dot" for r
    unfolding uint_nat using that by (intro read_number_dec) auto
  show ?case
  proof (cases os)
    case Nil
    then show ?thesis using rd[of "[]"] by (simp add: show_ipv4_def read_separator_def read_given_char_def)
  next
    case (Cons b os')
    then have "show_ipv4 (a # os) = show_dec (unat a) @ dot # show_ipv4 os" by (simp add: show_ipv4_def)
    moreover have "read_octets (Suc i) (length os) (dot # show_ipv4 os) = Some (os, [])"
      using Cons.IH[of "Suc i"] Cons by simp
    ultimately show ?thesis using rd[of "dot # show_ipv4 os"]
      by (cases "i = 0") (simp_all add: read_separator_def read_given_char_def)
  qed
qed simp

lemma parse_show_ipv4:
  assumes "length os = 4"
  shows "parse_ip_addr (show_ipv4 os) = Some (V4 os)"
proof -
  have "os \<noteq> []" using assms by auto
  then show ?thesis using assms read_octets_show[of os 0] by (simp add: parse_ip_addr_def read_ipv4_addr_def)
qed

lemma parse_ip_examples:
  "parse_ip_addr (ascii ''192.168.1.300'') = None"
  "parse_ip_addr (ascii ''10.0.01.1'') = None"
  "parse_ip_addr (ascii ''2001:db8::1'') =
     Some (V6 [0x20, 0x01, 0x0D, 0xB8, 0, 0, 0, 0, 0, 0, 0, 0, 0, 0, 0, 1])"
  "parse_ip_addr (ascii ''::ffff:10.0.0.1'') =
     Some (V6 [0, 0, 0, 0, 0, 0, 0, 0, 0, 0, 0xFF, 0xFF, 10, 0, 0, 1])"
  "parse_ip_addr (ascii ''2001:db8:'') = None"
  by code_simp+

end
