(* ===== verification/Config_Types.thy ===== *)
theory Config_Types
  imports Rust_Net Upstream Auth Tftp Radv Dhcp4_Protocol
begin

text \<open>
  The configuration of the program, \<open>src/config/types.rs\<close>: the sections of \<open>Config\<close> with their
  default values, \<open>Config::validate\<close>, the merge of command line arguments and \<open>ConfigBuilder\<close>.
  The features \<open>tftp\<close> and \<open>auth\<close> only add fields, which are always present here; whether the
  feature is compiled in is a parameter of the parser and of the validator.  Paths and texts are
  bytes, durations are nanoseconds.
\<close>

subsection \<open>Errors\<close>

text \<open>
  \<open>ConfigError\<close>; a formatted reason is kept without the values put into it, and the value of an
  address range is the pair of its ends.
\<close>

datatype config_error =
    FileNotFound bytes
  | ParseError bytes nat string
  | UnknownDirective bytes bytes nat
  | InvalidValue string string
  | MissingRequired string
  | ConfigConflict string
  | IncludeFailed bytes string
  | ValidationFailed string
  | InvalidIpRange bytes "ip_addr \<times> ip_addr" string
  | InvalidPort string string
  | CommandLineError string

subsection \<open>Sections\<close>

record dns_settings =
  upstream_servers :: "server_details list"
  cache_size :: nat
  dnssec_enabled :: bool
  query_timeout :: u32
  domain_filters :: "types_name list"
  domain_needed :: bool
  bogus_priv :: bool
  stop_dns_rebind :: bool
  expand_hosts :: bool
  strict_order :: bool
  all_servers :: bool
  local_ttl :: u32
  max_ttl :: u32
  neg_ttl :: u32
  no_resolv :: bool
  no_poll :: bool
  no_hosts :: bool
  dnssec_enabled_check_unsigned :: bool
  trust_anchors :: "bytes list"
  address_records :: "(bytes \<times> ip_addr) list"
  host_records :: "(bytes \<times> ip_addr list) list"
  cname_records :: "(bytes \<times> bytes) list"
  mx_records :: "(bytes \<times> bytes \<times> u16) list"
  mx_target :: "bytes option"
  srv_records :: "(bytes \<times> bytes \<times> u16 \<times> u16 \<times> u16) list"
  txt_records :: "(bytes \<times> bytes) list"
  ptr_records :: "(bytes \<times> bytes) list"
  conf_servers :: "server_details list"
  local_domains :: "bytes list"
  edns_packet_max :: u16
  authoritative_zones :: "auth_zone list"

text \<open>\<open>DEFLEASE\<close> and \<open>MAXLEASES\<close> of \<open>constants.rs\<close>.\<close>

definition DEFLEASE :: nat where "DEFLEASE = 3600"
definition MAXLEASES :: nat where "MAXLEASES = 1000"
definition CHUSER :: bytes where "CHUSER = ascii ''nobody''"
definition CHGRP :: bytes where "CHGRP = ascii ''dip''"

definition dns_settings_default :: dns_settings where
  "dns_settings_default = \<lparr>upstream_servers = [], cache_size = CACHESIZ, dnssec_enabled = False,
     query_timeout = 10, domain_filters = [], domain_needed = False, bogus_priv = False,
     stop_dns_rebind = False, expand_hosts = False, strict_order = False, all_servers = False,
     local_ttl = 0, max_ttl = 0, neg_ttl = 300, no_resolv = False, no_poll = False, no_hosts = False,
     dnssec_enabled_check_unsigned = False, trust_anchors = [], address_records = [],
     host_records = [], cname_records = [], mx_records = [], mx_target = None, srv_records = [],
     txt_records = [], ptr_records = [], conf_servers = [], local_domains = [],
     edns_packet_max = 4096, authoritative_zones = []\<rparr>"

text \<open>The fields the DHCPv4 service reads are those of \<open>dhcp_config\<close>.\<close>

record dhcp_settings = dhcp_config +
  v6_ranges :: "dhcp_range list"
  dhcp_contexts :: "dhcp6_context list"
  lease_file :: "bytes option"
  dhcp_authoritative :: bool
  enable_ra :: bool
  dhcp_options :: "(u8 \<times> bytes) list"

definition dhcp_settings_default :: "bytes \<Rightarrow> dhcp_settings" where
  "dhcp_settings_default LEASEFILE = \<lparr>v4_ranges = [], static_leases = [], default_lease_time = secs DEFLEASE,
     v6_ranges = [], dhcp_contexts = [], lease_file = Some LEASEFILE, dhcp_authoritative = False,
     enable_ra = False, dhcp_options = []\<rparr>"

record network_config =
  listen_addresses :: "ip_addr list"
  interfaces :: "bytes list"
  except_interfaces :: "bytes list"
  bind_interfaces :: bool
  net_port :: u16
  bind_dynamic :: bool

definition network_config_default :: network_config where
  "network_config_default = \<lparr>listen_addresses = [], interfaces = [], except_interfaces = [],
     bind_interfaces = False, net_port = 53, bind_dynamic = False\<rparr>"

text \<open>The fields the TFTP service reads are those of \<open>tftp_config\<close>.\<close>

record tftp_settings = tftp_config +
  tftp_max :: nat
  if_prefix :: "(bytes \<times> bytes) list"
  tftp_enabled :: bool
  tftp_unique_root :: bool
  tftp_no_blocksize :: bool

definition tftp_settings_default :: tftp_settings where
  "tftp_settings_default = \<lparr>tftp_prefix = None, tftp_mtu = 1500, tftp_secure = False, tftp_max = 150,
     if_prefix = [], tftp_enabled = False, tftp_unique_root = False, tftp_no_blocksize = False\<rparr>"

record logging_config =
  log_queries :: bool
  log_dhcp :: bool
  log_facility :: bytes
  log_file :: "bytes option"
  quiet_dhcp :: bool
  quiet_dhcp6 :: bool
  quiet_ra :: bool
  log_no_daemon :: bool

definition logging_config_default :: logging_config where
  "logging_config_default = \<lparr>log_queries = False, log_dhcp = False, log_facility = ascii ''daemon'',
     log_file = None, quiet_dhcp = False, quiet_dhcp6 = False, quiet_ra = False, log_no_daemon = False\<rparr>"

record security_config =
  sec_user :: "bytes option"
  sec_group :: "bytes option"
  sec_chroot :: "bytes option"

definition security_config_default :: security_config where
  "security_config_default = \<lparr>sec_user = Some CHUSER, sec_group = Some CHGRP, sec_chroot = None\<rparr>"

record script_config =
  enable_arp_script :: bool
  script_path :: "bytes option"

definition script_config_default :: script_config where
  "script_config_default = \<lparr>enable_arp_script = False, script_path = None\<rparr>"

record platform_config =
  dbus_enabled :: bool
  ubus_enabled :: bool
  daemon_mode :: bool
  pid_file :: "bytes option"

definition platform_config_default :: platform_config where
  "platform_config_default = \<lparr>dbus_enabled = False, ubus_enabled = False, daemon_mode = True, pid_file = None\<rparr>"

record config =
  cfg_dns :: dns_settings
  cfg_dhcp :: dhcp_settings
  ra_interfaces :: "ra_interface list"
  cfg_network :: network_config
  cfg_tftp :: tftp_settings
  cfg_logging :: logging_config
  cfg_security :: security_config
  cfg_scripts :: script_config
  cfg_platform :: platform_config

text \<open>\<open>LEASEFILE\<close> depends on the operating system.\<close>

definition config_default :: "bytes \<Rightarrow> config" where
  "config_default LEASEFILE = \<lparr>cfg_dns = dns_settings_default, cfg_dhcp = dhcp_settings_default LEASEFILE,
     ra_interfaces = [], cfg_network = network_config_default, cfg_tftp = tftp_settings_default,
     cfg_logging = logging_config_default, cfg_security = security_config_default,
     cfg_scripts = script_config_default, cfg_platform = platform_config_default\<rparr>"

definition on_dns :: "(dns_settings \<Rightarrow> dns_settings) \<Rightarrow> config \<Rightarrow> config" where
  "on_dns f c = c\<lparr>cfg_dns := f (cfg_dns c)\<rparr>"

definition on_dhcp :: "(dhcp_settings \<Rightarrow> dhcp_settings) \<Rightarrow> config \<Rightarrow> config" where
  "on_dhcp f c = c\<lparr>cfg_dhcp := f (cfg_dhcp c)\<rparr>"

definition on_network :: "(network_config \<Rightarrow> network_config) \<Rightarrow> config \<Rightarrow> config" where
  "on_network f c = c\<lparr>cfg_network := f (cfg_network c)\<rparr>"

definition on_tftp :: "(tftp_settings \<Rightarrow> tftp_settings) \<Rightarrow> config \<Rightarrow> config" where
  "on_tftp f c = c\<lparr>cfg_tftp := f (cfg_tftp c)\<rparr>"

definition on_logging :: "(logging_config \<Rightarrow> logging_config) \<Rightarrow> config \<Rightarrow> config" where
  "on_logging f c = c\<lparr>cfg_logging := f (cfg_logging c)\<rparr>"

definition on_security :: "(security_config \<Rightarrow> security_config) \<Rightarrow> config \<Rightarrow> config" where
  "on_security f c = c\<lparr>cfg_security := f (cfg_security c)\<rparr>"

definition on_platform :: "(platform_config \<Rightarrow> platform_config) \<Rightarrow> config \<Rightarrow> config" where
  "on_platform f c = c\<lparr>cfg_platform := f (cfg_platform c)\<rparr>"

lemmas section_simps = on_dns_def on_dhcp_def on_network_def on_tftp_def on_logging_def
  on_security_def on_platform_def

subsection \<open>\<open>Config::validate\<close>\<close>

fun is_v4_addr :: "ip_addr \<Rightarrow> bool" where
  "is_v4_addr (V4 _) = True"
| "is_v4_addr (V6 _) = False"

fun check_range_families :: "(ip_addr \<Rightarrow> bool) \<Rightarrow> string \<Rightarrow> dhcp_range list \<Rightarrow> (unit, config_error) outcome" where
  "check_range_families bad reason [] = Ok ()"
| "check_range_families bad reason (r # rs) =
     (if bad (rg_start r) \<or> bad (rg_end r) then Err (ValidationFailed reason)
      else check_range_families bad reason rs)"

definition config_validate :: "config \<Rightarrow> (unit, config_error) outcome" where
  "config_validate c =
     (if cache_size (cfg_dns c) = 0 then Err (ValidationFailed ''DNS cache size must be greater than 0'')
      else if default_lease_time (cfg_dhcp c) div 1000000000 = 0
        then Err (ValidationFailed ''DHCP lease time must be greater than 0'')
      else rbind (check_range_families (\<lambda>a. \<not> is_v4_addr a) ''DHCPv4 range contains IPv6 addresses'' (v4_ranges (cfg_dhcp c))) (\<lambda>_.
        check_range_families is_v4_addr ''DHCPv6 range contains IPv4 addresses'' (v6_ranges (cfg_dhcp c))))"

subsection \<open>Command line arguments\<close>

text \<open>
  The arguments of \<open>CliArgs\<close> that are merged into a configuration; parsing the command line is
  done by the \<open>clap\<close> crate.
\<close>

record cli_args =
  cli_conf_file :: "bytes option"
  cli_no_conf :: bool
  cli_no_daemon :: bool
  cli_user :: "bytes option"
  cli_group :: "bytes option"
  cli_port :: "u16 option"
  cli_cache_size :: "u64 option"
  cli_domain_needed :: bool
  cli_bogus_priv :: bool
  cli_interface :: "bytes list"
  cli_listen_address :: "ip_addr list"
  cli_log_queries :: bool
  cli_log_dhcp :: bool
  cli_stop_dns_rebind :: bool

definition push_new :: "'a \<Rightarrow> 'a list \<Rightarrow> 'a list" where
  "push_new x xs = (if x \<in> set xs then xs else xs @ [x])"

definition apply_cli_overrides :: "cli_args \<Rightarrow> config \<Rightarrow> config" where
  "apply_cli_overrides a c =
     (let c = (case cli_port a of Some p \<Rightarrow> on_network (net_port_update (\<lambda>_. p)) c | None \<Rightarrow> c);
          c = (case cli_cache_size a of Some n \<Rightarrow> on_dns (cache_size_update (\<lambda>_. unat n)) c | None \<Rightarrow> c);
          c = on_network (listen_addresses_update (fold push_new (cli_listen_address a))) c;
          c = on_network (interfaces_update (fold push_new (cli_interface a))) c in
      if cli_log_queries a then on_logging (log_queries_update (\<lambda>_. True)) c else c)"

subsection \<open>\<open>ConfigBuilder\<close>\<close>

text \<open>The builder is the configuration it holds; \<open>new\<close> is the default configuration.\<close>

definition build_dns_port :: "u16 \<Rightarrow> config \<Rightarrow> config" where
  "build_dns_port p = on_network (net_port_update (\<lambda>_. p))"

definition build_cache_size :: "nat \<Rightarrow> config \<Rightarrow> config" where
  "build_cache_size n = on_dns (cache_size_update (\<lambda>_. n))"

definition build_enable_dnssec :: "config \<Rightarrow> config" where
  "build_enable_dnssec = on_dns (dnssec_enabled_update (\<lambda>_. True))"

definition build_add_upstream_server :: "server_details \<Rightarrow> config \<Rightarrow> config" where
  "build_add_upstream_server s = on_dns (upstream_servers_update (\<lambda>xs. xs @ [s]))"

definition build_add_dhcp_range :: "ip_addr \<Rightarrow> ip_addr \<Rightarrow> config \<Rightarrow> config" where
  "build_add_dhcp_range start stop = on_dhcp (v4_ranges_update (\<lambda>xs. xs @ [\<lparr>rg_start = start, rg_end = stop,
     rg_lease_time_override = None, rg_netmask = None, rg_interface = None, rg_lease_time = None,
     rg_is_ipv6 = \<not> is_v4_addr start, rg_prefix_len = 0\<rparr>]))"

definition build_log_queries :: "config \<Rightarrow> config" where
  "build_log_queries = on_logging (log_queries_update (\<lambda>_. True))"

definition build_log_dhcp :: "config \<Rightarrow> config" where
  "build_log_dhcp = on_logging (log_dhcp_update (\<lambda>_. True))"

definition build_user :: "bytes \<Rightarrow> config \<Rightarrow> config" where
  "build_user u = on_security (sec_user_update (\<lambda>_. Some u))"

definition build_group :: "bytes \<Rightarrow> config \<Rightarrow> config" where
  "build_group g = on_security (sec_group_update (\<lambda>_. Some g))"

definition apply_if :: "bool \<Rightarrow> ('a \<Rightarrow> 'a) \<Rightarrow> 'a \<Rightarrow> 'a" where
  "apply_if b f x = (if b then f x else x)"

definition builder_from_args :: "cli_args \<Rightarrow> config \<Rightarrow> config" where
  "builder_from_args a c =
     (let c = (case cli_port a of Some p \<Rightarrow> on_network (net_port_update (\<lambda>_. p)) c | None \<Rightarrow> c);
          c = (case cli_cache_size a of Some n \<Rightarrow> on_dns (cache_size_update (\<lambda>_. unat n)) c | None \<Rightarrow> c);
          c = apply_if (cli_no_daemon a) (\<lambda>c. on_logging (log_no_daemon_update (\<lambda>_. True))
                (on_platform (daemon_mode_update (\<lambda>_. False)) c)) c;
          c = (case cli_user a of Some u \<Rightarrow> on_security (sec_user_update (\<lambda>_. Some u)) c | None \<Rightarrow> c);
          c = (case cli_group a of Some g \<Rightarrow> on_security (sec_group_update (\<lambda>_. Some g)) c | None \<Rightarrow> c);
          c = apply_if (cli_log_queries a) (on_logging (log_queries_update (\<lambda>_. True))) c;
          c = apply_if (cli_log_dhcp a) (on_logging (log_dhcp_update (\<lambda>_. True))) c;
          c = apply_if (cli_domain_needed a) (on_dns (domain_needed_update (\<lambda>_. True))) c;
          c = apply_if (cli_bogus_priv a) (on_dns (bogus_priv_update (\<lambda>_. True))) c in
      apply_if (cli_stop_dns_rebind a) (on_dns (stop_dns_rebind_update (\<lambda>_. True))) c)"

definition builder_build :: "config \<Rightarrow> (config, config_error) outcome" where
  "builder_build c = rbind (config_validate c) (\<lambda>_. Ok c)"

subsection \<open>Lemmas\<close>

lemma check_range_families_iff:
  "check_range_families bad reason rs = Ok () \<longleftrightarrow> (\<forall>r\<in>set rs. \<not> bad (rg_start r) \<and> \<not> bad (rg_end r))"
  by (induction rs) auto

lemma config_validate_iff:
  "config_validate c = Ok () \<longleftrightarrow>
     cache_size (cfg_dns c) \<noteq> 0 \<and> default_lease_time (cfg_dhcp c) div 1000000000 \<noteq> 0 \<and>
     (\<forall>r\<in>set (v4_ranges (cfg_dhcp c)). is_v4_addr (rg_start r) \<and> is_v4_addr (rg_end r)) \<and>
     (\<forall>r\<in>set (v6_ranges (cfg_dhcp c)). \<not> is_v4_addr (rg_start r) \<and> \<not> is_v4_addr (rg_end r))"
  by (auto simp: config_validate_def rust_simps check_range_families_iff)

lemma fold_push_new: "distinct xs \<Longrightarrow> distinct (fold push_new ys xs) \<and> set (fold push_new ys xs) = set xs \<union> set ys"
proof (induction ys arbitrary: xs)
  case (Cons y ys)
  have "distinct (push_new y xs)" "set (push_new y xs) = insert y (set xs)"
    using Cons.prems by (auto simp: push_new_def)
  then show ?case using Cons.IH by auto
qed simp

end
