(* ===== verification/Config_Parser.thy ===== *)
theory Config_Parser
  imports Config_Types "HOL-Library.List_Lexorder" "HOL-Library.Multiset"
begin

text \<open>
  The parser of configuration files, \<open>src/config/parser.rs\<close>: quotes, escapes, comments and line
  continuations, one handler for every option, the include directives and the work queue of files.
  A handler returns the parser with the new configuration, or the error; the functions that read
  lines and files return what has happened so far also when they fail, as the code does.  The text
  functions of the code work on characters; over UTF-8 they are the same on bytes, since every byte they
  look for is ASCII.
\<close>

subsection \<open>Parser state and environment\<close>

definition MAX_CONFIG_LINE_LENGTH :: nat where "MAX_CONFIG_LINE_LENGTH = 4096"
definition MAX_INCLUDE_DEPTH :: nat where "MAX_INCLUDE_DEPTH = 20"

record config_parser =
  cp_config :: config
  visited_files :: "bytes set"
  include_depth :: nat
  current_file :: "bytes option"
  current_line :: nat
  pending_includes :: "bytes list"

text \<open>
  What the parser meets outside: compiled features, whether arithmetic overflow panics, the \<open>idna\<close> and
  \<open>regex\<close> crates (\<open>None\<close> is a pattern that does not compile), the time for a default SOA serial, and the
  file system.  A file is the sequence of its \<open>read_line\<close> results, \<open>None\<close> being a failure; a directory
  is the sequence of its entries with their \<open>is_file\<close>.
\<close>

record config_env =
  feat_tftp :: bool
  feat_auth :: bool
  overflow_checks :: bool
  ce_idna :: "bytes \<Rightarrow> bytes option"
  ce_regex :: "bytes \<Rightarrow> (bytes \<Rightarrow> bool) option"
  ce_epoch :: nat
  ce_canonicalize :: "bytes \<Rightarrow> bytes option"
  ce_open :: "bytes \<Rightarrow> bytes option list option"
  ce_read_dir :: "bytes \<Rightarrow> (bytes \<times> bool) option list option"

definition config_parser_new :: "bytes \<Rightarrow> config_parser" where
  "config_parser_new LEASEFILE = \<lparr>cp_config = config_default LEASEFILE, visited_files = {}, include_depth = 0,
     current_file = None, current_line = 0, pending_includes = []\<rparr>"

definition make_parse_error :: "config_parser \<Rightarrow> string \<Rightarrow> config_error" where
  "make_parse_error p reason =
     ParseError (case current_file p of None \<Rightarrow> ascii ''<string>'' | Some f \<Rightarrow> f) (current_line p) reason"

type_synonym option_result = "(config_parser, config_error) outcome"

definition on_config :: "(config \<Rightarrow> config) \<Rightarrow> config_parser \<Rightarrow> config_parser" where
  "on_config f p = p\<lparr>cp_config := f (cp_config p)\<rparr>"

definition value_or :: "config_parser \<Rightarrow> string \<Rightarrow> bytes option \<Rightarrow> (bytes, config_error) outcome" where
  "value_or p reason v = ok_or (make_parse_error p reason) v"

definition parsed_or :: "config_parser \<Rightarrow> string \<Rightarrow> 'a option \<Rightarrow> ('a, config_error) outcome" where
  "parsed_or p reason v = ok_or (make_parse_error p reason) v"

definition parse_u16 :: "bytes \<Rightarrow> u16 option" where
  "parse_u16 s = map_option of_nat (parse_dec 65535 s)"

subsection \<open>Text\<close>

abbreviation backslash :: u8 where "backslash \<equiv> 0x5C"
abbreviation quote2 :: u8 where "quote2 \<equiv> 0x22"
abbreviation quote1 :: u8 where "quote1 \<equiv> 0x27"

definition escaped_char :: "u8 \<Rightarrow> u8" where
  "escaped_char e =
     (if e = 0x74 then 9 else if e = 0x6E then 10 else if e = 0x72 then 13
      else if e = 0x62 then 8 else if e = 0x65 then 0x1B else e)"

text \<open>The content up to the closing quote and the text after it.\<close>

fun parse_quoted_string :: "u8 \<Rightarrow> bytes \<Rightarrow> (bytes \<times> bytes) option" where
  "parse_quoted_string q [] = None"
| "parse_quoted_string q [c] = (if c = q then Some ([], []) else None)"
| "parse_quoted_string q (c # d # r) =
     (if c = q then Some ([], d # r)
      else if c = backslash then map_option (apfst ((#) (escaped_char d))) (parse_quoted_string q r)
      else map_option (apfst ((#) c)) (parse_quoted_string q (d # r)))"

lemma parse_quoted_string_length:
  "parse_quoted_string q s = Some (t, r) \<Longrightarrow> length r < length s"
  by (induction q s arbitrary: t rule: parse_quoted_string.induct) (force split: if_splits)+

definition missing_quote :: config_error where
  "missing_quote = ParseError (ascii ''<string>'') 0 ''Missing closing quote''"

function process_quotes_and_escapes :: "bytes \<Rightarrow> (bytes, config_error) outcome" where
  "process_quotes_and_escapes s =
     (case s of
        [] \<Rightarrow> Ok []
      | c # r \<Rightarrow>
          if c = quote2 \<or> c = quote1 then
            (case parse_quoted_string c r of
               None \<Rightarrow> Err missing_quote
             | Some (t, r') \<Rightarrow> rbind (process_quotes_and_escapes r') (\<lambda>u. Ok (t @ u)))
          else if c = backslash then
            (case r of
               [] \<Rightarrow> Ok [backslash]
             | d # r' \<Rightarrow> rbind (process_quotes_and_escapes r') (\<lambda>u. Ok (d # u)))
          else rbind (process_quotes_and_escapes r) (\<lambda>u. Ok (c # u)))"
  by pat_completeness auto
termination
  by (relation "measure length") (auto dest: parse_quoted_string_length)

declare process_quotes_and_escapes.simps [simp del]

definition is_ascii_whitespace :: "u8 \<Rightarrow> bool" where
  "is_ascii_whitespace b \<longleftrightarrow> b = 32 \<or> b = 9 \<or> b = 10 \<or> b = 12 \<or> b = 13"

definition str_find :: "u8 \<Rightarrow> bytes \<Rightarrow> nat option" where
  "str_find c s = (if c \<in> set s then Some (length (takeWhile (\<lambda>b. b \<noteq> c) s)) else None)"

definition comment_at :: "bytes \<Rightarrow> u8 \<Rightarrow> nat option" where
  "comment_at line ch =
     (case str_find ch line of
        None \<Rightarrow> None
      | Some pos \<Rightarrow> if pos = 0 \<or> is_ascii_whitespace (line ! (pos - 1)) then Some pos else None)"

definition strip_comment :: "bytes \<Rightarrow> bytes" where
  "strip_comment line =
     (case (comment_at line 0x23, comment_at line 0x3B) of
        (None, None) \<Rightarrow> line
      | (Some p, None) \<Rightarrow> take p line
      | (None, Some q) \<Rightarrow> take q line
      | (Some p, Some q) \<Rightarrow> take (min p q) line)"

text \<open>\<open>splitn(2, char::is_whitespace)\<close>.\<close>

fun split_ws_once :: "bytes \<Rightarrow> bytes \<times> bytes option" where
  "split_ws_once [] = ([], None)"
| "split_ws_once (b # r) =
     (if ws_len (b # r) > 0 then ([], Some (drop (ws_len (b # r)) (b # r)))
      else apfst ((#) b) (split_ws_once r))"

definition rsplit_once :: "u8 \<Rightarrow> bytes \<Rightarrow> (bytes \<times> bytes) option" where
  "rsplit_once c s = map_option (\<lambda>(a, b). (rev b, rev a)) (split_once c (rev s))"

definition strip_suffix :: "u8 \<Rightarrow> bytes \<Rightarrow> bytes option" where
  "strip_suffix c s = (if s \<noteq> [] \<and> last s = c then Some (butlast s) else None)"

subsection \<open>Handlers of the network and DNS options\<close>

definition parse_port_option :: "bytes option \<Rightarrow> config_parser \<Rightarrow> option_result" where
  "parse_port_option v p =
     rbind (value_or p ''Missing port number'' v) (\<lambda>s.
     rbind (parsed_or p ''Invalid port number'' (parse_u16 s)) (\<lambda>port.
     Ok (on_config (on_network (net_port_update (\<lambda>_. port))) p)))"

definition parse_listen_address :: "bytes option \<Rightarrow> config_parser \<Rightarrow> option_result" where
  "parse_listen_address v p =
     rbind (value_or p ''Missing IP address'' v) (\<lambda>s.
     rbind (parsed_or p ''Invalid IP address'' (parse_ip_addr s)) (\<lambda>addr.
     Ok (on_config (on_network (listen_addresses_update (\<lambda>xs. xs @ [addr]))) p)))"

definition parse_interface :: "bytes option \<Rightarrow> config_parser \<Rightarrow> option_result" where
  "parse_interface v p =
     rbind (value_or p ''Missing interface name'' v) (\<lambda>s.
     Ok (on_config (on_network (interfaces_update (\<lambda>xs. xs @ [s]))) p))"

definition parse_except_interface :: "bytes option \<Rightarrow> config_parser \<Rightarrow> option_result" where
  "parse_except_interface v p =
     rbind (value_or p ''Missing interface name'' v) (\<lambda>s.
     Ok (on_config (on_network (except_interfaces_update (\<lambda>xs. xs @ [s]))) p))"

definition parse_cache_size :: "bytes option \<Rightarrow> config_parser \<Rightarrow> option_result" where
  "parse_cache_size v p =
     rbind (value_or p ''Missing cache size'' v) (\<lambda>s.
     rbind (parsed_or p ''Invalid cache size'' (parse_dec (2 ^ 64 - 1) s)) (\<lambda>n.
     Ok (on_config (on_dns (cache_size_update (\<lambda>_. n))) p)))"

definition parse_edns_packet_max :: "bytes option \<Rightarrow> config_parser \<Rightarrow> option_result" where
  "parse_edns_packet_max v p =
     rbind (value_or p ''Missing EDNS packet size'' v) (\<lambda>s.
     rbind (parsed_or p ''Invalid EDNS packet size'' (parse_u16 s)) (\<lambda>n.
     if n < 512 then Err (make_parse_error p ''EDNS packet size must be at least 512 bytes'')
     else Ok (on_config (on_dns (edns_packet_max_update (\<lambda>_. n))) p)))"

text \<open>\<open>ip#port\<close>, \<open>ip:port\<close> or \<open>ip\<close>; a colon counts only if a port follows the last one.\<close>

definition split_server_addr :: "bytes \<Rightarrow> config_parser \<Rightarrow> (bytes \<times> u16, config_error) outcome" where
  "split_server_addr s p =
     (case split_once 0x23 s of
        Some (ip, port_str) \<Rightarrow> rbind (parsed_or p ''Invalid port'' (parse_u16 port_str)) (\<lambda>port. Ok (ip, port))
      | None \<Rightarrow> (case rsplit_once colon s of
          Some (ip, port_str) \<Rightarrow> (case parse_u16 port_str of Some port \<Rightarrow> Ok (ip, port) | None \<Rightarrow> Ok (s, 53))
        | None \<Rightarrow> Ok (s, 53)))"

definition add_conf_server :: "server_details \<Rightarrow> config_parser \<Rightarrow> config_parser" where
  "add_conf_server server p = on_config (on_dns (conf_servers_update (\<lambda>xs. xs @ [server])))
     (on_config (on_dns (upstream_servers_update (\<lambda>xs. xs @ [server]))) p)"

definition new_authoritative :: "bytes \<Rightarrow> (server_details, dns_error) outcome" where
  "new_authoritative domain = rbind (types_name_new domain) (\<lambda>d.
     Ok \<lparr>sd_addr = (V4 [0, 0, 0, 0], 0), sd_domain = Some d, sd_flags = 0, sd_address = None\<rparr>)"

definition server_at :: "bytes \<Rightarrow> bytes option \<Rightarrow> config_parser \<Rightarrow> option_result" where
  "server_at addr_str domain p =
     rbind (split_server_addr addr_str p) (\<lambda>(ip_str, port).
     rbind (parsed_or p ''Invalid IP address'' (parse_ip_addr ip_str)) (\<lambda>ip.
     rbind (map_err (\<lambda>_. make_parse_error p ''Invalid server'') (server_details_new (ip, port) domain 0)) (\<lambda>server.
     Ok (add_conf_server server p))))"

definition parse_server_option :: "bytes option \<Rightarrow> config_parser \<Rightarrow> option_result" where
  "parse_server_option v p =
     rbind (value_or p ''Missing server address'' v) (\<lambda>s.
     if starts_with [0x2F] s then
       (case split_on 0x2F s of
          _ # domain # addr # _ \<Rightarrow>
            if addr = [] then
              rbind (map_err (\<lambda>_. make_parse_error p ''Invalid domain'') (new_authoritative domain)) (\<lambda>server.
              Ok (on_config (on_dns (conf_servers_update (\<lambda>xs. xs @ [server]))) p))
            else server_at addr (Some domain) p
        | _ \<Rightarrow> Err (make_parse_error p ''Invalid server format''))
     else server_at s None p)"

definition parse_trust_anchor :: "bytes option \<Rightarrow> config_parser \<Rightarrow> option_result" where
  "parse_trust_anchor v p =
     rbind (value_or p ''Missing trust anchor'' v) (\<lambda>s.
     Ok (on_config (on_dns (trust_anchors_update (\<lambda>xs. xs @ [s]))) p))"

definition parse_dnssec_timestamp :: "bytes option \<Rightarrow> config_parser \<Rightarrow> option_result" where
  "parse_dnssec_timestamp v p = rbind (value_or p ''Missing timestamp file path'' v) (\<lambda>_. Ok p)"

definition parse_local_domain :: "bytes option \<Rightarrow> config_parser \<Rightarrow> option_result" where
  "parse_local_domain v p =
     rbind (value_or p ''Missing local domain'' v) (\<lambda>s.
     Ok (on_config (on_dns (local_domains_update (\<lambda>xs. xs @ [s]))) p))"

subsection \<open>Handlers of the record options\<close>

definition parse_address_record :: "bytes option \<Rightarrow> config_parser \<Rightarrow> option_result" where
  "parse_address_record v p =
     rbind (value_or p ''Missing address record'' v) (\<lambda>s.
     case split_on 0x2F s of
       domain # _ # addr # _ \<Rightarrow>
         if addr \<noteq> [] then
           rbind (parsed_or p ''Invalid IP address'' (parse_ip_addr addr)) (\<lambda>ip.
           Ok (on_config (on_dns (address_records_update (\<lambda>xs. xs @ [(domain, ip)]))) p))
         else Ok p
     | [_, _] \<Rightarrow> Ok p
     | _ \<Rightarrow> Err (make_parse_error p ''Invalid address record format''))"

definition parse_host_record :: "bytes option \<Rightarrow> config_parser \<Rightarrow> option_result" where
  "parse_host_record v p =
     rbind (value_or p ''Missing host record'' v) (\<lambda>s.
     case split_on 0x2C s of
       hostname # a # as \<Rightarrow>
         rbind (traverse (\<lambda>a. parsed_or p ''Invalid IP address'' (parse_ip_addr a)) (a # as)) (\<lambda>addresses.
         Ok (on_config (on_dns (host_records_update (\<lambda>xs. xs @ [(hostname, addresses)]))) p))
     | _ \<Rightarrow> Err (make_parse_error p ''Invalid host record format''))"

definition parse_cname_record :: "bytes option \<Rightarrow> config_parser \<Rightarrow> option_result" where
  "parse_cname_record v p =
     rbind (value_or p ''Missing CNAME record'' v) (\<lambda>s.
     case split_on 0x2C s of
       [alias, target] \<Rightarrow> Ok (on_config (on_dns (cname_records_update (\<lambda>xs. xs @ [(alias, target)]))) p)
     | _ \<Rightarrow> Err (make_parse_error p ''Invalid CNAME record format''))"

definition parse_mx_record :: "bytes option \<Rightarrow> config_parser \<Rightarrow> option_result" where
  "parse_mx_record v p =
     rbind (value_or p ''Missing MX record'' v) (\<lambda>s.
     case split_on 0x2C s of
       domain # target # rest \<Rightarrow>
         rbind (case rest of [] \<Rightarrow> Ok 10 | n # _ \<Rightarrow> parsed_or p ''Invalid MX priority'' (parse_u16 n)) (\<lambda>priority.
         Ok (on_config (on_dns (mx_records_update (\<lambda>xs. xs @ [(domain, target, priority)]))) p))
     | _ \<Rightarrow> Err (make_parse_error p ''Invalid MX record format''))"

definition parse_mx_target :: "bytes option \<Rightarrow> config_parser \<Rightarrow> option_result" where
  "parse_mx_target v p =
     rbind (value_or p ''Missing MX target'' v) (\<lambda>s.
     Ok (on_config (on_dns (mx_target_update (\<lambda>_. Some s))) p))"

definition parse_srv_record :: "bytes option \<Rightarrow> config_parser \<Rightarrow> option_result" where
  "parse_srv_record v p =
     rbind (value_or p ''Missing SRV record'' v) (\<lambda>s.
     case split_on 0x2C s of
       service # target # port_str # rest \<Rightarrow>
         rbind (parsed_or p ''Invalid SRV port'' (parse_u16 port_str)) (\<lambda>port.
         rbind (case rest of [] \<Rightarrow> Ok 0 | n # _ \<Rightarrow> parsed_or p ''Invalid SRV priority'' (parse_u16 n)) (\<lambda>priority.
         rbind (case rest of _ # n # _ \<Rightarrow> parsed_or p ''Invalid SRV weight'' (parse_u16 n) | _ \<Rightarrow> Ok 0) (\<lambda>weight.
         Ok (on_config (on_dns (srv_records_update (\<lambda>xs. xs @ [(service, target, port, priority, weight)]))) p))))
     | _ \<Rightarrow> Err (make_parse_error p ''Invalid SRV record format''))"

definition parse_txt_record :: "bytes option \<Rightarrow> config_parser \<Rightarrow> option_result" where
  "parse_txt_record v p =
     rbind (value_or p ''Missing TXT record'' v) (\<lambda>s.
     case split_once 0x2C s of
       Some (name, txt) \<Rightarrow> Ok (on_config (on_dns (txt_records_update (\<lambda>xs. xs @ [(name, txt)]))) p)
     | None \<Rightarrow> Err (make_parse_error p ''Invalid TXT record format''))"

definition parse_ptr_record :: "bytes option \<Rightarrow> config_parser \<Rightarrow> option_result" where
  "parse_ptr_record v p =
     rbind (value_or p ''Missing PTR record'' v) (\<lambda>s.
     case split_on 0x2C s of
       [name, target] \<Rightarrow> Ok (on_config (on_dns (ptr_records_update (\<lambda>xs. xs @ [(name, target)]))) p)
     | _ \<Rightarrow> Err (make_parse_error p ''Invalid PTR record format''))"

definition parse_auth_zone :: "config_env \<Rightarrow> bytes option \<Rightarrow> config_parser \<Rightarrow> option_result" where
  "parse_auth_zone E v p =
     rbind (value_or p ''Missing zone domain'' v) (\<lambda>s.
     rbind (map_err (\<lambda>_. make_parse_error p ''Invalid zone domain'') (dn_new (ce_idna E) s)) (\<lambda>domain.
     Ok (on_config (on_dns (authoritative_zones_update (\<lambda>xs. xs @
       [\<lparr>z_domain = domain, z_soa_params = soa_params_default (ce_epoch E), z_ns_records = []\<rparr>]))) p)))"

fun add_ns_record :: "bytes \<Rightarrow> domain_name \<Rightarrow> auth_zone list \<Rightarrow> auth_zone list" where
  "add_ns_record domain ns [] = []"
| "add_ns_record domain ns (z # zs) =
     (if dn_name (z_domain z) = domain then z\<lparr>z_ns_records := z_ns_records z @ [ns]\<rparr> # zs
      else z # add_ns_record domain ns zs)"

definition parse_auth_server :: "config_env \<Rightarrow> bytes option \<Rightarrow> config_parser \<Rightarrow> option_result" where
  "parse_auth_server E v p =
     rbind (value_or p ''Missing server specification'' v) (\<lambda>s.
     let domain_str = hd (split_on 0x2C s) in
     if list_ex (\<lambda>z. dn_name (z_domain z) = domain_str) (authoritative_zones (cfg_dns (cp_config p))) then
       rbind (map_err (\<lambda>_. make_parse_error p ''Invalid NS name'') (dn_new (ce_idna E) (ascii ''ns.'' @ domain_str))) (\<lambda>ns.
       Ok (on_config (on_dns (authoritative_zones_update (add_ns_record domain_str ns))) p))
     else Err (make_parse_error p ''auth-server specified for undefined zone''))"


subsection \<open>Handlers of the DHCP options\<close>

text \<open>\<open>num * multiplier\<close> in 64 bits panics on overflow when overflow checks are compiled in and wraps otherwise.\<close>

definition parse_time_duration :: "config_env \<Rightarrow> bytes \<Rightarrow> (nat, unit) outcome" where
  "parse_time_duration E time_str =
     (let s = str_trim time_str in
      if s = [] then Err ()
      else let (num_str, multiplier) =
          (case strip_suffix 0x68 s of Some t \<Rightarrow> (t, 3600) | None \<Rightarrow>
          (case strip_suffix 0x6D s of Some t \<Rightarrow> (t, 60) | None \<Rightarrow>
          (case strip_suffix 0x64 s of Some t \<Rightarrow> (t, 86400) | None \<Rightarrow>
          (case strip_suffix 0x73 s of Some t \<Rightarrow> (t, 1) | None \<Rightarrow> (s, 1))))) in
        rbind (ok_or () (parse_dec (2 ^ 64 - 1) num_str)) (\<lambda>num.
          if num * multiplier < 2 ^ 64 then Ok (num * multiplier)
          else if overflow_checks E then Panic
          else Ok (num * multiplier mod 2 ^ 64)))"

record range_params =
  rp_netmask :: "ip_addr option"
  rp_lease_time :: "nat option"
  rp_interface :: "bytes option"

text \<open>The parameters after the addresses; \<open>rp_lease_time\<close> stands for both lease time variables.\<close>

fun range_params_loop :: "config_env \<Rightarrow> bytes list \<Rightarrow> range_params \<Rightarrow> (range_params, config_error) outcome" where
  "range_params_loop E [] a = Ok a"
| "range_params_loop E (part # parts) a =
     (let param = str_trim part in
      if starts_with (ascii ''ra-'') param \<or> param = ascii ''slaac'' \<or> param = ascii ''off-link''
      then range_params_loop E parts a
      else case strip_prefix (ascii ''constructor:'') param of
        Some i \<Rightarrow> range_params_loop E parts (a\<lparr>rp_interface := Some i\<rparr>)
      | None \<Rightarrow> (case parse_ip_addr param of
          Some ip \<Rightarrow> range_params_loop E parts (a\<lparr>rp_netmask := Some ip\<rparr>)
        | None \<Rightarrow>
            if param = ascii ''infinite'' then range_params_loop E parts a
            else case parse_time_duration E param of
              Ok n \<Rightarrow> range_params_loop E parts (a\<lparr>rp_lease_time := Some n\<rparr>)
            | Err _ \<Rightarrow> range_params_loop E parts a
            | Panic \<Rightarrow> Panic))"

definition range_addresses :: "bytes list \<Rightarrow> config_parser \<Rightarrow> (ip_addr \<times> ip_addr \<times> u8, config_error) outcome" where
  "range_addresses parts p =
     (if 0x2F \<in> set (hd parts) then
        (case split_on 0x2F (str_trim (hd parts)) of
           [addr, len] \<Rightarrow>
             rbind (parsed_or p ''Invalid prefix address'' (parse_ip_addr (str_trim addr))) (\<lambda>a.
             rbind (parsed_or p ''Invalid prefix length'' (parse_dec 255 (str_trim len))) (\<lambda>n.
             Ok (a, a, of_nat n)))
         | _ \<Rightarrow> Err (make_parse_error p ''Invalid prefix notation''))
      else
        (case parts of
           a # b # _ \<Rightarrow>
             rbind (parsed_or p ''Invalid start IP'' (parse_ip_addr (str_trim a))) (\<lambda>start.
             rbind (parsed_or p ''Invalid end IP'' (parse_ip_addr (str_trim b))) (\<lambda>stop.
             Ok (start, stop, 0)))
         | _ \<Rightarrow> Err (make_parse_error p ''Invalid DHCP range format'')))"

definition add_dhcp_range :: "dhcp_range \<Rightarrow> config_parser \<Rightarrow> config_parser" where
  "add_dhcp_range rg p =
     (if is_v4_addr (rg_start rg) then on_config (on_dhcp (v4_ranges_update (\<lambda>xs. xs @ [rg]))) p
      else on_config (on_dhcp (v6_ranges_update (\<lambda>xs. xs @ [rg]))) p)"

definition parse_dhcp_range :: "config_env \<Rightarrow> bytes option \<Rightarrow> config_parser \<Rightarrow> option_result" where
  "parse_dhcp_range E v p =
     rbind (value_or p ''Missing DHCP range'' v) (\<lambda>s.
     let parts = split_on 0x2C s in
     rbind (range_addresses parts p) (\<lambda>(start, stop, prefix_len).
     rbind (range_params_loop E (drop (if 0x2F \<in> set (hd parts) then 1 else 2) parts)
         \<lparr>rp_netmask = None, rp_lease_time = None, rp_interface = None\<rparr>) (\<lambda>a.
     Ok (add_dhcp_range \<lparr>rg_start = start, rg_end = stop,
               rg_lease_time_override = map_option secs (rp_lease_time a),
               rg_netmask = rp_netmask a, rg_interface = rp_interface a, rg_lease_time = rp_lease_time a,
               rg_is_ipv6 = \<not> is_v4_addr start, rg_prefix_len = prefix_len\<rparr> p))))"

definition parse_dhcp_host :: "bytes option \<Rightarrow> config_parser \<Rightarrow> option_result" where
  "parse_dhcp_host v p = rbind (value_or p ''Missing DHCP host specification'' v) (\<lambda>_. Ok p)"

definition parse_dhcp_boot :: "bytes option \<Rightarrow> config_parser \<Rightarrow> option_result" where
  "parse_dhcp_boot v p = rbind (value_or p ''Missing DHCP boot specification'' v) (\<lambda>_. Ok p)"

definition trim_brackets :: "bytes \<Rightarrow> bytes" where
  "trim_brackets s = rev (dropWhile (\<lambda>c. c = 0x5B \<or> c = 0x5D) (rev (dropWhile (\<lambda>c. c = 0x5B \<or> c = 0x5D) s)))"

definition option_value_bytes :: "bytes \<Rightarrow> bytes" where
  "option_value_bytes part0 =
     (let part = trim_brackets (str_trim part0) in
      case parse_ip_addr part of Some (V4 os) \<Rightarrow> os | Some (V6 os) \<Rightarrow> os | None \<Rightarrow> part)"

definition conf_option_code :: "bool \<Rightarrow> bytes \<Rightarrow> u8" where
  "conf_option_code for_v6 code_str =
     (case parse_dec 255 code_str of
        Some n \<Rightarrow> of_nat n
      | None \<Rightarrow>
          if code_str = ascii ''dns-server'' \<and> for_v6 then 23
          else if code_str = ascii ''ntp-server'' \<and> for_v6 then 56
          else if code_str = ascii ''domain-search'' \<and> for_v6 then 24
          else 0)"

definition parse_dhcp_option :: "bytes option \<Rightarrow> config_parser \<Rightarrow> option_result" where
  "parse_dhcp_option v p =
     rbind (value_or p ''Missing DHCP option'' v) (\<lambda>s.
     let parts = split_on 0x2C s; first_part = str_trim (hd parts);
         for_v6 = starts_with (ascii ''option6:'') first_part;
         code_str = (if for_v6 then drop 8 first_part else first_part) in
     Ok (on_config (on_dhcp (dhcp_options_update (\<lambda>xs. xs @
       [(conf_option_code for_v6 code_str, concat (map option_value_bytes (tl parts)))]))) p))"

definition parse_dhcp_leasefile :: "bytes option \<Rightarrow> config_parser \<Rightarrow> option_result" where
  "parse_dhcp_leasefile v p =
     rbind (value_or p ''Missing lease file path'' v) (\<lambda>s.
     Ok (on_config (on_dhcp (lease_file_update (\<lambda>_. Some s))) p))"

subsection \<open>Handlers of the TFTP, log and process options\<close>

definition parse_tftp_root :: "config_env \<Rightarrow> bytes option \<Rightarrow> config_parser \<Rightarrow> option_result" where
  "parse_tftp_root E v p =
     (if feat_tftp E then
        rbind (value_or p ''Missing TFTP root path'' v) (\<lambda>s.
        Ok (on_config (on_tftp (tftp_prefix_update (\<lambda>_. Some s))) p))
      else Ok p)"

definition parse_enable_tftp :: "config_env \<Rightarrow> config_parser \<Rightarrow> option_result" where
  "parse_enable_tftp E p =
     Ok (if feat_tftp E then on_config (on_tftp (tftp_enabled_update (\<lambda>_. True))) p else p)"

definition parse_tftp_secure :: "config_env \<Rightarrow> config_parser \<Rightarrow> option_result" where
  "parse_tftp_secure E p =
     Ok (if feat_tftp E then on_config (on_tftp (tftp_secure_update (\<lambda>_. True))) p else p)"

definition parse_tftp_unique_root :: "config_env \<Rightarrow> config_parser \<Rightarrow> option_result" where
  "parse_tftp_unique_root E p =
     Ok (if feat_tftp E then on_config (on_tftp (tftp_unique_root_update (\<lambda>_. True))) p else p)"

definition parse_tftp_no_blocksize :: "config_env \<Rightarrow> config_parser \<Rightarrow> option_result" where
  "parse_tftp_no_blocksize E p =
     Ok (if feat_tftp E then on_config (on_tftp (tftp_no_blocksize_update (\<lambda>_. True))) p else p)"

definition parse_log_facility :: "bytes option \<Rightarrow> config_parser \<Rightarrow> option_result" where
  "parse_log_facility v p =
     rbind (value_or p ''Missing log facility'' v) (\<lambda>s.
     if starts_with [0x2F] s
     then Ok (on_config (on_logging (\<lambda>l. l\<lparr>log_file := Some s, log_facility := s\<rparr>)) p)
     else Ok (on_config (on_logging (log_facility_update (\<lambda>_. s))) p))"

definition parse_user_option :: "bytes option \<Rightarrow> config_parser \<Rightarrow> option_result" where
  "parse_user_option v p =
     rbind (value_or p ''Missing username'' v) (\<lambda>s.
     Ok (on_config (on_security (sec_user_update (\<lambda>_. Some s))) p))"

definition parse_group_option :: "bytes option \<Rightarrow> config_parser \<Rightarrow> option_result" where
  "parse_group_option v p =
     rbind (value_or p ''Missing group name'' v) (\<lambda>s.
     Ok (on_config (on_security (sec_group_update (\<lambda>_. Some s))) p))"

definition parse_pid_file :: "bytes option \<Rightarrow> config_parser \<Rightarrow> option_result" where
  "parse_pid_file v p =
     rbind (value_or p ''Missing PID file path'' v) (\<lambda>s.
     Ok (on_config (on_platform (pid_file_update (\<lambda>_. Some s))) p))"

subsection \<open>Include directives\<close>

text \<open>\<open>str::replace\<close> of a character by a text.\<close>

definition str_replace :: "u8 \<Rightarrow> bytes \<Rightarrow> bytes \<Rightarrow> bytes" where
  "str_replace c t s = concat (map (\<lambda>b. if b = c then t else [b]) s)"

definition matches_pattern :: "config_env \<Rightarrow> bytes \<Rightarrow> bytes \<Rightarrow> bool" where
  "matches_pattern E filename pat =
     (let r = str_replace 0x3F [dot] (str_replace 0x2A [dot, 0x2A] (str_replace dot [backslash, dot] pat)) in
      case ce_regex E ([0x5E] @ r @ [0x24]) of
        Some matches \<Rightarrow> matches filename
      | None \<Rightarrow> filename = pat)"

fun matching_entries :: "config_env \<Rightarrow> bytes \<Rightarrow> (bytes \<times> bool) option list \<Rightarrow> bytes list option" where
  "matching_entries E pat [] = Some []"
| "matching_entries E pat (None # es) = None"
| "matching_entries E pat (Some (name, is_file) # es) =
     (case matching_entries E pat es of
        None \<Rightarrow> None
      | Some ns \<Rightarrow> Some (if is_file \<and> valid_utf8 name \<and> matches_pattern E name pat then name # ns else ns))"

text \<open>The paths of one directory are ordered as their file names.\<close>

definition handle_include_directive :: "config_env \<Rightarrow> bytes \<Rightarrow> bytes \<Rightarrow> config_parser \<Rightarrow> option_result" where
  "handle_include_directive E directive path_str p =
     (if directive = ascii ''conf-file'' then Ok (p\<lparr>pending_includes := pending_includes p @ [path_str]\<rparr>)
      else if directive = ascii ''conf-dir'' then
        let parts = split_on 0x2C path_str; dir_path = hd parts;
            pat = (case tl parts of [] \<Rightarrow> ascii ''*.conf'' | s # _ \<Rightarrow> str_trim s) in
        rbind (parsed_or p ''Cannot read directory'' (ce_read_dir E dir_path)) (\<lambda>dir.
        rbind (parsed_or p ''Error reading directory entry'' (matching_entries E pat dir)) (\<lambda>names.
        Ok (p\<lparr>pending_includes := pending_includes p @ map (path_join dir_path) (sort names)\<rparr>)))
      else Ok p)"

subsection \<open>One option\<close>

text \<open>
  The \<open>match\<close> on the option name: the handler of each literal, in the order of the code.  A handler gets the
  value and the parser.
\<close>

definition flag_option :: "(config \<Rightarrow> config) \<Rightarrow> bytes option \<Rightarrow> config_parser \<Rightarrow> option_result" where
  "flag_option f v p = Ok (on_config f p)"

definition option_handlers :: "config_env \<Rightarrow> (string \<times> (bytes option \<Rightarrow> config_parser \<Rightarrow> option_result)) list" where
  "option_handlers E =
    [(''port'', parse_port_option),
     (''listen-address'', parse_listen_address),
     (''interface'', parse_interface),
     (''except-interface'', parse_except_interface),
     (''bind-interfaces'', flag_option (on_network (bind_interfaces_update (\<lambda>_. True)))),
     (''bind-dynamic'', flag_option (on_network (bind_dynamic_update (\<lambda>_. True)))),
     (''cache-size'', parse_cache_size),
     (''no-resolv'', flag_option (on_dns (no_resolv_update (\<lambda>_. True)))),
     (''no-hosts'', flag_option (on_dns (no_hosts_update (\<lambda>_. True)))),
     (''no-poll'', flag_option (on_dns (no_poll_update (\<lambda>_. True)))),
     (''server'', parse_server_option),
     (''domain-needed'', flag_option (on_dns (domain_needed_update (\<lambda>_. True)))),
     (''bogus-priv'', flag_option (on_dns (bogus_priv_update (\<lambda>_. True)))),
     (''stop-dns-rebind'', flag_option (on_dns (stop_dns_rebind_update (\<lambda>_. True)))),
     (''dnssec'', flag_option (on_dns (dnssec_enabled_update (\<lambda>_. True)))),
     (''trust-anchor'', parse_trust_anchor),
     (''dnssec-timestamp'', parse_dnssec_timestamp),
     (''edns-packet-max'', parse_edns_packet_max),
     (''address'', parse_address_record),
     (''host-record'', parse_host_record),
     (''cname'', parse_cname_record),
     (''mx-host'', parse_mx_record),
     (''mx-target'', parse_mx_target),
     (''srv-host'', parse_srv_record),
     (''txt-record'', parse_txt_record),
     (''ptr-record'', parse_ptr_record)] @
    (if feat_auth E then [(''auth-zone'', parse_auth_zone E), (''auth-server'', parse_auth_server E)] else []) @
    [(''dhcp-range'', parse_dhcp_range E),
     (''dhcp-host'', parse_dhcp_host),
     (''dhcp-option'', parse_dhcp_option),
     (''dhcp-leasefile'', parse_dhcp_leasefile),
     (''dhcp-boot'', parse_dhcp_boot),
     (''dhcp-authoritative'', flag_option (on_dhcp (dhcp_authoritative_update (\<lambda>_. True)))),
     (''tftp-root'', parse_tftp_root E),
     (''enable-tftp'', \<lambda>_. parse_enable_tftp E),
     (''tftp-secure'', \<lambda>_. parse_tftp_secure E),
     (''tftp-unique-root'', \<lambda>_. parse_tftp_unique_root E),
     (''tftp-no-blocksize'', \<lambda>_. parse_tftp_no_blocksize E),
     (''log-queries'', flag_option (on_logging (log_queries_update (\<lambda>_. True)))),
     (''log-dhcp'', flag_option (on_logging (log_dhcp_update (\<lambda>_. True)))),
     (''log-facility'', parse_log_facility),
     (''quiet-dhcp'', flag_option (on_logging (quiet_dhcp_update (\<lambda>_. True)))),
     (''quiet-dhcp6'', flag_option (on_logging (quiet_dhcp6_update (\<lambda>_. True)))),
     (''quiet-ra'', flag_option (on_logging (quiet_ra_update (\<lambda>_. True)))),
     (''user'', parse_user_option),
     (''group'', parse_group_option),
     (''no-daemon'', flag_option (on_platform (daemon_mode_update (\<lambda>_. False)))),
     (''pid-file'', parse_pid_file),
     (''local'', parse_local_domain),
     (''dnssec-check-unsigned'', flag_option (on_dns (dnssec_enabled_check_unsigned_update (\<lambda>_. True)))),
     (''enable-ra'', flag_option (on_dhcp (enable_ra_update (\<lambda>_. True))))]"

definition split_option :: "bytes \<Rightarrow> bytes \<times> bytes option" where
  "split_option line =
     (let (name, v) =
        (case split_once 0x3D line of
           Some (n, v) \<Rightarrow> (str_trim n, Some (str_trim v))
         | None \<Rightarrow> (case split_ws_once line of (n, v) \<Rightarrow> (n, map_option str_trim v))) in
      (dropWhile (\<lambda>b. b = hyphen) name, v))"

fun find_handler :: "bytes \<Rightarrow> (string \<times> 'h) list \<Rightarrow> 'h option" where
  "find_handler name [] = None"
| "find_handler name ((n, h) # hs) = (if ascii n = name then Some h else find_handler name hs)"

definition parse_option_line :: "config_env \<Rightarrow> bytes \<Rightarrow> config_parser \<Rightarrow> option_result" where
  "parse_option_line E line p =
     (case split_option line of (name, v) \<Rightarrow>
        if name = ascii ''conf-file'' \<or> name = ascii ''conf-dir'' then
          rbind (value_or p ''Missing path for include directive'' v) (\<lambda>path. handle_include_directive E name path p)
        else case find_handler name (option_handlers E) of
          Some h \<Rightarrow> h v p
        | None \<Rightarrow> Err (ParseError (case current_file p of None \<Rightarrow> ascii ''<input>'' | Some f \<Rightarrow> f)
            (current_line p) ''Unknown configuration option''))"

subsection \<open>Lines and files\<close>

type_synonym parse_result = "(unit, config_error) outcome \<times> config_parser"

text \<open>An option that fails leaves the parser as it was.\<close>

definition parse_line :: "config_env \<Rightarrow> bytes \<Rightarrow> config_parser \<Rightarrow> parse_result" where
  "parse_line E line p =
     (case rbind (process_quotes_and_escapes line) (\<lambda>processed.
        let trimmed = str_trim (strip_comment processed) in
        if trimmed = [] then Ok p else parse_option_line E trimmed p) of
        Ok p' \<Rightarrow> (Ok (), p')
      | Err e \<Rightarrow> (Err e, p)
      | Panic \<Rightarrow> (Panic, p))"

fun parse_lines :: "config_env \<Rightarrow> bytes list \<Rightarrow> config_parser \<Rightarrow> parse_result" where
  "parse_lines E [] p = (Ok (), p)"
| "parse_lines E (line # ls) p =
     (case parse_line E line (p\<lparr>current_line := current_line p + 1\<rparr>) of
        (Ok _, p') \<Rightarrow> parse_lines E ls p'
      | r \<Rightarrow> r)"

definition parse_string_conf :: "config_env \<Rightarrow> bytes \<Rightarrow> config_parser \<Rightarrow> parse_result" where
  "parse_string_conf E content p =
     (case parse_lines E (str_lines content) (p\<lparr>current_line := 0\<rparr>) of
        (r, p') \<Rightarrow> (r, p'\<lparr>current_line := current_line p\<rparr>))"

text \<open>A line is continued when it ends in one backslash, not in two.\<close>

definition continued :: "bytes \<Rightarrow> bool" where
  "continued trimmed \<longleftrightarrow> trimmed \<noteq> [] \<and> last trimmed = backslash \<and>
     \<not> (2 \<le> length trimmed \<and> last (butlast trimmed) = backslash)"

fun parse_reader :: "config_env \<Rightarrow> bytes option list \<Rightarrow> bytes \<Rightarrow> bool \<Rightarrow> config_parser \<Rightarrow> parse_result" where
  "parse_reader E [] acc continuing p =
     (if continuing \<and> acc \<noteq> [] then parse_line E acc p else (Ok (), p))"
| "parse_reader E (None # ls) acc continuing p = (Err (make_parse_error p ''I/O error''), p)"
| "parse_reader E (Some line # ls) acc continuing p =
     (let p = p\<lparr>current_line := current_line p + 1\<rparr> in
      if length line + length acc > MAX_CONFIG_LINE_LENGTH then (Err (make_parse_error p ''Line too long''), p)
      else let trimmed = trim_end_ws line in
      if continued trimmed then parse_reader E ls (acc @ butlast trimmed) True p
      else if continuing then
        (case parse_line E (acc @ line) p of (Ok _, p') \<Rightarrow> parse_reader E ls [] False p' | r \<Rightarrow> r)
      else
        (case parse_line E line p of (Ok _, p') \<Rightarrow> parse_reader E ls acc False p' | r \<Rightarrow> r))"

text \<open>What the loop over the work queue does with one file.\<close>

datatype file_result = Return "(unit, config_error) outcome" | SkipFile | Includes "bytes list"

definition fail_file :: "bool \<Rightarrow> config_error \<Rightarrow> file_result" where
  "fail_file is_first e = (if is_first then Return (Err e) else SkipFile)"

definition parse_one :: "config_env \<Rightarrow> bool \<Rightarrow> bytes \<Rightarrow> nat \<Rightarrow> config_parser \<Rightarrow> file_result \<times> config_parser" where
  "parse_one E is_first path depth p =
     (if depth \<ge> MAX_INCLUDE_DEPTH
      then (fail_file is_first (IncludeFailed path ''Maximum include depth exceeded''), p)
      else case ce_canonicalize E path of
        None \<Rightarrow> (fail_file is_first (FileNotFound path), p)
      | Some canonical \<Rightarrow>
          if canonical \<in> visited_files p
          then (fail_file is_first (IncludeFailed canonical ''Circular include detected (file already processed)''), p)
          else let p1 = p\<lparr>visited_files := insert canonical (visited_files p)\<rparr> in
            case ce_open E canonical of
              None \<Rightarrow> (fail_file is_first (FileNotFound canonical),
                       p1\<lparr>visited_files := visited_files p1 - {canonical}\<rparr>)
            | Some ls \<Rightarrow>
                (case parse_reader E ls [] False (p1\<lparr>current_file := Some canonical, current_line := 0\<rparr>) of
                   (res, p2) \<Rightarrow>
                     let p3 = p2\<lparr>current_file := current_file p, current_line := current_line p,
                       visited_files := visited_files p2 - {canonical}\<rparr> in
                     (case res of
                        Err e \<Rightarrow> (fail_file is_first e, p3)
                      | Panic \<Rightarrow> (Return Panic, p3)
                      | Ok _ \<Rightarrow> (Includes (pending_includes p3), p3\<lparr>pending_includes := []\<rparr>))))"

text \<open>
  The stack of files with their depths, top first.  Every file that is parsed is replaced by
  finitely many of greater depth, and files of depth 20 are dropped.
\<close>

lemma parse_one_depth: "parse_one E is_first path depth p = (Includes is, p') \<Longrightarrow> depth < MAX_INCLUDE_DEPTH"
  by (auto simp: parse_one_def fail_file_def split: if_splits)

definition queue_weight :: "(bytes \<times> nat) list \<Rightarrow> nat multiset" where
  "queue_weight q = mset (map (\<lambda>(path, depth). MAX_INCLUDE_DEPTH - depth) q)"

lemma queue_weight_less:
  "(queue_weight q, queue_weight ((path, depth) # q)) \<in> mult less_than"
  "depth < MAX_INCLUDE_DEPTH \<Longrightarrow>
   (queue_weight (rev (map (\<lambda>i. (i, depth + 1)) is) @ q), queue_weight ((path, depth) # q)) \<in> mult less_than"
proof -
  show "(queue_weight q, queue_weight ((path, depth) # q)) \<in> mult less_than"
    using one_step_implies_mult[of "{#MAX_INCLUDE_DEPTH - depth#}" "{#}" less_than "queue_weight q"]
    by (simp add: queue_weight_def)
  assume "depth < MAX_INCLUDE_DEPTH"
  then have "\<forall>k\<in>set_mset (mset (rev (map (\<lambda>_. MAX_INCLUDE_DEPTH - (depth + 1)) is))).
      \<exists>j\<in>set_mset {#MAX_INCLUDE_DEPTH - depth#}. (k, j) \<in> less_than" by auto
  from one_step_implies_mult[OF _ this, of "queue_weight q"]
  show "(queue_weight (rev (map (\<lambda>i. (i, depth + 1)) is) @ q), queue_weight ((path, depth) # q)) \<in> mult less_than"
    by (simp add: queue_weight_def rev_map comp_def add.commute)
qed

lemma queue_weight_includes:
  "(Includes is, p') = parse_one E is_first path depth p \<Longrightarrow>
   (queue_weight (rev (map (\<lambda>i. (i, Suc depth)) is) @ q), queue_weight ((path, depth) # q)) \<in> mult less_than"
  using queue_weight_less(2)[of depth "is" q path] parse_one_depth[of E is_first path depth p "is" p'] by simp

function parse_files :: "config_env \<Rightarrow> (bytes \<times> nat) list \<Rightarrow> bool \<Rightarrow> config_parser \<Rightarrow> parse_result" where
  "parse_files E [] is_first p = (Ok (), p)"
| "parse_files E ((path, depth) # q) is_first p =
     (case parse_one E is_first path depth p of
        (Return r, p') \<Rightarrow> (r, p')
      | (SkipFile, p') \<Rightarrow> parse_files E q is_first p'
      | (Includes is, p') \<Rightarrow> parse_files E (rev (map (\<lambda>i. (i, depth + 1)) is) @ q) False p')"
  by pat_completeness auto
termination
  by (relation "inv_image (mult less_than) (\<lambda>(E, q, is_first, p). queue_weight q)")
    (auto simp: wf_mult queue_weight_less queue_weight_includes)

declare parse_files.simps(2) [simp del]

definition parse_config_file :: "config_env \<Rightarrow> bytes \<Rightarrow> config_parser \<Rightarrow> parse_result" where
  "parse_config_file E path p = parse_files E [(path, 0)] True p"

definition parse_with_includes :: "config_env \<Rightarrow> bytes \<Rightarrow> config_parser \<Rightarrow> parse_result" where
  "parse_with_includes E path p =
     (case parse_config_file E path (p\<lparr>include_depth := include_depth p + 1\<rparr>) of
        (r, p') \<Rightarrow> (r, p'\<lparr>include_depth := include_depth p' - 1\<rparr>))"

definition into_config :: "config_parser \<Rightarrow> config" where
  "into_config p = cp_config p"

definition parse_file_conf :: "config_env \<Rightarrow> bytes \<Rightarrow> bytes \<Rightarrow> (config, config_error) outcome" where
  "parse_file_conf E LEASEFILE path =
     (case parse_config_file E path (config_parser_new LEASEFILE) of
        (r, p') \<Rightarrow> rbind r (\<lambda>_. Ok (into_config p')))"


subsection \<open>The configuration is well formed, whatever is parsed\<close>

text \<open>
  Ranges are filed under the family of their start and marked so, upstream servers are servers with an
  address, servers without one are for a domain, host records have an address, packet and cache sizes are
  in their bounds, and every address has the length of its family.
\<close>

definition range_wf :: "bool \<Rightarrow> dhcp_range \<Rightarrow> bool" where
  "range_wf v6 r \<longleftrightarrow> ip_wf (rg_start r) \<and> ip_wf (rg_end r) \<and> is_v4_addr (rg_start r) = (\<not> v6) \<and> rg_is_ipv6 r = v6"

definition server_wf :: "server_details \<Rightarrow> bool" where
  "server_wf s \<longleftrightarrow> ip_wf (fst (sd_addr s)) \<and>
     (sd_address s = Some (fst (sd_addr s)) \<or> sd_address s = None \<and> sd_domain s \<noteq> None)"

definition dns_wf :: "dns_settings \<Rightarrow> bool" where
  "dns_wf d \<longleftrightarrow> 512 \<le> edns_packet_max d \<and> cache_size d < 2 ^ 64 \<and>
     (\<forall>s\<in>set (upstream_servers d). s \<in> set (conf_servers d) \<and> sd_address s \<noteq> None) \<and>
     (\<forall>s\<in>set (conf_servers d). server_wf s) \<and>
     (\<forall>(n, as)\<in>set (host_records d). as \<noteq> [] \<and> (\<forall>a\<in>set as. ip_wf a)) \<and>
     (\<forall>(n, a)\<in>set (address_records d). ip_wf a)"

definition config_wf :: "config \<Rightarrow> bool" where
  "config_wf c \<longleftrightarrow> dns_wf (cfg_dns c) \<and>
     (\<forall>r\<in>set (v4_ranges (cfg_dhcp c)). range_wf False r) \<and>
     (\<forall>r\<in>set (v6_ranges (cfg_dhcp c)). range_wf True r) \<and>
     (\<forall>a\<in>set (listen_addresses (cfg_network c)). ip_wf a)"

text \<open>What every handler handler_keeps; no handler touches the bookkeeping of files and lines.\<close>

definition handler_keeps :: "(bytes option \<Rightarrow> config_parser \<Rightarrow> option_result) \<Rightarrow> bool" where
  "handler_keeps h \<longleftrightarrow> (\<forall>v p p'. h v p = Ok p' \<longrightarrow>
     visited_files p' = visited_files p \<and> current_file p' = current_file p \<and> current_line p' = current_line p \<and>
     (config_wf (cp_config p) \<longrightarrow> config_wf (cp_config p')))"

lemma on_config_simps [simp]:
  "visited_files (on_config f p) = visited_files p" "current_file (on_config f p) = current_file p"
  "current_line (on_config f p) = current_line p" "cp_config (on_config f p) = f (cp_config p)"
  "pending_includes (on_config f p) = pending_includes p"
  by (simp_all add: on_config_def)

lemmas handler_simps = handler_keeps_def value_or_def parsed_or_def rbind_Ok_iff ok_or_Ok_iff map_err_Ok_iff

lemma config_wf_dns:
  "config_wf c \<Longrightarrow> (\<And>d. dns_wf d \<Longrightarrow> dns_wf (f d)) \<Longrightarrow> config_wf (on_dns f c)"
  by (simp add: config_wf_def on_dns_def)

lemma config_wf_network:
  "config_wf c \<Longrightarrow> (\<And>n. \<forall>a\<in>set (listen_addresses n). ip_wf a \<Longrightarrow> \<forall>a\<in>set (listen_addresses (f n)). ip_wf a) \<Longrightarrow>
   config_wf (on_network f c)"
  by (auto simp: config_wf_def on_network_def)

lemma config_wf_dhcp:
  "config_wf c \<Longrightarrow>
   (\<And>d. \<forall>r\<in>set (v4_ranges d). range_wf False r \<Longrightarrow> \<forall>r\<in>set (v6_ranges d). range_wf True r \<Longrightarrow>
     (\<forall>r\<in>set (v4_ranges (f d)). range_wf False r) \<and> (\<forall>r\<in>set (v6_ranges (f d)). range_wf True r)) \<Longrightarrow>
   config_wf (on_dhcp f c)"
  by (auto simp: config_wf_def on_dhcp_def)

lemma config_wf_other [intro!]:
  "config_wf c \<Longrightarrow> config_wf (on_tftp f1 c)" "config_wf c \<Longrightarrow> config_wf (on_logging f2 c)"
  "config_wf c \<Longrightarrow> config_wf (on_security f3 c)" "config_wf c \<Longrightarrow> config_wf (on_platform f4 c)"
  by (simp_all add: config_wf_def section_simps)

lemmas config_wf_intros = config_wf_dns config_wf_network config_wf_dhcp

lemma server_details_new_wf:
  "server_details_new (ip, port) domain fl = Ok s \<Longrightarrow> ip_wf ip \<Longrightarrow> server_wf s \<and> sd_address s \<noteq> None"
  by (auto simp: server_details_new_def server_wf_def rust_simps)

lemma new_authoritative_wf: "new_authoritative domain = Ok s \<Longrightarrow> server_wf s"
  by (auto simp: new_authoritative_def server_wf_def ip_wf_def rust_simps)

lemma traverse_ips:
  "traverse (\<lambda>a. parsed_or p r (parse_ip_addr a)) xs = Ok ys \<Longrightarrow> length ys = length xs \<and> (\<forall>a\<in>set ys. ip_wf a)"
  by (induction xs arbitrary: ys) (auto simp: rust_simps parsed_or_def dest: parse_ip_addr_wf)

lemma parse_dec_bound: "parse_dec m s = Some n \<Longrightarrow> n \<le> m"
  by (auto simp: parse_dec_def Let_def split: if_splits)

lemma range_addresses_wf: "range_addresses parts p = Ok (a, b, n) \<Longrightarrow> ip_wf a \<and> ip_wf b"
  by (auto simp: range_addresses_def parsed_or_def rust_simps dest!: parse_ip_addr_wf split: if_splits list.splits)

named_theorems keeps_intros \<open>what the handlers keep\<close>

lemma keeps_flag:
  assumes "\<And>c. config_wf c \<Longrightarrow> config_wf (f c)"
  shows "handler_keeps (flag_option f)"
  using assms by (auto simp: handler_keeps_def flag_option_def)

lemma keeps_network [keeps_intros]:
  "handler_keeps parse_port_option" "handler_keeps parse_listen_address" "handler_keeps parse_interface"
  "handler_keeps parse_except_interface"
  unfolding parse_port_option_def parse_listen_address_def parse_interface_def parse_except_interface_def
  by (auto simp: handler_simps intro!: config_wf_intros dest!: parse_ip_addr_wf)

lemma keeps_dns [keeps_intros]:
  "handler_keeps parse_trust_anchor" "handler_keeps parse_dnssec_timestamp" "handler_keeps parse_local_domain"
  "handler_keeps parse_mx_target"
  unfolding parse_trust_anchor_def parse_dnssec_timestamp_def parse_local_domain_def parse_mx_target_def
  by (auto simp: handler_simps dns_wf_def intro!: config_wf_intros)

lemma keeps_sizes [keeps_intros]: "handler_keeps parse_cache_size" "handler_keeps parse_edns_packet_max"
  unfolding parse_cache_size_def parse_edns_packet_max_def
  by (auto simp: handler_simps dns_wf_def intro!: config_wf_intros dest!: parse_dec_bound split: if_splits)

lemma server_at_wf:
  assumes "server_at addr domain p = Ok p'"
  obtains s where "p' = add_conf_server s p" "server_wf s" "sd_address s \<noteq> None"
  using assms by (auto simp: server_at_def handler_simps dest!: parse_ip_addr_wf server_details_new_wf)

lemma add_conf_server_wf:
  "config_wf (cp_config p) \<Longrightarrow> server_wf s \<Longrightarrow> sd_address s \<noteq> None \<Longrightarrow> config_wf (cp_config (add_conf_server s p))"
  by (auto simp: add_conf_server_def config_wf_def on_dns_def dns_wf_def)

lemma add_conf_server_simps [simp]:
  "visited_files (add_conf_server s p) = visited_files p" "current_file (add_conf_server s p) = current_file p"
  "current_line (add_conf_server s p) = current_line p"
  by (simp_all add: add_conf_server_def)

lemma keeps_server [keeps_intros]: "handler_keeps parse_server_option"
  unfolding parse_server_option_def
  by (clarsimp simp: handler_simps simp del: split_paired_Ex)
    (auto split: if_split_asm list.split_asm simp: rbind_Ok_iff map_err_Ok_iff dns_wf_def
      intro!: config_wf_intros dest!: new_authoritative_wf elim!: server_at_wf intro: add_conf_server_wf)

lemma keeps_records [keeps_intros]:
  "handler_keeps parse_cname_record" "handler_keeps parse_mx_record" "handler_keeps parse_srv_record"
  "handler_keeps parse_txt_record" "handler_keeps parse_ptr_record"
  unfolding parse_cname_record_def parse_mx_record_def parse_srv_record_def parse_txt_record_def parse_ptr_record_def
  by (clarsimp simp: handler_simps,
    auto split: list.split_asm option.split_asm simp: handler_simps dns_wf_def intro!: config_wf_intros)+

lemma keeps_address [keeps_intros]: "handler_keeps parse_address_record"
  unfolding parse_address_record_def
  by (clarsimp simp: handler_simps)
    (auto split: list.split_asm if_split_asm simp: handler_simps dns_wf_def intro!: config_wf_intros
      dest!: parse_ip_addr_wf)

lemma dns_wf_host_record:
  "dns_wf d \<Longrightarrow> as \<noteq> [] \<Longrightarrow> \<forall>a\<in>set as. ip_wf a \<Longrightarrow> dns_wf (host_records_update (\<lambda>xs. xs @ [(n, as)]) d)"
  by (auto simp: dns_wf_def)

lemma keeps_host [keeps_intros]: "handler_keeps parse_host_record"
proof -
  have "\<exists>n as. p' = on_config (on_dns (host_records_update (\<lambda>xs. xs @ [(n, as)]))) p \<and> as \<noteq> [] \<and> (\<forall>a\<in>set as. ip_wf a)"
    if r: "parse_host_record v p = Ok p'" for v p p'
  proof -
    from r obtain n a as ys where
      t: "traverse (\<lambda>a. parsed_or p ''Invalid IP address'' (parse_ip_addr a)) (a # as) = Ok ys"
      and p': "p' = on_config (on_dns (host_records_update (\<lambda>xs. xs @ [(n, ys)]))) p"
      unfolding parse_host_record_def
      by (clarsimp simp: rbind_Ok_iff simp del: traverse.simps)
        (auto simp: rbind_Ok_iff simp del: traverse.simps split: list.split_asm)
    from traverse_ips[OF t] have "ys \<noteq> []" "\<forall>a\<in>set ys. ip_wf a" by auto
    with p' show ?thesis by blast
  qed
  then show ?thesis unfolding handler_keeps_def
    by (metis on_config_simps config_wf_dns dns_wf_host_record)
qed

lemma keeps_auth [keeps_intros]: "handler_keeps (parse_auth_zone E)" "handler_keeps (parse_auth_server E)"
  unfolding parse_auth_zone_def parse_auth_server_def
  by (auto simp: handler_simps dns_wf_def Let_def intro!: config_wf_intros split: if_splits)

lemma keeps_dhcp [keeps_intros]:
  "handler_keeps parse_dhcp_host" "handler_keeps parse_dhcp_boot" "handler_keeps parse_dhcp_option"
  "handler_keeps parse_dhcp_leasefile"
  unfolding parse_dhcp_host_def parse_dhcp_boot_def parse_dhcp_option_def parse_dhcp_leasefile_def
  by (auto simp: handler_simps Let_def intro!: config_wf_intros)

lemma add_dhcp_range_keeps:
  "visited_files (add_dhcp_range rg p) = visited_files p" "current_file (add_dhcp_range rg p) = current_file p"
  "current_line (add_dhcp_range rg p) = current_line p"
  by (simp_all add: add_dhcp_range_def)

lemma add_dhcp_range_wf:
  "config_wf (cp_config p) \<Longrightarrow> range_wf (\<not> is_v4_addr (rg_start rg)) rg \<Longrightarrow> config_wf (cp_config (add_dhcp_range rg p))"
  by (auto simp: add_dhcp_range_def intro!: config_wf_dhcp)

lemma parse_dhcp_range_adds:
  assumes "parse_dhcp_range E v p = Ok p'"
  obtains rg where "p' = add_dhcp_range rg p" "range_wf (\<not> is_v4_addr (rg_start rg)) rg"
proof -
  from assms obtain parts y and q :: range_params where y: "range_addresses parts p = Ok y"
    and p': "add_dhcp_range \<lparr>rg_start = fst y, rg_end = fst (snd y),
      rg_lease_time_override = map_option secs (rp_lease_time q),
      rg_netmask = rp_netmask q, rg_interface = rp_interface q, rg_lease_time = rp_lease_time q,
      rg_is_ipv6 = \<not> is_v4_addr (fst y), rg_prefix_len = snd (snd y)\<rparr> p = p'"
    unfolding parse_dhcp_range_def Let_def rbind_Ok_iff case_prod_beta outcome.inject by blast
  then have r: "range_addresses parts p = Ok (fst y, fst (snd y), snd (snd y))" by simp
  from range_addresses_wf[OF r] show thesis by (intro that[OF p'[symmetric]]) (simp add: range_wf_def)
qed

lemma keeps_range [keeps_intros]: "handler_keeps (parse_dhcp_range E)"
  unfolding handler_keeps_def
  by (metis parse_dhcp_range_adds add_dhcp_range_keeps add_dhcp_range_wf)

lemma keeps_rest [keeps_intros]:
  "handler_keeps (parse_tftp_root E)" "handler_keeps (\<lambda>_. parse_enable_tftp E)"
  "handler_keeps (\<lambda>_. parse_tftp_secure E)" "handler_keeps (\<lambda>_. parse_tftp_unique_root E)"
  "handler_keeps (\<lambda>_. parse_tftp_no_blocksize E)" "handler_keeps parse_log_facility"
  "handler_keeps parse_user_option" "handler_keeps parse_group_option" "handler_keeps parse_pid_file"
  unfolding parse_tftp_root_def parse_enable_tftp_def parse_tftp_secure_def parse_tftp_unique_root_def
    parse_tftp_no_blocksize_def parse_log_facility_def parse_user_option_def parse_group_option_def parse_pid_file_def
  by (auto simp: handler_simps split: if_splits)

lemma keeps_flags [keeps_intros]:
  "handler_keeps (flag_option (on_network (bind_interfaces_update g)))"
  "handler_keeps (flag_option (on_network (bind_dynamic_update g)))"
  "handler_keeps (flag_option (on_dns (no_resolv_update g)))"
  "handler_keeps (flag_option (on_dns (no_hosts_update g)))"
  "handler_keeps (flag_option (on_dns (no_poll_update g)))"
  "handler_keeps (flag_option (on_dns (domain_needed_update g)))"
  "handler_keeps (flag_option (on_dns (bogus_priv_update g)))"
  "handler_keeps (flag_option (on_dns (stop_dns_rebind_update g)))"
  "handler_keeps (flag_option (on_dns (dnssec_enabled_update g)))"
  "handler_keeps (flag_option (on_dns (dnssec_enabled_check_unsigned_update g)))"
  "handler_keeps (flag_option (on_dhcp (dhcp_authoritative_update g)))"
  "handler_keeps (flag_option (on_dhcp (enable_ra_update g)))"
  "handler_keeps (flag_option (on_logging f))" "handler_keeps (flag_option (on_platform f'))"
  by (auto simp: dns_wf_def intro!: keeps_flag config_wf_intros)

lemma handlers_keep: "list_all (\<lambda>(n, h). handler_keeps h) (option_handlers E)"
  by (simp add: option_handlers_def keeps_intros)

lemma find_handler_keeps: "find_handler name hs = Some h \<Longrightarrow> list_all (\<lambda>(n, h). handler_keeps h) hs \<Longrightarrow> handler_keeps h"
  by (induction name hs rule: find_handler.induct) (auto split: if_splits)


text \<open>What reading lines and files keeps.\<close>

definition frame :: "config_parser \<Rightarrow> config_parser \<Rightarrow> bool" where
  "frame p p' \<longleftrightarrow> visited_files p' = visited_files p \<and> current_file p' = current_file p \<and>
     (config_wf (cp_config p) \<longrightarrow> config_wf (cp_config p'))"

lemma frame_refl [simp]: "frame p p"
  by (simp add: frame_def)

lemma frame_trans: "frame p q \<Longrightarrow> frame q r \<Longrightarrow> frame p r"
  by (simp add: frame_def)

lemma frame_current_line [simp]:
  "frame (p\<lparr>current_line := n\<rparr>) p' = frame p p'" "frame p (p'\<lparr>current_line := n\<rparr>) = frame p p'"
  by (simp_all add: frame_def)

lemma include_frame: "handle_include_directive E d path p = Ok p' \<Longrightarrow> frame p p'"
  by (auto simp: handle_include_directive_def frame_def rust_simps Let_def split: if_splits)

lemma parse_option_line_frame: "parse_option_line E line p = Ok p' \<Longrightarrow> frame p p'"
proof -
  assume r: "parse_option_line E line p = Ok p'"
  obtain name v where nv: "split_option line = (name, v)" by fastforce
  have "handler_keeps h" if "find_handler name (option_handlers E) = Some h" for h
    using that handlers_keep by (rule find_handler_keeps)
  then have "h v p = Ok p' \<Longrightarrow> find_handler name (option_handlers E) = Some h \<Longrightarrow> frame p p'" for h
    by (auto simp: handler_keeps_def frame_def)
  then show ?thesis using r include_frame
    by (auto simp: parse_option_line_def nv rbind_Ok_iff split: if_split_asm option.split_asm)
qed

lemma parse_line_frame: "frame p (snd (parse_line E line p))"
  by (auto simp: parse_line_def rbind_Ok_iff Let_def split: outcome.split if_splits dest: parse_option_line_frame)

lemma parse_lines_frame: "frame p (snd (parse_lines E ls p))"
proof (induction E ls p rule: parse_lines.induct)
  case (2 E line ls p)
  let ?p = "p\<lparr>current_line := current_line p + 1\<rparr>"
  have "frame p (snd (parse_line E line ?p))" using parse_line_frame[of ?p E line] by simp
  then show ?case using 2 by (auto split: prod.split outcome.split intro: frame_trans)
qed simp

lemma parse_reader_frame: "frame p (snd (parse_reader E ls acc c p))"
proof (induction ls arbitrary: acc c p)
  case Nil
  then show ?case by (simp add: parse_line_frame)
next
  case (Cons l ls)
  show ?case
  proof (cases l)
    case (Some line)
    let ?p = "p\<lparr>current_line := current_line p + 1\<rparr>"
    have step: "frame p (snd (parse_line E t ?p))" for t using parse_line_frame[of ?p E t] by simp
    have rest: "frame p (snd (parse_reader E ls a b (snd (parse_line E t ?p))))" for a b t
      using step Cons.IH by (rule frame_trans)
    have "frame p (snd (parse_reader E ls a b ?p))" for a b using Cons.IH[of ?p a b] by simp
    then show ?thesis using step rest
      by (auto simp: Some Let_def split: prod.split outcome.split) (metis snd_conv)+
  qed simp
qed

lemma frame_close:
  assumes "frame (p\<lparr>visited_files := insert c (visited_files p), current_file := f, current_line := n\<rparr>) p2"
    "c \<notin> visited_files p"
  shows "frame p (p2\<lparr>current_file := current_file p, current_line := m, visited_files := visited_files p2 - {c}\<rparr>)"
    "frame p (p2\<lparr>current_file := current_file p, current_line := m, visited_files := visited_files p2 - {c},
       pending_includes := []\<rparr>)"
  using assms by (auto simp: frame_def)

lemma frame_reopen:
  "c \<notin> visited_files p \<Longrightarrow> frame p (p\<lparr>visited_files := insert c (visited_files p) - {c}\<rparr>)"
  by (simp add: frame_def)

lemma parse_one_frame: "frame p (snd (parse_one E is_first path depth p))"
proof (cases "depth \<ge> MAX_INCLUDE_DEPTH \<or> ce_canonicalize E path = None")
  case False
  then obtain c where c: "ce_canonicalize E path = Some c" "\<not> MAX_INCLUDE_DEPTH \<le> depth" by auto
  show ?thesis
  proof (cases "c \<in> visited_files p \<or> ce_open E c = None")
    case True
    then show ?thesis using frame_reopen[of c p] by (auto simp: parse_one_def c)
  next
    case False
    then obtain ls where ls: "ce_open E c = Some ls" and new: "c \<notin> visited_files p" by auto
    let ?q = "p\<lparr>visited_files := insert c (visited_files p), current_file := Some c, current_line := 0\<rparr>"
    obtain res p2 where r: "parse_reader E ls [] False ?q = (res, p2)" by fastforce
    have "frame ?q p2" using parse_reader_frame[of ?q E ls "[]" False] by (simp add: r)
    from frame_close[OF this new, of "current_line p"] show ?thesis
      by (cases res) (simp_all add: parse_one_def c ls new r Let_def)
  qed
qed (auto simp: parse_one_def)

lemma parse_files_frame: "frame p (snd (parse_files E q is_first p))"
proof (induction E q is_first p rule: parse_files.induct)
  case (2 E path depth q is_first p)
  have one: "frame p (snd (parse_one E is_first path depth p))" by (rule parse_one_frame)
  show ?case
  proof (cases "parse_one E is_first path depth p")
    case (Pair r p')
    then show ?thesis using 2 one
      by (cases r) (auto simp: parse_files.simps(2) intro: frame_trans)
  qed
qed simp

lemma default_wf: "config_wf (config_default LEASEFILE)"
  by (simp add: config_wf_def config_default_def dns_wf_def dns_settings_default_def dhcp_settings_default_def
      network_config_default_def)


subsection \<open>A quoted value reaches its handler\<close>

text \<open>The names of the table, with and without those of the \<open>auth\<close> feature.\<close>

definition all_option_names :: "string list" where
  "all_option_names =
    [''port'', ''listen-address'', ''interface'', ''except-interface'', ''bind-interfaces'',
     ''bind-dynamic'', ''cache-size'', ''no-resolv'', ''no-hosts'', ''no-poll'', ''server'',
     ''domain-needed'', ''bogus-priv'', ''stop-dns-rebind'', ''dnssec'', ''trust-anchor'',
     ''dnssec-timestamp'', ''edns-packet-max'', ''address'', ''host-record'', ''cname'', ''mx-host'',
     ''mx-target'', ''srv-host'', ''txt-record'', ''ptr-record'', ''auth-zone'', ''auth-server'',
     ''dhcp-range'', ''dhcp-host'', ''dhcp-option'', ''dhcp-leasefile'', ''dhcp-boot'',
     ''dhcp-authoritative'', ''tftp-root'', ''enable-tftp'', ''tftp-secure'', ''tftp-unique-root'',
     ''tftp-no-blocksize'', ''log-queries'', ''log-dhcp'', ''log-facility'', ''quiet-dhcp'',
     ''quiet-dhcp6'', ''quiet-ra'', ''user'', ''group'', ''no-daemon'', ''pid-file'', ''local'',
     ''dnssec-check-unsigned'', ''enable-ra'']"

lemma option_names: "fst ` set (option_handlers E) \<subseteq> set all_option_names"
  by (cases "feat_auth E") (simp_all add: option_handlers_def all_option_names_def)

text \<open>Option names are printable and free of the characters with a meaning.\<close>

definition name_byte :: "u8 \<Rightarrow> bool" where
  "name_byte b \<longleftrightarrow> is_ascii_graphic b \<and> b \<noteq> 0x3D \<and> b \<noteq> quote1 \<and> b \<noteq> quote2 \<and> b \<noteq> backslash \<and>
     b \<noteq> 0x23 \<and> b \<noteq> 0x3B"

definition good_name :: "bytes \<Rightarrow> bool" where
  "good_name n \<longleftrightarrow> n \<noteq> [] \<and> list_all name_byte n \<and> hd n \<noteq> hyphen \<and> n \<noteq> ascii ''conf-file'' \<and> n \<noteq> ascii ''conf-dir''"

lemma option_names_good: "list_all (\<lambda>n. good_name (ascii n)) all_option_names"
  by code_simp

lemma option_names_distinct: "distinct (map ascii all_option_names)"
  by code_simp

lemma map_fst_handlers:
  "map fst (option_handlers E) = (if feat_auth E then all_option_names
     else filter (\<lambda>n. n \<noteq> ''auth-zone'' \<and> n \<noteq> ''auth-server'') all_option_names)"
  by (simp add: option_handlers_def all_option_names_def)

lemma find_handler_in:
  "distinct (map (\<lambda>(n, h). ascii n) hs) \<Longrightarrow> (n, h) \<in> set hs \<Longrightarrow> find_handler (ascii n) hs = Some h"
  by (induction "ascii n" hs rule: find_handler.induct) (auto simp: rev_image_eqI)

lemma handlers_distinct: "distinct (map (\<lambda>(n, h). ascii n) (option_handlers E))"
proof -
  have "map (\<lambda>(n, h). ascii n) (option_handlers E) = map ascii (map fst (option_handlers E))"
    by (simp add: case_prod_beta)
  then show ?thesis using option_names_distinct by (auto simp: map_fst_handlers distinct_map_filter)
qed

text \<open>A value in double quotes, with quotes and backslashes escaped.\<close>

definition quote_text :: "bytes \<Rightarrow> bytes" where
  "quote_text v = quote2 # concat (map (\<lambda>b. if b = quote2 \<or> b = backslash then [backslash, b] else [b]) v) @ [quote2]"

lemma parse_quoted_content:
  "parse_quoted_string quote2
     (concat (map (\<lambda>b. if b = quote2 \<or> b = backslash then [backslash, b] else [b]) v) @ quote2 # r) = Some (v, r)"
proof (induction v)
  case Nil
  then show ?case by (cases r) auto
next
  case (Cons b v)
  let ?t = "concat (map (\<lambda>b. if b = quote2 \<or> b = backslash then [backslash, b] else [b]) v) @ quote2 # r"
  obtain d t where dt: "?t = d # t" by (cases ?t) auto
  show ?case
  proof (cases "b = quote2 \<or> b = backslash")
    case True
    then have "escaped_char b = b" by (auto simp: escaped_char_def)
    then show ?thesis using True Cons by auto
  next
    case False
    then have "parse_quoted_string quote2 (b # d # t) = map_option (apfst ((#) b)) (parse_quoted_string quote2 (d # t))"
      by auto
    then show ?thesis using False Cons dt by simp
  qed
qed

lemma process_plain:
  "quote1 \<notin> set n \<Longrightarrow> quote2 \<notin> set n \<Longrightarrow> backslash \<notin> set n \<Longrightarrow>
   process_quotes_and_escapes (n @ r) = rbind (process_quotes_and_escapes r) (\<lambda>u. Ok (n @ u))"
proof (induction n)
  case Nil
  then show ?case by (cases "process_quotes_and_escapes r") auto
next
  case (Cons b n)
  then show ?case
    by (subst process_quotes_and_escapes.simps) (cases "process_quotes_and_escapes r", auto)
qed

lemma process_nil [simp]: "process_quotes_and_escapes [] = Ok []"
  by (simp add: process_quotes_and_escapes.simps)

lemma process_quoted: "process_quotes_and_escapes (quote_text v) = Ok v"
  using parse_quoted_content[of v "[]"]
  by (subst process_quotes_and_escapes.simps) (simp add: quote_text_def)

lemma no_comment: "0x23 \<notin> set s \<Longrightarrow> 0x3B \<notin> set s \<Longrightarrow> strip_comment s = s"
  by (simp add: strip_comment_def comment_at_def str_find_def)

lemma trim_end_after: "list_all is_ascii_graphic n \<Longrightarrow> trim_end_ws (n @ v) = n @ trim_end_ws v"
  by (induction n) (auto simp: blank_def trim_start_graphic)

lemma length_trim_end: "length (trim_end_ws s) \<le> length s"
  by (induction s) auto

lemma length_trim_start: "length (trim_start_ws s) \<le> length s"
  by (induction s rule: trim_start_ws.induct) (subst trim_start_ws.simps, auto)

lemma trim_start_fixed: "length (trim_start_ws s) = length s \<Longrightarrow> trim_start_ws s = s"
proof (cases "ws_len s = 0")
  case False
  assume l: "length (trim_start_ws s) = length s"
  have "s \<noteq> []" using False by auto
  moreover have "length (trim_start_ws (drop (ws_len s) s)) \<le> length (drop (ws_len s) s)" by (rule length_trim_start)
  ultimately show ?thesis using False l by (subst (asm) trim_start_ws.simps) (cases s, auto)
qed (simp add: trim_start_ws.simps)

lemma trimmed_ends: "str_trim v = v \<Longrightarrow> trim_start_ws v = v \<and> trim_end_ws v = v"
  using length_trim_end[of "trim_start_ws v"] length_trim_start[of v] trim_start_fixed[of v]
  by (simp add: str_trim_def)

definition run_handler :: "(bytes option \<Rightarrow> config_parser \<Rightarrow> option_result) \<Rightarrow> bytes \<Rightarrow> config_parser \<Rightarrow> parse_result" where
  "run_handler h v p = (case h (Some v) p of Ok p' \<Rightarrow> (Ok (), p') | Err e \<Rightarrow> (Err e, p) | Panic \<Rightarrow> (Panic, p))"

lemma parse_processed_line:
  assumes "(n, h) \<in> set (option_handlers E)" "process_quotes_and_escapes line = Ok (ascii n @ 0x3D # w)"
    "0x23 \<notin> set w" "0x3B \<notin> set w"
  shows "parse_line E line p = run_handler h (str_trim (trim_end_ws w)) p"
proof -
  have "good_name (ascii n)"
    using option_names[of E] option_names_good assms(1) by (force simp: list_all_iff)
  then have n: "ascii n \<noteq> []" "hd (ascii n) \<noteq> hyphen" "\<forall>b\<in>set (ascii n). name_byte b"
    "ascii n \<noteq> ascii ''conf-file''" "ascii n \<noteq> ascii ''conf-dir''"
    by (auto simp: good_name_def list_all_iff)
  have graphic: "list_all is_ascii_graphic (ascii n)" using n(3) by (auto simp: list_all_iff name_byte_def)
  let ?t = "ascii n @ 0x3D # w"
  have "0x23 \<notin> set ?t" "0x3B \<notin> set ?t" using n(3) assms(3,4) by (auto simp: name_byte_def)
  then have c: "strip_comment ?t = ?t" by (rule no_comment)
  have "trim_start_ws ?t = ?t" using n(1) graphic by (cases "ascii n") (auto simp: trim_start_graphic)
  moreover have "trim_end_ws ?t = ascii n @ 0x3D # trim_end_ws w"
    using trim_end_after[of "ascii n @ [0x3D]" w] graphic by (simp add: is_ascii_graphic_def)
  ultimately have t: "str_trim ?t = ascii n @ 0x3D # trim_end_ws w" by (simp add: str_trim_def)
  have eq: "0x3D \<notin> set (ascii n)" using n(3) by (auto simp: name_byte_def)
  then have "split_option (str_trim ?t) = (ascii n, Some (str_trim (trim_end_ws w)))"
    unfolding t split_option_def split_once_append[OF eq]
    using n(1,2) graphic by (cases "ascii n") (auto simp: str_trim_graphic)
  moreover have "find_handler (ascii n) (option_handlers E) = Some h"
    using handlers_distinct assms(1) by (rule find_handler_in)
  ultimately have "parse_option_line E (str_trim ?t) p = h (Some (str_trim (trim_end_ws w))) p"
    using n(4,5) by (simp add: parse_option_line_def)
  then show ?thesis using t
    by (simp add: parse_line_def assms(2) c run_handler_def split: outcome.split)
qed

lemma name_not_special:
  assumes "(n, h) \<in> set (option_handlers E)"
  shows "quote1 \<notin> set (ascii n)" "quote2 \<notin> set (ascii n)" "backslash \<notin> set (ascii n)"
proof -
  have "good_name (ascii n)"
    using option_names[of E] option_names_good assms by (force simp: list_all_iff)
  then have "\<forall>b\<in>set (ascii n). name_byte b" by (simp add: good_name_def list_all_iff)
  then show "quote1 \<notin> set (ascii n)" "quote2 \<notin> set (ascii n)" "backslash \<notin> set (ascii n)"
    by (auto simp: name_byte_def)
qed


subsection \<open>Include cycles\<close>

text \<open>Reading a file reports nothing but parse errors.\<close>

definition reports_parse :: "('a, config_error) outcome \<Rightarrow> bool" where
  "reports_parse r \<longleftrightarrow> (\<forall>e. r = Err e \<longrightarrow> (\<exists>f n s. e = ParseError f n s))"

lemma reports_parse_basic [intro!]:
  "reports_parse (Ok x)" "reports_parse (Err (ParseError f n s))" "reports_parse Panic"
  "reports_parse (Err (make_parse_error p r))" "reports_parse (value_or p r v)" "reports_parse (parsed_or p r w)"
  "reports_parse (map_err (\<lambda>_. make_parse_error p r) m)" "reports_parse (Err missing_quote)"
  by (auto simp: reports_parse_def make_parse_error_def value_or_def parsed_or_def missing_quote_def
      split: option.splits elim: ok_or.elims map_err.elims)

lemma reports_parse_bind [intro!]: "reports_parse m \<Longrightarrow> (\<And>x. reports_parse (f x)) \<Longrightarrow> reports_parse (rbind m f)"
  by (cases m) (auto simp: reports_parse_def)

lemma reports_parse_traverse [intro!]: "(\<And>x. reports_parse (f x)) \<Longrightarrow> reports_parse (traverse f xs)"
  by (induction xs) auto

lemma reports_parse_range_params [intro!]: "reports_parse (range_params_loop E parts a)"
  by (induction E parts a rule: range_params_loop.induct)
    (auto simp: Let_def reports_parse_def split: option.split outcome.split)

lemma reports_parse_range [intro!]: "reports_parse (range_addresses parts p)"
  by (auto simp: range_addresses_def split: list.split)

lemma reports_parse_split_server [intro!]: "reports_parse (split_server_addr s p)"
  by (auto simp: split_server_addr_def split: option.split)

lemma reports_parse_server_at [intro!]: "reports_parse (server_at s d p)"
  unfolding server_at_def by (auto simp: case_prod_beta)

definition reports_errors :: "(bytes option \<Rightarrow> config_parser \<Rightarrow> option_result) \<Rightarrow> bool" where
  "reports_errors h \<longleftrightarrow> (\<forall>v p. reports_parse (h v p))"

named_theorems reports_errors_intros \<open>handlers that report parse errors only\<close>

lemma reports_errors_1 [reports_errors_intros]:
  "reports_errors parse_port_option" "reports_errors parse_listen_address"
  "reports_errors parse_interface" "reports_errors parse_except_interface"
  "reports_errors parse_cache_size" "reports_errors parse_server_option"
  "reports_errors parse_trust_anchor" "reports_errors parse_dnssec_timestamp"
  unfolding parse_port_option_def parse_listen_address_def parse_interface_def parse_except_interface_def
    parse_cache_size_def parse_server_option_def parse_trust_anchor_def parse_dnssec_timestamp_def
  by (auto simp: reports_errors_def Let_def case_prod_beta simp del: traverse.simps
      split: list.split option.split)

lemma reports_errors_2 [reports_errors_intros]:
  "reports_errors parse_edns_packet_max" "reports_errors parse_address_record"
  "reports_errors parse_host_record" "reports_errors parse_cname_record"
  "reports_errors parse_mx_record" "reports_errors parse_mx_target" "reports_errors parse_srv_record"
  "reports_errors parse_txt_record"
  unfolding parse_edns_packet_max_def parse_address_record_def parse_host_record_def parse_cname_record_def
    parse_mx_record_def parse_mx_target_def parse_srv_record_def parse_txt_record_def
  by (auto simp: reports_errors_def Let_def case_prod_beta simp del: traverse.simps
      split: list.split option.split)

lemma reports_errors_3 [reports_errors_intros]:
  "reports_errors parse_ptr_record" "reports_errors (parse_auth_zone E)"
  "reports_errors (parse_auth_server E)" "reports_errors (parse_dhcp_range E)"
  "reports_errors parse_dhcp_host" "reports_errors parse_dhcp_option"
  "reports_errors parse_dhcp_leasefile" "reports_errors parse_dhcp_boot"
  unfolding parse_ptr_record_def parse_auth_zone_def parse_auth_server_def parse_dhcp_range_def
    parse_dhcp_host_def parse_dhcp_option_def parse_dhcp_leasefile_def parse_dhcp_boot_def
  by (auto simp: reports_errors_def Let_def case_prod_beta simp del: traverse.simps
      split: list.split option.split)

lemma reports_errors_4 [reports_errors_intros]:
  "reports_errors (parse_tftp_root E)" "reports_errors (\<lambda>_. parse_enable_tftp E)"
  "reports_errors (\<lambda>_. parse_tftp_secure E)"
  "reports_errors (\<lambda>_. parse_tftp_unique_root E)"
  "reports_errors (\<lambda>_. parse_tftp_no_blocksize E)" "reports_errors parse_log_facility"
  "reports_errors parse_user_option" "reports_errors parse_group_option"
  unfolding parse_tftp_root_def parse_enable_tftp_def parse_tftp_secure_def parse_tftp_unique_root_def
    parse_tftp_no_blocksize_def parse_log_facility_def parse_user_option_def parse_group_option_def
  by (auto simp: reports_errors_def Let_def case_prod_beta simp del: traverse.simps
      split: list.split option.split)

lemma reports_errors_5 [reports_errors_intros]:
  "reports_errors parse_pid_file" "reports_errors parse_local_domain"
  unfolding parse_pid_file_def parse_local_domain_def
  by (auto simp: reports_errors_def Let_def case_prod_beta simp del: traverse.simps
      split: list.split option.split)

lemma reports_errors_flag [reports_errors_intros]: "reports_errors (flag_option f)"
  by (auto simp: reports_errors_def flag_option_def)

lemma handlers_report: "list_all (\<lambda>(n, h). reports_errors h) (option_handlers E)"
  by (simp add: option_handlers_def reports_errors_intros)

lemma reports_parse_process [intro!]: "reports_parse (process_quotes_and_escapes s)"
  by (induction s rule: process_quotes_and_escapes.induct)
    (subst process_quotes_and_escapes.simps, auto split: list.split option.split)

lemma find_handler_set: "find_handler name hs = Some h \<Longrightarrow> \<exists>n. (n, h) \<in> set hs"
  by (induction name hs rule: find_handler.induct) (auto split: if_splits)

lemma reports_parse_option_line [intro!]: "reports_parse (parse_option_line E line p)"
proof -
  have "reports_parse (h v p)" if "find_handler name (option_handlers E) = Some h" for name h v
    using find_handler_set[OF that] handlers_report[of E] by (force simp: list_all_iff reports_errors_def)
  moreover have "reports_parse (handle_include_directive E d path p)" for d path
    by (auto simp: handle_include_directive_def Let_def)
  ultimately show ?thesis unfolding parse_option_line_def by (auto split: prod.split option.split)
qed

lemma reports_parse_line [intro!]: "reports_parse (fst (parse_line E line p))"
proof -
  have "reports_parse (rbind (process_quotes_and_escapes line) (\<lambda>processed.
      let trimmed = str_trim (strip_comment processed) in if trimmed = [] then Ok p else parse_option_line E trimmed p))"
    by (auto simp: Let_def)
  then show ?thesis by (auto simp: parse_line_def reports_parse_def Let_def split: outcome.split)
qed

lemma reports_parse_reader [intro!]: "reports_parse (fst (parse_reader E ls acc c p))"
proof (induction ls arbitrary: acc c p)
  case (Cons l ls)
  have line: "parse_line E t q = (Err e, q') \<Longrightarrow> reports_parse (Err e)" for t q e q'
    using reports_parse_line[of E t q] by (simp add: reports_parse_def)
  show ?case using Cons.IH line
    by (cases l) (auto simp: Let_def reports_parse_def[of Panic] split: prod.split outcome.split)
qed auto


lemma parse_one_not_circular:
  assumes "visited_files p = {}" "is_first \<longrightarrow> depth < MAX_INCLUDE_DEPTH"
  shows "parse_one E is_first path depth p \<noteq> (Return (Err (IncludeFailed f r)), p')"
proof
  assume one: "parse_one E is_first path depth p = (Return (Err (IncludeFailed f r)), p')"
  have "fst (parse_reader E ls acc c q) \<noteq> Err (IncludeFailed f r)" for ls acc c q
    using reports_parse_reader[of E ls acc c q] by (auto simp: reports_parse_def)
  then have "parse_reader E ls acc c q \<noteq> (Err (IncludeFailed f r), q')" for ls acc c q q'
    by (metis fst_conv)
  then show False using one assms
    by (auto simp: parse_one_def fail_file_def Let_def split: if_splits option.splits prod.splits outcome.splits)
qed

lemma parse_files_not_circular:
  "visited_files p = {} \<Longrightarrow> is_first \<longrightarrow> (\<forall>(path, d)\<in>set q. d < MAX_INCLUDE_DEPTH) \<Longrightarrow>
   fst (parse_files E q is_first p) \<noteq> Err (IncludeFailed f r)"
proof (induction E q is_first p rule: parse_files.induct)
  case (2 E path depth q is_first p)
  obtain r1 p1 where one: "parse_one E is_first path depth p = (r1, p1)" by fastforce
  have "frame p p1" using parse_one_frame[of p E is_first path depth] by (simp add: one)
  then have "visited_files p1 = {}" using "2.prems" by (simp add: frame_def)
  moreover have "r1 \<noteq> Return (Err (IncludeFailed f r))"
    using parse_one_not_circular[of p is_first depth E path f r p1] "2.prems" one by auto
  ultimately show ?case using 2 by (cases r1) (auto simp: parse_files.simps(2) one)
qed simp

text \<open>A failed include is only logged: \<open>parse_file\<close> itself never fails with it, unless called from inside a file.\<close>

lemma include_failure_only_logged:
  assumes "visited_files p = {}"
  shows "fst (parse_config_file E path p) \<noteq> Err (IncludeFailed f r)"
  using parse_files_not_circular[of p True "[(path, 0)]" E f r] assms
  by (simp add: parse_config_file_def MAX_INCLUDE_DEPTH_def)

text \<open>A file that sets an option and includes itself.\<close>

definition loop_file :: bytes where "loop_file = ascii ''/c''"

definition loop_env :: config_env where
  "loop_env = \<lparr>feat_tftp = True, feat_auth = True, overflow_checks = False, ce_idna = (\<lambda>s. Some s),
     ce_regex = (\<lambda>s. None), ce_epoch = 0, ce_canonicalize = Some,
     ce_open = (\<lambda>f. if f = loop_file then Some [Some (ascii ''interface='' @ [0x65, 10]),
       Some (ascii ''conf-file='' @ loop_file @ [10])] else None),
     ce_read_dir = (\<lambda>d. None)\<rparr>"

lemma loop_lines:
  "parse_reader loop_env [Some (ascii ''interface='' @ [0x65, 10]), Some (ascii ''conf-file='' @ loop_file @ [10])] [] False p =
   (Ok (), on_config (on_network (interfaces_update (\<lambda>xs. xs @ [[0x65]])))
     (p\<lparr>current_line := current_line p + 2, pending_includes := pending_includes p @ [loop_file]\<rparr>))"
proof -
  let ?a = "ascii ''interface='' @ [0x65, 10]" and ?b = "ascii ''conf-file='' @ loop_file @ [10]"
  have ev: "process_quotes_and_escapes ?a = Ok ?a" "strip_comment ?a = ?a" "str_trim ?a = ascii ''interface='' @ [0x65]"
    "process_quotes_and_escapes ?b = Ok ?b" "strip_comment ?b = ?b" "str_trim ?b = ascii ''conf-file='' @ loop_file"
    "split_option (ascii ''interface='' @ [0x65]) = (ascii ''interface'', Some [0x65])"
    "split_option (ascii ''conf-file='' @ loop_file) = (ascii ''conf-file'', Some loop_file)"
    "ascii ''interface'' \<noteq> ascii ''conf-file''" "ascii ''interface'' \<noteq> ascii ''conf-dir''"
    "continued (trim_end_ws ?a) = False" "continued (trim_end_ws ?b) = False"
    "ascii ''interface='' @ [0x65] \<noteq> []" "loop_file \<noteq> []"
    by code_simp+
  have "find_handler (ascii ''interface'') (option_handlers loop_env) = Some parse_interface"
    by (rule find_handler_in[OF handlers_distinct]) (simp add: option_handlers_def)
  then have la: "parse_line loop_env ?a q = (Ok (), on_config (on_network (interfaces_update (\<lambda>xs. xs @ [[0x65]]))) q)" for q
    unfolding parse_line_def ev rbind.simps Let_def parse_option_line_def
    using ev by (simp add: parse_interface_def value_or_def)
  have lb: "parse_line loop_env ?b q = (Ok (), q\<lparr>pending_includes := pending_includes q @ [loop_file]\<rparr>)" for q
    unfolding parse_line_def ev rbind.simps Let_def parse_option_line_def
    using ev by (simp add: handle_include_directive_def value_or_def)
  have len: "length ?a \<le> MAX_CONFIG_LINE_LENGTH" "length ?b \<le> MAX_CONFIG_LINE_LENGTH"
    by (simp_all add: ascii_def loop_file_def MAX_CONFIG_LINE_LENGTH_def)
  show ?thesis
    using len by (simp add: Let_def ev(11,12) la lb del: append.simps) (simp add: on_config_def)
qed


text \<open>
  A chain of files, each of which includes the next, is followed to the depth limit: a file has left the set of
  visited files before the next is opened, so it does not matter whether a file occurs twice.
\<close>

definition include_chain :: "config_env \<Rightarrow> (nat \<Rightarrow> bytes) \<Rightarrow> (nat \<Rightarrow> config \<Rightarrow> config) \<Rightarrow> bool" where
  "include_chain E f g \<longleftrightarrow> (\<forall>i. ce_canonicalize E (f i) = Some (f i) \<and> (\<exists>ls. ce_open E (f i) = Some ls \<and>
     (\<forall>q. pending_includes q = [] \<longrightarrow> (\<exists>n. parse_reader E ls [] False q =
        (Ok (), on_config (g i) (q\<lparr>current_line := n, pending_includes := [f (Suc i)]\<rparr>))))))"

lemma chain_step:
  assumes "include_chain E f g" "depth < MAX_INCLUDE_DEPTH" "visited_files p = {}" "pending_includes p = []"
  shows "parse_files E [(f i, depth)] is_first p = parse_files E [(f (Suc i), Suc depth)] False (on_config (g i) p)"
proof -
  let ?q = "p\<lparr>visited_files := {f i}, current_file := Some (f i), current_line := 0\<rparr>"
  from assms(1) obtain ls where ls: "ce_canonicalize E (f i) = Some (f i)" "ce_open E (f i) = Some ls"
    "\<forall>q. pending_includes q = [] \<longrightarrow> (\<exists>n. parse_reader E ls [] False q =
        (Ok (), on_config (g i) (q\<lparr>current_line := n, pending_includes := [f (Suc i)]\<rparr>)))"
    unfolding include_chain_def by blast
  from ls(3)[rule_format, of ?q] assms(4) obtain n where r: "parse_reader E ls [] False ?q =
      (Ok (), on_config (g i) (?q\<lparr>current_line := n, pending_includes := [f (Suc i)]\<rparr>))" by auto
  have "parse_one E is_first (f i) depth p = (Includes [f (Suc i)], on_config (g i) p)"
    using assms(2-4) ls(1,2) r by (simp add: parse_one_def Let_def on_config_def)
  then show ?thesis by (simp add: parse_files.simps(2))
qed

lemma chain_followed:
  "include_chain E f g \<Longrightarrow> k \<le> MAX_INCLUDE_DEPTH \<Longrightarrow> visited_files p = {} \<Longrightarrow> pending_includes p = [] \<Longrightarrow> (k = 0 \<longrightarrow> \<not> is_first) \<Longrightarrow>
   parse_files E [(f i, MAX_INCLUDE_DEPTH - k)] is_first p = (Ok (), on_config (fold g [i..<i + k]) p)"
proof (induction k arbitrary: i p is_first)
  case 0
  then show ?case by (simp add: parse_files.simps(2) parse_one_def fail_file_def on_config_def)
next
  case (Suc k)
  then have "parse_files E [(f i, MAX_INCLUDE_DEPTH - Suc k)] is_first p =
      parse_files E [(f (Suc i), MAX_INCLUDE_DEPTH - k)] False (on_config (g i) p)"
    using chain_step[of E f g "MAX_INCLUDE_DEPTH - Suc k" p i is_first] by (simp add: Suc_diff_Suc)
  moreover have "[i..<i + Suc k] = i # [Suc i..<Suc i + k]" by (simp add: upt_conv_Cons)
  ultimately show ?case using Suc by (simp add: on_config_def del: upt_Suc)
qed

definition add_interface :: "config \<Rightarrow> config" where
  "add_interface = on_network (interfaces_update (\<lambda>xs. xs @ [[0x65]]))"

lemma add_interface_times:
  "interfaces (cfg_network (fold (\<lambda>_. add_interface) [i..<i + k] c)) = interfaces (cfg_network c) @ replicate k [0x65]"
  by (induction k) (simp_all add: add_interface_def on_network_def replicate_append_same)

lemma loop_chain: "include_chain loop_env (\<lambda>_. loop_file) (\<lambda>_. add_interface)"
proof -
  have env: "ce_canonicalize loop_env loop_file = Some loop_file"
    "ce_open loop_env loop_file = Some [Some (ascii ''interface='' @ [0x65, 10]),
       Some (ascii ''conf-file='' @ loop_file @ [10])]"
    by (simp_all add: loop_env_def)
  show ?thesis unfolding include_chain_def env add_interface_def by (auto simp: loop_lines simp del: parse_reader.simps)
qed

subsection \<open>Examples\<close>

text \<open>
  A quote in a comment is an error, a comment sign in a quoted value cuts it, an IPv6 server address ending in a
  decimal group loses it to the port, and a record in the documented form \<open>/domain/address\<close> is stored under the
  empty domain.
\<close>

lemma apostrophe_in_comment: "fst (parse_line E (ascii ''# don'' @ [quote1] @ ascii ''t poll'') p) = Err missing_quote"
proof -
  have "process_quotes_and_escapes (ascii ''# don'' @ [quote1] @ ascii ''t poll'') = Err missing_quote"
    by code_simp
  then show ?thesis by (simp add: parse_line_def)
qed

lemma quoted_comment_sign:
  "process_quotes_and_escapes (ascii ''txt-record=a,'' @ quote_text (ascii ''x # y'')) = Ok (ascii ''txt-record=a,x # y'')"
  "str_trim (strip_comment (ascii ''txt-record=a,x # y'')) = ascii ''txt-record=a,x''"
  by code_simp+

lemma ipv6_server_rejected:
  "parse_server_option (Some (ascii ''2001:4860:4860::8888'')) p = Err (make_parse_error p ''Invalid IP address'')"
proof -
  have "starts_with [0x2F] (ascii ''2001:4860:4860::8888'') = False" "split_once 0x23 (ascii ''2001:4860:4860::8888'') = None"
    "rsplit_once colon (ascii ''2001:4860:4860::8888'') = Some (ascii ''2001:4860:4860:'', ascii ''8888'')"
    "parse_ip_addr (ascii ''2001:4860:4860:'') = None"
    by code_simp+
  moreover have "parse_u16 (ascii ''8888'') = Some 8888"
    by (simp add: parse_u16_def parse_dec_def ascii_def dec_value_def is_digit_def Let_def)
  ultimately show ?thesis
    by (simp add: parse_server_option_def server_at_def split_server_addr_def value_or_def parsed_or_def)
qed

lemma address_record_domain_lost:
  "parse_address_record (Some (ascii ''/example.com/10.0.0.1'')) p =
     Ok (on_config (on_dns (address_records_update (\<lambda>xs. xs @ [([], V4 [10, 0, 0, 1])]))) p)"
proof -
  have "split_on 0x2F (ascii ''/example.com/10.0.0.1'') = [[], ascii ''example.com'', ascii ''10.0.0.1'']"
    "parse_ip_addr (ascii ''10.0.0.1'') = Some (V4 [10, 0, 0, 1])" "ascii ''10.0.0.1'' \<noteq> []"
    by code_simp+
  then show ?thesis by (simp add: parse_address_record_def value_or_def parsed_or_def)
qed

subsection \<open>Properties\<close>

text \<open>
  C35: the parser delivers well-formed configurations only.  Whatever the files contain, whether parsing succeeds or
  stops at an error, the configuration it has built from the defaults is well formed: every range is filed under the
  family of its start, upstream servers are configured servers with an address, host records are not empty, packet
  and cache sizes are in bounds, and every address has the length of its family.
\<close>

theorem parsed_config_wf:
  "config_wf (cp_config (snd (parse_config_file E path (config_parser_new LEASEFILE))))"
proof -
  have "frame (config_parser_new LEASEFILE) (snd (parse_config_file E path (config_parser_new LEASEFILE)))"
    unfolding parse_config_file_def by (rule parse_files_frame)
  then show ?thesis by (simp add: frame_def config_parser_new_def default_wf)
qed

text \<open>
  C36: a quoted value reaches its handler unchanged.  A line \<open>name="value"\<close>, for an option of the table and a value
  without comment signs and outer white space, with quotes and backslashes escaped, runs the handler of the option
  on exactly that value; an error leaves the parser as it was.
\<close>

theorem quoted_option_round_trip:
  assumes "(n, h) \<in> set (option_handlers E)" "str_trim v = v" "0x23 \<notin> set v" "0x3B \<notin> set v"
  shows "parse_line E (ascii n @ [0x3D] @ quote_text v) p = run_handler h v p"
proof -
  have "process_quotes_and_escapes ((ascii n @ [0x3D]) @ quote_text v) = Ok ((ascii n @ [0x3D]) @ v)"
    using process_plain[of "ascii n @ [0x3D]" "quote_text v"] name_not_special[OF assms(1)]
    by (simp add: process_quoted)
  then have "process_quotes_and_escapes (ascii n @ [0x3D] @ quote_text v) = Ok (ascii n @ 0x3D # v)" by simp
  from parse_processed_line[OF assms(1) this assms(3,4)] show ?thesis
    using trimmed_ends[OF assms(2)] assms(2) by simp
qed

theorem quoted_option_round_trip_witness:
  "parse_line loop_env (ascii ''interface'' @ [0x3D] @ quote_text [0x61, 0x22, 0x5C]) (config_parser_new []) =
   run_handler parse_interface [0x61, 0x22, 0x5C] (config_parser_new [])"
proof -
  have "(''interface'', parse_interface) \<in> set (option_handlers loop_env)" by (simp add: option_handlers_def)
  moreover have "str_trim [0x61, 0x22, 0x5C] = [0x61, 0x22, 0x5C]" by code_simp
  ultimately show ?thesis by (rule quoted_option_round_trip) simp_all
qed

text \<open>
  C37: a cycle of includes is not detected.  Parsing a file that starts a chain of includes, each file including the
  next, reads exactly the first twenty files of the chain and succeeds, applying the settings of each in
  order, whether the files differ or recur: a file that includes itself is read twenty times, and all its
  settings are applied each time.
\<close>

theorem include_cycle_followed:
  assumes "include_chain E f g" and "visited_files p = {}" and "pending_includes p = []"
  shows "parse_config_file E (f 0) p = (Ok (), on_config (fold g [0..<20]) p)"
  using chain_followed[of E f g MAX_INCLUDE_DEPTH p True 0] assms
  by (simp add: parse_config_file_def MAX_INCLUDE_DEPTH_def del: upt_rec_numeral)

theorem include_cycle_followed_witness:
  "fst (parse_config_file loop_env loop_file (config_parser_new [])) = Ok () \<and>
   interfaces (cfg_network (cp_config (snd (parse_config_file loop_env loop_file (config_parser_new []))))) = replicate 20 [0x65]"
  using include_cycle_followed[OF loop_chain, of "config_parser_new []"] add_interface_times[of 0 20]
  by (simp add: config_parser_new_def on_config_def config_default_def network_config_default_def del: upt_rec_numeral)

end
