(* ===== verification/Config_Validator.thy ===== *)
theory Config_Validator
  imports Config_Parser
begin

text \<open>
  \<open>src/config/validator.rs\<close>, \<open>load_config\<close> of \<open>src/config/mod.rs\<close> and the reloader of
  \<open>src/config/reload.rs\<close>: the checks a configuration has to pass, what the program starts with, and
  what a reload leaves.  The theorems say what validated DHCP ranges are, that an accepted
  configuration gives every address to one range at most, and that a failed reload changes nothing.
\<close>

subsection \<open>Warnings and the file system\<close>

datatype validation_warning =
    LargeCacheSize nat nat
  | PrivilegedPort u16 string
  | UnusualTTL u32 string
  | LargeDhcpRange nat nat
  | ChrootWithoutPrivilegeDrop bytes
  | ManyUpstreamServers nat nat
  | UnusualLeaseTime u32 bytes

type_synonym validation = "(validation_warning list, config_error) outcome"

datatype path_kind = RegularFile | Directory | OtherFile

text \<open>What the validator asks of a path: its kind if it exists, and whether it can be opened.\<close>

record path_env =
  pe_exists :: "bytes \<Rightarrow> bool"
  pe_metadata :: "bytes \<Rightarrow> path_kind option"
  pe_can_open :: "bytes \<Rightarrow> bool"
  pe_can_read_dir :: "bytes \<Rightarrow> bool"

text \<open>\<open>Path::parent\<close>, on the reversed path: trailing separators and \<open>.\<close> components do not count.\<close>

fun trim_separators :: "bytes \<Rightarrow> bytes" where
  "trim_separators [] = []"
| "trim_separators [c] = (if c = 0x2F then [] else [c])"
| "trim_separators (c # d # r) =
     (if c = 0x2F then trim_separators (d # r)
      else if c = dot \<and> d = 0x2F then trim_separators (d # r)
      else c # d # r)"

definition path_parent :: "bytes \<Rightarrow> bytes option" where
  "path_parent path =
     (let s = trim_separators (rev path) in
      if s = [] then None
      else if 0x2F \<notin> set s then Some []
      else let r = trim_separators (dropWhile (\<lambda>c. c \<noteq> 0x2F) s) in
        Some (if r = [] then [0x2F] else rev r))"

subsection \<open>Single values\<close>

definition validate_ip_address :: "ip_addr \<Rightarrow> string \<Rightarrow> (unit, config_error) outcome" where
  "validate_ip_address addr context =
     (case addr of
        V4 os \<Rightarrow> if os = [0, 0, 0, 0] then Err (InvalidValue context ''IPv4 address 0.0.0.0 is not valid'') else Ok ()
      | V6 os \<Rightarrow> if os = replicate 16 0 then Err (InvalidValue context ''IPv6 address :: is not valid'') else Ok ())"

definition validate_hostname :: "bytes \<Rightarrow> string \<Rightarrow> (unit, config_error) outcome" where
  "validate_hostname hostname context =
     rbind (map_err (\<lambda>_. InvalidValue context ''Invalid hostname'') (types_name_new hostname)) (\<lambda>_. Ok ())"

definition validate_port :: "u16 \<Rightarrow> string \<Rightarrow> validation_warning list \<Rightarrow> validation" where
  "validate_port port context ws = Ok (if port < 1024 \<and> port \<noteq> 0 then ws @ [PrivilegedPort port context] else ws)"

definition validate_file_path :: "path_env \<Rightarrow> bytes \<Rightarrow> string \<Rightarrow> bool \<Rightarrow> (unit, config_error) outcome" where
  "validate_file_path F path context must_exist =
     (if must_exist then
        if \<not> pe_exists F path then Err (ValidationFailed (context @ '': file not found''))
        else (case pe_metadata F path of
          None \<Rightarrow> Err (ValidationFailed (context @ '': cannot access file''))
        | Some RegularFile \<Rightarrow>
            if pe_can_open F path then Ok () else Err (ValidationFailed (context @ '': cannot read file''))
        | Some Directory \<Rightarrow>
            if pe_can_read_dir F path then Ok () else Err (ValidationFailed (context @ '': cannot access directory''))
        | Some OtherFile \<Rightarrow> Ok ())
      else (case path_parent path of
          Some parent \<Rightarrow>
            if pe_exists F parent then Ok () else Err (ValidationFailed (context @ '': parent directory not found''))
        | None \<Rightarrow> Ok ()))"

definition validate_cache_size :: "nat \<Rightarrow> validation_warning list \<Rightarrow> validation" where
  "validate_cache_size n ws = Ok (if n > 10000 then ws @ [LargeCacheSize n 10000] else ws)"

definition validate_static_lease :: "static_lease \<Rightarrow> (unit, config_error) outcome" where
  "validate_static_lease l =
     rbind (validate_ip_address (sl_ip l) ''static lease IP'') (\<lambda>_.
     case sl_hostname l of Some h \<Rightarrow> validate_hostname h ''static lease hostname'' | None \<Rightarrow> Ok ())"

text \<open>\<open>validate_dhcp_options\<close> only logs the number of options.\<close>

definition validate_dhcp_options :: "config \<Rightarrow> (unit, config_error) outcome" where
  "validate_dhcp_options c = Ok ()"

fun each :: "('a \<Rightarrow> (unit, 'e) outcome) \<Rightarrow> 'a list \<Rightarrow> (unit, 'e) outcome" where
  "each f [] = Ok ()"
| "each f (x # xs) = rbind (f x) (\<lambda>_. each f xs)"

subsection \<open>DHCP ranges\<close>

definition ipv6_value :: "bytes \<Rightarrow> u128" where
  "ipv6_value os = foldl (\<lambda>n b. n * 256 + ucast b) 0 os"

definition range_interface :: "dhcp_range \<Rightarrow> bytes" where
  "range_interface r = (case rg_interface r of Some i \<Rightarrow> i | None \<Rightarrow> ascii ''unknown'')"

definition lease_time_warning :: "dhcp_range \<Rightarrow> validation_warning list \<Rightarrow> validation_warning list" where
  "lease_time_warning r ws =
     (case rg_lease_time_override r of
        None \<Rightarrow> ws
      | Some d \<Rightarrow>
          let lease_secs = d div 1000000000; shown = (if lease_secs < 2 ^ 32 then of_nat lease_secs else - 1) in
          if lease_secs < 300 then ws @ [UnusualLeaseTime shown (range_interface r)]
          else if lease_secs > 604800 then ws @ [UnusualLeaseTime shown (range_interface r)]
          else ws)"

text \<open>The count of the addresses of the whole IPv4 range overflows 32 bits.\<close>

fun v4_ranges_loop :: "bool \<Rightarrow> dhcp_range list \<Rightarrow> (u32 \<times> u32) list \<Rightarrow> validation_warning list \<Rightarrow>
    ((u32 \<times> u32) list \<times> validation_warning list, config_error) outcome" where
  "v4_ranges_loop ovf [] acc ws = Ok (acc, ws)"
| "v4_ranges_loop ovf (r # rs) acc ws =
     (case (rg_start r, rg_end r) of
        (V4 start, V4 stop) \<Rightarrow>
          if ipv4_u32 stop \<le> ipv4_u32 start
          then Err (InvalidIpRange (range_interface r) (rg_start r, rg_end r) ''start address must be less than end address'')
          else if ovf \<and> ipv4_u32 stop - ipv4_u32 start + 1 = 0 then Panic
          else let address_count = unat (ipv4_u32 stop - ipv4_u32 start + 1);
                   ws1 = (if address_count > MAXLEASES then ws @ [LargeDhcpRange address_count MAXLEASES] else ws) in
            v4_ranges_loop ovf rs (acc @ [(ipv4_u32 start, ipv4_u32 stop)]) (lease_time_warning r ws1)
      | _ \<Rightarrow> Err (InvalidIpRange (range_interface r) (rg_start r, rg_end r) ''DHCPv4 range must contain IPv4 addresses''))"

fun v6_ranges_loop :: "dhcp_range list \<Rightarrow> (u128 \<times> u128) list \<Rightarrow> validation_warning list \<Rightarrow>
    ((u128 \<times> u128) list \<times> validation_warning list, config_error) outcome" where
  "v6_ranges_loop [] acc ws = Ok (acc, ws)"
| "v6_ranges_loop (r # rs) acc ws =
     (case (rg_start r, rg_end r) of
        (V6 start, V6 stop) \<Rightarrow>
          if ipv6_value stop \<le> ipv6_value start
          then Err (InvalidIpRange (range_interface r) (rg_start r, rg_end r) ''start address must be less than end address'')
          else v6_ranges_loop rs (acc @ [(ipv6_value start, ipv6_value stop)]) (lease_time_warning r ws)
      | _ \<Rightarrow> Err (InvalidIpRange (range_interface r) (rg_start r, rg_end r) ''DHCPv6 range must contain IPv6 addresses''))"

text \<open>The two nested loops over pairs of ranges.\<close>

fun overlaps_any :: "'a :: linorder \<times> 'a \<Rightarrow> ('a \<times> 'a) list \<Rightarrow> bool" where
  "overlaps_any r [] = False"
| "overlaps_any (start1, end1) ((start2, end2) # rs) =
     (if \<not> (end1 < start2 \<or> end2 < start1) then True else overlaps_any (start1, end1) rs)"

fun check_overlaps :: "string \<Rightarrow> ('a :: linorder \<times> 'a) list \<Rightarrow> (unit, config_error) outcome" where
  "check_overlaps reason [] = Ok ()"
| "check_overlaps reason (r # rs) =
     (if overlaps_any r rs then Err (ValidationFailed reason) else check_overlaps reason rs)"

definition validate_dhcp_pools :: "bool \<Rightarrow> config \<Rightarrow> validation_warning list \<Rightarrow> validation" where
  "validate_dhcp_pools ovf c ws =
     rbind (v4_ranges_loop ovf (v4_ranges (cfg_dhcp c)) [] ws) (\<lambda>(ipv4, ws).
     rbind (v6_ranges_loop (v6_ranges (cfg_dhcp c)) [] ws) (\<lambda>(ipv6, ws).
     rbind (check_overlaps ''Overlapping IPv4 DHCP ranges'' ipv4) (\<lambda>_.
     rbind (check_overlaps ''Overlapping IPv6 DHCP ranges'' ipv6) (\<lambda>_. Ok ws))))"

subsection \<open>The whole configuration\<close>

definition validate_network_config :: "config \<Rightarrow> (unit, config_error) outcome" where
  "validate_network_config c =
     rbind (each (\<lambda>a. validate_ip_address a ''listen address'') (listen_addresses (cfg_network c))) (\<lambda>_.
     if set (interfaces (cfg_network c)) \<inter> set (except_interfaces (cfg_network c)) \<noteq> {}
     then Err (ValidationFailed ''Interfaces specified in both interface and except-interface'')
     else Ok ())"

definition validate_security_config :: "path_env \<Rightarrow> config \<Rightarrow> validation_warning list \<Rightarrow> validation" where
  "validate_security_config F c ws =
     (case sec_chroot (cfg_security c) of
        None \<Rightarrow> Ok ws
      | Some chroot_path \<Rightarrow>
          rbind (validate_file_path F chroot_path ''chroot directory'' True) (\<lambda>_.
          Ok (if sec_user (cfg_security c) = None \<and> sec_group (cfg_security c) = None
              then ws @ [ChrootWithoutPrivilegeDrop chroot_path] else ws)))"

definition validate_file_paths :: "bool \<Rightarrow> path_env \<Rightarrow> config \<Rightarrow> (unit, config_error) outcome" where
  "validate_file_paths tftp F c =
     rbind (case lease_file (cfg_dhcp c) of
        Some f \<Rightarrow> validate_file_path F f ''DHCP lease file'' False | None \<Rightarrow> Ok ()) (\<lambda>_.
     if tftp then (case tftp_prefix (cfg_tftp c) of
        Some d \<Rightarrow> validate_file_path F d ''TFTP root directory'' True | None \<Rightarrow> Ok ()) else Ok ())"

definition validate_cross_dependencies :: "bool \<Rightarrow> path_env \<Rightarrow> config \<Rightarrow> (unit, config_error) outcome" where
  "validate_cross_dependencies tftp F c =
     rbind (if tftp then (case tftp_prefix (cfg_tftp c) of
        Some d \<Rightarrow>
          if \<not> pe_exists F d then Err (ValidationFailed ''TFTP root directory does not exist'')
          else if pe_metadata F d \<noteq> Some Directory then Err (ValidationFailed ''TFTP root is not a directory'')
          else Ok ()
      | None \<Rightarrow> Ok ()) else Ok ()) (\<lambda>_.
     if bind_interfaces (cfg_network c) \<and> interfaces (cfg_network c) = [] \<and> listen_addresses (cfg_network c) = []
     then Err (ValidationFailed ''bind-interfaces enabled but no interfaces or listen-addresses specified'')
     else Ok ())"

definition validate_server :: "server_details \<Rightarrow> (unit, config_error) outcome" where
  "validate_server s =
     rbind (if sd_address s \<noteq> None then validate_ip_address (fst (sd_addr s)) ''upstream DNS server'' else Ok ()) (\<lambda>_.
     case sd_domain s of Some d \<Rightarrow> validate_hostname (tn_inner d) ''server domain restriction'' | None \<Rightarrow> Ok ())"

definition validator_validate :: "bool \<Rightarrow> bool \<Rightarrow> path_env \<Rightarrow> config \<Rightarrow> validation_warning list \<Rightarrow> validation" where
  "validator_validate tftp ovf F c ws =
     rbind (validate_port (net_port (cfg_network c)) ''DNS port'' ws) (\<lambda>ws.
     rbind (each validate_server (upstream_servers (cfg_dns c))) (\<lambda>_.
     rbind (if cache_size (cfg_dns c) > 0 then validate_cache_size (cache_size (cfg_dns c)) ws else Ok ws) (\<lambda>ws.
     rbind (each (\<lambda>d. validate_hostname (tn_inner d) ''domain filter'') (domain_filters (cfg_dns c))) (\<lambda>_.
     rbind (if v4_ranges (cfg_dhcp c) \<noteq> [] \<or> v6_ranges (cfg_dhcp c) \<noteq> [] then
         rbind (validate_dhcp_pools ovf c ws) (\<lambda>ws.
         rbind (each validate_static_lease (static_leases (cfg_dhcp c))) (\<lambda>_.
         rbind (validate_dhcp_options c) (\<lambda>_. Ok ws)))
       else Ok ws) (\<lambda>ws.
     rbind (validate_network_config c) (\<lambda>_.
     rbind (validate_security_config F c ws) (\<lambda>ws.
     rbind (validate_file_paths tftp F c) (\<lambda>_.
     rbind (validate_cross_dependencies tftp F c) (\<lambda>_. Ok ws)))))))))"

definition validate_and_warn :: "config \<Rightarrow> validation_warning list \<Rightarrow> validation_warning list" where
  "validate_and_warn c ws =
     (let n = length (upstream_servers (cfg_dns c)) in if n > 5 then ws @ [ManyUpstreamServers n 5] else ws)"

text \<open>The result of validation with the warnings it logs.\<close>

definition validate_config :: "bool \<Rightarrow> bool \<Rightarrow> path_env \<Rightarrow> config \<Rightarrow> validation" where
  "validate_config tftp ovf F c =
     rbind (validator_validate tftp ovf F c []) (\<lambda>ws. Ok (validate_and_warn c ws))"

text \<open>\<open>--test\<close>: the exit code and the number of warnings it prints.\<close>

definition run_test_mode :: "bool \<Rightarrow> bool \<Rightarrow> path_env \<Rightarrow> config \<Rightarrow> (int \<times> nat, unit) outcome" where
  "run_test_mode tftp ovf F c =
     (case validator_validate tftp ovf F c [] of
        Ok ws \<Rightarrow> Ok (0, length (validate_and_warn c ws))
      | Err e \<Rightarrow> Ok (1, 0)
      | Panic \<Rightarrow> Panic)"

subsection \<open>Loading and reloading\<close>

text \<open>\<open>args\<close> is what \<open>clap\<close> makes of the command line.\<close>

definition load_config :: "config_env \<Rightarrow> path_env \<Rightarrow> bytes \<Rightarrow> bytes \<Rightarrow> (cli_args, config_error) outcome \<Rightarrow>
    (config, config_error) outcome" where
  "load_config E F LEASEFILE CONFFILE args =
     rbind args (\<lambda>cli.
     rbind (if cli_no_conf cli then Ok (config_default LEASEFILE)
            else let config_path = (case cli_conf_file cli of Some f \<Rightarrow> f | None \<Rightarrow> CONFFILE) in
              if pe_exists F config_path then parse_file_conf E LEASEFILE config_path
              else if cli_conf_file cli \<noteq> None then Err (FileNotFound config_path)
              else Ok (config_default LEASEFILE)) (\<lambda>c.
     let c = builder_from_args cli c in
     rbind (validate_config (feat_tftp E) (overflow_checks E) F c) (\<lambda>_. builder_build c)))"

text \<open>
  A reload under the lock; \<open>timed_out\<close> tells that the file was not parsed in 30 seconds.  The
  result comes with the configuration the daemon then has.
\<close>

definition handle_reload :: "config_env \<Rightarrow> path_env \<Rightarrow> bytes \<Rightarrow> bytes \<Rightarrow> bool \<Rightarrow> config \<Rightarrow>
    (unit, config_error) outcome \<times> config" where
  "handle_reload E F LEASEFILE config_path timed_out c =
     (if timed_out then (Err (ValidationFailed ''Configuration reload timed out''), c)
      else case parse_file_conf E LEASEFILE config_path of
        Err e \<Rightarrow> (Err e, c)
      | Panic \<Rightarrow> (Panic, c)
      | Ok new_config \<Rightarrow>
          (case validate_config (feat_tftp E) (overflow_checks E) F new_config of
             Err e \<Rightarrow> (Err e, c)
           | Panic \<Rightarrow> (Panic, c)
           | Ok _ \<Rightarrow> (Ok (), new_config)))"

definition reload_config :: "config_env \<Rightarrow> path_env \<Rightarrow> bytes \<Rightarrow> bytes \<Rightarrow> bool \<Rightarrow> config \<Rightarrow>
    (unit, config_error) outcome \<times> config" where
  "reload_config E F LEASEFILE config_path timed_out c = handle_reload E F LEASEFILE config_path timed_out c"

text \<open>One reload per hangup signal, errors logged and the loop going on.\<close>

fun watch_for_changes :: "config_env list \<Rightarrow> path_env \<Rightarrow> bytes \<Rightarrow> bytes \<Rightarrow> config \<Rightarrow> config" where
  "watch_for_changes [] F LEASEFILE config_path c = c"
| "watch_for_changes (E # Es) F LEASEFILE config_path c =
     watch_for_changes Es F LEASEFILE config_path (snd (handle_reload E F LEASEFILE config_path False c))"

text \<open>What \<open>log_config_diff\<close> calls a change.\<close>

definition changes_detected :: "config \<Rightarrow> config \<Rightarrow> bool" where
  "changes_detected old new \<longleftrightarrow>
     net_port (cfg_network old) \<noteq> net_port (cfg_network new) \<or>
     cache_size (cfg_dns old) \<noteq> cache_size (cfg_dns new) \<or>
     dnssec_enabled (cfg_dns old) \<noteq> dnssec_enabled (cfg_dns new) \<or>
     interfaces (cfg_network old) \<noteq> interfaces (cfg_network new) \<or>
     (v4_ranges (cfg_dhcp old) \<noteq> [] \<or> v6_ranges (cfg_dhcp old) \<noteq> []) \<noteq>
       (v4_ranges (cfg_dhcp new) \<noteq> [] \<or> v6_ranges (cfg_dhcp new) \<noteq> []) \<or>
     sec_user (cfg_security old) \<noteq> sec_user (cfg_security new)"


subsection \<open>What validated ranges are\<close>

definition v4_pair :: "dhcp_range \<Rightarrow> u32 \<times> u32" where
  "v4_pair r = (case (rg_start r, rg_end r) of (V4 a, V4 b) \<Rightarrow> (ipv4_u32 a, ipv4_u32 b) | _ \<Rightarrow> (0, 0))"

definition v6_pair :: "dhcp_range \<Rightarrow> u128 \<times> u128" where
  "v6_pair r = (case (rg_start r, rg_end r) of (V6 a, V6 b) \<Rightarrow> (ipv6_value a, ipv6_value b) | _ \<Rightarrow> (0, 0))"

definition v4_ok :: "dhcp_range \<Rightarrow> bool" where
  "v4_ok r \<longleftrightarrow> is_v4_addr (rg_start r) \<and> is_v4_addr (rg_end r) \<and> fst (v4_pair r) < snd (v4_pair r)"

definition v6_ok :: "dhcp_range \<Rightarrow> bool" where
  "v6_ok r \<longleftrightarrow> \<not> is_v4_addr (rg_start r) \<and> \<not> is_v4_addr (rg_end r) \<and> fst (v6_pair r) < snd (v6_pair r)"

definition apart :: "'a :: linorder \<times> 'a \<Rightarrow> 'a \<times> 'a \<Rightarrow> bool" where
  "apart r s \<longleftrightarrow> snd r < fst s \<or> snd s < fst r"

lemma overlaps_any_iff: "overlaps_any r rs \<longleftrightarrow> (\<exists>s\<in>set rs. \<not> apart r s)"
  by (induction r rs rule: overlaps_any.induct) (auto simp: apart_def)

lemma check_overlaps_iff: "check_overlaps reason rs = Ok () \<longleftrightarrow> sorted_wrt apart rs"
  by (induction reason rs rule: check_overlaps.induct) (auto simp: overlaps_any_iff)

lemma v4_loop_sound:
  "v4_ranges_loop ovf rs acc ws = Ok (x, ws') \<Longrightarrow> list_all v4_ok rs \<and> x = acc @ map v4_pair rs"
proof (induction rs arbitrary: acc ws)
  case (Cons r rs)
  from Cons.prems obtain a b ws1 where ab: "rg_start r = V4 a" "rg_end r = V4 b" "\<not> ipv4_u32 b \<le> ipv4_u32 a"
    "v4_ranges_loop ovf rs (acc @ [(ipv4_u32 a, ipv4_u32 b)]) ws1 = Ok (x, ws')"
    by (auto simp: Let_def split: ip_addr.splits if_split_asm)
  then have "v4_ok r" "v4_pair r = (ipv4_u32 a, ipv4_u32 b)" by (auto simp: v4_ok_def v4_pair_def)
  with Cons.IH[OF ab(4)] show ?case by simp
qed simp

lemma v4_loop_complete:
  "list_all v4_ok rs \<Longrightarrow> \<exists>ws'. v4_ranges_loop False rs acc ws = Ok (acc @ map v4_pair rs, ws')"
proof (induction rs arbitrary: acc ws)
  case (Cons r rs)
  then obtain a b where ab: "rg_start r = V4 a" "rg_end r = V4 b" "\<not> ipv4_u32 b \<le> ipv4_u32 a"
    "v4_pair r = (ipv4_u32 a, ipv4_u32 b)"
    by (cases "rg_start r"; cases "rg_end r") (auto simp: v4_ok_def v4_pair_def)
  then show ?case using Cons.IH[of "acc @ [v4_pair r]"] Cons.prems by (simp add: Let_def)
qed simp

lemma v6_loop_sound:
  "v6_ranges_loop rs acc ws = Ok (x, ws') \<Longrightarrow> list_all v6_ok rs \<and> x = acc @ map v6_pair rs"
proof (induction rs arbitrary: acc ws)
  case (Cons r rs)
  from Cons.prems obtain a b ws1 where ab: "rg_start r = V6 a" "rg_end r = V6 b" "\<not> ipv6_value b \<le> ipv6_value a"
    "v6_ranges_loop rs (acc @ [(ipv6_value a, ipv6_value b)]) ws1 = Ok (x, ws')"
    by (auto split: ip_addr.splits if_split_asm)
  then have "v6_ok r" "v6_pair r = (ipv6_value a, ipv6_value b)" by (auto simp: v6_ok_def v6_pair_def)
  with Cons.IH[OF ab(4)] show ?case by simp
qed simp

lemma v6_loop_complete:
  "list_all v6_ok rs \<Longrightarrow> \<exists>ws'. v6_ranges_loop rs acc ws = Ok (acc @ map v6_pair rs, ws')"
proof (induction rs arbitrary: acc ws)
  case (Cons r rs)
  then obtain a b where ab: "rg_start r = V6 a" "rg_end r = V6 b" "\<not> ipv6_value b \<le> ipv6_value a"
    "v6_pair r = (ipv6_value a, ipv6_value b)"
    by (cases "rg_start r"; cases "rg_end r") (auto simp: v6_ok_def v6_pair_def)
  then show ?case using Cons.IH[of "acc @ [v6_pair r]"] Cons.prems by simp
qed simp

definition pools_ok :: "config \<Rightarrow> bool" where
  "pools_ok c \<longleftrightarrow>
     list_all v4_ok (v4_ranges (cfg_dhcp c)) \<and> sorted_wrt apart (map v4_pair (v4_ranges (cfg_dhcp c))) \<and>
     list_all v6_ok (v6_ranges (cfg_dhcp c)) \<and> sorted_wrt apart (map v6_pair (v6_ranges (cfg_dhcp c)))"

lemma pools_sound: "validate_dhcp_pools ovf c ws = Ok ws' \<Longrightarrow> pools_ok c"
  unfolding validate_dhcp_pools_def pools_ok_def
  by (auto simp: rbind_Ok_iff check_overlaps_iff dest!: v4_loop_sound v6_loop_sound)

lemma pools_complete: "pools_ok c \<Longrightarrow> \<exists>ws'. validate_dhcp_pools False c ws = Ok ws'"
proof -
  assume ok: "pools_ok c"
  then obtain ws1 where r4: "v4_ranges_loop False (v4_ranges (cfg_dhcp c)) [] ws = Ok (map v4_pair (v4_ranges (cfg_dhcp c)), ws1)"
    using v4_loop_complete[of "v4_ranges (cfg_dhcp c)" "[]" ws] by (auto simp: pools_ok_def)
  obtain ws2 where r6: "v6_ranges_loop (v6_ranges (cfg_dhcp c)) [] ws1 = Ok (map v6_pair (v6_ranges (cfg_dhcp c)), ws2)"
    using ok v6_loop_complete[of "v6_ranges (cfg_dhcp c)" "[]" ws1] by (auto simp: pools_ok_def)
  have "validate_dhcp_pools False c ws = Ok ws2"
    using ok by (simp add: validate_dhcp_pools_def r4 r6 pools_ok_def check_overlaps_iff[THEN iffD2])
  then show ?thesis by blast
qed

lemma validated_pools: "validate_config tftp ovf F c = Ok ws \<Longrightarrow> pools_ok c"
proof -
  assume v: "validate_config tftp ovf F c = Ok ws"
  show ?thesis
  proof (cases "v4_ranges (cfg_dhcp c) \<noteq> [] \<or> v6_ranges (cfg_dhcp c) \<noteq> []")
    case True
    then obtain ws1 ws2 where "validate_dhcp_pools ovf c ws1 = Ok ws2"
      using v by (auto simp: validate_config_def validator_validate_def rbind_Ok_iff)
    then show ?thesis by (rule pools_sound)
  qed (simp add: pools_ok_def)
qed

lemma builder_from_args_dhcp [simp]: "cfg_dhcp (builder_from_args cli c) = cfg_dhcp c"
  by (simp add: builder_from_args_def Let_def apply_if_def section_simps split: option.split)

lemma builder_from_args_wf: "config_wf c \<Longrightarrow> config_wf (builder_from_args cli c)"
proof -
  have "unat (n :: u64) < 2 ^ 64" for n using unsigned_less[of n] by simp
  then show "config_wf c \<Longrightarrow> config_wf (builder_from_args cli c)"
    by (simp add: builder_from_args_def Let_def apply_if_def section_simps config_wf_def dns_wf_def split: option.split)
qed

lemma parse_file_conf_wf: "parse_file_conf E lf path = Ok c \<Longrightarrow> config_wf c"
proof -
  have "frame (config_parser_new lf) (snd (parse_config_file E path (config_parser_new lf)))"
    unfolding parse_config_file_def by (rule parse_files_frame)
  then show "parse_file_conf E lf path = Ok c \<Longrightarrow> config_wf c"
    by (auto simp: parse_file_conf_def into_config_def frame_def config_parser_new_def default_wf rbind_Ok_iff
        split: prod.splits)
qed

text \<open>A configuration the daemon may run with.\<close>

definition running_config :: "path_env \<Rightarrow> config \<Rightarrow> bool" where
  "running_config F c \<longleftrightarrow> config_wf c \<and> (\<exists>tftp ovf ws. validate_config tftp ovf F c = Ok ws)"

lemma load_config_runs:
  assumes "load_config E F lf cf args = Ok c"
  shows "running_config F c" "config_validate c = Ok ()"
proof -
  from assms obtain cli c0 ws where c0: "c0 = config_default lf \<or> (\<exists>path. parse_file_conf E lf path = Ok c0)"
    and v: "validate_config (feat_tftp E) (overflow_checks E) F (builder_from_args cli c0) = Ok ws"
    and b: "builder_build (builder_from_args cli c0) = Ok c"
    unfolding load_config_def rbind_Ok_iff Let_def by (auto split: if_split_asm)
  from b have c: "c = builder_from_args cli c0" "config_validate c = Ok ()"
    by (auto simp: builder_build_def rbind_Ok_iff)
  from c0 have "config_wf c0" using default_wf parse_file_conf_wf by auto
  then show "running_config F c" using v builder_from_args_wf c(1) by (auto simp: running_config_def)
  show "config_validate c = Ok ()" by (rule c(2))
qed

lemma handle_reload_cases:
  assumes "handle_reload E F lf path t c = (r, c')"
  shows "c' = c \<or> running_config F c'"
  using assms parse_file_conf_wf[of E lf path]
  by (auto simp: handle_reload_def running_config_def split: if_splits outcome.splits)

lemma watch_runs: "running_config F c \<Longrightarrow> running_config F (watch_for_changes Es F lf path c)"
proof (induction Es arbitrary: c)
  case (Cons E Es)
  have "snd (handle_reload E F lf path False c) = c \<or> running_config F (snd (handle_reload E F lf path False c))"
    using handle_reload_cases[of E F lf path False c] by (cases "handle_reload E F lf path False c") auto
  then show ?case using Cons by auto
qed simp


lemma running_pools: "running_config F c \<Longrightarrow> pools_ok c"
  using validated_pools by (auto simp: running_config_def)

text \<open>The addresses the DHCPv4 service hands out from a range.\<close>

definition range_pool :: "dhcp_range \<Rightarrow> bytes set" where
  "range_pool r = (case (rg_start r, rg_end r) of (V4 s, V4 e) \<Rightarrow> set (pool s e) | _ \<Rightarrow> {})"

lemma in_range_pool:
  "ip \<in> range_pool r \<Longrightarrow> fst (v4_pair r) \<le> ipv4_u32 ip \<and> ipv4_u32 ip \<le> snd (v4_pair r)"
proof -
  assume ip: "ip \<in> range_pool r"
  then obtain s e where r: "rg_start r = V4 s" "rg_end r = V4 e" "ip \<in> set (pool s e)"
    by (auto simp: range_pool_def split: ip_addr.splits)
  then have "length ip = 4" by (auto simp: pool_def)
  then have "ip_in_range ip s e" using r(3) pool_iff by blast
  then show ?thesis by (simp add: v4_pair_def r ip_in_range_def)
qed

lemma apart_pools:
  assumes "sorted_wrt apart (map v4_pair rs)" "i < length rs" "j < length rs"
    "ip \<in> range_pool (rs ! i)" "ip \<in> range_pool (rs ! j)"
  shows "i = j"
proof -
  have no: "\<not> k < l" if "k < length rs" "l < length rs" "ip \<in> range_pool (rs ! k)" "ip \<in> range_pool (rs ! l)" for k l
  proof
    assume "k < l"
    then have "apart (v4_pair (rs ! k)) (v4_pair (rs ! l))"
      using assms(1) that by (auto simp: sorted_wrt_iff_nth_less)
    then show False using in_range_pool[OF that(3)] in_range_pool[OF that(4)] by (auto simp: apart_def)
  qed
  from no[OF assms(2,3,4,5)] no[OF assms(3,2,5,4)] show ?thesis by simp
qed

lemma parse_prefix_range:
  assumes "parse_dhcp_range E (Some v) p = Ok p'" "0x2F \<in> set (hd (split_on 0x2C v))"
  obtains rg where "p' = add_dhcp_range rg p" "rg_start rg = rg_end rg"
proof -
  from assms(1) obtain y and q :: range_params where y: "range_addresses (split_on 0x2C v) p = Ok y"
    and p': "add_dhcp_range \<lparr>rg_start = fst y, rg_end = fst (snd y),
      rg_lease_time_override = map_option secs (rp_lease_time q),
      rg_netmask = rp_netmask q, rg_interface = rp_interface q, rg_lease_time = rp_lease_time q,
      rg_is_ipv6 = \<not> is_v4_addr (fst y), rg_prefix_len = snd (snd y)\<rparr> p = p'"
    unfolding parse_dhcp_range_def Let_def rbind_Ok_iff case_prod_beta outcome.inject value_or_def ok_or.simps by blast
  have "fst y = fst (snd y)" using y assms(2)
    by (auto simp: range_addresses_def rbind_Ok_iff split: list.split_asm)
  then show thesis by (intro that[OF p'[symmetric]]) simp
qed

lemma equal_ends_not_ok: "rg_start r = rg_end r \<Longrightarrow> \<not> v4_ok r \<and> \<not> v6_ok r"
  by (cases "rg_end r") (auto simp: v4_ok_def v6_ok_def v4_pair_def v6_pair_def)

subsection \<open>Properties\<close>

text \<open>
  C38: range validation is exact.  The validator accepts the DHCP ranges exactly if every range has a start below
  its end, both of the family of its list, and any two ranges of a family are disjoint; the pairwise loops
  and the early returns neither miss nor invent a conflict.
\<close>

theorem pools_validated_iff: "(\<exists>ws'. validate_dhcp_pools False c ws = Ok ws') \<longleftrightarrow> pools_ok c"
  using pools_sound pools_complete by blast

text \<open>
  C39: no address is in two pools of a running daemon.  Once the program has started with a configuration, and
  after any sequence of reloads of its file, successful or not, the sets of addresses the DHCPv4
  service allocates from two different ranges are disjoint.
\<close>

theorem loaded_pools_disjoint:
  assumes "load_config E F LEASEFILE CONFFILE args = Ok c"
    and "c' = watch_for_changes Es F LEASEFILE path c"
    and "i < length (v4_ranges (cfg_dhcp c'))" "j < length (v4_ranges (cfg_dhcp c'))"
    and "ip \<in> range_pool (v4_ranges (cfg_dhcp c') ! i)" "ip \<in> range_pool (v4_ranges (cfg_dhcp c') ! j)"
  shows "i = j"
proof -
  have "running_config F c'" using watch_runs load_config_runs(1)[OF assms(1)] assms(2) by blast
  then have "sorted_wrt apart (map v4_pair (v4_ranges (cfg_dhcp c')))"
    using running_pools by (auto simp: pools_ok_def)
  then show ?thesis using assms(3-6) by (rule apart_pools)
qed

text \<open>Every path exists and can be opened.\<close>

definition any_path :: path_env where
  "any_path = \<lparr>pe_exists = (\<lambda>_. True), pe_metadata = (\<lambda>_. Some Directory), pe_can_open = (\<lambda>_. True),
     pe_can_read_dir = (\<lambda>_. True)\<rparr>"

definition example_range_text :: bytes where "example_range_text = ascii ''10.0.0.1,10.0.0.9''"

definition range_env :: config_env where
  "range_env = loop_env\<lparr>ce_open := (\<lambda>f. Some [Some (ascii ''dhcp-range='' @ example_range_text @ [10])])\<rparr>"

definition example_range :: dhcp_range where
  "example_range = \<lparr>rg_start = V4 [10, 0, 0, 1], rg_end = V4 [10, 0, 0, 9], rg_lease_time_override = None,
     rg_netmask = None, rg_interface = None, rg_lease_time = None, rg_is_ipv6 = False, rg_prefix_len = 0\<rparr>"

definition example_cli :: cli_args where
  "example_cli = \<lparr>cli_conf_file = Some (ascii ''/c''), cli_no_conf = False, cli_no_daemon = True, cli_user = None,
     cli_group = None, cli_port = Some 5353, cli_cache_size = None, cli_domain_needed = False,
     cli_bogus_priv = False, cli_interface = [], cli_listen_address = [], cli_log_queries = False,
     cli_log_dhcp = False, cli_stop_dns_rebind = False\<rparr>"

definition range_config :: config where
  "range_config = on_dhcp (v4_ranges_update (\<lambda>xs. xs @ [example_range])) (config_default [])"

lemma range_line:
  "parse_line range_env (ascii ''dhcp-range='' @ example_range_text @ [10]) p =
   (Ok (), on_config (on_dhcp (v4_ranges_update (\<lambda>xs. xs @ [example_range]))) p)"
proof -
  have ev: "process_quotes_and_escapes (ascii ''dhcp-range='' @ example_range_text @ [10]) =
      Ok (ascii ''dhcp-range'' @ 0x3D # example_range_text @ [10])"
    "0x23 \<notin> set (example_range_text @ [10])" "0x3B \<notin> set (example_range_text @ [10])"
    "str_trim (trim_end_ws (example_range_text @ [10])) = example_range_text"
    "split_on 0x2C example_range_text = [ascii ''10.0.0.1'', ascii ''10.0.0.9'']"
    "0x2F \<notin> set (ascii ''10.0.0.1'')"
    "parse_ip_addr (str_trim (ascii ''10.0.0.1'')) = Some (V4 [10, 0, 0, 1])"
    "parse_ip_addr (str_trim (ascii ''10.0.0.9'')) = Some (V4 [10, 0, 0, 9])"
    by code_simp+
  have "(''dhcp-range'', parse_dhcp_range range_env) \<in> set (option_handlers range_env)"
    by (simp add: option_handlers_def)
  from parse_processed_line[OF this ev(1-3)] show ?thesis
    by (simp add: ev run_handler_def parse_dhcp_range_def value_or_def parsed_or_def range_addresses_def Let_def
        add_dhcp_range_def example_range_def)
qed

lemma range_file: "parse_file_conf range_env [] (ascii ''/c'') = Ok range_config"
proof -
  have "\<not> continued (trim_end_ws (ascii ''dhcp-range='' @ example_range_text @ [10]))" by code_simp
  moreover have "length (ascii ''dhcp-range='' @ example_range_text @ [10]) \<le> MAX_CONFIG_LINE_LENGTH"
    by (simp add: ascii_def example_range_text_def MAX_CONFIG_LINE_LENGTH_def)
  ultimately have "parse_reader range_env [Some (ascii ''dhcp-range='' @ example_range_text @ [10])] [] False q =
      (Ok (), on_config (on_dhcp (v4_ranges_update (\<lambda>xs. xs @ [example_range]))) (q\<lparr>current_line := current_line q + 1\<rparr>))" for q
    by (simp add: Let_def range_line del: append.simps)
  moreover have "ce_canonicalize range_env = Some"
    "ce_open range_env f = Some [Some (ascii ''dhcp-range='' @ example_range_text @ [10])]" for f
    by (simp_all add: range_env_def loop_env_def)
  ultimately have "parse_one range_env True (ascii ''/c'') 0 (config_parser_new []) = (Includes [],
      on_config (on_dhcp (v4_ranges_update (\<lambda>xs. xs @ [example_range]))) (config_parser_new []))"
    by (simp add: parse_one_def MAX_INCLUDE_DEPTH_def config_parser_new_def Let_def on_config_def
        del: parse_reader.simps)
  then show ?thesis
    by (simp add: parse_file_conf_def parse_config_file_def parse_files.simps(2) into_config_def range_config_def
        config_parser_new_def)
qed

lemma range_config_parts:
  "v4_ranges (cfg_dhcp range_config) = [example_range]" "v6_ranges (cfg_dhcp range_config) = []"
  "static_leases (cfg_dhcp range_config) = []" "lease_file (cfg_dhcp range_config) = Some []"
  "default_lease_time (cfg_dhcp range_config) = secs DEFLEASE"
  "cfg_dns range_config = dns_settings_default" "cfg_network range_config = network_config_default"
  "cfg_tftp range_config = tftp_settings_default" "cfg_security range_config = security_config_default"
  by (simp_all add: range_config_def config_default_def section_simps dhcp_settings_default_def)

lemma range_config_loads: "\<exists>c. load_config range_env any_path [] [] (Ok example_cli) = Ok c \<and>
    v4_ranges (cfg_dhcp c) = [example_range]"
proof -
  let ?c = "builder_from_args example_cli range_config"
  have "ipv4_u32 [10, 0, 0, 1] < ipv4_u32 [10, 0, 0, 9]" by code_simp
  then have "pools_ok ?c" by (simp add: pools_ok_def range_config_parts v4_ok_def v4_pair_def example_range_def)
  then obtain ws where pools: "validate_dhcp_pools False ?c [] = Ok ws" using pools_complete by blast
  have parts: "net_port (cfg_network ?c) = 5353" "upstream_servers (cfg_dns ?c) = []" "cache_size (cfg_dns ?c) = 150"
    "domain_filters (cfg_dns ?c) = []" "listen_addresses (cfg_network ?c) = []" "interfaces (cfg_network ?c) = []"
    "except_interfaces (cfg_network ?c) = []" "sec_chroot (cfg_security ?c) = None" "tftp_prefix (cfg_tftp ?c) = None"
    "bind_interfaces (cfg_network ?c) = False"
    by (simp_all add: builder_from_args_def Let_def apply_if_def section_simps example_cli_def range_config_parts
        dns_settings_default_def network_config_default_def security_config_default_def tftp_settings_default_def)
  have flags: "feat_tftp range_env" "\<not> overflow_checks range_env" by (simp_all add: range_env_def loop_env_def)
  have "validate_config True False any_path ?c = Ok ws"
    by (simp add: validate_config_def validator_validate_def validate_port_def validate_cache_size_def parts pools
        range_config_parts validate_dhcp_options_def validate_network_config_def validate_security_config_def
        validate_file_paths_def validate_file_path_def any_path_def validate_cross_dependencies_def
        validate_and_warn_def path_parent_def)
  moreover have "config_validate ?c = Ok ()"
    by (simp add: config_validate_iff parts range_config_parts example_range_def DEFLEASE_def secs_def)
  ultimately have "load_config range_env any_path [] [] (Ok example_cli) = Ok ?c"
    using flags by (simp add: load_config_def example_cli_def[THEN arg_cong[of _ _ cli_no_conf]]
        example_cli_def[THEN arg_cong[of _ _ cli_conf_file]] any_path_def[THEN arg_cong[of _ _ pe_exists]] range_file Let_def builder_build_def)
  then show ?thesis by (auto simp: range_config_parts)
qed

theorem loaded_pools_disjoint_witness:
  "\<exists>c. load_config range_env any_path [] [] (Ok example_cli) = Ok c \<and>
     [10, 0, 0, 5] \<in> range_pool (v4_ranges (cfg_dhcp c) ! 0) \<and>
     (\<forall>j<length (v4_ranges (cfg_dhcp c)). [10, 0, 0, 5] \<in> range_pool (v4_ranges (cfg_dhcp c) ! j) \<longrightarrow> j = 0)"
proof -
  obtain c where c: "load_config range_env any_path [] [] (Ok example_cli) = Ok c" "v4_ranges (cfg_dhcp c) = [example_range]"
    using range_config_loads by blast
  have "ip_in_range [10, 0, 0, 5] [10, 0, 0, 1] [10, 0, 0, 9]" by code_simp
  then have ip: "[10, 0, 0, 5] \<in> range_pool (v4_ranges (cfg_dhcp c) ! 0)"
    using pool_iff[of "[10, 0, 0, 5]"] by (simp add: c(2) example_range_def range_pool_def)
  have "j = 0" if "j < length (v4_ranges (cfg_dhcp c))" "[10, 0, 0, 5] \<in> range_pool (v4_ranges (cfg_dhcp c) ! j)" for j
    using loaded_pools_disjoint[OF c(1), of c "[]" "[]" j 0 "[10, 0, 0, 5]"] that ip c(2) by simp
  then show ?thesis using c ip by auto
qed

text \<open>
  C40: a range in prefix notation can be parsed but never be used.  Whenever the parser accepts a DHCP range
  whose first part is a prefix, the configuration it makes is rejected by the validator: the parser sets both
  ends to the prefix address, and the validator demands that the start is less than the end.
\<close>

theorem prefix_range_never_validates:
  assumes "parse_dhcp_range E (Some v) p = Ok p'" "0x2F \<in> set (hd (split_on 0x2C v))"
  shows "validate_config tftp ovf F (cp_config p') \<noteq> Ok ws"
proof
  assume "validate_config tftp ovf F (cp_config p') = Ok ws"
  then have ok: "pools_ok (cp_config p')" by (rule validated_pools)
  obtain rg where rg: "p' = add_dhcp_range rg p" "rg_start rg = rg_end rg"
    using assms by (rule parse_prefix_range)
  then have "v4_ok rg \<or> v6_ok rg" using ok
    by (auto simp: add_dhcp_range_def pools_ok_def section_simps split: if_splits)
  then show False using equal_ends_not_ok[OF rg(2)] by blast
qed

definition example_prefix :: bytes where "example_prefix = ascii ''2001:db8::/64''"

theorem prefix_range_never_validates_witness:
  "\<exists>p'. parse_dhcp_range loop_env (Some example_prefix) (config_parser_new []) = Ok p' \<and>
     validate_config True False any_path (cp_config p') \<noteq> Ok []"
proof -
  have ev: "split_on 0x2C example_prefix = [example_prefix]" "0x2F \<in> set (hd (split_on 0x2C example_prefix))"
    "split_on 0x2F (str_trim example_prefix) = [ascii ''2001:db8::'', ascii ''64'']"
    "parse_ip_addr (str_trim (ascii ''2001:db8::'')) = Some (V6 ([0x20, 1, 0x0D, 0xB8] @ replicate 12 0))"
    by code_simp+
  have len: "str_trim (ascii ''64'') = ascii ''64''" by code_simp
  have "parse_dec 255 (ascii ''64'') = Some 64"
    by (simp add: parse_dec_def ascii_def dec_value_def is_digit_def Let_def)
  then have "\<exists>p'. parse_dhcp_range loop_env (Some example_prefix) (config_parser_new []) = Ok p'"
    using ev by (simp add: parse_dhcp_range_def value_or_def parsed_or_def range_addresses_def Let_def len)
  then show ?thesis using prefix_range_never_validates[OF _ ev(2)] by blast
qed

end
