(* ===== verification/Spec2Isabelle.thy ===== *)
theory Spec2Isabelle
  imports Dhcp4_Service Dhcp6_Service Dns_Filter Dns_Service Tftp Radv Patterns Config_Validator
begin

text \<open>
  A verification of the Rust port of dnsmasq under \<open>src/src\<close>: a DNS forwarder with a cache, DHCP servers for IPv4 and
  IPv6, a TFTP server and router advertisements in one process, driven by a configuration file.

  How the parts interact.  A DNS query is answered by the service (\<open>dns/mod.rs\<close>) from the cache, from an
  authoritative zone or by the forwarder, which selects an upstream server from the pool, keeps the
  query among the outstanding ones until a response, an error or a timeout, and stores the response in
  the cache.  The DHCP services answer one datagram at a time over one lease manager, which keeps the
  repository of leases, enters the names of the clients into the same DNS cache, tells the lease script
  and writes the lease file.  This theory composes the DHCP services and the cache (\<open>run_daemon\<close>).

  Conventions.  Machine integers are words, byte strings are lists of bytes, structs are records and
  enums are datatypes with the names of the source.  A fallible function returns an \<open>outcome\<close>: a value, an
  error, or \<open>Panic\<close> for an index, slice or arithmetic operation of the source that would panic.  The
  clock, sockets, random numbers, the file system, the iteration order of hash maps, and the crates
  lru, idna, regex and tokio are arguments; what is assumed of them is stated as a locale or a named
  hypothesis.  Loops are structural recursion, functions with a termination proof, or partial
  functions (\<open>pool_scan\<close>, \<open>glob_loop\<close>) that are proved to return.  Fuel occurs in two places: the number of ticks for which the periodic advertisement task is followed, which is a
  variable of its theorem, and the number of acknowledgements of the TFTP client, which is the
  number of blocks and proved to be enough.

  The theories, with what their lemmas show:

  \<^item> Prelude: words, outcomes, big-endian coding, Rust's string operations; Rust_Str: more of \<open>str\<close>;
    Rust_Net: reading and printing of addresses, with the round trip for IPv4; Core_Types:
    \<open>types.rs\<close> and \<open>error.rs\<close>.
  \<^item> Name_Wire: the encoding of names of RFC 1035 as an inductive relation, and the locale \<open>name_walker\<close>
    of the four loops that walk it (interpreted in Compression, Domain_Name and Dns_Filter).
  \<^item> Compression, Domain_Name, Edns0, Resource_Record, Message (\<open>dns/protocol\<close>, \<open>dns/edns0.rs\<close>): encoders and
    decoders; round trips, the exact set of accepted names, absence of panics.
  \<^item> Dns_Cache (\<open>dns/cache.rs\<close>): the locale \<open>lru_cache\<close> states the laws of the lru crate and is interpreted on
    \<open>list_lru\<close>; reachable states are consistent, lookups follow the map, recently used entries survive.
  \<^item> Matcher (\<open>dns/matcher.rs\<close>), Upstream (\<open>dns/upstream.rs\<close>), Auth (\<open>dns/auth.rs\<close>), Dns_Filter (\<open>dns/filter.rs\<close>),
    Trust_Anchors (\<open>dns/dnssec/trust_anchors.rs\<close>): matching against its specification, fair selection
    of servers, authoritative answers, what the filter removes, the anchor file.
  \<^item> Forwarder (\<open>dns/forwarder.rs\<close>): queries, responses, retries and the blocking variant.  \<open>fwd_step\<close> is the
    relation of the critical sections of all tasks; its invariant holds in every intermediate state,
    and every handler is proved to be a sequence of such steps with other tasks running at its waits.
  \<^item> Dns_Service (\<open>dns/mod.rs\<close>): resolution through cache, zones and forwarder.
  \<^item> Dhcp_Lease, Lease_Database, Lease_Manager (\<open>dhcp/lease\<close>, parts of \<open>dhcp/common.rs\<close>): the locale
    \<open>lease_repository\<close> is the trait of the source, interpreted on the memory repository; the lease file
    is read back; script events replay to the leases held.  The locale \<open>manager_environment\<close> extends
    \<open>lru_cache\<close> with an iteration order of the hash map of leases.
  \<^item> Dhcp4_Options, Dhcp4_Message, Dhcp4_Protocol, Dhcp4_Service (\<open>dhcp/v4\<close>) and Dhcp6_Message, Dhcp6_Options,
    Dhcp6_Protocol, Dhcp6_Service (\<open>dhcp/v6\<close>): messages, handlers, address selection and the server
    loops; what a reply promises is what the repository holds, and other clients' leases are left alone.
  \<^item> Tftp (\<open>tftp/transfer.rs\<close>, \<open>tftp/server.rs\<close>): delivery of a file, confinement to the root, limits.
  \<^item> Radv (\<open>radv\<close>): packets, the schedule of the advertisement task, derived addresses.
  \<^item> Patterns (\<open>util/patterns.rs\<close>): the glob matcher equals its recursive definition.
  \<^item> Config_Types, Config_Parser, Config_Validator (\<open>config\<close>): defaults and merging, every option of the
    file, quoting, includes, validation and reloading.

  Several theorems show what the code does where that is not what its documentation says, such as
  the cycle of includes that is followed twenty files deep or the prefix ranges no configuration can
  use; the conditions under which an expected property holds are hypotheses of its theorem.

  Not modelled: the cryptography and the validation of DNSSEC (\<open>dns/dnssec\<close> but for the trust anchors), which
  wrap external crates and are never called by the service; \<open>network\<close> and \<open>platform\<close>, which are
  system calls and message buses; \<open>runtime\<close>, which schedules the services on tokio; logging, metrics,
  packet capture and the other helpers of \<open>util\<close>; the tables of constants, of which the modelled
  code has what it uses; the command line parser, which clap generates; \<open>main.rs\<close> and \<open>lib.rs\<close>; the tests,
  examples and benchmarks.
\<close>

section \<open>The services together\<close>

text \<open>
  The DHCPv4 service, the DHCPv6 service and the resolver share one lease manager and one DNS cache.  An event
  is a datagram or tick of one of the DHCP services or an access of the resolver to the cache; they may
  interleave in any order.
\<close>

datatype 'l daemon_event =
    Dhcp4Datagram "'l manager_env" bytes sock_addr
  | Dhcp6Event "'l event6"
  | CacheLookup timestamp domain_name record_type
  | CacheStore cache_entry
  | CachePrune "(cache_id \<times> cache_entry) list \<Rightarrow> (cache_id \<times> cache_entry) list" timestamp

definition daemon_step :: "'l lru_ops \<Rightarrow> dhcp_config \<Rightarrow> 'l daemon_event \<Rightarrow> 'l lease_manager \<Rightarrow> 'l lease_manager" where
  "daemon_step L cfg ev m =
     (case ev of
        Dhcp4Datagram E datagram source \<Rightarrow> snd (snd (receive_and_handle E cfg datagram source m))
      | Dhcp6Event e \<Rightarrow> snd (serve6 e m)
      | CacheLookup now d t \<Rightarrow> m\<lparr>lm_cache := snd (find_by_name L now d t (lm_cache m))\<rparr>
      | CacheStore e \<Rightarrow> m\<lparr>lm_cache := cache_insert L e (lm_cache m)\<rparr>
      | CachePrune iter now \<Rightarrow> m\<lparr>lm_cache := snd (prune_expired L iter now (lm_cache m))\<rparr>)"

definition run_daemon :: "'l lru_ops \<Rightarrow> dhcp_config \<Rightarrow> 'l daemon_event list \<Rightarrow> 'l lease_manager \<Rightarrow> 'l lease_manager" where
  "run_daemon L cfg evs m = fold (daemon_step L cfg) evs m"

fun daemon_env :: "'l daemon_event \<Rightarrow> 'l manager_env option" where
  "daemon_env (Dhcp4Datagram E _ _) = Some E"
| "daemon_env (Dhcp6Event e) = event_env e"
| "daemon_env _ = None"

lemma daemon_step_reach:
  assumes "manager_reach ok L m0 m" "case daemon_env ev of Some E \<Rightarrow> ok E | None \<Rightarrow> True"
  shows "manager_reach ok L m0 (daemon_step L cfg ev m)"
  using assms serve6_reach[OF assms(1)]
  by (cases ev) (auto simp: daemon_step_def intro: service_step_reach manager_reach.intros)

lemma run_daemon_reach:
  "manager_reach ok L m0 m \<Longrightarrow> \<forall>ev\<in>set evs. case daemon_env ev of Some E \<Rightarrow> ok E | None \<Rightarrow> True \<Longrightarrow>
   manager_reach ok L m0 (run_daemon L cfg evs m)"
  unfolding run_daemon_def by (induction evs arbitrary: m) (simp_all add: daemon_step_reach)

text \<open>
  C12: whatever datagrams the two DHCP services receive, and however they interleave with the resolver's use of
  the cache, lease repository and DNS cache stay consistent, and the events told to the lease script,
  replayed, give exactly the addresses leased now.
\<close>

theorem daemon_invariant:
  assumes "lru_cache L items cap" and "\<forall>ev\<in>set evs. case daemon_env ev of Some E \<Rightarrow> runs_on L items cap E | None \<Rightarrow> True"
    and "manager_inv items cap m" and "manager_config.script_path (lm_config m) \<noteq> None" and "lm_log m = []"
  shows "manager_inv items cap (run_daemon L cfg evs m) \<and>
    replay (held m) (lm_log (run_daemon L cfg evs m)) = Some (held (run_daemon L cfg evs m))"
proof -
  have "script_view (held m) m" using assms(4,5) by (simp add: script_view_def)
  from manager_reach_inv[OF assms(1) run_daemon_reach[OF manager_reach.start assms(2)] assms(3) this]
  show ?thesis by (simp add: script_view_def)
qed

theorem daemon_invariant_witness:
  "manager_inv fst snd (run_daemon list_lru example_cfg
     [Dhcp4Datagram (example_env 5) (serialize_dhcp_message (example_dhcp_message [Opt_MessageType message_type.Request, Opt_RequestedIpAddress [10, 0, 0, 1]])) (V4 [10, 0, 0, 9], 68),
      CacheLookup 6 \<lparr>dn_name = [0x61]\<rparr> RT_A,
      Dhcp6Event (Datagram example_server6 (client_request [1, 2, 3] [9] [0, 3, 0, 1] 7 (example_addr6 1)) (V6 (example_addr6 5), 546)),
      Dhcp6Event (LeaseCheck (example_env 7))] example_manager)"
  using daemon_invariant[OF ll.lru_cache_axioms, of "[Dhcp4Datagram (example_env 5) (serialize_dhcp_message
      (example_dhcp_message [Opt_MessageType message_type.Request, Opt_RequestedIpAddress [10, 0, 0, 1]])) (V4 [10, 0, 0, 9], 68),
      CacheLookup 6 \<lparr>dn_name = [0x61]\<rparr> RT_A,
      Dhcp6Event (Datagram example_server6 (client_request [1, 2, 3] [9] [0, 3, 0, 1] 7 (example_addr6 1)) (V6 (example_addr6 5), 546)),
      Dhcp6Event (LeaseCheck (example_env 7))]" example_manager example_cfg]
    example_runs example_manager_inv by (simp add: example_server6_simps)

end
